(* ===== verification/Prelude.thy ===== *)
theory Prelude
  imports Main "HOL-Library.Word" "HOL-Library.Monad_Syntax"
begin

text \<open>
  The vocabulary shared by every component of the development: machine integers at their C
  width, byte strings, addresses, singly and doubly linked lists threaded through a store, and
  the generic lemmas on words, lists and options that carry the component proofs.

  A pointer is a natural number and \<open>0\<close> is the null pointer. A function of the source that
  can fail to return (a failed \<open>assert\<close>, \<open>abort\<close>, \<open>exit\<close>, or a loop over a cyclic
  structure) has a result of type \<open>'a option\<close>, \<open>None\<close> meaning that it does not return.
\<close>

unbundle bit_operations_syntax

section \<open>Types\<close>

type_synonym u8 = "8 word"
type_synonym u16 = "16 word"
type_synonym u32 = "32 word"
type_synonym u64 = "64 word"
type_synonym addr = nat
type_synonym bytes = "u8 list"

abbreviation (input) NULL :: addr where "NULL \<equiv> 0"

text \<open>Rules that turn word operations into arithmetic on naturals.\<close>

named_theorems word_nat

lemmas [word_nat] = unat_word_ariths unsigned_ucast_eq

section \<open>Words\<close>

lemma unat_ucast_u8_u32 [simp]: "unat (ucast (b :: u8) :: u32) = unat b"
  by (simp add: unsigned_ucast_eq take_bit_nat_eq_self less_le_trans [OF unsigned_less])

lemma unat_u8_less [simp]: "unat (b :: u8) < 256"
  using unsigned_less [of b] by simp

lemma unat_u32_less [simp]: "unat (w :: u32) < 4294967296"
  using unsigned_less [of w] by simp

lemma word_and_mask_take_bit: "(w :: 'a :: len word) AND mask n = take_bit n w"
  by (simp add: take_bit_eq_mask)

lemma unat_take_bit: "unat (take_bit n (w :: 'a :: len word)) = unat w mod 2 ^ n"
  by (simp add: unsigned_take_bit_eq take_bit_eq_mod [of n "unat w"])

section \<open>Lists\<close>

lemma find_unique:
  assumes "P x" "x \<in> set xs" "\<And>y. y \<in> set xs \<Longrightarrow> P y \<Longrightarrow> y = x"
  shows "find P xs = Some x"
  using assms
proof (induction xs)
  case (Cons a xs)
  show ?case
  proof (cases "P a")
    case True
    then have "a = x" by (intro Cons.prems(3)) simp_all
    with True show ?thesis by simp
  next
    case False
    with Cons.prems(1,2) have "x \<in> set xs" by auto
    then have "find P xs = Some x"
      by (intro Cons.IH Cons.prems) (use Cons.prems(3) in auto)
    with False show ?thesis by simp
  qed
qed simp

section \<open>Lists threaded through a store\<close>

text \<open>
  \<open>chain nx p xs\<close>: following \<open>nx\<close> from \<open>p\<close> visits exactly the non-null addresses
  \<open>xs\<close> and then reaches the null pointer.
\<close>

fun chain :: "(addr \<Rightarrow> addr) \<Rightarrow> addr \<Rightarrow> addr list \<Rightarrow> bool" where
  "chain nx p [] = (p = NULL)"
| "chain nx p (x # xs) = (p = x \<and> x \<noteq> NULL \<and> chain nx (nx x) xs)"

lemma chain_NULL [simp]: "chain nx NULL xs \<longleftrightarrow> xs = []"
  by (cases xs) auto

lemma chain_nonnull: "chain nx p xs \<Longrightarrow> p \<noteq> NULL \<Longrightarrow> \<exists>ys. xs = p # ys \<and> chain nx (nx p) ys"
  by (cases xs) auto

lemma chain_unique: "chain nx p xs \<Longrightarrow> chain nx p ys \<Longrightarrow> xs = ys"
proof (induction xs arbitrary: p ys)
  case Nil
  then show ?case by simp
next
  case (Cons x xs)
  then show ?case by (cases ys) auto
qed

lemma chain_cong: "(\<And>x. x \<in> set xs \<Longrightarrow> f x = g x) \<Longrightarrow> chain f p xs \<longleftrightarrow> chain g p xs"
  by (induction xs arbitrary: p) auto

lemma chain_upd [simp]: "a \<notin> set xs \<Longrightarrow> chain (nx(a := b)) p xs \<longleftrightarrow> chain nx p xs"
  by (rule chain_cong) auto

lemma chain_suffix: "chain nx p (xs @ x # ys) \<Longrightarrow> chain nx x (x # ys)"
  by (induction xs arbitrary: p) auto

lemma chain_notNULL: "chain nx p xs \<Longrightarrow> NULL \<notin> set xs"
  by (induction xs arbitrary: p) auto

lemma chain_distinct: "chain nx p xs \<Longrightarrow> distinct xs"
proof (induction xs arbitrary: p)
  case Nil
  then show ?case by simp
next
  case (Cons x xs)
  have "x \<notin> set xs"
  proof
    assume "x \<in> set xs"
    then obtain as bs where "xs = as @ x # bs"
      by (auto simp: in_set_conv_decomp)
    with Cons.prems have "chain nx x (x # bs)"
      by (metis append_Cons chain_suffix)
    with Cons.prems have "x # bs = x # xs"
      by (metis chain.simps(2) chain_unique)
    with \<open>xs = as @ x # bs\<close> show False by simp
  qed
  with Cons show ?case by auto
qed

text \<open>
  Removing an inner element: the predecessor's link skips it.
\<close>

lemma chain_delete_inner:
  "chain nx p (xs @ y # x # zs) \<Longrightarrow> distinct (xs @ y # x # zs)
   \<Longrightarrow> chain (nx(y := nx x)) p (xs @ y # zs)"
  by (induction xs arbitrary: p) auto

text \<open>
  \<open>dll nx pv q p xs\<close>: a doubly linked list whose first element has \<open>q\<close> as its predecessor.
\<close>

fun dll :: "(addr \<Rightarrow> addr) \<Rightarrow> (addr \<Rightarrow> addr) \<Rightarrow> addr \<Rightarrow> addr \<Rightarrow> addr list \<Rightarrow> bool" where
  "dll nx pv q p [] = (p = NULL)"
| "dll nx pv q p (x # xs) = (p = x \<and> x \<noteq> NULL \<and> pv x = q \<and> dll nx pv x (nx x) xs)"

lemma dll_chain: "dll nx pv q p xs \<Longrightarrow> chain nx p xs"
  by (induction xs arbitrary: q p) auto

lemma dll_distinct: "dll nx pv q p xs \<Longrightarrow> distinct xs"
  by (blast intro: chain_distinct dll_chain)

lemma dll_NULL [simp]: "dll nx pv q NULL xs \<longleftrightarrow> xs = []"
  by (cases xs) auto

lemma dll_cong:
  "(\<And>x. x \<in> set xs \<Longrightarrow> f x = f' x) \<Longrightarrow> (\<And>x. x \<in> set xs \<Longrightarrow> g x = g' x)
   \<Longrightarrow> dll f g q p xs \<longleftrightarrow> dll f' g' q p xs"
  by (induction xs arbitrary: q p) auto

end
