(* ===== verification/Hash.thy ===== *)
theory Hash
  imports Prelude
begin

text \<open>
  The key hash of \<open>hash.c\<close> (Bob Jenkins' lookup3, the little-endian build that
  \<open>config.h\<close> selects with \<open>ENDIAN_LITTLE\<close>). The function reads the key from memory in
  three different ways, by the alignment of its pointer; memory is a map from addresses to
  bytes, so that the reads past the end of the key are part of the model.
\<close>

type_synonym memory = "addr \<Rightarrow> u8"
type_synonym abc = "u32 \<times> u32 \<times> u32"

section \<open>The mixing steps\<close>

definition rot :: "u32 \<Rightarrow> nat \<Rightarrow> u32" where
  "rot x k = push_bit k x XOR drop_bit (32 - k) x"

definition mix :: "abc \<Rightarrow> abc" where
  "mix abc = (let (a, b, c) = abc;
     a = a - c; a = a XOR rot c 4; c = c + b;
     b = b - a; b = b XOR rot a 6; a = a + c;
     c = c - b; c = c XOR rot b 8; b = b + a;
     a = a - c; a = a XOR rot c 16; c = c + b;
     b = b - a; b = b XOR rot a 19; a = a + c;
     c = c - b; c = c XOR rot b 4; b = b + a
   in (a, b, c))"

definition final :: "abc \<Rightarrow> abc" where
  "final abc = (let (a, b, c) = abc;
     c = c XOR b; c = c - rot b 14;
     a = a XOR c; a = a - rot c 11;
     b = b XOR a; b = b - rot a 25;
     c = c XOR b; c = c - rot b 16;
     a = a XOR c; a = a - rot c 4;
     b = b XOR a; b = b - rot a 14;
     c = c XOR b; c = c - rot b 24
   in (a, b, c))"

section \<open>Reading the key\<close>

text \<open>One byte, one 16-bit and one 32-bit little-endian load, each widened to 32 bits.\<close>

definition k8 :: "memory \<Rightarrow> addr \<Rightarrow> nat \<Rightarrow> u32" where
  "k8 m p i = ucast (m (p + i))"

definition k16 :: "memory \<Rightarrow> addr \<Rightarrow> nat \<Rightarrow> u32" where
  "k16 m p i = k8 m p (2 * i) + push_bit 8 (k8 m p (2 * i + 1))"

definition k32 :: "memory \<Rightarrow> addr \<Rightarrow> nat \<Rightarrow> u32" where
  "k32 m p i = k8 m p (4 * i) + push_bit 8 (k8 m p (4 * i + 1))
     + push_bit 16 (k8 m p (4 * i + 2)) + push_bit 24 (k8 m p (4 * i + 3))"

text \<open>The body of each \<open>while (length > 12)\<close> loop, before its \<open>mix\<close>.\<close>

definition block32 :: "memory \<Rightarrow> addr \<Rightarrow> abc \<Rightarrow> abc" where
  "block32 m p abc = (let (a, b, c) = abc in (a + k32 m p 0, b + k32 m p 1, c + k32 m p 2))"

definition block16 :: "memory \<Rightarrow> addr \<Rightarrow> abc \<Rightarrow> abc" where
  "block16 m p abc = (let (a, b, c) = abc in
     (a + (k16 m p 0 + push_bit 16 (k16 m p 1)),
      b + (k16 m p 2 + push_bit 16 (k16 m p 3)),
      c + (k16 m p 4 + push_bit 16 (k16 m p 5))))"

definition block8 :: "memory \<Rightarrow> addr \<Rightarrow> abc \<Rightarrow> abc" where
  "block8 m p abc = (let (a, b, c) = abc;
     a = a + k8 m p 0;
     a = a + push_bit 8 (k8 m p 1);
     a = a + push_bit 16 (k8 m p 2);
     a = a + push_bit 24 (k8 m p 3);
     b = b + k8 m p 4;
     b = b + push_bit 8 (k8 m p 5);
     b = b + push_bit 16 (k8 m p 6);
     b = b + push_bit 24 (k8 m p 7);
     c = c + k8 m p 8;
     c = c + push_bit 8 (k8 m p 9);
     c = c + push_bit 16 (k8 m p 10);
     c = c + push_bit 24 (k8 m p 11)
   in (a, b, c))"

text \<open>The loop around a block: every pass consumes twelve bytes.\<close>

function hash_loop :: "(addr \<Rightarrow> abc \<Rightarrow> abc) \<Rightarrow> addr \<Rightarrow> nat \<Rightarrow> abc \<Rightarrow> addr \<times> nat \<times> abc" where
  "hash_loop blk p n abc =
     (if 12 < n then hash_loop blk (p + 12) (n - 12) (mix (blk p abc)) else (p, n, abc))"
  by pat_completeness auto
termination
  by (relation "measure (\<lambda>(blk, p, n, abc). n)") auto

declare hash_loop.simps [simp del]

text \<open>
  The last, partial block. In the first two the cases of the \<open>switch\<close> that break are
  separate branches; the byte-wise \<open>switch\<close> falls through every case below its entry point.
\<close>

definition tail32 :: "memory \<Rightarrow> addr \<Rightarrow> nat \<Rightarrow> abc \<Rightarrow> abc" where
  "tail32 m p n abc = (let (a, b, c) = abc in
     if n = 12 then (a + k32 m p 0, b + k32 m p 1, c + k32 m p 2)
     else if n = 11 then (a + k32 m p 0, b + k32 m p 1, c + (k32 m p 2 AND 0xffffff))
     else if n = 10 then (a + k32 m p 0, b + k32 m p 1, c + (k32 m p 2 AND 0xffff))
     else if n = 9 then (a + k32 m p 0, b + k32 m p 1, c + (k32 m p 2 AND 0xff))
     else if n = 8 then (a + k32 m p 0, b + k32 m p 1, c)
     else if n = 7 then (a + k32 m p 0, b + (k32 m p 1 AND 0xffffff), c)
     else if n = 6 then (a + k32 m p 0, b + (k32 m p 1 AND 0xffff), c)
     else if n = 5 then (a + k32 m p 0, b + (k32 m p 1 AND 0xff), c)
     else if n = 4 then (a + k32 m p 0, b, c)
     else if n = 3 then (a + (k32 m p 0 AND 0xffffff), b, c)
     else if n = 2 then (a + (k32 m p 0 AND 0xffff), b, c)
     else if n = 1 then (a + (k32 m p 0 AND 0xff), b, c)
     else (a, b, c))"

definition tail16 :: "memory \<Rightarrow> addr \<Rightarrow> nat \<Rightarrow> abc \<Rightarrow> abc" where
  "tail16 m p n abc = (let (a, b, c) = abc;
       a03 = k16 m p 0 + push_bit 16 (k16 m p 1);
       b47 = k16 m p 2 + push_bit 16 (k16 m p 3) in
     if n = 12 then (a + a03, b + b47, c + (k16 m p 4 + push_bit 16 (k16 m p 5)))
     else if n = 11 then (a + a03, b + b47, c + push_bit 16 (k8 m p 10) + k16 m p 4)
     else if n = 10 then (a + a03, b + b47, c + k16 m p 4)
     else if n = 9 then (a + a03, b + b47, c + k8 m p 8)
     else if n = 8 then (a + a03, b + b47, c)
     else if n = 7 then (a + a03, b + push_bit 16 (k8 m p 6) + k16 m p 2, c)
     else if n = 6 then (a + a03, b + k16 m p 2, c)
     else if n = 5 then (a + a03, b + k8 m p 4, c)
     else if n = 4 then (a + a03, b, c)
     else if n = 3 then (a + push_bit 16 (k8 m p 2) + k16 m p 0, b, c)
     else if n = 2 then (a + k16 m p 0, b, c)
     else if n = 1 then (a + k8 m p 0, b, c)
     else (a, b, c))"

definition tail8 :: "memory \<Rightarrow> addr \<Rightarrow> nat \<Rightarrow> abc \<Rightarrow> abc" where
  "tail8 m p n abc = (let (a, b, c) = abc;
     c = (if 12 \<le> n then c + push_bit 24 (k8 m p 11) else c);
     c = (if 11 \<le> n then c + push_bit 16 (k8 m p 10) else c);
     c = (if 10 \<le> n then c + push_bit 8 (k8 m p 9) else c);
     c = (if 9 \<le> n then c + k8 m p 8 else c);
     b = (if 8 \<le> n then b + push_bit 24 (k8 m p 7) else b);
     b = (if 7 \<le> n then b + push_bit 16 (k8 m p 6) else b);
     b = (if 6 \<le> n then b + push_bit 8 (k8 m p 5) else b);
     b = (if 5 \<le> n then b + k8 m p 4 else b);
     a = (if 4 \<le> n then a + push_bit 24 (k8 m p 3) else a);
     a = (if 3 \<le> n then a + push_bit 16 (k8 m p 2) else a);
     a = (if 2 \<le> n then a + push_bit 8 (k8 m p 1) else a);
     a = (if 1 \<le> n then a + k8 m p 0 else a)
   in (a, b, c))"

definition hash_start :: "nat \<Rightarrow> u32 \<Rightarrow> abc" where
  "hash_start len initval = (let x = 0xdeadbeef + of_nat len + initval in (x, x, x))"

definition hash_finish :: "(addr \<Rightarrow> nat \<Rightarrow> abc \<Rightarrow> abc) \<Rightarrow> addr \<times> nat \<times> abc \<Rightarrow> u32" where
  "hash_finish tail r = (case r of (p, n, a, b, c) \<Rightarrow>
     if n = 0 then c else snd (snd (final (tail p n (a, b, c)))))"

definition hash :: "memory \<Rightarrow> addr \<Rightarrow> nat \<Rightarrow> u32 \<Rightarrow> u32" where
  "hash m p len initval =
     (if p mod 4 = 0 then
        hash_finish (tail32 m) (hash_loop (block32 m) p len (hash_start len initval))
      else if p mod 2 = 0 then
        hash_finish (tail16 m) (hash_loop (block16 m) p len (hash_start len initval))
      else
        hash_finish (tail8 m) (hash_loop (block8 m) p len (hash_start len initval)))"

text \<open>
  The call \<open>hash(key, nkey, 0)\<close> that every caller makes, for a key given by its characters:
  the key stored at an aligned address with zero bytes after it (by \<open>hash_local\<close> below, any
  other placement gives the same value).
\<close>

definition mem_of :: "string \<Rightarrow> memory" where
  "mem_of ks i = (if i < length ks then of_char (ks ! i) else 0)"

definition hash_key :: "string \<Rightarrow> u32" where
  "hash_key ks = hash (mem_of ks) 0 (length ks) 0"

section \<open>The three read paths agree\<close>

lemma unat_push_byte:
  assumes "unat (x :: u32) < 256" and "j \<le> 24"
  shows "unat (push_bit j x) = unat x * 2 ^ j"
proof -
  have "unat x * 2 ^ j < 256 * 2 ^ 24"
    using assms by (meson le_less_trans less_le_trans mult_less_mono1 mult_le_mono2
        one_le_numeral power_increasing zero_less_numeral zero_less_power)
  then show ?thesis
    by (simp add: unsigned_push_bit_eq push_bit_eq_mult [of j "unat x"] take_bit_nat_eq_self)
qed

lemma unat_bytes:
  assumes "unat (x :: u32) < 256" "unat (y :: u32) < 256" "unat (z :: u32) < 256"
    "unat (w :: u32) < 256"
  shows "unat (x + push_bit 8 y) = unat x + unat y * 256"
    and "unat (x + push_bit 8 y + push_bit 16 z) = unat x + unat y * 256 + unat z * 65536"
    and "unat (x + push_bit 8 y + push_bit 16 z + push_bit 24 w)
      = unat x + unat y * 256 + unat z * 65536 + unat w * 16777216"
  using assms by (simp_all add: unat_word_ariths unat_push_byte)

lemma and_take_bit:
  "(w :: u32) AND 0xff = take_bit 8 w"
  "(w :: u32) AND 0xffff = take_bit 16 w"
  "(w :: u32) AND 0xffffff = take_bit 24 w"
  by (simp_all add: take_bit_eq_mask mask_eq_exp_minus_1)

text \<open>The masks of the aligned \<open>switch\<close> remove exactly the bytes past the end of the key.\<close>

lemma and_bytes:
  assumes "unat (x :: u32) < 256" "unat (y :: u32) < 256" "unat (z :: u32) < 256"
    "unat (w :: u32) < 256"
  shows "(x + push_bit 8 y + push_bit 16 z + push_bit 24 w) AND 0xff = x"
    and "(x + push_bit 8 y + push_bit 16 z + push_bit 24 w) AND 0xffff = x + push_bit 8 y"
    and "(x + push_bit 8 y + push_bit 16 z + push_bit 24 w) AND 0xffffff
      = x + push_bit 8 y + push_bit 16 z"
  using assms
  by (simp_all only: and_take_bit) (simp_all add: word_unat_eq_iff unat_take_bit unat_bytes mod_nat_eqI)

lemma unat_k8: "unat (k8 m p i) < 256"
  by (simp add: k8_def)

lemma k32_at:
  "k32 m p 0 = k8 m p 0 + push_bit 8 (k8 m p 1) + push_bit 16 (k8 m p 2) + push_bit 24 (k8 m p 3)"
  "k32 m p 1 = k8 m p 4 + push_bit 8 (k8 m p 5) + push_bit 16 (k8 m p 6) + push_bit 24 (k8 m p 7)"
  "k32 m p 2 = k8 m p 8 + push_bit 8 (k8 m p 9) + push_bit 16 (k8 m p 10) + push_bit 24 (k8 m p 11)"
  by (simp_all add: k32_def numeral_2_eq_2)

lemma k16_at:
  "k16 m p 0 = k8 m p 0 + push_bit 8 (k8 m p 1)"
  "k16 m p 1 = k8 m p 2 + push_bit 8 (k8 m p 3)"
  "k16 m p 2 = k8 m p 4 + push_bit 8 (k8 m p 5)"
  "k16 m p 3 = k8 m p 6 + push_bit 8 (k8 m p 7)"
  "k16 m p 4 = k8 m p 8 + push_bit 8 (k8 m p 9)"
  "k16 m p 5 = k8 m p 10 + push_bit 8 (k8 m p 11)"
  by (simp_all add: k16_def eval_nat_numeral)

lemma k32_masks:
  "k32 m p i AND 0xff = k8 m p (4 * i)"
  "k32 m p i AND 0xffff = k8 m p (4 * i) + push_bit 8 (k8 m p (4 * i + 1))"
  "k32 m p i AND 0xffffff = k8 m p (4 * i) + push_bit 8 (k8 m p (4 * i + 1))
     + push_bit 16 (k8 m p (4 * i + 2))"
  unfolding k32_def by (simp_all only: and_bytes unat_k8)

lemma k32_masks_at:
  "k32 m p 0 AND 0xff = k8 m p 0" "k32 m p 0 AND 0xffff = k8 m p 0 + push_bit 8 (k8 m p 1)"
  "k32 m p 0 AND 0xffffff = k8 m p 0 + push_bit 8 (k8 m p 1) + push_bit 16 (k8 m p 2)"
  "k32 m p 1 AND 0xff = k8 m p 4" "k32 m p 1 AND 0xffff = k8 m p 4 + push_bit 8 (k8 m p 5)"
  "k32 m p 1 AND 0xffffff = k8 m p 4 + push_bit 8 (k8 m p 5) + push_bit 16 (k8 m p 6)"
  "k32 m p 2 AND 0xff = k8 m p 8" "k32 m p 2 AND 0xffff = k8 m p 8 + push_bit 8 (k8 m p 9)"
  "k32 m p 2 AND 0xffffff = k8 m p 8 + push_bit 8 (k8 m p 9) + push_bit 16 (k8 m p 10)"
  by (simp_all add: k32_masks numeral_2_eq_2)

lemma push_bit_add_word: "push_bit n (x + y) = push_bit n x + push_bit n (y :: u32)"
  by (simp add: push_bit_eq_mult algebra_simps)

lemma block32_eq: "block32 m = block8 m"
  by (intro ext) (simp only: block32_def block8_def k32_at Let_def split_beta add.assoc)

lemma block16_eq: "block16 m = block8 m"
  by (intro ext) (simp add: block16_def block8_def k16_at Let_def split_beta add.assoc
      push_bit_add_word del: One_nat_def)

lemma upto12: "n \<le> 12 \<Longrightarrow> n \<in> {0, 1, 2, 3, 4, 5, 6, 7, 8, 9, 10, 11, 12 :: nat}"
  by (auto simp: numeral_eq_Suc le_Suc_eq)

lemma tail32_eq:
  assumes "n \<le> 12"
  shows "tail32 m p n abc = tail8 m p n abc"
  using upto12 [OF assms]
  unfolding tail32_def tail8_def k32_masks_at unfolding k32_at
  by (elim insertE emptyE) (simp_all add: Let_def split_beta add_ac)

lemma tail16_eq:
  assumes "n \<le> 12"
  shows "tail16 m p n abc = tail8 m p n abc"
  using upto12 [OF assms]
  by (elim insertE emptyE)
    (simp_all add: tail16_def tail8_def k16_at Let_def split_beta add_ac push_bit_add_word
      del: One_nat_def)

lemma hash_loop_length: "hash_loop blk p n abc = (p', n', abc') \<Longrightarrow> n' \<le> 12"
proof (induction blk p n abc rule: hash_loop.induct)
  case (1 blk p n abc)
  then show ?case
    by (cases "12 < n") (auto simp: hash_loop.simps [of blk p n abc])
qed

definition hash_by_bytes :: "memory \<Rightarrow> addr \<Rightarrow> nat \<Rightarrow> u32 \<Rightarrow> u32" where
  "hash_by_bytes m p len initval =
     hash_finish (tail8 m) (hash_loop (block8 m) p len (hash_start len initval))"

lemma hash_eq_by_bytes: "hash m p len initval = hash_by_bytes m p len initval"
proof -
  obtain p' n' abc' where
    r: "hash_loop (block8 m) p len (hash_start len initval) = (p', n', abc')"
    by (cases "hash_loop (block8 m) p len (hash_start len initval)") auto
  then have "n' \<le> 12" by (rule hash_loop_length)
  then have "hash_finish (tail32 m) (p', n', abc') = hash_finish (tail8 m) (p', n', abc')"
    "hash_finish (tail16 m) (p', n', abc') = hash_finish (tail8 m) (p', n', abc')"
    by (simp_all add: hash_finish_def tail32_eq tail16_eq split_beta)
  then show ?thesis
    by (simp add: hash_def hash_by_bytes_def block32_eq block16_eq r)
qed

section \<open>The hash is a function of the bytes of the key alone\<close>

lemma k8_local:
  "\<forall>i < n. m (p + i) = m' (q + i) \<Longrightarrow> i < n \<Longrightarrow> k8 m p i = k8 m' q i"
  by (simp add: k8_def)

lemma block8_local:
  assumes "\<forall>i < 12. m (p + i) = m' (q + i)"
  shows "block8 m p = block8 m' q"
  by (intro ext) (simp add: block8_def k8_local [OF assms] Let_def split_beta)

lemma tail8_local:
  assumes "\<forall>i < n. m (p + i) = m' (q + i)"
  shows "tail8 m p n abc = tail8 m' q n abc"
  by (simp add: tail8_def k8_local [OF assms] Let_def split_beta)

lemma hash_loop_local:
  assumes "\<forall>i < n. m (p + i) = m' (q + i)"
  shows "\<exists>p' q' n' abc'. hash_loop (block8 m) p n abc = (p', n', abc')
     \<and> hash_loop (block8 m') q n abc = (q', n', abc') \<and> (\<forall>i < n'. m (p' + i) = m' (q' + i))"
  using assms
proof (induction n arbitrary: p q abc rule: less_induct)
  case (less n)
  show ?case
  proof (cases "12 < n")
    case True
    with less.prems have blk: "block8 m p = block8 m' q"
      by (intro block8_local) simp
    have "\<forall>i < n - 12. m (p + 12 + i) = m' (q + 12 + i)"
      using less.prems by (simp add: add.assoc)
    from less.IH [OF _ this, of "mix (block8 m p abc)"] True blk show ?thesis
      by (simp add: hash_loop.simps [of _ _ n])
  next
    case False
    with less.prems show ?thesis by (simp add: hash_loop.simps [of _ _ n])
  qed
qed

lemma hash_by_bytes_local:
  assumes "\<forall>i < len. m (p + i) = m' (q + i)"
  shows "hash_by_bytes m p len initval = hash_by_bytes m' q len initval"
proof -
  obtain p' q' n' abc' where
    "hash_loop (block8 m) p len (hash_start len initval) = (p', n', abc')"
    "hash_loop (block8 m') q len (hash_start len initval) = (q', n', abc')"
    "\<forall>i < n'. m (p' + i) = m' (q' + i)"
    using hash_loop_local [OF assms] by blast
  then show ?thesis
    by (simp add: hash_by_bytes_def hash_finish_def tail8_local [of n' m p' m' q'] split_beta)
qed

lemma hash_local:
  assumes "\<forall>i < len. m (p + i) = m' (q + i)"
  shows "hash m p len initval = hash m' q len initval"
  by (simp add: hash_eq_by_bytes hash_by_bytes_local [OF assms])

section \<open>Mixing loses no information\<close>

text \<open>Every line of \<open>mix\<close> is the same round with the three variables in rotation.\<close>

definition mix_round :: "nat \<Rightarrow> abc \<Rightarrow> abc" where
  "mix_round k r = (case r of (x, y, z) \<Rightarrow> (y, z + y, (x - z) XOR rot z k))"

definition unmix_round :: "nat \<Rightarrow> abc \<Rightarrow> abc" where
  "unmix_round k r = (case r of (y, z, x) \<Rightarrow> ((x XOR rot (z - y) k) + (z - y), y, z - y))"

definition unmix :: "abc \<Rightarrow> abc" where
  "unmix abc = unmix_round 4 (unmix_round 6 (unmix_round 8 (unmix_round 16
     (unmix_round 19 (unmix_round 4 abc)))))"

lemma unmix_round_mix_round [simp]: "unmix_round k (mix_round k r) = r"
  by (simp add: mix_round_def unmix_round_def split_beta xor.assoc)

lemma mix_round_unmix_round [simp]: "mix_round k (unmix_round k r) = r"
  by (simp add: mix_round_def unmix_round_def split_beta xor.assoc)

lemma mix_rounds:
  "mix abc = mix_round 4 (mix_round 19 (mix_round 16 (mix_round 8 (mix_round 6 (mix_round 4 abc)))))"
  by (simp add: mix_def mix_round_def Let_def split_beta)

lemma unmix_mix: "unmix (mix abc) = abc"
  by (simp add: unmix_def mix_rounds)

lemma mix_unmix: "mix (unmix abc) = abc"
  by (simp add: unmix_def mix_rounds)

section \<open>Properties\<close>

text \<open>
  Property C36. The hash of a key is a function of its bytes: whatever the alignment of the two
  pointers (hence whichever of the three read paths runs) and whatever memory holds after the
  key (the aligned path reads up to three bytes past it), equal keys hash alike.
\<close>

theorem hash_depends_only_on_key:
  assumes "\<forall>i < len. m (p + i) = m' (q + i)"
  shows "hash m p len initval = hash m' q len initval"
  by (rule hash_local [OF assms])

theorem hash_depends_only_on_key_witness:
  "hash (\<lambda>i. of_nat i) 4 3 0 = hash (\<lambda>i. if i < 10 then of_nat i + 3 else 255) 1 3 0"
  by (rule hash_depends_only_on_key) (auto simp: less_Suc_eq numeral_3_eq_3)

text \<open>
  The comment's claim that \<open>mix\<close> is reversible: \<open>unmix\<close> undoes it on both
  sides, so no two internal states are merged by a block.
\<close>

theorem mix_reversible: "unmix (mix abc) = abc \<and> mix (unmix abc) = abc"
  by (simp add: unmix_mix mix_unmix)

end
