(* ===== verification/Clib.thy ===== *)
theory Clib
  imports Prelude
begin

text \<open>
  The parts of the C library that the source computes with: character classes, the scanner
  behind \<open>strtol\<close>, \<open>strtoul\<close> and \<open>strtoull\<close> (base 10, C11 7.22.1.4), and the decimal
  conversions of \<open>snprintf\<close>. A C string is the list of its characters before the
  terminating NUL; \<open>long\<close> and \<open>long long\<close> are 64 bits wide, \<open>int\<close> is 32.
\<close>

definition isspace :: "char \<Rightarrow> bool" where
  "isspace c \<longleftrightarrow> c \<in> {CHR '' '', CHR 0x09, CHR 0x0A, CHR 0x0B, CHR 0x0C, CHR 0x0D}"

definition isdigit :: "char \<Rightarrow> bool" where
  "isdigit c \<longleftrightarrow> 48 \<le> (of_char c :: nat) \<and> (of_char c :: nat) \<le> 57"

definition digit_val :: "char \<Rightarrow> nat" where
  "digit_val c = of_char c - 48"

definition digits_val :: "string \<Rightarrow> nat" where
  "digits_val ds = foldl (\<lambda>a c. 10 * a + digit_val c) 0 ds"

text \<open>Sign, magnitude and the unread rest; \<open>None\<close> when there is no digit to convert.\<close>

definition scan_int :: "string \<Rightarrow> (bool \<times> nat \<times> string) option" where
  "scan_int str = (let s = dropWhile isspace str;
     neg = (s \<noteq> [] \<and> hd s = CHR ''-'');
     s = (if s \<noteq> [] \<and> (hd s = CHR ''-'' \<or> hd s = CHR ''+'') then tl s else s);
     ds = takeWhile isdigit s
   in if ds = [] then None else Some (neg, digits_val ds, dropWhile isdigit s))"

text \<open>
  The converting functions return the value, whether \<open>errno\<close> is \<open>ERANGE\<close>, and the
  characters from \<open>endptr\<close> on; \<open>None\<close> stands for \<open>endptr = str\<close>.
\<close>

definition strtoull :: "string \<Rightarrow> (u64 \<times> bool \<times> string) option" where
  "strtoull str = map_option (\<lambda>(neg, v, rest).
     if 2 ^ 64 \<le> v then (- 1, True, rest)
     else (if neg then - of_nat v else of_nat v, False, rest)) (scan_int str)"

definition strtoll :: "string \<Rightarrow> (int \<times> bool \<times> string) option" where
  "strtoll str = map_option (\<lambda>(neg, v, rest).
     let i = (if neg then - int v else int v) in
     if i < - (2 ^ 63) then (- (2 ^ 63), True, rest)
     else if 2 ^ 63 \<le> i then (2 ^ 63 - 1, True, rest)
     else (i, False, rest)) (scan_int str)"

text \<open>Decimal output.\<close>

definition digit :: "nat \<Rightarrow> char" where
  "digit d = char_of (48 + d)"

fun dec :: "nat \<Rightarrow> string" where
  "dec n = (if n < 10 then [digit n] else dec (n div 10) @ [digit (n mod 10)])"

declare dec.simps [simp del]

definition dec_int :: "int \<Rightarrow> string" where
  "dec_int i = (if i < 0 then CHR ''-'' # dec (nat (- i)) else dec (nat i))"

section \<open>Reading back what was printed\<close>

lemma of_char_digit: "d < 10 \<Longrightarrow> (of_char (digit d) :: nat) = 48 + d"
  by (simp add: digit_def take_bit_nat_eq_self)

lemma isdigit_digit [simp]: "d < 10 \<Longrightarrow> isdigit (digit d)"
  by (simp add: isdigit_def of_char_digit)

lemma digit_val_digit [simp]: "d < 10 \<Longrightarrow> digit_val (digit d) = d"
  by (simp add: digit_val_def of_char_digit)

lemma isdigit_dec: "c \<in> set (dec n) \<Longrightarrow> isdigit c"
proof (induction n rule: dec.induct)
  case (1 n)
  then show ?case
    by (cases "n < 10") (auto simp: dec.simps [of n])
qed

lemma dec_nonempty [simp]: "dec n \<noteq> []"
  by (subst dec.simps) simp

lemma digits_val_snoc: "digits_val (ds @ [c]) = 10 * digits_val ds + digit_val c"
  by (simp add: digits_val_def)

lemma digits_val_dec [simp]: "digits_val (dec n) = n"
proof (induction n rule: dec.induct)
  case (1 n)
  then show ?case
    by (cases "n < 10") (simp_all add: dec.simps [of n] digits_val_snoc, simp add: digits_val_def)
qed

lemma isdigit_not_space: "isdigit c \<Longrightarrow> \<not> isspace c"
  by (auto simp: isdigit_def isspace_def)

lemma isdigit_not_sign: "isdigit c \<Longrightarrow> c \<noteq> CHR ''-'' \<and> c \<noteq> CHR ''+''"
  by (auto simp: isdigit_def)

lemma hd_dec: "isdigit (hd (dec n))"
  by (rule isdigit_dec [of _ n]) simp

lemma takeWhile_dec: "rest = [] \<or> \<not> isdigit (hd rest) \<Longrightarrow> takeWhile isdigit (dec n @ rest) = dec n"
  by (cases rest) (simp_all add: takeWhile_append isdigit_dec takeWhile_eq_all_conv)

lemma dropWhile_dec: "rest = [] \<or> \<not> isdigit (hd rest) \<Longrightarrow> dropWhile isdigit (dec n @ rest) = rest"
  by (cases rest) (simp_all add: dropWhile_append isdigit_dec dropWhile_eq_Nil_conv)

lemma scan_int_dec:
  assumes "rest = [] \<or> \<not> isdigit (hd rest)"
  shows "scan_int (dec n @ rest) = Some (False, n, rest)"
proof -
  have hd: "hd (dec n @ rest) = hd (dec n)" by simp
  have "dropWhile isspace (dec n @ rest) = dec n @ rest"
    using isdigit_not_space [OF hd_dec [of n]] hd
    by (metis append_is_Nil_conv dec_nonempty dropWhile_eq_self_iff)
  then show ?thesis
    using isdigit_not_sign [OF hd_dec [of n]] takeWhile_dec [OF assms, of n]
      dropWhile_dec [OF assms, of n]
    by (simp add: scan_int_def Let_def)
qed

lemma dec_length_le: "n < 10 ^ Suc k \<Longrightarrow> length (dec n) \<le> Suc k"
proof (induction k arbitrary: n)
  case 0
  then show ?case by (simp add: dec.simps [of n])
next
  case (Suc k)
  have "n div 10 < 10 ^ Suc k"
    using Suc.prems by (intro less_mult_imp_div_less) (simp add: mult.commute)
  then have "length (dec (n div 10)) \<le> Suc k" by (rule Suc.IH)
  then show ?case by (simp add: dec.simps [of n])
qed

end
