(* ===== verification/Util.thy ===== *)
theory Util
  imports Clib
begin

text \<open>
  \<open>util.c\<close>: the checked number parsers and the 64-bit byte swap. A parser returns its boolean
  result and the value it leaves in \<open>*out\<close>.
\<close>

section \<open>Checked parsing\<close>

text \<open>\<open>xisspace(*endptr) || (*endptr == NUL \&\& endptr != str)\<close>, given that a digit was read.\<close>

definition ends_number :: "string \<Rightarrow> bool" where
  "ends_number endptr \<longleftrightarrow> (endptr = [] \<or> isspace (hd endptr))"

definition safe_strtoull :: "string \<Rightarrow> bool \<times> u64" where
  "safe_strtoull str = (case strtoull str of
     None \<Rightarrow> (False, 0)
   | Some (ull, erange, endptr) \<Rightarrow>
       if erange then (False, 0)
       else if ends_number endptr then
         (if sint ull < 0 \<and> CHR ''-'' \<in> set str then (False, 0) else (True, ull))
       else (False, 0))"

definition safe_strtoll :: "string \<Rightarrow> bool \<times> int" where
  "safe_strtoll str = (case strtoll str of
     None \<Rightarrow> (False, 0)
   | Some (ll, erange, endptr) \<Rightarrow>
       if erange then (False, 0)
       else if ends_number endptr then (True, ll)
       else (False, 0))"

text \<open>
  \<open>strtoul\<close> and \<open>strtol\<close> convert to the 64-bit \<open>long\<close>; the assignment to \<open>*out\<close>
  keeps the low 32 bits.
\<close>

definition safe_strtoul :: "string \<Rightarrow> bool \<times> u32" where
  "safe_strtoul str = (case strtoull str of
     None \<Rightarrow> (False, 0)
   | Some (l, erange, endptr) \<Rightarrow>
       if erange then (False, 0)
       else if ends_number endptr then
         (if sint l < 0 \<and> CHR ''-'' \<in> set str then (False, 0) else (True, ucast l))
       else (False, 0))"

definition safe_strtol :: "string \<Rightarrow> bool \<times> u32" where
  "safe_strtol str = (case strtoll str of
     None \<Rightarrow> (False, 0)
   | Some (l, erange, endptr) \<Rightarrow>
       if erange then (False, 0)
       else if ends_number endptr then (True, of_int l)
       else (False, 0))"

section \<open>Byte order\<close>

text \<open>The eight passes of the loop of \<open>mc_swap64\<close>.\<close>

fun swap_loop :: "nat \<Rightarrow> u64 \<Rightarrow> u64 \<Rightarrow> u64" where
  "swap_loop 0 rv inp = rv"
| "swap_loop (Suc k) rv inp = swap_loop k (push_bit 8 rv OR (inp AND 0xff)) (drop_bit 8 inp)"

definition mc_swap64 :: "u64 \<Rightarrow> u64" where
  "mc_swap64 inp = swap_loop 8 0 inp"

definition ntohll :: "u64 \<Rightarrow> u64" where
  "ntohll v = mc_swap64 v"

definition htonll :: "u64 \<Rightarrow> u64" where
  "htonll v = mc_swap64 v"

lemma and_ff_u64: "(w :: u64) AND 0xff = take_bit 8 w"
  by (simp add: take_bit_eq_mask mask_eq_exp_minus_1)

lemma bit_swap_loop:
  "n < 64 \<Longrightarrow> 8 * k \<le> 64 \<Longrightarrow> bit (swap_loop k rv inp) n \<longleftrightarrow>
     (if n < 8 * k then bit inp (8 * (k - 1 - n div 8) + n mod 8) else bit rv (n - 8 * k))"
proof (induction k arbitrary: rv inp)
  case 0
  then show ?case by simp
next
  case (Suc k)
  show ?case
  proof (cases "n < 8 * k")
    case True
    then have "8 + (8 * (k - Suc (n div 8)) + n mod 8) = 8 * (k - n div 8) + n mod 8"
      by arith
    then have "bit (drop_bit 8 inp) (8 * (k - Suc (n div 8)) + n mod 8)
        = bit inp (8 * (k - n div 8) + n mod 8)"
      by (simp only: bit_drop_bit_eq comp_apply)
    with True Suc show ?thesis by simp
  next
    case False
    then obtain r where r: "n = 8 * k + r" by (metis le_Suc_ex not_less)
    with Suc have "bit (swap_loop (Suc k) rv inp) n
        \<longleftrightarrow> bit (push_bit 8 rv OR take_bit 8 inp) r"
      by (simp add: and_ff_u64)
    with r Suc.prems show ?thesis
      by (cases "r < 8") (auto simp: bit_or_iff bit_push_bit_iff bit_take_bit_iff div_add1_eq)
  qed
qed

lemma bit_mc_swap64:
  "n < 64 \<Longrightarrow> bit (mc_swap64 x) n \<longleftrightarrow> bit x (8 * (7 - n div 8) + n mod 8)"
  by (simp add: mc_swap64_def bit_swap_loop)

lemma mc_swap64_involution: "mc_swap64 (mc_swap64 x) = x"
proof (rule bit_word_eqI)
  fix n
  assume "n < LENGTH(64)"
  then have n: "n < 64" by simp
  define j where "j = 8 * (7 - n div 8) + n mod 8"
  have "n div 8 < 8" using n by (intro less_mult_imp_div_less) simp
  have "n mod 8 < 8" by simp
  with \<open>n div 8 < 8\<close> have "j < 64" unfolding j_def by linarith
  have "j div 8 = 7 - n div 8" "j mod 8 = n mod 8"
    unfolding j_def by simp_all
  then have "8 * (7 - j div 8) + j mod 8 = n"
    using \<open>n div 8 < 8\<close> by simp
  then show "bit (mc_swap64 (mc_swap64 x)) n \<longleftrightarrow> bit x n"
    using n \<open>j < 64\<close> bit_mc_swap64 [of j x] bit_mc_swap64 [of n "mc_swap64 x"]
    by (simp add: j_def [symmetric])
qed

section \<open>What the parsers accept\<close>

lemma isspace_not_digit: "isspace c \<Longrightarrow> \<not> isdigit c"
  by (auto simp: isdigit_def isspace_def)

lemma scan_int_dec_ends: "ends_number rest \<Longrightarrow> scan_int (dec n @ rest) = Some (False, n, rest)"
  by (rule scan_int_dec) (auto simp: ends_number_def isspace_not_digit)

lemma no_minus_dec: "CHR ''-'' \<notin> set (dec n)"
  using isdigit_dec [of "CHR ''-''" n] by (auto simp: isdigit_def)

lemma safe_strtoull_dec:
  assumes "n < 2 ^ 64" and "ends_number rest" and "CHR ''-'' \<notin> set rest"
  shows "safe_strtoull (dec n @ rest) = (True, of_nat n)"
  using assms by (simp add: safe_strtoull_def strtoull_def scan_int_dec_ends no_minus_dec)

lemma ucast_of_nat_u64: "n < 2 ^ 64 \<Longrightarrow> ucast (of_nat n :: u64) = (of_nat n :: u32)"
  by (simp add: word_unat_eq_iff unsigned_ucast_eq unsigned_of_nat take_bit_nat_eq_self)

lemma safe_strtoul_dec:
  assumes "n < 2 ^ 64" and "ends_number rest" and "CHR ''-'' \<notin> set rest"
  shows "safe_strtoul (dec n @ rest) = (True, of_nat n)"
  using assms by (simp add: safe_strtoul_def strtoull_def scan_int_dec_ends no_minus_dec
      ucast_of_nat_u64)

text \<open>
  A parser that succeeds has read a number that fits its 64-bit type; an unsigned value at or
  above \<open>2 ^ 63\<close> is only returned for a string without a minus sign.
\<close>

lemma safe_strtoull_cases:
  assumes "safe_strtoull str = (True, v)"
  obtains neg n rest where "scan_int str = Some (neg, n, rest)" "n < 2 ^ 64" "ends_number rest"
    "v = (if neg then - of_nat n else of_nat n)" "0 \<le> sint v \<or> CHR ''-'' \<notin> set str"
proof -
  obtain neg n rest where "scan_int str = Some (neg, n, rest)"
    using assms by (cases "scan_int str") (auto simp: safe_strtoull_def strtoull_def)
  then show thesis
    using assms that by (auto simp: safe_strtoull_def strtoull_def split: if_splits)
qed

section \<open>Properties\<close>

text \<open>
  Swapping to network byte order and back is the identity, and byte \<open>i\<close> of the
  result is byte \<open>7 - i\<close> of the argument: the CAS values and deltas of the binary protocol
  survive the wire.
\<close>

theorem byte_order_roundtrip:
  "ntohll (htonll v) = v \<and> htonll (ntohll v) = v
   \<and> (\<forall>i r. i < 8 \<and> r < 8 \<longrightarrow> bit (htonll v) (8 * i + r) = bit v (8 * (7 - i) + r))"
  by (auto simp: ntohll_def htonll_def mc_swap64_involution bit_mc_swap64)

theorem byte_order_roundtrip_witness:
  "bit (htonll 1) (8 * 7 + 0) = bit (1 :: u64) (8 * (7 - 7) + 0)"
proof -
  have "(7 :: nat) < 8 \<and> (0 :: nat) < 8" by simp
  then show ?thesis using byte_order_roundtrip [of 1] by blast
qed

text \<open>
  Every 64-bit counter printed with \<open>%llu\<close> and followed by a blank, a line end
  or the end of the string is read back by \<open>safe_strtoull\<close> exactly.
\<close>

theorem counter_print_parse:
  assumes "ends_number rest" and "CHR ''-'' \<notin> set rest"
  shows "safe_strtoull (dec (unat (v :: u64)) @ rest) = (True, v)"
  using safe_strtoull_dec [of "unat v" rest] assms unsigned_less [of v] by simp

theorem counter_print_parse_witness:
  "safe_strtoull (dec (unat (42 :: u64)) @ '' '') = (True, 42)"
  by (rule counter_print_parse) (simp_all add: ends_number_def isspace_def)

text \<open>
  \<open>safe_strtoul\<close> does not check the range of its 32-bit result: a decimal number
  of up to 64 bits is accepted and reduced modulo \<open>2 ^ 32\<close>.
\<close>

theorem safe_strtoul_truncates:
  assumes "n < 2 ^ 64"
  shows "fst (safe_strtoul (dec n)) \<and> unat (snd (safe_strtoul (dec n))) = n mod 2 ^ 32"
  using safe_strtoul_dec [of n "[]"] assms
  by (simp add: ends_number_def unsigned_of_nat take_bit_eq_mod [of 32 n])

theorem safe_strtoul_truncates_witness:
  "fst (safe_strtoul (dec 4294967303)) \<and> unat (snd (safe_strtoul (dec 4294967303))) = 7"
  using safe_strtoul_truncates [of 4294967303] by simp

end
