(* ===== verification/Memory.thy ===== *)
theory Memory
  imports Complex_Main Prelude
begin

text \<open>
  The data of \<open>memcached.h\<close>: the item header, the settings and the global statistics, the
  accessor macros, and the part of the process state that every component shares. Items live
  in a store \<open>mem\<close> indexed by address. The variable-sized \<open>data[]\<close> of an item is kept as
  four parts (CAS, key, suffix, value) in the order in which the macros lay them out; the sizes
  computed from them are the source's. Component states extend the record \<open>mc\<close>, so that
  an operation of a component works on every later extension.
\<close>

section \<open>Constants\<close>

definition KEY_MAX_LENGTH :: nat where "KEY_MAX_LENGTH = 250"
definition POWER_SMALLEST :: nat where "POWER_SMALLEST = 1"
definition POWER_LARGEST :: nat where "POWER_LARGEST = 200"
definition CHUNK_ALIGN_BYTES :: nat where "CHUNK_ALIGN_BYTES = 8"
definition MAX_NUMBER_OF_SLAB_CLASSES :: nat where
  "MAX_NUMBER_OF_SLAB_CLASSES = POWER_LARGEST + 1"
definition TAIL_REPAIR_TIME :: u32 where "TAIL_REPAIR_TIME = 3 * 3600"

definition ITEM_LINKED :: u8 where "ITEM_LINKED = 1"
definition ITEM_CAS :: u8 where "ITEM_CAS = 2"
definition ITEM_SLABBED :: u8 where "ITEM_SLABBED = 4"
definition ITEM_FETCHED :: u8 where "ITEM_FETCHED = 8"

lemmas item_flag_defs = ITEM_LINKED_def ITEM_CAS_def ITEM_SLABBED_def ITEM_FETCHED_def

section \<open>Items\<close>

record item =
  it_next :: addr
  it_prev :: addr
  it_h_next :: addr
  it_time :: u32
  it_exptime :: u32
  it_nbytes :: u32
  it_refcount :: u16
  it_nsuffix :: u8
  it_flags :: u8
  it_slabs_clsid :: u8
  it_nkey :: u8
  it_cas :: u64
  it_key :: string
  it_suffix :: string
  it_value :: string

text \<open>The item that a zeroed chunk holds.\<close>

definition zero_item :: item where
  "zero_item = \<lparr>it_next = NULL, it_prev = NULL, it_h_next = NULL, it_time = 0, it_exptime = 0,
     it_nbytes = 0, it_refcount = 0, it_nsuffix = 0, it_flags = 0, it_slabs_clsid = 0,
     it_nkey = 0, it_cas = 0, it_key = [], it_suffix = [], it_value = []\<rparr>"

definition has_flag :: "u8 \<Rightarrow> item \<Rightarrow> bool" where
  "has_flag f it \<longleftrightarrow> it_flags it AND f \<noteq> 0"

text \<open>\<open>sizeof(struct _stritem)\<close> on the 64-bit platform: three pointers, three 32-bit fields,
  a 16-bit one and four bytes, padded to the alignment of the 64-bit \<open>data[]\<close>.\<close>

definition sizeof_item :: nat where "sizeof_item = 48"

definition ITEM_get_cas :: "item \<Rightarrow> u64" where
  "ITEM_get_cas i = (if has_flag ITEM_CAS i then it_cas i else 0)"

definition ITEM_set_cas :: "u64 \<Rightarrow> item \<Rightarrow> item" where
  "ITEM_set_cas v i = (if has_flag ITEM_CAS i then i\<lparr>it_cas := v\<rparr> else i)"

text \<open>The \<open>nkey\<close> bytes at \<open>ITEM_key\<close>.\<close>

definition ITEM_key :: "item \<Rightarrow> string" where
  "ITEM_key i = take (unat (it_nkey i)) (it_key i)"

definition ITEM_ntotal :: "item \<Rightarrow> u64" where
  "ITEM_ntotal i = of_nat sizeof_item + ucast (it_nkey i) + 1 + ucast (it_nsuffix i)
     + scast (it_nbytes i) + (if has_flag ITEM_CAS i then 8 else 0)"

section \<open>Settings\<close>

text \<open>A \<open>double\<close>: a number, or one of the values that are none; the sign of a NaN is printed.\<close>

datatype c_double = Dbl rat | Infinity | Neg_Infinity | NaN bool

datatype protocol = ascii_prot | binary_prot | negotiating_prot

record settings_t =
  maxbytes :: nat
  maxconns :: int
  port :: int
  udpport :: int
  inter :: "string option"
  verbose :: int
  oldest_live :: u32
  evict_to_free :: int
  socketpath :: "string option"
  access :: int
  factor :: c_double
  chunk_size :: int
  num_threads :: nat
  num_threads_per_udp :: nat
  prefix_delimiter :: char
  detail_enabled :: int
  reqs_per_event :: int
  use_cas :: bool
  binding_protocol :: protocol
  backlog :: int
  item_size_max :: nat
  sasl :: bool
  maxconns_fast :: bool
  slab_reassign :: bool
  slab_automove :: int
  hashpower_init :: nat

text \<open>\<open>settings_init\<close>; \<open>sasl\<close> is not assigned there and keeps the zero of a static object.\<close>

definition settings_init :: settings_t where
  "settings_init = \<lparr>maxbytes = 64 * 1024 * 1024, maxconns = 1024, port = 11211, udpport = 11211,
     inter = None, verbose = 0, oldest_live = 0, evict_to_free = 1, socketpath = None,
     access = 448, factor = Dbl (5 / 4), chunk_size = 48, num_threads = 4, num_threads_per_udp = 0,
     prefix_delimiter = CHR '':'', detail_enabled = 0, reqs_per_event = 20, use_cas = True,
     binding_protocol = negotiating_prot, backlog = 1024, item_size_max = 1024 * 1024,
     sasl = False, maxconns_fast = False, slab_reassign = False, slab_automove = 0,
     hashpower_init = 0\<rparr>"

section \<open>Global statistics\<close>

record stats_t =
  curr_items :: u32
  total_items :: u32
  curr_bytes :: u64
  curr_conns :: u32
  total_conns :: u32
  rejected_conns :: u64
  reserved_fds :: u32
  conn_structs :: u32
  accepting_conns :: bool
  listen_disabled_num :: u64
  hash_power_level :: u32
  hash_bytes :: u64
  hash_is_expanding :: bool
  slab_reassign_running :: bool
  slabs_moved :: u64

text \<open>
  The members of \<open>struct stats\<close> that the source updates after start-up (the per-command
  counters of that struct are reset and never written; the live ones are per thread).
\<close>

definition stats_init :: stats_t where
  "stats_init = \<lparr>curr_items = 0, total_items = 0, curr_bytes = 0, curr_conns = 0,
     total_conns = 0, rejected_conns = 0, reserved_fds = 0, conn_structs = 0,
     accepting_conns = True, listen_disabled_num = 0, hash_power_level = 0, hash_bytes = 0,
     hash_is_expanding = False, slab_reassign_running = False, slabs_moved = 0\<rparr>"

section \<open>The shared process state\<close>

text \<open>
  \<open>mallocs\<close> are the results of the coming calls of \<open>malloc\<close> and \<open>calloc\<close>, in order
  (\<open>NULL\<close> for a failure, and for ever after the list ends).
\<close>

record mc =
  mem :: "addr \<Rightarrow> item"
  mallocs :: "addr list"
  current_time :: u32
  process_started :: int
  settings :: settings_t
  stats :: stats_t

definition malloc :: "'a mc_scheme \<Rightarrow> addr \<times> 'a mc_scheme" where
  "malloc s = (case mallocs s of [] \<Rightarrow> (NULL, s) | p # ps \<Rightarrow> (p, s\<lparr>mallocs := ps\<rparr>))"

text \<open>A write through an item pointer.\<close>

definition upd_item :: "addr \<Rightarrow> (item \<Rightarrow> item) \<Rightarrow> 'a mc_scheme \<Rightarrow> 'a mc_scheme" where
  "upd_item p f s = s\<lparr>mem := (mem s)(p := f (mem s p))\<rparr>"

definition upd_stats :: "(stats_t \<Rightarrow> stats_t) \<Rightarrow> 'a mc_scheme \<Rightarrow> 'a mc_scheme" where
  "upd_stats f s = s\<lparr>stats := f (stats s)\<rparr>"

lemma mem_upd_item [simp]: "mem (upd_item p f s) = (mem s)(p := f (mem s p))"
  by (simp add: upd_item_def)

lemma upd_item_frame [simp]:
  "mallocs (upd_item p f s) = mallocs s" "current_time (upd_item p f s) = current_time s"
  "settings (upd_item p f s) = settings s" "stats (upd_item p f s) = stats s"
  by (simp_all add: upd_item_def)

lemma upd_stats_frame [simp]:
  "mem (upd_stats f s) = mem s" "mallocs (upd_stats f s) = mallocs s"
  "current_time (upd_stats f s) = current_time s" "settings (upd_stats f s) = settings s"
  "stats (upd_stats f s) = f (stats s)"
  by (simp_all add: upd_stats_def)

section \<open>Flags\<close>

text \<open>\<open>it->it_flags |= f\<close> and \<open>it->it_flags &= ~f\<close>.\<close>

definition set_flag :: "u8 \<Rightarrow> item \<Rightarrow> item" where
  "set_flag f i = i\<lparr>it_flags := it_flags i OR f\<rparr>"

definition clear_flag :: "u8 \<Rightarrow> item \<Rightarrow> item" where
  "clear_flag f i = i\<lparr>it_flags := it_flags i AND NOT f\<rparr>"

lemma has_flag_set_flag: "has_flag f (set_flag g i) \<longleftrightarrow> has_flag f i \<or> g AND f \<noteq> 0"
  by (simp add: has_flag_def set_flag_def bit.conj_disj_distrib2 or_eq_0_iff)

lemma has_flag_clear_flag: "has_flag f (clear_flag g i) \<longleftrightarrow> it_flags i AND (NOT g AND f) \<noteq> 0"
  by (simp add: has_flag_def clear_flag_def and.assoc)

lemma set_flag_simps [simp]:
  "has_flag ITEM_LINKED (set_flag ITEM_LINKED i)"
  "has_flag ITEM_LINKED (set_flag ITEM_SLABBED i) = has_flag ITEM_LINKED i"
  "has_flag ITEM_LINKED (set_flag ITEM_FETCHED i) = has_flag ITEM_LINKED i"
  "has_flag ITEM_CAS (set_flag ITEM_LINKED i) = has_flag ITEM_CAS i"
  "has_flag ITEM_CAS (set_flag ITEM_SLABBED i) = has_flag ITEM_CAS i"
  "has_flag ITEM_CAS (set_flag ITEM_FETCHED i) = has_flag ITEM_CAS i"
  "has_flag ITEM_SLABBED (set_flag ITEM_LINKED i) = has_flag ITEM_SLABBED i"
  "has_flag ITEM_SLABBED (set_flag ITEM_SLABBED i)"
  "has_flag ITEM_SLABBED (set_flag ITEM_FETCHED i) = has_flag ITEM_SLABBED i"
  "has_flag ITEM_FETCHED (set_flag ITEM_LINKED i) = has_flag ITEM_FETCHED i"
  "has_flag ITEM_FETCHED (set_flag ITEM_SLABBED i) = has_flag ITEM_FETCHED i"
  "has_flag ITEM_FETCHED (set_flag ITEM_FETCHED i)"
  by (simp_all add: has_flag_set_flag item_flag_defs)

lemma clear_flag_simps [simp]:
  "\<not> has_flag ITEM_LINKED (clear_flag ITEM_LINKED i)"
  "has_flag ITEM_CAS (clear_flag ITEM_LINKED i) = has_flag ITEM_CAS i"
  "has_flag ITEM_SLABBED (clear_flag ITEM_LINKED i) = has_flag ITEM_SLABBED i"
  "has_flag ITEM_FETCHED (clear_flag ITEM_LINKED i) = has_flag ITEM_FETCHED i"
  unfolding has_flag_clear_flag by (simp_all add: has_flag_def item_flag_defs)

lemma flag_frame [simp]:
  "it_next (set_flag f i) = it_next i" "it_prev (set_flag f i) = it_prev i"
  "it_h_next (set_flag f i) = it_h_next i" "it_time (set_flag f i) = it_time i"
  "it_exptime (set_flag f i) = it_exptime i" "it_nbytes (set_flag f i) = it_nbytes i"
  "it_refcount (set_flag f i) = it_refcount i" "it_nsuffix (set_flag f i) = it_nsuffix i"
  "it_slabs_clsid (set_flag f i) = it_slabs_clsid i" "it_nkey (set_flag f i) = it_nkey i"
  "it_key (set_flag f i) = it_key i" "it_next (clear_flag f i) = it_next i"
  "it_prev (clear_flag f i) = it_prev i" "it_h_next (clear_flag f i) = it_h_next i"
  "it_time (clear_flag f i) = it_time i" "it_exptime (clear_flag f i) = it_exptime i"
  "it_nbytes (clear_flag f i) = it_nbytes i" "it_refcount (clear_flag f i) = it_refcount i"
  "it_nsuffix (clear_flag f i) = it_nsuffix i"
  "it_slabs_clsid (clear_flag f i) = it_slabs_clsid i" "it_nkey (clear_flag f i) = it_nkey i"
  "it_key (clear_flag f i) = it_key i"
  by (simp_all add: set_flag_def clear_flag_def)

section \<open>Reference counts\<close>

text \<open>
  \<open>refcount_incr\<close> and \<open>refcount_decr\<close> of \<open>thread.c\<close>: the new value of the 16-bit
  counter, and the state with it stored.
\<close>

definition refcount_incr :: "addr \<Rightarrow> 'a mc_scheme \<Rightarrow> u16 \<times> 'a mc_scheme" where
  "refcount_incr p s = (let r = it_refcount (mem s p) + 1 in
     (r, upd_item p (\<lambda>i. i\<lparr>it_refcount := r\<rparr>) s))"

definition refcount_decr :: "addr \<Rightarrow> 'a mc_scheme \<Rightarrow> u16 \<times> 'a mc_scheme" where
  "refcount_decr p s = (let r = it_refcount (mem s p) - 1 in
     (r, upd_item p (\<lambda>i. i\<lparr>it_refcount := r\<rparr>) s))"

end
