(* ===== verification/Assoc.thy ===== *)
theory Assoc
  imports Hash Memory
begin

text \<open>
  \<open>assoc.c\<close>: the chained hash table and its incremental expansion. The table is two arrays
  of chain heads; chains are threaded through the \<open>h_next\<close> pointers of the items in the
  store. While the table expands, a bucket of the old array is live until it has been migrated.
\<close>

section \<open>State\<close>

record assoc = mc +
  primary_hashtable :: "addr list"
  old_hashtable :: "addr list"
  hashpower :: nat
  hash_items :: u32
  expanding :: bool
  started_expanding :: bool
  expand_bucket :: u32
  hash_bulk_move :: int

definition hashsize :: "nat \<Rightarrow> u64" where
  "hashsize n = push_bit n 1"

definition hashmask :: "nat \<Rightarrow> u64" where
  "hashmask n = hashsize n - 1"

text \<open>\<open>hv & hashmask(n)\<close>, used as an index.\<close>

definition hbucket :: "u32 \<Rightarrow> nat \<Rightarrow> nat" where
  "hbucket hv n = unat (ucast hv AND hashmask n)"

text \<open>The address of an item pointer: a bucket of one of the arrays, or an item's \<open>h_next\<close>.\<close>

datatype slot = Primary nat | Old nat | HNext addr

fun read_slot :: "slot \<Rightarrow> 'a assoc_scheme \<Rightarrow> addr" where
  "read_slot (Primary i) s = primary_hashtable s ! i"
| "read_slot (Old i) s = old_hashtable s ! i"
| "read_slot (HNext p) s = it_h_next (mem s p)"

fun write_slot :: "slot \<Rightarrow> addr \<Rightarrow> 'a assoc_scheme \<Rightarrow> 'a assoc_scheme" where
  "write_slot (Primary i) v s = s\<lparr>primary_hashtable := (primary_hashtable s)[i := v]\<rparr>"
| "write_slot (Old i) v s = s\<lparr>old_hashtable := (old_hashtable s)[i := v]\<rparr>"
| "write_slot (HNext p) v s = upd_item p (\<lambda>i. i\<lparr>it_h_next := v\<rparr>) s"

text \<open>The test that every access makes: is the bucket of \<open>hv\<close> still in the old array?\<close>

definition in_old :: "u32 \<Rightarrow> 'a assoc_scheme \<Rightarrow> bool" where
  "in_old hv s \<longleftrightarrow> expanding s \<and> expand_bucket s \<le> of_nat (hbucket hv (hashpower s - 1))"

definition bucket_slot :: "u32 \<Rightarrow> 'a assoc_scheme \<Rightarrow> slot" where
  "bucket_slot hv s = (if in_old hv s then Old (hbucket hv (hashpower s - 1))
     else Primary (hbucket hv (hashpower s)))"

section \<open>Operations\<close>

definition assoc_init :: "nat \<Rightarrow> 'a assoc_scheme \<Rightarrow> 'a assoc_scheme option" where
  "assoc_init hashtable_init s = (let
     s = (if hashtable_init \<noteq> 0 then s\<lparr>hashpower := hashtable_init\<rparr> else s);
     (p, s) = malloc s in
   if p = NULL then None
   else Some (upd_stats (\<lambda>t. t\<lparr>hash_power_level := of_nat (hashpower s),
       hash_bytes := hashsize (hashpower s) * 8\<rparr>)
     (s\<lparr>primary_hashtable := replicate (unat (hashsize (hashpower s))) NULL\<rparr>)))"

definition key_matches :: "string \<Rightarrow> item \<Rightarrow> bool" where
  "key_matches key i \<longleftrightarrow> length key = unat (it_nkey i) \<and> key = ITEM_key i"

partial_function (option) find_loop :: "string \<Rightarrow> addr \<Rightarrow> 'a mc_scheme \<Rightarrow> addr option" where
  "find_loop key it s =
     (if it = NULL then Some NULL
      else if key_matches key (mem s it) then Some it
      else find_loop key (it_h_next (mem s it)) s)"

definition assoc_find :: "string \<Rightarrow> u32 \<Rightarrow> 'a assoc_scheme \<Rightarrow> addr option" where
  "assoc_find key hv s = find_loop key (read_slot (bucket_slot hv s) s) s"

partial_function (option) before_loop :: "string \<Rightarrow> slot \<Rightarrow> 'a assoc_scheme \<Rightarrow> slot option" where
  "before_loop key pos s =
     (if read_slot pos s \<noteq> NULL \<and> \<not> key_matches key (mem s (read_slot pos s))
      then before_loop key (HNext (read_slot pos s)) s
      else Some pos)"

definition hashitem_before :: "string \<Rightarrow> u32 \<Rightarrow> 'a assoc_scheme \<Rightarrow> slot option" where
  "hashitem_before key hv s = before_loop key (bucket_slot hv s) s"

definition assoc_expand :: "'a assoc_scheme \<Rightarrow> 'a assoc_scheme" where
  "assoc_expand s = (let
     s = s\<lparr>old_hashtable := primary_hashtable s\<rparr>;
     (p, s) = malloc s in
   if p \<noteq> NULL then
     (let s = s\<lparr>primary_hashtable := replicate (unat (hashsize (hashpower s + 1))) NULL,
          hashpower := hashpower s + 1, expanding := True, expand_bucket := 0\<rparr> in
      upd_stats (\<lambda>t. t\<lparr>hash_power_level := of_nat (hashpower s),
        hash_bytes := hash_bytes t + hashsize (hashpower s) * 8, hash_is_expanding := True\<rparr>) s)
   else s\<lparr>primary_hashtable := old_hashtable s\<rparr>)"

definition assoc_start_expand :: "'a assoc_scheme \<Rightarrow> 'a assoc_scheme" where
  "assoc_start_expand s =
     (if started_expanding s then s else s\<lparr>started_expanding := True\<rparr>)"

definition assoc_insert :: "addr \<Rightarrow> u32 \<Rightarrow> 'a assoc_scheme \<Rightarrow> 'a assoc_scheme" where
  "assoc_insert it hv s = (let
     pos = bucket_slot hv s;
     s = upd_item it (\<lambda>i. i\<lparr>it_h_next := read_slot pos s\<rparr>) s;
     s = write_slot pos it s;
     s = s\<lparr>hash_items := hash_items s + 1\<rparr> in
   if \<not> expanding s \<and> ucast (hash_items s) > hashsize (hashpower s) * 3 div 2
   then assoc_start_expand s else s)"

definition assoc_delete :: "string \<Rightarrow> u32 \<Rightarrow> 'a assoc_scheme \<Rightarrow> 'a assoc_scheme option" where
  "assoc_delete key hv s = do {
     before \<leftarrow> hashitem_before key hv s;
     let p = read_slot before s;
     if p \<noteq> NULL then
       (let s = s\<lparr>hash_items := hash_items s - 1\<rparr>;
            nxt = it_h_next (mem s p);
            s = upd_item p (\<lambda>i. i\<lparr>it_h_next := NULL\<rparr>) s
        in Some (write_slot before nxt s))
     else None }"

section \<open>The maintenance thread\<close>

text \<open>
  The bucket is an \<open>int\<close> here: the unsigned value is stored into it, and an index outside the new array, a negative
  one among them, is an access outside an array.
\<close>

definition bucket_int :: "u32 \<Rightarrow> nat \<Rightarrow> int" where
  "bucket_int hv n = sint (of_nat (hbucket hv n) :: u32)"

text \<open>Move one chain of the old array, item by item, to the heads of its new buckets.\<close>

partial_function (option) move_chain :: "addr \<Rightarrow> 'a assoc_scheme \<Rightarrow> 'a assoc_scheme option" where
  "move_chain it s =
     (if it = NULL then Some s
      else let bucket = bucket_int (hash_key (ITEM_key (mem s it))) (hashpower s) in
        if bucket < 0 \<or> int (length (primary_hashtable s)) \<le> bucket then None
        else move_chain (it_h_next (mem s it))
          (let s' = upd_item it (\<lambda>i. i\<lparr>it_h_next := primary_hashtable s ! nat bucket\<rparr>) s
           in s'\<lparr>primary_hashtable := (primary_hashtable s')[nat bucket := it]\<rparr>))"

text \<open>The body of the bulk-move loop: one bucket.\<close>

definition migrate_bucket :: "'a assoc_scheme \<Rightarrow> 'a assoc_scheme option" where
  "migrate_bucket s = do {
     s \<leftarrow> move_chain (old_hashtable s ! unat (expand_bucket s)) s;
     let s = s\<lparr>old_hashtable := (old_hashtable s)[unat (expand_bucket s) := NULL]\<rparr>;
     let s = s\<lparr>expand_bucket := expand_bucket s + 1\<rparr>;
     Some (if ucast (expand_bucket s) = hashsize (hashpower s - 1) then
         upd_stats (\<lambda>t. t\<lparr>hash_bytes := hash_bytes t - hashsize (hashpower s - 1) * 8,
             hash_is_expanding := False\<rparr>)
           (s\<lparr>expanding := False, old_hashtable := []\<rparr>)
       else s) }"

fun bulk_move :: "nat \<Rightarrow> 'a assoc_scheme \<Rightarrow> 'a assoc_scheme option" where
  "bulk_move 0 s = Some s"
| "bulk_move (Suc n) s =
     (if expanding s then Option.bind (migrate_bucket s) (bulk_move n) else Some s)"

text \<open>
  One turn of the thread's loop: the bulk move and, when no expansion is left, the return to the
  wait (\<open>started_expanding\<close> is cleared just before it). \<open>maintenance_wakeup\<close> is the rest of
  the turn, after the wait was signalled.
\<close>

definition maintenance_pass :: "'a assoc_scheme \<Rightarrow> 'a assoc_scheme option" where
  "maintenance_pass s = do {
     s \<leftarrow> bulk_move (nat (hash_bulk_move s)) s;
     Some (if expanding s then s else s\<lparr>started_expanding := False\<rparr>) }"

definition maintenance_wakeup :: "'a assoc_scheme \<Rightarrow> 'a assoc_scheme" where
  "maintenance_wakeup s = assoc_expand s"

text \<open>The environment variable \<open>MEMCACHED_HASH_BULK_MOVE\<close>, already read by \<open>atoi\<close>.\<close>

definition start_assoc_maintenance :: "int option \<Rightarrow> 'a assoc_scheme \<Rightarrow> 'a assoc_scheme" where
  "start_assoc_maintenance env s = (case env of
     None \<Rightarrow> s
   | Some v \<Rightarrow> s\<lparr>hash_bulk_move := (if v = 0 then 1 else v)\<rparr>)"

section \<open>Indices\<close>

lemma unat_hashsize: "n < 64 \<Longrightarrow> unat (hashsize n) = 2 ^ n"
  by (simp add: hashsize_def unsigned_push_bit_eq take_bit_nat_eq_self del: push_bit_of_1)

lemma hbucket_mod: "n < 64 \<Longrightarrow> hbucket hv n = unat hv mod 2 ^ n"
proof -
  assume "n < 64"
  have "hashmask n = mask n"
    by (simp add: hashmask_def hashsize_def mask_eq_exp_minus_1 push_bit_eq_mult)
  moreover have "unat (ucast hv :: u64) = unat hv"
    by (simp add: unsigned_ucast_eq take_bit_nat_eq_self less_trans [OF unat_u32_less])
  ultimately show ?thesis
    by (simp add: hbucket_def word_and_mask_take_bit unat_take_bit)
qed

lemma hbucket_less: "n < 64 \<Longrightarrow> hbucket hv n < 2 ^ n"
  by (simp add: hbucket_mod)

lemma bucket_int: "n \<le> 31 \<Longrightarrow> bucket_int hv n = int (hbucket hv n)"
proof -
  assume n: "n \<le> 31"
  have "hbucket hv n < 2 ^ n" by (rule hbucket_less) (use n in simp)
  also have "(2 :: nat) ^ n \<le> 2 ^ 31" using n by (intro power_increasing) auto
  finally show ?thesis by (simp add: bucket_int_def signed_of_nat signed_take_bit_int_eq_self)
qed

section \<open>The table as a map\<close>

abbreviation hn :: "'a mc_scheme \<Rightarrow> addr \<Rightarrow> addr" where
  "hn s \<equiv> (\<lambda>p. it_h_next (mem s p))"

abbreviation key_at :: "'a mc_scheme \<Rightarrow> addr \<Rightarrow> string" where
  "key_at s p \<equiv> ITEM_key (mem s p)"

definition key_ok :: "item \<Rightarrow> bool" where
  "key_ok i \<longleftrightarrow> unat (it_nkey i) \<le> length (it_key i)"

lemma key_matches_iff: "key_ok i \<Longrightarrow> key_matches k i \<longleftrightarrow> ITEM_key i = k"
  by (auto simp: key_matches_def key_ok_def ITEM_key_def)

text \<open>The shape of the two arrays. With more than 31 bits a bucket does not fit into the \<open>int\<close> of the migration.\<close>

definition assoc_shape :: "'a assoc_scheme \<Rightarrow> bool" where
  "assoc_shape s \<longleftrightarrow> 0 < hashpower s \<and> hashpower s \<le> 32
     \<and> length (primary_hashtable s) = 2 ^ hashpower s
     \<and> (expanding s \<longrightarrow> hashpower s \<le> 31 \<and> length (old_hashtable s) = 2 ^ (hashpower s - 1)
          \<and> unat (expand_bucket s) < 2 ^ (hashpower s - 1)
          \<and> (\<forall>i < 2 ^ hashpower s. unat (expand_bucket s) \<le> i mod 2 ^ (hashpower s - 1)
                \<longrightarrow> primary_hashtable s ! i = NULL))"

text \<open>
  \<open>assoc_rel s m\<close>: the table in \<open>s\<close> represents the map \<open>m\<close> from keys to items: the chain of
  the live bucket of every hash value holds exactly the items whose key belongs there.
\<close>

definition members :: "(string \<rightharpoonup> addr) \<Rightarrow> (u32 \<Rightarrow> slot) \<Rightarrow> slot \<Rightarrow> addr set" where
  "members m sl b = {p. \<exists>k. m k = Some p \<and> sl (hash_key k) = b}"

definition assoc_rel :: "'a assoc_scheme \<Rightarrow> (string \<rightharpoonup> addr) \<Rightarrow> bool" where
  "assoc_rel s m \<longleftrightarrow> assoc_shape s \<and> finite (dom m) \<and> hash_items s = of_nat (card (dom m))
     \<and> (\<forall>k p. m k = Some p \<longrightarrow> key_ok (mem s p) \<and> key_at s p = k)
     \<and> (\<forall>hv. \<exists>xs. chain (hn s) (read_slot (bucket_slot hv s) s) xs
          \<and> set xs = members m (\<lambda>h. bucket_slot h s) (bucket_slot hv s))"

lemma assoc_relD:
  assumes "assoc_rel s m"
  shows "assoc_shape s" "finite (dom m)" "hash_items s = of_nat (card (dom m))"
    "\<And>k p. m k = Some p \<Longrightarrow> key_ok (mem s p)" "\<And>k p. m k = Some p \<Longrightarrow> key_at s p = k"
  using assms by (auto simp: assoc_rel_def)

lemma assoc_rel_chain:
  assumes "assoc_rel s m"
  obtains xs where "chain (hn s) (read_slot (bucket_slot hv s) s) xs"
    "set xs = members m (\<lambda>h. bucket_slot h s) (bucket_slot hv s)"
  using assms unfolding assoc_rel_def by blast

subsection \<open>Searching a chain\<close>

lemma find_loop_chain:
  assumes "chain (hn s) p xs" and "\<forall>x \<in> set xs. key_ok (mem s x)"
  shows "find_loop k p s = Some (case find (\<lambda>x. key_at s x = k) xs of None \<Rightarrow> NULL | Some x \<Rightarrow> x)"
  using assms
proof (induction xs arbitrary: p)
  case Nil
  then show ?case by (simp add: find_loop.simps)
next
  case (Cons x xs)
  then have "p = x" "x \<noteq> NULL" "chain (hn s) (it_h_next (mem s x)) xs" "key_ok (mem s x)"
    by auto
  with Cons show ?case
    by (simp add: find_loop.simps [of k x] key_matches_iff)
qed

lemma members_iff:
  assumes "assoc_rel s m"
  shows "p \<in> members m sl b \<longleftrightarrow> m (key_at s p) = Some p \<and> sl (hash_key (key_at s p)) = b"
proof
  assume "p \<in> members m sl b"
  then obtain k where k: "m k = Some p" "sl (hash_key k) = b" by (auto simp: members_def)
  with assoc_relD(5) [OF assms k(1)]
  show "m (key_at s p) = Some p \<and> sl (hash_key (key_at s p)) = b" by simp
next
  assume "m (key_at s p) = Some p \<and> sl (hash_key (key_at s p)) = b"
  then show "p \<in> members m sl b" by (auto simp: members_def)
qed

lemma assoc_find_rel:
  assumes R: "assoc_rel s m"
  shows "assoc_find k (hash_key k) s = Some (case m k of None \<Rightarrow> NULL | Some p \<Rightarrow> p)"
proof -
  obtain xs where xs: "chain (hn s) (read_slot (bucket_slot (hash_key k) s) s) xs"
    "set xs = members m (\<lambda>h. bucket_slot h s) (bucket_slot (hash_key k) s)"
    by (rule assoc_rel_chain [OF R])
  have mem: "x \<in> set xs \<Longrightarrow> m (key_at s x) = Some x" for x
    using xs(2) members_iff [OF R] by simp
  then have ok: "\<forall>x \<in> set xs. key_ok (mem s x)"
    using assoc_relD(4) [OF R] by blast
  have "find (\<lambda>x. key_at s x = k) xs = m k"
  proof (cases "m k")
    case None
    then have "\<forall>x \<in> set xs. key_at s x \<noteq> k" using mem by force
    with None show ?thesis by (simp add: find_None_iff)
  next
    case (Some p)
    have "find (\<lambda>x. key_at s x = k) xs = Some p"
    proof (rule find_unique)
      show "key_at s p = k" by (rule assoc_relD(5) [OF R Some])
      show "p \<in> set xs" unfolding xs(2) members_def using Some by blast
      show "y = p" if "y \<in> set xs" "key_at s y = k" for y
        using mem [OF that(1)] that(2) Some by simp
    qed
    with Some show ?thesis by simp
  qed
  then show ?thesis
    by (simp add: assoc_find_def find_loop_chain [OF xs(1) ok])
qed

subsection \<open>Bucket geometry\<close>

lemma mod_mod_power: "0 < n \<Longrightarrow> (a :: nat) mod 2 ^ n mod 2 ^ (n - Suc 0) = a mod 2 ^ (n - Suc 0)"
  by (simp add: mod_mod_cancel le_imp_power_dvd)

lemma unat_of_nat_mod: "unat (of_nat (unat (hv :: u32) mod d) :: u32) = unat hv mod d"
proof -
  have "unat hv mod d < 4294967296"
    by (rule le_less_trans [OF mod_less_eq_dividend unat_u32_less])
  then show ?thesis by (simp add: unsigned_of_nat take_bit_nat_eq_self)
qed

lemma in_old_iff:
  "assoc_shape s \<Longrightarrow> in_old hv s \<longleftrightarrow>
     expanding s \<and> unat (expand_bucket s) \<le> unat hv mod 2 ^ (hashpower s - 1)"
  by (auto simp: in_old_def assoc_shape_def word_le_nat_alt hbucket_mod unat_of_nat_mod)

lemma bucket_slot_eq:
  "assoc_shape s \<Longrightarrow> bucket_slot hv s =
     (if expanding s \<and> unat (expand_bucket s) \<le> unat hv mod 2 ^ (hashpower s - 1)
      then Old (unat hv mod 2 ^ (hashpower s - 1)) else Primary (unat hv mod 2 ^ hashpower s))"
  by (auto simp: bucket_slot_def in_old_iff hbucket_mod assoc_shape_def)

definition slot_ok :: "slot \<Rightarrow> 'a assoc_scheme \<Rightarrow> bool" where
  "slot_ok b s = (case b of Primary i \<Rightarrow> i < length (primary_hashtable s)
     | Old i \<Rightarrow> i < length (old_hashtable s) | HNext p \<Rightarrow> False)"

lemma bucket_slot_ok: "assoc_shape s \<Longrightarrow> slot_ok (bucket_slot hv s) s"
  by (auto simp: bucket_slot_eq slot_ok_def assoc_shape_def)

lemma bucket_slot_frame [simp]:
  "bucket_slot h (upd_item p f s) = bucket_slot h s"
  "bucket_slot h (s\<lparr>hash_items := x\<rparr>) = bucket_slot h s"
  "bucket_slot h (s\<lparr>started_expanding := b\<rparr>) = bucket_slot h s"
  "bucket_slot h (write_slot sl v s) = bucket_slot h s"
  by (cases sl; simp add: bucket_slot_def in_old_def upd_item_def)+

lemma read_slot_frame [simp]:
  "read_slot sl (s\<lparr>hash_items := x\<rparr>) = read_slot sl s"
  "read_slot sl (s\<lparr>started_expanding := b\<rparr>) = read_slot sl s"
  "slot_ok sl s \<Longrightarrow> read_slot sl (upd_item p f s) = read_slot sl s"
  by (cases sl; simp add: slot_ok_def upd_item_def)+

lemma slot_ok_frame [simp]:
  "slot_ok sl (upd_item p f s) = slot_ok sl s" "slot_ok sl (s\<lparr>hash_items := x\<rparr>) = slot_ok sl s"
  "slot_ok sl (write_slot sl' v s) = slot_ok sl s"
  by (cases sl; cases sl'; simp add: slot_ok_def upd_item_def)+

lemma assoc_shape_frame [simp]:
  "assoc_shape (upd_item p f s) = assoc_shape s"
  "assoc_shape (s\<lparr>hash_items := x\<rparr>) = assoc_shape s"
  "assoc_shape (s\<lparr>started_expanding := b\<rparr>) = assoc_shape s"
  "assoc_shape (write_slot (HNext q) v s) = assoc_shape s"
  by (simp_all add: assoc_shape_def upd_item_def)

lemma read_write_slot:
  "slot_ok b s \<Longrightarrow> slot_ok sl s \<Longrightarrow>
     read_slot b (write_slot sl v s) = (if b = sl then v else read_slot b s)"
  by (cases b; cases sl) (auto simp: slot_ok_def)

lemma read_write_HNext [simp]:
  "slot_ok b s \<Longrightarrow> read_slot b (write_slot (HNext q) v s) = read_slot b s"
  by (cases b) (auto simp: slot_ok_def upd_item_def)

lemma mem_write_slot:
  "slot_ok sl s \<Longrightarrow> mem (write_slot sl v s) = mem s"
  by (cases sl) (auto simp: slot_ok_def)

lemma write_slot_fields [simp]:
  "hash_items (write_slot sl v s) = hash_items s" "expanding (write_slot sl v s) = expanding s"
  "hashpower (write_slot sl v s) = hashpower s"
  "expand_bucket (write_slot sl v s) = expand_bucket s"
  "mallocs (write_slot sl v s) = mallocs s" "settings (write_slot sl v s) = settings s"
  "stats (write_slot sl v s) = stats s" "current_time (write_slot sl v s) = current_time s"
  by (cases sl; simp add: upd_item_def)+

lemma upd_item_fields [simp]:
  "hash_items (upd_item p f s) = hash_items s" "expanding (upd_item p f s) = expanding s"
  "hashpower (upd_item p f s) = hashpower s" "expand_bucket (upd_item p f s) = expand_bucket s"
  "primary_hashtable (upd_item p f s) = primary_hashtable s"
  "old_hashtable (upd_item p f s) = old_hashtable s"
  by (simp_all add: upd_item_def)

lemma assoc_shape_write_bucket:
  assumes "assoc_shape s"
  shows "assoc_shape (write_slot (bucket_slot hv s) v s)"
  using assms by (auto simp: bucket_slot_eq assoc_shape_def nth_list_update mod_mod_power)

subsection \<open>Insertion and deletion\<close>

lemma key_at_upd: "ITEM_key (i\<lparr>it_h_next := v\<rparr>) = ITEM_key i"
  by (simp add: ITEM_key_def)

lemma key_ok_upd: "key_ok (i\<lparr>it_h_next := v\<rparr>) = key_ok i"
  by (simp add: key_ok_def)

text \<open>A relation that only differs in the bookkeeping of the expansion trigger.\<close>

lemma assoc_rel_start_expand [simp]: "assoc_rel (assoc_start_expand s) m = assoc_rel s m"
  by (simp add: assoc_start_expand_def assoc_rel_def)

lemma members_insert:
  assumes "m k = None"
  shows "members (m(k \<mapsto> p)) sl c = members m sl c \<union> (if sl (hash_key k) = c then {p} else {})"
  using assms by (auto simp: members_def) (metis option.distinct(1))+

lemma assoc_insert_rel:
  assumes R: "assoc_rel s m" and new: "m (key_at s p) = None" and p: "p \<noteq> NULL" "key_ok (mem s p)"
  shows "assoc_rel (assoc_insert p (hash_key (key_at s p)) s) (m(key_at s p \<mapsto> p))"
proof -
  define k where "k = key_at s p"
  define b where "b = bucket_slot (hash_key k) s"
  define s1 where "s1 = upd_item p (\<lambda>i. i\<lparr>it_h_next := read_slot b s\<rparr>) s"
  define s2 where "s2 = write_slot b p s1"
  define s3 where "s3 = s2\<lparr>hash_items := hash_items s2 + 1\<rparr>"
  have shape: "assoc_shape s" and b_ok: "slot_ok b s"
    using assoc_relD(1) [OF R] by (simp_all add: b_def bucket_slot_ok)
  have shape3: "assoc_shape s3"
    using assoc_shape_write_bucket [of s1 "hash_key k" p] shape
    by (simp add: s3_def s2_def s1_def b_def)
  have slots: "bucket_slot h s3 = bucket_slot h s" for h
    by (simp add: s3_def s2_def s1_def)
  have mem3: "mem s3 = (mem s)(p := (mem s p)\<lparr>it_h_next := read_slot b s\<rparr>)"
    using b_ok by (simp add: s3_def s2_def s1_def mem_write_slot)
  have keys: "key_at s3 q = key_at s q" "key_ok (mem s3 q) = key_ok (mem s q)" for q
    by (simp_all add: mem3 key_at_upd key_ok_upd)
  have heads: "read_slot (bucket_slot h s) s3 = (if bucket_slot h s = b then p
      else read_slot (bucket_slot h s) s)" for h
    using b_ok bucket_slot_ok [OF shape, of h]
    by (simp add: s3_def s2_def s1_def read_write_slot)
  have notin: "m k' \<noteq> Some p" for k'
    using assoc_relD(5) [OF R, of k' p] new by auto
  have mems: "members (m(k \<mapsto> p)) (\<lambda>h. bucket_slot h s) c
      = members m (\<lambda>h. bucket_slot h s) c \<union> (if c = b then {p} else {})" for c
    using members_insert [of m k p "\<lambda>h. bucket_slot h s" c] new by (auto simp: b_def k_def)
  have "assoc_rel s3 (m(k \<mapsto> p))"
    unfolding assoc_rel_def
  proof (intro conjI allI impI)
    show "assoc_shape s3" by (rule shape3)
    show "finite (dom (m(k \<mapsto> p)))" using assoc_relD(2) [OF R] by simp
    show "hash_items s3 = of_nat (card (dom (m(k \<mapsto> p))))"
      using assoc_relD(2,3) [OF R] new
      by (simp add: s3_def s2_def s1_def k_def card_insert_if domIff)
  next
    fix k' q assume "(m(k \<mapsto> p)) k' = Some q"
    then have "k' = k \<and> q = p \<or> m k' = Some q" by (auto split: if_splits)
    then show "key_ok (mem s3 q)" "key_at s3 q = k'"
      using p(2) assoc_relD(4,5) [OF R] unfolding keys k_def by blast+
  next
    fix hv
    obtain xs where xs: "chain (hn s) (read_slot (bucket_slot hv s) s) xs"
      "set xs = members m (\<lambda>h. bucket_slot h s) (bucket_slot hv s)"
      by (rule assoc_rel_chain [OF R])
    have "p \<notin> set xs" using xs(2) notin by (auto simp: members_def)
    then have "chain (hn s3) (read_slot (bucket_slot hv s) s) xs"
      using xs(1) by (subst chain_cong [of xs _ "hn s"]) (auto simp: mem3)
    then have "chain (hn s3) (read_slot (bucket_slot hv s) s3)
        (if bucket_slot hv s = b then p # xs else xs)"
      using p(1) by (cases "bucket_slot hv s = b") (auto simp: heads mem3)
    moreover have "set (if bucket_slot hv s = b then p # xs else xs)
        = members (m(k \<mapsto> p)) (\<lambda>h. bucket_slot h s) (bucket_slot hv s)"
      using xs(2) by (simp add: mems)
    ultimately show "\<exists>xs. chain (hn s3) (read_slot (bucket_slot hv s3) s3) xs
        \<and> set xs = members (m(k \<mapsto> p)) (\<lambda>h. bucket_slot h s3) (bucket_slot hv s3)"
      unfolding slots by blast
  qed
  then show ?thesis
    by (simp add: assoc_insert_def Let_def k_def [symmetric] b_def [symmetric] s1_def [symmetric]
        s2_def [symmetric] s3_def [symmetric])
qed

text \<open>
  Deletion stops the search at the pointer that holds the item: the bucket head when the item is
  first in its chain, the \<open>h_next\<close> of its predecessor otherwise.
\<close>

lemma before_loop_chain:
  assumes "chain (hn s) (read_slot pos s) (ys @ p # zs)"
    and "\<forall>x \<in> set (ys @ [p]). key_ok (mem s x)"
    and "\<forall>y \<in> set ys. key_at s y \<noteq> k" and "key_at s p = k"
  shows "before_loop k pos s = Some (if ys = [] then pos else HNext (last ys))"
  using assms
proof (induction ys arbitrary: pos)
  case Nil
  then show ?case by (simp add: before_loop.simps [of k pos] key_matches_iff)
next
  case (Cons y ys)
  then have "read_slot pos s = y" "y \<noteq> NULL" "\<not> key_matches k (mem s y)"
    by (simp_all add: key_matches_iff)
  moreover have "before_loop k (HNext y) s = Some (if ys = [] then HNext y else HNext (last ys))"
    using Cons by (intro Cons.IH) simp_all
  ultimately show ?case
    by (simp add: before_loop.simps [of k pos])
qed

text \<open>Unlinking \<open>p\<close> from the chain at a bucket, whatever its position.\<close>

lemma chain_unlink:
  assumes "chain nx h (ys @ p # zs)"
  shows "chain (if ys = [] then nx(p := v) else (nx(p := v))(last ys := nx p))
     (if ys = [] then nx p else h) (ys @ zs)"
proof -
  have dist: "distinct (ys @ p # zs)" by (rule chain_distinct [OF assms])
  show ?thesis
  proof (cases ys rule: rev_cases)
    case Nil
    with assms dist show ?thesis by simp
  next
    case (snoc ys' y)
    with dist have "y \<noteq> p" by auto
    have "chain (nx(y := nx p)) h (ys' @ y # zs)"
      using assms dist snoc by (intro chain_delete_inner) simp_all
    then have "chain ((nx(y := nx p))(p := v)) h (ys' @ y # zs)"
      using dist snoc by simp
    with snoc \<open>y \<noteq> p\<close> show ?thesis by (simp add: fun_upd_twist)
  qed
qed

lemma members_delete:
  assumes k: "m k = Some p" and uniq: "\<And>k'. m k' = Some p \<Longrightarrow> k' = k"
  shows "members (m(k := None)) sl c = members m sl c - (if sl (hash_key k) = c then {p} else {})"
proof (rule set_eqI)
  fix x
  show "x \<in> members (m(k := None)) sl c
    \<longleftrightarrow> x \<in> members m sl c - (if sl (hash_key k) = c then {p} else {})"
  proof (cases "x = p")
    case True
    have "x \<notin> members (m(k := None)) sl c"
      using uniq True by (auto simp: members_def split: if_splits)
    moreover have "x \<in> members m sl c \<Longrightarrow> sl (hash_key k) = c"
      using uniq True by (auto simp: members_def)
    ultimately show ?thesis using True by auto
  next
    case False
    then have "m k' = Some x \<Longrightarrow> k' \<noteq> k" for k' using k by auto
    then show ?thesis using False by (auto simp: members_def)
  qed
qed

lemma assoc_delete_rel:
  assumes R: "assoc_rel s m" and k: "m k = Some p"
  shows "\<exists>s'. assoc_delete k (hash_key k) s = Some s' \<and> assoc_rel s' (m(k := None))
     \<and> it_h_next (mem s' p) = NULL"
proof -
  define b where "b = bucket_slot (hash_key k) s"
  have shape: "assoc_shape s" and b_ok: "slot_ok b s"
    using assoc_relD(1) [OF R] by (simp_all add: b_def bucket_slot_ok)
  have keyp: "key_at s p = k" by (rule assoc_relD(5) [OF R k])
  obtain xs where xs: "chain (hn s) (read_slot b s) xs"
    "set xs = members m (\<lambda>h. bucket_slot h s) b"
    unfolding b_def by (rule assoc_rel_chain [OF R])
  have mem_xs: "m (key_at s x) = Some x" if "x \<in> set xs" for x
    using that xs(2) members_iff [OF R] by simp
  have "p \<in> set xs" unfolding xs(2) members_def b_def using k by blast
  then obtain ys zs where split: "xs = ys @ p # zs" "p \<notin> set ys"
    by (meson split_list_first)
  have dist: "distinct xs" by (rule chain_distinct [OF xs(1)])
  have ysk: "\<forall>y \<in> set ys. key_at s y \<noteq> k"
  proof
    fix y assume "y \<in> set ys"
    then have "m (key_at s y) = Some y" "y \<noteq> p" using mem_xs split by auto
    with k show "key_at s y \<noteq> k" by auto
  qed
  define before where "before = (if ys = [] then b else HNext (last ys))"
  have before: "before_loop k b s = Some before"
    unfolding before_def
    by (rule before_loop_chain [of s b ys p zs k])
      (use xs(1) split ysk keyp mem_xs assoc_relD(4) [OF R] in auto)
  have p0: "p \<noteq> NULL" using chain_notNULL [OF xs(1)] split by auto
  have rd: "read_slot before s = p"
  proof (cases ys rule: rev_cases)
    case Nil
    with xs(1) split show ?thesis by (simp add: before_def)
  next
    case (snoc ys' y)
    then have "chain (hn s) (read_slot b s) (ys' @ y # p # zs)" using xs(1) split(1) by simp
    from chain_suffix [OF this] snoc show ?thesis by (simp add: before_def)
  qed
  define s1 where "s1 = s\<lparr>hash_items := hash_items s - 1\<rparr>"
  define s2 where "s2 = upd_item p (\<lambda>i. i\<lparr>it_h_next := NULL\<rparr>) s1"
  define s3 where "s3 = write_slot before (it_h_next (mem s1 p)) s2"
  have del: "assoc_delete k (hash_key k) s = Some s3"
    using before rd p0
    by (simp add: assoc_delete_def hashitem_before_def b_def s1_def s2_def s3_def Let_def)
  have yp: "ys \<noteq> [] \<Longrightarrow> last ys \<noteq> p" using split(2) last_in_set by metis
  have hn3: "hn s3 = (if ys = [] then (hn s)(p := NULL)
      else ((hn s)(p := NULL))(last ys := it_h_next (mem s p)))"
    using b_ok yp by (auto simp: s3_def s2_def s1_def before_def mem_write_slot fun_eq_iff)
  have keys: "key_at s3 q = key_at s q" "key_ok (mem s3 q) = key_ok (mem s q)" for q
    using b_ok by (auto simp: s3_def s2_def s1_def before_def mem_write_slot key_at_upd key_ok_upd)
  have shape3: "assoc_shape s3"
    using assoc_shape_write_bucket [of s2 "hash_key k"] shape
    by (auto simp: s3_def s2_def s1_def before_def b_def)
  have slots: "bucket_slot h s3 = bucket_slot h s" for h
    by (simp add: s3_def s2_def s1_def)
  have heads: "read_slot (bucket_slot h s) s3 = (if ys = [] \<and> bucket_slot h s = b
      then it_h_next (mem s p) else read_slot (bucket_slot h s) s)" for h
    using b_ok bucket_slot_ok [OF shape, of h]
    by (simp add: s3_def s2_def s1_def before_def read_write_slot)
  have uniq: "m k' = Some p \<Longrightarrow> k' = k" for k'
    using assoc_relD(5) [OF R, of k' p] keyp by simp
  have mems: "members (m(k := None)) (\<lambda>h. bucket_slot h s) c
      = members m (\<lambda>h. bucket_slot h s) c - (if b = c then {p} else {})" for c
    unfolding b_def by (rule members_delete) (rule k, rule uniq)
  have "assoc_rel s3 (m(k := None))"
    unfolding assoc_rel_def
  proof (intro conjI allI impI)
    show "assoc_shape s3" by (rule shape3)
    show "finite (dom (m(k := None)))" using assoc_relD(2) [OF R] by simp
    have "0 < card (dom m)" using assoc_relD(2) [OF R] k by (auto simp: card_gt_0_iff)
    then show "hash_items s3 = of_nat (card (dom (m(k := None))))"
      using assoc_relD(2,3) [OF R] k
      by (simp add: s3_def s2_def s1_def card_Diff_singleton domIff of_nat_diff Suc_leI)
  next
    fix k' q assume "(m(k := None)) k' = Some q"
    then have "m k' = Some q" by (auto split: if_splits)
    then show "key_ok (mem s3 q)" "key_at s3 q = k'"
      unfolding keys by (rule assoc_relD(4,5) [OF R])+
  next
    fix hv
    show "\<exists>xs. chain (hn s3) (read_slot (bucket_slot hv s3) s3) xs
        \<and> set xs = members (m(k := None)) (\<lambda>h. bucket_slot h s3) (bucket_slot hv s3)"
    proof (cases "bucket_slot hv s = b")
      case True
      have "chain (hn s3) (read_slot b s3) (ys @ zs)"
        using chain_unlink [of "hn s" "read_slot b s" ys p zs NULL] xs(1) split(1)
          heads [of "hash_key k"]
        by (simp add: hn3 b_def split: if_splits)
      moreover have "set (ys @ zs) = set xs - {p}" using split dist by auto
      ultimately show ?thesis
        using True xs(2) unfolding slots by (auto simp: mems)
    next
      case False
      obtain ws where ws: "chain (hn s) (read_slot (bucket_slot hv s) s) ws"
        "set ws = members m (\<lambda>h. bucket_slot h s) (bucket_slot hv s)"
        by (rule assoc_rel_chain [OF R])
      have "set ws \<inter> set xs = {}"
        using False ws(2) xs(2) members_iff [OF R] by auto
      moreover have "set xs = insert p (set ys \<union> set zs)" using split(1) by auto
      ultimately have "\<forall>x \<in> set ws. x \<noteq> p \<and> (ys \<noteq> [] \<longrightarrow> x \<noteq> last ys)"
        using last_in_set [of ys] by blast
      then have "\<forall>x \<in> set ws. hn s3 x = hn s x"
        using fun_cong [OF hn3] by (simp split: if_splits)
      then have "chain (hn s3) (read_slot (bucket_slot hv s) s) ws"
        using ws(1) by (subst chain_cong [of ws _ "hn s"]) auto
      then show ?thesis
        using False ws(2) unfolding slots by (auto simp: mems heads)
    qed
  qed
  moreover have "it_h_next (mem s3 p) = NULL"
    using fun_cong [OF hn3, of p] yp by (auto split: if_splits)
  ultimately show ?thesis using del by blast
qed

subsection \<open>Expansion\<close>

text \<open>Starting an expansion keeps every key where it can be found.\<close>

lemma malloc_mallocs: "malloc s = (p, t) \<Longrightarrow> \<exists>ps. t = s\<lparr>mallocs := ps\<rparr>"
  by (cases "mallocs s") (auto simp: malloc_def intro: exI [of _ "[]"])

text \<open>
  A step that leaves the arrays, and the chain pointer and key of every item in the table, as
  they are does not touch the represented map.
\<close>

lemma assoc_rel_cong:
  assumes R: "assoc_rel s m" and "primary_hashtable t = primary_hashtable s"
    "expanding s \<Longrightarrow> old_hashtable t = old_hashtable s" "hashpower t = hashpower s"
    "expanding t = expanding s" "expand_bucket t = expand_bucket s" "hash_items t = hash_items s"
    and items: "\<And>p. p \<in> ran m \<Longrightarrow> it_h_next (mem t p) = it_h_next (mem s p)
      \<and> key_at t p = key_at s p \<and> key_ok (mem t p)"
  shows "assoc_rel t m"
proof -
  have shape: "assoc_shape t" "assoc_shape s"
    using assoc_relD(1) [OF R] assms(2-7) by (auto simp: assoc_shape_def)
  have slots: "bucket_slot h t = bucket_slot h s" for h
    using assms(4-6) by (simp add: bucket_slot_eq shape)
  have heads: "read_slot (bucket_slot h s) t = read_slot (bucket_slot h s) s" for h
    using assms(2,3) by (simp add: bucket_slot_eq [OF shape(2)])
  have ch: "\<exists>xs. chain (hn t) (read_slot (bucket_slot hv s) s) xs
      \<and> set xs = members m (\<lambda>h. bucket_slot h s) (bucket_slot hv s)" for hv
  proof -
    obtain xs where xs: "chain (hn s) (read_slot (bucket_slot hv s) s) xs"
      "set xs = members m (\<lambda>h. bucket_slot h s) (bucket_slot hv s)"
      by (rule assoc_rel_chain [OF R])
    have "x \<in> ran m" if "x \<in> set xs" for x
      using that xs(2) by (auto simp: members_def ran_def)
    then have "chain (hn t) (read_slot (bucket_slot hv s) s) xs"
      using xs(1) items by (subst chain_cong [of xs _ "hn s"]) auto
    with xs(2) show ?thesis by blast
  qed
  show ?thesis
    unfolding assoc_rel_def slots heads
  proof (intro conjI allI impI)
    fix k p assume m: "m k = Some p"
    then have "p \<in> ran m" by (rule ranI)
    then show "key_ok (mem t p)" "key_at t p = k"
      using items [of p] assoc_relD(5) [OF R m] by simp_all
  qed (use shape assoc_relD(2,3) [OF R] assms(7) ch in simp_all)
qed

lemma assoc_rel_store:
  assumes "assoc_rel s m" "p \<notin> ran m"
  shows "assoc_rel (upd_item p f s) m"
proof (rule assoc_rel_cong [OF assms(1)])
  fix q assume "q \<in> ran m"
  then obtain k where "m k = Some q" by (auto simp: ran_def)
  with assms \<open>q \<in> ran m\<close> assoc_relD(4) [OF assms(1), of k q]
  show "it_h_next (mem (upd_item p f s) q) = it_h_next (mem s q)
    \<and> key_at (upd_item p f s) q = key_at s q \<and> key_ok (mem (upd_item p f s) q)"
    by auto
qed simp_all

lemma assoc_expand_rel:
  assumes R: "assoc_rel s m" and idle: "\<not> expanding s" and hp: "hashpower s < 31"
  shows "assoc_rel (assoc_expand s) m"
proof -
  obtain p t where mal: "malloc (s\<lparr>old_hashtable := primary_hashtable s\<rparr>) = (p, t)"
    by (cases "malloc (s\<lparr>old_hashtable := primary_hashtable s\<rparr>)")
  then obtain ps where t: "t = s\<lparr>old_hashtable := primary_hashtable s, mallocs := ps\<rparr>"
    using malloc_mallocs by fastforce
  have shape: "assoc_shape s" by (rule assoc_relD(1) [OF R])
  show ?thesis
  proof (cases "p = NULL")
    case True
    then have e: "assoc_expand s = t\<lparr>primary_hashtable := old_hashtable t\<rparr>"
      by (simp add: assoc_expand_def mal)
    show ?thesis unfolding e
      using idle t assoc_relD(4) [OF R]
      by (intro assoc_rel_cong [OF R]) (auto simp: ran_def)
  next
    case False
    define u where "u = assoc_expand s"
    have u: "mem u = mem s" "old_hashtable u = primary_hashtable s"
      "primary_hashtable u = replicate (2 ^ (hashpower s + 1)) NULL"
      "hashpower u = hashpower s + 1" "expanding u" "expand_bucket u = 0"
      "hash_items u = hash_items s"
      using False hp
      by (simp_all add: u_def assoc_expand_def mal t upd_stats_def Let_def unat_hashsize)
    have shape_u: "assoc_shape u"
      using shape hp by (simp add: assoc_shape_def u)
    have slots: "bucket_slot h u = Old (unat h mod 2 ^ hashpower s)"
      "bucket_slot h s = Primary (unat h mod 2 ^ hashpower s)" for h
      using idle by (simp_all add: bucket_slot_eq shape shape_u u)
    have mems: "members m (\<lambda>h. bucket_slot h u) (bucket_slot hv u)
        = members m (\<lambda>h. bucket_slot h s) (bucket_slot hv s)" for hv
      by (simp add: members_def slots)
    have heads: "read_slot (bucket_slot hv u) u = read_slot (bucket_slot hv s) s" for hv
      by (simp add: slots u)
    have "assoc_rel u m"
      using R shape_u unfolding assoc_rel_def mems heads by (simp add: u)
    then show ?thesis by (simp add: u_def)
  qed
qed

subsection \<open>Migration\<close>

lemma move_chain_ok:
  assumes "chain (hn s) p ys" "length (primary_hashtable s) = 2 ^ hashpower s" "hashpower s \<le> 31"
    and "\<And>i. i < 2 ^ hashpower s \<Longrightarrow>
           \<exists>zs. chain (hn s) (primary_hashtable s ! i) zs \<and> set zs = Z i"
    and "\<And>i. i < 2 ^ hashpower s \<Longrightarrow> set ys \<inter> Z i = {}"
  shows "\<exists>M P. move_chain p s = Some (s\<lparr>mem := M, primary_hashtable := P\<rparr>)
     \<and> length P = 2 ^ hashpower s
     \<and> (\<forall>x. M x = (mem s x)\<lparr>it_h_next := it_h_next (M x)\<rparr>)
     \<and> (\<forall>x. x \<notin> set ys \<longrightarrow> M x = mem s x)
     \<and> (\<forall>i < 2 ^ hashpower s. \<exists>ws. chain (\<lambda>x. it_h_next (M x)) (P ! i) ws
          \<and> set ws = Z i \<union> {y \<in> set ys. hbucket (hash_key (key_at s y)) (hashpower s) = i})"
  using assms
proof (induction ys arbitrary: p s Z)
  case Nil
  then show ?case
    by (intro exI [of _ "mem s"] exI [of _ "primary_hashtable s"])
      (simp add: move_chain.simps)
next
  case (Cons x ys)
  define b where "b = hbucket (hash_key (key_at s x)) (hashpower s)"
  define s1 where "s1 = s\<lparr>mem := (mem s)(x := (mem s x)\<lparr>it_h_next := primary_hashtable s ! b\<rparr>),
     primary_hashtable := (primary_hashtable s)[b := x]\<rparr>"
  have x: "p = x" "x \<noteq> NULL" "chain (hn s) (it_h_next (mem s x)) ys"
    and dist: "x \<notin> set ys"
    using Cons.prems(1) chain_distinct [OF Cons.prems(1)] by auto
  have b: "b < 2 ^ hashpower s" unfolding b_def by (rule hbucket_less) (use Cons.prems(3) in simp)
  have step: "move_chain p s = move_chain (it_h_next (mem s x)) s1"
    using x b Cons.prems(2,3) by (simp add: move_chain.simps [of x s] s1_def b_def upd_item_def Let_def bucket_int)
  have keys: "key_at s1 y = key_at s y" for y by (simp add: s1_def key_at_upd)
  have 1: "chain (hn s1) (it_h_next (mem s x)) ys"
    using x(3) dist by (subst chain_cong [of ys _ "hn s"]) (auto simp: s1_def)
  have 2: "\<exists>zs. chain (hn s1) (primary_hashtable s1 ! i) zs \<and> set zs = (Z(b := insert x (Z b))) i"
    if i: "i < 2 ^ hashpower s1" for i
  proof -
    have i': "i < 2 ^ hashpower s" using i by (simp add: s1_def)
    obtain zs where zs: "chain (hn s) (primary_hashtable s ! i) zs" "set zs = Z i"
      using Cons.prems(4) [OF i'] by blast
    have "x \<notin> set zs" using Cons.prems(5) [OF i'] zs(2) by auto
    then have "chain (hn s1) (primary_hashtable s ! i) zs"
      using zs(1) by (subst chain_cong [of zs _ "hn s"]) (auto simp: s1_def)
    then have "chain (hn s1) (primary_hashtable s1 ! i) (if i = b then x # zs else zs)"
      using x(2) b Cons.prems(2) by (auto simp: s1_def)
    moreover have "set (if i = b then x # zs else zs) = (Z(b := insert x (Z b))) i"
      using zs(2) by simp
    ultimately show ?thesis by blast
  qed
  have 3: "set ys \<inter> (Z(b := insert x (Z b))) i = {}" if "i < 2 ^ hashpower s1" for i
    using Cons.prems(5) [of i] that dist by (auto simp: s1_def)
  have hp: "hashpower s1 = hashpower s" "length (primary_hashtable s1) = 2 ^ hashpower s1"
    using Cons.prems(2) by (simp_all add: s1_def)
  obtain M P where MP: "move_chain (it_h_next (mem s x)) s1 = Some (s1\<lparr>mem := M, primary_hashtable := P\<rparr>)"
    "length P = 2 ^ hashpower s1"
    "\<forall>y. M y = (mem s1 y)\<lparr>it_h_next := it_h_next (M y)\<rparr>"
    "\<forall>y. y \<notin> set ys \<longrightarrow> M y = mem s1 y"
    "\<forall>i < 2 ^ hashpower s1. \<exists>ws. chain (\<lambda>x. it_h_next (M x)) (P ! i) ws
       \<and> set ws = (Z(b := insert x (Z b))) i
           \<union> {y \<in> set ys. hbucket (hash_key (key_at s1 y)) (hashpower s1) = i}"
    using Cons.IH [OF 1 hp(2) _ 2 3] Cons.prems(3) hp(1) by auto
  have upd: "M y = (mem s y)\<lparr>it_h_next := it_h_next (M y)\<rparr>" for y
  proof -
    obtain c where "M y = (mem s1 y)\<lparr>it_h_next := c\<rparr>" using MP(3) by blast
    then show ?thesis by (cases "y = x") (simp_all add: s1_def)
  qed
  have frame: "M y = mem s y" if "y \<notin> set (x # ys)" for y
    using MP(4) [rule_format, of y] that by (simp add: s1_def)
  have sets: "(Z(b := insert x (Z b))) i
       \<union> {y \<in> set ys. hbucket (hash_key (key_at s1 y)) (hashpower s) = i}
     = Z i \<union> {y \<in> set (x # ys). hbucket (hash_key (key_at s y)) (hashpower s) = i}" for i
    by (auto simp: keys b_def)
  show ?case
  proof (intro exI conjI)
    show "move_chain p s = Some (s\<lparr>mem := M, primary_hashtable := P\<rparr>)"
      using MP(1) by (simp add: step s1_def)
    show "length P = 2 ^ hashpower s" using MP(2) hp(1) by simp
    show "\<forall>y. M y = (mem s y)\<lparr>it_h_next := it_h_next (M y)\<rparr>" using upd by blast
    show "\<forall>y. y \<notin> set (x # ys) \<longrightarrow> M y = mem s y" using frame by blast
    show "\<forall>i < 2 ^ hashpower s. \<exists>ws. chain (\<lambda>x. it_h_next (M x)) (P ! i) ws
        \<and> set ws = Z i \<union> {y \<in> set (x # ys). hbucket (hash_key (key_at s y)) (hashpower s) = i}"
      using MP(5) unfolding hp(1) sets .
  qed
qed

lemma unat_word_eqI: "unat (ucast (w :: u32) :: u64) = unat w"
  by (simp add: unsigned_ucast_eq take_bit_nat_eq_self less_trans [OF unat_u32_less])

lemma expand_bucket_step:
  assumes "assoc_shape s" "expanding s"
  shows "unat (expand_bucket s + 1) = unat (expand_bucket s) + 1"
    and "ucast (expand_bucket s + 1) = hashsize (hashpower s - 1)
      \<longleftrightarrow> unat (expand_bucket s) + 1 = 2 ^ (hashpower s - 1)"
proof -
  have "unat (expand_bucket s) + 1 \<le> 2 ^ (hashpower s - 1)" "hashpower s \<le> 32" "0 < hashpower s"
    using assms by (auto simp: assoc_shape_def)
  moreover have "(2 :: nat) ^ (hashpower s - 1) \<le> 2 ^ 31"
    using \<open>hashpower s \<le> 32\<close> by (intro power_increasing) auto
  ultimately have "unat (expand_bucket s) + 1 < 4294967296" by simp
  then show *: "unat (expand_bucket s + 1) = unat (expand_bucket s) + 1"
    by (simp add: unat_word_ariths)
  show "ucast (expand_bucket s + 1) = hashsize (hashpower s - 1)
      \<longleftrightarrow> unat (expand_bucket s) + 1 = 2 ^ (hashpower s - 1)"
    using \<open>hashpower s \<le> 32\<close> unfolding word_unat_eq_iff
    by (simp only: unat_word_eqI *) (simp add: unat_hashsize)
qed

text \<open>Where a hash value belongs once \<open>n\<close> buckets of the old array have been migrated.\<close>

definition slot_at :: "nat \<Rightarrow> nat \<Rightarrow> u32 \<Rightarrow> slot" where
  "slot_at hp n h = (if n \<le> unat h mod 2 ^ (hp - 1) then Old (unat h mod 2 ^ (hp - 1))
     else Primary (unat h mod 2 ^ hp))"

lemma bucket_slot_at:
  "assoc_shape s \<Longrightarrow> expanding s
   \<Longrightarrow> (\<lambda>h. bucket_slot h s) = slot_at (hashpower s) (unat (expand_bucket s))"
  by (rule ext) (simp add: bucket_slot_eq slot_at_def)

lemma bucket_slot_done:
  "assoc_shape s \<Longrightarrow> \<not> expanding s \<Longrightarrow> (\<lambda>h. bucket_slot h s) = slot_at (hashpower s) (2 ^ (hashpower s - 1))"
  by (rule ext) (simp add: bucket_slot_eq slot_at_def not_le)

lemma members_Primary_next:
  assumes "0 < hp" "i mod 2 ^ (hp - 1) \<le> e"
  shows "members m (slot_at hp (Suc e)) (Primary i)
    = members m (slot_at hp e) (Primary i)
      \<union> {p \<in> members m (slot_at hp e) (Old e). \<exists>k. m k = Some p \<and> unat (hash_key k) mod 2 ^ hp = i}"
  (is "?L = ?R")
proof (rule set_eqI)
  fix p
  have "slot_at hp (Suc e) (hash_key k) = Primary i
    \<longleftrightarrow> unat (hash_key k) mod 2 ^ hp = i" for k
    using assms mod_mod_power [of hp "unat (hash_key k)"] by (auto simp: slot_at_def)
  moreover have "slot_at hp e (hash_key k) = Primary i \<or> slot_at hp e (hash_key k) = Old e
    \<longleftrightarrow> unat (hash_key k) mod 2 ^ hp = i" if "slot_at hp (Suc e) (hash_key k) = Primary i" for k
    using that assms mod_mod_power [of hp "unat (hash_key k)"] by (auto simp: slot_at_def)
  ultimately show "p \<in> ?L \<longleftrightarrow> p \<in> ?R"
    using assms mod_mod_power [of hp] by (auto simp: members_def slot_at_def)
qed

lemma members_Old_next:
  "r \<noteq> e \<Longrightarrow> e \<le> r \<Longrightarrow> members m (slot_at hp (Suc e)) (Old r) = members m (slot_at hp e) (Old r)"
  by (auto simp: members_def slot_at_def)

lemma migrate_bucket_rel:
  assumes R: "assoc_rel s m" and ex: "expanding s"
  shows "\<exists>s'. migrate_bucket s = Some s' \<and> assoc_rel s' m \<and> hashpower s' = hashpower s
     \<and> hash_bulk_move s' = hash_bulk_move s
     \<and> (if unat (expand_bucket s) + 1 = 2 ^ (hashpower s - 1) then \<not> expanding s'
        else expanding s' \<and> unat (expand_bucket s') = unat (expand_bucket s) + 1)"
proof -
  define e where "e = unat (expand_bucket s)"
  define hp where "hp = hashpower s"
  define sl where "sl = slot_at hp e"
  have shape: "assoc_shape s" by (rule assoc_relD(1) [OF R])
  have hp: "0 < hp" "hp \<le> 31" "length (primary_hashtable s) = 2 ^ hp"
    "length (old_hashtable s) = 2 ^ (hp - 1)" "e < 2 ^ (hp - 1)"
    "\<And>i. i < 2 ^ hp \<Longrightarrow> e \<le> i mod 2 ^ (hp - 1) \<Longrightarrow> primary_hashtable s ! i = NULL"
    using shape ex by (auto simp: assoc_shape_def hp_def e_def)
  have slots: "(\<lambda>h. bucket_slot h s) = sl"
    unfolding sl_def hp_def e_def by (rule bucket_slot_at [OF shape ex])
  have slot: "bucket_slot h s = sl h" for h using fun_cong [OF slots] .
  have ch: "\<exists>xs. chain (hn s) (read_slot (sl h) s) xs \<and> set xs = members m sl (sl h)" for h
    using assoc_rel_chain [OF R, of h] unfolding slots slot by blast
  have uniq: "m k = Some p \<Longrightarrow> m k' = Some p \<Longrightarrow> k = k'" for k k' p
    using assoc_relD(5) [OF R, of k p] assoc_relD(5) [OF R, of k' p] by simp
  have u32: "unat (of_nat i :: u32) = i" if "i < 2 ^ hp" for i
  proof -
    have "(2 :: nat) ^ hp \<le> 2 ^ 31" using hp(2) by (intro power_increasing) auto
    with that show ?thesis by (simp add: unsigned_of_nat take_bit_nat_eq_self)
  qed
  have pow: "(2 :: nat) ^ (hp - 1) < 2 ^ hp" using hp(1) by simp
  have "sl (of_nat e) = Old e" using u32 [of e] hp(5) pow by (simp add: sl_def slot_at_def)
  then obtain xs where xs: "chain (hn s) (old_hashtable s ! e) xs" "set xs = members m sl (Old e)"
    using ch [of "of_nat e"] by auto
  have Z: "\<exists>zs. chain (hn s) (primary_hashtable s ! i) zs \<and> set zs = members m sl (Primary i)"
    if i: "i < 2 ^ hp" for i
  proof (cases "e \<le> i mod 2 ^ (hp - 1)")
    case True
    have "sl h \<noteq> Primary i" for h
      using True mod_mod_power [OF hp(1), of "unat h"] by (auto simp: sl_def slot_at_def)
    then have "members m sl (Primary i) = {}" by (auto simp: members_def)
    with hp(6) [OF i True] show ?thesis by auto
  next
    case False
    then have "sl (of_nat i) = Primary i" using u32 [OF i] i by (simp add: sl_def slot_at_def)
    then show ?thesis using ch [of "of_nat i"] by simp
  qed
  have disj: "set xs \<inter> members m sl c = {}" if "c \<noteq> Old e" for c
    using that members_iff [OF R] unfolding xs(2) by auto
  obtain M P where MP: "move_chain (old_hashtable s ! e) s
        = Some (s\<lparr>mem := M, primary_hashtable := P\<rparr>)"
    "length P = 2 ^ hp" "\<forall>x. M x = (mem s x)\<lparr>it_h_next := it_h_next (M x)\<rparr>"
    "\<forall>x. x \<notin> set xs \<longrightarrow> M x = mem s x"
    "\<forall>i < 2 ^ hp. \<exists>ws. chain (\<lambda>x. it_h_next (M x)) (P ! i) ws
       \<and> set ws = members m sl (Primary i) \<union> {y \<in> set xs. hbucket (hash_key (key_at s y)) hp = i}"
    using move_chain_ok [OF xs(1), of "\<lambda>i. members m sl (Primary i)"] Z disj hp
    unfolding hp_def by auto
  define s' where "s' = the (migrate_bucket s)"
  have step: "migrate_bucket s = Some s'" and s': "mem s' = M" "primary_hashtable s' = P"
    "hashpower s' = hp" "hash_items s' = hash_items s" "hash_bulk_move s' = hash_bulk_move s"
    "expanding s' \<longleftrightarrow> e + 1 \<noteq> 2 ^ (hp - 1)"
    "expanding s' \<Longrightarrow> old_hashtable s' = (old_hashtable s)[e := NULL]"
    "unat (expand_bucket s') = e + 1"
    using expand_bucket_step [OF shape ex] MP(1) ex
    by (auto simp: s'_def migrate_bucket_def e_def hp_def Let_def upd_stats_def)
  have keys: "key_at s' y = key_at s y" "key_ok (mem s' y) = key_ok (mem s y)" for y
  proof -
    obtain c where "M y = (mem s y)\<lparr>it_h_next := c\<rparr>" using MP(3) by blast
    then show "key_at s' y = key_at s y" "key_ok (mem s' y) = key_ok (mem s y)"
      by (simp_all add: s' key_at_upd key_ok_upd)
  qed
  have P_chain: "\<exists>ws. chain (hn s') (P ! i) ws \<and> set ws = (if i mod 2 ^ (hp - 1) \<le> e
      then members m (slot_at hp (Suc e)) (Primary i) else {})" if i: "i < 2 ^ hp" for i
  proof -
    have "{y \<in> set xs. hbucket (hash_key (key_at s y)) hp = i}
        = {p \<in> members m sl (Old e). \<exists>k. m k = Some p \<and> unat (hash_key k) mod 2 ^ hp = i}"
      unfolding xs(2) using hp(2) assoc_relD(5) [OF R] members_iff [OF R]
      by (auto simp: hbucket_mod)
    moreover have "\<exists>ws. chain (hn s') (P ! i) ws \<and> set ws = members m sl (Primary i)
        \<union> {y \<in> set xs. hbucket (hash_key (key_at s y)) hp = i}"
      using MP(5) i unfolding s' by blast
    moreover have "members m sl (Primary i)
        \<union> {p \<in> members m sl (Old e). \<exists>k. m k = Some p \<and> unat (hash_key k) mod 2 ^ hp = i}
      = {}" if "\<not> i mod 2 ^ (hp - 1) \<le> e"
      using that mod_mod_power [OF hp(1)] by (auto simp: members_def sl_def slot_at_def dest: uniq)
    ultimately show ?thesis
      using members_Primary_next [OF hp(1), of i e m]
      by (cases "i mod 2 ^ (hp - 1) \<le> e") (simp_all only: sl_def if_True if_False
          not_False_eq_True simp_thms)
  qed
  have P_null: "P ! i = NULL" if "i < 2 ^ hp" "e + 1 \<le> i mod 2 ^ (hp - 1)" for i
    using P_chain [OF that(1)] that(2) by auto
  have shape': "assoc_shape s'"
    using hp MP(2) P_null s' by (auto simp: assoc_shape_def)
  have slots': "(\<lambda>h. bucket_slot h s') = slot_at hp (Suc e)"
    using bucket_slot_at [OF shape'] bucket_slot_done [OF shape'] s'(3,6,8)
    by (cases "expanding s'") auto
  have slot': "bucket_slot h s' = slot_at hp (Suc e) h" for h using fun_cong [OF slots'] .
  have "assoc_rel s' m"
    unfolding assoc_rel_def
  proof (intro conjI allI impI)
    show "assoc_shape s'" "finite (dom m)" "hash_items s' = of_nat (card (dom m))"
      using shape' assoc_relD(2,3) [OF R] s'(4) by simp_all
    show "key_ok (mem s' p)" if "m k = Some p" for k p
      using assoc_relD(4) [OF R that] by (simp add: keys)
    show "key_at s' p = k" if "m k = Some p" for k p
      using assoc_relD(5) [OF R that] by (simp add: keys)
    show "\<exists>xs. chain (hn s') (read_slot (bucket_slot hv s') s') xs
        \<and> set xs = members m (\<lambda>h. bucket_slot h s') (bucket_slot hv s')" for hv
    proof (cases "Suc e \<le> unat hv mod 2 ^ (hp - 1)")
      case True
      define r where "r = unat hv mod 2 ^ (hp - 1)"
      have r: "r < 2 ^ (hp - 1)" "r \<noteq> e" "e \<le> r" using True by (auto simp: r_def)
      then have "e + 1 \<noteq> 2 ^ (hp - 1)" using True r_def by linarith
      then have ex': "expanding s'" using s'(6) by simp
      obtain ws where ws: "chain (hn s) (old_hashtable s ! r) ws" "set ws = members m sl (Old r)"
        using ch [of hv] r True by (auto simp: sl_def slot_at_def r_def)
      have "\<forall>x \<in> set ws. M x = mem s x"
        using disj [of "Old r"] r(2) ws(2) MP(4) by auto
      then have "chain (hn s') (old_hashtable s ! r) ws"
        using ws(1) by (subst chain_cong [of ws _ "hn s"]) (auto simp: s')
      moreover have "slot_at hp (Suc e) hv = Old r" using True by (simp add: slot_at_def r_def)
      moreover have "read_slot (Old r) s' = old_hashtable s ! r" using s'(7) [OF ex'] r(2) by simp
      moreover have "members m (slot_at hp (Suc e)) (Old r) = set ws"
        using ws(2) members_Old_next [OF r(2,3), of m hp] by (simp add: sl_def)
      ultimately show ?thesis unfolding slots' slot' by (intro exI [of _ ws]) simp
    next
      case False
      define i where "i = unat hv mod 2 ^ hp"
      have "i mod 2 ^ (hp - 1) \<le> e" "i < 2 ^ hp"
        using False mod_mod_power [OF hp(1), of "unat hv"] by (auto simp: i_def)
      then have "\<exists>ws. chain (hn s') (P ! i) ws \<and> set ws = members m (slot_at hp (Suc e)) (Primary i)"
        using P_chain [of i] by simp
      moreover have "slot_at hp (Suc e) hv = Primary i" using False by (simp add: slot_at_def i_def)
      ultimately show ?thesis unfolding slots' slot' by (simp add: s'(2))
    qed
  qed
  then show ?thesis
    using step s' by (auto simp: e_def hp_def)
qed

lemma bulk_move_rel:
  assumes "assoc_rel s m" "expanding s"
  shows "\<exists>s'. bulk_move n s = Some s' \<and> assoc_rel s' m \<and> hashpower s' = hashpower s \<and> hash_bulk_move s' = hash_bulk_move s
     \<and> (if unat (expand_bucket s) + n < 2 ^ (hashpower s - 1)
        then expanding s' \<and> unat (expand_bucket s') = unat (expand_bucket s) + n
        else \<not> expanding s')"
  using assms
proof (induction n arbitrary: s)
  case 0
  then show ?case using assoc_relD(1) [OF 0(1)] by (auto simp: assoc_shape_def)
next
  case (Suc n)
  obtain t where t: "migrate_bucket s = Some t" "assoc_rel t m" "hashpower t = hashpower s" "hash_bulk_move t = hash_bulk_move s"
    "if unat (expand_bucket s) + 1 = 2 ^ (hashpower s - 1) then \<not> expanding t
     else expanding t \<and> unat (expand_bucket t) = unat (expand_bucket s) + 1"
    using migrate_bucket_rel [OF Suc.prems] by blast
  have bound: "unat (expand_bucket s) < 2 ^ (hashpower s - 1)"
    using assoc_relD(1) [OF Suc.prems(1)] Suc.prems(2) by (auto simp: assoc_shape_def)
  show ?case
  proof (cases "expanding t")
    case True
    with t(5) have "unat (expand_bucket t) = unat (expand_bucket s) + 1"
      by (simp split: if_splits)
    with Suc.IH [OF t(2) True] t(1,3,4) Suc.prems(2) show ?thesis by (auto split: if_splits)
  next
    case False
    then have "bulk_move n t = Some t" by (cases n) simp_all
    moreover have "\<not> unat (expand_bucket s) + Suc n < 2 ^ (hashpower s - 1)"
      using False t(5) bound by (auto split: if_splits)
    ultimately show ?thesis using t(1-4) False Suc.prems(2) by simp
  qed
qed

lemma bulk_move_idle: "\<not> expanding s \<Longrightarrow> bulk_move n s = Some s"
  by (cases n) simp_all

lemma assoc_rel_started [simp]: "assoc_rel (s\<lparr>started_expanding := b\<rparr>) m = assoc_rel s m"
  by (simp add: assoc_rel_def)

lemma maintenance_pass_rel:
  assumes "assoc_rel s m"
  shows "\<exists>s'. maintenance_pass s = Some s' \<and> assoc_rel s' m"
proof (cases "expanding s")
  case True
  then show ?thesis
    using bulk_move_rel [OF assms True, of "nat (hash_bulk_move s)"]
    by (auto simp: maintenance_pass_def)
next
  case False
  then show ?thesis using assms by (simp add: maintenance_pass_def bulk_move_idle)
qed

lemma assoc_init_rel:
  assumes "assoc_init n s = Some t" "hash_items s = 0" "\<not> expanding s"
    "0 < hashpower t" "hashpower t \<le> 32"
  shows "assoc_rel t Map.empty"
proof -
  define s0 where "s0 = (if n \<noteq> 0 then s\<lparr>hashpower := n\<rparr> else s)"
  have s0: "hash_items s0 = 0" "\<not> expanding s0" using assms(2,3) by (simp_all add: s0_def)
  obtain p u where mal: "malloc s0 = (p, u)" by (cases "malloc s0")
  then obtain ps where u: "u = s0\<lparr>mallocs := ps\<rparr>" using malloc_mallocs by blast
  have e: "assoc_init n s = (let (p, s) = malloc s0 in
     if p = NULL then None
     else Some (upd_stats (\<lambda>t. t\<lparr>hash_power_level := of_nat (hashpower s),
         hash_bytes := hashsize (hashpower s) * 8\<rparr>)
       (s\<lparr>primary_hashtable := replicate (unat (hashsize (hashpower s))) NULL\<rparr>)))"
    unfolding assoc_init_def s0_def by (simp only: Let_def)
  have t: "hashpower t = hashpower u" "hash_items t = 0" "\<not> expanding t"
    "primary_hashtable t = replicate (unat (hashsize (hashpower u))) NULL"
    using assms(1) s0 u
    by (auto simp: e mal upd_stats_def split: if_splits)
  then have len: "primary_hashtable t = replicate (2 ^ hashpower t) NULL"
    using assms(5) by (simp add: unat_hashsize)
  have shape: "assoc_shape t" using assms(4,5) t(3) len by (simp add: assoc_shape_def)
  show ?thesis
    unfolding assoc_rel_def using shape t(2,3) by (simp add: bucket_slot_eq members_def len)
qed

section \<open>The interface of a key table\<close>

text \<open>
  What the items component relies on: a lookup, an insertion of an absent key and a deletion of
  a present one act on the represented map. A maintained table also has background steps that
  leave the map alone.
\<close>

locale key_table =
  fixes rel :: "'s \<Rightarrow> (string \<rightharpoonup> addr) \<Rightarrow> bool"
    and lookup :: "string \<Rightarrow> 's \<Rightarrow> addr option"
    and insrt :: "addr \<Rightarrow> 's \<Rightarrow> 's"
    and delete :: "string \<Rightarrow> 's \<Rightarrow> 's option"
    and keyof :: "'s \<Rightarrow> addr \<Rightarrow> string"
    and valid :: "'s \<Rightarrow> addr \<Rightarrow> bool"
  assumes lookup_rel: "rel s m \<Longrightarrow> lookup k s = Some (case m k of None \<Rightarrow> NULL | Some p \<Rightarrow> p)"
    and insert_rel: "rel s m \<Longrightarrow> m (keyof s p) = None \<Longrightarrow> valid s p
       \<Longrightarrow> rel (insrt p s) (m(keyof s p \<mapsto> p))"
    and delete_rel: "rel s m \<Longrightarrow> m k = Some p \<Longrightarrow> \<exists>s'. delete k s = Some s' \<and> rel s' (m(k := None))"
begin

lemma lookup_insert:
  assumes "rel s m" "m (keyof s p) = None" "valid s p"
  shows "lookup (keyof s p) (insrt p s) = Some p"
    and "k \<noteq> keyof s p \<Longrightarrow> lookup k (insrt p s) = lookup k s"
  using lookup_rel [OF insert_rel [OF assms]] lookup_rel [OF assms(1)] by simp_all

lemma lookup_delete:
  assumes "rel s m" "m k = Some p"
  shows "\<exists>s'. delete k s = Some s' \<and> lookup k s' = Some NULL
     \<and> (\<forall>k'. k' \<noteq> k \<longrightarrow> lookup k' s' = lookup k' s)"
proof -
  obtain s' where "delete k s = Some s'" "rel s' (m(k := None))"
    using delete_rel [OF assms] by blast
  moreover from this(2) have "lookup k' s' = (if k' = k then Some NULL else lookup k' s)" for k'
    using lookup_rel [OF assms(1), of k'] by (simp add: lookup_rel)
  ultimately show ?thesis by auto
qed

lemma delete_insert:
  assumes "rel s m" "m (keyof s p) = None" "valid s p"
  shows "\<exists>s'. delete (keyof s p) (insrt p s) = Some s' \<and> rel s' m
     \<and> (\<forall>k. lookup k s' = lookup k s)"
proof -
  obtain s' where s': "delete (keyof s p) (insrt p s) = Some s'"
    "rel s' ((m(keyof s p \<mapsto> p))(keyof s p := None))"
    using delete_rel [OF insert_rel [OF assms] fun_upd_same] by blast
  moreover have "(m(keyof s p \<mapsto> p))(keyof s p := None) = m" using assms(2) by auto
  ultimately have "rel s' m" by simp
  then have "lookup k s' = lookup k s" for k by (simp only: lookup_rel [OF assms(1)] lookup_rel)
  with s'(1) \<open>rel s' m\<close> show ?thesis by blast
qed

end

locale maintained_table = key_table +
  fixes background :: "'a \<Rightarrow> 'a option"
  assumes background_rel: "rel s m \<Longrightarrow> \<exists>s'. background s = Some s' \<and> rel s' m"
begin

lemma lookup_background:
  assumes "rel s m"
  shows "\<exists>s'. background s = Some s' \<and> (\<forall>k. lookup k s' = lookup k s)"
proof -
  obtain s' where "background s = Some s'" "rel s' m" using background_rel [OF assms] by blast
  moreover from this(2) have "lookup k s' = lookup k s" for k
    by (simp only: lookup_rel [OF assms] lookup_rel)
  ultimately show ?thesis by blast
qed

end

definition item_valid :: "'a mc_scheme \<Rightarrow> addr \<Rightarrow> bool" where
  "item_valid s p \<longleftrightarrow> p \<noteq> NULL \<and> key_ok (mem s p)"

interpretation hash_table: maintained_table
  "assoc_rel :: 'a assoc_scheme \<Rightarrow> (string \<rightharpoonup> addr) \<Rightarrow> bool"
  "\<lambda>k. assoc_find k (hash_key k)"
  "\<lambda>p s. assoc_insert p (hash_key (key_at s p)) s"
  "\<lambda>k. assoc_delete k (hash_key k)" "\<lambda>s p. key_at s p" item_valid maintenance_pass
proof (unfold_locales, goal_cases)
  case 1 then show ?case by (rule assoc_find_rel)
next
  case 2 then show ?case by (simp add: assoc_insert_rel item_valid_def)
next
  case 3 then show ?case using assoc_delete_rel by blast
next
  case 4 then show ?case by (rule maintenance_pass_rel)
qed

section \<open>Reachable tables\<close>

text \<open>
  Every sequence of table operations, item stores and turns of the maintenance thread, together
  with the map it should implement. The thread starts an expansion only when none is running.
\<close>

inductive table_reach :: "assoc \<Rightarrow> (string \<rightharpoonup> addr) \<Rightarrow> bool" where
  init: "assoc_init n s = Some t \<Longrightarrow> hash_items s = 0 \<Longrightarrow> \<not> expanding s \<Longrightarrow> 0 < hashpower t
     \<Longrightarrow> hashpower t \<le> 32 \<Longrightarrow> table_reach t Map.empty"
| store: "table_reach s m \<Longrightarrow> p \<notin> ran m \<Longrightarrow> table_reach (upd_item p f s) m"
| link: "table_reach s m \<Longrightarrow> m (key_at s p) = None \<Longrightarrow> item_valid s p
     \<Longrightarrow> table_reach (assoc_insert p (hash_key (key_at s p)) s) (m(key_at s p \<mapsto> p))"
| unlink: "table_reach s m \<Longrightarrow> m k = Some p \<Longrightarrow> assoc_delete k (hash_key k) s = Some t
     \<Longrightarrow> table_reach t (m(k := None))"
| wakeup: "table_reach s m \<Longrightarrow> \<not> expanding s \<Longrightarrow> hashpower s < 31
     \<Longrightarrow> table_reach (maintenance_wakeup s) m"
| turn: "table_reach s m \<Longrightarrow> maintenance_pass s = Some t \<Longrightarrow> table_reach t m"

lemma table_reach_rel: "table_reach s m \<Longrightarrow> assoc_rel s m"
proof (induction rule: table_reach.induct)
  case init then show ?case by (rule assoc_init_rel)
next
  case store then show ?case by (blast intro: assoc_rel_store)
next
  case link then show ?case by (blast intro: hash_table.insert_rel)
next
  case (unlink s m k p t)
  then obtain t' where "assoc_delete k (hash_key k) s = Some t'" "assoc_rel t' (m(k := None))"
    using hash_table.delete_rel by blast
  with unlink.hyps(3) have "t = t'" by simp
  with \<open>assoc_rel t' (m(k := None))\<close> show ?case by (simp only:)
next
  case wakeup then show ?case by (simp add: maintenance_wakeup_def assoc_expand_rel)
next
  case (turn s m t)
  then obtain t' where "maintenance_pass s = Some t'" "assoc_rel t' m"
    using hash_table.background_rel by blast
  with turn.hyps(2) show ?case by simp
qed

text \<open>A concrete table for the witnesses: two buckets, one stored item, mid-expansion.\<close>

lemma hash_bulk_move_kept [simp]:
  "hash_bulk_move (upd_item p f s) = hash_bulk_move s" "hash_bulk_move (upd_stats g s) = hash_bulk_move s"
  "hash_bulk_move (write_slot sl v s) = hash_bulk_move s"
  by (simp_all add: upd_item_def upd_stats_def) (cases sl; simp add: upd_item_def)

definition assoc_boot :: assoc where
  "assoc_boot = \<lparr>mem = (\<lambda>_. zero_item), mallocs = [4096, 8192], current_time = 2,
     process_started = 0, settings = settings_init, stats = stats_init, primary_hashtable = [],
     old_hashtable = [], hashpower = 16, hash_items = 0, expanding = False,
     started_expanding = False, expand_bucket = 0, hash_bulk_move = 1\<rparr>"

definition key_a :: "item \<Rightarrow> item" where
  "key_a i = i\<lparr>it_nkey := 1, it_key := ''a''\<rparr>"

definition assoc_one :: assoc where
  "assoc_one = upd_item 64 key_a (the (assoc_init 1 assoc_boot))"

lemma assoc_one_reach: "table_reach assoc_one Map.empty"
  unfolding assoc_one_def
proof (rule table_reach.store, rule table_reach.init)
  show "assoc_init 1 assoc_boot = Some (the (assoc_init 1 assoc_boot))"
    by (simp add: assoc_init_def assoc_boot_def malloc_def)
qed (simp_all add: assoc_init_def assoc_boot_def malloc_def upd_stats_def)

lemma assoc_one_fields:
  "mallocs assoc_one = [8192]" "\<not> expanding assoc_one" "hashpower assoc_one = 1" "hash_bulk_move assoc_one = 1"
  "mem assoc_one 64 = key_a zero_item"
  by (simp_all add: assoc_one_def assoc_init_def assoc_boot_def malloc_def upd_stats_def Let_def)

lemma key_at_one: "key_at assoc_one 64 = ''a''" and valid_one: "item_valid assoc_one 64"
  by (simp_all add: assoc_one_fields key_a_def zero_item_def ITEM_key_def item_valid_def key_ok_def)

definition assoc_two :: assoc where
  "assoc_two = maintenance_wakeup (assoc_insert 64 (hash_key ''a'') assoc_one)"

lemma assoc_two_reach: "table_reach assoc_two [''a'' \<mapsto> 64]"
  unfolding assoc_two_def
proof (rule table_reach.wakeup)
  show "table_reach (assoc_insert 64 (hash_key ''a'') assoc_one) [''a'' \<mapsto> 64]"
    using table_reach.link [OF assoc_one_reach _ valid_one] by (simp add: key_at_one)
qed (simp_all add: assoc_insert_def Let_def assoc_start_expand_def assoc_one_fields)

lemma assoc_two_expanding: "expanding assoc_two" "hashpower assoc_two = 2" "expand_bucket assoc_two = 0"
    "hash_bulk_move assoc_two = 1"
  by (simp_all add: assoc_two_def maintenance_wakeup_def assoc_expand_def malloc_def
      assoc_insert_def assoc_start_expand_def upd_stats_def assoc_one_fields Let_def)

section \<open>Properties\<close>

text \<open>
  Property C1. In every reachable table, also in the middle of an expansion, looking a key up
  returns (without running forever) the item stored under it, and \<open>NULL\<close> for an absent key.
\<close>

theorem table_lookup_correct:
  assumes "table_reach s m"
  shows "assoc_find k (hash_key k) s = Some (case m k of None \<Rightarrow> NULL | Some p \<Rightarrow> p)"
  by (rule hash_table.lookup_rel [OF table_reach_rel [OF assms]])

theorem table_lookup_correct_witness:
  "expanding assoc_two \<and> assoc_find ''a'' (hash_key ''a'') assoc_two = Some 64
   \<and> assoc_find ''b'' (hash_key ''b'') assoc_two = Some NULL"
  using table_lookup_correct [OF assoc_two_reach, of "''a''"]
    table_lookup_correct [OF assoc_two_reach, of "''b''"] assoc_two_expanding by simp

text \<open>
  Linking an absent key and unlinking it again succeeds and leaves every lookup as
  it was: nothing else is lost from or added to the chains.
\<close>

theorem table_unlink_undoes_link:
  assumes "assoc_rel s m" and "m (key_at s p) = None" and "item_valid s p"
  shows "\<exists>t. assoc_delete (key_at s p) (hash_key (key_at s p))
        (assoc_insert p (hash_key (key_at s p)) s) = Some t
     \<and> assoc_rel t m \<and> (\<forall>k. assoc_find k (hash_key k) t = assoc_find k (hash_key k) s)"
  by (rule hash_table.delete_insert [OF assms])

theorem table_unlink_undoes_link_witness:
  "\<exists>t. assoc_delete ''a'' (hash_key ''a'') (assoc_insert 64 (hash_key ''a'') assoc_one) = Some t
     \<and> assoc_find ''a'' (hash_key ''a'') t = assoc_find ''a'' (hash_key ''a'') assoc_one"
  using table_unlink_undoes_link [OF table_reach_rel [OF assoc_one_reach] _ valid_one]
  by (auto simp: key_at_one)

text \<open>The turns of the maintenance thread while an expansion is running, at most \<open>n\<close> of them.\<close>

fun expansion_turns :: "nat \<Rightarrow> 'a assoc_scheme \<Rightarrow> 'a assoc_scheme option" where
  "expansion_turns 0 s = Some s"
| "expansion_turns (Suc n) s = (if expanding s then Option.bind (maintenance_pass s) (expansion_turns n) else Some s)"

lemma expansion_turns_rel:
  assumes "assoc_rel s m" "expanding s" "0 < hash_bulk_move s"
  shows "\<exists>t. expansion_turns n s = Some t \<and> assoc_rel t m \<and> hashpower t = hashpower s
     \<and> (if unat (expand_bucket s) + n * nat (hash_bulk_move s) < 2 ^ (hashpower s - 1)
        then expanding t \<and> unat (expand_bucket t) = unat (expand_bucket s) + n * nat (hash_bulk_move s)
        else \<not> expanding t \<and> \<not> started_expanding t)"
  using assms
proof (induction n arbitrary: s)
  case 0
  then show ?case using assoc_relD(1) [OF 0(1)] by (auto simp: assoc_shape_def)
next
  case (Suc n)
  let ?b = "nat (hash_bulk_move s)"
  from bulk_move_rel [OF Suc.prems(1,2), of ?b] obtain u where u: "bulk_move ?b s = Some u" "assoc_rel u m"
    "hashpower u = hashpower s" "hash_bulk_move u = hash_bulk_move s"
    "if unat (expand_bucket s) + ?b < 2 ^ (hashpower s - 1)
     then expanding u \<and> unat (expand_bucket u) = unat (expand_bucket s) + ?b else \<not> expanding u" by blast
  show ?case
  proof (cases "expanding u")
    case True
    then have e: "unat (expand_bucket u) = unat (expand_bucket s) + ?b" using u(5) by (simp split: if_splits)
    have "expansion_turns (Suc n) s = expansion_turns n u" using Suc.prems(2) u(1) True by (simp add: maintenance_pass_def)
    moreover have "0 < hash_bulk_move u" using Suc.prems(3) u(4) by simp
    moreover have "unat (expand_bucket u) + n * nat (hash_bulk_move u)
        = unat (expand_bucket s) + Suc n * nat (hash_bulk_move s)" using e u(4) by simp
    ultimately show ?thesis using Suc.IH [OF u(2) True] by (simp only: u(3))
  next
    case False
    then have "\<not> unat (expand_bucket s) + ?b < 2 ^ (hashpower s - 1)" using u(5) by (auto split: if_splits)
    then have "\<not> unat (expand_bucket s) + Suc n * ?b < 2 ^ (hashpower s - 1)" by simp
    moreover have "expansion_turns (Suc n) s = Some (u\<lparr>started_expanding := False\<rparr>)"
      using Suc.prems(2) u(1) False by (cases n) (simp_all add: maintenance_pass_def)
    ultimately show ?thesis using u(2,3) False by auto
  qed
qed

text \<open>
  Property C24. An expansion always completes: the turns of the maintenance thread, each of which moves
  \<open>hash_bulk_move\<close> buckets, end it exactly when as many buckets have been moved as the old array had left; the thread
  can then be woken for the next one, the table has the doubled size, and in the middle as at the end every key is
  found as before.
\<close>

theorem expansion_completes:
  assumes "assoc_rel s m" and "expanding s" and "0 < hash_bulk_move s"
  shows "\<exists>t. expansion_turns n s = Some t \<and> hashpower t = hashpower s
     \<and> (expanding t \<longleftrightarrow> unat (expand_bucket s) + n * nat (hash_bulk_move s) < 2 ^ (hashpower s - 1))
     \<and> (\<not> expanding t \<longrightarrow> \<not> started_expanding t)
     \<and> (\<forall>k. assoc_find k (hash_key k) t = assoc_find k (hash_key k) s)"
proof -
  obtain t where t: "expansion_turns n s = Some t" "assoc_rel t m" "hashpower t = hashpower s"
    "if unat (expand_bucket s) + n * nat (hash_bulk_move s) < 2 ^ (hashpower s - 1)
     then expanding t \<and> unat (expand_bucket t) = unat (expand_bucket s) + n * nat (hash_bulk_move s)
     else \<not> expanding t \<and> \<not> started_expanding t"
    using expansion_turns_rel [OF assms, of n] by blast
  have "assoc_find k (hash_key k) t = assoc_find k (hash_key k) s" for k
    by (simp only: hash_table.lookup_rel [OF t(2)] hash_table.lookup_rel [OF assms(1)])
  with t show ?thesis by (auto split: if_splits)
qed

theorem expansion_completes_witness:
  "\<exists>t. expansion_turns 2 assoc_two = Some t \<and> \<not> expanding t
     \<and> assoc_find ''a'' (hash_key ''a'') t = assoc_find ''a'' (hash_key ''a'') assoc_two"
  using expansion_completes [OF table_reach_rel [OF assoc_two_reach], of 2] assoc_two_expanding
  by fastforce

lemma sint_below_zero:
  fixes w :: u32
  assumes "2 ^ 31 \<le> unat w"
  shows "sint w < 0"
proof -
  define x where "x = uint w"
  have "int (2 ^ 31) \<le> int (unat w)" using assms by (simp only: of_nat_le_iff)
  then have "2147483648 \<le> x" by (simp add: x_def)
  moreover have "x < 4294967296" using uint_bounded [of w] by (simp add: x_def)
  ultimately have "x div 2147483648 = 1"
    by (intro int_div_pos_eq [of x 2147483648 1 "x - 2147483648"]) simp_all
  then have "odd (x div 2 ^ 31)" by simp
  then have "bit x 31" by (rule iffD2 [OF bit_iff_odd])
  then have "signed_take_bit 31 x < 0" by (simp only: signed_take_bit_negative_iff)
  moreover have "sint w = signed_take_bit 31 x" by (simp add: sint_uint x_def)
  ultimately show ?thesis by simp
qed

text \<open>
  The limit is real: in a table of \<open>2 ^ 32\<close> buckets the migration of an item whose hash value has the top bit set
  stores before the beginning of the array.
\<close>

theorem huge_table_underrun:
  assumes "hashpower s = 32" "p \<noteq> NULL" "2 ^ 31 \<le> unat (hash_key (key_at s p))"
  shows "move_chain p s = None"
proof -
  have "bucket_int (hash_key (key_at s p)) 32 = sint (hash_key (key_at s p))"
    using unsigned_less [of "hash_key (key_at s p)"] by (simp add: bucket_int_def hbucket_mod)
  also have "\<dots> < 0"
    using assms(3) by (simp add: sint_below_zero)
  finally show ?thesis using assms(1,2) by (simp add: move_chain.simps)
qed

end
