(* ===== verification/Interfaces.thy ===== *)
theory Interfaces
  imports Prelude
begin

text \<open>
  The contracts that several components of the server share: a pool that recycles the objects
  returned to it in last-in first-out order (the free chunks of a slab class, the free lists of
  connections and of queue items, the object cache of \<open>cache.c\<close>), and a first-in first-out
  queue (the connection queues of the worker threads).
\<close>

section \<open>Pools\<close>

text \<open>\<open>n\<close> calls of an operation that takes an object out.\<close>

fun get_n :: "('s \<Rightarrow> ('x \<times> 's) option) \<Rightarrow> nat \<Rightarrow> 's \<Rightarrow> ('x list \<times> 's) option" where
  "get_n get 0 s = Some ([], s)"
| "get_n get (Suc n) s = do { (x, s) \<leftarrow> get s; (xs, s) \<leftarrow> get_n get n s; Some (x # xs, s) }"

text \<open>Calls that return the objects of a list, in order.\<close>

fun put_all :: "('x \<Rightarrow> 's \<Rightarrow> 's option) \<Rightarrow> 'x list \<Rightarrow> 's \<Rightarrow> 's option" where
  "put_all put [] s = Some s"
| "put_all put (x # xs) s = Option.bind (put x s) (put_all put xs)"

text \<open>
  \<open>holds s xs\<close>: the pool in \<open>s\<close> holds the objects \<open>xs\<close>, the next one to be handed out first;
  \<open>idle x s\<close>: \<open>x\<close> may be returned to the pool.
\<close>

locale lifo_pool =
  fixes holds :: "'s \<Rightarrow> 'x list \<Rightarrow> bool"
    and idle :: "'x \<Rightarrow> 's \<Rightarrow> bool"
    and put :: "'x \<Rightarrow> 's \<Rightarrow> 's option"
    and get :: "'s \<Rightarrow> ('x \<times> 's) option"
  assumes put_law: "holds s xs \<Longrightarrow> idle x s \<Longrightarrow> \<exists>t. put x s = Some t \<and> holds t (x # xs)"
    and get_law: "holds s (x # xs) \<Longrightarrow> \<exists>t. get s = Some (x, t) \<and> holds t xs \<and> idle x t"
    and distinct_law: "holds s xs \<Longrightarrow> distinct xs"
begin

lemma put_get:
  assumes "holds s xs" "idle x s"
  shows "\<exists>t u. put x s = Some t \<and> get t = Some (x, u) \<and> holds u xs"
  using put_law [OF assms] get_law by blast

lemma get_put:
  assumes "holds s (x # xs)"
  shows "\<exists>t u. get s = Some (x, t) \<and> put x t = Some u \<and> holds u (x # xs)"
  using get_law [OF assms] put_law by blast

lemma get_n_holds:
  "holds s xs \<Longrightarrow> n \<le> length xs \<Longrightarrow> \<exists>t. get_n get n s = Some (take n xs, t) \<and> holds t (drop n xs)"
proof (induction n arbitrary: s xs)
  case (Suc n)
  then obtain x ys where xs: "xs = x # ys" by (cases xs) auto
  then obtain t where t: "get s = Some (x, t)" "holds t ys"
    using get_law Suc.prems(1) by blast
  then obtain u where "get_n get n t = Some (take n ys, u)" "holds u (drop n ys)"
    using Suc.IH [of t ys] Suc.prems(2) xs by auto
  with t(1) xs show ?case by simp
qed simp

lemma get_n_distinct:
  assumes "holds s xs" "n \<le> length xs"
  shows "\<exists>ys t. get_n get n s = Some (ys, t) \<and> length ys = n \<and> distinct ys
     \<and> holds t (drop n xs) \<and> set ys \<inter> set (drop n xs) = {}"
proof -
  obtain t where "get_n get n s = Some (take n xs, t)" "holds t (drop n xs)"
    using get_n_holds [OF assms] by blast
  moreover have "distinct xs" using distinct_law [OF assms(1)] .
  ultimately show ?thesis
    using assms(2) set_take_disj_set_drop_if_distinct [of xs n n] by auto
qed

end

section \<open>Queues\<close>

text \<open>
  \<open>queued s xs\<close>: the queue in \<open>s\<close> holds \<open>xs\<close>, oldest first; \<open>fresh x s\<close>: \<open>x\<close> may be
  appended.
\<close>

locale fifo_queue =
  fixes queued :: "'s \<Rightarrow> 'x list \<Rightarrow> bool"
    and fresh :: "'x \<Rightarrow> 's \<Rightarrow> bool"
    and enq :: "'x \<Rightarrow> 's \<Rightarrow> 's"
    and deq :: "'s \<Rightarrow> 'x option \<times> 's"
  assumes enq_law: "queued s xs \<Longrightarrow> fresh x s \<Longrightarrow> queued (enq x s) (xs @ [x])"
    and deq_law: "queued s (x # xs) \<Longrightarrow> fst (deq s) = Some x \<and> queued (snd (deq s)) xs"
    and deq_empty_law: "queued s [] \<Longrightarrow> deq s = (None, s)"
begin

lemma enq_deq_empty:
  assumes "queued s []" "fresh x s"
  shows "fst (deq (enq x s)) = Some x \<and> queued (snd (deq (enq x s))) []"
  using enq_law [OF assms] deq_law by simp

lemma enq_deq_order:
  assumes "queued s (y # ys)" "fresh x s"
  shows "fst (deq (enq x s)) = Some y \<and> queued (snd (deq (enq x s))) (ys @ [x])"
  using enq_law [OF assms] deq_law by simp

end

end
