(* ===== verification/Slabs.thy ===== *)
theory Slabs
  imports Assoc Interfaces "HOL-Library.Log_Nat"
begin

text \<open>
  \<open>slabs.c\<close>, the allocator: size classes, their pages and their free lists. A class keeps
  its free chunks in a doubly linked list threaded through \<open>next\<close> and \<open>prev\<close> of the chunks;
  pages come from \<open>malloc\<close> or from one preallocated block. The \<open>slab_list\<close> array of a class
  is a list of the length that was allocated for it (\<open>list_size\<close>). Sizes, addresses and counts
  of chunks and pages are natural numbers: they measure memory that exists, and none of them
  is decreased below zero while the free list invariant holds. \<open>requested\<close> is a wrapping
  \<open>size_t\<close>, since \<open>do_slabs_free\<close> subtracts the caller's size from it unchecked.
\<close>

section \<open>State\<close>

record slabclass_t =
  cls_size :: nat
  cls_perslab :: nat
  cls_slots :: addr
  cls_sl_curr :: nat
  cls_slabs :: nat
  cls_slab_list :: "addr list"
  cls_killing :: nat
  cls_requested :: u64

definition empty_class :: slabclass_t where
  "empty_class = \<lparr>cls_size = 0, cls_perslab = 0, cls_slots = NULL, cls_sl_curr = 0,
     cls_slabs = 0, cls_slab_list = [], cls_killing = 0, cls_requested = 0\<rparr>"

record slab_rebalance_t =
  rb_slab_start :: addr
  rb_slab_end :: addr
  rb_slab_pos :: addr
  rb_s_clsid :: int
  rb_d_clsid :: int
  rb_busy_items :: nat
  rb_done :: nat

record slabs = assoc +
  slabclass :: "nat \<Rightarrow> slabclass_t"
  mem_limit :: nat
  mem_malloced :: nat
  power_largest :: nat
  mem_base :: addr
  mem_current :: addr
  mem_avail :: nat
  slab_rebal :: slab_rebalance_t
  slab_rebalance_signal :: int

definition upd_class :: "nat \<Rightarrow> (slabclass_t \<Rightarrow> slabclass_t) \<Rightarrow> 'a slabs_scheme \<Rightarrow> 'a slabs_scheme" where
  "upd_class cid f s = s\<lparr>slabclass := (slabclass s)(cid := f (slabclass s cid))\<rparr>"

lemma upd_class_frame [simp]:
  "mem (upd_class cid f s) = mem s" "mallocs (upd_class cid f s) = mallocs s"
  "current_time (upd_class cid f s) = current_time s" "settings (upd_class cid f s) = settings s"
  "stats (upd_class cid f s) = stats s" "mem_limit (upd_class cid f s) = mem_limit s"
  "mem_malloced (upd_class cid f s) = mem_malloced s"
  "power_largest (upd_class cid f s) = power_largest s"
  "slabclass (upd_class cid f s) = (slabclass s)(cid := f (slabclass s cid))"
  "mem_base (upd_class cid f s) = mem_base s" "mem_current (upd_class cid f s) = mem_current s"
  "mem_avail (upd_class cid f s) = mem_avail s" "slab_rebal (upd_class cid f s) = slab_rebal s"
  "slab_rebalance_signal (upd_class cid f s) = slab_rebalance_signal s"
  by (simp_all add: upd_class_def)

lemma slabs_upd_item_frame [simp]:
  "slabclass (upd_item p g s) = slabclass s" "mem_limit (upd_item p g s) = mem_limit s"
  "mem_malloced (upd_item p g s) = mem_malloced s"
  "power_largest (upd_item p g s) = power_largest s" "mem_base (upd_item p g s) = mem_base s"
  "mem_current (upd_item p g s) = mem_current s" "mem_avail (upd_item p g s) = mem_avail s"
  "slab_rebal (upd_item p g s) = slab_rebal s"
  "slab_rebalance_signal (upd_item p g s) = slab_rebalance_signal s"
  by (simp_all add: upd_item_def)

section \<open>Choosing a class\<close>

text \<open>
  The loop of \<open>slabs_clsid\<close>: \<open>res++ == power_largest\<close> compares before it increments.
\<close>

function clsid_loop :: "nat \<Rightarrow> nat \<Rightarrow> 'a slabs_scheme \<Rightarrow> nat" where
  "clsid_loop sz res s =
     (if cls_size (slabclass s res) < sz then
        if res = power_largest s then 0
        else if power_largest s < res then 0
        else clsid_loop sz (res + 1) s
      else res)"
  by pat_completeness auto
termination
  by (relation "measure (\<lambda>(sz, res, s). Suc (power_largest s) - res)") auto

declare clsid_loop.simps [simp del]

definition slabs_clsid :: "nat \<Rightarrow> 'a slabs_scheme \<Rightarrow> nat" where
  "slabs_clsid sz s = (if sz = 0 then 0 else clsid_loop sz POWER_SMALLEST s)"

section \<open>Computing the classes\<close>

text \<open>
  A product or quotient of doubles, as the exact value rounded to 53 significant bits, ties to
  even. Values below one are left as they are: the code compares them with sizes of at least
  one and truncates nothing below one.
\<close>

definition round_half_even :: "rat \<Rightarrow> int" where
  "round_half_even z = (let f = \<lfloor>z\<rfloor>; d = z - of_int f in
     if d < 1 / 2 \<or> d = 1 / 2 \<and> even f then f else f + 1)"

definition round_double :: "rat \<Rightarrow> rat" where
  "round_double x = (if x < 1 then x else
     (let e = 53 - nat (bitlen \<lfloor>x\<rfloor>) in of_int (round_half_even (x * 2 ^ e)) / 2 ^ e))"

text \<open>\<open>size += CHUNK_ALIGN_BYTES - (size % CHUNK_ALIGN_BYTES)\<close> where the remainder is not zero.\<close>

definition chunk_align :: "nat \<Rightarrow> nat" where
  "chunk_align sz = (if sz mod CHUNK_ALIGN_BYTES \<noteq> 0
     then sz + (CHUNK_ALIGN_BYTES - sz mod CHUNK_ALIGN_BYTES) else sz)"

text \<open>
  \<open>size <= settings.item_size_max / factor\<close>, in doubles: the quotient by an infinity is zero, and nothing is below
  a NaN.
\<close>

definition fits_quotient :: "nat \<Rightarrow> nat \<Rightarrow> c_double \<Rightarrow> bool" where
  "fits_quotient sz n fac = (case fac of Dbl q \<Rightarrow> of_nat sz \<le> round_double (of_nat n / q)
     | Infinity \<Rightarrow> sz = 0 | Neg_Infinity \<Rightarrow> sz = 0 | NaN _ \<Rightarrow> False)"

text \<open>
  \<open>size *= factor\<close>, in doubles, truncated to an unsigned integer. With a factor that is not a number of the reals the
  loop has ended before, or has divided by zero.
\<close>

definition scale_size :: "nat \<Rightarrow> c_double \<Rightarrow> nat" where
  "scale_size sz fac = (case fac of Dbl q \<Rightarrow> nat \<lfloor>round_double (of_nat sz * q)\<rfloor> | _ \<Rightarrow> 0)"

text \<open>The loop of \<open>slabs_init\<close> after its \<open>++i\<close>: it returns the final \<open>i\<close>.\<close>

function init_classes :: "nat \<Rightarrow> nat \<Rightarrow> c_double \<Rightarrow> 'a slabs_scheme \<Rightarrow> nat \<times> 'a slabs_scheme" where
  "init_classes i sz fac s =
     (if i < POWER_LARGEST \<and> fits_quotient sz (item_size_max (settings s)) fac then
        (let sz = chunk_align sz;
             s = upd_class i (\<lambda>p. p\<lparr>cls_size := sz,
                   cls_perslab := item_size_max (settings s) div sz\<rparr>) s;
             sz = scale_size sz fac
         in init_classes (i + 1) sz fac s)
      else (i, s))"
  by pat_completeness auto
termination
  by (relation "measure (\<lambda>(i, sz, fac, s). POWER_LARGEST - i)") auto

declare init_classes.simps [simp del]

section \<open>Pages\<close>

definition memory_allocate :: "nat \<Rightarrow> 'a slabs_scheme \<Rightarrow> addr \<times> 'a slabs_scheme" where
  "memory_allocate sz s =
     (if mem_base s = NULL then malloc s
      else if mem_avail s < sz then (NULL, s)
      else (let ret = mem_current s; sz = chunk_align sz;
                s = s\<lparr>mem_current := mem_current s + sz\<rparr>
            in (ret, s\<lparr>mem_avail := (if sz < mem_avail s then mem_avail s - sz else 0)\<rparr>)))"

definition grow_slab_list :: "nat \<Rightarrow> 'a slabs_scheme \<Rightarrow> bool \<times> 'a slabs_scheme" where
  "grow_slab_list cid s = (let p = slabclass s cid in
     if cls_slabs p = length (cls_slab_list p) then
       (let list_size = length (cls_slab_list p);
            new_size = (if list_size \<noteq> 0 then list_size * 2 else 16);
            (new_list, s) = malloc s in
        if new_list = NULL then (False, s)
        else (True, upd_class cid (\<lambda>p. p\<lparr>cls_slab_list :=
               cls_slab_list p @ replicate (new_size - list_size) NULL\<rparr>) s))
     else (True, s))"

definition do_slabs_free :: "addr \<Rightarrow> nat \<Rightarrow> nat \<Rightarrow> 'a slabs_scheme \<Rightarrow> 'a slabs_scheme option" where
  "do_slabs_free ptr sz cid s =
     (if it_slabs_clsid (mem s ptr) \<noteq> 0 then None
      else if \<not> (POWER_SMALLEST \<le> cid \<and> cid \<le> power_largest s) then None
      else (let next = cls_slots (slabclass s cid);
                s = upd_item ptr (set_flag ITEM_SLABBED) s;
                s = upd_item ptr (\<lambda>i. i\<lparr>it_prev := NULL, it_next := next\<rparr>) s;
                s = (if next \<noteq> NULL then upd_item next (\<lambda>i. i\<lparr>it_prev := ptr\<rparr>) s else s)
            in Some (upd_class cid (\<lambda>p. p\<lparr>cls_slots := ptr, cls_sl_curr := cls_sl_curr p + 1,
                 cls_requested := cls_requested p - of_nat sz\<rparr>) s)))"

fun split_slab_page :: "nat \<Rightarrow> addr \<Rightarrow> nat \<Rightarrow> 'a slabs_scheme \<Rightarrow> 'a slabs_scheme option" where
  "split_slab_page 0 ptr cid s = Some s"
| "split_slab_page (Suc n) ptr cid s =
     Option.bind (do_slabs_free ptr 0 cid s)
       (\<lambda>s. split_slab_page n (ptr + cls_size (slabclass s cid)) cid s)"

definition split_slab_page_into_freelist :: "addr \<Rightarrow> nat \<Rightarrow> 'a slabs_scheme \<Rightarrow> 'a slabs_scheme option" where
  "split_slab_page_into_freelist ptr cid s = split_slab_page (cls_perslab (slabclass s cid)) ptr cid s"

text \<open>\<open>memset(ptr, 0, len)\<close>: every item in the page reads as zero.\<close>

definition zero_range :: "addr \<Rightarrow> nat \<Rightarrow> 'a mc_scheme \<Rightarrow> 'a mc_scheme" where
  "zero_range ptr len s =
     s\<lparr>mem := (\<lambda>p. if ptr \<le> p \<and> p < ptr + len then zero_item else mem s p)\<rparr>"

definition page_len :: "nat \<Rightarrow> 'a slabs_scheme \<Rightarrow> nat" where
  "page_len cid s = (if slab_reassign (settings s) then item_size_max (settings s)
     else cls_size (slabclass s cid) * cls_perslab (slabclass s cid))"

definition do_slabs_newslab :: "nat \<Rightarrow> 'a slabs_scheme \<Rightarrow> (bool \<times> 'a slabs_scheme) option" where
  "do_slabs_newslab cid s = (let len = page_len cid s in
     if mem_limit s \<noteq> 0 \<and> mem_limit s < mem_malloced s + len \<and> 0 < cls_slabs (slabclass s cid)
     then Some (False, s)
     else case grow_slab_list cid s of (grown, s) \<Rightarrow>
       if \<not> grown then Some (False, s)
       else case memory_allocate len s of (ptr, s) \<Rightarrow>
         if ptr = NULL then Some (False, s)
         else do {
           s \<leftarrow> split_slab_page_into_freelist ptr cid (zero_range ptr len s);
           let s = upd_class cid (\<lambda>p. p\<lparr>cls_slab_list := (cls_slab_list p)[cls_slabs p := ptr],
                 cls_slabs := cls_slabs p + 1\<rparr>) s;
           Some (True, s\<lparr>mem_malloced := mem_malloced s + len\<rparr>) })"

section \<open>Chunks\<close>

text \<open>Taking the first chunk off the free list.\<close>

definition pop_slot :: "nat \<Rightarrow> 'a slabs_scheme \<Rightarrow> addr \<times> 'a slabs_scheme" where
  "pop_slot cid s = (let it = cls_slots (slabclass s cid); next = it_next (mem s it);
       s = upd_class cid (\<lambda>p. p\<lparr>cls_slots := next\<rparr>) s;
       s = (if next \<noteq> NULL then upd_item next (\<lambda>i. i\<lparr>it_prev := NULL\<rparr>) s else s)
     in (it, upd_class cid (\<lambda>p. p\<lparr>cls_sl_curr := cls_sl_curr p - 1\<rparr>) s))"

definition do_slabs_alloc :: "nat \<Rightarrow> nat \<Rightarrow> 'a slabs_scheme \<Rightarrow> (addr \<times> 'a slabs_scheme) option" where
  "do_slabs_alloc sz cid s =
     (if cid < POWER_SMALLEST \<or> power_largest s < cid then Some (NULL, s)
      else if \<not> (cls_sl_curr (slabclass s cid) = 0
          \<or> it_slabs_clsid (mem s (cls_slots (slabclass s cid))) = 0) then None
      else do {
        (room, s) \<leftarrow> (if cls_sl_curr (slabclass s cid) \<noteq> 0 then Some (True, s)
            else do_slabs_newslab cid s);
        let (ret, s) = (if room \<and> cls_sl_curr (slabclass s cid) \<noteq> 0 then pop_slot cid s
            else (NULL, s));
        Some (ret, if ret \<noteq> NULL
          then upd_class cid (\<lambda>p. p\<lparr>cls_requested := cls_requested p + of_nat sz\<rparr>) s
          else s) })"

definition slabs_adjust_mem_requested :: "nat \<Rightarrow> nat \<Rightarrow> nat \<Rightarrow> 'a slabs_scheme \<Rightarrow> 'a slabs_scheme option" where
  "slabs_adjust_mem_requested cid old ntotal s =
     (if cid < POWER_SMALLEST \<or> power_largest s < cid then None
      else Some (upd_class cid (\<lambda>p. p\<lparr>cls_requested :=
             cls_requested p - of_nat old + of_nat ntotal\<rparr>) s))"

section \<open>Start-up\<close>

fun slabs_preallocate_loop :: "nat \<Rightarrow> nat \<Rightarrow> nat \<Rightarrow> nat \<Rightarrow> 'a slabs_scheme \<Rightarrow> 'a slabs_scheme option" where
  "slabs_preallocate_loop 0 i prealloc maxslabs s = Some s"
| "slabs_preallocate_loop (Suc n) i prealloc maxslabs s =
     (if maxslabs < prealloc + 1 then Some s
      else do {
        (ok, s) \<leftarrow> do_slabs_newslab i s;
        if ok then slabs_preallocate_loop n (i + 1) (prealloc + 1) maxslabs s else None })"

definition slabs_preallocate :: "nat \<Rightarrow> 'a slabs_scheme \<Rightarrow> 'a slabs_scheme option" where
  "slabs_preallocate maxslabs s =
     slabs_preallocate_loop (POWER_LARGEST - POWER_SMALLEST + 1) POWER_SMALLEST 0 maxslabs s"

text \<open>
  The size of the first class is a 32-bit unsigned number, so a negative \<open>chunk_size\<close> wraps; a size
  of zero makes the loop divide by zero, if it is entered. The argument \<open>initial\<close> is the environment variable \<open>T_MEMD_INITIAL_MALLOC\<close>, already read.
\<close>

definition first_size :: "settings_t \<Rightarrow> nat" where
  "first_size se = nat ((int sizeof_item + chunk_size se) mod 2 ^ 32)"

definition slabs_init :: "nat \<Rightarrow> c_double \<Rightarrow> bool \<Rightarrow> nat option \<Rightarrow> 'a slabs_scheme \<Rightarrow> 'a slabs_scheme option" where
  "slabs_init limit fac prealloc initial s = (let sz = first_size (settings s) in if sz = 0 \<and> fits_quotient sz (item_size_max (settings s)) fac then None else let
     s = s\<lparr>mem_limit := limit\<rparr>;
     s = (if prealloc then
            (let (p, s) = malloc s; s = s\<lparr>mem_base := p\<rparr> in
             if p \<noteq> NULL then s\<lparr>mem_current := p, mem_avail := mem_limit s\<rparr> else s)
          else s);
     s = s\<lparr>slabclass := (\<lambda>_. empty_class)\<rparr>;
     (i, s) = init_classes POWER_SMALLEST sz fac s;
     s = s\<lparr>power_largest := i\<rparr>;
     s = upd_class i (\<lambda>p. p\<lparr>cls_size := item_size_max (settings s), cls_perslab := 1\<rparr>) s;
     s = (case initial of None \<Rightarrow> s | Some m \<Rightarrow> s\<lparr>mem_malloced := m\<rparr>)
   in if prealloc then slabs_preallocate (power_largest s) s else Some s)"

section \<open>Free lists\<close>

abbreviation nx :: "'a mc_scheme \<Rightarrow> addr \<Rightarrow> addr" where
  "nx s \<equiv> (\<lambda>p. it_next (mem s p))"

abbreviation pv :: "'a mc_scheme \<Rightarrow> addr \<Rightarrow> addr" where
  "pv s \<equiv> (\<lambda>p. it_prev (mem s p))"

text \<open>What every chunk on a free list looks like.\<close>

definition free_chunk :: "item \<Rightarrow> bool" where
  "free_chunk i \<longleftrightarrow> it_slabs_clsid i = 0 \<and> has_flag ITEM_SLABBED i"

definition freelist :: "'a slabs_scheme \<Rightarrow> nat \<Rightarrow> addr list \<Rightarrow> bool" where
  "freelist s c xs \<longleftrightarrow> dll (nx s) (pv s) NULL (cls_slots (slabclass s c)) xs
     \<and> cls_sl_curr (slabclass s c) = length xs \<and> (\<forall>x \<in> set xs. free_chunk (mem s x))"

text \<open>\<open>slabs_rel s fl\<close>: the free chunks of every class are the lists \<open>fl\<close>, without overlap.\<close>

definition slabs_rel :: "'a slabs_scheme \<Rightarrow> (nat \<Rightarrow> addr list) \<Rightarrow> bool" where
  "slabs_rel s fl \<longleftrightarrow> (\<forall>c. freelist s c (fl c)) \<and> (\<forall>c d. c \<noteq> d \<longrightarrow> set (fl c) \<inter> set (fl d) = {})"

definition valid_class :: "nat \<Rightarrow> 'a slabs_scheme \<Rightarrow> bool" where
  "valid_class c s \<longleftrightarrow> POWER_SMALLEST \<le> c \<and> c \<le> power_largest s"

lemma slabs_relD:
  assumes "slabs_rel s fl"
  shows "freelist s c (fl c)" "x \<in> set (fl c) \<Longrightarrow> x \<in> set (fl d) \<Longrightarrow> c = d"
  using assms by (auto simp: slabs_rel_def)

lemma dll_NULL_notin: "dll f g q p xs \<Longrightarrow> NULL \<notin> set xs"
  by (blast dest: dll_chain chain_notNULL)

lemma dll_hd: "dll f g q p xs \<Longrightarrow> p \<noteq> NULL \<longleftrightarrow> xs \<noteq> []"
  by (cases xs) auto

lemma dll_hd_eq: "dll f g q p xs \<Longrightarrow> xs \<noteq> [] \<Longrightarrow> hd xs = p"
  by (cases xs) auto

text \<open>What a store keeps when only list links and flags of chunks in \<open>D\<close> change.\<close>

definition mem_frame :: "addr set \<Rightarrow> 'a mc_scheme \<Rightarrow> 'a mc_scheme \<Rightarrow> bool" where
  "mem_frame D s t \<longleftrightarrow> (\<forall>p. p \<notin> D \<longrightarrow> mem t p = mem s p)"

lemma mem_frame_refl [simp]: "mem_frame D s s"
  by (simp add: mem_frame_def)

lemma mem_frame_trans: "mem_frame D s t \<Longrightarrow> mem_frame E t u \<Longrightarrow> D \<subseteq> F \<Longrightarrow> E \<subseteq> F \<Longrightarrow> mem_frame F s u"
  unfolding mem_frame_def by (metis subsetD)

lemma do_slabs_free_rel:
  assumes R: "slabs_rel s fl" and c: "valid_class c s" and p: "ptr \<noteq> NULL" "\<And>d. ptr \<notin> set (fl d)"
    and z: "it_slabs_clsid (mem s ptr) = 0"
  shows "\<exists>t. do_slabs_free ptr n c s = Some t \<and> slabs_rel t (fl(c := ptr # fl c))
     \<and> mem_frame (insert ptr (set (fl c))) s t"
proof -
  let ?hd = "cls_slots (slabclass s c)"
  obtain t where t: "do_slabs_free ptr n c s = Some t"
    using c z by (simp add: do_slabs_free_def valid_class_def Let_def)
  have m: "mem t = (let i = (set_flag ITEM_SLABBED (mem s ptr))\<lparr>it_prev := NULL, it_next := ?hd\<rparr>;
       m = (mem s)(ptr := i) in if ?hd \<noteq> NULL then m(?hd := (m ?hd)\<lparr>it_prev := ptr\<rparr>) else m)"
    using t c z by (auto simp: do_slabs_free_def valid_class_def Let_def)
  have cl: "slabclass t = (slabclass s)(c := (slabclass s c)\<lparr>cls_slots := ptr,
       cls_sl_curr := cls_sl_curr (slabclass s c) + 1,
       cls_requested := cls_requested (slabclass s c) - of_nat n\<rparr>)"
    using t c z by (auto simp: do_slabs_free_def valid_class_def Let_def)
  have F: "freelist s d (fl d)" for d using R by (simp add: slabs_rel_def)
  then have dll: "dll (nx s) (pv s) NULL (cls_slots (slabclass s d)) (fl d)" for d
    by (simp add: freelist_def)
  have hd: "?hd \<noteq> NULL \<longleftrightarrow> fl c \<noteq> []" and hdeq: "fl c \<noteq> [] \<Longrightarrow> ?hd = hd (fl c)"
    using dll_hd [OF dll] dll_hd_eq [OF dll] by auto
  have ne: "fl c \<noteq> [] \<Longrightarrow> ?hd \<noteq> ptr" using hdeq p(2) [of c] by (metis hd_in_set)
  have other: "mem t x = mem s x" if "x \<noteq> ptr" "x \<notin> set (fl c)" for x
    using that hd hdeq by (auto simp: m Let_def)
  have other_d: "mem t x = mem s x" if "x \<in> set (fl d)" "d \<noteq> c" for x d
    using that p(2) slabs_relD(2) [OF R] by (intro other) auto
  have tail: "mem t x = mem s x" if "x \<in> set (tl (fl c))" for x
  proof (cases "fl c")
    case (Cons y ys)
    with dll_distinct [OF dll [of c]] that p(2) [of c] hdeq show ?thesis
      by (auto simp: m Let_def)
  qed (use that in simp)
  have "freelist t c (ptr # fl c)"
  proof (cases "fl c")
    case Nil
    with F [of c] p(1) hd z show ?thesis
      by (simp add: freelist_def cl m free_chunk_def has_flag_def set_flag_def ITEM_SLABBED_def
          bit.conj_disj_distrib2)
  next
    case (Cons y ys)
    then have [simp]: "?hd = y" "y \<noteq> NULL" "y \<noteq> ptr" "ptr \<noteq> y" using hd hdeq ne by auto
    have mp: "mem t ptr = (set_flag ITEM_SLABBED (mem s ptr))\<lparr>it_prev := NULL, it_next := y\<rparr>"
      by (simp add: m)
    have my: "mem t y = (mem s y)\<lparr>it_prev := ptr\<rparr>" by (simp add: m)
    have "dll (nx t) (pv t) y (it_next (mem s y)) ys"
      using dll [of c] Cons tail by (auto simp: dll_cong [of ys "nx t" "nx s" "pv t" "pv s"])
    with Cons p(1) F [of c] z tail show ?thesis
      by (auto simp: freelist_def cl mp my free_chunk_def has_flag_def set_flag_def
          ITEM_SLABBED_def bit.conj_disj_distrib2)
  qed
  moreover have "freelist t d (fl d)" if "d \<noteq> c" for d
    using F [of d] that other_d [OF _ that]
    by (auto simp: freelist_def cl dll_cong [of "fl d" "nx t" "nx s" "pv t" "pv s"])
  ultimately have "slabs_rel t (fl(c := ptr # fl c))"
    using R p(2) by (auto simp: slabs_rel_def)
  moreover have "mem_frame (insert ptr (set (fl c))) s t"
    using other by (auto simp: mem_frame_def)
  ultimately show ?thesis using t by blast
qed

section \<open>What the allocator leaves alone\<close>

text \<open>
  Every operation changes only the store, the allocator's own fields and the coming results of
  \<open>malloc\<close>; all other fields, those of later components included, are kept. The sizes and
  page capacities of the classes change in \<open>slabs_init\<close> only.
\<close>

definition slabs_frame :: "'a slabs_scheme \<Rightarrow> 'a slabs_scheme \<Rightarrow> bool" where
  "slabs_frame s t \<longleftrightarrow> t = s\<lparr>mem := mem t, mallocs := mallocs t, slabclass := slabclass t,
     mem_malloced := mem_malloced t, mem_current := mem_current t, mem_avail := mem_avail t\<rparr>"

definition same_geometry :: "'a slabs_scheme \<Rightarrow> 'a slabs_scheme \<Rightarrow> bool" where
  "same_geometry s t \<longleftrightarrow> (\<forall>c. cls_size (slabclass t c) = cls_size (slabclass s c)
     \<and> cls_perslab (slabclass t c) = cls_perslab (slabclass s c))"

lemma slabs_frame_refl [simp]: "slabs_frame s s"
  by (simp add: slabs_frame_def)

lemma slabs_frame_trans: "slabs_frame s t \<Longrightarrow> slabs_frame t u \<Longrightarrow> slabs_frame s u"
  unfolding slabs_frame_def by (cases s; cases t; cases u) simp

lemma slabs_frameD:
  assumes "slabs_frame s t"
  shows "current_time t = current_time s" "settings t = settings s" "stats t = stats s"
    "primary_hashtable t = primary_hashtable s" "old_hashtable t = old_hashtable s"
    "hashpower t = hashpower s" "hash_items t = hash_items s" "expanding t = expanding s"
    "expand_bucket t = expand_bucket s" "mem_limit t = mem_limit s"
    "power_largest t = power_largest s" "mem_base t = mem_base s"
    "slab_rebal t = slab_rebal s" "slab_rebalance_signal t = slab_rebalance_signal s"
  using assms by (cases s; cases t; simp add: slabs_frame_def)+

lemma same_geometry_refl [simp]: "same_geometry s s"
  by (simp add: same_geometry_def)

lemma same_geometry_trans: "same_geometry s t \<Longrightarrow> same_geometry t u \<Longrightarrow> same_geometry s u"
  by (simp add: same_geometry_def)

lemma valid_class_frame: "slabs_frame s t \<Longrightarrow> valid_class c t = valid_class c s"
  by (simp add: valid_class_def slabs_frameD)

lemma slabs_frame_upd [simp]:
  "slabs_frame s (upd_item p f s)" "slabs_frame s (upd_class c g s)"
  "slabs_frame s (snd (malloc s))" "slabs_frame s (zero_range p n s)"
  by (cases s; simp add: slabs_frame_def upd_item_def upd_class_def malloc_def zero_range_def
      split: list.splits)+

lemma slabs_frame_upds:
  "slabs_frame s t \<Longrightarrow> slabs_frame s (upd_item p f t)"
  "slabs_frame s t \<Longrightarrow> slabs_frame s (upd_class c g t)"
  "slabs_frame s t \<Longrightarrow> slabs_frame s (zero_range p n t)"
  by (blast intro: slabs_frame_trans slabs_frame_upd)+

lemma do_slabs_free_frame:
  assumes "do_slabs_free ptr n c s = Some t"
  shows "slabs_frame s t" "same_geometry s t" "mallocs t = mallocs s"
    "mem_malloced t = mem_malloced s" "cls_slabs (slabclass t d) = cls_slabs (slabclass s d)"
    "cls_slab_list (slabclass t d) = cls_slab_list (slabclass s d)"
  using assms
  by (auto simp: do_slabs_free_def Let_def slabs_frame_upds same_geometry_def split: if_splits)

section \<open>Pages on the free list\<close>

definition chunks :: "addr \<Rightarrow> nat \<Rightarrow> nat \<Rightarrow> addr list" where
  "chunks p sz n = map (\<lambda>i. p + i * sz) [0..<n]"

lemma chunks_0 [simp]: "chunks p sz 0 = []"
  by (simp add: chunks_def)

lemma chunks_Suc: "chunks p sz (Suc n) = p # chunks (p + sz) sz n"
proof -
  have "[0..<Suc n] = 0 # map Suc [0..<n]" by (simp add: upt_conv_Cons map_Suc_upt del: upt_Suc)
  then show ?thesis by (simp add: chunks_def comp_def add.assoc del: upt_Suc)
qed

lemma chunks_bounds: "x \<in> set (chunks p sz n) \<Longrightarrow> 0 < sz \<Longrightarrow> p \<le> x \<and> x < p + sz * n"
proof -
  assume "x \<in> set (chunks p sz n)" "0 < sz"
  then obtain i where i: "i < n" "x = p + i * sz" by (auto simp: chunks_def)
  with \<open>0 < sz\<close> have "i * sz < n * sz" by simp
  with i show ?thesis by (simp add: mult.commute)
qed

lemma split_slab_page_frame:
  "split_slab_page n ptr c s = Some t \<Longrightarrow> slabs_frame s t \<and> same_geometry s t \<and> mallocs t = mallocs s
     \<and> mem_malloced t = mem_malloced s
     \<and> (\<forall>d. cls_slabs (slabclass t d) = cls_slabs (slabclass s d)
          \<and> cls_slab_list (slabclass t d) = cls_slab_list (slabclass s d))"
proof (induction n arbitrary: ptr s)
  case (Suc n)
  then obtain u where u: "do_slabs_free ptr 0 c s = Some u"
    "split_slab_page n (ptr + cls_size (slabclass u c)) c u = Some t"
    by (auto split: bind_splits)
  from Suc.IH [OF u(2)] do_slabs_free_frame [OF u(1)] show ?case
    by (auto intro: slabs_frame_trans same_geometry_trans)
qed simp

lemma split_slab_page_rel:
  assumes "slabs_rel s fl" "valid_class c s" "ptr \<noteq> NULL" "0 < cls_size (slabclass s c)"
    "\<And>q d. q \<in> set (chunks ptr (cls_size (slabclass s c)) n) \<Longrightarrow> q \<notin> set (fl d)"
    "\<And>q. q \<in> set (chunks ptr (cls_size (slabclass s c)) n) \<Longrightarrow> it_slabs_clsid (mem s q) = 0"
  shows "\<exists>t. split_slab_page n ptr c s = Some t
     \<and> slabs_rel t (fl(c := rev (chunks ptr (cls_size (slabclass s c)) n) @ fl c))
     \<and> mem_frame (set (chunks ptr (cls_size (slabclass s c)) n) \<union> set (fl c)) s t"
  using assms
proof (induction n arbitrary: ptr s fl)
  case 0
  then show ?case by simp
next
  case (Suc n)
  let ?sz = "cls_size (slabclass s c)"
  obtain u where u: "do_slabs_free ptr 0 c s = Some u" "slabs_rel u (fl(c := ptr # fl c))"
    "mem_frame (insert ptr (set (fl c))) s u"
    using do_slabs_free_rel [OF Suc.prems(1,2,3) Suc.prems(5) Suc.prems(6)]
    by (auto simp: chunks_Suc)
  note fr = do_slabs_free_frame [OF u(1)]
  have sz: "cls_size (slabclass u c) = ?sz" using fr(2) by (simp add: same_geometry_def)
  have new: "q \<noteq> ptr" "\<And>d. q \<notin> set (fl d)" if "q \<in> set (chunks (ptr + ?sz) ?sz n)" for q
    using chunks_bounds [OF that Suc.prems(4)] Suc.prems(4,5) that by (auto simp: chunks_Suc)
  have "\<exists>t. split_slab_page n (ptr + ?sz) c u = Some t
     \<and> slabs_rel t ((fl(c := ptr # fl c))(c := rev (chunks (ptr + ?sz) ?sz n) @ (fl(c := ptr # fl c)) c))
     \<and> mem_frame (set (chunks (ptr + ?sz) ?sz n) \<union> set ((fl(c := ptr # fl c)) c)) u t"
  proof (rule Suc.IH [of u "fl(c := ptr # fl c)" "ptr + ?sz", unfolded sz])
    show "valid_class c u" using Suc.prems(2) fr(1) by (simp add: valid_class_frame)
    show "q \<notin> set ((fl(c := ptr # fl c)) d)" if "q \<in> set (chunks (ptr + ?sz) ?sz n)" for q d
      using new [OF that] by auto
    show "it_slabs_clsid (mem u q) = 0" if "q \<in> set (chunks (ptr + ?sz) ?sz n)" for q
      using u(3) new [OF that] Suc.prems(6) [of q] that by (simp add: mem_frame_def chunks_Suc)
    show "slabs_rel u (fl(c := ptr # fl c))" by (rule u(2))
  qed (use Suc.prems in auto)
  then obtain t where t: "split_slab_page n (ptr + ?sz) c u = Some t"
    "slabs_rel t (fl(c := rev (chunks ptr ?sz (Suc n)) @ fl c))"
    "mem_frame (set (chunks (ptr + ?sz) ?sz n) \<union> set (ptr # fl c)) u t"
    by (auto simp: chunks_Suc)
  have "mem_frame (set (chunks ptr ?sz (Suc n)) \<union> set (fl c)) s t"
    by (rule mem_frame_trans [OF u(3) t(3)]) (auto simp: chunks_Suc)
  moreover have "split_slab_page (Suc n) ptr c s = Some t"
    using t(1) u(1) sz by simp
  ultimately show ?case using t(2) by blast
qed

text \<open>The classes can serve their pages: chunks are not empty and fit in the page.\<close>

definition geometry_ok :: "'a slabs_scheme \<Rightarrow> bool" where
  "geometry_ok s \<longleftrightarrow> (\<forall>c. valid_class c s \<longrightarrow> 0 < cls_size (slabclass s c)
     \<and> cls_size (slabclass s c) * cls_perslab (slabclass s c) \<le> item_size_max (settings s))"

lemma geometry_ok_frame:
  "slabs_frame s t \<Longrightarrow> same_geometry s t \<Longrightarrow> geometry_ok s \<Longrightarrow> geometry_ok t"
  by (simp add: geometry_ok_def valid_class_frame slabs_frameD same_geometry_def)

lemma slabs_rel_cong:
  assumes R: "slabs_rel s fl"
    and "\<And>c. cls_slots (slabclass t c) = cls_slots (slabclass s c)"
    "\<And>c. cls_sl_curr (slabclass t c) = cls_sl_curr (slabclass s c)"
    and m: "\<And>c x. x \<in> set (fl c) \<Longrightarrow> mem t x = mem s x"
  shows "slabs_rel t fl"
proof -
  have "freelist t c (fl c)" for c
    using slabs_relD(1) [OF R, of c] assms(2,3) m [of _ c]
    by (auto simp: freelist_def dll_cong [of "fl c" "nx t" "nx s" "pv t" "pv s"])
  with R show ?thesis by (simp add: slabs_rel_def)
qed

lemma malloc_frame:
  "malloc s = (p, t) \<Longrightarrow> slabs_frame s t \<and> slabclass t = slabclass s \<and> mem t = mem s
     \<and> mem_malloced t = mem_malloced s \<and> mem_current t = mem_current s \<and> mem_avail t = mem_avail s"
  by (cases s) (auto simp: malloc_def slabs_frame_def split: list.splits)

lemma grow_slab_list_frame:
  assumes "grow_slab_list c s = (g, t)"
  shows "slabs_frame s t" "same_geometry s t" "mem t = mem s" "mem_malloced t = mem_malloced s"
    "cls_slots (slabclass t d) = cls_slots (slabclass s d)"
    "cls_sl_curr (slabclass t d) = cls_sl_curr (slabclass s d)"
    "cls_slabs (slabclass t d) = cls_slabs (slabclass s d)"
    "g \<Longrightarrow> cls_slabs (slabclass s c) \<le> length (cls_slab_list (slabclass s c))
       \<Longrightarrow> cls_slabs (slabclass t c) < length (cls_slab_list (slabclass t c))"
    "take (cls_slabs (slabclass s d)) (cls_slab_list (slabclass t d))
       = take (cls_slabs (slabclass s d)) (cls_slab_list (slabclass s d))"
  using assms
  by (auto simp: grow_slab_list_def Let_def same_geometry_def slabs_frame_upds
      split: if_splits prod.splits dest!: malloc_frame)

lemma memory_allocate_frame:
  assumes "memory_allocate n s = (p, t)"
  shows "slabs_frame s t" "slabclass t = slabclass s" "mem t = mem s" "mem_malloced t = mem_malloced s"
proof -
  have "slabs_frame s t \<and> slabclass t = slabclass s \<and> mem t = mem s \<and> mem_malloced t = mem_malloced s"
  proof (cases "mem_base s = NULL")
    case True
    with assms malloc_frame [of s p t] show ?thesis by (simp add: memory_allocate_def)
  next
    case False
    with assms show ?thesis
      by (cases s) (auto simp: memory_allocate_def Let_def slabs_frame_def split: if_splits)
  qed
  then show "slabs_frame s t" "slabclass t = slabclass s" "mem t = mem s"
    "mem_malloced t = mem_malloced s" by auto
qed

text \<open>The address that the next page of class \<open>c\<close> will have, as \<open>malloc\<close> decides.\<close>

definition page_of :: "nat \<Rightarrow> 'a slabs_scheme \<Rightarrow> addr" where
  "page_of c s = fst (memory_allocate (page_len c s) (snd (grow_slab_list c s)))"

definition in_page :: "nat \<Rightarrow> 'a slabs_scheme \<Rightarrow> addr set" where
  "in_page c s = {page_of c s ..< page_of c s + page_len c s}"

text \<open>
  The new page is free memory: it overlaps no chunk of \<open>fl\<close>. Documented of \<open>malloc\<close>, and true
  of the preallocated block by construction.
\<close>

definition fresh_page :: "nat \<Rightarrow> 'a slabs_scheme \<Rightarrow> (nat \<Rightarrow> addr list) \<Rightarrow> bool" where
  "fresh_page c s fl \<longleftrightarrow> (\<forall>d. set (fl d) \<inter> in_page c s = {})"

definition page_chunks :: "nat \<Rightarrow> 'a slabs_scheme \<Rightarrow> addr list" where
  "page_chunks c s = chunks (page_of c s) (cls_size (slabclass s c)) (cls_perslab (slabclass s c))"

lemma page_chunks_in_page:
  assumes "geometry_ok s" "valid_class c s"
  shows "set (page_chunks c s) \<subseteq> in_page c s"
proof
  fix x assume "x \<in> set (page_chunks c s)"
  moreover have "cls_size (slabclass s c) * cls_perslab (slabclass s c) \<le> page_len c s"
    using assms by (simp add: geometry_ok_def page_len_def)
  ultimately show "x \<in> in_page c s"
    using assms chunks_bounds [of x "page_of c s"]
    by (force simp: page_chunks_def in_page_def geometry_ok_def)
qed

text \<open>Why a new page is refused: the limit, or memory ran out.\<close>

definition over_limit :: "nat \<Rightarrow> 'a slabs_scheme \<Rightarrow> bool" where
  "over_limit c s \<longleftrightarrow> mem_limit s \<noteq> 0 \<and> mem_limit s < mem_malloced s + page_len c s
     \<and> 0 < cls_slabs (slabclass s c)"

definition no_page :: "nat \<Rightarrow> 'a slabs_scheme \<Rightarrow> bool" where
  "no_page c s \<longleftrightarrow> over_limit c s \<or> \<not> fst (grow_slab_list c s) \<or> page_of c s = NULL"

lemma do_slabs_newslab_refused:
  assumes "no_page c s"
  shows "\<exists>t. do_slabs_newslab c s = Some (False, t) \<and> slabs_frame s t \<and> same_geometry s t
     \<and> mem t = mem s \<and> mem_malloced t = mem_malloced s
     \<and> (\<forall>d. cls_slabs (slabclass t d) = cls_slabs (slabclass s d)
          \<and> cls_slots (slabclass t d) = cls_slots (slabclass s d)
          \<and> cls_sl_curr (slabclass t d) = cls_sl_curr (slabclass s d))"
proof (cases "over_limit c s")
  case True
  then show ?thesis by (simp add: do_slabs_newslab_def over_limit_def)
next
  case False
  obtain g u where g: "grow_slab_list c s = (g, u)" by fastforce
  obtain p v where v: "memory_allocate (page_len c s) u = (p, v)" by fastforce
  note gf = grow_slab_list_frame [OF g] and vf = memory_allocate_frame [OF v]
  have p: "page_of c s = p" by (simp add: page_of_def g v)
  from assms False have "\<not> g \<or> p = NULL" by (simp add: no_page_def g p)
  moreover have "do_slabs_newslab c s = Some (False, if g then v else u)"
    if "\<not> g \<or> p = NULL"
    using False that g v by (auto simp: do_slabs_newslab_def over_limit_def Let_def)
  ultimately show ?thesis
    using gf vf by (auto intro: slabs_frame_trans simp: same_geometry_def)
qed

lemma do_slabs_newslab_ok:
  assumes R: "slabs_rel s fl" and c: "valid_class c s" and G: "geometry_ok s"
    and fresh: "fresh_page c s fl" and room: "\<not> no_page c s"
  shows "\<exists>t. do_slabs_newslab c s = Some (True, t) \<and> slabs_rel t (fl(c := rev (page_chunks c s) @ fl c))
     \<and> mem_frame (in_page c s \<union> set (fl c)) s t \<and> slabs_frame s t \<and> same_geometry s t
     \<and> mem_malloced t = mem_malloced s + page_len c s
     \<and> cls_slabs (slabclass t c) = cls_slabs (slabclass s c) + 1
     \<and> (\<forall>d. d \<noteq> c \<longrightarrow> cls_slabs (slabclass t d) = cls_slabs (slabclass s d))
     \<and> (cls_slabs (slabclass s c) \<le> length (cls_slab_list (slabclass s c)) \<longrightarrow>
         take (cls_slabs (slabclass t c)) (cls_slab_list (slabclass t c))
           = take (cls_slabs (slabclass s c)) (cls_slab_list (slabclass s c)) @ [page_of c s])"
proof -
  obtain g u where g: "grow_slab_list c s = (g, u)" by fastforce
  obtain p v where v: "memory_allocate (page_len c s) u = (p, v)" by fastforce
  note gf = grow_slab_list_frame [OF g] and vf = memory_allocate_frame [OF v]
  have p: "page_of c s = p" by (simp add: page_of_def g v)
  from room have [simp]: "g" and p0: "p \<noteq> NULL" and lim: "\<not> over_limit c s"
    by (simp_all add: no_page_def g p)
  define w where "w = zero_range p (page_len c s) v"
  have fr: "slabs_frame s w"
    using gf(1) vf(1) by (auto simp: w_def intro: slabs_frame_trans slabs_frame_upds)
  have geo: "cls_size (slabclass w d) = cls_size (slabclass s d)"
    "cls_perslab (slabclass w d) = cls_perslab (slabclass s d)" for d
    using gf(2) by (simp_all add: w_def zero_range_def vf(2) same_geometry_def)
  have out: "mem w x = mem s x" if "x \<notin> in_page c s" for x
    using that by (auto simp: w_def zero_range_def vf(3) gf(3) in_page_def p)
  have zero: "mem w x = zero_item" if "x \<in> in_page c s" for x
    using that by (auto simp: w_def zero_range_def in_page_def p)
  have Rw: "slabs_rel w fl"
  proof (rule slabs_rel_cong [OF R])
    show "mem w x = mem s x" if "x \<in> set (fl d)" for d x
      using fresh that by (intro out) (auto simp: fresh_page_def)
  qed (simp_all add: w_def zero_range_def vf(2) gf(5,6))
  have ch: "chunks p (cls_size (slabclass w c)) (cls_perslab (slabclass w c)) = page_chunks c s"
    by (simp add: page_chunks_def p geo)
  have sub: "set (page_chunks c s) \<subseteq> in_page c s"
    by (rule page_chunks_in_page [OF G c])
  have "\<exists>x. split_slab_page (cls_perslab (slabclass w c)) p c w = Some x
     \<and> slabs_rel x (fl(c := rev (page_chunks c s) @ fl c))
     \<and> mem_frame (set (page_chunks c s) \<union> set (fl c)) w x"
  proof (rule split_slab_page_rel [OF Rw, where n = "cls_perslab (slabclass w c)" and ptr = p and c = c, unfolded ch])
    show "q \<notin> set (fl d)" if "q \<in> set (page_chunks c s)" for q d
      using that sub fresh by (auto simp: fresh_page_def)
    show "it_slabs_clsid (mem w q) = 0" if "q \<in> set (page_chunks c s)" for q
      using that sub by (simp add: zero subset_iff zero_item_def)
  qed (use c G p0 in \<open>simp_all add: valid_class_frame [OF fr] geo geometry_ok_def\<close>)
  then obtain x where x: "split_slab_page (cls_perslab (slabclass w c)) p c w = Some x"
    "slabs_rel x (fl(c := rev (page_chunks c s) @ fl c))"
    "mem_frame (set (page_chunks c s) \<union> set (fl c)) w x"
    by blast
  have xf: "slabs_frame w x" "same_geometry w x" "mem_malloced x = mem_malloced w"
    "cls_slabs (slabclass x d) = cls_slabs (slabclass w d)"
    "cls_slab_list (slabclass x d) = cls_slab_list (slabclass w d)" for d
    using split_slab_page_frame [OF x(1)] by auto
  define y where "y = upd_class c (\<lambda>p'. p'\<lparr>cls_slab_list := (cls_slab_list p')[cls_slabs p' := p],
    cls_slabs := cls_slabs p' + 1\<rparr>) x"
  define t where "t = y\<lparr>mem_malloced := mem_malloced y + page_len c s\<rparr>"
  have "slabs_frame y t" by (cases y) (simp add: slabs_frame_def t_def)
  then have tf: "slabs_frame s t"
    using fr xf(1) slabs_frame_upds(2) [of x x c] unfolding y_def
    by (meson slabs_frame_refl slabs_frame_trans)
  have "do_slabs_newslab c s = Some (True, t)"
    using lim g v p0 x(1)
    by (simp add: do_slabs_newslab_def over_limit_def split_slab_page_into_freelist_def
        w_def [symmetric] y_def t_def Let_def)
  moreover have "slabs_rel t (fl(c := rev (page_chunks c s) @ fl c))"
    by (rule slabs_rel_cong [OF x(2)]) (simp_all add: t_def y_def)
  moreover have "mem_frame (in_page c s \<union> set (fl c)) s t"
    using x(3) out sub by (auto simp: mem_frame_def t_def y_def)
  moreover have "same_geometry s t"
    using xf(2) by (auto simp: same_geometry_def t_def y_def geo)
  moreover have "mem_malloced t = mem_malloced s + page_len c s"
    using xf(3) by (simp add: t_def y_def w_def zero_range_def vf(4) gf(4))
  moreover have sl: "cls_slabs (slabclass x d) = cls_slabs (slabclass s d)" for d
    by (simp add: xf(4) w_def zero_range_def vf(2) gf(7))
  moreover have "cls_slabs (slabclass t c) = cls_slabs (slabclass s c) + 1"
    "\<forall>d. d \<noteq> c \<longrightarrow> cls_slabs (slabclass t d) = cls_slabs (slabclass s d)"
    by (simp_all add: t_def y_def sl)
  moreover have "take (cls_slabs (slabclass t c)) (cls_slab_list (slabclass t c))
      = take (cls_slabs (slabclass s c)) (cls_slab_list (slabclass s c)) @ [page_of c s]"
    if "cls_slabs (slabclass s c) \<le> length (cls_slab_list (slabclass s c))"
  proof -
    have "cls_slabs (slabclass s c) < length (cls_slab_list (slabclass x c))"
      using gf(8) [OF _ that] gf(7) by (simp add: xf(5) w_def zero_range_def vf(2))
    moreover have "take (cls_slabs (slabclass s c)) (cls_slab_list (slabclass x c))
        = take (cls_slabs (slabclass s c)) (cls_slab_list (slabclass s c))"
      using gf(9) [of c] by (simp add: xf(5) w_def zero_range_def vf(2))
    ultimately show ?thesis
      by (simp add: t_def y_def sl p take_Suc_conv_app_nth take_update_cancel)
  qed
  ultimately show ?thesis using tf by blast
qed

section \<open>Chunks in and out\<close>

lemma slabs_rel_unique: "slabs_rel s fl \<Longrightarrow> slabs_rel s fl' \<Longrightarrow> fl = fl'"
proof
  fix d assume R: "slabs_rel s fl" "slabs_rel s fl'"
  then have "dll (nx s) (pv s) NULL (cls_slots (slabclass s d)) (fl d)"
    "dll (nx s) (pv s) NULL (cls_slots (slabclass s d)) (fl' d)"
    by (simp_all add: slabs_rel_def freelist_def)
  then show "fl d = fl' d" by (blast intro: chain_unique dll_chain)
qed

lemma do_slabs_alloc_pop:
  assumes R: "slabs_rel s fl" and c: "valid_class c s" and xs: "fl c = x # xs"
  shows "\<exists>t. do_slabs_alloc n c s = Some (x, t) \<and> slabs_rel t (fl(c := xs))
     \<and> mem_frame (set xs) s t \<and> slabs_frame s t \<and> same_geometry s t \<and> mem_malloced t = mem_malloced s
     \<and> (\<forall>d. cls_slabs (slabclass t d) = cls_slabs (slabclass s d))
     \<and> cls_requested (slabclass t c) = cls_requested (slabclass s c) + of_nat n
     \<and> x \<noteq> NULL \<and> it_slabs_clsid (mem t x) = 0 \<and> (\<forall>d. x \<notin> set ((fl(c := xs)) d))"
proof -
  have F: "freelist s d (fl d)" for d using R by (simp add: slabs_rel_def)
  have x: "cls_slots (slabclass s c) = x" "x \<noteq> NULL" "cls_sl_curr (slabclass s c) = Suc (length xs)"
    "it_slabs_clsid (mem s x) = 0" "dll (nx s) (pv s) x (it_next (mem s x)) xs"
    using F [of c] xs by (auto simp: freelist_def free_chunk_def)
  have "distinct (fl c)" using F [of c] unfolding freelist_def by (blast intro: dll_distinct)
  then have dist: "distinct (x # xs)" by (simp only: xs)
  let ?y = "it_next (mem s x)"
  have y: "?y \<noteq> NULL \<Longrightarrow> \<exists>ys. xs = ?y # ys" using x(5) by (cases xs) auto
  obtain t where t: "do_slabs_alloc n c s = Some (x, t)"
    using c x by (auto simp: do_slabs_alloc_def valid_class_def pop_slot_def Let_def)
  have m: "mem t = (if ?y \<noteq> NULL then (mem s)(?y := (mem s ?y)\<lparr>it_prev := NULL\<rparr>) else mem s)"
    using t c x by (auto simp: do_slabs_alloc_def valid_class_def pop_slot_def Let_def)
  have cl: "slabclass t = (slabclass s)(c := (slabclass s c)\<lparr>cls_slots := ?y,
     cls_sl_curr := length xs, cls_requested := cls_requested (slabclass s c) + of_nat n\<rparr>)"
    using t c x by (auto simp: do_slabs_alloc_def valid_class_def pop_slot_def Let_def)
  have fr: "slabs_frame s t \<and> same_geometry s t \<and> mem_malloced t = mem_malloced s
     \<and> (\<forall>d. cls_slabs (slabclass t d) = cls_slabs (slabclass s d))"
    using t c x by (auto simp: do_slabs_alloc_def valid_class_def pop_slot_def Let_def
        slabs_frame_upds same_geometry_def)
  have mf: "mem_frame (set xs) s t"
    using y by (auto simp: mem_frame_def m)
  have "freelist t c xs"
  proof (cases xs)
    case Nil
    with x(5) show ?thesis by (simp add: freelist_def cl)
  next
    case (Cons z ys)
    then have z: "?y = z" "z \<noteq> NULL" "z \<notin> set ys" using x(5) dist by auto
    have "mem t u = mem s u" if "u \<in> set ys" for u using that z by (auto simp: m)
    moreover have "mem t z = (mem s z)\<lparr>it_prev := NULL\<rparr>" using z by (simp add: m)
    ultimately show ?thesis
      using F [of c] xs x(5) z Cons
      by (auto simp: freelist_def cl free_chunk_def has_flag_def
          dll_cong [of ys "nx t" "nx s" "pv t" "pv s"])
  qed
  moreover have "freelist t d (fl d)" if "d \<noteq> c" for d
  proof -
    have "mem t u = mem s u" if "u \<in> set (fl d)" for u
      using that mf slabs_relD(2) [OF R that, of c] \<open>d \<noteq> c\<close> xs by (auto simp: mem_frame_def)
    with F [of d] that show ?thesis
      by (auto simp: freelist_def cl dll_cong [of "fl d" "nx t" "nx s" "pv t" "pv s"])
  qed
  ultimately have "slabs_rel t (fl(c := xs))"
    using R xs by (fastforce simp: slabs_rel_def)
  moreover have "mem t x = mem s x" using mf dist by (simp add: mem_frame_def)
  moreover have "\<forall>d. x \<notin> set ((fl(c := xs)) d)"
    using dist slabs_relD(2) [OF R, of x c] xs by auto
  ultimately show ?thesis using t mf fr cl x(2,4) by auto
qed

text \<open>The free list of one class as a pool of chunks.\<close>

definition pool_holds :: "nat \<Rightarrow> 'a slabs_scheme \<Rightarrow> addr list \<Rightarrow> bool" where
  "pool_holds c s xs \<longleftrightarrow> valid_class c s \<and> (\<exists>fl. slabs_rel s fl \<and> fl c = xs)"

definition chunk_idle :: "addr \<Rightarrow> 'a slabs_scheme \<Rightarrow> bool" where
  "chunk_idle p s \<longleftrightarrow> p \<noteq> NULL \<and> it_slabs_clsid (mem s p) = 0
     \<and> (\<forall>fl d. slabs_rel s fl \<longrightarrow> p \<notin> set (fl d))"

interpretation slab_pool: lifo_pool "pool_holds c" "chunk_idle"
  "\<lambda>p. do_slabs_free p n c" "do_slabs_alloc n c" for c n
proof unfold_locales
  fix s :: "'a slabs_scheme" and xs x
  assume "pool_holds c s xs" "chunk_idle x s"
  then obtain fl where fl: "slabs_rel s fl" "valid_class c s" "fl c = xs" "x \<noteq> NULL"
    "it_slabs_clsid (mem s x) = 0" "\<And>d. x \<notin> set (fl d)"
    by (auto simp: pool_holds_def chunk_idle_def)
  from do_slabs_free_rel [OF fl(1,2,4,6,5)] obtain t where
    t: "do_slabs_free x n c s = Some t" "slabs_rel t (fl(c := x # fl c))" by blast
  from fl(2) have "valid_class c t" by (simp add: valid_class_frame [OF do_slabs_free_frame(1) [OF t(1)]])
  with t(2) fl(3) have "pool_holds c t (x # xs)"
    unfolding pool_holds_def by (metis fun_upd_same)
  with t(1) show "\<exists>t. do_slabs_free x n c s = Some t \<and> pool_holds c t (x # xs)" by blast
next
  fix s :: "'a slabs_scheme" and xs x
  assume "pool_holds c s (x # xs)"
  then obtain fl where fl: "slabs_rel s fl" "valid_class c s" "fl c = x # xs"
    by (auto simp: pool_holds_def)
  then obtain t where t: "do_slabs_alloc n c s = Some (x, t)" "slabs_rel t (fl(c := xs))"
    "mem_frame (set xs) s t" "slabs_frame s t"
    using do_slabs_alloc_pop by blast
  have "freelist s c (x # xs)" using slabs_relD(1) [OF fl(1), of c] fl(3) by simp
  then have "distinct (x # xs)" unfolding freelist_def by (blast intro: dll_distinct)
  with \<open>freelist s c (x # xs)\<close> have x: "x \<noteq> NULL" "x \<notin> set xs" "it_slabs_clsid (mem s x) = 0"
    by (auto simp: freelist_def free_chunk_def)
  have "x \<notin> set (fl' d)" if "slabs_rel t fl'" for fl' d
    using slabs_rel_unique [OF that t(2)] slabs_relD(2) [OF fl(1), of x c d] fl(3) x(2) by auto
  with x t(3) have "chunk_idle x t" by (simp add: chunk_idle_def mem_frame_def)
  moreover have "pool_holds c t xs"
    using t(2,4) fl(2) unfolding pool_holds_def by (metis fun_upd_same valid_class_frame)
  ultimately show "\<exists>t. do_slabs_alloc n c s = Some (x, t) \<and> pool_holds c t xs \<and> chunk_idle x t"
    using t(1) by blast
next
  fix s :: "'a slabs_scheme" and xs
  assume "pool_holds c s xs"
  then show "distinct xs"
    by (auto simp: pool_holds_def slabs_rel_def freelist_def dest: dll_distinct)
qed

section \<open>The sizes of the classes\<close>

lemma round_half_even_ge: "of_int m \<le> z \<Longrightarrow> m \<le> round_half_even z"
proof -
  assume "of_int m \<le> z"
  then have "m \<le> \<lfloor>z\<rfloor>" by (simp add: le_floor_iff)
  then show ?thesis by (auto simp: round_half_even_def Let_def)
qed

lemma round_half_even_le:
  assumes "z \<le> of_int m"
  shows "round_half_even z \<le> m"
proof (cases "\<lfloor>z\<rfloor> = m")
  case True
  with assms have "z = of_int m" by (metis of_int_floor_le order_antisym)
  then show ?thesis by (simp add: round_half_even_def)
next
  case False
  moreover have "\<lfloor>z\<rfloor> \<le> m" using assms by (metis floor_mono floor_of_int)
  ultimately show ?thesis by (auto simp: round_half_even_def Let_def)
qed

lemma round_double_ge: "of_nat n \<le> x \<Longrightarrow> of_nat n \<le> round_double x"
proof (cases "x < 1")
  case False
  assume n: "of_nat n \<le> x"
  define e where "e = 53 - nat (bitlen \<lfloor>x\<rfloor>)"
  have "of_int (int n * 2 ^ e) \<le> x * 2 ^ e" using n by simp
  then have "int n * 2 ^ e \<le> round_half_even (x * 2 ^ e)" by (rule round_half_even_ge)
  then have "of_int (int n * 2 ^ e) \<le> (of_int (round_half_even (x * 2 ^ e)) :: rat)"
    by (simp only: of_int_le_iff)
  with False show ?thesis by (simp add: round_double_def e_def [symmetric] pos_le_divide_eq)
qed (simp add: round_double_def)

lemma round_double_le: "x \<le> of_nat n \<Longrightarrow> round_double x \<le> of_nat n"
proof (cases "x < 1")
  case False
  assume n: "x \<le> of_nat n"
  define e where "e = 53 - nat (bitlen \<lfloor>x\<rfloor>)"
  have "x * 2 ^ e \<le> of_int (int n * 2 ^ e)" using n by simp
  then have "round_half_even (x * 2 ^ e) \<le> int n * 2 ^ e" by (rule round_half_even_le)
  then have "(of_int (round_half_even (x * 2 ^ e)) :: rat) \<le> of_int (int n * 2 ^ e)"
    by (simp only: of_int_le_iff)
  with False show ?thesis by (simp add: round_double_def e_def [symmetric] pos_divide_le_eq)
qed (simp add: round_double_def)

lemma scale_size_ge: "1 \<le> f \<Longrightarrow> sz \<le> scale_size sz (Dbl f)"
proof -
  assume "1 \<le> f"
  then have "of_nat sz \<le> of_nat sz * f" by (simp add: mult_le_cancel_left1)
  then have "of_nat sz \<le> round_double (of_nat sz * f)" by (rule round_double_ge)
  then have "int sz \<le> \<lfloor>round_double (of_nat sz * f)\<rfloor>" by (simp add: le_floor_iff)
  then show ?thesis by (simp add: scale_size_def)
qed

lemma chunk_align_eq: "chunk_align n = 8 * ((n + 7) div 8)"
proof -
  obtain q r where n: "n = 8 * q + r" "r < 8"
    using mult_div_mod_eq [of 8 n] by (metis mod_less_divisor zero_less_numeral)
  then have m: "n mod 8 = r" by simp
  have d: "(n + 7) div 8 = (if r = 0 then q else q + 1)"
    using n by (intro div_nat_eqI) auto
  show ?thesis
    unfolding chunk_align_def CHUNK_ALIGN_BYTES_def m d using n by simp
qed

lemma chunk_align_props: "8 dvd chunk_align n" "n \<le> chunk_align n"
  "8 dvd m \<Longrightarrow> n \<le> m \<Longrightarrow> chunk_align n \<le> m"
proof -
  show "8 dvd chunk_align n" "n \<le> chunk_align n" by (simp_all add: chunk_align_eq)
  assume "8 dvd m" "n \<le> m"
  then obtain k where "m = 8 * k" by blast
  with \<open>n \<le> m\<close> have "(n + 7) div 8 \<le> k" by linarith
  with \<open>m = 8 * k\<close> show "chunk_align n \<le> m" by (simp add: chunk_align_eq)
qed

text \<open>What \<open>init_classes\<close> leaves: classes \<open>i\<close> to \<open>i' - 1\<close> filled in, the others as they were.\<close>

lemma init_classes_frame:
  "init_classes i sz f s = (i', t) \<Longrightarrow> i \<le> i' \<and> (i \<le> POWER_LARGEST \<longrightarrow> i' \<le> POWER_LARGEST)
     \<and> settings t = settings s \<and> (\<forall>j. j < i \<or> i' \<le> j \<longrightarrow> slabclass t j = slabclass s j)
     \<and> slabs_frame s t"
proof (induction i sz f s rule: init_classes.induct)
  case (1 i sz f s)
  show ?case
  proof (cases "i < POWER_LARGEST \<and> fits_quotient sz (item_size_max (settings s)) f")
    case True
    define u where "u = upd_class i (\<lambda>p. p\<lparr>cls_size := chunk_align sz,
      cls_perslab := item_size_max (settings s) div chunk_align sz\<rparr>) s"
    have "init_classes (i + 1) (scale_size (chunk_align sz) f) f u = (i', t)"
      using 1(2) True by (simp add: init_classes.simps [of i] u_def Let_def)
    from 1(1) [OF True refl refl refl this [unfolded u_def]] True
    show ?thesis by (auto intro: slabs_frame_trans [OF slabs_frame_upd(2)])
  next
    case False
    with 1(2) show ?thesis by (auto simp: init_classes.simps [of i])
  qed
qed

text \<open>A factor that does not make the sizes smaller, or ends the loop at once.\<close>

definition at_least_one :: "c_double \<Rightarrow> bool" where
  "at_least_one fac = (case fac of Dbl q \<Rightarrow> 1 \<le> q | Neg_Infinity \<Rightarrow> False | _ \<Rightarrow> True)"

lemma init_classes_sizes:
  assumes "at_least_one f" "8 dvd item_size_max (settings s)" "init_classes i sz f s = (i', t)"
    "i \<le> j" "j < i'"
  shows "sz \<le> cls_size (slabclass t j) \<and> 8 dvd cls_size (slabclass t j)
     \<and> cls_size (slabclass t j) \<le> item_size_max (settings s)
     \<and> cls_perslab (slabclass t j) = item_size_max (settings s) div cls_size (slabclass t j)
     \<and> (\<forall>k. j \<le> k \<and> k < i' \<longrightarrow> cls_size (slabclass t j) \<le> cls_size (slabclass t k))"
  using assms
proof (induction i sz f s arbitrary: j rule: init_classes.induct)
  case (1 i sz f s)
  have T: "i < POWER_LARGEST \<and> fits_quotient sz (item_size_max (settings s)) f"
    using 1(4-6) by (rule_tac ccontr) (simp add: init_classes.simps [of i])
  define u where "u = upd_class i (\<lambda>p. p\<lparr>cls_size := chunk_align sz,
    cls_perslab := item_size_max (settings s) div chunk_align sz\<rparr>) s"
  have rest: "init_classes (i + 1) (scale_size (chunk_align sz) f) f u = (i', t)"
    using 1(4) T by (simp add: init_classes.simps [of i] u_def Let_def)
  have "sz \<le> item_size_max (settings s) \<and> (\<exists>q. f = Dbl q \<or> sz = 0)"
  proof (cases f)
    case (Dbl q)
    then have q: "1 \<le> q" "of_nat sz \<le> round_double (of_nat (item_size_max (settings s)) / q)"
      using 1(2) T by (simp_all add: at_least_one_def fits_quotient_def)
    then have "of_nat (item_size_max (settings s)) / q \<le> (of_nat (item_size_max (settings s)) :: rat)"
      by (simp add: divide_le_eq mult_le_cancel_left1)
    with q(2) have "(of_nat sz :: rat) \<le> of_nat (item_size_max (settings s))"
      using round_double_le order_trans by blast
    with Dbl show ?thesis by simp
  qed (use T in \<open>simp_all add: fits_quotient_def\<close>)
  then have fits: "chunk_align sz \<le> item_size_max (settings s)" and fin: "(\<exists>q. f = Dbl q) \<or> sz = 0"
    using 1(3) by (auto intro: chunk_align_props(3))
  have grow: "chunk_align sz \<le> scale_size (chunk_align sz) f"
    using fin 1(2) scale_size_ge by (auto simp: at_least_one_def chunk_align_def)
  have ti: "slabclass t i = slabclass u i"
    using init_classes_frame [OF rest] by simp
  have IH: "scale_size (chunk_align sz) f \<le> cls_size (slabclass t k) \<and> 8 dvd cls_size (slabclass t k)
     \<and> cls_size (slabclass t k) \<le> item_size_max (settings s)
     \<and> cls_perslab (slabclass t k) = item_size_max (settings s) div cls_size (slabclass t k)
     \<and> (\<forall>l. k \<le> l \<and> l < i' \<longrightarrow> cls_size (slabclass t k) \<le> cls_size (slabclass t l))"
    if "i + 1 \<le> k" "k < i'" for k
    using 1(1) [OF T refl refl refl, of k] 1(2,3) rest that by (simp add: u_def)
  show ?case
  proof (cases "j = i")
    case True
    have "cls_size (slabclass t i) \<le> cls_size (slabclass t k)" if "i \<le> k" "k < i'" for k
      using IH [of k] that grow by (cases "k = i") (auto simp: ti u_def)
    with True fits chunk_align_props(1,2) [of sz] show ?thesis
      by (auto simp: ti u_def)
  next
    case False
    with IH [of j] 1(5,6) grow chunk_align_props(2) [of sz] show ?thesis by auto
  qed
qed

lemma do_slabs_newslab_account:
  assumes "do_slabs_newslab c s = Some (ok, t)"
  shows "slabs_frame s t \<and> same_geometry s t \<and> (ok \<longrightarrow> \<not> over_limit c s)
     \<and> mem_malloced t = mem_malloced s + (if ok then page_len c s else 0)
     \<and> (\<forall>d. cls_slabs (slabclass t d) = cls_slabs (slabclass s d) + (if ok \<and> d = c then 1 else 0))"
proof (cases "no_page c s")
  case True
  with do_slabs_newslab_refused [OF True] assms show ?thesis by auto
next
  case False
  obtain g u where g: "grow_slab_list c s = (g, u)" by fastforce
  obtain p v where v: "memory_allocate (page_len c s) u = (p, v)" by fastforce
  note gf = grow_slab_list_frame [OF g] and vf = memory_allocate_frame [OF v]
  define w where "w = zero_range p (page_len c s) v"
  have w: "slabs_frame s w" "same_geometry s w" "mem_malloced w = mem_malloced s"
    "\<And>d. cls_slabs (slabclass w d) = cls_slabs (slabclass s d)"
    using gf(1,2,4,7) vf(1,2,4)
    by (auto simp: w_def same_geometry_def zero_range_def [of _ _ v]
        intro: slabs_frame_trans slabs_frame_upds(3) [unfolded zero_range_def])
  from False have "g" "p \<noteq> NULL" "\<not> over_limit c s"
    by (auto simp: no_page_def page_of_def g v)
  with assms g v obtain x where x: "split_slab_page_into_freelist p c w = Some x" and ok: "ok"
    and t: "t = (upd_class c (\<lambda>p'. p'\<lparr>cls_slab_list := (cls_slab_list p')[cls_slabs p' := p],
      cls_slabs := cls_slabs p' + 1\<rparr>) x)\<lparr>mem_malloced := mem_malloced x + page_len c s\<rparr>"
    by (auto simp: do_slabs_newslab_def over_limit_def w_def Let_def split: bind_splits)
  note xf = split_slab_page_frame [OF x [unfolded split_slab_page_into_freelist_def]]
  have "slabs_frame x t"
    by (cases x) (simp add: t slabs_frame_def upd_class_def)
  then show ?thesis
    using w xf ok \<open>\<not> over_limit c s\<close>
    by (auto simp: t same_geometry_def intro: slabs_frame_trans)
qed

lemmas do_slabs_newslab_frame = do_slabs_newslab_account [THEN conjunct1]
  do_slabs_newslab_account [THEN conjunct2, THEN conjunct1]

lemma slabs_preallocate_frame:
  "slabs_preallocate_loop n i k m s = Some t \<Longrightarrow> slabs_frame s t \<and> same_geometry s t"
proof (induction n arbitrary: i k s)
  case (Suc n)
  show ?case
  proof (cases "m < k + 1")
    case False
    with Suc.prems obtain u where u: "do_slabs_newslab i s = Some (True, u)"
      "slabs_preallocate_loop n (i + 1) (k + 1) m u = Some t"
      by (auto split: bind_splits if_splits)
    from Suc.IH [OF u(2)] do_slabs_newslab_account [OF u(1)] show ?thesis
      by (blast intro: slabs_frame_trans same_geometry_trans)
  qed (use Suc.prems in simp)
qed simp

text \<open>The classes that \<open>slabs_init\<close> leaves.\<close>

definition classes_ok :: "'a slabs_scheme \<Rightarrow> bool" where
  "classes_ok s \<longleftrightarrow> POWER_SMALLEST \<le> power_largest s \<and> power_largest s \<le> POWER_LARGEST
     \<and> cls_size (slabclass s (power_largest s)) = item_size_max (settings s)
     \<and> (\<forall>c. valid_class c s \<longrightarrow> 8 dvd cls_size (slabclass s c) \<and> 0 < cls_size (slabclass s c)
          \<and> cls_size (slabclass s c) \<le> item_size_max (settings s)
          \<and> cls_perslab (slabclass s c) = item_size_max (settings s) div cls_size (slabclass s c))
     \<and> (\<forall>c d. valid_class c s \<and> valid_class d s \<and> c \<le> d \<longrightarrow>
          cls_size (slabclass s c) \<le> cls_size (slabclass s d))"

lemma classes_ok_frame:
  "slabs_frame s t \<Longrightarrow> same_geometry s t \<Longrightarrow> classes_ok s \<Longrightarrow> classes_ok t"
  by (auto simp: classes_ok_def slabs_frameD valid_class_def same_geometry_def)

lemma classes_ok_geometry: "classes_ok s \<Longrightarrow> geometry_ok s"
  by (auto simp: classes_ok_def geometry_ok_def)

lemma slabs_init_ok:
  assumes f: "at_least_one fac" and al: "8 dvd item_size_max (settings s)" "0 < item_size_max (settings s)"
    and r: "slabs_init limit fac prealloc initial s = Some t"
  shows "classes_ok t \<and> settings t = settings s"
proof -
  have nf: "\<not> (first_size (settings s) = 0 \<and> fits_quotient (first_size (settings s)) (item_size_max (settings s)) fac)"
  proof
    assume "first_size (settings s) = 0 \<and> fits_quotient (first_size (settings s)) (item_size_max (settings s)) fac"
    then have "slabs_init limit fac prealloc initial s = None" unfolding slabs_init_def Let_def by (rule if_P)
    with r show False by simp
  qed
  define u where "u = (if prealloc then
      (let (p, s) = malloc (s\<lparr>mem_limit := limit\<rparr>); s = s\<lparr>mem_base := p\<rparr> in
        if p \<noteq> NULL then s\<lparr>mem_current := p, mem_avail := mem_limit s\<rparr> else s)
      else s\<lparr>mem_limit := limit\<rparr>)\<lparr>slabclass := (\<lambda>_. empty_class)\<rparr>"
  have us: "settings u = settings s"
    by (auto simp: u_def Let_def malloc_def split: list.splits)
  obtain i v where v: "init_classes POWER_SMALLEST (first_size (settings s)) fac u = (i, v)"
    by fastforce
  have nz: "first_size (settings s) \<noteq> 0 \<or> i = POWER_SMALLEST"
    using nf v us by (auto simp: init_classes.simps [of POWER_SMALLEST])
  define w where "w = upd_class i (\<lambda>p. p\<lparr>cls_size := item_size_max (settings s), cls_perslab := 1\<rparr>)
    (v\<lparr>power_largest := i\<rparr>)"
  define x where "x = (case initial of None \<Rightarrow> w | Some m \<Rightarrow> w\<lparr>mem_malloced := m\<rparr>)"
  note fr = init_classes_frame [OF v]
  have i: "POWER_SMALLEST \<le> i" "i \<le> POWER_LARGEST" "settings v = settings s"
    using fr us by (auto simp: POWER_SMALLEST_def POWER_LARGEST_def)
  have x: "power_largest x = i" "settings x = settings s" "slabclass x = (slabclass v)(i := (slabclass v i)
      \<lparr>cls_size := item_size_max (settings s), cls_perslab := 1\<rparr>)"
    using i(3) by (auto simp: x_def w_def split: option.splits)
  have sz: "first_size (settings s) \<le> cls_size (slabclass v j)
     \<and> 8 dvd cls_size (slabclass v j) \<and> cls_size (slabclass v j) \<le> item_size_max (settings s)
     \<and> cls_perslab (slabclass v j) = item_size_max (settings s) div cls_size (slabclass v j)
     \<and> (\<forall>k. j \<le> k \<and> k < i \<longrightarrow> cls_size (slabclass v j) \<le> cls_size (slabclass v k))"
    if "POWER_SMALLEST \<le> j" "j < i" for j
    using init_classes_sizes [OF f _ v that] al us by simp
  have "classes_ok x"
    unfolding classes_ok_def
  proof (intro conjI allI impI; (elim conjE)?)
    fix c assume "valid_class c x"
    then have c: "POWER_SMALLEST \<le> c" "c \<le> i" by (auto simp: valid_class_def x)
    show "8 dvd cls_size (slabclass x c)" "0 < cls_size (slabclass x c)"
      "cls_size (slabclass x c) \<le> item_size_max (settings x)"
      "cls_perslab (slabclass x c) = item_size_max (settings x) div cls_size (slabclass x c)"
      using sz [of c] c al nz by (cases "c = i"; auto simp: x)+
    fix d assume "valid_class d x" "c \<le> d"
    then have "d \<le> i" by (simp add: valid_class_def x)
    with sz [of c] c \<open>c \<le> d\<close> show "cls_size (slabclass x c) \<le> cls_size (slabclass x d)"
      by (cases "d = i"; cases "c = i") (auto simp: x)
  qed (simp_all add: x i)
  moreover have "if prealloc then slabs_preallocate (power_largest x) x = Some t else t = x"
  proof -
    have "slabs_init limit fac prealloc initial s
        = (if prealloc then slabs_preallocate (power_largest x) x else Some x)"
      using v i(3) us unfolding slabs_init_def Let_def if_not_P [OF nf] u_def x_def w_def
      by (simp split: prod.splits if_splits option.splits cong: if_cong)
    with r show ?thesis by (auto split: if_splits)
  qed
  moreover have "slabs_frame x t \<and> same_geometry x t"
    if "slabs_preallocate (power_largest x) x = Some t"
    by (rule slabs_preallocate_frame [OF that [unfolded slabs_preallocate_def]])
  ultimately have "slabs_frame x t \<and> same_geometry x t" "classes_ok x"
    by (auto split: if_splits)
  with x(2) show ?thesis
    using classes_ok_frame [of x t] slabs_frameD(2) [of x t] by simp
qed

section \<open>Choosing a class, proved\<close>

lemma clsid_loop_eq:
  "r \<le> power_largest s \<Longrightarrow> clsid_loop n r s =
     (case find (\<lambda>d. n \<le> cls_size (slabclass s d)) [r..<Suc (power_largest s)] of None \<Rightarrow> 0 | Some d \<Rightarrow> d)"
proof (induction n r s rule: clsid_loop.induct)
  case (1 n r s)
  have up: "[r..<Suc (power_largest s)] = r # [Suc r..<Suc (power_largest s)]"
    using 1(2) by (simp add: upt_conv_Cons del: upt_Suc)
  show ?case
  proof (cases "cls_size (slabclass s r) < n \<and> r \<noteq> power_largest s")
    case True
    with 1 show ?thesis by (simp add: clsid_loop.simps [of n r] up del: upt_Suc)
  next
    case False
    then have "clsid_loop n r s = (if cls_size (slabclass s r) < n then 0 else r)"
      by (simp add: clsid_loop.simps [of n r])
    with False show ?thesis by (auto simp: up simp del: upt_Suc)
  qed
qed

lemma find_upt_Some:
  "find P [a..<b] = Some d \<Longrightarrow> a \<le> d \<and> d < b \<and> P d \<and> (\<forall>e. a \<le> e \<and> e < d \<longrightarrow> \<not> P e)"
proof -
  assume "find P [a..<b] = Some d"
  then obtain i where i: "i < length [a..<b]" "P ([a..<b] ! i)" "d = [a..<b] ! i"
    "\<forall>j<i. \<not> P ([a..<b] ! j)" by (auto simp: find_Some_iff)
  have "\<not> P e" if "a \<le> e" "e < d" for e
    using i(1,3) i(4) [rule_format, of "e - a"] that by simp
  with i show ?thesis by simp
qed

lemma slabs_clsid_first_fit:
  assumes "POWER_SMALLEST \<le> power_largest s"
  shows "slabs_clsid n s = 0 \<longleftrightarrow> n = 0 \<or> (\<forall>d. valid_class d s \<longrightarrow> cls_size (slabclass s d) < n)"
    "slabs_clsid n s \<noteq> 0 \<Longrightarrow> valid_class (slabs_clsid n s) s
       \<and> n \<le> cls_size (slabclass s (slabs_clsid n s))
       \<and> (\<forall>d. valid_class d s \<and> d < slabs_clsid n s \<longrightarrow> cls_size (slabclass s d) < n)"
proof -
  let ?f = "find (\<lambda>d. n \<le> cls_size (slabclass s d)) [POWER_SMALLEST..<Suc (power_largest s)]"
  have eq: "slabs_clsid n s = (if n = 0 then 0 else case ?f of None \<Rightarrow> 0 | Some d \<Rightarrow> d)"
    using assms by (simp add: slabs_clsid_def clsid_loop_eq del: upt_Suc)
  have none: "?f = None \<longleftrightarrow> (\<forall>d. valid_class d s \<longrightarrow> cls_size (slabclass s d) < n)"
    unfolding find_None_iff set_upt atLeastLessThan_iff less_Suc_eq_le valid_class_def
    by (meson not_le)
  have pos: "d \<noteq> 0" if "?f = Some d" for d
    using find_upt_Some [OF that] by (simp add: POWER_SMALLEST_def)
  show "slabs_clsid n s = 0 \<longleftrightarrow> n = 0 \<or> (\<forall>d. valid_class d s \<longrightarrow> cls_size (slabclass s d) < n)"
    using pos none by (cases ?f) (auto simp: eq)
  show "slabs_clsid n s \<noteq> 0 \<Longrightarrow> valid_class (slabs_clsid n s) s
       \<and> n \<le> cls_size (slabclass s (slabs_clsid n s))
       \<and> (\<forall>d. valid_class d s \<and> d < slabs_clsid n s \<longrightarrow> cls_size (slabclass s d) < n)"
  proof -
    assume "slabs_clsid n s \<noteq> 0"
    then obtain d where d: "?f = Some d" "slabs_clsid n s = d"
      by (auto simp: eq split: if_splits option.splits)
    show ?thesis
      using find_upt_Some [OF d(1)] d(2) by (auto simp: valid_class_def not_le)
  qed
qed

section \<open>The memory limit\<close>

text \<open>Calls of the allocator by its clients, in order.\<close>

datatype slab_op = SlabAlloc nat nat | SlabFree addr nat nat | SlabAdjust nat nat nat

fun slab_step :: "slab_op \<Rightarrow> 'a slabs_scheme \<Rightarrow> 'a slabs_scheme option" where
  "slab_step (SlabAlloc sz c) s = map_option snd (do_slabs_alloc sz c s)"
| "slab_step (SlabFree p sz c) s = do_slabs_free p sz c s"
| "slab_step (SlabAdjust c old new) s = slabs_adjust_mem_requested c old new s"

fun slab_run :: "slab_op list \<Rightarrow> 'a slabs_scheme \<Rightarrow> 'a slabs_scheme option" where
  "slab_run [] s = Some s"
| "slab_run (x # xs) s = Option.bind (slab_step x s) (slab_run xs)"

definition used_classes :: "'a slabs_scheme \<Rightarrow> nat set" where
  "used_classes s = {c. valid_class c s \<and> 0 < cls_slabs (slabclass s c)}"

text \<open>
  Above the limit there is at most one page for every class in use: the first page of a class
  is granted without looking at the limit.
\<close>

definition limit_ok :: "'a slabs_scheme \<Rightarrow> bool" where
  "limit_ok s \<longleftrightarrow> mem_limit s \<noteq> 0 \<longrightarrow>
     mem_malloced s \<le> mem_limit s + item_size_max (settings s) * card (used_classes s)"

lemma finite_used_classes [simp]: "finite (used_classes s)"
  by (rule finite_subset [of _ "{..power_largest s}"]) (auto simp: used_classes_def valid_class_def)

lemma page_len_le: "geometry_ok s \<Longrightarrow> valid_class c s \<Longrightarrow> page_len c s \<le> item_size_max (settings s)"
  by (simp add: page_len_def geometry_ok_def)

lemma do_slabs_newslab_limit:
  assumes n: "do_slabs_newslab c s = Some (ok, t)" and c: "valid_class c s"
    and G: "geometry_ok s" and L: "limit_ok s"
  shows "limit_ok t"
proof -
  note acc = do_slabs_newslab_account [OF n]
  then have fr: "slabs_frame s t" by simp
  note frD = slabs_frameD [OF fr]
  show ?thesis
  proof (cases "ok \<and> mem_limit s \<noteq> 0")
    case False
    have "used_classes t = used_classes s" if "\<not> ok"
      using acc that by (simp add: used_classes_def valid_class_frame [OF fr])
    with False acc L show ?thesis by (auto simp: limit_ok_def frD)
  next
    case True
    with acc have m: "mem_malloced t = mem_malloced s + page_len c s" "\<not> over_limit c s" by auto
    have used: "used_classes t = insert c (used_classes s)"
      using acc True c by (auto simp: used_classes_def valid_class_frame [OF fr])
    show ?thesis
    proof (cases "c \<in> used_classes s")
      case True
      then have "mem_malloced t \<le> mem_limit s"
        using m \<open>ok \<and> mem_limit s \<noteq> 0\<close> by (auto simp: over_limit_def used_classes_def)
      then show ?thesis by (simp add: limit_ok_def frD)
    next
      case False
      with L m(1) page_len_le [OF G c] \<open>ok \<and> mem_limit s \<noteq> 0\<close> show ?thesis
        by (auto simp: limit_ok_def frD used)
    qed
  qed
qed

lemma same_accounts_limit:
  assumes "slabs_frame s t" "mem_malloced t = mem_malloced s"
    "\<And>d. cls_slabs (slabclass t d) = cls_slabs (slabclass s d)" "limit_ok s"
  shows "limit_ok t"
proof -
  have "used_classes t = used_classes s"
    using assms(3) by (simp add: used_classes_def valid_class_frame [OF assms(1)])
  with assms(2,4) show ?thesis by (simp add: limit_ok_def slabs_frameD [OF assms(1)])
qed

lemma pop_slot_frame:
  assumes "pop_slot c s = (x, t)"
  shows "slabs_frame s t \<and> same_geometry s t \<and> mem_malloced t = mem_malloced s
     \<and> (\<forall>d. cls_slabs (slabclass t d) = cls_slabs (slabclass s d))"
  using assms by (auto simp: pop_slot_def Let_def slabs_frame_upds same_geometry_def split: if_splits)

lemma do_slabs_alloc_cases:
  assumes a: "do_slabs_alloc n c s = Some (p, t)"
  obtains (refused) "p = NULL" "t = s" "\<not> valid_class c s"
  | (served) ok u where "valid_class c s" "(ok, u) = (True, s) \<or> do_slabs_newslab c s = Some (ok, u)"
      "slabs_frame u t" "same_geometry u t" "mem_malloced t = mem_malloced u"
      "\<And>d. cls_slabs (slabclass t d) = cls_slabs (slabclass u d)"
proof (cases "valid_class c s")
  case False
  with a show ?thesis
    by (intro refused) (auto simp: do_slabs_alloc_def valid_class_def)
next
  case True
  let ?room = "if cls_sl_curr (slabclass s c) \<noteq> 0 then Some (True, s) else do_slabs_newslab c s"
  from a True obtain ok u where r: "?room = Some (ok, u)"
    by (cases ?room) (auto simp: do_slabs_alloc_def valid_class_def split: if_splits)
  then have u: "(ok, u) = (True, s) \<or> do_slabs_newslab c s = Some (ok, u)"
    by (auto split: if_splits)
  obtain x v where
    x: "(if ok \<and> cls_sl_curr (slabclass u c) \<noteq> 0 then pop_slot c u else (NULL, u)) = (x, v)"
    by fastforce
  have t: "t = (if x \<noteq> NULL
      then upd_class c (\<lambda>p. p\<lparr>cls_requested := cls_requested p + of_nat n\<rparr>) v else v)"
    using a True x unfolding do_slabs_alloc_def valid_class_def r
    by (auto split: if_splits prod.splits)
  have "slabs_frame u v \<and> same_geometry u v \<and> mem_malloced v = mem_malloced u
     \<and> (\<forall>d. cls_slabs (slabclass v d) = cls_slabs (slabclass u d))"
    using x pop_slot_frame [of c u x v] by (auto split: if_splits)
  then show ?thesis
    by (intro served [OF True u]) (auto simp: t same_geometry_def slabs_frame_upds)
qed

lemma slab_step_limit:
  assumes "slab_step op s = Some t" "geometry_ok s" "limit_ok s"
  shows "geometry_ok t \<and> limit_ok t \<and> slabs_frame s t"
proof (cases op)
  case (SlabAlloc n c)
  with assms(1) obtain p where "do_slabs_alloc n c s = Some (p, t)" by auto
  then show ?thesis
  proof (cases rule: do_slabs_alloc_cases)
    case refused
    with assms show ?thesis by simp
  next
    case (served ok u)
    have u: "slabs_frame s u \<and> same_geometry s u \<and> limit_ok u"
    proof (cases "(ok, u) = (True, s)")
      case False
      with served(2) have "do_slabs_newslab c s = Some (ok, u)" by blast
      with do_slabs_newslab_account [OF this] do_slabs_newslab_limit [OF this served(1) assms(2,3)]
      show ?thesis by simp
    qed (use assms in simp)
    with served(3-6) assms(2) show ?thesis
      by (meson geometry_ok_frame same_accounts_limit slabs_frame_trans)
  qed
next
  case (SlabFree p n c)
  with assms do_slabs_free_frame [of p n c s t] show ?thesis
    by (auto intro: geometry_ok_frame same_accounts_limit)
next
  case (SlabAdjust c a b)
  with assms(1) have t: "t = upd_class c (\<lambda>p. p\<lparr>cls_requested :=
      cls_requested p - of_nat a + of_nat b\<rparr>) s"
    by (auto simp: slabs_adjust_mem_requested_def split: if_splits)
  then have fr: "slabs_frame s t" "same_geometry s t" by (simp_all add: same_geometry_def)
  moreover have "limit_ok t"
    by (rule same_accounts_limit [OF fr(1) _ _ assms(3)]) (simp_all add: t)
  ultimately show ?thesis using assms(2) geometry_ok_frame by blast
qed

lemma slab_run_limit:
  "slab_run ops s = Some t \<Longrightarrow> geometry_ok s \<Longrightarrow> limit_ok s \<Longrightarrow> limit_ok t \<and> slabs_frame s t"
proof (induction ops arbitrary: s)
  case (Cons op ops)
  then obtain u where u: "slab_step op s = Some u" "slab_run ops u = Some t"
    by (auto split: bind_splits)
  with slab_step_limit [OF u(1) Cons.prems(2,3)] Cons.IH [OF u(2)] show ?case
    by (blast intro: slabs_frame_trans)
qed simp

section \<open>An allocation that needs a page\<close>

lemma do_slabs_alloc_after_page:
  assumes "do_slabs_newslab c s = Some (True, t)" "cls_sl_curr (slabclass s c) = 0"
    "cls_sl_curr (slabclass t c) \<noteq> 0" "it_slabs_clsid (mem t (cls_slots (slabclass t c))) = 0"
    "valid_class c s" "valid_class c t"
  shows "do_slabs_alloc n c s = do_slabs_alloc n c t"
  using assms by (simp add: do_slabs_alloc_def valid_class_def)

lemma do_slabs_alloc_refill:
  assumes R: "slabs_rel s fl" and c: "valid_class c s" and G: "geometry_ok s"
    and fresh: "fresh_page c s fl" and room: "\<not> no_page c s"
    and empty: "fl c = []" and per: "0 < cls_perslab (slabclass s c)"
  shows "\<exists>t. do_slabs_alloc n c s = Some (last (page_chunks c s), t)
     \<and> slabs_rel t (fl(c := rev (butlast (page_chunks c s))))
     \<and> mem_frame (in_page c s) s t \<and> slabs_frame s t \<and> same_geometry s t
     \<and> last (page_chunks c s) \<noteq> NULL \<and> it_slabs_clsid (mem t (last (page_chunks c s))) = 0
     \<and> (\<forall>d. last (page_chunks c s) \<notin> set ((fl(c := rev (butlast (page_chunks c s)))) d))"
proof -
  obtain u where u: "do_slabs_newslab c s = Some (True, u)" "slabs_rel u (fl(c := rev (page_chunks c s)))"
    "slabs_frame s u" "same_geometry s u" "mem_frame (in_page c s) s u"
    using do_slabs_newslab_ok [OF R c G fresh room] empty by auto
  have "page_chunks c s \<noteq> []" using per by (simp add: page_chunks_def chunks_def)
  then have hd: "(fl(c := rev (page_chunks c s))) c
      = last (page_chunks c s) # rev (butlast (page_chunks c s))"
    by (metis append_butlast_last_id fun_upd_same rev.simps(2) rev_rev_ident rev_append rev_singleton_conv append_Cons append_Nil)
  have "freelist u c (last (page_chunks c s) # rev (butlast (page_chunks c s)))"
    using slabs_relD(1) [OF u(2), of c] by (simp only: hd)
  moreover have "cls_sl_curr (slabclass s c) = 0"
    using slabs_relD(1) [OF R, of c] empty by (simp add: freelist_def)
  ultimately have "do_slabs_alloc n c s = do_slabs_alloc n c u"
    using c u(1,3) by (intro do_slabs_alloc_after_page)
      (auto simp: freelist_def free_chunk_def valid_class_frame)
  moreover have "valid_class c u" using c u(3) by (simp add: valid_class_frame)
  ultimately obtain t where t: "do_slabs_alloc n c s = Some (last (page_chunks c s), t)"
    "slabs_rel t (fl(c := rev (butlast (page_chunks c s))))"
    "mem_frame (set (rev (butlast (page_chunks c s)))) u t" "slabs_frame u t" "same_geometry u t"
    "last (page_chunks c s) \<noteq> NULL" "it_slabs_clsid (mem t (last (page_chunks c s))) = 0"
    "\<forall>d. last (page_chunks c s) \<notin> set ((fl(c := rev (butlast (page_chunks c s)))) d)"
    using do_slabs_alloc_pop [OF u(2) _ hd, of n, unfolded fun_upd_upd] by metis
  have "set (rev (butlast (page_chunks c s))) \<subseteq> in_page c s"
    using page_chunks_in_page [OF G c] by (auto dest: in_set_butlastD)
  then have "mem_frame (in_page c s) s t" by (rule mem_frame_trans [OF u(5) t(3) order_refl])
  with t u(3,4) show ?thesis by (blast intro: slabs_frame_trans same_geometry_trans)
qed

lemma do_slabs_alloc_exhausted:
  assumes R: "slabs_rel s fl" and c: "valid_class c s" and room: "no_page c s" and empty: "fl c = []"
  shows "\<exists>t. do_slabs_alloc n c s = Some (NULL, t) \<and> slabs_rel t fl \<and> mem t = mem s
     \<and> slabs_frame s t \<and> same_geometry s t"
proof -
  obtain u where u: "do_slabs_newslab c s = Some (False, u)" "mem u = mem s"
    "\<And>d. cls_slots (slabclass u d) = cls_slots (slabclass s d)"
    "\<And>d. cls_sl_curr (slabclass u d) = cls_sl_curr (slabclass s d)" "slabs_frame s u" "same_geometry s u"
    using do_slabs_newslab_refused [OF room] by blast
  have z: "cls_sl_curr (slabclass s c) = 0"
    using slabs_relD(1) [OF R, of c] empty by (simp add: freelist_def)
  have "slabs_rel u fl" by (rule slabs_rel_cong [OF R u(3,4)]) (simp add: u(2))
  with c z u show ?thesis by (auto simp: do_slabs_alloc_def valid_class_def)
qed

section \<open>Properties\<close>

text \<open>A small allocator for the examples: one class of ten 96-byte chunks in a page.\<close>

definition slabs_boot :: slabs where
  "slabs_boot = \<lparr>mem = (\<lambda>_. zero_item), mallocs = [5000, 10000], current_time = 0,
     process_started = 0, settings = settings_init\<lparr>item_size_max := 1024\<rparr>, stats = stats_init,
     primary_hashtable = [], old_hashtable = [], hashpower = 16, hash_items = 0, expanding = False,
     started_expanding = False, expand_bucket = 0, hash_bulk_move = 1,
     slabclass = (\<lambda>_. empty_class)(1 := empty_class\<lparr>cls_size := 96, cls_perslab := 10\<rparr>),
     mem_limit = 2000, mem_malloced = 0, power_largest = 1, mem_base = NULL, mem_current = NULL,
     mem_avail = 0, slab_rebal = \<lparr>rb_slab_start = NULL, rb_slab_end = NULL, rb_slab_pos = NULL,
       rb_s_clsid = 0, rb_d_clsid = 0, rb_busy_items = 0, rb_done = 0\<rparr>,
     slab_rebalance_signal = 0\<rparr>"

lemma valid_class_boot: "valid_class c slabs_boot \<longleftrightarrow> c = 1"
  by (auto simp: valid_class_def slabs_boot_def POWER_SMALLEST_def)

lemma slabs_boot_rel: "slabs_rel slabs_boot (\<lambda>_. [])"
  by (auto simp: slabs_rel_def freelist_def slabs_boot_def empty_class_def)

lemma slabs_boot_geometry: "geometry_ok slabs_boot"
  by (simp add: geometry_ok_def valid_class_boot) (simp add: slabs_boot_def)

lemma slabs_boot_page: "page_of 1 slabs_boot = 10000" "\<not> no_page 1 slabs_boot"
  by (simp_all add: page_of_def no_page_def over_limit_def grow_slab_list_def memory_allocate_def
      malloc_def slabs_boot_def empty_class_def Let_def)

lemma slabs_boot_fresh: "fresh_page c slabs_boot (\<lambda>_. [])"
  by (simp add: fresh_page_def)

lemma slabs_boot_perslab: "cls_perslab (slabclass slabs_boot 1) = 10"
  "cls_size (slabclass slabs_boot 1) = 96"
  by (simp_all add: slabs_boot_def)

lemma slabs_boot_chunks: "last (page_chunks 1 slabs_boot) = 10864" "length (page_chunks 1 slabs_boot) = 10"
  by (simp_all add: page_chunks_def slabs_boot_page(1) slabs_boot_perslab chunks_def upt_rec del: One_nat_def)

text \<open>
  Property C23.
  For every configuration with a growth factor of at least one and an item size limit that is a
  multiple of eight, the class that \<open>slabs_clsid\<close> picks on the table built by \<open>slabs_init\<close> is
  the smallest one that fits: it returns 0 exactly for the empty object and for objects above
  the limit, and otherwise no valid class that fits has a smaller number or smaller chunks.
\<close>

theorem slabs_clsid_best_fit:
  assumes "1 \<le> fac" "8 dvd item_size_max (settings s)" "0 < item_size_max (settings s)"
    "slabs_init limit (Dbl fac) prealloc initial s = Some t"
  shows "(slabs_clsid n t = 0 \<longleftrightarrow> n = 0 \<or> item_size_max (settings s) < n)
     \<and> (slabs_clsid n t \<noteq> 0 \<longrightarrow> valid_class (slabs_clsid n t) t
          \<and> n \<le> cls_size (slabclass t (slabs_clsid n t))
          \<and> (\<forall>d. valid_class d t \<and> n \<le> cls_size (slabclass t d) \<longrightarrow> slabs_clsid n t \<le> d
               \<and> cls_size (slabclass t (slabs_clsid n t)) \<le> cls_size (slabclass t d)))"
proof -
  from slabs_init_ok [OF _ assms(2-4)] assms(1) have ok: "classes_ok t" and st: "settings t = settings s" by (auto simp: at_least_one_def)
  then have pl: "POWER_SMALLEST \<le> power_largest t" "valid_class (power_largest t) t"
    by (auto simp: classes_ok_def valid_class_def)
  note fit = slabs_clsid_first_fit [OF pl(1), of n]
  have "(\<forall>d. valid_class d t \<longrightarrow> cls_size (slabclass t d) < n) \<longleftrightarrow> item_size_max (settings s) < n"
    using ok pl(2) st by (auto simp: classes_ok_def)
  with fit ok show ?thesis
    unfolding classes_ok_def by (metis linorder_not_less not_le)
qed

theorem slabs_clsid_best_fit_witness:
  "\<exists>t. slabs_init 0 (Dbl (5 / 4)) False None slabs_boot = Some t \<and> slabs_clsid 100 t \<noteq> 0"
proof -
  have "slabs_init 0 (Dbl (5 / 4)) False None slabs_boot \<noteq> None"
    by (simp add: slabs_init_def first_size_def slabs_boot_def settings_init_def sizeof_item_def Let_def split: prod.splits)
  then obtain t where t: "slabs_init 0 (Dbl (5 / 4)) False None slabs_boot = Some t" by blast
  have "slabs_clsid 100 t \<noteq> 0"
    using slabs_clsid_best_fit [OF _ _ _ t, of 100] by (simp add: slabs_boot_def)
  with t show ?thesis by blast
qed

text \<open>
  Property C22.
  Chunks are never handed out twice: as many allocations from a class as it has free chunks, with
  no free in between, all succeed. They return the chunks of the free list in their order, none of them
  null and no two the same, and leave exactly the others on it, none of which was handed out.
\<close>

theorem allocated_chunks_distinct:
  assumes "slabs_rel s fl" "valid_class c s" "k \<le> length (fl c)"
  shows "\<exists>t. get_n (do_slabs_alloc n c) k s = Some (take k (fl c), t) \<and> length (take k (fl c)) = k
     \<and> NULL \<notin> set (take k (fl c)) \<and> distinct (take k (fl c))
     \<and> pool_holds c t (drop k (fl c)) \<and> set (take k (fl c)) \<inter> set (drop k (fl c)) = {}"
proof -
  have h: "pool_holds c s (fl c)" using assms by (auto simp: pool_holds_def)
  obtain t where "get_n (do_slabs_alloc n c) k s = Some (take k (fl c), t)" "pool_holds c t (drop k (fl c))"
    using slab_pool.get_n_holds [OF h assms(3)] by blast
  moreover have "distinct (fl c)" by (rule slab_pool.distinct_law [OF h])
  moreover have "NULL \<notin> set (fl c)"
    using slabs_relD(1) [OF assms(1), of c] by (auto simp: freelist_def dest: dll_NULL_notin)
  ultimately show ?thesis
    using assms(3) set_take_disj_set_drop_if_distinct [of "fl c" k k] by (auto dest: in_set_takeD)
qed

text \<open>
  An allocation from a class with no free chunk carves a new page when \<open>malloc\<close> and the memory
  limit allow one, returns its last chunk and leaves the others free, last first; when no page
  can be had it returns the null pointer and changes no free list and no item.
\<close>

theorem alloc_from_empty_class:
  assumes "slabs_rel s fl" "valid_class c s" "geometry_ok s" "fl c = []"
    "0 < cls_perslab (slabclass s c)" "fresh_page c s fl"
  shows "if no_page c s
     then \<exists>t. do_slabs_alloc n c s = Some (NULL, t) \<and> slabs_rel t fl \<and> mem t = mem s
     else \<exists>t. do_slabs_alloc n c s = Some (last (page_chunks c s), t)
       \<and> slabs_rel t (fl(c := rev (butlast (page_chunks c s))))"
  using do_slabs_alloc_exhausted [OF assms(1,2) _ assms(4), of n]
    do_slabs_alloc_refill [OF assms(1-3,6) _ assms(4,5), of n] by auto

theorem alloc_from_empty_class_witness:
  "\<exists>t. do_slabs_alloc 50 1 slabs_boot = Some (10864, t)"
  using alloc_from_empty_class [OF slabs_boot_rel _ slabs_boot_geometry, of 1 50]
  by (simp add: valid_class_boot slabs_boot_page(2) slabs_boot_fresh slabs_boot_perslab
      slabs_boot_chunks del: One_nat_def) blast

theorem allocated_chunks_distinct_witness:
  "\<exists>s t. get_n (do_slabs_alloc 40 1) 3 (s :: slabs) = Some (take 3 (rev (page_chunks 1 slabs_boot)), t)
     \<and> length (page_chunks 1 slabs_boot) \<ge> 3"
proof -
  have "valid_class 1 slabs_boot" by (simp add: valid_class_boot)
  from do_slabs_newslab_ok [OF slabs_boot_rel this slabs_boot_geometry slabs_boot_fresh slabs_boot_page(2)]
  obtain s where s: "slabs_rel s ((\<lambda>_. [])(1 := rev (page_chunks 1 slabs_boot) @ []))"
    "slabs_frame slabs_boot s" by blast
  have "valid_class 1 s" using s(2) by (simp add: valid_class_frame valid_class_boot)
  then show ?thesis
    using allocated_chunks_distinct [OF s(1), of 1 3 40] by (simp add: slabs_boot_chunks del: One_nat_def) blast
qed

text \<open>
  Property C21.
  The memory limit holds through every sequence of allocations, frees and adjustments: the
  memory taken from the system exceeds the limit by at most one page for every class in use.
\<close>

theorem memory_limit_respected:
  assumes "slab_run ops s = Some t" "geometry_ok s" "mem_limit s \<noteq> 0" "mem_malloced s \<le> mem_limit s"
  shows "mem_malloced t \<le> mem_limit s + item_size_max (settings s) * card (used_classes t)"
proof -
  have "limit_ok s" using assms(4) by (simp add: limit_ok_def trans_le_add1)
  from slab_run_limit [OF assms(1,2) this] assms(3) show ?thesis
    by (auto simp: limit_ok_def slabs_frameD)
qed

theorem memory_limit_respected_witness:
  "\<exists>t. slab_run [SlabAlloc 50 1] slabs_boot = Some t
     \<and> mem_malloced t \<le> 2000 + 1024 * card (used_classes t)"
proof -
  have "valid_class 1 slabs_boot" by (simp add: valid_class_boot)
  from do_slabs_alloc_refill [OF slabs_boot_rel this slabs_boot_geometry slabs_boot_fresh
      slabs_boot_page(2), of 50]
  obtain t where "do_slabs_alloc 50 1 slabs_boot = Some (last (page_chunks 1 slabs_boot), t)"
    by (auto simp: slabs_boot_perslab simp del: One_nat_def)
  then have t: "slab_run [SlabAlloc 50 1] slabs_boot = Some t" by (simp del: One_nat_def)
  from memory_limit_respected [OF t slabs_boot_geometry] t show ?thesis
    by (simp add: slabs_boot_def)
qed

end
