(* ===== verification/Slab_Reassign.thy ===== *)
theory Slab_Reassign
  imports Slabs
begin

text \<open>
  \<open>slabs.c\<close>, the request side of the slab rebalancer: \<open>slabs_reassign\<close>, which the operator, the
  automover and an evicting allocation call to ask for a page to be moved from one class to
  another. The page itself is moved later, in steps (theory \<open>Slab_Move\<close>).
\<close>

datatype reassign_result = REASSIGN_OK | REASSIGN_RUNNING | REASSIGN_BADCLASS | REASSIGN_NOSPARE
  | REASSIGN_SRC_DST_SAME

text \<open>
  \<open>reassign_cur\<close> is the static \<open>cur\<close> of \<open>slabs_reassign_pick_any\<close>; \<open>rebalance_busy\<close> says that
  another thread holds \<open>slabs_rebalance_lock\<close>.
\<close>

record reassign = slabs +
  reassign_cur :: nat
  rebalance_busy :: bool

fun pick_loop :: "nat \<Rightarrow> int \<Rightarrow> 'a reassign_scheme \<Rightarrow> int \<times> 'a reassign_scheme" where
  "pick_loop 0 dst s = (-1, s)"
| "pick_loop (Suc tries) dst s = (let
     cur = reassign_cur s + 1;
     cur = (if power_largest s < cur then POWER_SMALLEST else cur);
     s = s\<lparr>reassign_cur := cur\<rparr> in
   if int cur = dst then pick_loop tries dst s
   else if 1 < cls_slabs (slabclass s cur) then (int cur, s)
   else pick_loop tries dst s)"

definition slabs_reassign_pick_any :: "int \<Rightarrow> 'a reassign_scheme \<Rightarrow> int \<times> 'a reassign_scheme" where
  "slabs_reassign_pick_any dst s = pick_loop (power_largest s - POWER_SMALLEST + 1) dst s"

definition class_in_range :: "int \<Rightarrow> 'a slabs_scheme \<Rightarrow> bool" where
  "class_in_range c s \<longleftrightarrow> \<not> (c < int POWER_SMALLEST \<or> c > int (power_largest s))"

definition do_slabs_reassign :: "int \<Rightarrow> int \<Rightarrow> 'a reassign_scheme \<Rightarrow> reassign_result \<times> 'a reassign_scheme" where
  "do_slabs_reassign src dst s =
     (if slab_rebalance_signal s \<noteq> 0 then (REASSIGN_RUNNING, s)
      else if src = dst then (REASSIGN_SRC_DST_SAME, s)
      else case (if src = -1 then slabs_reassign_pick_any dst s else (src, s)) of (src, s) \<Rightarrow>
        if \<not> class_in_range src s \<or> \<not> class_in_range dst s then (REASSIGN_BADCLASS, s)
        else if cls_slabs (slabclass s (nat src)) < 2 then (REASSIGN_NOSPARE, s)
        else (REASSIGN_OK, s\<lparr>slab_rebal := (slab_rebal s)\<lparr>rb_s_clsid := src, rb_d_clsid := dst\<rparr>,
                slab_rebalance_signal := 1\<rparr>))"

definition slabs_reassign :: "int \<Rightarrow> int \<Rightarrow> 'a reassign_scheme \<Rightarrow> reassign_result \<times> 'a reassign_scheme" where
  "slabs_reassign src dst s =
     (if rebalance_busy s then (REASSIGN_RUNNING, s) else do_slabs_reassign src dst s)"

section \<open>Picking a source\<close>

lemma pick_loop_frame:
  "pick_loop n dst s = (r, t) \<Longrightarrow> \<exists>c. t = s\<lparr>reassign_cur := c\<rparr>"
proof (induction n arbitrary: s dst)
  case 0
  then have "t = s\<lparr>reassign_cur := reassign_cur s\<rparr>" by simp
  then show ?case by blast
next
  case (Suc n)
  show ?case
    using Suc.prems
    by (auto simp: Let_def split: if_splits dest!: Suc.IH)
qed

lemma pick_loop_sound:
  "pick_loop n dst s = (r, t) \<Longrightarrow> POWER_SMALLEST \<le> power_largest s \<Longrightarrow> r \<noteq> -1 \<Longrightarrow>
     class_in_range r s \<and> r \<noteq> dst \<and> 1 < cls_slabs (slabclass s (nat r))"
proof (induction n arbitrary: s)
  case (Suc n)
  define cur where "cur = (if power_largest s < reassign_cur s + 1 then POWER_SMALLEST else reassign_cur s + 1)"
  have cur: "POWER_SMALLEST \<le> cur" "cur \<le> power_largest s"
    using Suc.prems(2) by (auto simp: cur_def POWER_SMALLEST_def)
  let ?u = "s\<lparr>reassign_cur := cur\<rparr>"
  have step: "pick_loop (Suc n) dst s = (if int cur = dst then pick_loop n dst ?u
      else if 1 < cls_slabs (slabclass s cur) then (int cur, ?u) else pick_loop n dst ?u)"
    by (simp add: Let_def cur_def)
  show ?case
  proof (cases "int cur \<noteq> dst \<and> 1 < cls_slabs (slabclass s cur)")
    case True
    with step Suc.prems(1) cur show ?thesis by (auto simp: class_in_range_def)
  next
    case False
    with step Suc.prems(1) have "pick_loop n dst ?u = (r, t)" by (auto split: if_splits)
    from Suc.IH [OF this] Suc.prems(2,3) show ?thesis by (simp add: class_in_range_def)
  qed
qed simp

text \<open>
  The classes that \<open>n\<close> turns of the loop look at, from the current position round the ring.
\<close>

fun ring :: "nat \<Rightarrow> nat \<Rightarrow> nat \<Rightarrow> nat list" where
  "ring 0 m c = []"
| "ring (Suc n) m c = (let c = (if m < c + 1 then POWER_SMALLEST else c + 1) in c # ring n m c)"

lemma ring_straight: "c + n \<le> m \<Longrightarrow> ring n m c = [c + 1..<c + n + 1]"
  by (induction n arbitrary: c) (simp_all add: Let_def upt_conv_Cons del: upt_Suc)

lemma ring_add: "ring (a + b) m c = ring a m c @ ring b m (last (c # ring a m c))"
  by (induction a arbitrary: c) (simp_all add: Let_def)

lemma ring_full:
  assumes "POWER_SMALLEST \<le> m" "c \<le> m"
  shows "{POWER_SMALLEST..m} \<subseteq> set (ring m m c)"
proof -
  have a: "ring (m - c) m c = [c + 1..<m + 1]"
    using ring_straight [of c "m - c" m] assms(2) by (simp del: upt_Suc)
  have l: "last (c # ring (m - c) m c) = m"
    using assms(2) by (cases "c = m") (simp_all add: a)
  have "ring c m m = [1..<c + 1]"
  proof (cases c)
    case (Suc d)
    then have "ring c m m = 1 # ring d m 1" by (simp add: POWER_SMALLEST_def)
    with Suc assms ring_straight [of 1 d m] show ?thesis
      by (simp add: upt_conv_Cons POWER_SMALLEST_def del: upt_Suc)
  qed simp
  then have "ring m m c = [c + 1..<m + 1] @ [1..<c + 1]"
    using ring_add [of "m - c" c m c] assms(2) l a by (simp del: upt_Suc)
  then show ?thesis by (auto simp: POWER_SMALLEST_def simp del: upt_Suc)
qed

lemma pick_loop_complete:
  "pick_loop n dst s = (-1, t) \<Longrightarrow> c \<in> set (ring n (power_largest s) (reassign_cur s)) \<Longrightarrow>
     int c = dst \<or> cls_slabs (slabclass s c) \<le> 1"
proof (induction n arbitrary: s)
  case (Suc n)
  define cur where "cur = (if power_largest s < reassign_cur s + 1 then POWER_SMALLEST else reassign_cur s + 1)"
  let ?u = "s\<lparr>reassign_cur := cur\<rparr>"
  have step: "pick_loop (Suc n) dst s = (if int cur = dst then pick_loop n dst ?u
      else if 1 < cls_slabs (slabclass s cur) then (int cur, ?u) else pick_loop n dst ?u)"
    by (simp add: Let_def cur_def)
  with Suc.prems(1) have here: "int cur = dst \<or> cls_slabs (slabclass s cur) \<le> 1"
    and rest: "pick_loop n dst ?u = (-1, t)"
    by (auto split: if_splits)
  have "c = cur \<or> c \<in> set (ring n (power_largest ?u) (reassign_cur ?u))"
    using Suc.prems(2) by (auto simp: Let_def cur_def)
  with here Suc.IH [OF rest] show ?case by auto
qed simp

section \<open>Property\<close>

definition reassign_boot :: reassign where
  "reassign_boot = slabs.extend (slabs_boot\<lparr>power_largest := 2,
     slabclass := (\<lambda>_. empty_class)(2 := empty_class\<lparr>cls_slabs := 2\<rparr>)\<rparr>)
     \<lparr>reassign_cur = 0, rebalance_busy = False\<rparr>"

text \<open>
  A page move is accepted exactly when it can be carried out. With the rebalancer idle, a request
  for any source (-1) into a valid class succeeds if and only if some other class has at least
  two pages, wherever the search last stopped; the recorded source is then such a class, and a
  refused request leaves the rebalancer idle.
\<close>

theorem reassign_any_source:
  assumes "\<not> rebalance_busy s" "slab_rebalance_signal s = 0" "valid_class d s"
    "reassign_cur s \<le> power_largest s" "slabs_reassign (-1) (int d) s = (r, t)"
  shows "(r = REASSIGN_OK \<longleftrightarrow> (\<exists>c. valid_class c s \<and> c \<noteq> d \<and> 1 < cls_slabs (slabclass s c)))
     \<and> (r = REASSIGN_OK \<longrightarrow> slab_rebalance_signal t = 1 \<and> rb_d_clsid (slab_rebal t) = int d
          \<and> (\<exists>c. rb_s_clsid (slab_rebal t) = int c \<and> valid_class c s \<and> c \<noteq> d
               \<and> 1 < cls_slabs (slabclass s c)))
     \<and> (r \<noteq> REASSIGN_OK \<longrightarrow> slab_rebalance_signal t = 0 \<and> slabclass t = slabclass s)"
proof -
  have pl: "POWER_SMALLEST \<le> power_largest s" "class_in_range (int d) s"
    using assms(3) by (auto simp: valid_class_def class_in_range_def)
  obtain src u where p: "slabs_reassign_pick_any (int d) s = (src, u)" by fastforce
  then obtain c where u: "u = s\<lparr>reassign_cur := c\<rparr>"
    using pick_loop_frame unfolding slabs_reassign_pick_any_def by blast
  have rt: "(r, t) = (if \<not> class_in_range src u then (REASSIGN_BADCLASS, u)
      else if cls_slabs (slabclass u (nat src)) < 2 then (REASSIGN_NOSPARE, u)
      else (REASSIGN_OK, u\<lparr>slab_rebal := (slab_rebal u)\<lparr>rb_s_clsid := src, rb_d_clsid := int d\<rparr>,
              slab_rebalance_signal := 1\<rparr>))"
    using assms(1,2,5) pl(2) p u
    by (auto simp: slabs_reassign_def do_slabs_reassign_def class_in_range_def)
  show ?thesis
  proof (cases "src = -1")
    case True
    have "int c = int d \<or> cls_slabs (slabclass s c) \<le> 1" if "valid_class c s" for c
    proof -
      have "c \<in> set (ring (power_largest s) (power_largest s) (reassign_cur s))"
        using ring_full [OF pl(1) assms(4)] that by (auto simp: valid_class_def)
      moreover have "power_largest s - POWER_SMALLEST + 1 = power_largest s"
        using pl(1) by (simp add: POWER_SMALLEST_def)
      ultimately show ?thesis
        using pick_loop_complete [of _ "int d" s u c] p True
        by (simp add: slabs_reassign_pick_any_def)
    qed
    then have "\<not> (\<exists>c. valid_class c s \<and> c \<noteq> d \<and> 1 < cls_slabs (slabclass s c))"
      by (auto simp: not_less)
    with rt True u assms(2) show ?thesis by (simp add: class_in_range_def)
  next
    case False
    with pick_loop_sound [OF p [unfolded slabs_reassign_pick_any_def] pl(1)]
    have src: "class_in_range src s" "src \<noteq> int d" "1 < cls_slabs (slabclass s (nat src))" by auto
    then have "valid_class (nat src) s" "nat src \<noteq> d" "int (nat src) = src"
      by (auto simp: class_in_range_def valid_class_def POWER_SMALLEST_def)
    moreover from rt src u have "r = REASSIGN_OK" "slab_rebalance_signal t = 1"
      "rb_s_clsid (slab_rebal t) = src" "rb_d_clsid (slab_rebal t) = int d"
      by (auto simp: class_in_range_def)
    ultimately show ?thesis using src(3) by metis
  qed
qed

theorem reassign_any_source_witness:
  "fst (slabs_reassign (-1) 1 reassign_boot) = REASSIGN_OK"
proof -
  obtain r t where rt: "slabs_reassign (-1) 1 reassign_boot = (r, t)" by fastforce
  have "valid_class 1 reassign_boot" "valid_class 2 reassign_boot"
    "cls_slabs (slabclass reassign_boot 2) = 2"
    by (simp_all add: valid_class_def reassign_boot_def slabs.defs POWER_SMALLEST_def)
  with reassign_any_source [of reassign_boot 1 r t] rt show ?thesis
    by (simp add: reassign_boot_def slabs.defs slabs_boot_def) (metis numeral_2_eq_2 one_neq_zero nat.inject One_nat_def lessI)
qed

end
