(* ===== verification/Items.thy ===== *)
theory Items
  imports Slab_Reassign Clib
begin

text \<open>
  \<open>items.c\<close>: allocation, linking, unlinking, lookup and expiry of items, and the least recently
  used queue of every slab class. The item locks of \<open>thread.c\<close> that \<open>do_item_alloc\<close> tries are
  part of the state: the locks this thread holds and those that other threads hold during the
  operation. The arrays \<open>heads\<close>, \<open>tails\<close>, \<open>sizes\<close> and \<open>itemstats\<close> have \<open>LARGEST_ID\<close>
  entries; an access beyond them is a \<open>None\<close>.
\<close>

section \<open>State\<close>

definition ITEM_UPDATE_INTERVAL :: u32 where "ITEM_UPDATE_INTERVAL = 60"
definition LARGEST_ID :: nat where "LARGEST_ID = POWER_LARGEST"

record itemstats_t =
  is_evicted :: u64
  is_evicted_nonzero :: u64
  is_evicted_time :: u32
  is_reclaimed :: u64
  is_outofmemory :: u64
  is_tailrepairs :: u64
  is_expired_unfetched :: u64
  is_evicted_unfetched :: u64

definition zero_itemstats :: itemstats_t where
  "zero_itemstats = \<lparr>is_evicted = 0, is_evicted_nonzero = 0, is_evicted_time = 0,
     is_reclaimed = 0, is_outofmemory = 0, is_tailrepairs = 0, is_expired_unfetched = 0,
     is_evicted_unfetched = 0\<rparr>"

record items = reassign +
  heads :: "nat \<Rightarrow> addr"
  tails :: "nat \<Rightarrow> addr"
  itemstats :: "nat \<Rightarrow> itemstats_t"
  sizes :: "nat \<Rightarrow> u32"
  cas_id :: u64
  item_lock_count :: u32
  held_locks :: "nat set"
  busy_locks :: "nat set"

definition upd_itemstats :: "nat \<Rightarrow> (itemstats_t \<Rightarrow> itemstats_t) \<Rightarrow> 'a items_scheme \<Rightarrow> 'a items_scheme" where
  "upd_itemstats c f s = s\<lparr>itemstats := (itemstats s)(c := f (itemstats s c))\<rparr>"

definition item_stats_reset :: "'a items_scheme \<Rightarrow> 'a items_scheme" where
  "item_stats_reset s = s\<lparr>itemstats := (\<lambda>_. zero_itemstats)\<rparr>"

definition get_cas_id :: "'a items_scheme \<Rightarrow> u64 \<times> 'a items_scheme" where
  "get_cas_id s = (cas_id s + 1, s\<lparr>cas_id := cas_id s + 1\<rparr>)"

section \<open>Item locks\<close>

text \<open>\<open>(hv & hashmask(hashpower)) % item_lock_count\<close>\<close>

definition item_lock_index :: "u32 \<Rightarrow> 'a items_scheme \<Rightarrow> nat" where
  "item_lock_index hv s = hbucket hv (hashpower s) mod unat (item_lock_count s)"

definition item_trylock :: "u32 \<Rightarrow> 'a items_scheme \<Rightarrow> nat option \<times> 'a items_scheme" where
  "item_trylock hv s = (let l = item_lock_index hv s in
     if l \<in> busy_locks s \<or> l \<in> held_locks s then (None, s)
     else (Some l, s\<lparr>held_locks := insert l (held_locks s)\<rparr>))"

text \<open>Unlocking a mutex that this thread does not hold is undefined.\<close>

definition item_trylock_unlock :: "nat \<Rightarrow> 'a items_scheme \<Rightarrow> 'a items_scheme option" where
  "item_trylock_unlock l s =
     (if l \<in> held_locks s then Some (s\<lparr>held_locks := held_locks s - {l}\<rparr>) else None)"

section \<open>The queues\<close>

definition item_link_q :: "addr \<Rightarrow> 'a items_scheme \<Rightarrow> 'a items_scheme option" where
  "item_link_q it s = (let c = unat (it_slabs_clsid (mem s it)); head = heads s c; tail = tails s c in
     if \<not> c < LARGEST_ID \<or> has_flag ITEM_SLABBED (mem s it) then None
     else if it = head \<or> \<not> ((head \<noteq> NULL \<and> tail \<noteq> NULL) \<or> (head = NULL \<and> tail = NULL)) then None
     else let
         s = upd_item it (\<lambda>i. i\<lparr>it_prev := NULL, it_next := head\<rparr>) s;
         s = (if head \<noteq> NULL then upd_item head (\<lambda>i. i\<lparr>it_prev := it\<rparr>) s else s);
         s = s\<lparr>heads := (heads s)(c := it)\<rparr>;
         s = (if tail = NULL then s\<lparr>tails := (tails s)(c := it)\<rparr> else s)
       in Some (s\<lparr>sizes := (sizes s)(c := sizes s c + 1)\<rparr>))"

definition item_unlink_q :: "addr \<Rightarrow> 'a items_scheme \<Rightarrow> 'a items_scheme option" where
  "item_unlink_q it s = (let c = unat (it_slabs_clsid (mem s it));
       next = it_next (mem s it); prev = it_prev (mem s it) in
     if \<not> c < LARGEST_ID then None
     else if heads s c = it \<and> prev \<noteq> NULL then None
     else if tails s c = it \<and> next \<noteq> NULL then None
     else if next = it \<or> prev = it then None
     else let
         s = (if heads s c = it then s\<lparr>heads := (heads s)(c := next)\<rparr> else s);
         s = (if tails s c = it then s\<lparr>tails := (tails s)(c := prev)\<rparr> else s);
         s = (if next \<noteq> NULL then upd_item next (\<lambda>i. i\<lparr>it_prev := prev\<rparr>) s else s);
         s = (if prev \<noteq> NULL then upd_item prev (\<lambda>i. i\<lparr>it_next := next\<rparr>) s else s)
       in Some (s\<lparr>sizes := (sizes s)(c := sizes s c - 1)\<rparr>))"

section \<open>Linking and unlinking\<close>

definition item_free :: "addr \<Rightarrow> 'a items_scheme \<Rightarrow> 'a items_scheme option" where
  "item_free it s = (let ntotal = ITEM_ntotal (mem s it); clsid = unat (it_slabs_clsid (mem s it)) in
     if has_flag ITEM_LINKED (mem s it) \<or> \<not> clsid < LARGEST_ID then None
     else if it = heads s clsid \<or> it = tails s clsid \<or> it_refcount (mem s it) \<noteq> 0 then None
     else do_slabs_free it (unat ntotal) clsid (upd_item it (\<lambda>i. i\<lparr>it_slabs_clsid := 0\<rparr>) s))"

definition do_item_remove :: "addr \<Rightarrow> 'a items_scheme \<Rightarrow> 'a items_scheme option" where
  "do_item_remove it s =
     (if has_flag ITEM_SLABBED (mem s it) then None
      else case refcount_decr it s of (r, s) \<Rightarrow> if r = 0 then item_free it s else Some s)"

text \<open>
  \<open>ITEM_set_cas\<close> evaluates its argument, and so draws a new CAS number, only for an item that
  has room for one.
\<close>

definition set_new_cas :: "addr \<Rightarrow> 'a items_scheme \<Rightarrow> 'a items_scheme" where
  "set_new_cas it s =
     (if has_flag ITEM_CAS (mem s it) then
        case (if use_cas (settings s) then get_cas_id s else (0, s)) of (cas, s) \<Rightarrow>
          upd_item it (ITEM_set_cas cas) s
      else s)"

definition do_item_link :: "addr \<Rightarrow> u32 \<Rightarrow> 'a items_scheme \<Rightarrow> 'a items_scheme option" where
  "do_item_link it hv s =
     (if has_flag (ITEM_LINKED OR ITEM_SLABBED) (mem s it) then None
      else do {
        let s = upd_item it (set_flag ITEM_LINKED) s;
        let s = upd_item it (\<lambda>i. i\<lparr>it_time := current_time s\<rparr>) s;
        let s = upd_stats (\<lambda>t. t\<lparr>curr_bytes := curr_bytes t + ITEM_ntotal (mem s it),
              curr_items := curr_items t + 1, total_items := total_items t + 1\<rparr>) s;
        let s = assoc_insert it hv (set_new_cas it s);
        s \<leftarrow> item_link_q it s;
        Some (snd (refcount_incr it s)) })"

definition do_item_unlink_nolock :: "addr \<Rightarrow> u32 \<Rightarrow> 'a items_scheme \<Rightarrow> 'a items_scheme option" where
  "do_item_unlink_nolock it hv s =
     (if has_flag ITEM_LINKED (mem s it) then do {
        let s = upd_item it (clear_flag ITEM_LINKED) s;
        let s = upd_stats (\<lambda>t. t\<lparr>curr_bytes := curr_bytes t - ITEM_ntotal (mem s it),
              curr_items := curr_items t - 1\<rparr>) s;
        s \<leftarrow> assoc_delete (ITEM_key (mem s it)) hv s;
        s \<leftarrow> item_unlink_q it s;
        do_item_remove it s }
      else Some s)"

text \<open>\<open>do_item_unlink\<close> is the same body under \<open>cache_lock\<close>.\<close>

definition do_item_unlink :: "addr \<Rightarrow> u32 \<Rightarrow> 'a items_scheme \<Rightarrow> 'a items_scheme option" where
  "do_item_unlink it hv s = do_item_unlink_nolock it hv s"

definition do_item_update :: "addr \<Rightarrow> 'a items_scheme \<Rightarrow> 'a items_scheme option" where
  "do_item_update it s =
     (if it_time (mem s it) < current_time s - ITEM_UPDATE_INTERVAL then
        if has_flag ITEM_SLABBED (mem s it) then None
        else if has_flag ITEM_LINKED (mem s it) then do {
          s \<leftarrow> item_unlink_q it s;
          item_link_q it (upd_item it (\<lambda>i. i\<lparr>it_time := current_time s\<rparr>) s) }
        else Some s
      else Some s)"

definition do_item_replace :: "addr \<Rightarrow> addr \<Rightarrow> u32 \<Rightarrow> 'a items_scheme \<Rightarrow> 'a items_scheme option" where
  "do_item_replace it new_it hv s =
     (if has_flag ITEM_SLABBED (mem s it) then None
      else Option.bind (do_item_unlink it hv s) (do_item_link new_it hv))"

section \<open>Allocation\<close>

text \<open>The suffix, its length and the size of the header.\<close>

definition item_make_header :: "u8 \<Rightarrow> u32 \<Rightarrow> u32 \<Rightarrow> string \<times> u8 \<times> u64" where
  "item_make_header nkey flags nbytes = (let
     suffix = '' '' @ dec_int (sint flags) @ '' '' @ dec_int (sint (nbytes - 2)) @ [CHR 0x0D, CHR 0x0A];
     nsuffix = of_nat (length suffix)
   in (suffix, nsuffix, of_nat sizeof_item + ucast nkey + ucast nsuffix + scast nbytes))"

definition item_total :: "nat \<Rightarrow> u32 \<Rightarrow> u32 \<Rightarrow> 'a mc_scheme \<Rightarrow> u64" where
  "item_total nkey flags nbytes s =
     (case item_make_header (of_nat (nkey + 1)) flags nbytes of (suffix, nsuffix, ntotal) \<Rightarrow>
        if use_cas (settings s) then ntotal + 8 else ntotal)"

definition item_size_ok :: "nat \<Rightarrow> u32 \<Rightarrow> u32 \<Rightarrow> 'a slabs_scheme \<Rightarrow> bool" where
  "item_size_ok nkey flags nbytes s \<longleftrightarrow> slabs_clsid (unat (item_total nkey flags nbytes s)) s \<noteq> 0"

text \<open>Flushed or past its expiry time, as \<open>do_item_alloc\<close> tests it.\<close>

definition reclaimable :: "item \<Rightarrow> 'a mc_scheme \<Rightarrow> bool" where
  "reclaimable i s \<longleftrightarrow> it_exptime i \<noteq> 0 \<and> it_exptime i < current_time s
     \<or> it_time i \<le> oldest_live (settings s) \<and> oldest_live (settings s) \<le> current_time s"

text \<open>Take over the memory of a linked item: its accounting, its links and its class mark.\<close>

definition take_over :: "addr \<Rightarrow> u32 \<Rightarrow> u64 \<Rightarrow> 'a items_scheme \<Rightarrow> 'a items_scheme option" where
  "take_over it hv ntotal s = do {
     s \<leftarrow> slabs_adjust_mem_requested (unat (it_slabs_clsid (mem s it)))
           (unat (ITEM_ntotal (mem s it))) (unat ntotal) s;
     s \<leftarrow> do_item_unlink_nolock it hv s;
     Some (upd_item it (\<lambda>i. i\<lparr>it_slabs_clsid := 0\<rparr>) s) }"

definition count_eviction :: "item \<Rightarrow> u32 \<Rightarrow> itemstats_t \<Rightarrow> itemstats_t" where
  "count_eviction i now t = t\<lparr>is_evicted := is_evicted t + 1, is_evicted_time := now - it_time i,
     is_evicted_nonzero := is_evicted_nonzero t + (if it_exptime i \<noteq> 0 then 1 else 0),
     is_evicted_unfetched := is_evicted_unfetched t + (if has_flag ITEM_FETCHED i then 0 else 1)\<rparr>"

definition count_reclaim :: "item \<Rightarrow> itemstats_t \<Rightarrow> itemstats_t" where
  "count_reclaim i t = t\<lparr>is_reclaimed := is_reclaimed t + 1,
     is_expired_unfetched := is_expired_unfetched t + (if has_flag ITEM_FETCHED i then 0 else 1)\<rparr>"

text \<open>
  What the search makes of an unreferenced candidate: the memory it found and whether it called
  the slab allocator in vain.
\<close>

definition try_candidate :: "addr \<Rightarrow> u32 \<Rightarrow> nat \<Rightarrow> u64 \<Rightarrow> 'a items_scheme
    \<Rightarrow> (addr \<times> bool \<times> 'a items_scheme) option" where
  "try_candidate search hv cid ntotal s = (let i = mem s search in
     if reclaimable i s then do {
       s \<leftarrow> take_over search hv ntotal (upd_itemstats cid (count_reclaim i) s);
       Some (search, False, s) }
     else do {
       (it, s) \<leftarrow> do_slabs_alloc (unat ntotal) cid s;
       if it \<noteq> NULL then Some (it, False, s)
       else if evict_to_free (settings s) = 0 then
         Some (NULL, True, upd_itemstats cid (\<lambda>t. t\<lparr>is_outofmemory := is_outofmemory t + 1\<rparr>) s)
       else do {
         s \<leftarrow> take_over search hv ntotal
               (upd_itemstats cid (count_eviction (mem s search) (current_time s)) s);
         Some (search, True, if slab_automove (settings s) = 2
            then snd (slabs_reassign (-1) (int cid) s) else s) } })"

definition unlock_if :: "nat option \<Rightarrow> 'a items_scheme \<Rightarrow> 'a items_scheme option" where
  "unlock_if hold s = (case hold of None \<Rightarrow> Some s | Some l \<Rightarrow> item_trylock_unlock l s)"

text \<open>
  The loop over the tail of the queue. The result is the memory found, whether an allocation was
  tried, and whether the loop ended without stopping at a candidate. \<open>hold_lock\<close> keeps its value
  from one turn to the next, as the variable of the source does.
\<close>

fun alloc_search :: "nat \<Rightarrow> addr \<Rightarrow> nat \<Rightarrow> u64 \<Rightarrow> u32 \<Rightarrow> nat option \<Rightarrow> 'a items_scheme
    \<Rightarrow> (addr \<times> bool \<times> bool \<times> 'a items_scheme) option" where
  "alloc_search 0 search cid ntotal cur_hv hold s = Some (NULL, False, True, s)"
| "alloc_search (Suc tries) search cid ntotal cur_hv hold s =
     (if search = NULL then Some (NULL, False, True, s)
      else let hv = hash_key (ITEM_key (mem s search));
               (hold, s) = (if hv \<noteq> cur_hv then item_trylock hv s else (hold, s)) in
      if hv \<noteq> cur_hv \<and> hold = None
      then alloc_search tries (it_prev (mem s search)) cid ntotal cur_hv hold s
      else case refcount_incr search s of (r, s) \<Rightarrow>
      if r \<noteq> 2 then do {
        let s = snd (refcount_decr search s);
        s \<leftarrow> (if it_time (mem s search) + TAIL_REPAIR_TIME < current_time s then
                do_item_unlink_nolock search hv
                  (upd_item search (\<lambda>i. i\<lparr>it_refcount := 1\<rparr>)
                    (upd_itemstats cid (\<lambda>t. t\<lparr>is_tailrepairs := is_tailrepairs t + 1\<rparr>) s))
              else Some s);
        s \<leftarrow> unlock_if hold s;
        alloc_search tries (it_prev (mem s search)) cid ntotal cur_hv hold s }
      else do {
        (it, tried, s) \<leftarrow> try_candidate search hv cid ntotal s;
        let s = snd (refcount_decr search s);
        s \<leftarrow> unlock_if hold s;
        Some (it, tried, False, s) })"

text \<open>The header of the new item, written by \<open>do_item_alloc\<close> once the memory is found.\<close>

definition init_item :: "string \<Rightarrow> u32 \<Rightarrow> u32 \<Rightarrow> u32 \<Rightarrow> nat \<Rightarrow> 'a mc_scheme \<Rightarrow> item \<Rightarrow> item" where
  "init_item key flags exptime nbytes cid s i = (
     case item_make_header (of_nat (length key + 1)) flags nbytes of (suffix, nsuffix, _) \<Rightarrow>
     i\<lparr>it_next := NULL, it_prev := NULL, it_h_next := NULL, it_slabs_clsid := of_nat cid,
       it_flags := (if use_cas (settings s) then ITEM_CAS else 0), it_nkey := of_nat (length key),
       it_nbytes := nbytes, it_key := key, it_exptime := exptime, it_suffix := suffix,
       it_nsuffix := nsuffix\<rparr>)"

definition do_item_alloc :: "string \<Rightarrow> u32 \<Rightarrow> u32 \<Rightarrow> u32 \<Rightarrow> u32 \<Rightarrow> 'a items_scheme
    \<Rightarrow> (addr \<times> 'a items_scheme) option" where
  "do_item_alloc key flags exptime nbytes cur_hv s = (let
     ntotal = item_total (length key) flags nbytes s;
     cid = slabs_clsid (unat ntotal) s in
   if cid = 0 then Some (NULL, s)
   else if \<not> cid < LARGEST_ID then None
   else do {
     (it, tried, exhausted, s) \<leftarrow> alloc_search 5 (tails s cid) cid ntotal cur_hv None s;
     (it, s) \<leftarrow> (if \<not> tried \<and> exhausted then do_slabs_alloc (unat ntotal) cid s else Some (it, s));
     if it = NULL then
       Some (NULL, upd_itemstats cid (\<lambda>t. t\<lparr>is_outofmemory := is_outofmemory t + 1\<rparr>) s)
     else if it_slabs_clsid (mem s it) \<noteq> 0 \<or> it = heads s cid then None
     else
       (let s = upd_item it (\<lambda>i. i\<lparr>it_refcount := 1\<rparr>) s
        in Some (it, upd_item it (init_item key flags exptime nbytes cid s) s)) })"

section \<open>Lookup\<close>

definition in_moving_page :: "addr \<Rightarrow> 'a slabs_scheme \<Rightarrow> bool" where
  "in_moving_page it s \<longleftrightarrow> slab_rebalance_signal s \<noteq> 0
     \<and> rb_slab_start (slab_rebal s) \<le> it \<and> it < rb_slab_end (slab_rebal s)"

definition drop_item :: "addr \<Rightarrow> u32 \<Rightarrow> 'a items_scheme \<Rightarrow> (addr \<times> 'a items_scheme) option" where
  "drop_item it hv s = do {
     s \<leftarrow> do_item_unlink it hv s;
     s \<leftarrow> do_item_remove it s;
     Some (NULL, s) }"

definition do_item_get :: "string \<Rightarrow> u32 \<Rightarrow> 'a items_scheme \<Rightarrow> (addr \<times> 'a items_scheme) option" where
  "do_item_get key hv s = do {
     it \<leftarrow> assoc_find key hv s;
     if it = NULL then Some (NULL, s)
     else do {
       let s = snd (refcount_incr it s);
       if in_moving_page it s then drop_item it hv s
       else if oldest_live (settings s) \<noteq> 0 \<and> oldest_live (settings s) \<le> current_time s
           \<and> it_time (mem s it) \<le> oldest_live (settings s) then drop_item it hv s
       else if it_exptime (mem s it) \<noteq> 0 \<and> it_exptime (mem s it) \<le> current_time s
         then drop_item it hv s
       else Some (it, upd_item it (set_flag ITEM_FETCHED) s) } }"

definition do_item_touch :: "string \<Rightarrow> u32 \<Rightarrow> u32 \<Rightarrow> 'a items_scheme \<Rightarrow> (addr \<times> 'a items_scheme) option" where
  "do_item_touch key exptime hv s = do {
     (it, s) \<leftarrow> do_item_get key hv s;
     Some (it, if it \<noteq> NULL then upd_item it (\<lambda>i. i\<lparr>it_exptime := exptime\<rparr>) s else s) }"

section \<open>Flushing\<close>

partial_function (option) flush_loop :: "addr \<Rightarrow> 'a items_scheme \<Rightarrow> 'a items_scheme option" where
  "flush_loop iter s =
     (if iter = NULL \<or> it_time (mem s iter) < oldest_live (settings s) then Some s
      else let next = it_next (mem s iter) in
        if has_flag ITEM_SLABBED (mem s iter) then flush_loop next s
        else Option.bind (do_item_unlink_nolock iter (hash_key (ITEM_key (mem s iter))) s)
               (flush_loop next))"

fun flush_queues :: "nat list \<Rightarrow> 'a items_scheme \<Rightarrow> 'a items_scheme option" where
  "flush_queues [] s = Some s"
| "flush_queues (c # cs) s = Option.bind (flush_loop (heads s c) s) (flush_queues cs)"

definition do_item_flush_expired :: "'a items_scheme \<Rightarrow> 'a items_scheme option" where
  "do_item_flush_expired s =
     (if oldest_live (settings s) = 0 then Some s else flush_queues [0..<LARGEST_ID] s)"

section \<open>What the parts leave alone\<close>

definition assoc_frame :: "'a assoc_scheme \<Rightarrow> 'a assoc_scheme \<Rightarrow> bool" where
  "assoc_frame s t \<longleftrightarrow> (\<forall>p. mem t p = (mem s p)\<lparr>it_h_next := it_h_next (mem t p)\<rparr>)
     \<and> t = s\<lparr>mem := mem t, primary_hashtable := primary_hashtable t, old_hashtable := old_hashtable t,
         hash_items := hash_items t, started_expanding := started_expanding t\<rparr>"

lemma assoc_frame_writes:
  "assoc_frame s t \<Longrightarrow> assoc_frame s (upd_item p (\<lambda>i. i\<lparr>it_h_next := v\<rparr>) t)"
  "assoc_frame s t \<Longrightarrow> assoc_frame s (t\<lparr>primary_hashtable := a\<rparr>)"
  "assoc_frame s t \<Longrightarrow> assoc_frame s (t\<lparr>old_hashtable := a\<rparr>)"
  "assoc_frame s t \<Longrightarrow> assoc_frame s (t\<lparr>hash_items := n\<rparr>)"
  "assoc_frame s t \<Longrightarrow> assoc_frame s (t\<lparr>started_expanding := b\<rparr>)"
  "assoc_frame s t \<Longrightarrow> assoc_frame s (write_slot sl v t)"
proof -
  show item: "assoc_frame s t \<Longrightarrow> assoc_frame s (upd_item p (\<lambda>i. i\<lparr>it_h_next := v\<rparr>) t)" for p v t
    by (cases s; cases t) (auto simp: assoc_frame_def upd_item_def; metis item.surjective item.update_convs(3))
  show prim: "assoc_frame s t \<Longrightarrow> assoc_frame s (t\<lparr>primary_hashtable := a\<rparr>)" for a
    by (cases s; cases t) (simp add: assoc_frame_def)
  show old: "assoc_frame s t \<Longrightarrow> assoc_frame s (t\<lparr>old_hashtable := a\<rparr>)" for a
    by (cases s; cases t) (simp add: assoc_frame_def)
  show "assoc_frame s t \<Longrightarrow> assoc_frame s (t\<lparr>hash_items := n\<rparr>)"
    "assoc_frame s t \<Longrightarrow> assoc_frame s (t\<lparr>started_expanding := b\<rparr>)"
    by (cases s; cases t; simp add: assoc_frame_def)+
  show "assoc_frame s t \<Longrightarrow> assoc_frame s (write_slot sl v t)"
    by (cases sl) (simp_all add: item prim old)
qed

lemma assoc_frame_refl [simp]: "assoc_frame s s"
  by (simp add: assoc_frame_def)

lemma assoc_insert_frame: "assoc_frame s (assoc_insert p hv s)"
  by (simp add: assoc_insert_def Let_def assoc_start_expand_def assoc_frame_writes)

lemma assoc_delete_frame: "assoc_delete k hv s = Some t \<Longrightarrow> assoc_frame s t"
  by (auto simp: assoc_delete_def Let_def assoc_frame_writes split: bind_splits if_splits)

text \<open>An item, seen without the pointers that thread it into lists and chains.\<close>

definition unlinked_view :: "item \<Rightarrow> item" where
  "unlinked_view i = i\<lparr>it_next := NULL, it_prev := NULL, it_h_next := NULL\<rparr>"

lemma unlinked_view_eqD:
  assumes "unlinked_view i = unlinked_view j"
  shows "it_time i = it_time j" "it_exptime i = it_exptime j" "it_nbytes i = it_nbytes j"
    "it_refcount i = it_refcount j" "it_nsuffix i = it_nsuffix j" "it_flags i = it_flags j"
    "it_slabs_clsid i = it_slabs_clsid j" "it_nkey i = it_nkey j" "it_cas i = it_cas j"
    "it_key i = it_key j" "it_suffix i = it_suffix j" "it_value i = it_value j"
  using assms by (cases i; cases j; simp add: unlinked_view_def)+

lemma unlinked_view_upd [simp]:
  "unlinked_view (i\<lparr>it_next := a\<rparr>) = unlinked_view i" "unlinked_view (i\<lparr>it_prev := a\<rparr>) = unlinked_view i"
  "unlinked_view (i\<lparr>it_h_next := a\<rparr>) = unlinked_view i"
  by (simp_all add: unlinked_view_def)

lemma unlinked_view_key:
  assumes "unlinked_view i = unlinked_view j"
  shows "ITEM_key i = ITEM_key j" "key_ok i = key_ok j" "has_flag f i = has_flag f j"
    "ITEM_ntotal i = ITEM_ntotal j"
  using unlinked_view_eqD [OF assms] by (simp_all add: ITEM_key_def key_ok_def has_flag_def ITEM_ntotal_def)

section \<open>The queue of a class as a list\<close>

definition queue_item :: "nat \<Rightarrow> item \<Rightarrow> bool" where
  "queue_item c i \<longleftrightarrow> unat (it_slabs_clsid i) = c \<and> has_flag ITEM_LINKED i \<and> \<not> has_flag ITEM_SLABBED i"

definition lru_shape :: "'a items_scheme \<Rightarrow> nat \<Rightarrow> addr list \<Rightarrow> bool" where
  "lru_shape s c xs \<longleftrightarrow> dll (nx s) (pv s) NULL (heads s c) xs
     \<and> tails s c = (if xs = [] then NULL else last xs) \<and> sizes s c = of_nat (length xs)"

definition lru_ok :: "'a items_scheme \<Rightarrow> nat \<Rightarrow> addr list \<Rightarrow> bool" where
  "lru_ok s c xs \<longleftrightarrow> lru_shape s c xs \<and> (\<forall>x \<in> set xs. queue_item c (mem s x))"

lemma lru_shape_cong:
  assumes "lru_shape s c xs" "heads t c = heads s c" "tails t c = tails s c" "sizes t c = sizes s c"
    "\<And>x. x \<in> set xs \<Longrightarrow> it_next (mem t x) = it_next (mem s x) \<and> it_prev (mem t x) = it_prev (mem s x)"
  shows "lru_shape t c xs"
  using assms by (auto simp: lru_shape_def dll_cong [of xs "nx t" "nx s" "pv t" "pv s"])

lemma lru_ok_cong:
  assumes "lru_ok s c xs" "heads t c = heads s c" "tails t c = tails s c" "sizes t c = sizes s c"
    "\<And>x. x \<in> set xs \<Longrightarrow> it_next (mem t x) = it_next (mem s x) \<and> it_prev (mem t x) = it_prev (mem s x)
       \<and> queue_item c (mem t x)"
  shows "lru_ok t c xs"
  using assms lru_shape_cong [of s c xs t] by (simp add: lru_ok_def)

lemma lru_shape_distinct: "lru_shape s c xs \<Longrightarrow> distinct xs"
  unfolding lru_shape_def by (blast intro: dll_distinct)

lemma lru_shape_NULL: "lru_shape s c xs \<Longrightarrow> NULL \<notin> set xs"
  unfolding lru_shape_def by (blast dest: dll_NULL_notin)

lemma lru_shape_head: "lru_shape s c xs \<Longrightarrow> heads s c = (if xs = [] then NULL else hd xs)"
  unfolding lru_shape_def by (cases xs) auto

lemma lru_shape_tail: "lru_shape s c xs \<Longrightarrow> tails s c = (if xs = [] then NULL else last xs)"
  by (simp add: lru_shape_def)

lemma lru_okD: "lru_ok s c xs \<Longrightarrow> lru_shape s c xs" "lru_ok s c xs \<Longrightarrow> x \<in> set xs \<Longrightarrow> queue_item c (mem s x)"
  by (simp_all add: lru_ok_def)

lemmas lru_ok_distinct = lru_shape_distinct [OF lru_okD(1)]
  and lru_ok_head = lru_shape_head [OF lru_okD(1)] and lru_ok_tail = lru_shape_tail [OF lru_okD(1)]

lemma dll_prev: "dll f g q p xs \<Longrightarrow> xs = as @ x # bs \<Longrightarrow> g x = (if as = [] then q else last as)"
  by (induction as arbitrary: q p xs) auto

lemma dll_next: "dll f g q p xs \<Longrightarrow> xs = as @ x # bs \<Longrightarrow> f x = (if bs = [] then NULL else hd bs)"
proof (induction as arbitrary: q p xs)
  case Nil
  then show ?case by (cases bs) auto
qed auto

definition queue_fields :: "'a items_scheme \<Rightarrow> 'a items_scheme \<Rightarrow> bool" where
  "queue_fields s t \<longleftrightarrow> t = s\<lparr>mem := mem t, heads := heads t, tails := tails t, sizes := sizes t\<rparr>"

lemma queue_fields_upds [simp]:
  "queue_fields s s" "queue_fields s t \<Longrightarrow> queue_fields s (upd_item p f t)"
  "queue_fields s t \<Longrightarrow> queue_fields s (t\<lparr>heads := h\<rparr>)"
  "queue_fields s t \<Longrightarrow> queue_fields s (t\<lparr>tails := h\<rparr>)"
  "queue_fields s t \<Longrightarrow> queue_fields s (t\<lparr>sizes := z\<rparr>)"
  by (cases s; cases t; simp add: queue_fields_def upd_item_def)+

text \<open>What \<open>item_link_q\<close> and \<open>item_unlink_q\<close> may change.\<close>

definition queue_frame :: "nat \<Rightarrow> addr set \<Rightarrow> 'a items_scheme \<Rightarrow> 'a items_scheme \<Rightarrow> bool" where
  "queue_frame c D s t \<longleftrightarrow> (\<forall>p. p \<notin> D \<longrightarrow> mem t p = mem s p)
     \<and> (\<forall>p. unlinked_view (mem t p) = unlinked_view (mem s p) \<and> it_h_next (mem t p) = it_h_next (mem s p))
     \<and> (\<forall>d. d \<noteq> c \<longrightarrow> heads t d = heads s d \<and> tails t d = tails s d \<and> sizes t d = sizes s d)
     \<and> queue_fields s t"

lemma queue_item_view: "unlinked_view i = unlinked_view j \<Longrightarrow> queue_item c i = queue_item c j"
  using unlinked_view_eqD(7) unlinked_view_key(3) unfolding queue_item_def by metis

lemma item_link_q_ok:
  assumes L: "lru_shape s c xs" and it: "it \<noteq> NULL" "it \<notin> set xs"
    "unat (it_slabs_clsid (mem s it)) = c \<and> \<not> has_flag ITEM_SLABBED (mem s it)" "c < LARGEST_ID"
  shows "\<exists>t. item_link_q it s = Some t \<and> lru_shape t c (it # xs) \<and> queue_frame c (insert it (set xs)) s t"
proof -
  have c: "unat (it_slabs_clsid (mem s it)) = c" "\<not> has_flag ITEM_SLABBED (mem s it)"
    using it(3) by simp_all
  have h: "heads s c = (if xs = [] then NULL else hd xs)" and tl: "tails s c = (if xs = [] then NULL else last xs)"
    using lru_shape_head [OF L] lru_shape_tail [OF L] .
  have nn: "x \<in> set xs \<Longrightarrow> x \<noteq> NULL" for x using lru_shape_NULL [OF L] by (auto intro!: gr0I)
  have ne: "it \<noteq> heads s c" "it \<noteq> tails s c"
    using it(1,2) by (auto simp: h tl)
  have tz: "tails s c = NULL \<longleftrightarrow> heads s c = NULL"
    using nn [of "hd xs"] nn [of "last xs"] by (cases "xs = []") (simp_all add: h tl)
  have "item_link_q it s \<noteq> None"
    using it(4) ne(1) by (auto simp: item_link_q_def Let_def c tz simp del: neq0_conv bot_nat_0.not_eq_extremum)
  then obtain t where t: "item_link_q it s = Some t" by blast
  have m: "mem t = (let m = (mem s)(it := (mem s it)\<lparr>it_prev := NULL, it_next := heads s c\<rparr>) in
      if heads s c \<noteq> NULL then m(heads s c := (m (heads s c))\<lparr>it_prev := it\<rparr>) else m)"
    using t it(4) ne(1) by (auto simp: item_link_q_def Let_def c tz simp del: neq0_conv bot_nat_0.not_eq_extremum)
  have ht: "heads t = (heads s)(c := it)" "sizes t = (sizes s)(c := sizes s c + 1)"
    "tails t = (if heads s c = NULL then (tails s)(c := it) else tails s)"
    using t it(4) ne(1) by (auto simp: item_link_q_def Let_def upd_item_def c tz simp del: neq0_conv bot_nat_0.not_eq_extremum)
  have rest: "queue_fields s t"
    using t it(4) ne(1) by (auto simp: item_link_q_def Let_def c tz simp del: neq0_conv bot_nat_0.not_eq_extremum)
  have view: "unlinked_view (mem t p) = unlinked_view (mem s p)"
    "it_h_next (mem t p) = it_h_next (mem s p)" for p
    by (auto simp: m Let_def)
  have out: "mem t p = mem s p" if "p \<notin> insert it (set xs)" for p
    using that h by (auto simp: m Let_def)
  have frame: "queue_frame c (insert it (set xs)) s t"
    unfolding queue_frame_def using view out rest ht by auto
  have "dll (nx t) (pv t) NULL it (it # xs)"
  proof (cases xs)
    case Nil
    with it(1) h show ?thesis by (simp add: m)
  next
    case (Cons y ys)
    then have y: "heads s c = y" "y \<noteq> NULL" "y \<noteq> it" "it \<notin> set ys" "y \<notin> set ys"
      using h nn it(2) lru_shape_distinct [OF L] by auto
    then have "mem t z = mem s z" if "z \<in> set ys" for z using that by (auto simp: m)
    moreover have "dll (nx s) (pv s) y (it_next (mem s y)) ys"
      using L Cons by (auto simp: lru_shape_def)
    ultimately have "dll (nx t) (pv t) y (it_next (mem s y)) ys"
      by (auto simp: dll_cong [of ys "nx t" "nx s" "pv t" "pv s"])
    then show ?thesis using Cons it(1) y by (auto simp: m)
  qed
  then have "lru_shape t c (it # xs)"
    using L h tl nn by (auto simp: lru_shape_def ht)
  with t frame show ?thesis by blast
qed

lemma dll_remove:
  "dll f g q p (as @ x # bs) \<Longrightarrow> distinct (as @ x # bs) \<Longrightarrow>
     dll (\<lambda>y. if as \<noteq> [] \<and> y = last as then f x else f y)
       (\<lambda>y. if bs \<noteq> [] \<and> y = hd bs then g x else g y) q (if as = [] then f x else p) (as @ bs)"
proof (induction as arbitrary: q p)
  case Nil
  show ?case
  proof (cases bs)
    case (Cons b bs')
    with Nil have "dll f g b (f b) bs'" "b \<notin> set bs'" "f x = b" "b \<noteq> NULL" "g x = q" by auto
    moreover from this(1,2) have "dll f (\<lambda>y. if y = b then g x else g y) b (f b) bs'"
      by (subst dll_cong [where f' = f and g' = g]) auto
    ultimately show ?thesis using Cons by simp
  qed (use Nil in simp)
next
  case (Cons a as)
  let ?g = "\<lambda>y. if bs \<noteq> [] \<and> y = hd bs then g x else g y"
  from Cons.prems have a: "p = a" "a \<noteq> NULL" "g a = q" "a \<notin> set (as @ x # bs)"
    "dll f g a (f a) (as @ x # bs)" "distinct (as @ x # bs)" by auto
  note IH = Cons.IH [OF a(5,6)]
  have "?g a = q" using a(3,4) by (cases bs) auto
  moreover have "dll (\<lambda>y. if y = last (a # as) then f x else f y) ?g a
      (if as = [] then f x else f a) (as @ bs)"
    using IH a(4) by (subst dll_cong [where
      f' = "\<lambda>y. if as \<noteq> [] \<and> y = last as then f x else f y" and g' = ?g]) auto
  ultimately show ?case using a(1,2,4) by (cases as) auto
qed

lemma item_unlink_q_ok:
  assumes L: "lru_shape s c (as @ it # bs)" and cl: "unat (it_slabs_clsid (mem s it)) = c"
    and c: "c < LARGEST_ID"
  shows "\<exists>t. item_unlink_q it s = Some t \<and> lru_shape t c (as @ bs)
     \<and> queue_frame c (set (as @ bs)) s t"
proof -
  let ?n = "it_next (mem s it)" and ?p = "it_prev (mem s it)"
  have dll: "dll (nx s) (pv s) NULL (heads s c) (as @ it # bs)" using L by (simp add: lru_shape_def)
  have dist: "distinct (as @ it # bs)" by (rule lru_shape_distinct [OF L])
  have nn: "x \<in> set (as @ it # bs) \<Longrightarrow> x \<noteq> NULL" for x
    using lru_shape_NULL [OF L] by (auto intro!: gr0I)
  have n: "?n = (if bs = [] then NULL else hd bs)" and p: "?p = (if as = [] then NULL else last as)"
    using dll_next [OF dll refl] dll_prev [OF dll refl] by auto
  have hd: "heads s c = (if as = [] then it else hd as)"
    using lru_shape_head [OF L] by (cases as) auto
  have tl: "tails s c = (if bs = [] then it else last bs)"
    using lru_shape_tail [OF L] by (cases bs) auto
  have head: "heads s c = it \<longleftrightarrow> as = []" and tail: "tails s c = it \<longleftrightarrow> bs = []"
    using dist by (auto simp: hd tl dest: last_in_set)
  have ne: "?n \<noteq> it" "?p \<noteq> it" "?n = NULL \<longleftrightarrow> bs = []" "?p = NULL \<longleftrightarrow> as = []"
    using dist nn by (auto simp: n p dest: last_in_set)
  have np: "bs \<noteq> [] \<Longrightarrow> as \<noteq> [] \<Longrightarrow> ?n \<noteq> ?p"
    using dist by (auto simp: n p) (metis disjoint_iff hd_in_set last_in_set)
  obtain t where t: "item_unlink_q it s = Some t"
    using c cl head tail ne by (auto simp: item_unlink_q_def Let_def)
  have m: "mem t = (let m = (if ?n \<noteq> NULL then (mem s)(?n := (mem s ?n)\<lparr>it_prev := ?p\<rparr>) else mem s)
      in if ?p \<noteq> NULL then m(?p := (m ?p)\<lparr>it_next := ?n\<rparr>) else m)"
    using t c cl head tail ne by (auto simp: item_unlink_q_def Let_def split: if_splits)
  have ht: "heads t = (if as = [] then (heads s)(c := ?n) else heads s)"
    "tails t = (if bs = [] then (tails s)(c := ?p) else tails s)"
    "sizes t = (sizes s)(c := sizes s c - 1)"
    using t c cl head tail ne
    by (auto simp: item_unlink_q_def Let_def upd_item_def split: if_splits)
  have rest: "queue_fields s t"
    using t c cl head tail ne
    by (auto simp: item_unlink_q_def Let_def split: if_splits)
  have view: "unlinked_view (mem t p) = unlinked_view (mem s p)"
    "it_h_next (mem t p) = it_h_next (mem s p)" for p
    by (auto simp: m Let_def)
  have out: "mem t q = mem s q" if "q \<notin> set (as @ bs)" for q
    using that n p by (auto simp: m Let_def)
  have nxt: "nx t y = (if as \<noteq> [] \<and> y = last as then nx s it else nx s y)" for y
    using ne p by (auto simp: m Let_def)
  have prv: "pv t y = (if bs \<noteq> [] \<and> y = hd bs then pv s it else pv s y)" for y
    using ne n np by (auto simp: m Let_def)
  have "dll (nx t) (pv t) NULL (heads t c) (as @ bs)"
    using dll_remove [OF dll dist]
    unfolding nxt prv by (simp only: ht fun_upd_same if_distrib [of "\<lambda>h. h c"])
  moreover have "tails t c = (if as @ bs = [] then NULL else last (as @ bs))"
    using tl by (auto simp: ht p)
  ultimately have "lru_shape t c (as @ bs)"
    using L by (auto simp: lru_shape_def ht)
  moreover have "queue_frame c (set (as @ bs)) s t"
    unfolding queue_frame_def using view out rest ht by auto
  ultimately show ?thesis using t by blast
qed

section \<open>The cache as a whole\<close>

text \<open>
  An allocated item: \<open>l\<close> says whether it is linked, \<open>r\<close> how many references its users hold.
  Its class mark is a class with a queue, and its counter counts the users and the link.
\<close>

definition live :: "'a items_scheme \<Rightarrow> addr \<Rightarrow> bool \<Rightarrow> nat \<Rightarrow> bool" where
  "live s p l r \<longleftrightarrow> p \<noteq> NULL \<and> valid_class (unat (it_slabs_clsid (mem s p))) s
     \<and> unat (it_slabs_clsid (mem s p)) < LARGEST_ID \<and> \<not> has_flag ITEM_SLABBED (mem s p)
     \<and> (has_flag ITEM_LINKED (mem s p) \<longleftrightarrow> l)
     \<and> it_refcount (mem s p) = of_nat (r + of_bool l) \<and> r + of_bool l < 65536"

text \<open>
  \<open>cache_rel s m lru fl refs\<close>: the table maps the keys of \<open>m\<close>, the queue of each class is
  \<open>lru\<close>, the free chunks are \<open>fl\<close>, and \<open>refs\<close> counts the references that users hold. The
  queues hold exactly the linked items, and the global counters are theirs.
\<close>

definition cache_rel :: "'a items_scheme \<Rightarrow> (string \<rightharpoonup> addr) \<Rightarrow> (nat \<Rightarrow> addr list) \<Rightarrow> (nat \<Rightarrow> addr list)
    \<Rightarrow> (addr \<Rightarrow> nat) \<Rightarrow> bool" where
  "cache_rel s m lru fl refs \<longleftrightarrow> assoc_rel s m \<and> slabs_rel s fl \<and> (\<forall>c. lru_ok s c (lru c))
     \<and> (\<forall>p. p \<in> ran m \<longleftrightarrow> (\<exists>c. p \<in> set (lru c)))
     \<and> (\<forall>p. p \<in> ran m \<or> 0 < refs p \<longrightarrow> live s p (p \<in> ran m) (refs p))
     \<and> curr_items (stats s) = of_nat (card (ran m))
     \<and> curr_bytes (stats s) = (\<Sum>p\<in>ran m. ITEM_ntotal (mem s p))"

lemma cache_relD:
  assumes "cache_rel s m lru fl refs"
  shows "assoc_rel s m" "slabs_rel s fl" "lru_ok s c (lru c)" "p \<in> ran m \<longleftrightarrow> (\<exists>c. p \<in> set (lru c))"
    "p \<in> ran m \<or> 0 < refs p \<Longrightarrow> live s p (p \<in> ran m) (refs p)"
    "curr_items (stats s) = of_nat (card (ran m))"
    "curr_bytes (stats s) = (\<Sum>p\<in>ran m. ITEM_ntotal (mem s p))"
  using assms unfolding cache_rel_def by blast+

lemma live_not_free:
  assumes "slabs_rel s fl" "live s p l r"
  shows "p \<notin> set (fl d)"
proof
  assume "p \<in> set (fl d)"
  with assms(1) have "it_slabs_clsid (mem s p) = 0"
    by (auto simp: slabs_rel_def freelist_def free_chunk_def)
  with assms(2) show False by (simp add: live_def valid_class_def POWER_SMALLEST_def)
qed

lemma cache_rel_not_free:
  assumes "cache_rel s m lru fl refs" "p \<in> ran m \<or> 0 < refs p"
  shows "p \<notin> set (fl d)"
  using live_not_free [OF cache_relD(2,5) [OF assms(1)]] assms by blast

lemma cache_rel_queue:
  assumes R: "cache_rel s m lru fl refs" and p: "p \<in> ran m"
  shows "p \<in> set (lru (unat (it_slabs_clsid (mem s p))))"
    "p \<in> set (lru d) \<Longrightarrow> d = unat (it_slabs_clsid (mem s p))"
proof -
  have *: "d = unat (it_slabs_clsid (mem s p))" if "p \<in> set (lru d)" for d
    using cache_relD(3) [OF R, of d] that by (auto simp: lru_ok_def queue_item_def)
  show "p \<in> set (lru d) \<Longrightarrow> d = unat (it_slabs_clsid (mem s p))" by (rule *)
  obtain d where "p \<in> set (lru d)" using cache_relD(4) [OF R] p by blast
  with * show "p \<in> set (lru (unat (it_slabs_clsid (mem s p))))" by blast
qed

lemma cache_rel_finite: "cache_rel s m lru fl refs \<Longrightarrow> finite (ran m)"
  by (blast intro: finite_ran assoc_relD(2) cache_relD(1))

text \<open>
  A state that agrees on everything the relation reads: the general rule for updates of an item
  that leave its key, its size and its links alone.
\<close>

definition same_tables :: "'a items_scheme \<Rightarrow> 'a items_scheme \<Rightarrow> bool" where
  "same_tables s t \<longleftrightarrow> primary_hashtable t = primary_hashtable s \<and> old_hashtable t = old_hashtable s
     \<and> hashpower t = hashpower s \<and> expanding t = expanding s \<and> expand_bucket t = expand_bucket s
     \<and> hash_items t = hash_items s
     \<and> heads t = heads s \<and> tails t = tails s \<and> sizes t = sizes s
     \<and> curr_items (stats t) = curr_items (stats s) \<and> curr_bytes (stats t) = curr_bytes (stats s)"

definition same_item :: "item \<Rightarrow> item \<Rightarrow> bool" where
  "same_item i j \<longleftrightarrow> it_next j = it_next i \<and> it_prev j = it_prev i \<and> it_h_next j = it_h_next i
     \<and> it_nkey j = it_nkey i \<and> it_key j = it_key i \<and> it_slabs_clsid j = it_slabs_clsid i
     \<and> has_flag ITEM_LINKED j = has_flag ITEM_LINKED i \<and> has_flag ITEM_SLABBED j = has_flag ITEM_SLABBED i
     \<and> ITEM_ntotal j = ITEM_ntotal i"

lemma same_item_refl [simp]: "same_item i i"
  by (simp add: same_item_def)

lemma same_tables_refl [simp]: "same_tables s s"
  by (simp add: same_tables_def)

lemma cache_rel_cong:
  assumes R: "cache_rel s m lru fl refs" and T: "same_tables s t"
    and items: "\<And>p. p \<in> ran m \<Longrightarrow> same_item (mem s p) (mem t p)"
    and free: "slabs_rel t fl'"
    and lv: "\<And>p. p \<in> ran m \<or> 0 < refs' p \<Longrightarrow> live t p (p \<in> ran m) (refs' p)"
  shows "cache_rel t m lru fl' refs'"
proof -
  have key: "key_at t p = key_at s p \<and> key_ok (mem t p) = key_ok (mem s p)" if "p \<in> ran m" for p
    using items [OF that] by (simp add: same_item_def ITEM_key_def key_ok_def)
  have ok: "key_ok (mem s p)" if "p \<in> ran m" for p
    using assoc_relD(4) [OF cache_relD(1) [OF R]] that by (auto simp: ran_def)
  have "assoc_rel t m"
    by (rule assoc_rel_cong [OF cache_relD(1) [OF R]])
      (use T items key ok in \<open>auto simp: same_tables_def same_item_def\<close>)
  moreover have "lru_ok t c (lru c)" for c
  proof (rule lru_ok_cong [OF cache_relD(3) [OF R, of c]])
    fix x assume x: "x \<in> set (lru c)"
    then have "x \<in> ran m" using cache_relD(4) [OF R] by blast
    from items [OF this] cache_relD(3) [OF R, of c] x
    show "it_next (mem t x) = it_next (mem s x) \<and> it_prev (mem t x) = it_prev (mem s x)
       \<and> queue_item c (mem t x)"
      by (auto simp: same_item_def lru_ok_def queue_item_def)
  qed (use T in \<open>auto simp: same_tables_def\<close>)
  moreover have "(\<Sum>p\<in>ran m. ITEM_ntotal (mem t p)) = (\<Sum>p\<in>ran m. ITEM_ntotal (mem s p))"
    using items by (intro sum.cong) (auto simp: same_item_def)
  ultimately show ?thesis
    using lv free cache_relD(4,6,7) [OF R] T by (auto simp: cache_rel_def same_tables_def)
qed

section \<open>References\<close>

lemma same_tables_upd_item [simp]: "same_tables s (upd_item p f s)"
  by (simp add: same_tables_def upd_item_def)

lemma cache_rel_upd_item:
  assumes R: "cache_rel s m lru fl refs" and f: "same_item (mem s p) (f (mem s p))"
    and p: "p \<in> ran m \<or> 0 < refs p"
    and lv: "p \<in> ran m \<or> 0 < r \<Longrightarrow> live (upd_item p f s) p (p \<in> ran m) r"
  shows "cache_rel (upd_item p f s) m lru fl (refs(p := r))"
proof (rule cache_rel_cong [OF R same_tables_upd_item])
  show "slabs_rel (upd_item p f s) fl"
    by (rule slabs_rel_cong [OF cache_relD(2) [OF R]])
      (use cache_rel_not_free [OF R p] in auto)
  show "live (upd_item p f s) q (q \<in> ran m) ((refs(p := r)) q)" if "q \<in> ran m \<or> 0 < (refs(p := r)) q" for q
    using that lv cache_relD(5) [OF R, of q] by (cases "q = p") (auto simp: live_def valid_class_def)
qed (use f in simp)

lemma has_flag_refcount [simp]: "has_flag f (i\<lparr>it_refcount := r\<rparr>) = has_flag f i"
  by (simp add: has_flag_def)

lemma same_item_refcount [simp]: "same_item i (i\<lparr>it_refcount := r\<rparr>)"
  by (simp add: same_item_def ITEM_ntotal_def has_flag_def)

lemma refcount_incr_rel:
  assumes R: "cache_rel s m lru fl refs" and p: "p \<in> ran m \<or> 0 < refs p" and b: "refs p + 2 < 65536"
  shows "cache_rel (snd (refcount_incr p s)) m lru fl (refs(p := refs p + 1))"
  unfolding refcount_incr_def Let_def snd_conv
proof (rule cache_rel_upd_item [OF R _ p])
  from cache_relD(5) [OF R p] b
  show "live (upd_item p (\<lambda>i. i\<lparr>it_refcount := it_refcount (mem s p) + 1\<rparr>) s) p (p \<in> ran m) (refs p + 1)"
    by (auto simp: live_def valid_class_def add_ac)
qed simp

lemma refcount_decr_rel:
  assumes R: "cache_rel s m lru fl refs" and p: "0 < refs p"
  shows "cache_rel (snd (refcount_decr p s)) m lru fl (refs(p := refs p - 1))"
  unfolding refcount_decr_def Let_def snd_conv
proof (rule cache_rel_upd_item [OF R])
  from cache_relD(5) [OF R, of p] p
  show "live (upd_item p (\<lambda>i. i\<lparr>it_refcount := it_refcount (mem s p) - 1\<rparr>) s) p (p \<in> ran m) (refs p - 1)"
    by (cases "refs p") (auto simp: live_def valid_class_def)
qed (use p in simp_all)

lemma refcount_decr_value:
  assumes R: "cache_rel s m lru fl refs" and p: "0 < refs p"
  shows "fst (refcount_decr p s) = 0 \<longleftrightarrow> p \<notin> ran m \<and> refs p = 1"
proof -
  from cache_relD(5) [OF R, of p] p have r: "it_refcount (mem s p) = of_nat (refs p + of_bool (p \<in> ran m))"
    "refs p + of_bool (p \<in> ran m) < 65536" by (auto simp: live_def)
  then obtain n where n: "refs p = Suc n" using p by (cases "refs p") auto
  have v: "fst (refcount_decr p s) = of_nat (n + of_bool (p \<in> ran m))"
    by (simp add: refcount_decr_def Let_def r(1) n)
  have z: "(of_nat k :: u16) = 0 \<longleftrightarrow> k = 0" if "k < 65536" for k
    using that by (auto simp: word_of_nat_eq_0_iff dest: dvd_imp_le)
  have "fst (refcount_decr p s) = 0 \<longleftrightarrow> n + of_bool (p \<in> ran m) = 0"
    unfolding v by (rule z) (use r(2) n in simp)
  then show ?thesis using n by auto
qed

lemma cache_rel_store:
  assumes R: "cache_rel s m lru fl refs" and p: "p \<notin> ran m" "refs p = 0" "\<And>d. p \<notin> set (fl d)"
  shows "cache_rel (upd_item p f s) m lru fl refs"
proof (rule cache_rel_cong [OF R same_tables_upd_item])
  show "slabs_rel (upd_item p f s) fl"
    by (rule slabs_rel_cong [OF cache_relD(2) [OF R]]) (use p(3) in auto)
  show "live (upd_item p f s) q (q \<in> ran m) (refs q)" if "q \<in> ran m \<or> 0 < refs q" for q
    using that p(1,2) cache_relD(5) [OF R, of q] by (cases "q = p") (auto simp: live_def valid_class_def)
qed (use p(1) in auto)

text \<open>
  The fields that the operations on items never change: all but the store, the lists and tables
  themselves, the counters and the CAS number.
\<close>

definition items_frame :: "'a items_scheme \<Rightarrow> 'a items_scheme \<Rightarrow> bool" where
  "items_frame s t \<longleftrightarrow> t = s\<lparr>mem := mem t, mallocs := mallocs t, stats := stats t,
     primary_hashtable := primary_hashtable t, old_hashtable := old_hashtable t,
     hash_items := hash_items t, started_expanding := started_expanding t, slabclass := slabclass t,
     mem_malloced := mem_malloced t, mem_current := mem_current t, mem_avail := mem_avail t,
     heads := heads t, tails := tails t, itemstats := itemstats t, sizes := sizes t, cas_id := cas_id t\<rparr>"

lemma items_frame_refl [simp]: "items_frame s s"
  by (simp add: items_frame_def)

lemma items_frame_trans: "items_frame s t \<Longrightarrow> items_frame t u \<Longrightarrow> items_frame s u"
  unfolding items_frame_def by (cases s; cases t; cases u) simp

lemma items_frameD:
  assumes "items_frame s t"
  shows "settings t = settings s" "current_time t = current_time s" "power_largest t = power_largest s"
    "hashpower t = hashpower s" "item_lock_count t = item_lock_count s" "held_locks t = held_locks s"
    "busy_locks t = busy_locks s" "slab_rebal t = slab_rebal s" "mem_limit t = mem_limit s"
    "slab_rebalance_signal t = slab_rebalance_signal s" "expanding t = expanding s"
    "expand_bucket t = expand_bucket s"
  using assms by (cases s; cases t; simp add: items_frame_def)+

lemma slabs_items_frame: "slabs_frame s t \<Longrightarrow> items_frame s t"
  for s :: "'a items_scheme" by (cases s; cases t) (simp add: items_frame_def slabs_frame_def)

lemma assoc_items_frame: "assoc_frame s t \<Longrightarrow> items_frame s t"
  for s :: "'a items_scheme" by (cases s; cases t) (auto simp: items_frame_def assoc_frame_def)

lemma queue_items_frame: "queue_fields s t \<Longrightarrow> items_frame s t"
  by (cases s; cases t) (simp add: items_frame_def queue_fields_def)

lemma items_frame_upds [simp]:
  "items_frame s (upd_item p f s)" "items_frame s (upd_stats g s)" "items_frame s (upd_itemstats c h s)"
  "items_frame s (upd_class c k s)" "items_frame s (set_new_cas p s)"
  "items_frame s (snd (refcount_incr p s))" "items_frame s (snd (refcount_decr p s))"
  by (cases s; auto simp: items_frame_def upd_item_def upd_stats_def upd_itemstats_def upd_class_def
      set_new_cas_def get_cas_id_def refcount_incr_def refcount_decr_def Let_def)+

text \<open>What the bodies of items other than \<open>p\<close> keep.\<close>

definition others_kept :: "addr \<Rightarrow> addr set \<Rightarrow> 'a mc_scheme \<Rightarrow> 'a mc_scheme \<Rightarrow> bool" where
  "others_kept p F s t \<longleftrightarrow> (\<forall>q. q \<noteq> p \<and> q \<notin> F \<longrightarrow> unlinked_view (mem t q) = unlinked_view (mem s q))"

lemma others_kept_trans: "others_kept p F s t \<Longrightarrow> others_kept p F t u \<Longrightarrow> others_kept p F s u"
  by (simp add: others_kept_def)

section \<open>Releasing an item\<close>

lemma item_free_rel:
  assumes R: "cache_rel s m lru fl refs" and p: "p \<notin> ran m" "refs p = 0" "live s p False r"
    and z: "it_refcount (mem s p) = 0" and nf: "\<And>d. p \<notin> set (fl d)"
  defines "c \<equiv> unat (it_slabs_clsid (mem s p))"
  shows "\<exists>t. item_free p s = Some t \<and> cache_rel t m lru (fl(c := p # fl c)) refs \<and> items_frame s t
     \<and> same_geometry s t \<and> mem_frame (insert p (set (fl c))) s t"
proof -
  let ?u = "upd_item p (\<lambda>i. i\<lparr>it_slabs_clsid := 0\<rparr>) s"
  have c: "c < LARGEST_ID" "valid_class c s" "p \<noteq> NULL" "\<not> has_flag ITEM_LINKED (mem s p)"
    using p(3) by (auto simp: live_def c_def)
  have u: "cache_rel ?u m lru fl refs" by (rule cache_rel_store [OF R p(1,2) nf])
  obtain t where t: "do_slabs_free p (unat (ITEM_ntotal (mem s p))) c ?u = Some t"
    "slabs_rel t (fl(c := p # fl c))" "mem_frame (insert p (set (fl c))) ?u t"
    using do_slabs_free_rel [OF cache_relD(2) [OF u] _ c(3) nf] c(2) by (auto simp: valid_class_def)
  note fr = do_slabs_free_frame [OF t(1)]
  have notin: "p \<notin> set (lru c)" using cache_relD(4) [OF R] p(1) by blast
  have "p \<noteq> heads s c" "p \<noteq> tails s c"
    using lru_ok_head [OF cache_relD(3) [OF R, of c]] lru_ok_tail [OF cache_relD(3) [OF R, of c]]
      notin c(3) by (auto split: if_splits dest: hd_in_set last_in_set)
  with c z t(1) have "item_free p s = Some t" by (simp add: item_free_def c_def [symmetric] Let_def)
  moreover have ff: "items_frame ?u t" by (rule slabs_items_frame [OF fr(1)])
  moreover have same: "mem t q = mem s q" if "q \<in> ran m \<or> 0 < refs q" for q
    using t(3) that p(1,2) cache_rel_not_free [OF R that]
    by (cases "q = p") (auto simp: mem_frame_def)
  moreover have "cache_rel t m lru (fl(c := p # fl c)) refs"
  proof (rule cache_rel_cong [OF R])
    have "heads t = heads ?u" "tails t = tails ?u" "sizes t = sizes ?u"
      using fr(1) by (cases t; cases s; simp add: slabs_frame_def upd_item_def)+
    with slabs_frameD [OF fr(1)] show "same_tables s t"
      by (simp add: same_tables_def upd_item_def)
    show "live t q (q \<in> ran m) (refs q)" if "q \<in> ran m \<or> 0 < refs q" for q
      using same [OF that] cache_relD(5) [OF R that] items_frameD(3) [OF ff]
      by (auto simp: live_def valid_class_def upd_item_def)
  qed (use same t(2) in auto)
  moreover have "same_geometry s t" using fr(2) by (simp add: same_geometry_def)
  moreover have "mem_frame (insert p (set (fl c))) s t" using t(3) by (auto simp: mem_frame_def)
  ultimately show ?thesis using items_frame_upds(1) items_frame_trans by blast
qed

lemma do_item_remove_rel:
  assumes R: "cache_rel s m lru fl refs" and p: "0 < refs p"
  defines "c \<equiv> unat (it_slabs_clsid (mem s p))"
  shows "\<exists>t. do_item_remove p s = Some t \<and> items_frame s t \<and> same_geometry s t
     \<and> mem_frame (insert p (set (fl c))) s t
     \<and> cache_rel t m lru (if p \<notin> ran m \<and> refs p = 1 then fl(c := p # fl c) else fl) (refs(p := refs p - 1))
     \<and> (p \<in> ran m \<or> refs p \<noteq> 1 \<longrightarrow> t = snd (refcount_decr p s))"
proof -
  let ?r = "refcount_decr p s"
  have lv: "live s p (p \<in> ran m) (refs p)" using cache_relD(5) [OF R] p by blast
  then have nosl: "\<not> has_flag ITEM_SLABBED (mem s p)" by (simp add: live_def)
  have D: "cache_rel (snd ?r) m lru fl (refs(p := refs p - 1))"
    by (rule refcount_decr_rel [OF R p])
  have geo: "same_geometry s (snd ?r)" "mem_frame (insert p (set (fl c))) s (snd ?r)"
    by (simp_all add: refcount_decr_def Let_def same_geometry_def mem_frame_def)
  show ?thesis
  proof (cases "p \<notin> ran m \<and> refs p = 1")
    case False
    then have "fst ?r \<noteq> 0" using refcount_decr_value [OF R p] by blast
    with nosl have "do_item_remove p s = Some (snd ?r)"
      by (cases ?r) (simp add: do_item_remove_def)
    with False D geo show ?thesis by auto
  next
    case True
    then have z: "fst ?r = 0" using refcount_decr_value [OF R p] by blast
    with nosl have eq: "do_item_remove p s = item_free p (snd ?r)"
      by (cases ?r) (simp add: do_item_remove_def)
    have m: "mem (snd ?r) p = (mem s p)\<lparr>it_refcount := 0\<rparr>"
      using z by (simp add: refcount_decr_def Let_def)
    have "live (snd ?r) p False 0"
      using lv True m by (simp add: live_def valid_class_def refcount_decr_def Let_def)
    moreover have "(refs(p := refs p - 1)) p = 0" using True by simp
    moreover have "it_slabs_clsid (mem (snd ?r) p) = it_slabs_clsid (mem s p)" by (simp add: m)
    ultimately obtain t where "item_free p (snd ?r) = Some t"
      "cache_rel t m lru (fl(c := p # fl c)) (refs(p := refs p - 1))"
      "items_frame (snd ?r) t" "same_geometry (snd ?r) t" "mem_frame (insert p (set (fl c))) (snd ?r) t"
      using item_free_rel [OF D, of p 0] True m cache_rel_not_free [OF R, of p] p
      by (auto simp: c_def)
    with True eq geo show ?thesis
      by (auto intro: items_frame_trans [OF items_frame_upds(7)] same_geometry_trans mem_frame_trans)
  qed
qed

section \<open>Linking and unlinking an item\<close>

lemma assoc_frame_mem:
  assumes "assoc_frame s t"
  shows "unlinked_view (mem t p) = unlinked_view (mem s p)" "it_next (mem t p) = it_next (mem s p)"
    "it_prev (mem t p) = it_prev (mem s p)"
proof -
  have "mem t p = (mem s p)\<lparr>it_h_next := it_h_next (mem t p)\<rparr>"
    using assms unfolding assoc_frame_def by blast
  then obtain h where "mem t p = (mem s p)\<lparr>it_h_next := h\<rparr>" by blast
  then show "unlinked_view (mem t p) = unlinked_view (mem s p)" "it_next (mem t p) = it_next (mem s p)"
    "it_prev (mem t p) = it_prev (mem s p)" by simp_all
qed

lemma assoc_frame_fields:
  fixes s t :: "'a items_scheme"
  assumes "assoc_frame s t"
  shows "slabclass t = slabclass s" "heads t = heads s" "tails t = tails s" "sizes t = sizes s"
    "stats t = stats s" "power_largest t = power_largest s" "current_time t = current_time s"
    "settings t = settings s"
proof -
  have "t = s\<lparr>mem := mem t, primary_hashtable := primary_hashtable t, old_hashtable := old_hashtable t,
      hash_items := hash_items t, started_expanding := started_expanding t\<rparr>"
    using assms unfolding assoc_frame_def by blast
  then show "slabclass t = slabclass s" "heads t = heads s" "tails t = tails s" "sizes t = sizes s"
    "stats t = stats s" "power_largest t = power_largest s" "current_time t = current_time s"
    "settings t = settings s" by (cases s; cases t; simp)+
qed

lemma queue_frame_fields:
  assumes "queue_frame c D s t"
  shows "primary_hashtable t = primary_hashtable s" "old_hashtable t = old_hashtable s"
    "hashpower t = hashpower s" "expanding t = expanding s" "expand_bucket t = expand_bucket s"
    "hash_items t = hash_items s" "stats t = stats s" "slabclass t = slabclass s"
    "power_largest t = power_largest s" "current_time t = current_time s" "settings t = settings s"
    "items_frame s t"
proof -
  have q: "queue_fields s t" using assms by (simp add: queue_frame_def)
  then show "items_frame s t" by (rule queue_items_frame)
  from q show "primary_hashtable t = primary_hashtable s" "old_hashtable t = old_hashtable s"
    "hashpower t = hashpower s" "expanding t = expanding s" "expand_bucket t = expand_bucket s"
    "hash_items t = hash_items s" "stats t = stats s" "slabclass t = slabclass s"
    "power_largest t = power_largest s" "current_time t = current_time s" "settings t = settings s"
    by (cases s; cases t; simp add: queue_fields_def)+
qed

lemma queue_frame_mem:
  assumes "queue_frame c D s t"
  shows "p \<notin> D \<Longrightarrow> mem t p = mem s p" "unlinked_view (mem t p) = unlinked_view (mem s p)"
    "it_h_next (mem t p) = it_h_next (mem s p)"
    "d \<noteq> c \<Longrightarrow> heads t d = heads s d \<and> tails t d = tails s d \<and> sizes t d = sizes s d"
  using assms by (simp_all add: queue_frame_def)

lemma slabs_rel_links:
  assumes R: "slabs_rel s fl"
    and "\<And>c. cls_slots (slabclass t c) = cls_slots (slabclass s c)"
    "\<And>c. cls_sl_curr (slabclass t c) = cls_sl_curr (slabclass s c)"
    and m: "\<And>c x. x \<in> set (fl c) \<Longrightarrow> it_next (mem t x) = it_next (mem s x)
      \<and> it_prev (mem t x) = it_prev (mem s x) \<and> unlinked_view (mem t x) = unlinked_view (mem s x)"
  shows "slabs_rel t fl"
proof -
  have "free_chunk (mem t x) = free_chunk (mem s x)" if "x \<in> set (fl c)" for c x
    using m [OF that] unlinked_view_eqD(7) unlinked_view_key(3) unfolding free_chunk_def by metis
  then have "freelist t c (fl c)" for c
    using slabs_relD(1) [OF R, of c] assms(2,3) m [of _ c]
    by (auto simp: freelist_def dll_cong [of "fl c" "nx t" "nx s" "pv t" "pv s"])
  with R show ?thesis by (simp add: slabs_rel_def)
qed

lemma assoc_rel_view:
  assumes R: "assoc_rel s m" and "primary_hashtable t = primary_hashtable s"
    "old_hashtable t = old_hashtable s" "hashpower t = hashpower s" "expanding t = expanding s"
    "expand_bucket t = expand_bucket s" "hash_items t = hash_items s"
    and m: "\<And>p. p \<in> ran m \<Longrightarrow> it_h_next (mem t p) = it_h_next (mem s p)
      \<and> ITEM_key (mem t p) = ITEM_key (mem s p) \<and> key_ok (mem t p) = key_ok (mem s p)"
  shows "assoc_rel t m"
  by (rule assoc_rel_cong [OF R]) (use assms assoc_relD(4) [OF R] in \<open>auto simp: ran_def\<close>)

text \<open>Taking an item out of the table and its queue; its link becomes a reference of the caller.\<close>

definition unlink_core :: "addr \<Rightarrow> u32 \<Rightarrow> 'a items_scheme \<Rightarrow> 'a items_scheme option" where
  "unlink_core it hv s = (let s = upd_item it (clear_flag ITEM_LINKED) s;
     s = upd_stats (\<lambda>t. t\<lparr>curr_bytes := curr_bytes t - ITEM_ntotal (mem s it),
           curr_items := curr_items t - 1\<rparr>) s
   in Option.bind (assoc_delete (ITEM_key (mem s it)) hv s) (item_unlink_q it))"

lemma do_item_unlink_nolock_core:
  "do_item_unlink_nolock it hv s = (if has_flag ITEM_LINKED (mem s it)
     then Option.bind (unlink_core it hv s) (do_item_remove it) else Some s)"
  by (simp add: do_item_unlink_nolock_def unlink_core_def Let_def)

lemma flag_ntotal [simp]: "ITEM_ntotal (clear_flag ITEM_LINKED i) = ITEM_ntotal i"
  "ITEM_ntotal (set_flag ITEM_LINKED i) = ITEM_ntotal i"
  "ITEM_ntotal (set_flag ITEM_FETCHED i) = ITEM_ntotal i"
  by (simp_all add: ITEM_ntotal_def)

lemma flag_key [simp]: "ITEM_key (clear_flag f i) = ITEM_key i" "key_ok (clear_flag f i) = key_ok i"
  "ITEM_key (set_flag f i) = ITEM_key i" "key_ok (set_flag f i) = key_ok i"
  by (simp_all add: ITEM_key_def key_ok_def)

lemma ran_remove:
  assumes "m k = Some p" "\<And>k'. m k' = Some p \<Longrightarrow> k' = k"
  shows "ran (m(k := None)) = ran m - {p}"
proof (rule set_eqI)
  fix x
  have "x \<in> ran (m(k := None)) \<longleftrightarrow> (\<exists>k'. k' \<noteq> k \<and> m k' = Some x)" by (auto simp: ran_def)
  also have "\<dots> \<longleftrightarrow> x \<in> ran m \<and> x \<noteq> p"
    unfolding ran_def mem_Collect_eq using assms by (metis option.inject)
  finally show "x \<in> ran (m(k := None)) \<longleftrightarrow> x \<in> ran m - {p}" by simp
qed

lemma card_ran_remove:
  "finite A \<Longrightarrow> p \<in> A \<Longrightarrow> of_nat (card A) - 1 = (of_nat (card (A - {p})) :: u32)"
  by (subst (1) card.remove [of A p]) (simp_all del: card_Diff_insert)

lemma sum_remove_word:
  fixes f :: "addr \<Rightarrow> u64"
  shows "finite A \<Longrightarrow> p \<in> A \<Longrightarrow> (\<Sum>x\<in>A. f x) - f p = (\<Sum>x\<in>A - {p}. f x)"
  by (simp add: sum.remove [of A p])

lemma unlink_core_rel:
  assumes R: "cache_rel s m lru fl refs" and k: "m k = Some p"
  defines "c \<equiv> unat (it_slabs_clsid (mem s p))"
  assumes b: "refs p + 1 < 65536"
  shows "\<exists>t. unlink_core p (hash_key k) s = Some t \<and> items_frame s t \<and> same_geometry s t
     \<and> cache_rel t (m(k := None)) (lru(c := remove1 p (lru c))) fl (refs(p := refs p + 1))
     \<and> (\<forall>q. q \<noteq> p \<longrightarrow> unlinked_view (mem t q) = unlinked_view (mem s q))
     \<and> it_slabs_clsid (mem t p) = it_slabs_clsid (mem s p)
     \<and> slabclass t = slabclass s
     \<and> it_nkey (mem t p) = it_nkey (mem s p) \<and> it_key (mem t p) = it_key (mem s p)"
proof -
  have ran: "p \<in> ran m" using k by (auto simp: ran_def)
  have key: "key_at s p = k" and kok: "key_ok (mem s p)"
    using assoc_relD(4,5) [OF cache_relD(1) [OF R] k] by auto
  have uniq: "k' = k" if "m k' = Some p" for k'
    using assoc_relD(5) [OF cache_relD(1) [OF R] that] key by simp
  have lv: "live s p True (refs p)" using cache_relD(5) [OF R, of p] ran by simp
  then have linked: "has_flag ITEM_LINKED (mem s p)" and cL: "c < LARGEST_ID"
    by (simp_all add: live_def c_def)
  define u where "u = upd_stats (\<lambda>t. t\<lparr>curr_bytes := curr_bytes t - ITEM_ntotal (mem s p),
           curr_items := curr_items t - 1\<rparr>) (upd_item p (clear_flag ITEM_LINKED) s)"
  have um: "mem u = (mem s)(p := clear_flag ITEM_LINKED (mem s p))" by (simp add: u_def)
  have uf: "primary_hashtable u = primary_hashtable s" "old_hashtable u = old_hashtable s"
    "hashpower u = hashpower s" "expanding u = expanding s" "expand_bucket u = expand_bucket s"
    "hash_items u = hash_items s" "heads u = heads s" "tails u = tails s" "sizes u = sizes s"
    "slabclass u = slabclass s" "power_largest u = power_largest s"
    by (simp_all add: u_def upd_item_def upd_stats_def)
  have uR: "assoc_rel u m" by (rule assoc_rel_view [OF cache_relD(1) [OF R]]) (simp_all add: uf um)
  then obtain v where v: "assoc_delete k (hash_key k) u = Some v" "assoc_rel v (m(k := None))"
    using hash_table.delete_rel k by blast
  note vf = assoc_delete_frame [OF v(1)]
  note vm = assoc_frame_mem [OF vf] and vfl = assoc_frame_fields [OF vf]
  have inq: "p \<in> set (lru c)" unfolding c_def by (rule cache_rel_queue(1) [OF R ran])
  then obtain as bs where ab: "lru c = as @ p # bs" by (auto simp: in_set_conv_decomp)
  have dist: "distinct (as @ p # bs)" using lru_ok_distinct [OF cache_relD(3) [OF R, of c]] ab by simp
  have rem: "remove1 p (lru c) = as @ bs" using dist by (simp add: ab remove1_append)
  have view: "q \<noteq> p \<Longrightarrow> unlinked_view (mem v q) = unlinked_view (mem s q)" for q
    using vm(1) [of q] by (simp add: um)
  have links: "it_next (mem v q) = it_next (mem s q)" "it_prev (mem v q) = it_prev (mem s q)" for q
    using vm(2,3) [of q] by (simp_all add: um)
  note pv' = unlinked_view_eqD [OF vm(1) [of p]] and pf = unlinked_view_key [OF vm(1) [of p]]
  have "lru_shape v c (as @ p # bs)"
    using lru_okD(1) [OF cache_relD(3) [OF R, of c]] unfolding ab
    by (rule lru_shape_cong) (simp_all add: vfl uf links)
  moreover have "unat (it_slabs_clsid (mem v p)) = c" using pv'(7) by (simp add: um c_def)
  ultimately obtain t where t: "item_unlink_q p v = Some t" "lru_shape t c (as @ bs)"
    "queue_frame c (set (as @ bs)) v t"
    using item_unlink_q_ok cL by blast
  note tf = queue_frame_fields [OF t(3)] and tm = queue_frame_mem [OF t(3)]
  have core: "unlink_core p (hash_key k) s = Some t"
    using v(1) t(1) key by (simp add: unlink_core_def Let_def u_def)
  have tview: "q \<noteq> p \<Longrightarrow> unlinked_view (mem t q) = unlinked_view (mem s q)" for q
    using tm(2) [of q] view [of q] by simp
  have out: "x \<notin> set (as @ bs)" if "x \<in> set (lru d)" "d \<noteq> c" for x d
  proof
    assume "x \<in> set (as @ bs)"
    then have "x \<in> set (lru c)" using ab by auto
    then show False
      using cache_relD(4) [OF R, of x] cache_rel_queue(2) [OF R, of x] that by metis
  qed
  have tp: "it_slabs_clsid (mem t p) = it_slabs_clsid (mem s p)" "it_refcount (mem t p) = it_refcount (mem s p)"
    "it_nkey (mem t p) = it_nkey (mem s p)" "it_key (mem t p) = it_key (mem s p)"
    "has_flag ITEM_SLABBED (mem t p) = has_flag ITEM_SLABBED (mem s p)" "\<not> has_flag ITEM_LINKED (mem t p)"
    using unlinked_view_eqD [OF tm(2) [of p]] unlinked_view_key(3) [OF tm(2) [of p]] pv' pf(3)
    by (simp_all add: um)
  have rm: "ran (m(k := None)) = ran m - {p}" using k uniq by (rule ran_remove)
  have notfree: "x \<noteq> p \<and> x \<notin> set (as @ bs)" if "x \<in> set (fl d)" for x d
  proof -
    have "x \<notin> ran m" using cache_rel_not_free [OF R, of x d] that by blast
    moreover from this have "x \<notin> set (lru c)" using cache_relD(4) [OF R] by blast
    ultimately show ?thesis using ran ab by auto
  qed
  have "cache_rel t (m(k := None)) (lru(c := as @ bs)) fl (refs(p := refs p + 1))"
    unfolding cache_rel_def
  proof (intro conjI allI impI)
    show "assoc_rel t (m(k := None))"
      by (rule assoc_rel_view [OF v(2)])
        (use tf tm(3) unlinked_view_key(1,2) [OF tm(2)] in auto)
    show "slabs_rel t fl"
    proof (rule slabs_rel_links [OF cache_relD(2) [OF R]])
      fix d x assume "x \<in> set (fl d)"
      from notfree [OF this] tm(1) [of x] links view [of x]
      show "it_next (mem t x) = it_next (mem s x) \<and> it_prev (mem t x) = it_prev (mem s x)
        \<and> unlinked_view (mem t x) = unlinked_view (mem s x)" by simp
    qed (simp_all add: tf vfl uf)
    show "lru_ok t d ((lru(c := as @ bs)) d)" for d
    proof (cases "d = c")
      case True
      have "queue_item c (mem t x)" if "x \<in> set (as @ bs)" for x
        using that lru_okD(2) [OF cache_relD(3) [OF R, of c], of x] queue_item_view [OF tview, of x] dist
        by (auto simp: ab)
      with True t(2) show ?thesis by (simp add: lru_ok_def)
    next
      case False
      have "lru_ok t d (lru d)"
      proof (rule lru_ok_cong [OF cache_relD(3) [OF R, of d]])
        fix x assume x: "x \<in> set (lru d)"
        then have "x \<noteq> p" using cache_rel_queue(2) [OF R ran, of d] False by (auto simp: c_def)
        with x out [OF x False] tm(1) [of x] links queue_item_view [OF tview, of x d]
          lru_okD(2) [OF cache_relD(3) [OF R, of d] x]
        show "it_next (mem t x) = it_next (mem s x) \<and> it_prev (mem t x) = it_prev (mem s x)
          \<and> queue_item d (mem t x)" by simp
      qed (use tm(4) [OF False] in \<open>simp_all add: vfl uf\<close>)
      with False show ?thesis by simp
    qed
    show "(q \<in> ran (m(k := None))) = (\<exists>d. q \<in> set ((lru(c := as @ bs)) d))" for q
    proof -
      have "q \<in> set ((lru(c := as @ bs)) d) \<longleftrightarrow> q \<noteq> p \<and> q \<in> set (lru d)" for d
        using dist ab cache_rel_queue(2) [OF R ran, of d] by (cases "d = c") (auto simp: c_def)
      then show ?thesis using cache_relD(4) [OF R, of q] by (simp add: rm) blast
    qed
    show "live t q (q \<in> ran (m(k := None))) ((refs(p := refs p + 1)) q)"
      if "q \<in> ran (m(k := None)) \<or> 0 < (refs(p := refs p + 1)) q" for q
    proof (cases "q = p")
      case True
      with lv tp b show ?thesis
        by (simp add: live_def rm valid_class_def tf vfl uf add_ac)
    next
      case False
      then have "live s q (q \<in> ran m) (refs q)" using that cache_relD(5) [OF R, of q] by (simp add: rm)
      with False unlinked_view_eqD [OF tview [OF False]] unlinked_view_key(3) [OF tview [OF False]]
      show ?thesis by (simp add: live_def rm valid_class_def tf vfl uf)
    qed
    show "curr_items (stats t) = of_nat (card (ran (m(k := None))))"
      using card_ran_remove [OF cache_rel_finite [OF R] ran] cache_relD(6) [OF R]
      by (simp add: rm tf vfl u_def)
    have "(\<Sum>q\<in>ran m - {p}. ITEM_ntotal (mem t q)) = (\<Sum>q\<in>ran m - {p}. ITEM_ntotal (mem s q))"
      by (rule sum.cong) (auto intro: unlinked_view_key(4) tview)
    then show "curr_bytes (stats t) = (\<Sum>q\<in>ran (m(k := None)). ITEM_ntotal (mem t q))"
      using sum_remove_word [OF cache_rel_finite [OF R] ran, of "\<lambda>q. ITEM_ntotal (mem s q)"]
        cache_relD(7) [OF R]
      by (simp add: rm tf vfl u_def)
  qed
  moreover have "items_frame s t"
  proof -
    have "items_frame s u" unfolding u_def by (blast intro: items_frame_trans items_frame_upds)
    then show ?thesis
      using assoc_items_frame [OF vf] tf(12) by (blast intro: items_frame_trans)
  qed
  ultimately show ?thesis
    using core tview tp by (auto simp: rem tf(8) vfl uf same_geometry_def)
qed

lemma do_item_unlink_rel:
  assumes R: "cache_rel s m lru fl refs" and k: "m k = Some p" and b: "refs p + 1 < 65536"
  defines "c \<equiv> unat (it_slabs_clsid (mem s p))"
  shows "\<exists>t. do_item_unlink_nolock p (hash_key k) s = Some t \<and> items_frame s t \<and> same_geometry s t
     \<and> cache_rel t (m(k := None)) (lru(c := remove1 p (lru c)))
         (if refs p = 0 then fl(c := p # fl c) else fl) refs
     \<and> others_kept p (set (fl c)) s t
     \<and> (0 < refs p \<longrightarrow> it_slabs_clsid (mem t p) = it_slabs_clsid (mem s p))"
proof -
  have ran: "p \<in> ran m" using k by (auto simp: ran_def)
  then have linked: "has_flag ITEM_LINKED (mem s p)"
    using cache_relD(5) [OF R, of p] by (simp add: live_def)
  obtain u where u: "unlink_core p (hash_key k) s = Some u" "items_frame s u" "same_geometry s u"
    "cache_rel u (m(k := None)) (lru(c := remove1 p (lru c))) fl (refs(p := refs p + 1))"
    "\<And>q. q \<noteq> p \<Longrightarrow> unlinked_view (mem u q) = unlinked_view (mem s q)"
    "it_slabs_clsid (mem u p) = it_slabs_clsid (mem s p)"
    using unlink_core_rel [OF R k b] unfolding c_def by blast
  have key: "k' = k" if "m k' = Some p" for k'
    using assoc_relD(5) [OF cache_relD(1) [OF R]] k that by metis
  have notran: "p \<notin> ran (m(k := None))"
    using key by (auto simp: ran_def)
  obtain t where t: "do_item_remove p u = Some t" "items_frame u t" "same_geometry u t"
    "mem_frame (insert p (set (fl c))) u t"
    "cache_rel t (m(k := None)) (lru(c := remove1 p (lru c)))
       (if refs p = 0 then fl(c := p # fl c) else fl) ((refs(p := refs p + 1))(p := refs p))"
    "0 < refs p \<longrightarrow> t = snd (refcount_decr p u)"
    using do_item_remove_rel [OF u(4), of p] notran u(6) by (auto simp: c_def cong: if_cong)
  have "others_kept p (set (fl c)) s t"
    using u(5) t(4) by (auto simp: others_kept_def mem_frame_def)
  moreover have "it_slabs_clsid (mem t p) = it_slabs_clsid (mem s p)" if "0 < refs p"
    using t(6) that u(6) by (simp add: refcount_decr_def Let_def)
  ultimately show ?thesis
    using u(1-3) t linked
    by (auto simp: do_item_unlink_nolock_core intro: items_frame_trans same_geometry_trans)
qed

lemma set_new_cas_mem:
  "mem (set_new_cas p s) = (mem s)(p := mem (set_new_cas p s) p)"
  "same_item (mem s p) (mem (set_new_cas p s) p)"
  "it_refcount (mem (set_new_cas p s) p) = it_refcount (mem s p)"
  "unlinked_view ((mem (set_new_cas p s) p)\<lparr>it_cas := 0\<rparr>) = unlinked_view ((mem s p)\<lparr>it_cas := 0\<rparr>)"
  by (auto simp: set_new_cas_def get_cas_id_def upd_item_def ITEM_set_cas_def same_item_def
      has_flag_def ITEM_ntotal_def unlinked_view_def fun_eq_iff)

lemma set_new_cas_fields:
  "primary_hashtable (set_new_cas p s) = primary_hashtable s" "old_hashtable (set_new_cas p s) = old_hashtable s"
  "hashpower (set_new_cas p s) = hashpower s" "expanding (set_new_cas p s) = expanding s"
  "expand_bucket (set_new_cas p s) = expand_bucket s" "hash_items (set_new_cas p s) = hash_items s"
  "slabclass (set_new_cas p s) = slabclass s" "heads (set_new_cas p s) = heads s"
  "tails (set_new_cas p s) = tails s" "sizes (set_new_cas p s) = sizes s" "stats (set_new_cas p s) = stats s"
  "power_largest (set_new_cas p s) = power_largest s"
  by (simp_all add: set_new_cas_def get_cas_id_def upd_item_def)

lemma do_item_link_rel:
  assumes R: "cache_rel s m lru fl refs" and new: "m (key_at s p) = None" "p \<notin> ran m"
    and p: "0 < refs p" "refs p + 1 < 65536" "key_ok (mem s p)"
  defines "c \<equiv> unat (it_slabs_clsid (mem s p))"
  shows "\<exists>t. do_item_link p (hash_key (key_at s p)) s = Some t \<and> items_frame s t \<and> same_geometry s t
     \<and> cache_rel t (m(key_at s p \<mapsto> p)) (lru(c := p # lru c)) fl refs
     \<and> (\<forall>q. q \<noteq> p \<longrightarrow> unlinked_view (mem t q) = unlinked_view (mem s q))
     \<and> it_time (mem t p) = current_time s \<and> it_exptime (mem t p) = it_exptime (mem s p)
     \<and> it_value (mem t p) = it_value (mem s p)"
proof -
  let ?k = "key_at s p"
  have lv: "live s p False (refs p)" using cache_relD(5) [OF R, of p] p(1) new(2) by simp
  then have nz: "p \<noteq> NULL" "c < LARGEST_ID" "\<not> has_flag ITEM_SLABBED (mem s p)" "\<not> has_flag ITEM_LINKED (mem s p)"
    by (simp_all add: live_def c_def)
  define u where "u = set_new_cas p (upd_stats (\<lambda>t. t\<lparr>curr_bytes := curr_bytes t + ITEM_ntotal (mem s p),
      curr_items := curr_items t + 1, total_items := total_items t + 1\<rparr>)
    (upd_item p (\<lambda>i. (set_flag ITEM_LINKED i)\<lparr>it_time := current_time s\<rparr>) s))"
  have um: "q \<noteq> p \<Longrightarrow> mem u q = mem s q" for q
    unfolding u_def by (subst set_new_cas_mem(1)) simp
  have up: "same_item ((set_flag ITEM_LINKED (mem s p))\<lparr>it_time := current_time s\<rparr>) (mem u p)"
    "it_refcount (mem u p) = it_refcount (mem s p)" "it_time (mem u p) = current_time s"
    "it_exptime (mem u p) = it_exptime (mem s p)" "it_value (mem u p) = it_value (mem s p)"
    using set_new_cas_mem(2) [of "upd_stats (\<lambda>t. t\<lparr>curr_bytes := curr_bytes t + ITEM_ntotal (mem s p),
      curr_items := curr_items t + 1, total_items := total_items t + 1\<rparr>)
    (upd_item p (\<lambda>i. (set_flag ITEM_LINKED i)\<lparr>it_time := current_time s\<rparr>) s)" p]
    by (auto simp: u_def set_new_cas_def get_cas_id_def ITEM_set_cas_def)
      (auto simp: set_flag_def)
  have ui: "unat (it_slabs_clsid (mem u p)) = c" "has_flag ITEM_LINKED (mem u p)"
    "\<not> has_flag ITEM_SLABBED (mem u p)" "ITEM_key (mem u p) = ?k" "key_ok (mem u p)"
    "ITEM_ntotal (mem u p) = ITEM_ntotal (mem s p)" "it_nkey (mem u p) = it_nkey (mem s p)"
    using up(1) nz p(3) set_flag_simps [of "mem s p"]
    by (auto simp: same_item_def c_def ITEM_key_def key_ok_def has_flag_def ITEM_ntotal_def)
  have uf: "primary_hashtable u = primary_hashtable s" "old_hashtable u = old_hashtable s"
    "hashpower u = hashpower s" "expanding u = expanding s" "expand_bucket u = expand_bucket s"
    "hash_items u = hash_items s" "slabclass u = slabclass s" "heads u = heads s" "tails u = tails s"
    "sizes u = sizes s" "power_largest u = power_largest s"
    by (simp_all add: u_def set_new_cas_fields upd_item_def upd_stats_def)
  have "assoc_rel u m"
  proof (rule assoc_rel_view [OF cache_relD(1) [OF R]])
    fix q assume "q \<in> ran m"
    with new(2) have "q \<noteq> p" by blast
    then show "it_h_next (mem u q) = it_h_next (mem s q) \<and> ITEM_key (mem u q) = ITEM_key (mem s q)
      \<and> key_ok (mem u q) = key_ok (mem s q)" by (simp add: um)
  qed (simp_all add: uf)
  then have vR: "assoc_rel (assoc_insert p (hash_key ?k) u) (m(?k \<mapsto> p))"
    using assoc_insert_rel [of u m p] new(1) nz(1) ui(4,5) by simp
  define v where "v = assoc_insert p (hash_key ?k) u"
  have vf: "assoc_frame u v" unfolding v_def by (rule assoc_insert_frame)
  note vm = assoc_frame_mem [OF vf] and vfl = assoc_frame_fields [OF vf]
  have pq: "p \<notin> set (lru d)" for d using cache_relD(4) [OF R] new(2) by blast
  have links: "q \<noteq> p \<Longrightarrow> it_next (mem v q) = it_next (mem s q) \<and> it_prev (mem v q) = it_prev (mem s q)
      \<and> unlinked_view (mem v q) = unlinked_view (mem s q)" for q
    using vm [of q] um [of q] by simp
  have pv': "unlinked_view (mem v p) = unlinked_view (mem u p)" by (rule vm(1))
  have "lru_shape v c (lru c)"
  proof (rule lru_shape_cong [OF lru_okD(1) [OF cache_relD(3) [OF R, of c]]])
    fix x assume "x \<in> set (lru c)"
    with pq [of c] have "x \<noteq> p" by blast
    then show "it_next (mem v x) = it_next (mem s x) \<and> it_prev (mem v x) = it_prev (mem s x)"
      using links by simp
  qed (simp_all add: vfl uf)
  moreover have "unat (it_slabs_clsid (mem v p)) = c \<and> \<not> has_flag ITEM_SLABBED (mem v p)"
    using unlinked_view_eqD(7) [OF pv'] unlinked_view_key(3) [OF pv'] ui by simp
  ultimately obtain w where w: "item_link_q p v = Some w" "lru_shape w c (p # lru c)"
    "queue_frame c (insert p (set (lru c))) v w"
    using item_link_q_ok [OF _ nz(1) pq] nz(2) by blast
  note wf = queue_frame_fields [OF w(3)] and wm = queue_frame_mem [OF w(3)]
  define t where "t = snd (refcount_incr p w)"
  have tm: "mem t = (mem w)(p := (mem w p)\<lparr>it_refcount := it_refcount (mem w p) + 1\<rparr>)"
    by (simp add: t_def refcount_incr_def Let_def)
  have tfl: "primary_hashtable t = primary_hashtable w" "old_hashtable t = old_hashtable w"
    "hashpower t = hashpower w" "expanding t = expanding w" "expand_bucket t = expand_bucket w"
    "hash_items t = hash_items w" "slabclass t = slabclass w" "heads t = heads w" "tails t = tails w"
    "sizes t = sizes w" "stats t = stats w" "power_largest t = power_largest w"
    by (simp_all add: t_def refcount_incr_def Let_def upd_item_def)
  have wview: "q \<noteq> p \<Longrightarrow> unlinked_view (mem w q) = unlinked_view (mem s q)" for q
    using wm(2) [of q] links [of q] by simp
  have pw: "unlinked_view (mem w p) = unlinked_view (mem u p)" using wm(2) [of p] pv' by simp
  note pD = unlinked_view_eqD [OF pw] and pK = unlinked_view_key [OF pw]
  have link: "do_item_link p (hash_key ?k) s = Some t"
  proof -
    have "\<not> has_flag (ITEM_LINKED OR ITEM_SLABBED) (mem s p)"
      using nz(3,4) by (simp add: has_flag_def bit.conj_disj_distrib or_eq_0_iff)
    moreover have "upd_item p (\<lambda>i. i\<lparr>it_time := current_time s\<rparr>) (upd_item p (set_flag ITEM_LINKED) s)
        = upd_item p (\<lambda>i. (set_flag ITEM_LINKED i)\<lparr>it_time := current_time s\<rparr>) s"
      by (simp add: upd_item_def)
    moreover have "ITEM_ntotal ((set_flag ITEM_LINKED (mem s p))\<lparr>it_time := current_time s\<rparr>) = ITEM_ntotal (mem s p)"
      using flag_ntotal(2) [of "mem s p"] by (simp add: ITEM_ntotal_def has_flag_def)
    ultimately show ?thesis
      using w(1) by (simp add: do_item_link_def Let_def t_def v_def u_def cong: if_cong)
  qed
  have rm: "ran (m(?k \<mapsto> p)) = insert p (ran m)" using new(1) by simp
  have "cache_rel t (m(?k \<mapsto> p)) (lru(c := p # lru c)) fl refs"
    unfolding cache_rel_def
  proof (intro conjI allI impI)
    show "assoc_rel t (m(?k \<mapsto> p))"
    proof (rule assoc_rel_view [OF vR [folded v_def]])
      fix q
      have "it_h_next (mem t q) = it_h_next (mem w q) \<and> ITEM_key (mem t q) = ITEM_key (mem w q)
        \<and> key_ok (mem t q) = key_ok (mem w q)"
        by (cases "q = p") (simp_all add: tm ITEM_key_def key_ok_def)
      then show "it_h_next (mem t q) = it_h_next (mem v q) \<and> ITEM_key (mem t q) = ITEM_key (mem v q)
        \<and> key_ok (mem t q) = key_ok (mem v q)"
        using wm(3) [of q] unlinked_view_key(1,2) [OF wm(2) [of q]] by simp
    qed (simp_all add: tfl wf)
    have fr: "q \<noteq> p \<and> q \<notin> set (lru c)" if "q \<in> set (fl d)" for q d
      using cache_rel_not_free [OF R, of q d] cache_relD(4) [OF R, of q] that p(1) by blast
    show "slabs_rel t fl"
    proof (rule slabs_rel_links [OF cache_relD(2) [OF R]])
      fix d q assume "q \<in> set (fl d)"
      from fr [OF this] links [of q] wm(1) [of q]
      show "it_next (mem t q) = it_next (mem s q) \<and> it_prev (mem t q) = it_prev (mem s q)
        \<and> unlinked_view (mem t q) = unlinked_view (mem s q)" by (simp add: tm)
    qed (simp_all add: tfl wf vfl uf)
    show "lru_ok t d ((lru(c := p # lru c)) d)" for d
    proof (cases "d = c")
      case True
      have "lru_shape t c (p # lru c)"
        by (rule lru_shape_cong [OF w(2)]) (simp_all add: tfl tm)
      moreover have "queue_item c (mem t x)" if "x \<in> set (lru c)" for x
        using that lru_okD(2) [OF cache_relD(3) [OF R, of c] that] queue_item_view [OF wview, of x c] pq [of c]
        by (cases "x = p") (simp_all add: tm)
      moreover have "queue_item c (mem t p)"
        using pD(7) pK(3) ui by (simp add: queue_item_def tm)
      ultimately show ?thesis using True by (simp add: lru_ok_def)
    next
      case False
      have "lru_ok t d (lru d)"
      proof (rule lru_ok_cong [OF cache_relD(3) [OF R, of d]])
        fix x assume x: "x \<in> set (lru d)"
        then have "x \<noteq> p" using pq by blast
        moreover have "x \<notin> set (lru c)"
          using cache_rel_queue(2) [OF R, of x] cache_relD(4) [OF R, of x] x False by metis
        ultimately show "it_next (mem t x) = it_next (mem s x) \<and> it_prev (mem t x) = it_prev (mem s x)
          \<and> queue_item d (mem t x)"
          using links [of x] wm(1) [of x] queue_item_view [OF wview, of x d]
            lru_okD(2) [OF cache_relD(3) [OF R, of d] x] by (simp add: tm)
      qed (use wm(4) [OF False] in \<open>simp_all add: tfl vfl uf\<close>)
      with False show ?thesis by simp
    qed
    show "(q \<in> ran (m(?k \<mapsto> p))) = (\<exists>d. q \<in> set ((lru(c := p # lru c)) d))" for q
    proof -
      have "q \<in> set ((lru(c := p # lru c)) d) \<longleftrightarrow> d = c \<and> q = p \<or> q \<in> set (lru d)" for d by auto
      then show ?thesis using cache_relD(4) [OF R, of q] unfolding rm by simp blast
    qed
    show "live t q (q \<in> ran (m(?k \<mapsto> p))) (refs q)" if "q \<in> ran (m(?k \<mapsto> p)) \<or> 0 < refs q" for q
    proof (cases "q = p")
      case True
      with lv p(2) pD(4,7) pK(3) ui up(2) show ?thesis
        unfolding live_def rm by (auto simp: tm valid_class_def tfl wf vfl uf c_def)
    next
      case False
      then have "live s q (q \<in> ran m) (refs q)" using that cache_relD(5) [OF R, of q] by (simp add: rm)
      with False unlinked_view_eqD(4,7) [OF wview [OF False]] unlinked_view_key(3) [OF wview [OF False]]
      show ?thesis unfolding live_def rm by (simp add: tm valid_class_def tfl wf vfl uf)
    qed
    have fin: "finite (ran m)" by (rule cache_rel_finite [OF R])
    show "curr_items (stats t) = of_nat (card (ran (m(?k \<mapsto> p))))"
      using cache_relD(6) [OF R] fin new(2) unfolding rm
      by (simp add: tfl wf vfl u_def set_new_cas_fields)
    have "(\<Sum>q\<in>ran m. ITEM_ntotal (mem t q)) = (\<Sum>q\<in>ran m. ITEM_ntotal (mem s q))"
      using new(2) by (intro sum.cong) (auto simp: tm intro: unlinked_view_key(4) wview)
    moreover have "ITEM_ntotal (mem t p) = ITEM_ntotal (mem s p)"
      using pK(4) ui(6) by (simp add: tm ITEM_ntotal_def)
    ultimately show "curr_bytes (stats t) = (\<Sum>q\<in>ran (m(?k \<mapsto> p)). ITEM_ntotal (mem t q))"
      using cache_relD(7) [OF R] fin new(2) unfolding rm
      by (simp add: tfl wf vfl u_def set_new_cas_fields add.commute)
  qed
  moreover have "items_frame s t"
  proof -
    have "items_frame s u" unfolding u_def by (blast intro: items_frame_trans items_frame_upds)
    then show ?thesis
      using assoc_items_frame [OF vf] wf(12) unfolding t_def
      by (blast intro: items_frame_trans items_frame_upds)
  qed
  moreover have "it_time (mem t p) = current_time s" "it_exptime (mem t p) = it_exptime (mem s p)"
    "it_value (mem t p) = it_value (mem s p)"
    using pD up by (simp_all add: tm)
  ultimately show ?thesis
    using link wview by (auto simp: same_geometry_def tfl wf vfl uf tm)
qed

end
