(* ===== verification/Cache_Ops.thy ===== *)
theory Cache_Ops
  imports Items
begin

text \<open>
  The operations of \<open>items.c\<close> as operations on the cache: what lookup, touch, update, replace,
  flush and allocation do to the map of keys, the queues, the free chunks and the references,
  on every branch.
\<close>

section \<open>Lookup\<close>

text \<open>Why \<open>do_item_get\<close> refuses an item it found.\<close>

definition item_dead :: "addr \<Rightarrow> 'a items_scheme \<Rightarrow> bool" where
  "item_dead p s \<longleftrightarrow> in_moving_page p s
     \<or> oldest_live (settings s) \<noteq> 0 \<and> oldest_live (settings s) \<le> current_time s
         \<and> it_time (mem s p) \<le> oldest_live (settings s)
     \<or> it_exptime (mem s p) \<noteq> 0 \<and> it_exptime (mem s p) \<le> current_time s"

lemma do_item_get_cases:
  assumes R: "cache_rel s m lru fl refs"
  shows "do_item_get k (hash_key k) s = (case m k of
      None \<Rightarrow> Some (NULL, s)
    | Some p \<Rightarrow> let s' = snd (refcount_incr p s) in
        if item_dead p s then drop_item p (hash_key k) s'
        else Some (p, upd_item p (set_flag ITEM_FETCHED) s'))"
proof -
  have find: "assoc_find k (hash_key k) s = Some (case m k of None \<Rightarrow> NULL | Some p \<Rightarrow> p)"
    by (rule assoc_find_rel [OF cache_relD(1) [OF R]])
  show ?thesis
  proof (cases "m k")
    case None
    with find show ?thesis by (simp add: do_item_get_def)
  next
    case (Some p)
    then have "p \<in> ran m" by (auto simp: ran_def)
    then have "p \<noteq> NULL" using cache_relD(5) [OF R, of p] by (simp add: live_def)
    with find Some show ?thesis
      by (simp add: do_item_get_def Let_def item_dead_def refcount_incr_def in_moving_page_def
          upd_item_def)
  qed
qed

lemma same_item_fetched: "same_item i (set_flag ITEM_FETCHED i)"
  by (simp add: same_item_def)

lemma do_item_get_rel:
  assumes R: "cache_rel s m lru fl refs" and b: "\<And>p. m k = Some p \<Longrightarrow> refs p + 2 < 65536"
  shows "case m k of
      None \<Rightarrow> do_item_get k (hash_key k) s = Some (NULL, s)
    | Some p \<Rightarrow>
        if item_dead p s then
          \<exists>t. do_item_get k (hash_key k) s = Some (NULL, t) \<and> items_frame s t \<and> same_geometry s t
            \<and> cache_rel t (m(k := None))
                (lru(unat (it_slabs_clsid (mem s p)) := remove1 p (lru (unat (it_slabs_clsid (mem s p))))))
                (if refs p = 0 then fl(unat (it_slabs_clsid (mem s p)) := p # fl (unat (it_slabs_clsid (mem s p)))) else fl)
                refs
            \<and> others_kept p (set (fl (unat (it_slabs_clsid (mem s p))))) s t
        else
          \<exists>t. do_item_get k (hash_key k) s = Some (p, t) \<and> items_frame s t \<and> same_geometry s t
            \<and> cache_rel t m lru fl (refs(p := refs p + 1))
            \<and> mem t = (mem s)(p := (set_flag ITEM_FETCHED (mem s p))\<lparr>it_refcount := it_refcount (mem s p) + 1\<rparr>)"
proof (cases "m k")
  case None
  with do_item_get_cases [OF R, of k] show ?thesis by simp
next
  case (Some p)
  define c where "c = unat (it_slabs_clsid (mem s p))"
  have ran: "p \<in> ran m" using Some by (auto simp: ran_def)
  let ?u = "snd (refcount_incr p s)"
  have u: "cache_rel ?u m lru fl (refs(p := refs p + 1))"
    by (rule refcount_incr_rel [OF R]) (use ran b [OF Some] in auto)
  have uc: "it_slabs_clsid (mem ?u p) = it_slabs_clsid (mem s p)"
    by (simp add: refcount_incr_def Let_def)
  have ug: "same_geometry s ?u" by (simp add: refcount_incr_def Let_def same_geometry_def)
  show ?thesis
  proof (cases "item_dead p s")
    case True
    have "(refs(p := refs p + 1)) p + 1 < 65536" using b [OF Some] by simp
    note un = do_item_unlink_rel [OF u Some this, unfolded uc, folded c_def do_item_unlink_def]
    then obtain v where
      v: "do_item_unlink p (hash_key k) ?u = Some v" "items_frame ?u v" "same_geometry ?u v"
      "cache_rel v (m(k := None)) (lru(c := remove1 p (lru c)))
         (if (refs(p := refs p + 1)) p = 0 then fl(c := p # fl c) else fl) (refs(p := refs p + 1))"
      "others_kept p (set (fl c)) ?u v" "0 < (refs(p := refs p + 1)) p \<longrightarrow> it_slabs_clsid (mem v p) = it_slabs_clsid (mem s p)"
      by (elim exE conjE) (rule that, assumption+)
    have vR: "cache_rel v (m(k := None)) (lru(c := remove1 p (lru c))) fl (refs(p := refs p + 1))"
      using v(4) by (simp del: fun_upd_apply add: fun_upd_same)
    have notran: "p \<notin> ran (m(k := None))"
      using assoc_relD(5) [OF cache_relD(1) [OF R]] Some by (auto simp: ran_def)
    then have lv: "live v p False (refs p + 1)" using cache_relD(5) [OF vR, of p] by simp
    have vc: "unat (it_slabs_clsid (mem v p)) = c" using v(6) uc by (simp add: c_def)
    obtain t where t: "do_item_remove p v = Some t" "items_frame v t" "same_geometry v t"
      "cache_rel t (m(k := None)) (lru(c := remove1 p (lru c)))
         (if refs p = 0 then fl(c := p # fl c) else fl) refs" "mem_frame (insert p (set (fl c))) v t"
      using do_item_remove_rel [OF vR, of p] notran by (auto simp: vc cong: if_cong)
    have "do_item_get k (hash_key k) s = Some (NULL, t)"
      using do_item_get_cases [OF R, of k] Some True v(1) t(1) by (simp add: drop_item_def)
    moreover have "items_frame s t"
      using v(2) t(2) items_frame_upds(6) items_frame_trans by metis
    moreover have "same_geometry s t" using ug v(3) t(3) same_geometry_trans by metis
    moreover have "others_kept p (set (fl c)) s t"
      using v(5) t(5) by (simp add: others_kept_def mem_frame_def refcount_incr_def Let_def)
    ultimately show ?thesis using Some True t(4) by (auto simp: c_def)
  next
    case False
    let ?t = "upd_item p (set_flag ITEM_FETCHED) ?u"
    have m: "mem ?t = (mem s)(p := (set_flag ITEM_FETCHED (mem s p))\<lparr>it_refcount := it_refcount (mem s p) + 1\<rparr>)"
      by (cases "mem s p") (simp add: refcount_incr_def Let_def set_flag_def)
    have "cache_rel ?t m lru fl ((refs(p := refs p + 1))(p := refs p + 1))"
    proof (rule cache_rel_upd_item [OF u])
      show "same_item (mem ?u p) (set_flag ITEM_FETCHED (mem ?u p))" by (rule same_item_fetched)
      show "live ?t p (p \<in> ran m) (refs p + 1)"
        using cache_relD(5) [OF u, of p] by (simp add: live_def valid_class_def)
    qed simp
    then have "cache_rel ?t m lru fl (refs(p := refs p + 1))" by simp
    moreover have "do_item_get k (hash_key k) s = Some (p, ?t)"
      using do_item_get_cases [OF R, of k] Some False by (simp add: Let_def)
    moreover have "items_frame s ?t" using items_frame_upds(1,6) items_frame_trans by metis
    moreover have "same_geometry s ?t" using ug by (simp add: same_geometry_def)
    ultimately show ?thesis using Some False m by auto
  qed
qed

section \<open>Repositioning\<close>

text \<open>
  Moving items within their queues: everything but the order of the queues, the list pointers
  and the access times stays.
\<close>

lemma cache_rel_requeue:
  assumes R: "cache_rel s m lru fl refs"
    and T: "primary_hashtable t = primary_hashtable s" "old_hashtable t = old_hashtable s"
      "hashpower t = hashpower s" "expanding t = expanding s" "expand_bucket t = expand_bucket s"
      "hash_items t = hash_items s" "slabclass t = slabclass s" "stats t = stats s"
      "power_largest t = power_largest s"
    and L: "\<And>d. lru_shape t d (lru' d)" "\<And>d. set (lru' d) = set (lru d)"
    and M: "\<And>q. unlinked_view ((mem t q)\<lparr>it_time := 0\<rparr>) = unlinked_view ((mem s q)\<lparr>it_time := 0\<rparr>)"
      "\<And>q. it_h_next (mem t q) = it_h_next (mem s q)"
    and F: "\<And>d q. q \<in> set (fl d) \<Longrightarrow> it_next (mem t q) = it_next (mem s q) \<and> it_prev (mem t q) = it_prev (mem s q)"
  shows "cache_rel t m lru' fl refs"
proof -
  have body: "ITEM_key (mem t q) = ITEM_key (mem s q)" "key_ok (mem t q) = key_ok (mem s q)"
    "has_flag f (mem t q) = has_flag f (mem s q)" "ITEM_ntotal (mem t q) = ITEM_ntotal (mem s q)"
    "it_slabs_clsid (mem t q) = it_slabs_clsid (mem s q)" "it_refcount (mem t q) = it_refcount (mem s q)" for q f
    using unlinked_view_eqD [OF M(1) [of q]]
    by (simp_all add: ITEM_key_def key_ok_def has_flag_def ITEM_ntotal_def)
  have A: "slabs_rel t fl"
  proof -
    have "freelist t d (fl d)" for d
      using slabs_relD(1) [OF cache_relD(2) [OF R], of d] F [of _ d]
      by (auto simp: freelist_def free_chunk_def body T dll_cong [of "fl d" "nx t" "nx s" "pv t" "pv s"])
    with cache_relD(2) [OF R] show ?thesis by (simp add: slabs_rel_def)
  qed
  have B: "assoc_rel t m"
    by (rule assoc_rel_view [OF cache_relD(1) [OF R]]) (simp_all add: T M(2) body)
  have C: "\<forall>d. lru_ok t d (lru' d)"
    using L lru_okD(2) [OF cache_relD(3) [OF R]] by (auto simp: lru_ok_def queue_item_def body)
  have "live t q l r = live s q l r" for q l r
    by (simp add: live_def body valid_class_def T)
  then show ?thesis
    using R A B C unfolding cache_rel_def L(2) T(8) body by blast
qed

definition stale :: "addr \<Rightarrow> 'a items_scheme \<Rightarrow> bool" where
  "stale p s \<longleftrightarrow> it_time (mem s p) < current_time s - ITEM_UPDATE_INTERVAL"

lemma do_item_update_rel:
  assumes R: "cache_rel s m lru fl refs" and p: "p \<in> ran m \<or> 0 < refs p"
  defines "c \<equiv> unat (it_slabs_clsid (mem s p))"
  shows "if stale p s \<and> p \<in> ran m
    then \<exists>t. do_item_update p s = Some t \<and> cache_rel t m (lru(c := p # remove1 p (lru c))) fl refs
      \<and> items_frame s t \<and> same_geometry s t \<and> it_time (mem t p) = current_time s
    else do_item_update p s = Some s"
proof -
  have lv: "live s p (p \<in> ran m) (refs p)" using cache_relD(5) [OF R p] .
  then have nz: "p \<noteq> NULL" "c < LARGEST_ID" "\<not> has_flag ITEM_SLABBED (mem s p)"
    "has_flag ITEM_LINKED (mem s p) \<longleftrightarrow> p \<in> ran m" by (simp_all add: live_def c_def)
  show ?thesis
  proof (cases "stale p s \<and> p \<in> ran m")
    case False
    with nz show ?thesis by (auto simp: do_item_update_def stale_def)
  next
    case True
    then have ran: "p \<in> ran m" by simp
    have "p \<in> set (lru c)" unfolding c_def by (rule cache_rel_queue(1) [OF R ran])
    then obtain as bs where ab: "lru c = as @ p # bs" by (auto simp: in_set_conv_decomp)
    have dist: "distinct (as @ p # bs)" using lru_ok_distinct [OF cache_relD(3) [OF R, of c]] ab by simp
    have rem: "remove1 p (lru c) = as @ bs" using dist by (simp add: ab remove1_append)
    have "lru_shape s c (as @ p # bs)" using lru_okD(1) [OF cache_relD(3) [OF R, of c]] ab by simp
    from item_unlink_q_ok [OF this _ nz(2)] obtain u where u: "item_unlink_q p s = Some u"
      "lru_shape u c (as @ bs)" "queue_frame c (set (as @ bs)) s u" by (auto simp: c_def)
    note uf = queue_frame_fields [OF u(3)] and um = queue_frame_mem [OF u(3)]
    define v where "v = upd_item p (\<lambda>i. i\<lparr>it_time := current_time u\<rparr>) u"
    have vm: "mem v = (mem u)(p := (mem u p)\<lparr>it_time := current_time s\<rparr>)" by (simp add: v_def uf)
    have vfl: "primary_hashtable v = primary_hashtable u" "old_hashtable v = old_hashtable u"
      "hashpower v = hashpower u" "expanding v = expanding u" "expand_bucket v = expand_bucket u"
      "hash_items v = hash_items u" "slabclass v = slabclass u" "stats v = stats u"
      "power_largest v = power_largest u" "heads v = heads u" "tails v = tails u" "sizes v = sizes u"
      by (simp_all add: v_def upd_item_def)
    have "lru_shape v c (as @ bs)"
      by (rule lru_shape_cong [OF u(2)]) (simp_all add: vfl vm)
    moreover have "unat (it_slabs_clsid (mem v p)) = c \<and> \<not> has_flag ITEM_SLABBED (mem v p)"
      using unlinked_view_eqD(7) [OF um(2) [of p]] unlinked_view_key(3) [OF um(2) [of p]] nz(3)
      by (simp add: vm c_def has_flag_def)
    ultimately obtain t where t: "item_link_q p v = Some t" "lru_shape t c (p # as @ bs)"
      "queue_frame c (insert p (set (as @ bs))) v t"
      using item_link_q_ok [of v c "as @ bs" p] nz(1,2) dist by auto
    note tf = queue_frame_fields [OF t(3)] and tm = queue_frame_mem [OF t(3)]
    have out: "x \<noteq> p \<and> x \<notin> set (as @ bs)" if "x \<notin> set (lru c)" for x using that ab by auto
    have same: "it_next (mem t x) = it_next (mem s x) \<and> it_prev (mem t x) = it_prev (mem s x)"
      if "x \<notin> set (lru c)" for x
      using out [OF that] tm(1) [of x] um(1) [of x] by (simp add: vm)
    have step: "do_item_update p s = Some t"
      using True nz u(1) t(1) by (simp add: do_item_update_def stale_def v_def)
    have "cache_rel t m (lru(c := p # as @ bs)) fl refs"
    proof (rule cache_rel_requeue [OF R])
      show "lru_shape t d ((lru(c := p # as @ bs)) d)" for d
      proof (cases "d = c")
        case False
        have "lru_shape t d (lru d)"
        proof (rule lru_shape_cong [OF lru_okD(1) [OF cache_relD(3) [OF R, of d]]])
          fix x assume x: "x \<in> set (lru d)"
          then have "x \<notin> set (lru c)"
            using cache_rel_queue(2) [OF R, of x] cache_relD(4) [OF R, of x] False by metis
          then show "it_next (mem t x) = it_next (mem s x) \<and> it_prev (mem t x) = it_prev (mem s x)"
            by (rule same)
        qed (use um(4) [OF False] tm(4) [OF False] in \<open>simp_all add: vfl\<close>)
        with False show ?thesis by simp
      qed (use t(2) in simp)
      show "set ((lru(c := p # as @ bs)) d) = set (lru d)" for d using ab by auto
      show "unlinked_view ((mem t q)\<lparr>it_time := 0\<rparr>) = unlinked_view ((mem s q)\<lparr>it_time := 0\<rparr>)" for q
        using tm(2) [of q] um(2) [of q]
        by (cases "mem t q"; cases "mem u q"; cases "mem s q"; cases "q = p")
          (auto simp: vm unlinked_view_def)
      show "it_h_next (mem t q) = it_h_next (mem s q)" for q
        using tm(3) [of q] um(3) [of q] by (cases "q = p") (simp_all add: vm)
      show "it_next (mem t q) = it_next (mem s q) \<and> it_prev (mem t q) = it_prev (mem s q)"
        if "q \<in> set (fl d)" for d q
        using cache_rel_not_free [OF R, of q d] cache_relD(4) [OF R, of q] that by (intro same) blast
    qed (simp_all add: tf vfl uf)
    moreover have "items_frame s t"
      using uf(12) tf(12) items_frame_upds(1) unfolding v_def by (blast intro: items_frame_trans)
    moreover have "it_time (mem t p) = current_time s"
      using unlinked_view_eqD(1) [OF tm(2) [of p]] by (simp add: vm)
    ultimately show ?thesis
      using True step by (auto simp: rem same_geometry_def tf vfl uf)
  qed
qed

section \<open>Replacing and touching\<close>

lemma do_item_replace_rel:
  assumes R: "cache_rel s m lru fl refs" and k: "m k = Some p" and b: "refs p + 1 < 65536"
    and q: "q \<notin> ran m" "0 < refs q" "refs q + 1 < 65536" "key_ok (mem s q)" "key_at s q = k"
  shows "\<exists>t lru' fl'. do_item_replace p q (hash_key k) s = Some t \<and> items_frame s t \<and> same_geometry s t
     \<and> cache_rel t (m(k \<mapsto> q)) lru' fl' refs
     \<and> it_time (mem t q) = current_time s \<and> it_exptime (mem t q) = it_exptime (mem s q)
     \<and> it_value (mem t q) = it_value (mem s q)"
proof -
  have pr: "p \<in> ran m" using k by (auto simp: ran_def)
  then have ne: "q \<noteq> p" using q(1) by blast
  have nosl: "\<not> has_flag ITEM_SLABBED (mem s p)"
    using cache_relD(5) [OF R, of p] pr by (simp add: live_def)
  define c where "c = unat (it_slabs_clsid (mem s p))"
  obtain u fl' where u: "do_item_unlink_nolock p (hash_key k) s = Some u" "items_frame s u"
    "same_geometry s u" "cache_rel u (m(k := None)) (lru(c := remove1 p (lru c))) fl' refs"
    "others_kept p (set (fl c)) s u"
    using do_item_unlink_rel [OF R k b] unfolding c_def by blast
  have "q \<notin> set (fl c)" using cache_rel_not_free [OF R, of q c] q(2) by blast
  then have view: "unlinked_view (mem u q) = unlinked_view (mem s q)"
    using u(5) ne by (simp add: others_kept_def)
  note vD = unlinked_view_eqD [OF view] and vK = unlinked_view_key [OF view]
  have "q \<notin> ran (m(k := None))" using q(1) by (auto simp: ran_def split: if_splits)
  moreover have "key_at u q = k" "key_ok (mem u q)" using vK(1,2) q(4,5) by simp_all
  moreover have "(m(k := None))(k \<mapsto> q) = m(k \<mapsto> q)" by simp
  ultimately obtain t lru' where t: "do_item_link q (hash_key k) u = Some t" "items_frame u t"
    "same_geometry u t" "cache_rel t (m(k \<mapsto> q)) lru' fl' refs" "it_time (mem t q) = current_time u"
    "it_exptime (mem t q) = it_exptime (mem u q)" "it_value (mem t q) = it_value (mem u q)"
    using do_item_link_rel [OF u(4), of q] q(2,3) by auto
  have "do_item_replace p q (hash_key k) s = Some t"
    using nosl u(1) t(1) by (simp add: do_item_replace_def do_item_unlink_def)
  moreover have "items_frame s t" "same_geometry s t"
    using u(2,3) t(2,3) items_frame_trans same_geometry_trans by blast+
  ultimately show ?thesis
    using t(4-7) vD items_frameD(2) [OF u(2)] by auto
qed

lemma do_item_touch_rel:
  assumes R: "cache_rel s m lru fl refs" and k: "m k = Some p" "\<not> item_dead p s" "refs p + 2 < 65536"
  shows "\<exists>t. do_item_touch k e (hash_key k) s = Some (p, t) \<and> cache_rel t m lru fl (refs(p := refs p + 1))
     \<and> it_exptime (mem t p) = e \<and> items_frame s t"
proof -
  have "\<And>p'. m k = Some p' \<Longrightarrow> refs p' + 2 < 65536" using k(1,3) by simp
  with do_item_get_rel [OF R, of k] k(1,2) obtain u where u: "do_item_get k (hash_key k) s = Some (p, u)"
    "items_frame s u" "cache_rel u m lru fl (refs(p := refs p + 1))" by auto
  have ran: "p \<in> ran m" using k(1) by (auto simp: ran_def)
  then have nz: "p \<noteq> NULL" using cache_relD(5) [OF R, of p] by (simp add: live_def)
  let ?t = "upd_item p (\<lambda>i. i\<lparr>it_exptime := e\<rparr>) u"
  have "cache_rel ?t m lru fl ((refs(p := refs p + 1))(p := refs p + 1))"
  proof (rule cache_rel_upd_item [OF u(3)])
    show "same_item (mem u p) ((mem u p)\<lparr>it_exptime := e\<rparr>)"
      by (simp add: same_item_def has_flag_def ITEM_ntotal_def)
    show "live ?t p (p \<in> ran m) (refs p + 1)"
      using cache_relD(5) [OF u(3), of p] by (simp add: live_def valid_class_def has_flag_def)
  qed simp
  then have "cache_rel ?t m lru fl (refs(p := refs p + 1))" by simp
  moreover have "items_frame s ?t" by (rule items_frame_trans [OF u(2) items_frame_upds(1)])
  ultimately show ?thesis using u(1) nz by (auto simp: do_item_touch_def)
qed

end
