(* ===== verification/Cache_Alloc.thy ===== *)
theory Cache_Alloc
  imports Cache_Ops
begin

text \<open>
  \<open>do_item_alloc\<close> and \<open>do_item_flush_expired\<close> on the cache: where the memory of a new item
  comes from, which item is given up for it, and what a flush removes.
\<close>

section \<open>Flushing a queue\<close>

lemma map_le_drop: "m(k := None) \<subseteq>\<^sub>m m"
  by (simp add: map_le_def)

lemma ran_map_le: "m' \<subseteq>\<^sub>m m \<Longrightarrow> q \<in> ran m' \<Longrightarrow> q \<in> ran m"
proof -
  assume le: "m' \<subseteq>\<^sub>m m" and "q \<in> ran m'"
  then obtain k where k: "m' k = Some q" by (auto simp: ran_def)
  then have "m k = Some q" using le by (metis domI map_le_def)
  then show ?thesis by (auto simp: ran_def)
qed

lemma queue_next:
  assumes "lru_ok s c (p # ps)"
  shows "heads s c = p" "it_next (mem s p) = (if ps = [] then NULL else hd ps)"
  using assms by (cases ps; auto simp: lru_ok_def lru_shape_def)+

lemma flush_loop_rel:
  assumes "cache_rel s m lru fl refs" "\<And>p. p \<in> ran m \<Longrightarrow> refs p + 1 < 65536"
  shows "\<exists>t m' fl'. flush_loop (heads s c) s = Some t \<and> m' \<subseteq>\<^sub>m m
     \<and> cache_rel t m' (lru(c := dropWhile (\<lambda>p. \<not> it_time (mem s p) < oldest_live (settings s)) (lru c))) fl' refs
     \<and> items_frame s t \<and> same_geometry s t
     \<and> (\<forall>q. q \<in> ran m' \<longrightarrow> unlinked_view (mem t q) = unlinked_view (mem s q))"
  using assms
proof (induction "lru c" arbitrary: s m lru fl)
  case Nil
  note R = Nil.prems(1)
  have "heads s c = NULL" using lru_ok_head [OF cache_relD(3) [OF R, of c]] Nil.hyps by simp
  moreover have "lru(c := []) = lru" using Nil.hyps by (simp add: fun_upd_idem)
  ultimately show ?case
    using R Nil.hyps [symmetric] by (intro exI [of _ s] exI [of _ m] exI [of _ fl]) (simp add: flush_loop.simps)
next
  case (Cons p ps)
  note R = Cons.prems(1) and b = Cons.prems(2)
  have L: "lru_ok s c (p # ps)" using cache_relD(3) [OF R, of c] Cons.hyps(2) by simp
  note nxt = queue_next [OF L]
  have ran: "p \<in> ran m" using cache_relD(4) [OF R] Cons.hyps(2) by (metis list.set_intros(1))
  then obtain k where k: "m k = Some p" by (auto simp: ran_def)
  have key: "key_at s p = k" using assoc_relD(5) [OF cache_relD(1) [OF R] k] .
  have lv: "live s p True (refs p)" using cache_relD(5) [OF R, of p] ran by simp
  then have nz: "p \<noteq> NULL" "\<not> has_flag ITEM_SLABBED (mem s p)" by (simp_all add: live_def)
  have cl: "unat (it_slabs_clsid (mem s p)) = c"
    using cache_rel_queue(2) [OF R ran, of c] Cons.hyps(2) [symmetric] by simp
  show ?case
  proof (cases "it_time (mem s p) < oldest_live (settings s)")
    case True
    then have "flush_loop (heads s c) s = Some s" by (simp add: nxt flush_loop.simps)
    moreover have "lru(c := dropWhile (\<lambda>p. \<not> it_time (mem s p) < oldest_live (settings s)) (lru c)) = lru"
      using True by (simp add: Cons.hyps(2) [symmetric] fun_upd_idem)
    ultimately show ?thesis using R by (intro exI [of _ s] exI [of _ m] exI [of _ fl]) simp
  next
    case False
    obtain u fl' where u: "do_item_unlink_nolock p (hash_key k) s = Some u" "items_frame s u"
      "same_geometry s u" "cache_rel u (m(k := None)) (lru(c := remove1 p (lru c))) fl' refs"
      "others_kept p (set (fl c)) s u"
      using do_item_unlink_rel [OF R k b [OF ran]] unfolding cl by blast
    have rem: "(lru(c := remove1 p (lru c))) c = ps" using Cons.hyps(2) [symmetric] by simp
    have b': "refs q + 1 < 65536" if "q \<in> ran (m(k := None))" for q
      using b [of q] that by (auto simp: ran_def split: if_splits)
    have view: "unlinked_view (mem u q) = unlinked_view (mem s q)" if "q \<in> ran (m(k := None))" for q
    proof -
      have "q \<in> ran m" using that by (auto simp: ran_def split: if_splits)
      moreover have "q \<noteq> p"
        using that assoc_relD(5) [OF cache_relD(1) [OF R]] k by (auto simp: ran_def split: if_splits)
      ultimately show ?thesis
        using u(5) cache_rel_not_free [OF R, of q c] by (simp add: others_kept_def)
    qed
    have hd: "heads u c = it_next (mem s p)"
      using lru_ok_head [OF cache_relD(3) [OF u(4), of c]] rem nxt(2) by simp
    from Cons.hyps(1) [OF rem [symmetric] u(4) b'] obtain t m' fl'' where t:
      "flush_loop (heads u c) u = Some t" "m' \<subseteq>\<^sub>m m(k := None)"
      "cache_rel t m' ((lru(c := remove1 p (lru c)))(c := dropWhile
         (\<lambda>p. \<not> it_time (mem u p) < oldest_live (settings u)) ((lru(c := remove1 p (lru c))) c))) fl'' refs"
      "items_frame u t" "same_geometry u t"
      "\<forall>q. q \<in> ran m' \<longrightarrow> unlinked_view (mem t q) = unlinked_view (mem u q)" by blast
    have psran: "q \<in> ran (m(k := None))" if "q \<in> set ps" for q
      using cache_relD(4) [OF u(4), of q] rem that by metis
    have "dropWhile (\<lambda>p. \<not> it_time (mem u p) < oldest_live (settings u)) ps
        = dropWhile (\<lambda>p. \<not> it_time (mem s p) < oldest_live (settings s)) ps"
      using unlinked_view_eqD(1) [OF view [OF psran]] items_frameD(1) [OF u(2)]
      by (intro dropWhile_cong) auto
    then have "cache_rel t m' (lru(c := dropWhile (\<lambda>p. \<not> it_time (mem s p) < oldest_live (settings s)) (lru c))) fl'' refs"
      using t(3) False unfolding rem by (simp add: Cons.hyps(2) [symmetric])
    moreover have "flush_loop (heads s c) s = Some t"
      using u(1) t(1) nz False key by (simp add: nxt(1) flush_loop.simps [of p] Let_def hd)
    moreover have "m' \<subseteq>\<^sub>m m" by (rule map_le_trans [OF t(2) map_le_drop])
    moreover have "unlinked_view (mem t q) = unlinked_view (mem s q)" if "q \<in> ran m'" for q
    proof -
      have "q \<in> ran (m(k := None))" by (rule ran_map_le [OF t(2) that])
      with view t(6) that show ?thesis by simp
    qed
    ultimately show ?thesis
      using items_frame_trans [OF u(2) t(4)] same_geometry_trans [OF u(3) t(5)] by blast
  qed
qed

lemma flush_queues_rel:
  assumes "cache_rel s m lru fl refs" "\<And>p. p \<in> ran m \<Longrightarrow> refs p + 1 < 65536" "distinct cs"
  shows "\<exists>t m' fl'. flush_queues cs s = Some t \<and> m' \<subseteq>\<^sub>m m
     \<and> cache_rel t m' (\<lambda>c. if c \<in> set cs
          then dropWhile (\<lambda>p. \<not> it_time (mem s p) < oldest_live (settings s)) (lru c) else lru c) fl' refs
     \<and> items_frame s t \<and> (\<forall>q. q \<in> ran m' \<longrightarrow> unlinked_view (mem t q) = unlinked_view (mem s q))"
  using assms
proof (induction cs arbitrary: s m lru fl)
  case Nil
  then show ?case by (intro exI [of _ s] exI [of _ m] exI [of _ fl]) simp
next
  case (Cons c cs)
  let ?P = "\<lambda>s p. \<not> it_time (mem s p) < oldest_live (settings s)"
  obtain u m1 fl1 where u: "flush_loop (heads s c) s = Some u" "m1 \<subseteq>\<^sub>m m"
    "cache_rel u m1 (lru(c := dropWhile (?P s) (lru c))) fl1 refs" "items_frame s u"
    "\<And>q. q \<in> ran m1 \<Longrightarrow> unlinked_view (mem u q) = unlinked_view (mem s q)"
    using flush_loop_rel [OF Cons.prems(1,2), of c] by blast
  have ranle: "q \<in> ran m" if "q \<in> ran m1" for q by (rule ran_map_le [OF u(2) that])
  have b1: "refs p + 1 < 65536" if "p \<in> ran m1" for p using Cons.prems(2) ranle [OF that] by blast
  have "distinct cs" using Cons.prems(3) by simp
  from Cons.IH [OF u(3) b1 this] obtain t m' fl' where t: "flush_queues cs u = Some t" "m' \<subseteq>\<^sub>m m1"
    "cache_rel t m' (\<lambda>d. if d \<in> set cs then dropWhile (?P u) ((lru(c := dropWhile (?P s) (lru c))) d)
        else (lru(c := dropWhile (?P s) (lru c))) d) fl' refs"
    "items_frame u t" "\<And>q. q \<in> ran m' \<Longrightarrow> unlinked_view (mem t q) = unlinked_view (mem u q)"
    by blast
  have same: "dropWhile (?P u) (lru d) = dropWhile (?P s) (lru d)" if "d \<in> set cs" for d
  proof (rule dropWhile_cong [OF refl])
    fix q assume "q \<in> set (lru d)"
    moreover have "d \<noteq> c" using that Cons.prems(3) by auto
    ultimately have "q \<in> ran m1" using cache_relD(4) [OF u(3), of q] by (metis fun_upd_other)
    then show "?P u q = ?P s q"
      using unlinked_view_eqD(1) [OF u(5)] items_frameD(1) [OF u(4)] by simp
  qed
  have "(\<lambda>d. if d \<in> set cs then dropWhile (?P u) ((lru(c := dropWhile (?P s) (lru c))) d)
        else (lru(c := dropWhile (?P s) (lru c))) d)
      = (\<lambda>d. if d \<in> set (c # cs) then dropWhile (?P s) (lru d) else lru d)"
    using same Cons.prems(3) by (auto simp: fun_eq_iff)
  with t(3) have "cache_rel t m' (\<lambda>d. if d \<in> set (c # cs) then dropWhile (?P s) (lru d) else lru d) fl' refs"
    by simp
  moreover have "m' \<subseteq>\<^sub>m m" by (rule map_le_trans [OF t(2) u(2)])
  moreover have "unlinked_view (mem t q) = unlinked_view (mem s q)" if "q \<in> ran m'" for q
  proof -
    have "q \<in> ran m1" by (rule ran_map_le [OF t(2) that])
    with t(5) [OF that] u(5) show ?thesis by simp
  qed
  ultimately show ?case using u(1) t(1) items_frame_trans [OF u(4) t(4)] by auto
qed

end
