(* ===== verification/Slab_Move.thy ===== *)
theory Slab_Move
  imports Cache_Ops
begin

text \<open>
  \<open>slabs.c\<close>, the moving side of the slab rebalancer: the decision of the automover, the three
  steps that empty a page of one class and hand it to another, and one turn of each of the two
  background threads. The steps run under \<open>cache_lock\<close> and \<open>slabs_lock\<close>, so each is a function on
  the state. A result \<open>None\<close> is a failed assertion or an access outside an array.
\<close>

section \<open>State\<close>

text \<open>
  The statics of \<open>slab_automove_decision\<close>, \<open>slab_bulk_check\<close> and the flags that keep the threads
  running; \<open>move_busy\<close> is the local \<open>was_busy\<close> of the rebalance thread.
\<close>

record mover = items +
  evicted_old :: "nat \<Rightarrow> u64"
  slab_zeroes :: "nat \<Rightarrow> u32"
  slab_winner :: nat
  slab_wins :: u32
  next_run :: u32
  slab_bulk_check :: int
  do_run_slab_thread :: bool
  do_run_slab_rebalance_thread :: bool
  move_busy :: nat

definition upd_rebal :: "(slab_rebalance_t \<Rightarrow> slab_rebalance_t) \<Rightarrow> 'a slabs_scheme \<Rightarrow> 'a slabs_scheme" where
  "upd_rebal f s = s\<lparr>slab_rebal := f (slab_rebal s)\<rparr>"

section \<open>Starting a move\<close>

text \<open>The index of a class in \<open>slabclass\<close>, when the array has it.\<close>

definition class_index :: "int \<Rightarrow> nat option" where
  "class_index c = (if 0 \<le> c \<and> c < int MAX_NUMBER_OF_SLAB_CLASSES then Some (nat c) else None)"

definition slab_rebalance_start :: "'a mover_scheme \<Rightarrow> (int \<times> 'a mover_scheme) option" where
  "slab_rebalance_start s = do {
     sc \<leftarrow> class_index (rb_s_clsid (slab_rebal s));
     dc \<leftarrow> class_index (rb_d_clsid (slab_rebal s));
     let no_go = (if \<not> class_in_range (rb_s_clsid (slab_rebal s)) s
           \<or> \<not> class_in_range (rb_d_clsid (slab_rebal s)) s
           \<or> rb_s_clsid (slab_rebal s) = rb_d_clsid (slab_rebal s) then -2 else 0);
     let (grown, s) = grow_slab_list dc s;
     let no_go = (if \<not> grown then -1 else no_go);
     let no_go = (if cls_slabs (slabclass s sc) < 2 then -3 else no_go);
     if no_go \<noteq> 0 then Some (no_go, s)
     else do {
       let s = upd_class sc (\<lambda>p. p\<lparr>cls_killing := 1\<rparr>) s;
       start \<leftarrow> (let p = slabclass s sc in
                 if cls_killing p - 1 < length (cls_slab_list p)
                 then Some (cls_slab_list p ! (cls_killing p - 1)) else None);
       let s = upd_rebal (\<lambda>r. r\<lparr>rb_slab_start := start,
             rb_slab_end := start + cls_size (slabclass s sc) * cls_perslab (slabclass s sc),
             rb_slab_pos := start, rb_done := 0\<rparr>) s;
       let s = s\<lparr>slab_rebalance_signal := 2\<rparr>;
       Some (0, upd_stats (\<lambda>t. t\<lparr>slab_reassign_running := True\<rparr>) s) } }"

section \<open>Emptying the page\<close>

datatype move_status = MOVE_PASS | MOVE_DONE | MOVE_BUSY | MOVE_LOCKED

text \<open>Taking a chunk out of the free list, wherever it stands.\<close>

definition unlink_free_chunk :: "addr \<Rightarrow> nat \<Rightarrow> 'a slabs_scheme \<Rightarrow> 'a slabs_scheme" where
  "unlink_free_chunk it sc s = (let
     s = (if cls_slots (slabclass s sc) = it
          then upd_class sc (\<lambda>p. p\<lparr>cls_slots := it_next (mem s it)\<rparr>) s else s);
     s = (if it_next (mem s it) \<noteq> NULL
          then upd_item (it_next (mem s it)) (\<lambda>i. i\<lparr>it_prev := it_prev (mem s it)\<rparr>) s else s);
     s = (if it_prev (mem s it) \<noteq> NULL
          then upd_item (it_prev (mem s it)) (\<lambda>i. i\<lparr>it_next := it_next (mem s it)\<rparr>) s else s)
   in upd_class sc (\<lambda>p. p\<lparr>cls_sl_curr := cls_sl_curr p - 1\<rparr>) s)"

text \<open>What becomes of the chunk at \<open>it\<close> while its item lock is held.\<close>

definition claim_chunk :: "addr \<Rightarrow> nat \<Rightarrow> 'a mover_scheme \<Rightarrow> (move_status \<times> 'a mover_scheme) option" where
  "claim_chunk it sc s = (case refcount_incr it s of (r, s) \<Rightarrow>
     if r = 1 then
       (if has_flag ITEM_SLABBED (mem s it) then Some (MOVE_DONE, unlink_free_chunk it sc s)
        else Some (MOVE_BUSY, s))
     else if r = 2 then
       (if has_flag ITEM_LINKED (mem s it)
        then map_option (Pair MOVE_DONE) (do_item_unlink_nolock it (hash_key (ITEM_key (mem s it))) s)
        else Some (MOVE_BUSY, s))
     else Some (MOVE_BUSY, s))"

definition try_move :: "addr \<Rightarrow> nat \<Rightarrow> 'a mover_scheme \<Rightarrow> (move_status \<times> 'a mover_scheme) option" where
  "try_move it sc s =
     (if it_slabs_clsid (mem s it) = 255 then Some (MOVE_PASS, s)
      else case item_trylock (hash_key (ITEM_key (mem s it))) s of
        (None, s) \<Rightarrow> Some (MOVE_LOCKED, s)
      | (Some lock, s) \<Rightarrow> do {
          (status, s) \<leftarrow> claim_chunk it sc s;
          s \<leftarrow> item_trylock_unlock lock s;
          Some (status, s) })"

text \<open>The effect of each outcome, and how much it adds to \<open>was_busy\<close>.\<close>

fun settle_move :: "move_status \<Rightarrow> addr \<Rightarrow> 'a mover_scheme \<Rightarrow> nat \<times> 'a mover_scheme" where
  "settle_move MOVE_DONE it s =
     (0, upd_item it (\<lambda>i. i\<lparr>it_refcount := 0, it_flags := 0, it_slabs_clsid := 255\<rparr>) s)"
| "settle_move MOVE_BUSY it s =
     (1, upd_rebal (\<lambda>r. r\<lparr>rb_busy_items := rb_busy_items r + 1\<rparr>) (snd (refcount_decr it s)))"
| "settle_move MOVE_LOCKED it s =
     (1, upd_rebal (\<lambda>r. r\<lparr>rb_busy_items := rb_busy_items r + 1\<rparr>) s)"
| "settle_move MOVE_PASS it s = (0, s)"

fun move_loop :: "nat \<Rightarrow> nat \<Rightarrow> nat \<Rightarrow> 'a mover_scheme \<Rightarrow> (nat \<times> 'a mover_scheme) option" where
  "move_loop 0 sc was_busy s = Some (was_busy, s)"
| "move_loop (Suc x) sc was_busy s = do {
     let it = rb_slab_pos (slab_rebal s);
     (status, s) \<leftarrow> try_move it sc s;
     let (busy, s) = settle_move status it s;
     let s = upd_rebal (\<lambda>r. r\<lparr>rb_slab_pos := rb_slab_pos r + cls_size (slabclass s sc)\<rparr>) s;
     if rb_slab_end (slab_rebal s) \<le> rb_slab_pos (slab_rebal s) then Some (was_busy + busy, s)
     else move_loop x sc (was_busy + busy) s }"

definition slab_rebalance_move :: "'a mover_scheme \<Rightarrow> (nat \<times> 'a mover_scheme) option" where
  "slab_rebalance_move s = do {
     sc \<leftarrow> class_index (rb_s_clsid (slab_rebal s));
     (was_busy, s) \<leftarrow> move_loop (nat (slab_bulk_check s)) sc 0 s;
     let r = slab_rebal s;
     Some (was_busy,
       if rb_slab_end r \<le> rb_slab_pos r then
         (if rb_busy_items r \<noteq> 0
          then upd_rebal (\<lambda>r. r\<lparr>rb_slab_pos := rb_slab_start r, rb_busy_items := 0\<rparr>) s
          else upd_rebal (\<lambda>r. r\<lparr>rb_done := (rb_done r + 1) mod 256\<rparr>) s)
       else s) }"

section \<open>Handing the page over\<close>

text \<open>An assignment to an element of a \<open>slab_list\<close>, which must lie inside the array.\<close>

definition set_slab :: "nat \<Rightarrow> nat \<Rightarrow> addr \<Rightarrow> 'a slabs_scheme \<Rightarrow> 'a slabs_scheme option" where
  "set_slab c i page s =
     (if i < length (cls_slab_list (slabclass s c))
      then Some (upd_class c (\<lambda>p. p\<lparr>cls_slab_list := (cls_slab_list p)[i := page]\<rparr>) s) else None)"

definition slab_rebalance_finish :: "'a mover_scheme \<Rightarrow> 'a mover_scheme option" where
  "slab_rebalance_finish s = do {
     sc \<leftarrow> class_index (rb_s_clsid (slab_rebal s));
     dc \<leftarrow> class_index (rb_d_clsid (slab_rebal s));
     let start = rb_slab_start (slab_rebal s);
     let p = slabclass s sc;
     last \<leftarrow> (if 0 < cls_slabs p \<and> cls_slabs p - 1 < length (cls_slab_list p) \<and> 0 < cls_killing p
             then Some (cls_slab_list p ! (cls_slabs p - 1)) else None);
     s \<leftarrow> set_slab sc (cls_killing p - 1) last s;
     let s = upd_class sc (\<lambda>p. p\<lparr>cls_slabs := cls_slabs p - 1, cls_killing := 0\<rparr>) s;
     let s = zero_range start (item_size_max (settings s)) s;
     s \<leftarrow> set_slab dc (cls_slabs (slabclass s dc)) start s;
     let s = upd_class dc (\<lambda>p. p\<lparr>cls_slabs := cls_slabs p + 1\<rparr>) s;
     s \<leftarrow> split_slab_page_into_freelist start dc s;
     let s = upd_rebal (\<lambda>r. r\<lparr>rb_done := 0, rb_s_clsid := 0, rb_d_clsid := 0, rb_slab_start := NULL,
           rb_slab_end := NULL, rb_slab_pos := NULL\<rparr>) s;
     let s = s\<lparr>slab_rebalance_signal := 0\<rparr>;
     Some (upd_stats (\<lambda>t. t\<lparr>slab_reassign_running := False, slabs_moved := slabs_moved t + 1\<rparr>) s) }"

section \<open>The rebalance thread\<close>

text \<open>
  One turn of the loop of \<open>slab_rebalance_thread\<close>, which holds \<open>slabs_rebalance_lock\<close>; it waits on
  the condition variable, and so lets requests in, when it ends with no move under way.
\<close>

definition rebalance_turn :: "'a mover_scheme \<Rightarrow> 'a mover_scheme option" where
  "rebalance_turn s = do {
     s \<leftarrow> (if slab_rebalance_signal s = 1 then do {
             (r, s) \<leftarrow> slab_rebalance_start s;
             Some ((if r < 0 then s\<lparr>slab_rebalance_signal := 0\<rparr> else s)\<lparr>move_busy := 0\<rparr>) }
           else if slab_rebalance_signal s \<noteq> 0 \<and> rb_slab_start (slab_rebal s) \<noteq> NULL then do {
             (b, s) \<leftarrow> slab_rebalance_move s;
             Some (s\<lparr>move_busy := b\<rparr>) }
           else Some s);
     s \<leftarrow> (if rb_done (slab_rebal s) \<noteq> 0 then slab_rebalance_finish s else Some s);
     Some (s\<lparr>rebalance_busy := slab_rebalance_signal s \<noteq> 0\<rparr>) }"

definition slab_rebalance_thread :: "'a mover_scheme \<Rightarrow> 'a mover_scheme option" where
  "slab_rebalance_thread s =
     (if do_run_slab_rebalance_thread s then rebalance_turn s else Some s)"

section \<open>The automover\<close>

definition item_stats_evictions :: "'a items_scheme \<Rightarrow> nat \<Rightarrow> u64" where
  "item_stats_evictions s = (\<lambda>i. is_evicted (itemstats s i))"

text \<open>The scan: the source found, the class with the most evictions, and how many they are.\<close>

fun automove_scan :: "nat list \<Rightarrow> (nat \<Rightarrow> u64) \<Rightarrow> (nat \<Rightarrow> nat) \<Rightarrow> nat \<Rightarrow> nat \<Rightarrow> u64 \<Rightarrow> 'a mover_scheme
    \<Rightarrow> nat \<times> nat \<times> 'a mover_scheme" where
  "automove_scan [] evicted_new total_pages source highest_slab evicted_max s = (source, highest_slab, s)"
| "automove_scan (i # is) evicted_new total_pages source highest_slab evicted_max s = (let
     evicted_diff = evicted_new i - evicted_old s i;
     (source, highest_slab, evicted_max, s) =
       (if evicted_diff = 0 \<and> 2 < total_pages i then
          (let s = s\<lparr>slab_zeroes := (slab_zeroes s)(i := slab_zeroes s i + 1)\<rparr> in
           (if source = 0 \<and> 3 \<le> slab_zeroes s i then i else source, highest_slab, evicted_max, s))
        else
          (let s = s\<lparr>slab_zeroes := (slab_zeroes s)(i := 0)\<rparr> in
           if evicted_max < evicted_diff then (source, i, evicted_diff, s)
           else (source, highest_slab, evicted_max, s)))
   in automove_scan is evicted_new total_pages source highest_slab evicted_max
        (s\<lparr>evicted_old := (evicted_old s)(i := evicted_new i)\<rparr>))"

definition slab_automove_decision :: "'a mover_scheme \<Rightarrow> (nat \<times> nat) option \<times> 'a mover_scheme" where
  "slab_automove_decision s =
     (if current_time s < next_run s then (None, s)
      else let
        s = s\<lparr>next_run := current_time s + 10\<rparr>;
        (source, highest_slab, s) = automove_scan [POWER_SMALLEST..<power_largest s]
          (item_stats_evictions s) (\<lambda>i. cls_slabs (slabclass s i)) 0 0 0 s;
        (dest, s) =
          (if slab_winner s \<noteq> 0 \<and> slab_winner s = highest_slab then
             (let s = s\<lparr>slab_wins := slab_wins s + 1\<rparr> in
              (if 3 \<le> slab_wins s then slab_winner s else 0, s))
           else (0, s\<lparr>slab_wins := 1, slab_winner := highest_slab\<rparr>))
      in (if source \<noteq> 0 \<and> dest \<noteq> 0 then Some (source, dest) else None, s))"

text \<open>One turn of \<open>slab_maintenance_thread\<close>; between turns it sleeps.\<close>

definition slab_maintenance_thread :: "'a mover_scheme \<Rightarrow> 'a mover_scheme" where
  "slab_maintenance_thread s =
     (if do_run_slab_thread s \<and> slab_automove (settings s) = 1 then
        (case slab_automove_decision s of
           (Some (src, dest), s) \<Rightarrow> snd (slabs_reassign (int src) (int dest) s)
         | (None, s) \<Rightarrow> s)
      else s)"

section \<open>Starting and stopping the threads\<close>

text \<open>\<open>env\<close> is \<open>MEMCACHED_SLAB_BULK_CHECK\<close> as \<open>atoi\<close> reads it.\<close>

definition start_slab_maintenance_thread :: "int option \<Rightarrow> 'a mover_scheme \<Rightarrow> 'a mover_scheme" where
  "start_slab_maintenance_thread env s = (let
     s = s\<lparr>slab_rebalance_signal := 0\<rparr>;
     s = upd_rebal (\<lambda>r. r\<lparr>rb_slab_start := NULL\<rparr>) s
   in (case env of None \<Rightarrow> s | Some n \<Rightarrow> s\<lparr>slab_bulk_check := (if n = 0 then 1 else n)\<rparr>))"

definition stop_slab_maintenance_thread :: "'a mover_scheme \<Rightarrow> 'a mover_scheme" where
  "stop_slab_maintenance_thread s =
     s\<lparr>do_run_slab_thread := False, do_run_slab_rebalance_thread := False\<rparr>"

definition slabs_rebalancer_pause :: "'a reassign_scheme \<Rightarrow> 'a reassign_scheme option" where
  "slabs_rebalancer_pause s = (if rebalance_busy s then None else Some (s\<lparr>rebalance_busy := True\<rparr>))"

definition slabs_rebalancer_resume :: "'a reassign_scheme \<Rightarrow> 'a reassign_scheme" where
  "slabs_rebalancer_resume s = s\<lparr>rebalance_busy := False\<rparr>"

section \<open>What the automover decides\<close>

lemma automove_scan_frame:
  "automove_scan is en tp src hi mx s = (src', hi', t)
   \<Longrightarrow> slab_winner t = slab_winner s \<and> slab_wins t = slab_wins s \<and> next_run t = next_run s
     \<and> power_largest t = power_largest s
     \<and> (\<forall>i. i \<notin> set is \<longrightarrow> slab_zeroes t i = slab_zeroes s i \<and> evicted_old t i = evicted_old s i)"
proof (induction "is" arbitrary: src hi mx s)
  case (Cons i "is")
  show ?case
    using Cons.prems by (auto simp: Let_def split: if_splits dest!: Cons.IH)
qed simp

text \<open>Evictions of a class since the last scan.\<close>

abbreviation evictions_since :: "(nat \<Rightarrow> u64) \<Rightarrow> 'a mover_scheme \<Rightarrow> nat \<Rightarrow> u64" where
  "evictions_since en s i \<equiv> en i - evicted_old s i"

lemma automove_scan_source:
  assumes "automove_scan is en tp src hi mx s = (src', hi', t)" "distinct is" "src' \<noteq> src"
  shows "src = 0 \<and> src' \<in> set is \<and> evictions_since en s src' = 0 \<and> 2 < tp src' \<and> 3 \<le> slab_zeroes t src'"
  using assms
proof (induction "is" arbitrary: src hi mx s)
  case (Cons i "is")
  define z where "z = (if evictions_since en s i = 0 \<and> 2 < tp i then slab_zeroes s i + 1 else 0)"
  define u where "u = s\<lparr>slab_zeroes := (slab_zeroes s)(i := z), evicted_old := (evicted_old s)(i := en i)\<rparr>"
  define src1 where "src1 = (if evictions_since en s i = 0 \<and> 2 < tp i \<and> src = 0 \<and> 3 \<le> z then i else src)"
  obtain hi1 mx1 where run: "automove_scan is en tp src1 hi1 mx1 u = (src', hi', t)"
    using Cons.prems(1) by (auto simp: Let_def u_def src1_def z_def split: if_splits)
  show ?case
  proof (cases "src' = src1")
    case True
    moreover from this Cons.prems(3) have "src1 = i" "evictions_since en s i = 0" "2 < tp i" "src = 0" "3 \<le> z"
      by (auto simp: src1_def split: if_splits)
    moreover have "slab_zeroes t i = z"
      using automove_scan_frame [OF run] Cons.prems(2) by (simp add: u_def)
    ultimately show ?thesis by simp
  next
    case False
    from Cons.IH [OF run _ False] Cons.prems(2) show ?thesis
      by (auto simp: src1_def u_def split: if_splits)
  qed
qed simp

lemma automove_scan_highest:
  assumes "automove_scan is en tp src hi mx s = (src', hi', t)" "distinct is"
  shows "hi' = hi \<and> (\<forall>i \<in> set is. evictions_since en s i \<le> mx)
    \<or> hi' \<in> set is \<and> mx < evictions_since en s hi'
      \<and> (\<forall>i \<in> set is. evictions_since en s i \<le> evictions_since en s hi')"
  using assms
proof (induction "is" arbitrary: src hi mx s)
  case (Cons i "is")
  define z where "z = (if evictions_since en s i = 0 \<and> 2 < tp i then slab_zeroes s i + 1 else 0)"
  define u where "u = s\<lparr>slab_zeroes := (slab_zeroes s)(i := z), evicted_old := (evicted_old s)(i := en i)\<rparr>"
  define up where "up \<longleftrightarrow> mx < evictions_since en s i"
  obtain src1 where run: "automove_scan is en tp src1 (if up then i else hi)
      (if up then evictions_since en s i else mx) u = (src', hi', t)"
    using Cons.prems(1) by (auto simp: Let_def u_def z_def up_def word_neq_0_conv split: if_splits)
  have same: "evictions_since en u j = evictions_since en s j" if "j \<in> set is" for j
    using that Cons.prems(2) by (auto simp: u_def)
  from Cons.IH [OF run] Cons.prems(2) same show ?case
    by (auto simp: up_def not_less split: if_splits intro: order.trans less_imp_le less_le_trans)
qed simp

lemma automove_scan_counts:
  assumes "automove_scan is en tp src hi mx s = (src', hi', t)" "distinct is" "i \<in> set is"
  shows "evicted_old t i = en i"
    "slab_zeroes t i = (if evictions_since en s i = 0 \<and> 2 < tp i then slab_zeroes s i + 1 else 0)"
proof -
  have "evicted_old t i = en i
    \<and> slab_zeroes t i = (if evictions_since en s i = 0 \<and> 2 < tp i then slab_zeroes s i + 1 else 0)"
    using assms
  proof (induction "is" arbitrary: src hi mx s)
    case (Cons j "is")
    define z where "z = (if evictions_since en s j = 0 \<and> 2 < tp j then slab_zeroes s j + 1 else 0)"
    define u where "u = s\<lparr>slab_zeroes := (slab_zeroes s)(j := z), evicted_old := (evicted_old s)(j := en j)\<rparr>"
    obtain src1 hi1 mx1 where run: "automove_scan is en tp src1 hi1 mx1 u = (src', hi', t)"
      using Cons.prems(1) by (auto simp: Let_def u_def z_def split: if_splits)
    show ?case
    proof (cases "i = j")
      case True
      with automove_scan_frame [OF run] Cons.prems(2) show ?thesis by (simp add: u_def z_def)
    next
      case False
      with Cons.IH [OF run] Cons.prems(2,3) show ?thesis by (simp add: u_def)
    qed
  qed simp
  then show "evicted_old t i = en i"
    "slab_zeroes t i = (if evictions_since en s i = 0 \<and> 2 < tp i then slab_zeroes s i + 1 else 0)" by simp_all
qed

section \<open>Windows\<close>

text \<open>
  A window is what one look of the automover sees: for every class the evictions since the look before and the
  pages it has.
\<close>

type_synonym window = "(nat \<Rightarrow> u64) \<times> (nat \<Rightarrow> nat)"

definition window_of :: "'a mover_scheme \<Rightarrow> window" where
  "window_of s = (evictions_since (item_stats_evictions s) s, \<lambda>i. cls_slabs (slabclass s i))"

definition spare :: "nat \<Rightarrow> window \<Rightarrow> bool" where
  "spare c w \<longleftrightarrow> fst w c = 0 \<and> 2 < snd w c"

definition led :: "nat set \<Rightarrow> nat \<Rightarrow> window \<Rightarrow> bool" where
  "led C c w \<longleftrightarrow> c \<in> C \<and> 0 < fst w c \<and> (\<forall>d \<in> C. fst w d \<le> fst w c)"

abbreviation scanned :: "'a mover_scheme \<Rightarrow> nat set" where
  "scanned s \<equiv> {POWER_SMALLEST..<power_largest s}"

text \<open>
  The states between the turns of the automover with the windows it has looked at, the last one first: the statics
  start as zero, the rest of the program changes everything but them and the number of classes, and a turn that is due
  looks at a window.
\<close>

inductive automover_reach :: "mover \<Rightarrow> window list \<Rightarrow> bool" where
  start: "\<lbrakk>\<forall>i. evicted_old s i = 0 \<and> slab_zeroes s i = 0; slab_winner s = 0; slab_wins s = 0; next_run s = 0\<rbrakk>
    \<Longrightarrow> automover_reach s []"
| world: "\<lbrakk>automover_reach s ws; evicted_old t = evicted_old s; slab_zeroes t = slab_zeroes s; slab_winner t = slab_winner s;
     slab_wins t = slab_wins s; next_run t = next_run s; power_largest t = power_largest s\<rbrakk> \<Longrightarrow> automover_reach t ws"
| turn: "\<lbrakk>automover_reach s ws; slab_automove_decision s = (r, t)\<rbrakk>
    \<Longrightarrow> automover_reach t (if current_time s < next_run s then ws else window_of s # ws)"

text \<open>The counters count the last windows in a row.\<close>

definition counts_windows :: "'a mover_scheme \<Rightarrow> window list \<Rightarrow> bool" where
  "counts_windows s ws \<longleftrightarrow> (\<forall>c \<in> scanned s. unat (slab_zeroes s c) \<le> length ws \<and> list_all (spare c) (take (unat (slab_zeroes s c)) ws))
     \<and> (slab_winner s \<noteq> 0 \<longrightarrow> unat (slab_wins s) \<le> length ws
          \<and> list_all (led (scanned s) (slab_winner s)) (take (unat (slab_wins s)) ws))"

lemma run_grows:
  fixes z :: u32
  assumes "unat z \<le> length ws" "list_all P (take (unat z) ws)" "P w"
  shows "unat (z + 1) \<le> length (w # ws) \<and> list_all P (take (unat (z + 1)) (w # ws))"
  using assms by (cases "z + 1 = 0") (simp_all add: unatSuc add.commute)

text \<open>A look at a window, as one step on the counters.\<close>

lemma automove_look:
  assumes "slab_automove_decision s = (r, t)" "\<not> current_time s < next_run s"
  obtains hi where
    "\<And>c. c \<in> scanned s \<Longrightarrow> slab_zeroes t c = (if spare c (window_of s) then slab_zeroes s c + 1 else 0)"
    "hi = 0 \<or> led (scanned s) hi (window_of s)"
    "slab_winner t = hi"
    "slab_wins t = (if slab_winner s \<noteq> 0 \<and> slab_winner s = hi then slab_wins s + 1 else 1)"
    "power_largest t = power_largest s" "next_run t = current_time s + 10"
    "\<And>src dst. r = Some (src, dst) \<Longrightarrow> src \<in> scanned s \<and> spare src (window_of s) \<and> 3 \<le> slab_zeroes t src
       \<and> dst \<noteq> 0 \<and> dst = slab_winner s \<and> dst = hi \<and> 3 \<le> slab_wins t"
proof -
  let ?s = "s\<lparr>next_run := current_time s + 10\<rparr>" and ?is = "[POWER_SMALLEST..<power_largest s]"
  obtain src hi u where run: "automove_scan ?is (item_stats_evictions s)
      (\<lambda>i. cls_slabs (slabclass s i)) 0 0 0 ?s = (src, hi, u)" by (cases "automove_scan ?is (item_stats_evictions s)
      (\<lambda>i. cls_slabs (slabclass s i)) 0 0 0 ?s") auto
  note fr = automove_scan_frame [OF run] and cn = automove_scan_counts [OF run distinct_upt]
  have rt: "(r, t) = (let (dest, s) =
          (if slab_winner u \<noteq> 0 \<and> slab_winner u = hi then
             (let s = u\<lparr>slab_wins := slab_wins u + 1\<rparr> in
              (if 3 \<le> slab_wins s then slab_winner s else 0, s))
           else (0, u\<lparr>slab_wins := 1, slab_winner := hi\<rparr>))
      in (if src \<noteq> 0 \<and> dest \<noteq> 0 then Some (src, dest) else None, s))"
    using assms run by (simp add: slab_automove_decision_def item_stats_evictions_def)
  have z: "slab_zeroes t = slab_zeroes u" "power_largest t = power_largest u" "next_run t = next_run u"
    using rt by (auto simp: Let_def split: if_splits)
  show thesis
  proof (rule that)
    show "slab_zeroes t c = (if spare c (window_of s) then slab_zeroes s c + 1 else 0)" if "c \<in> scanned s" for c
      using cn(2) [of c] that by (simp add: z spare_def window_of_def item_stats_evictions_def)
    show "hi = 0 \<or> led (scanned s) hi (window_of s)"
      using automove_scan_highest [OF run] by (auto simp: led_def window_of_def item_stats_evictions_def)
    show "slab_winner t = hi" "slab_wins t = (if slab_winner s \<noteq> 0 \<and> slab_winner s = hi then slab_wins s + 1 else 1)"
      using rt fr by (auto simp: Let_def split: if_splits)
    show "power_largest t = power_largest s" "next_run t = current_time s + 10" using z fr by simp_all
    show "src' \<in> scanned s \<and> spare src' (window_of s) \<and> 3 \<le> slab_zeroes t src'
       \<and> dst \<noteq> 0 \<and> dst = slab_winner s \<and> dst = hi \<and> 3 \<le> slab_wins t" if r: "r = Some (src', dst)" for src' dst
    proof -
      have d: "src' = src" "src \<noteq> 0" "dst \<noteq> 0" "dst = slab_winner s" "dst = hi" "3 \<le> slab_wins t"
        using rt r fr by (auto simp: Let_def split: if_splits)
      with automove_scan_source [OF run _ d(2)] z show ?thesis
        by (simp add: spare_def window_of_def item_stats_evictions_def)
    qed
  qed
qed

lemma look_counts:
  assumes "counts_windows s ws" "slab_automove_decision s = (r, t)" "\<not> current_time s < next_run s"
  shows "counts_windows t (window_of s # ws)"
proof -
  obtain hi where h: "\<And>c. c \<in> scanned s \<Longrightarrow> slab_zeroes t c = (if spare c (window_of s) then slab_zeroes s c + 1 else 0)"
    "hi = 0 \<or> led (scanned s) hi (window_of s)" "slab_winner t = hi"
    "slab_wins t = (if slab_winner s \<noteq> 0 \<and> slab_winner s = hi then slab_wins s + 1 else 1)"
    "power_largest t = power_largest s" by (rule automove_look [OF assms(2,3)]) blast
  have "unat (slab_zeroes t c) \<le> length (window_of s # ws)
      \<and> list_all (spare c) (take (unat (slab_zeroes t c)) (window_of s # ws))" if "c \<in> scanned s" for c
  proof (cases "spare c (window_of s)")
    case True
    with run_grows [of "slab_zeroes s c" ws "spare c" "window_of s"] assms(1) h(1) [OF that] that
    show ?thesis unfolding counts_windows_def by metis
  qed (simp add: h(1) [OF that])
  moreover have "unat (slab_wins t) \<le> length (window_of s # ws)
      \<and> list_all (led (scanned s) hi) (take (unat (slab_wins t)) (window_of s # ws))" if "hi \<noteq> 0"
  proof (cases "slab_winner s = hi")
    case True
    with run_grows [of "slab_wins s" ws "led (scanned s) hi" "window_of s"] assms(1) h(2,4) that
    show ?thesis unfolding counts_windows_def by metis
  next
    case False
    with h(2,4) that show ?thesis by simp
  qed
  ultimately show ?thesis unfolding counts_windows_def h(3,5) by blast
qed

lemma automover_reach_counts: "automover_reach s ws \<Longrightarrow> counts_windows s ws"
proof (induction rule: automover_reach.induct)
  case (turn s ws r t)
  show ?case
  proof (cases "current_time s < next_run s")
    case True
    with turn show ?thesis by (simp add: slab_automove_decision_def)
  next
    case False
    with look_counts [OF turn.IH turn.hyps(2)] show ?thesis by simp
  qed
qed (simp_all add: counts_windows_def)

lemma three_windows:
  fixes z :: u32
  assumes "3 \<le> z" "unat z \<le> length (w # ws)" "list_all P (take (unat z) (w # ws))"
  shows "\<exists>w2 w3 rest. ws = w2 # w3 # rest \<and> P w \<and> P w2 \<and> P w3"
proof -
  have "3 \<le> unat z" using assms(1) by (simp add: word_le_nat_alt)
  then obtain k where "unat z = 3 + k" using le_Suc_ex by blast
  then have k: "unat z = Suc (Suc (Suc k))" by simp
  with assms(2) have "2 \<le> length ws" by simp
  then obtain w2 w3 rest where "ws = w2 # w3 # rest" by (cases ws; cases "tl ws") auto
  with assms(3) k show ?thesis by simp
qed

text \<open>
  Property C35.
  Over the whole run of the automover, whatever the rest of the program does between its turns: when it decides on a
  move, the turn was due and the windows of this and of the two looks before it agree. In all three the destination
  evicted something and no class evicted more, and in all three the source evicted nothing and had more than two
  pages. The two are different classes, and the automover looks again after ten seconds at the earliest.
\<close>

theorem automove_decision_sound:
  assumes "automover_reach s ws" "slab_automove_decision s = (Some (src, dst), t)"
  shows "\<exists>w2 w3 rest. ws = w2 # w3 # rest
    \<and> (\<forall>w \<in> {window_of s, w2, w3}. led (scanned s) dst w \<and> spare src w)
    \<and> src \<in> scanned s \<and> src \<noteq> dst \<and> next_run s \<le> current_time s \<and> next_run t = current_time s + 10"
proof -
  have due: "\<not> current_time s < next_run s" using assms(2) by (auto simp: slab_automove_decision_def)
  note C = look_counts [OF automover_reach_counts [OF assms(1)] assms(2) due]
  obtain hi where h: "slab_winner t = hi" "power_largest t = power_largest s" "next_run t = current_time s + 10"
    "src \<in> scanned s" "3 \<le> slab_zeroes t src" "dst \<noteq> 0" "dst = hi" "3 \<le> slab_wins t"
    by (rule automove_look [OF assms(2) due]) blast
  from C h have n: "unat (slab_zeroes t src) \<le> length (window_of s # ws)"
    "list_all (spare src) (take (unat (slab_zeroes t src)) (window_of s # ws))"
    "unat (slab_wins t) \<le> length (window_of s # ws)"
    "list_all (led (scanned s) dst) (take (unat (slab_wins t)) (window_of s # ws))"
    unfolding counts_windows_def by simp_all
  obtain w2 w3 rest where w: "ws = w2 # w3 # rest" "spare src (window_of s)" "spare src w2" "spare src w3"
    using three_windows [OF h(5) n(1,2)] by blast
  moreover have l: "led (scanned s) dst (window_of s)" "led (scanned s) dst w2" "led (scanned s) dst w3"
    using three_windows [OF h(8) n(3,4)] w(1) by auto
  ultimately have "src \<noteq> dst" by (auto simp: spare_def led_def)
  with w l h due show ?thesis by (auto simp: not_less)
qed

text \<open>An example: class 1 has four pages and evicts nothing, class 2 evicts.\<close>

definition mover_boot :: mover where
  "mover_boot = items.extend (reassign.extend (slabs.extend (slabs_boot\<lparr>power_largest := 3,
       current_time := 100,
       slabclass := (\<lambda>_. empty_class)(1 := empty_class\<lparr>cls_slabs := 4\<rparr>)\<rparr>)
     \<lparr>reassign_cur = 0, rebalance_busy = False\<rparr>)
     \<lparr>heads = (\<lambda>_. NULL), tails = (\<lambda>_. NULL),
       itemstats = (\<lambda>_. zero_itemstats)(2 := zero_itemstats\<lparr>is_evicted := 9\<rparr>),
       sizes = (\<lambda>_. 0), cas_id = 0, item_lock_count = 1024, held_locks = {}, busy_locks = {}\<rparr>)
     \<lparr>evicted_old = (\<lambda>_. 0), slab_zeroes = (\<lambda>_. 0)(1 := 2), slab_winner = 2, slab_wins = 2,
       next_run = 90, slab_bulk_check = 1, do_run_slab_thread = True,
       do_run_slab_rebalance_thread = True, move_busy = 0\<rparr>"

definition mover_at :: "u32 \<Rightarrow> nat \<Rightarrow> u32 \<Rightarrow> u64 \<Rightarrow> u32 \<Rightarrow> u64 \<Rightarrow> u32 \<Rightarrow> mover" where
  "mover_at zeroes winner wins old now evicted nxt = mover_boot\<lparr>current_time := now,
     itemstats := (\<lambda>_. zero_itemstats)(2 := zero_itemstats\<lparr>is_evicted := evicted\<rparr>),
     evicted_old := (\<lambda>_. 0)(2 := old), slab_zeroes := (\<lambda>_. 0)(1 := zeroes), slab_winner := winner,
     slab_wins := wins, next_run := nxt\<rparr>"

lemma mover_at_fields [simp]:
  "current_time (mover_at z w n old now ev nr) = now" "evicted_old (mover_at z w n old now ev nr) = (\<lambda>_. 0)(2 := old)"
  "slab_zeroes (mover_at z w n old now ev nr) = (\<lambda>_. 0)(1 := z)" "slab_winner (mover_at z w n old now ev nr) = w"
  "slab_wins (mover_at z w n old now ev nr) = n" "next_run (mover_at z w n old now ev nr) = nr"
  "power_largest (mover_at z w n old now ev nr) = 3"
  "itemstats (mover_at z w n old now ev nr) = (\<lambda>_. zero_itemstats)(2 := zero_itemstats\<lparr>is_evicted := ev\<rparr>)"
  "slabclass (mover_at z w n old now ev nr) = (\<lambda>_. empty_class)(1 := empty_class\<lparr>cls_slabs := 4\<rparr>)"
  by (simp_all add: mover_at_def mover_boot_def slabs.defs reassign.defs items.defs)

lemma mover_at_look:
  assumes "nr \<le> now" "old < ev"
  shows "slab_automove_decision (mover_at z w n old now ev nr)
    = (if 3 \<le> z + 1 \<and> w = 2 \<and> 3 \<le> n + 1 then Some (1, 2) else None,
       mover_at (z + 1) 2 (if w = 2 then n + 1 else 1) ev now ev (now + 10))"
proof -
  have upt: "[Suc 0..<3] = [Suc 0, 2]" by (simp add: upt_rec)
  have f: "(\<lambda>_. 0 :: u64)(2 := old, Suc 0 := 0, 2 := ev) = (\<lambda>_. 0)(2 := ev)"
    "(\<lambda>_. 0 :: u32)(Suc 0 := x, 2 := 0) = (\<lambda>_. 0)(Suc 0 := x)" for x by (simp_all add: fun_eq_iff)
  have n: "\<not> now < nr" "ev \<noteq> old" "ev - old \<noteq> 0" "0 < ev - old" using assms by (auto simp: word_gt_0)
  have e: "is_evicted zero_itemstats = 0" "cls_slabs empty_class = 0" by (simp_all add: zero_itemstats_def empty_class_def)
  show ?thesis unfolding slab_automove_decision_def POWER_SMALLEST_def
    by (simp add: upt item_stats_evictions_def n e Let_def f) (simp add: mover_at_def f)
qed

lemma mover_at_reach: "automover_reach (mover_at 0 0 0 0 100 9 0) []"
  by (rule automover_reach.start) simp_all

theorem automove_decision_sound_witness:
  "\<exists>ws. automover_reach (mover_at 2 2 2 10 120 11 120) ws
     \<and> slab_automove_decision (mover_at 2 2 2 10 120 11 120) = (Some (1, 2), mover_at 3 2 3 11 120 11 130) \<and> (\<forall>w \<in> set (take 2 ws). led {1, 2} 2 w \<and> spare 1 w)"
proof -
  have "automover_reach (mover_at 1 2 1 9 100 9 110) [window_of (mover_at 0 0 0 0 100 9 0)]"
    using automover_reach.turn [OF mover_at_reach mover_at_look [of 0 100 0 9 0 0 0]] by simp
  then obtain w where a1: "automover_reach (mover_at 1 2 1 9 100 9 110) [w]" by blast
  have b1: "automover_reach (mover_at 1 2 1 9 110 10 110) [w]" by (rule automover_reach.world [OF a1]) simp_all
  have "automover_reach (mover_at 2 2 2 10 110 10 120) [window_of (mover_at 1 2 1 9 110 10 110), w]"
    using automover_reach.turn [OF b1 mover_at_look [of 110 110 9 10 1 2 1]] by simp
  then obtain v where a2: "automover_reach (mover_at 2 2 2 10 110 10 120) [v, w]" by blast
  have r2: "automover_reach (mover_at 2 2 2 10 120 11 120) [v, w]" by (rule automover_reach.world [OF a2]) simp_all
  have d: "slab_automove_decision (mover_at 2 2 2 10 120 11 120) = (Some (1, 2), mover_at 3 2 3 11 120 11 130)"
    using mover_at_look [of 120 120 10 11 2 2 2] by simp
  have "{POWER_SMALLEST..<3} = {1, 2 :: nat}" by (auto simp: POWER_SMALLEST_def)
  with automove_decision_sound [OF r2 d] r2 d show ?thesis by (intro exI [of _ "[v, w]"]) auto
qed

section \<open>A page for the destination class during a move\<close>

lemma split_slab_page_lists:
  "split_slab_page n ptr c s = Some t \<Longrightarrow> cls_slabs (slabclass t d) = cls_slabs (slabclass s d)
     \<and> cls_slab_list (slabclass t d) = cls_slab_list (slabclass s d)"
proof (induction n arbitrary: ptr s)
  case (Suc n)
  from Suc.prems obtain u where u: "do_slabs_free ptr 0 c s = Some u"
    "split_slab_page n (ptr + cls_size (slabclass u c)) c u = Some t"
    by (auto simp: Option.bind_eq_Some_conv)
  from Suc.IH [OF u(2)] do_slabs_free_frame(5,6) [OF u(1)] show ?case by simp
qed simp

lemma memory_allocate_class: "slabclass (snd (memory_allocate n s)) = slabclass s"
  by (simp add: memory_allocate_def malloc_def Let_def split: list.splits)

lemma newslab_lists:
  assumes "do_slabs_newslab c s = Some (True, t)" "cls_slabs (slabclass s c) < length (cls_slab_list (slabclass s c))"
  shows "cls_slabs (slabclass t c) = cls_slabs (slabclass s c) + 1"
    "length (cls_slab_list (slabclass t c)) = length (cls_slab_list (slabclass s c))"
proof -
  have g: "grow_slab_list c s = (True, s)"
    using assms(2) by (simp add: grow_slab_list_def Let_def)
  obtain ptr u where a: "memory_allocate (page_len c s) s = (ptr, u)" by fastforce
  with memory_allocate_class [of "page_len c s" s] have u: "slabclass u = slabclass s" by simp
  from assms(1) g a obtain v where
    v: "split_slab_page_into_freelist ptr c (zero_range ptr (page_len c s) u) = Some v"
    and t: "slabclass t c = (slabclass v c)\<lparr>cls_slab_list := (cls_slab_list (slabclass v c))
        [cls_slabs (slabclass v c) := ptr], cls_slabs := cls_slabs (slabclass v c) + 1\<rparr>"
    by (auto simp: do_slabs_newslab_def Let_def Option.bind_eq_Some_conv split: if_splits)
  have z: "slabclass (zero_range ptr (page_len c s) u) = slabclass s"
    using u by (simp add: zero_range_def)
  from split_slab_page_lists [OF v [unfolded split_slab_page_into_freelist_def], of c] z
  have "cls_slabs (slabclass v c) = cls_slabs (slabclass s c)
    \<and> cls_slab_list (slabclass v c) = cls_slab_list (slabclass s c)" by simp
  with t show "cls_slabs (slabclass t c) = cls_slabs (slabclass s c) + 1"
    "length (cls_slab_list (slabclass t c)) = length (cls_slab_list (slabclass s c))" by simp_all
qed

lemma slab_rebalance_start_ok:
  assumes "slab_rebalance_start s = Some (0, t)" "rb_d_clsid (slab_rebal s) = int d"
  shows "\<exists>c. rb_s_clsid (slab_rebal t) = int c \<and> c \<noteq> d \<and> valid_class c s \<and> valid_class d s
     \<and> rb_d_clsid (slab_rebal t) = int d \<and> d < MAX_NUMBER_OF_SLAB_CLASSES \<and> c < MAX_NUMBER_OF_SLAB_CLASSES"
proof -
  from assms(1) obtain sc dc where c: "class_index (rb_s_clsid (slab_rebal s)) = Some sc"
    "class_index (rb_d_clsid (slab_rebal s)) = Some dc"
    by (auto simp: slab_rebalance_start_def Option.bind_eq_Some_conv)
  obtain b u where g: "grow_slab_list dc s = (b, u)" by fastforce
  then have u: "slab_rebal u = slab_rebal s" "power_largest u = power_largest s"
    using grow_slab_list_frame(1) [OF g] by (simp_all add: slabs_frameD)
  define v where "v = upd_class sc (\<lambda>p. p\<lparr>cls_killing := 1\<rparr>) u"
  have "class_in_range (rb_s_clsid (slab_rebal s)) s \<and> class_in_range (rb_d_clsid (slab_rebal s)) s
    \<and> rb_s_clsid (slab_rebal s) \<noteq> rb_d_clsid (slab_rebal s)
    \<and> (\<exists>x y z n. slab_rebal t = (slab_rebal u)\<lparr>rb_slab_start := x, rb_slab_end := y, rb_slab_pos := z, rb_done := n\<rparr>)"
  proof (cases "\<not> class_in_range (rb_s_clsid (slab_rebal s)) s \<or> \<not> class_in_range (rb_d_clsid (slab_rebal s)) s
      \<or> rb_s_clsid (slab_rebal s) = rb_d_clsid (slab_rebal s) \<or> \<not> b \<or> cls_slabs (slabclass u sc) < 2")
    case True
    with assms(1) show ?thesis
      by (simp add: slab_rebalance_start_def c g split: if_split_asm)
  next
    case False
    then have n: "(if cls_slabs (slabclass u sc) < 2 then -3 else if \<not> b then -1 else
        if \<not> class_in_range (rb_s_clsid (slab_rebal s)) s \<or> \<not> class_in_range (rb_d_clsid (slab_rebal s)) s
           \<or> rb_s_clsid (slab_rebal s) = rb_d_clsid (slab_rebal s) then -2 else 0) = (0 :: int)"
      by simp
    from False assms(1) obtain start where
      "t = upd_stats (\<lambda>t. t\<lparr>slab_reassign_running := True\<rparr>) ((upd_rebal (\<lambda>r. r\<lparr>rb_slab_start := start,
             rb_slab_end := start + cls_size (slabclass v sc) * cls_perslab (slabclass v sc),
             rb_slab_pos := start, rb_done := 0\<rparr>) v)\<lparr>slab_rebalance_signal := 2\<rparr>)"
      by (simp add: slab_rebalance_start_def c g Let_def n del: upd_class_frame One_nat_def split: if_split_asm)
        (auto simp: v_def simp del: One_nat_def upd_class_frame)
    with False show ?thesis by (auto simp: v_def upd_rebal_def upd_stats_def upd_class_def)
  qed
  then have ok: "class_in_range (rb_s_clsid (slab_rebal s)) s" "class_in_range (rb_d_clsid (slab_rebal s)) s"
    "rb_s_clsid (slab_rebal s) \<noteq> rb_d_clsid (slab_rebal s)"
    and t: "rb_s_clsid (slab_rebal t) = rb_s_clsid (slab_rebal s)"
    "rb_d_clsid (slab_rebal t) = rb_d_clsid (slab_rebal s)"
    by (auto simp: u)
  show ?thesis
    using ok t c assms(2)
    by (intro exI [of _ "nat (rb_s_clsid (slab_rebal s))"])
      (auto simp: class_in_range_def valid_class_def class_index_def POWER_SMALLEST_def split: if_splits)
qed

text \<open>
  Property C39.
  A move can write outside an array. \<open>slab_rebalance_start\<close> makes room for one more page in the
  destination class; if an allocation gives that class a page of its own before the move ends, the
  reserved entry is gone, and \<open>slab_rebalance_finish\<close> stores the moved page past the end of
  \<open>slab_list\<close> whenever the array is then full.
\<close>

theorem rebalance_finish_overflow:
  assumes "slab_rebalance_start s = Some (0, t)" "rb_d_clsid (slab_rebal s) = int d"
    and "do_slabs_newslab d t = Some (True, u)"
    and "cls_slabs (slabclass t d) + 1 = length (cls_slab_list (slabclass t d))"
  shows "slab_rebalance_finish u = None"
proof -
  from slab_rebalance_start_ok [OF assms(1,2)] obtain c where c: "rb_s_clsid (slab_rebal t) = int c"
    "c \<noteq> d" "rb_d_clsid (slab_rebal t) = int d" by blast
  have u: "slab_rebal u = slab_rebal t"
    using do_slabs_newslab_frame [OF assms(3)] by (simp add: slabs_frameD)
  have full: "cls_slabs (slabclass u d) = length (cls_slab_list (slabclass u d))"
    using newslab_lists [OF assms(3)] assms(4) by simp
  show ?thesis
    using c full
    by (auto simp: slab_rebalance_finish_def u class_index_def Option.bind_eq_None_conv Let_def
        set_slab_def zero_range_def)
qed

definition mover_full :: mover where
  "mover_full = mover_boot\<lparr>mallocs := [10000], slab_rebalance_signal := 1,
     slabclass := (\<lambda>_. empty_class)
       (1 := empty_class\<lparr>cls_size := 96, cls_perslab := 1, cls_slabs := 2,
               cls_slab_list := [5000, 6000, NULL, NULL]\<rparr>,
        2 := empty_class\<lparr>cls_size := 96, cls_perslab := 1, cls_slabs := 3,
               cls_slab_list := [7000, 8000, 9000, NULL]\<rparr>),
     slab_rebal := (slab_rebal mover_boot)\<lparr>rb_s_clsid := 1, rb_d_clsid := 2\<rparr>\<rparr>"

lemma mover_full_fields:
  "slabclass mover_full = (\<lambda>_. empty_class)
       (1 := empty_class\<lparr>cls_size := 96, cls_perslab := 1, cls_slabs := 2,
               cls_slab_list := [5000, 6000, NULL, NULL]\<rparr>,
        2 := empty_class\<lparr>cls_size := 96, cls_perslab := 1, cls_slabs := 3,
               cls_slab_list := [7000, 8000, 9000, NULL]\<rparr>)"
  "rb_s_clsid (slab_rebal mover_full) = 1" "rb_d_clsid (slab_rebal mover_full) = 2"
  "power_largest mover_full = 3" "mallocs mover_full = [10000]" "mem_base mover_full = NULL"
  "mem_limit mover_full = 2000" "mem_malloced mover_full = 0"
  "settings mover_full = settings_init\<lparr>item_size_max := 1024\<rparr>"
  by (simp_all add: mover_full_def mover_boot_def slabs.defs reassign.defs items.defs slabs_boot_def
      del: One_nat_def)

definition mover_started :: mover where
  "mover_started = upd_stats (\<lambda>t. t\<lparr>slab_reassign_running := True\<rparr>)
     (mover_full\<lparr>slabclass := (slabclass mover_full)(1 := (slabclass mover_full 1)\<lparr>cls_killing := 1\<rparr>),
       slab_rebal := (slab_rebal mover_full)\<lparr>rb_slab_start := 5000, rb_slab_end := 5096,
         rb_slab_pos := 5000, rb_done := 0\<rparr>, slab_rebalance_signal := 2\<rparr>)"

lemma mover_started_eq: "slab_rebalance_start mover_full = Some (0, mover_started)"
  by (simp add: slab_rebalance_start_def mover_full_fields mover_started_def class_index_def
      class_in_range_def MAX_NUMBER_OF_SLAB_CLASSES_def POWER_LARGEST_def POWER_SMALLEST_def
      grow_slab_list_def upd_rebal_def upd_class_def upd_stats_def empty_class_def)

lemma mover_started_fields:
  "slabclass mover_started 2 = empty_class\<lparr>cls_size := 96, cls_perslab := 1, cls_slabs := 3,
               cls_slab_list := [7000, 8000, 9000, NULL]\<rparr>"
  "power_largest mover_started = 3" "mallocs mover_started = [10000]" "mem_base mover_started = NULL"
  "mem_limit mover_started = 2000" "mem_malloced mover_started = 0"
  "settings mover_started = settings_init\<lparr>item_size_max := 1024\<rparr>"
  by (simp_all add: mover_started_def upd_stats_def mover_full_fields del: One_nat_def)

lemma mover_started_page: "\<exists>u. do_slabs_newslab 2 mover_started = Some (True, u)"
proof -
  have "grow_slab_list 2 mover_started = (True, mover_started)"
    by (simp add: grow_slab_list_def mover_started_fields empty_class_def)
  moreover have "memory_allocate n mover_started = (10000, mover_started\<lparr>mallocs := []\<rparr>)" for n
    by (simp add: memory_allocate_def malloc_def mover_started_fields)
  ultimately show ?thesis
    by (simp add: do_slabs_newslab_def page_len_def mover_started_fields settings_init_def
        split_slab_page_into_freelist_def do_slabs_free_def Let_def POWER_SMALLEST_def zero_item_def
        zero_range_def empty_class_def)
qed

theorem rebalance_finish_overflow_witness:
  "\<exists>u. slab_rebalance_start mover_full = Some (0, mover_started)
     \<and> do_slabs_newslab 2 mover_started = Some (True, u) \<and> slab_rebalance_finish u = None"
proof -
  obtain u where u: "do_slabs_newslab 2 mover_started = Some (True, u)" using mover_started_page by blast
  have "rb_d_clsid (slab_rebal mover_full) = int 2" by (simp add: mover_full_fields)
  moreover have "cls_slabs (slabclass mover_started 2) + 1 = length (cls_slab_list (slabclass mover_started 2))"
    by (simp add: mover_started_fields)
  ultimately show ?thesis
    using rebalance_finish_overflow [OF mover_started_eq _ u] mover_started_eq u by blast
qed

end
