(* ===== verification/Thread_Stats.thy ===== *)
theory Thread_Stats
  imports Memory
begin

text \<open>
  The per-thread counters of \<open>memcached.h\<close> and the functions of \<open>thread.c\<close> that reset and add
  them up. \<open>threads\<close> is the list of the counters of the worker threads, in order; its length is
  \<open>settings.num_threads\<close>. All counters are 64 bits wide and wrap around.
\<close>

section \<open>Counters\<close>

record slab_stats_t =
  set_cmds :: u64
  get_hits :: u64
  touch_hits :: u64
  delete_hits :: u64
  cas_hits :: u64
  cas_badval :: u64
  incr_hits :: u64
  decr_hits :: u64

record thread_stats_t =
  get_cmds :: u64
  get_misses :: u64
  touch_cmds :: u64
  touch_misses :: u64
  delete_misses :: u64
  incr_misses :: u64
  decr_misses :: u64
  cas_misses :: u64
  bytes_read :: u64
  bytes_written :: u64
  flush_cmds :: u64
  conn_yields :: u64
  auth_cmds :: u64
  auth_errors :: u64
  slab_stats :: "nat \<Rightarrow> slab_stats_t"

definition zero_slab_stats :: slab_stats_t where
  "zero_slab_stats = \<lparr>set_cmds = 0, get_hits = 0, touch_hits = 0, delete_hits = 0, cas_hits = 0,
     cas_badval = 0, incr_hits = 0, decr_hits = 0\<rparr>"

definition zero_thread_stats :: thread_stats_t where
  "zero_thread_stats = \<lparr>get_cmds = 0, get_misses = 0, touch_cmds = 0, touch_misses = 0,
     delete_misses = 0, incr_misses = 0, decr_misses = 0, cas_misses = 0, bytes_read = 0,
     bytes_written = 0, flush_cmds = 0, conn_yields = 0, auth_cmds = 0, auth_errors = 0,
     slab_stats = (\<lambda>_. zero_slab_stats)\<rparr>"

text \<open>The reset assigns every counter; the loop covers the entries of the \<open>slab_stats\<close> array.\<close>

definition reset_thread :: "thread_stats_t \<Rightarrow> thread_stats_t" where
  "reset_thread t = t\<lparr>get_cmds := 0, get_misses := 0, touch_cmds := 0, touch_misses := 0,
     delete_misses := 0, incr_misses := 0, decr_misses := 0, cas_misses := 0, bytes_read := 0,
     bytes_written := 0, flush_cmds := 0, conn_yields := 0, auth_cmds := 0, auth_errors := 0,
     slab_stats := (\<lambda>sid. if sid < MAX_NUMBER_OF_SLAB_CLASSES
       then (slab_stats t sid)\<lparr>set_cmds := 0, get_hits := 0, touch_hits := 0, delete_hits := 0,
         incr_hits := 0, decr_hits := 0, cas_hits := 0, cas_badval := 0\<rparr>
       else slab_stats t sid)\<rparr>"

definition threadlocal_stats_reset :: "thread_stats_t list \<Rightarrow> thread_stats_t list" where
  "threadlocal_stats_reset threads = map reset_thread threads"

section \<open>Adding up\<close>

definition add_slab_stats :: "slab_stats_t \<Rightarrow> slab_stats_t \<Rightarrow> slab_stats_t" where
  "add_slab_stats a b = a\<lparr>set_cmds := set_cmds a + set_cmds b, get_hits := get_hits a + get_hits b,
     touch_hits := touch_hits a + touch_hits b, delete_hits := delete_hits a + delete_hits b,
     decr_hits := decr_hits a + decr_hits b, incr_hits := incr_hits a + incr_hits b,
     cas_hits := cas_hits a + cas_hits b, cas_badval := cas_badval a + cas_badval b\<rparr>"

definition add_thread_stats :: "thread_stats_t \<Rightarrow> thread_stats_t \<Rightarrow> thread_stats_t" where
  "add_thread_stats a b = a\<lparr>get_cmds := get_cmds a + get_cmds b,
     get_misses := get_misses a + get_misses b, touch_cmds := touch_cmds a + touch_cmds b,
     touch_misses := touch_misses a + touch_misses b,
     delete_misses := delete_misses a + delete_misses b,
     decr_misses := decr_misses a + decr_misses b, incr_misses := incr_misses a + incr_misses b,
     cas_misses := cas_misses a + cas_misses b, bytes_read := bytes_read a + bytes_read b,
     bytes_written := bytes_written a + bytes_written b, flush_cmds := flush_cmds a + flush_cmds b,
     conn_yields := conn_yields a + conn_yields b, auth_cmds := auth_cmds a + auth_cmds b,
     auth_errors := auth_errors a + auth_errors b,
     slab_stats := (\<lambda>sid. if sid < MAX_NUMBER_OF_SLAB_CLASSES
       then add_slab_stats (slab_stats a sid) (slab_stats b sid) else slab_stats a sid)\<rparr>"

definition threadlocal_stats_aggregate :: "thread_stats_t list \<Rightarrow> thread_stats_t" where
  "threadlocal_stats_aggregate threads = foldl add_thread_stats zero_thread_stats threads"

text \<open>The sum over the classes; the members of \<open>out\<close> are zeroed first.\<close>

definition slab_stats_aggregate :: "thread_stats_t \<Rightarrow> slab_stats_t" where
  "slab_stats_aggregate st =
     foldl (\<lambda>out sid. add_slab_stats out (slab_stats st sid)) zero_slab_stats
       [0..<MAX_NUMBER_OF_SLAB_CLASSES]"

section \<open>The totals\<close>

text \<open>The eight counters of a class as one function of an index, so that each fact is proved once.\<close>

datatype slab_counter = C_set | C_get | C_touch | C_delete | C_cas | C_badval | C_incr | C_decr

fun slab_count :: "slab_counter \<Rightarrow> slab_stats_t \<Rightarrow> u64" where
  "slab_count C_set = set_cmds" | "slab_count C_get = get_hits" | "slab_count C_touch = touch_hits"
| "slab_count C_delete = delete_hits" | "slab_count C_cas = cas_hits"
| "slab_count C_badval = cas_badval" | "slab_count C_incr = incr_hits" | "slab_count C_decr = decr_hits"

lemma slab_count_add [simp]: "slab_count k (add_slab_stats a b) = slab_count k a + slab_count k b"
  by (cases k) (simp_all add: add_slab_stats_def)

lemma slab_count_zero [simp]: "slab_count k zero_slab_stats = 0"
  by (cases k) (simp_all add: zero_slab_stats_def)

lemma slab_count_foldl:
  "slab_count k (foldl (\<lambda>out sid. add_slab_stats out (f sid)) a xs)
     = slab_count k a + (\<Sum>sid\<leftarrow>xs. slab_count k (f sid))"
  by (induction xs arbitrary: a) (simp_all add: add_ac)

lemma slab_stats_add:
  "slab_stats (add_thread_stats a b) sid = (if sid < MAX_NUMBER_OF_SLAB_CLASSES
     then add_slab_stats (slab_stats a sid) (slab_stats b sid) else slab_stats a sid)"
  by (simp add: add_thread_stats_def)

lemma slab_count_threads:
  "sid < MAX_NUMBER_OF_SLAB_CLASSES \<Longrightarrow> slab_count k (slab_stats (foldl add_thread_stats a ts) sid)
     = slab_count k (slab_stats a sid) + (\<Sum>t\<leftarrow>ts. slab_count k (slab_stats t sid))"
  by (induction ts arbitrary: a) (simp_all add: slab_stats_add add_ac)

lemma thread_counts_foldl:
  "get_cmds (foldl add_thread_stats a ts) = get_cmds a + (\<Sum>t\<leftarrow>ts. get_cmds t)"
  "get_misses (foldl add_thread_stats a ts) = get_misses a + (\<Sum>t\<leftarrow>ts. get_misses t)"
  "touch_cmds (foldl add_thread_stats a ts) = touch_cmds a + (\<Sum>t\<leftarrow>ts. touch_cmds t)"
  "touch_misses (foldl add_thread_stats a ts) = touch_misses a + (\<Sum>t\<leftarrow>ts. touch_misses t)"
  "delete_misses (foldl add_thread_stats a ts) = delete_misses a + (\<Sum>t\<leftarrow>ts. delete_misses t)"
  "bytes_read (foldl add_thread_stats a ts) = bytes_read a + (\<Sum>t\<leftarrow>ts. bytes_read t)"
  "flush_cmds (foldl add_thread_stats a ts) = flush_cmds a + (\<Sum>t\<leftarrow>ts. flush_cmds t)"
  by (induction ts arbitrary: a; simp add: add_thread_stats_def add_ac)+

lemma sum_list_swap: "(\<Sum>x\<leftarrow>xs. \<Sum>y\<leftarrow>ys. f x y) = (\<Sum>y\<leftarrow>ys. \<Sum>x\<leftarrow>xs. f x y)"
  for f :: "'a \<Rightarrow> 'b \<Rightarrow> 'c :: comm_monoid_add"
  by (induction xs) (simp_all add: sum_list_addf)

lemma sum_list_all_zero: "(\<And>x. x \<in> set xs \<Longrightarrow> f x = 0) \<Longrightarrow> (\<Sum>x\<leftarrow>xs. f x) = 0"
  for f :: "'a \<Rightarrow> 'b :: comm_monoid_add"
  by (induction xs) simp_all

text \<open>
  The reported hit counters are exact: what \<open>stats\<close> shows for a counter after adding up first the
  threads and then the classes is the sum, over the threads, of the sum over all classes, so no
  count of any thread or class is lost or counted twice; and after a reset every total is zero.
\<close>

theorem stats_totals_exact:
  "slab_count k (slab_stats_aggregate (threadlocal_stats_aggregate ts))
     = (\<Sum>t\<leftarrow>ts. \<Sum>sid\<leftarrow>[0..<MAX_NUMBER_OF_SLAB_CLASSES]. slab_count k (slab_stats t sid))
   \<and> get_cmds (threadlocal_stats_aggregate ts) = (\<Sum>t\<leftarrow>ts. get_cmds t)
   \<and> slab_count k (slab_stats_aggregate (threadlocal_stats_aggregate (threadlocal_stats_reset ts))) = 0
   \<and> get_cmds (threadlocal_stats_aggregate (threadlocal_stats_reset ts)) = 0"
proof -
  let ?A = "[0..<MAX_NUMBER_OF_SLAB_CLASSES]"
  have agg: "slab_count k (slab_stats_aggregate (threadlocal_stats_aggregate us))
      = (\<Sum>t\<leftarrow>us. \<Sum>sid\<leftarrow>?A. slab_count k (slab_stats t sid))" for us
  proof -
    have "slab_count k (slab_stats (threadlocal_stats_aggregate us) sid)
        = (\<Sum>t\<leftarrow>us. slab_count k (slab_stats t sid))" if "sid \<in> set ?A" for sid
      using that by (simp add: threadlocal_stats_aggregate_def slab_count_threads zero_thread_stats_def)
    then have "map (\<lambda>sid. slab_count k (slab_stats (threadlocal_stats_aggregate us) sid)) ?A
        = map (\<lambda>sid. \<Sum>t\<leftarrow>us. slab_count k (slab_stats t sid)) ?A" by (rule map_cong [OF refl])
    then show ?thesis
      unfolding slab_stats_aggregate_def slab_count_foldl
      by (simp only: slab_count_zero add_0) (rule sum_list_swap)
  qed
  have "slab_count k (slab_stats (reset_thread t) sid) = 0" if "sid \<in> set ?A" for t sid
    using that by (cases k) (simp_all add: reset_thread_def)
  then have zero: "(\<Sum>sid\<leftarrow>?A. slab_count k (slab_stats (reset_thread t) sid)) = 0" for t
    by (blast intro: sum_list_all_zero)
  show ?thesis
    unfolding agg threadlocal_stats_reset_def
    by (simp add: zero o_def threadlocal_stats_aggregate_def thread_counts_foldl zero_thread_stats_def)
      (simp add: reset_thread_def)
qed

end
