(* ===== verification/Conn_Queue.thy ===== *)
theory Conn_Queue
  imports Interfaces Memory
begin

text \<open>
  \<open>thread.c\<close>, handing connections to worker threads: the queue of each worker, the free list of
  queue items, and the round-robin dispatch of the listening thread. Queue items live in a store
  \<open>cq_mem\<close> of their own; each operation runs under the lock of the list it touches, so it is a
  function on the state. \<open>None\<close> is a use of a null pointer.
\<close>

section \<open>Types of \<open>memcached.h\<close>\<close>

datatype conn_states = conn_listening | conn_new_cmd | conn_waiting | conn_read | conn_parse_cmd
  | conn_write | conn_nread | conn_swallow | conn_closing | conn_mwrite | conn_max_state

datatype network_transport = local_transport | tcp_transport | udp_transport

datatype item_lock_types = ITEM_LOCK_GRANULAR | ITEM_LOCK_GLOBAL

abbreviation IS_UDP :: "network_transport \<Rightarrow> bool" where "IS_UDP x \<equiv> x = udp_transport"

section \<open>State\<close>

definition ITEMS_PER_ALLOC :: nat where "ITEMS_PER_ALLOC = 64"

record cq_item =
  cq_sfd :: int
  cq_init_state :: conn_states
  cq_event_flags :: int
  cq_read_buffer_size :: int
  cq_transport :: network_transport
  cq_next :: addr

text \<open>\<open>sizeof(CQ_ITEM)\<close> on the 64-bit platform.\<close>

definition sizeof_cq_item :: nat where "sizeof_cq_item = 32"

record conn_queue =
  cq_head :: addr
  cq_tail :: addr

text \<open>
  A worker: its queue, the bytes written to its notify pipe and not yet read, and its lock type.
  \<open>cq_mallocs\<close> are the results of the coming calls of \<open>malloc\<close> in \<open>cqi_new\<close>.
\<close>

record worker =
  new_conn_queue :: conn_queue
  notify_pipe :: string
  item_lock_type :: item_lock_types

record dispatch =
  cq_mem :: "addr \<Rightarrow> cq_item"
  cqi_freelist :: addr
  cq_mallocs :: "addr list"
  workers :: "worker list"
  last_thread :: int
  init_count :: nat

definition upd_cq :: "addr \<Rightarrow> (cq_item \<Rightarrow> cq_item) \<Rightarrow> 'a dispatch_scheme \<Rightarrow> 'a dispatch_scheme" where
  "upd_cq p f s = s\<lparr>cq_mem := (cq_mem s)(p := f (cq_mem s p))\<rparr>"

definition upd_worker :: "nat \<Rightarrow> (worker \<Rightarrow> worker) \<Rightarrow> 'a dispatch_scheme \<Rightarrow> 'a dispatch_scheme" where
  "upd_worker w f s = s\<lparr>workers := (workers s)[w := f (workers s ! w)]\<rparr>"

abbreviation queue_of :: "'a dispatch_scheme \<Rightarrow> nat \<Rightarrow> conn_queue" where
  "queue_of s w \<equiv> new_conn_queue (workers s ! w)"

section \<open>Queues\<close>

definition cq_init :: "nat \<Rightarrow> 'a dispatch_scheme \<Rightarrow> 'a dispatch_scheme" where
  "cq_init w s = upd_worker w (\<lambda>t. t\<lparr>new_conn_queue := \<lparr>cq_head = NULL, cq_tail = NULL\<rparr>\<rparr>) s"

definition cq_pop :: "nat \<Rightarrow> 'a dispatch_scheme \<Rightarrow> addr \<times> 'a dispatch_scheme" where
  "cq_pop w s = (let it = cq_head (queue_of s w) in
     if it \<noteq> NULL then (let head = cq_next (cq_mem s it) in
       (it, upd_worker w (\<lambda>t. t\<lparr>new_conn_queue := (new_conn_queue t)\<lparr>cq_head := head,
              cq_tail := (if head = NULL then NULL else cq_tail (new_conn_queue t))\<rparr>\<rparr>) s))
     else (it, s))"

definition cq_push :: "nat \<Rightarrow> addr \<Rightarrow> 'a dispatch_scheme \<Rightarrow> 'a dispatch_scheme" where
  "cq_push w it s = (let
     s = upd_cq it (\<lambda>i. i\<lparr>cq_next := NULL\<rparr>) s;
     s = (if cq_tail (queue_of s w) = NULL
          then upd_worker w (\<lambda>t. t\<lparr>new_conn_queue := (new_conn_queue t)\<lparr>cq_head := it\<rparr>\<rparr>) s
          else upd_cq (cq_tail (queue_of s w)) (\<lambda>i. i\<lparr>cq_next := it\<rparr>) s)
   in upd_worker w (\<lambda>t. t\<lparr>new_conn_queue := (new_conn_queue t)\<lparr>cq_tail := it\<rparr>\<rparr>) s)"

section \<open>Queue items\<close>

text \<open>The address of \<open>item[i]\<close>.\<close>

abbreviation cqi_elem :: "addr \<Rightarrow> nat \<Rightarrow> addr" where
  "cqi_elem p i \<equiv> p + i * sizeof_cq_item"

definition link_block :: "addr \<Rightarrow> 'a dispatch_scheme \<Rightarrow> 'a dispatch_scheme" where
  "link_block p s = foldl (\<lambda>s i. upd_cq (cqi_elem p (i - 1)) (\<lambda>c. c\<lparr>cq_next := cqi_elem p i\<rparr>) s)
     s [2..<ITEMS_PER_ALLOC]"

definition cqi_new :: "'a dispatch_scheme \<Rightarrow> addr \<times> 'a dispatch_scheme" where
  "cqi_new s = (if cqi_freelist s \<noteq> NULL
     then (cqi_freelist s, s\<lparr>cqi_freelist := cq_next (cq_mem s (cqi_freelist s))\<rparr>)
     else case cq_mallocs s of [] \<Rightarrow> (NULL, s) | p # ps \<Rightarrow>
       (let s = s\<lparr>cq_mallocs := ps\<rparr> in
        if p = NULL then (NULL, s)
        else (let s = link_block p s;
                  s = upd_cq (cqi_elem p (ITEMS_PER_ALLOC - 1)) (\<lambda>c. c\<lparr>cq_next := cqi_freelist s\<rparr>) s
              in (p, s\<lparr>cqi_freelist := cqi_elem p 1\<rparr>))))"

definition cqi_free :: "addr \<Rightarrow> 'a dispatch_scheme \<Rightarrow> 'a dispatch_scheme" where
  "cqi_free it s = (upd_cq it (\<lambda>c. c\<lparr>cq_next := cqi_freelist s\<rparr>) s)\<lparr>cqi_freelist := it\<rparr>"

section \<open>Dispatch\<close>

text \<open>
  A write to the notify pipe of a worker. It is taken to succeed: the source prints a message and
  goes on when it does not.
\<close>

definition notify_worker :: "nat \<Rightarrow> char \<Rightarrow> 'a dispatch_scheme \<Rightarrow> 'a dispatch_scheme" where
  "notify_worker w b s = upd_worker w (\<lambda>t. t\<lparr>notify_pipe := notify_pipe t @ [b]\<rparr>) s"

definition dispatch_conn_new :: "int \<Rightarrow> conn_states \<Rightarrow> int \<Rightarrow> int \<Rightarrow> network_transport
    \<Rightarrow> 'a dispatch_scheme \<Rightarrow> 'a dispatch_scheme option" where
  "dispatch_conn_new sfd init_state event_flags read_buffer_size transport s = (let
     (it, s) = cqi_new s;
     tid = (last_thread s + 1) mod int (length (workers s));
     s = s\<lparr>last_thread := tid\<rparr> in
   if it = NULL then None
   else (let
     s = upd_cq it (\<lambda>c. c\<lparr>cq_sfd := sfd, cq_init_state := init_state, cq_event_flags := event_flags,
           cq_read_buffer_size := read_buffer_size, cq_transport := transport\<rparr>) s;
     s = cq_push (nat tid) it s
   in Some (notify_worker (nat tid) CHR ''c'' s)))"

text \<open>\<open>switch_item_lock_type\<close> writes one byte to every worker and then waits for their reports.\<close>

definition switch_item_lock_type :: "item_lock_types \<Rightarrow> 'a dispatch_scheme \<Rightarrow> 'a dispatch_scheme" where
  "switch_item_lock_type type s = (let
     b = (case type of ITEM_LOCK_GRANULAR \<Rightarrow> CHR ''l'' | ITEM_LOCK_GLOBAL \<Rightarrow> CHR ''g'') in
   foldl (\<lambda>s i. notify_worker i b s) (s\<lparr>init_count := 0\<rparr>) [0..<length (workers s)])"

definition register_thread_initialized :: "'a dispatch_scheme \<Rightarrow> 'a dispatch_scheme" where
  "register_thread_initialized s = s\<lparr>init_count := init_count s + 1\<rparr>"

definition wait_for_thread_registration :: "nat \<Rightarrow> 'a dispatch_scheme \<Rightarrow> bool" where
  "wait_for_thread_registration nthreads s \<longleftrightarrow> \<not> init_count s < nthreads"

definition worker_started :: "nat \<Rightarrow> 'a dispatch_scheme \<Rightarrow> 'a dispatch_scheme" where
  "worker_started w s = register_thread_initialized
     (upd_worker w (\<lambda>t. t\<lparr>item_lock_type := ITEM_LOCK_GRANULAR\<rparr>) s)"

section \<open>Store lemmas\<close>

lemma upd_cq_fields [simp]:
  "cq_mem (upd_cq p f s) = (cq_mem s)(p := f (cq_mem s p))" "workers (upd_cq p f s) = workers s"
  "cqi_freelist (upd_cq p f s) = cqi_freelist s" "cq_mallocs (upd_cq p f s) = cq_mallocs s"
  "last_thread (upd_cq p f s) = last_thread s"
  by (simp_all add: upd_cq_def)

lemma upd_worker_fields [simp]:
  "cq_mem (upd_worker w f s) = cq_mem s" "length (workers (upd_worker w f s)) = length (workers s)"
  "cqi_freelist (upd_worker w f s) = cqi_freelist s" "cq_mallocs (upd_worker w f s) = cq_mallocs s"
  "last_thread (upd_worker w f s) = last_thread s"
  "w < length (workers s) \<Longrightarrow> workers (upd_worker w f s) ! w = f (workers s ! w)"
  "v \<noteq> w \<Longrightarrow> workers (upd_worker w f s) ! v = workers s ! v"
  by (simp_all add: upd_worker_def)

abbreviation cnx :: "'a dispatch_scheme \<Rightarrow> addr \<Rightarrow> addr" where
  "cnx s \<equiv> (\<lambda>p. cq_next (cq_mem s p))"

section \<open>A worker's queue is a queue\<close>

definition cq_holds :: "nat \<Rightarrow> 'a dispatch_scheme \<Rightarrow> addr list \<Rightarrow> bool" where
  "cq_holds w s xs \<longleftrightarrow> w < length (workers s) \<and> chain (cnx s) (cq_head (queue_of s w)) xs
     \<and> cq_tail (queue_of s w) = (if xs = [] then NULL else last xs)"

definition cq_outside :: "nat \<Rightarrow> addr \<Rightarrow> 'a dispatch_scheme \<Rightarrow> bool" where
  "cq_outside w x s \<longleftrightarrow> x \<noteq> NULL \<and> (\<forall>xs. cq_holds w s xs \<longrightarrow> x \<notin> set xs)"

definition cq_take :: "nat \<Rightarrow> 'a dispatch_scheme \<Rightarrow> addr option \<times> 'a dispatch_scheme" where
  "cq_take w s = (case cq_pop w s of (it, t) \<Rightarrow> (if it = NULL then None else Some it, t))"

lemma chain_snoc:
  "chain nx p xs \<Longrightarrow> xs \<noteq> [] \<Longrightarrow> x \<noteq> NULL \<Longrightarrow> x \<notin> set xs \<Longrightarrow> nx x = NULL
   \<Longrightarrow> chain (nx(last xs := x)) p (xs @ [x])"
proof (induction xs arbitrary: p)
  case (Cons y ys)
  note dist = chain_distinct [OF Cons.prems(1)]
  show ?case
  proof (cases "ys = []")
    case True
    with Cons.prems show ?thesis by auto
  next
    case False
    with Cons.prems have "chain (nx(last ys := x)) (nx y) (ys @ [x])" by (intro Cons.IH) auto
    moreover have "y \<noteq> last ys" using dist False by auto
    ultimately show ?thesis using Cons.prems False by (auto simp: fun_upd_def)
  qed
qed simp

lemma cq_push_holds:
  assumes "cq_holds w s xs" "cq_outside w x s"
  shows "cq_holds w (cq_push w x s) (xs @ [x])"
proof -
  have x: "x \<noteq> NULL" "x \<notin> set xs" using assms by (auto simp: cq_outside_def)
  have w: "w < length (workers s)" "chain (cnx s) (cq_head (queue_of s w)) xs"
    and tl: "cq_tail (queue_of s w) = (if xs = [] then NULL else last xs)"
    using assms(1) by (simp_all add: cq_holds_def)
  show ?thesis
  proof (cases "xs = []")
    case True
    with x w tl show ?thesis by (simp add: cq_holds_def cq_push_def Let_def)
  next
    case False
    then have nn: "last xs \<noteq> NULL" "last xs \<noteq> x"
      using chain_notNULL [OF w(2)] x(2) last_in_set [OF False] by (metis, metis)
    have "chain ((cnx s)(x := NULL)) (cq_head (queue_of s w)) xs" using w(2) x(2) by simp
    from chain_snoc [OF this False x] have
      "chain (((cnx s)(x := NULL))(last xs := x)) (cq_head (queue_of s w)) (xs @ [x])" by simp
    moreover have "cnx (cq_push w x s) = ((cnx s)(x := NULL))(last xs := x)"
      using False nn by (auto simp: cq_push_def Let_def tl)
    ultimately show ?thesis
      using False nn w(1) tl by (simp add: cq_holds_def cq_push_def Let_def)
  qed
qed

lemma cq_pop_holds:
  assumes "cq_holds w s (x # xs)"
  shows "fst (cq_pop w s) = x \<and> cq_holds w (snd (cq_pop w s)) xs \<and> cq_mem (snd (cq_pop w s)) = cq_mem s
    \<and> x \<noteq> NULL \<and> (\<forall>v. v \<noteq> w \<longrightarrow> queue_of (snd (cq_pop w s)) v = queue_of s v)
    \<and> cqi_freelist (snd (cq_pop w s)) = cqi_freelist s"
  using assms by (cases xs) (auto simp: cq_holds_def cq_pop_def Let_def)

interpretation worker_queue: fifo_queue "cq_holds w" "cq_outside w" "cq_push w" "cq_take w"
proof
  fix s :: "'a dispatch_scheme" and x xs
  show "cq_holds w s xs \<Longrightarrow> cq_outside w x s \<Longrightarrow> cq_holds w (cq_push w x s) (xs @ [x])"
    by (rule cq_push_holds)
  show "cq_holds w s (x # xs) \<Longrightarrow> fst (cq_take w s) = Some x \<and> cq_holds w (snd (cq_take w s)) xs"
    by (frule cq_pop_holds) (auto simp: cq_take_def split: prod.splits)
  show "cq_holds w s [] \<Longrightarrow> cq_take w s = (None, s)"
    by (simp add: cq_take_def cq_pop_def cq_holds_def)
qed

section \<open>The free list is a pool\<close>

definition cqi_holds :: "'a dispatch_scheme \<Rightarrow> addr list \<Rightarrow> bool" where
  "cqi_holds s xs \<longleftrightarrow> chain (cnx s) (cqi_freelist s) xs"

definition cqi_idle :: "addr \<Rightarrow> 'a dispatch_scheme \<Rightarrow> bool" where
  "cqi_idle x s \<longleftrightarrow> x \<noteq> NULL \<and> (\<forall>xs. cqi_holds s xs \<longrightarrow> x \<notin> set xs)"

definition cqi_take :: "'a dispatch_scheme \<Rightarrow> (addr \<times> 'a dispatch_scheme) option" where
  "cqi_take s = (case cqi_new s of (it, t) \<Rightarrow> if it = NULL then None else Some (it, t))"

lemma cqi_new_pop:
  assumes "cqi_holds s (x # xs)"
  shows "cqi_new s = (x, s\<lparr>cqi_freelist := cnx s x\<rparr>)" "x \<noteq> NULL"
    "cqi_holds (s\<lparr>cqi_freelist := cnx s x\<rparr>) xs"
  using assms by (auto simp: cqi_holds_def cqi_new_def)

lemma cqi_free_fields:
  "cnx (cqi_free x s) = (cnx s)(x := cqi_freelist s)" "cqi_freelist (cqi_free x s) = x"
  by (auto simp: cqi_free_def)

interpretation cqi_pool: lifo_pool cqi_holds cqi_idle "\<lambda>x s. Some (cqi_free x s)" cqi_take
proof
  fix s :: "'a dispatch_scheme" and x xs
  show "cqi_holds s xs \<Longrightarrow> cqi_idle x s \<Longrightarrow> \<exists>t. Some (cqi_free x s) = Some t \<and> cqi_holds t (x # xs)"
    by (intro exI [of _ "cqi_free x s"])
      (unfold cqi_holds_def cqi_idle_def cqi_free_fields, simp)
  show "\<exists>t. cqi_take s = Some (x, t) \<and> cqi_holds t xs \<and> cqi_idle x t" if "cqi_holds s (x # xs)"
  proof -
    have x: "x \<notin> set xs" "x \<noteq> NULL" and c: "chain (cnx s) (cnx s x) xs"
      using that chain_distinct [of "cnx s" "cqi_freelist s" "x # xs"] by (simp_all add: cqi_holds_def)
    have "ys = xs" if "cqi_holds (s\<lparr>cqi_freelist := cnx s x\<rparr>) ys" for ys
      using that chain_unique [OF c, of ys] by (simp add: cqi_holds_def)
    with x have "cqi_idle x (s\<lparr>cqi_freelist := cnx s x\<rparr>)" unfolding cqi_idle_def by blast
    then show ?thesis
      unfolding cqi_take_def cqi_new_pop(1) [OF that] using cqi_new_pop(2,3) [OF that]
      by (intro exI [of _ "s\<lparr>cqi_freelist := cnx s x\<rparr>"]) (simp del: neq0_conv)
  qed
  show "cqi_holds s xs \<Longrightarrow> distinct xs" by (simp add: cqi_holds_def chain_distinct)
qed

section \<open>All queues together\<close>

text \<open>
  \<open>dispatch_ok s qs free\<close>: \<open>qs w\<close> are the items queued for worker \<open>w\<close>, \<open>free\<close> the free list,
  and no item is in two places.
\<close>

definition dispatch_ok :: "'a dispatch_scheme \<Rightarrow> (nat \<Rightarrow> addr list) \<Rightarrow> addr list \<Rightarrow> bool" where
  "dispatch_ok s qs free \<longleftrightarrow> (\<forall>w < length (workers s). cq_holds w s (qs w)) \<and> cqi_holds s free
     \<and> (\<forall>w < length (workers s). set (qs w) \<inter> set free = {})
     \<and> (\<forall>w < length (workers s). \<forall>v < length (workers s). v \<noteq> w \<longrightarrow> set (qs w) \<inter> set (qs v) = {})"

text \<open>Nothing refers to \<open>x\<close>.\<close>

definition unqueued :: "addr \<Rightarrow> 'a dispatch_scheme \<Rightarrow> (nat \<Rightarrow> addr list) \<Rightarrow> addr list \<Rightarrow> bool" where
  "unqueued x s qs free \<longleftrightarrow> x \<noteq> NULL \<and> x \<notin> set free \<and> (\<forall>w < length (workers s). x \<notin> set (qs w))"

definition cq_request :: "cq_item \<Rightarrow> int \<times> conn_states \<times> int \<times> int \<times> network_transport" where
  "cq_request i = (cq_sfd i, cq_init_state i, cq_event_flags i, cq_read_buffer_size i, cq_transport i)"

text \<open>The contents of a queue: what its items ask for, oldest first.\<close>

definition requests :: "'a dispatch_scheme \<Rightarrow> addr list \<Rightarrow> (int \<times> conn_states \<times> int \<times> int \<times> network_transport) list" where
  "requests s xs = map (\<lambda>p. cq_request (cq_mem s p)) xs"

lemma link_block_cong:
  "workers (link_block p s) = workers s \<and> cqi_freelist (link_block p s) = cqi_freelist s
     \<and> last_thread (link_block p s) = last_thread s"
proof -
  have "workers (foldl (\<lambda>s i. upd_cq (f i) (g i) s) s is) = workers s
      \<and> cqi_freelist (foldl (\<lambda>s i. upd_cq (f i) (g i) s) s is) = cqi_freelist s
      \<and> last_thread (foldl (\<lambda>s i. upd_cq (f i) (g i) s) s is) = last_thread s" for f g "is"
    by (induction "is" arbitrary: s) simp_all
  then show ?thesis unfolding link_block_def .
qed

lemma link_block_mem:
  fixes s :: "'a dispatch_scheme"
  shows "cq_mem (link_block p s) q = (cq_mem s q)\<lparr>cq_next := (if q \<in> cqi_elem p ` {1..<ITEMS_PER_ALLOC - 1}
     then q + sizeof_cq_item else cnx s q)\<rparr>"
proof -
  have *: "cq_mem (foldl (\<lambda>s i. upd_cq (cqi_elem p (i - 1)) (\<lambda>c. c\<lparr>cq_next := cqi_elem p i\<rparr>) s) s [2..<n]) q
    = (cq_mem s q)\<lparr>cq_next := (if q \<in> cqi_elem p ` {1..<n - 1} then q + sizeof_cq_item else cnx s q)\<rparr>"
    if "2 \<le> n" for n
    using that
  proof (induction n rule: nat_induct_at_least)
    case (Suc n)
    have "{1..<Suc n - 1} = insert (n - 1) {1..<n - 1}" using Suc.hyps by auto
    then show ?case
      using Suc by (auto simp: sizeof_cq_item_def)
  qed simp
  show ?thesis unfolding link_block_def by (rule *) (simp add: ITEMS_PER_ALLOC_def)
qed

lemma chain_block:
  assumes "\<And>i. m \<le> i \<Longrightarrow> i < n \<Longrightarrow> nx (f i) = f (i + 1)" "nx (f n) = q" "\<And>i. f i \<noteq> NULL"
    "chain nx q xs" "m \<le> n"
  shows "chain nx (f m) (map f [m..<Suc n] @ xs)"
proof -
  have "chain nx (f k) (map f [k..<Suc n] @ xs)" if "k \<le> n" "m \<le> k" for k
    using that
  proof (induction k rule: inc_induct)
    case base
    then show ?case using assms(2-4) by simp
  next
    case (step k)
    then have "[k..<Suc n] = k # [Suc k..<Suc n]" by (simp add: upt_conv_Cons)
    with step assms(1,3) show ?case by simp
  qed
  with assms(5) show ?thesis by simp
qed

text \<open>Memory that \<open>malloc\<close> returns is not in use: this is its documented behaviour.\<close>

definition fresh_block :: "'a dispatch_scheme \<Rightarrow> (nat \<Rightarrow> addr list) \<Rightarrow> bool" where
  "fresh_block s qs \<longleftrightarrow> (case cq_mallocs s of [] \<Rightarrow> False | p # ps \<Rightarrow> p \<noteq> NULL
     \<and> (\<forall>w < length (workers s). set (qs w) \<inter> {p..<p + ITEMS_PER_ALLOC * sizeof_cq_item} = {}))"

lemma cq_holds_cong:
  "cq_holds w s xs \<Longrightarrow> workers t = workers s \<Longrightarrow> (\<And>x. x \<in> set xs \<Longrightarrow> cnx t x = cnx s x) \<Longrightarrow> cq_holds w t xs"
  using chain_cong [of xs "cnx t" "cnx s"] by (simp add: cq_holds_def)

lemma cqi_new_ok:
  assumes R: "dispatch_ok s qs free" and m: "free = [] \<Longrightarrow> fresh_block s qs"
  shows "\<exists>x t free'. cqi_new s = (x, t) \<and> dispatch_ok t qs free' \<and> unqueued x t qs free'
     \<and> workers t = workers s \<and> last_thread t = last_thread s
     \<and> (\<forall>w < length (workers s). requests t (qs w) = requests s (qs w))
     \<and> length free' = (if free = [] then ITEMS_PER_ALLOC else length free) - 1"
proof (cases free)
  case (Cons x xs)
  have f: "cqi_holds s (x # xs)" using R Cons by (simp add: dispatch_ok_def)
  note p = cqi_new_pop [OF f]
  let ?t = "s\<lparr>cqi_freelist := cnx s x\<rparr>"
  have "x \<notin> set xs" using f chain_distinct [of "cnx s" "cqi_freelist s" "x # xs"] by (simp add: cqi_holds_def)
  moreover have q: "cq_holds w ?t (qs w)" if "w < length (workers s)" for w
    using R that by (simp add: dispatch_ok_def cq_holds_def)
  ultimately have "unqueued x ?t qs xs"
    using R p(2) Cons by (simp add: dispatch_ok_def unqueued_def)
  moreover have "dispatch_ok ?t qs xs"
    using R p(3) Cons q by (simp add: dispatch_ok_def)
  moreover have "requests ?t ys = requests s ys" for ys by (simp add: requests_def)
  ultimately show ?thesis using p(1) Cons by (intro exI conjI) (assumption | simp)+
next
  case Nil
  with R m obtain p ps where p: "cq_mallocs s = p # ps" "p \<noteq> NULL" "cqi_freelist s = NULL"
    "\<And>w. w < length (workers s) \<Longrightarrow> set (qs w) \<inter> {p..<p + ITEMS_PER_ALLOC * sizeof_cq_item} = {}"
    by (auto simp: fresh_block_def dispatch_ok_def cqi_holds_def split: list.splits)
  define t where "t = (upd_cq (cqi_elem p (ITEMS_PER_ALLOC - 1)) (\<lambda>c. c\<lparr>cq_next := NULL\<rparr>)
      (link_block p (s\<lparr>cq_mallocs := ps\<rparr>)))\<lparr>cqi_freelist := cqi_elem p 1\<rparr>"
  have new: "cqi_new s = (p, t)"
    using p link_block_cong [of p "s\<lparr>cq_mallocs := ps\<rparr>"] by (simp add: cqi_new_def t_def Let_def)
  let ?n = "ITEMS_PER_ALLOC - 1"
  have mt: "cq_mem t q = (cq_mem s q)\<lparr>cq_next := cnx t q\<rparr>" for q
    by (simp add: t_def link_block_mem)
  have nxt: "cnx t q = (if q = cqi_elem p ?n then NULL
      else if q \<in> cqi_elem p ` {1..<?n} then q + sizeof_cq_item else cnx s q)" for q
    by (simp add: t_def link_block_mem)
  let ?fr = "map (cqi_elem p) [1..<Suc ?n]"
  have "chain (cnx t) (cqi_elem p 1) (?fr @ [])"
  proof (rule chain_block)
    show "cnx t (cqi_elem p i) = cqi_elem p (i + 1)" if "1 \<le> i" "i < ?n" for i
      using that unfolding nxt by (auto simp: sizeof_cq_item_def)
  qed (use p(2) in \<open>simp_all add: nxt ITEMS_PER_ALLOC_def\<close>)
  then have fr: "cqi_holds t ?fr" by (simp add: cqi_holds_def t_def)
  have blk: "p \<notin> set ?fr" "set ?fr \<subseteq> {p..<p + ITEMS_PER_ALLOC * sizeof_cq_item}"
    by (auto simp: sizeof_cq_item_def ITEMS_PER_ALLOC_def)
  have out: "cnx t q = cnx s q" if "q \<in> set (qs w)" "w < length (workers s)" for q w
  proof -
    from that p(4) have "q \<notin> {p..<p + ITEMS_PER_ALLOC * sizeof_cq_item}" by blast
    moreover have "cqi_elem p ?n \<in> {p..<p + ITEMS_PER_ALLOC * sizeof_cq_item}"
      "cqi_elem p ` {1..<?n} \<subseteq> {p..<p + ITEMS_PER_ALLOC * sizeof_cq_item}"
      by (auto simp: sizeof_cq_item_def ITEMS_PER_ALLOC_def)
    ultimately have "q \<noteq> cqi_elem p ?n" "q \<notin> cqi_elem p ` {1..<?n}" by blast+
    then show ?thesis unfolding nxt by simp
  qed
  have w: "workers t = workers s" "last_thread t = last_thread s"
    using link_block_cong [of p "s\<lparr>cq_mallocs := ps\<rparr>"] by (simp_all add: t_def)
  have h: "cq_holds w t (qs w)" if "w < length (workers s)" for w
  proof (rule cq_holds_cong)
    show "cq_holds w s (qs w)" using R that by (simp add: dispatch_ok_def)
  qed (use w out that in simp_all)
  have "p \<in> {p..<p + ITEMS_PER_ALLOC * sizeof_cq_item}" by (simp add: sizeof_cq_item_def ITEMS_PER_ALLOC_def)
  then have disj: "set (qs w) \<inter> set ?fr = {}" "p \<notin> set (qs w)" if "w < length (workers s)" for w
    using p(4) [OF that] blk(2) by blast+
  have "\<forall>w < length (workers s). \<forall>v < length (workers s). v \<noteq> w \<longrightarrow> set (qs w) \<inter> set (qs v) = {}"
    using R by (simp add: dispatch_ok_def)
  then have "dispatch_ok t qs ?fr" unfolding dispatch_ok_def w(1) using h fr disj(1) by blast
  moreover have "unqueued p t qs ?fr" unfolding unqueued_def w(1) using disj(2) p(2) blk(1) by blast
  moreover have "cq_request (cq_mem t q) = cq_request (cq_mem s q)" for q
    by (subst mt) (simp add: cq_request_def)
  then have "requests t xs = requests s xs" for xs by (simp add: requests_def)
  moreover have "length ?fr = (if free = [] then ITEMS_PER_ALLOC else length free) - 1" using Nil by (simp add: ITEMS_PER_ALLOC_def)
  ultimately show ?thesis using new w by blast
qed

lemma cq_push_fields:
  "cq_request (cq_mem (cq_push w x s) q) = cq_request (cq_mem s q)"
  "length (workers (cq_push w x s)) = length (workers s)" "last_thread (cq_push w x s) = last_thread s"
  "cqi_freelist (cq_push w x s) = cqi_freelist s"
  "v \<noteq> w \<Longrightarrow> workers (cq_push w x s) ! v = workers s ! v"
  "w < length (workers s) \<Longrightarrow> notify_pipe (workers (cq_push w x s) ! w) = notify_pipe (workers s ! w)"
  "q \<noteq> x \<Longrightarrow> q \<noteq> cq_tail (queue_of s w) \<Longrightarrow> cnx (cq_push w x s) q = cnx s q"
  by (simp_all add: cq_push_def Let_def cq_request_def)

lemma cq_push_ok:
  assumes R: "dispatch_ok s qs free" and x: "unqueued x s qs free" and w: "w < length (workers s)"
  shows "dispatch_ok (cq_push w x s) (qs(w := qs w @ [x])) free"
proof -
  let ?t = "cq_push w x s"
  have hw: "cq_holds w s (qs w)" using R w by (simp add: dispatch_ok_def)
  have tl: "cq_tail (queue_of s w) = (if qs w = [] then NULL else last (qs w))"
    using hw by (simp add: cq_holds_def)
  have keep: "cnx ?t q = cnx s q" if "q \<noteq> x" "q \<notin> set (qs w)" "q \<noteq> NULL" for q
    using that tl by (intro cq_push_fields(7)) auto
  have "cq_outside w x s"
    using x w hw chain_unique unfolding cq_outside_def unqueued_def cq_holds_def by blast
  from cq_push_holds [OF hw this] have new: "cq_holds w ?t (qs w @ [x])" .
  have old: "cq_holds v ?t (qs v)" if v: "v < length (workers s)" "v \<noteq> w" for v
  proof -
    have hv: "cq_holds v s (qs v)" and d: "set (qs v) \<inter> set (qs w) = {}" "x \<notin> set (qs v)"
      using R x v w by (simp_all add: dispatch_ok_def unqueued_def)
    have "NULL \<notin> set (qs v)" using hv chain_notNULL by (auto simp: cq_holds_def)
    with d have "cnx ?t q = cnx s q" if "q \<in> set (qs v)" for q
      using that by (intro keep) (auto intro!: gr0I)
    then show ?thesis
      using hv v cq_push_fields(2) [of w x s] cq_push_fields(5) [OF v(2), of x s] chain_cong [of "qs v" "cnx ?t" "cnx s"]
      by (simp add: cq_holds_def)
  qed
  have fr: "cqi_holds s free" and d: "set (qs w) \<inter> set free = {}" "x \<notin> set free"
    using R x w by (simp_all add: dispatch_ok_def unqueued_def)
  have "NULL \<notin> set free" using fr chain_notNULL by (auto simp: cqi_holds_def)
  with d have "cnx ?t q = cnx s q" if "q \<in> set free" for q
    using that by (intro keep) (auto intro!: gr0I)
  then have free: "cqi_holds ?t free"
    using fr chain_cong [of free "cnx ?t" "cnx s"] by (simp add: cqi_holds_def cq_push_fields)
  have "set (qs v) \<inter> set free = {}" "x \<notin> set (qs v)" if "v < length (workers s)" for v
    using that R x by (simp_all add: dispatch_ok_def unqueued_def)
  moreover have "set (qs u) \<inter> set (qs v) = {}"
    if "u < length (workers s)" "v < length (workers s)" "v \<noteq> u" for u v
    using that R by (simp add: dispatch_ok_def)
  ultimately show ?thesis
    using new old free d(2) w unfolding dispatch_ok_def cq_push_fields(2) by simp
qed

lemma upd_cq_content_ok:
  assumes "dispatch_ok s qs free" "\<And>i. cq_next (f i) = cq_next i"
  shows "dispatch_ok (upd_cq x f s) qs free"
proof -
  have "cnx (upd_cq x f s) = cnx s" using assms(2) by auto
  with assms(1) show ?thesis by (simp add: dispatch_ok_def cq_holds_def cqi_holds_def)
qed

text \<open>One dispatch, with the number of items that are left on the free list.\<close>

lemma dispatch_step:
  assumes R: "dispatch_ok s qs free" and mem: "free = [] \<Longrightarrow> fresh_block s qs"
    and n: "workers s \<noteq> []" "-1 \<le> last_thread s"
  defines "w \<equiv> nat ((last_thread s + 1) mod int (length (workers s)))"
  shows "\<exists>t x free'. dispatch_conn_new sfd st fl rb tr s = Some t
     \<and> dispatch_ok t (qs(w := qs w @ [x])) free'
     \<and> requests t (qs w @ [x]) = requests s (qs w) @ [(sfd, st, fl, rb, tr)]
     \<and> (\<forall>v < length (workers s). v \<noteq> w \<longrightarrow> requests t (qs v) = requests s (qs v) \<and> workers t ! v = workers s ! v)
     \<and> notify_pipe (workers t ! w) = notify_pipe (workers s ! w) @ ''c''
     \<and> last_thread t = int w \<and> length (workers t) = length (workers s)
     \<and> length free' = (if free = [] then ITEMS_PER_ALLOC else length free) - 1"
proof -
  from cqi_new_ok [OF R mem] obtain x u fr where u: "cqi_new s = (x, u)" "dispatch_ok u qs fr"
    "unqueued x u qs fr" "workers u = workers s"
    "\<forall>w < length (workers s). requests u (qs w) = requests s (qs w)" "last_thread u = last_thread s"
    "length fr = (if free = [] then ITEMS_PER_ALLOC else length free) - 1" by blast
  have w: "w < length (workers s)" "int w = (last_thread s + 1) mod int (length (workers s))"
    using n by (simp_all add: w_def nat_less_iff)
  let ?f = "\<lambda>c. c\<lparr>cq_sfd := sfd, cq_init_state := st, cq_event_flags := fl, cq_read_buffer_size := rb, cq_transport := tr\<rparr>"
  define v where "v = upd_cq x ?f (u\<lparr>last_thread := int w\<rparr>)"
  have "dispatch_ok (u\<lparr>last_thread := int w\<rparr>) qs fr"
    using u(2) by (simp add: dispatch_ok_def cq_holds_def cqi_holds_def)
  then have vok: "dispatch_ok v qs fr" "unqueued x v qs fr"
    unfolding v_def using u(3) by (simp_all add: upd_cq_content_ok unqueued_def)
  have wv: "workers v = workers s" "last_thread v = int w" using u(4) by (simp_all add: v_def)
  let ?t = "notify_worker w CHR ''c'' (cq_push w x v)"
  have run: "dispatch_conn_new sfd st fl rb tr s = Some ?t"
    using u(1,3,4,6) by (simp add: dispatch_conn_new_def v_def unqueued_def Let_def w(2) flip: w_def)
  have ok: "dispatch_ok (cq_push w x v) (qs(w := qs w @ [x])) fr"
    by (rule cq_push_ok [OF vok]) (simp add: wv w)
  have nt: "queue_of ?t i = queue_of (cq_push w x v) i" for i
    using w(1) wv cq_push_fields(2) [of w x v]
    by (cases "i = w") (simp_all add: notify_worker_def)
  have tok: "dispatch_ok ?t (qs(w := qs w @ [x])) fr"
    using ok nt by (simp add: dispatch_ok_def cq_holds_def cqi_holds_def notify_worker_def)
  have cont: "cq_request (cq_mem ?t q) = (if q = x then (sfd, st, fl, rb, tr) else cq_request (cq_mem u q))" for q
    by (simp add: notify_worker_def cq_push_fields(1) v_def) (simp add: cq_request_def)
  have req: "requests ?t (qs i) = requests s (qs i)" if "i < length (workers s)" for i
    using that u(3-5) cont by (auto simp: requests_def unqueued_def)
  have "requests ?t (qs w @ [x]) = requests s (qs w) @ [(sfd, st, fl, rb, tr)]"
    using req [OF w(1)] cont [of x] by (simp add: requests_def)
  moreover have "workers ?t ! i = workers s ! i" if "i \<noteq> w" for i
    using that by (simp add: notify_worker_def cq_push_fields wv)
  moreover have "notify_pipe (workers ?t ! w) = notify_pipe (workers s ! w) @ ''c''"
    "last_thread ?t = int w" "length (workers ?t) = length (workers s)"
    using w(1) by (simp_all add: notify_worker_def cq_push_fields wv)
  ultimately show ?thesis using run tok req u(7) by blast
qed

text \<open>
  Dispatch implements one first-in first-out queue per worker, served in rotation: the request is
  appended to the queue of the worker after the last one, cyclically, whose pipe gets one byte;
  the other queues and the requests already waiting are unchanged, and no queue item is shared.
\<close>

theorem dispatch_round_robin:
  assumes R: "dispatch_ok s qs free" and mem: "free = [] \<Longrightarrow> fresh_block s qs"
    and n: "workers s \<noteq> []" "-1 \<le> last_thread s"
  defines "w \<equiv> nat ((last_thread s + 1) mod int (length (workers s)))"
  shows "\<exists>t x free'. dispatch_conn_new sfd st fl rb tr s = Some t
     \<and> dispatch_ok t (qs(w := qs w @ [x])) free'
     \<and> requests t (qs w @ [x]) = requests s (qs w) @ [(sfd, st, fl, rb, tr)]
     \<and> (\<forall>v < length (workers s). v \<noteq> w \<longrightarrow> requests t (qs v) = requests s (qs v) \<and> workers t ! v = workers s ! v)
     \<and> notify_pipe (workers t ! w) = notify_pipe (workers s ! w) @ ''c''
     \<and> last_thread t = int w \<and> length (workers t) = length (workers s)"
  using dispatch_step [OF R mem n, of sfd st fl rb tr] unfolding w_def by blast

definition dispatch_boot :: dispatch where
  "dispatch_boot = \<lparr>cq_mem = (\<lambda>_. \<lparr>cq_sfd = 0, cq_init_state = conn_new_cmd, cq_event_flags = 0,
       cq_read_buffer_size = 0, cq_transport = tcp_transport, cq_next = NULL\<rparr>),
     cqi_freelist = NULL, cq_mallocs = [4096], workers = replicate 4
       \<lparr>new_conn_queue = \<lparr>cq_head = NULL, cq_tail = NULL\<rparr>, notify_pipe = [],
        item_lock_type = ITEM_LOCK_GRANULAR\<rparr>, last_thread = 3, init_count = 0\<rparr>"

theorem dispatch_round_robin_witness:
  "\<exists>t. dispatch_conn_new 7 conn_new_cmd 0 2048 tcp_transport dispatch_boot = Some t \<and> last_thread t = 0"
proof -
  have "dispatch_ok dispatch_boot (\<lambda>_. []) []" "fresh_block dispatch_boot (\<lambda>_. [])"
    "workers dispatch_boot \<noteq> []" "-1 \<le> last_thread dispatch_boot"
    "nat ((last_thread dispatch_boot + 1) mod int (length (workers dispatch_boot))) = 0"
    by (simp_all add: dispatch_ok_def cq_holds_def cqi_holds_def fresh_block_def dispatch_boot_def)
  from dispatch_round_robin [OF this(1-4), of 7 conn_new_cmd 0 2048 tcp_transport] this(5)
  show ?thesis by auto
qed

section \<open>Many connections\<close>

text \<open>A list of requests, dispatched one after the other, and the part of it that worker \<open>v\<close> of \<open>n\<close> gets.\<close>

type_synonym request = "int \<times> conn_states \<times> int \<times> int \<times> network_transport"

fun dispatch_all :: "request list \<Rightarrow> 'a dispatch_scheme \<Rightarrow> 'a dispatch_scheme option" where
  "dispatch_all [] s = Some s"
| "dispatch_all ((sfd, st, fl, rb, tr) # rs) s = do { s \<leftarrow> dispatch_conn_new sfd st fl rb tr s; dispatch_all rs s }"

fun share :: "int \<Rightarrow> nat \<Rightarrow> nat \<Rightarrow> 'r list \<Rightarrow> 'r list" where
  "share l n v [] = []"
| "share l n v (r # rs) = (if (l + 1) mod int n = int v then [r] else []) @ share ((l + 1) mod int n) n v rs"

lemma dispatch_all_shares:
  assumes "dispatch_ok s qs free" and "free = [] \<Longrightarrow> fresh_block s qs" and "workers s \<noteq> []" "-1 \<le> last_thread s"
    and "length rs \<le> (if free = [] then ITEMS_PER_ALLOC else length free)"
  shows "\<exists>t qs' free'. dispatch_all rs s = Some t \<and> dispatch_ok t qs' free' \<and> length (workers t) = length (workers s)
    \<and> (\<forall>v<length (workers s). requests t (qs' v) = requests s (qs v) @ share (last_thread s) (length (workers s)) v rs
        \<and> notify_pipe (workers t ! v) = notify_pipe (workers s ! v)
          @ map (\<lambda>_. CHR ''c'') (share (last_thread s) (length (workers s)) v rs))"
  using assms
proof (induction rs arbitrary: s qs free)
  case Nil
  then show ?case by auto
next
  case (Cons r rs)
  obtain sfd st fl rb tr where r: "r = (sfd, st, fl, rb, tr)" by (cases r)
  let ?n = "length (workers s)"
  define w where "w = nat ((last_thread s + 1) mod int ?n)"
  have w: "w < ?n" "int w = (last_thread s + 1) mod int ?n"
    using Cons.prems(3) by (simp_all add: w_def nat_less_iff)
  obtain u x fr where u: "dispatch_conn_new sfd st fl rb tr s = Some u" "dispatch_ok u (qs(w := qs w @ [x])) fr"
    "requests u (qs w @ [x]) = requests s (qs w) @ [r]"
    "\<forall>v<?n. v \<noteq> w \<longrightarrow> requests u (qs v) = requests s (qs v) \<and> workers u ! v = workers s ! v"
    "notify_pipe (workers u ! w) = notify_pipe (workers s ! w) @ ''c''" "last_thread u = int w" "length (workers u) = ?n"
    "length fr = (if free = [] then ITEMS_PER_ALLOC else length free) - 1"
    using dispatch_step [OF Cons.prems(1-4), of sfd st fl rb tr] unfolding w_def r by blast
  have one: "requests u ((qs(w := qs w @ [x])) v) = requests s (qs v) @ (if (last_thread s + 1) mod int ?n = int v then [r] else [])
      \<and> notify_pipe (workers u ! v) = notify_pipe (workers s ! v)
        @ map (\<lambda>_. CHR ''c'') (if (last_thread s + 1) mod int ?n = int v then [r] else [])"
    if "v < ?n" for v
    using that u(3-5) w by (cases "v = w") auto
  show ?case
  proof (cases "rs = []")
    case True
    with one u(1,2,7) show ?thesis
      by (intro exI [of _ u] exI [of _ "qs(w := qs w @ [x])"] exI [of _ fr]) (simp add: r del: fun_upd_apply)
  next
    case False
    then have "fr \<noteq> []" "length rs \<le> length fr" using u(8) Cons.prems(5) by (cases rs; auto)+
    then obtain t qs' free' where t: "dispatch_all rs u = Some t" "dispatch_ok t qs' free'" "length (workers t) = length (workers u)"
      "\<forall>v<length (workers u). requests t (qs' v) = requests u ((qs(w := qs w @ [x])) v)
          @ share (last_thread u) (length (workers u)) v rs
        \<and> notify_pipe (workers t ! v) = notify_pipe (workers u ! v)
          @ map (\<lambda>_. CHR ''c'') (share (last_thread u) (length (workers u)) v rs)"
      using Cons.IH [OF u(2)] u(6,7) w Cons.prems(3) by force
    show ?thesis
      using t u(1,6,7) one w(2)
      by (intro exI [of _ t] exI [of _ qs'] exI [of _ free'] conjI allI impI) (auto simp: r)
  qed
qed

end
