(* ===== verification/Object_Cache.thy ===== *)
theory Object_Cache
  imports Interfaces
begin

text \<open>
  \<open>cache.c\<close>: the cache of equally sized buffers, in the debugging build, where each buffer lies
  between two copies of a pattern that \<open>cache_free\<close> checks. The heap is a store of bytes. The
  constructor and the destructor are function pointers of the caller, so they are fields of the
  cache, as in the source; a \<open>None\<close> result is \<open>SIGABRT\<close>.
\<close>

section \<open>State\<close>

type_synonym bheap = "addr \<Rightarrow> u8"

text \<open>\<open>ptr\<close> is the array of \<open>freetotal\<close> raw buffer pointers, the first \<open>freecurr\<close> of them in use.\<close>

record cache =
  c_name :: string
  c_ptr :: "addr list"
  c_bufsize :: nat
  c_freetotal :: nat
  c_freecurr :: nat
  c_constructor :: "(addr \<Rightarrow> bheap \<Rightarrow> int \<times> bheap) option"
  c_destructor :: "(addr \<Rightarrow> bheap \<Rightarrow> bheap) option"
  c_heap :: bheap
  c_mallocs :: "addr list"
  c_freed :: "addr list"

text \<open>The bytes of \<open>redzone_pattern\<close> in memory order.\<close>

definition redzone_pattern :: bytes where
  "redzone_pattern = [0xbe, 0xba, 0xfe, 0xca, 0xef, 0xbe, 0xad, 0xde]"

definition initial_pool_size :: nat where "initial_pool_size = 64"

definition bytes_at :: "bheap \<Rightarrow> addr \<Rightarrow> nat \<Rightarrow> bytes" where
  "bytes_at h p n = map (\<lambda>i. h (p + i)) [0..<n]"

definition write_bytes :: "addr \<Rightarrow> bytes \<Rightarrow> bheap \<Rightarrow> bheap" where
  "write_bytes p bs h = (\<lambda>q. if p \<le> q \<and> q < p + length bs then bs ! (q - p) else h q)"

text \<open>The next result of \<open>malloc\<close>, \<open>calloc\<close>, \<open>strdup\<close> or \<open>realloc\<close>.\<close>

definition c_malloc :: "cache \<Rightarrow> addr \<times> cache" where
  "c_malloc c = (case c_mallocs c of [] \<Rightarrow> (NULL, c) | p # ps \<Rightarrow> (p, c\<lparr>c_mallocs := ps\<rparr>))"

definition c_free :: "addr \<Rightarrow> cache \<Rightarrow> cache" where
  "c_free p c = c\<lparr>c_freed := c_freed c @ [p]\<rparr>"

section \<open>Operations\<close>

text \<open>
  The three allocations of \<open>cache_create\<close> are made before any of them is tested;
  initialising the mutex is taken to succeed.
\<close>

definition cache_create :: "string \<Rightarrow> nat \<Rightarrow> (addr \<Rightarrow> bheap \<Rightarrow> int \<times> bheap) option
    \<Rightarrow> (addr \<Rightarrow> bheap \<Rightarrow> bheap) option \<Rightarrow> bheap \<Rightarrow> addr list \<Rightarrow> cache option \<times> addr list" where
  "cache_create name bufsize constr destr h mallocs = (let
     (ret, mallocs) = (case mallocs of [] \<Rightarrow> (NULL, []) | p # ps \<Rightarrow> (p, ps));
     (nm, mallocs) = (case mallocs of [] \<Rightarrow> (NULL, []) | p # ps \<Rightarrow> (p, ps));
     (ptr, mallocs) = (case mallocs of [] \<Rightarrow> (NULL, []) | p # ps \<Rightarrow> (p, ps)) in
   if ret = NULL \<or> nm = NULL \<or> ptr = NULL then (None, mallocs)
   else (Some \<lparr>c_name = name, c_ptr = replicate initial_pool_size NULL,
          c_bufsize = bufsize + 2 * length redzone_pattern, c_freetotal = initial_pool_size,
          c_freecurr = 0, c_constructor = constr, c_destructor = destr, c_heap = h,
          c_mallocs = mallocs, c_freed = []\<rparr>, mallocs))"

definition get_object :: "addr \<Rightarrow> addr" where
  "get_object p = p + length redzone_pattern"

fun cache_destroy_loop :: "nat \<Rightarrow> cache \<Rightarrow> cache" where
  "cache_destroy_loop 0 c = c"
| "cache_destroy_loop (Suc n) c = (let
     c = c\<lparr>c_freecurr := n\<rparr>;
     p = c_ptr c ! n;
     c = (case c_destructor c of None \<Rightarrow> c | Some d \<Rightarrow> c\<lparr>c_heap := d (get_object p) (c_heap c)\<rparr>)
   in cache_destroy_loop n (c_free p c))"

text \<open>The buffers released; the name, the array and the structure itself go last.\<close>

definition cache_destroy :: "cache \<Rightarrow> cache" where
  "cache_destroy c = cache_destroy_loop (c_freecurr c) c"

text \<open>Where the patterns of the object at \<open>object\<close> lie.\<close>

definition pre_zone :: "addr \<Rightarrow> addr" where
  "pre_zone object = object - length redzone_pattern"

definition post_zone :: "cache \<Rightarrow> addr \<Rightarrow> addr" where
  "post_zone c object = object + c_bufsize c - 2 * length redzone_pattern"

definition cache_alloc :: "cache \<Rightarrow> addr \<times> cache" where
  "cache_alloc c = (let
     (object, ret, c) =
       (if 0 < c_freecurr c then
          (let c = c\<lparr>c_freecurr := c_freecurr c - 1\<rparr>; ret = c_ptr c ! c_freecurr c
           in (get_object ret, ret, c))
        else (case c_malloc c of (ret, c) \<Rightarrow>
          if ret \<noteq> NULL then
            (case c_constructor c of
               None \<Rightarrow> (get_object ret, ret, c)
             | Some k \<Rightarrow> (case k (get_object ret) (c_heap c) of (r, h) \<Rightarrow>
                 if r \<noteq> 0 then (NULL, ret, c_free ret (c\<lparr>c_heap := h\<rparr>))
                 else (get_object ret, ret, c\<lparr>c_heap := h\<rparr>)))
          else (NULL, NULL, c)))
   in (object,
     if object \<noteq> NULL then
       c\<lparr>c_heap := write_bytes (post_zone c (ret + length redzone_pattern)) redzone_pattern
           (write_bytes ret redzone_pattern (c_heap c))\<rparr>
     else c))"

definition cache_free :: "addr \<Rightarrow> cache \<Rightarrow> cache option" where
  "cache_free object c =
     (if bytes_at (c_heap c) (post_zone c object) (length redzone_pattern) \<noteq> redzone_pattern then None
      else if bytes_at (c_heap c) (pre_zone object) (length redzone_pattern) \<noteq> redzone_pattern then None
      else (let ptr = pre_zone object in
        if c_freecurr c < c_freetotal c
        then Some (c\<lparr>c_ptr := (c_ptr c)[c_freecurr c := ptr], c_freecurr := c_freecurr c + 1\<rparr>)
        else (case c_malloc c of (new_free, c) \<Rightarrow>
          if new_free \<noteq> NULL then
            (let newtotal = c_freetotal c * 2;
                 c = c\<lparr>c_freetotal := newtotal,
                   c_ptr := c_ptr c @ replicate (newtotal - length (c_ptr c)) NULL\<rparr>
             in Some (c\<lparr>c_ptr := (c_ptr c)[c_freecurr c := ptr], c_freecurr := c_freecurr c + 1\<rparr>))
          else Some (c_free ptr (case c_destructor c of None \<Rightarrow> c
             | Some d \<Rightarrow> c\<lparr>c_heap := d ptr (c_heap c)\<rparr>)))))"

section \<open>The cache is a pool\<close>

definition cache_shape :: "cache \<Rightarrow> bool" where
  "cache_shape c \<longleftrightarrow> length (c_ptr c) = c_freetotal c \<and> c_freecurr c \<le> c_freetotal c
     \<and> 0 < c_freetotal c \<and> 2 * length redzone_pattern \<le> c_bufsize c
     \<and> NULL \<notin> set (take (c_freecurr c) (c_ptr c)) \<and> distinct (take (c_freecurr c) (c_ptr c))"

definition cache_holds :: "cache \<Rightarrow> addr list \<Rightarrow> bool" where
  "cache_holds c xs \<longleftrightarrow> cache_shape c \<and> xs = map get_object (rev (take (c_freecurr c) (c_ptr c)))"

text \<open>A buffer that a user returns intact, with room for it in the array.\<close>

definition cache_idle :: "addr \<Rightarrow> cache \<Rightarrow> bool" where
  "cache_idle x c \<longleftrightarrow> length redzone_pattern < x \<and> pre_zone x \<notin> set (take (c_freecurr c) (c_ptr c))
     \<and> bytes_at (c_heap c) (pre_zone x) (length redzone_pattern) = redzone_pattern
     \<and> bytes_at (c_heap c) (post_zone c x) (length redzone_pattern) = redzone_pattern
     \<and> c_freecurr c < c_freetotal c"

definition cache_get :: "cache \<Rightarrow> (addr \<times> cache) option" where
  "cache_get c = (case cache_alloc c of (x, d) \<Rightarrow> if x = NULL then None else Some (x, d))"

lemma redzone_length [simp]: "length redzone_pattern = 8"
  by (simp add: redzone_pattern_def)

lemma bytes_at_write [simp]: "bytes_at (write_bytes p bs h) p (length bs) = bs"
  by (rule nth_equalityI) (simp_all add: bytes_at_def write_bytes_def)

lemma bytes_at_write_other:
  "q + n \<le> p \<or> p + length bs \<le> q \<Longrightarrow> bytes_at (write_bytes p bs h) q n = bytes_at h q n"
  by (auto simp: bytes_at_def write_bytes_def)

lemma cache_alloc_pop:
  assumes "cache_holds c (x # xs)"
  shows "\<exists>d. cache_alloc c = (x, d) \<and> x \<noteq> NULL \<and> cache_holds d xs \<and> cache_idle x d
     \<and> c_ptr d = c_ptr c \<and> c_freecurr d = c_freecurr c - 1"
proof -
  let ?n = "c_freecurr c - 1" and ?P = "redzone_pattern"
  have sh: "cache_shape c" and xs: "x # xs = map get_object (rev (take (c_freecurr c) (c_ptr c)))"
    using assms by (simp_all add: cache_holds_def)
  from xs have n: "0 < c_freecurr c" by (cases "c_freecurr c") simp_all
  then have tk: "take (c_freecurr c) (c_ptr c) = take ?n (c_ptr c) @ [c_ptr c ! ?n]"
    using sh by (cases "c_freecurr c") (simp_all add: cache_shape_def take_Suc_conv_app_nth)
  let ?r = "c_ptr c ! ?n"
  have x: "x = ?r + 8" "xs = map get_object (rev (take ?n (c_ptr c)))"
    using xs unfolding tk by (simp_all add: get_object_def)
  have r: "?r \<noteq> NULL" "?r \<notin> set (take ?n (c_ptr c))" "distinct (take ?n (c_ptr c))"
    "NULL \<notin> set (take ?n (c_ptr c))"
    using sh unfolding cache_shape_def tk by auto
  have b: "16 \<le> c_bufsize c" using sh by (simp add: cache_shape_def)
  define h where "h = write_bytes (?r + c_bufsize c - 8) ?P (write_bytes ?r ?P (c_heap c))"
  let ?d = "c\<lparr>c_freecurr := ?n, c_heap := h\<rparr>"
  have pz: "post_zone c (?r + 8) = ?r + c_bufsize c - 8" using b by (simp add: post_zone_def)
  have run: "cache_alloc c = (x, ?d)"
    using n x(1) pz by (simp add: cache_alloc_def Let_def get_object_def h_def post_zone_def)
  have "bytes_at h ?r 8 = ?P"
    unfolding h_def using b bytes_at_write [of ?r ?P] by (subst bytes_at_write_other) simp_all
  moreover have "bytes_at h (?r + c_bufsize c - 8) 8 = ?P"
    unfolding h_def using bytes_at_write [of "?r + c_bufsize c - 8" ?P] by simp
  ultimately have "cache_idle x ?d"
    using x(1) r(1,2) pz n sh
    by (auto simp: cache_idle_def pre_zone_def post_zone_def cache_shape_def)
  moreover have "cache_holds ?d xs"
    using sh r(3,4) x(2) by (auto simp: cache_holds_def cache_shape_def)
  ultimately show ?thesis using run x(1) by auto
qed

interpretation buffer_pool: lifo_pool cache_holds cache_idle cache_free cache_get
proof
  fix c x xs
  show "\<exists>d. cache_free x c = Some d \<and> cache_holds d (x # xs)" if "cache_holds c xs" "cache_idle x c"
    using that
    by (auto simp: cache_free_def cache_holds_def cache_idle_def cache_shape_def get_object_def
        pre_zone_def take_Suc_conv_app_nth)
  show "\<exists>d. cache_get c = Some (x, d) \<and> cache_holds d xs \<and> cache_idle x d" if "cache_holds c (x # xs)"
    using cache_alloc_pop [OF that] by (auto simp: cache_get_def)
  show "cache_holds c xs \<Longrightarrow> distinct xs"
    by (auto simp: cache_holds_def cache_shape_def distinct_map get_object_def inj_on_def)
qed

section \<open>Buffer overruns\<close>

lemma bytes_at_eq_iff: "bytes_at h p n = bytes_at k p n \<longleftrightarrow> (\<forall>q. p \<le> q \<and> q < p + n \<longrightarrow> h q = k q)"
proof -
  have "(\<forall>i < n. h (p + i) = k (p + i)) \<longleftrightarrow> (\<forall>q. p \<le> q \<and> q < p + n \<longrightarrow> h q = k q)"
    by (metis le_add1 le_add_diff_inverse nat_add_left_cancel_less)
  then show ?thesis by (simp add: bytes_at_def Ball_def)
qed

lemma cache_alloc_result:
  assumes "cache_alloc c = (x, d)" "x \<noteq> NULL"
  shows "\<exists>ret h. x = get_object ret \<and> c_heap d = write_bytes (post_zone c x) redzone_pattern
    (write_bytes ret redzone_pattern h) \<and> c_bufsize d = c_bufsize c
    \<and> (0 < c_freecurr c \<longrightarrow> h = c_heap c)"
proof -
  have "c_bufsize (snd (c_malloc e)) = c_bufsize e" for e
    by (simp add: c_malloc_def split: list.splits)
  then have m: "c_malloc e = (r, e') \<Longrightarrow> c_bufsize e' = c_bufsize e" for e e' r by (metis snd_conv)
  show ?thesis
    using assms
    by (auto simp: cache_alloc_def Let_def c_free_def post_zone_def get_object_def dest!: m
        split: if_splits prod.splits option.splits)
qed

text \<open>
  Property C33.
  Overruns are caught, and only overruns: whatever the user of a buffer writes, \<open>cache_free\<close>
  aborts if and only if one of the eight bytes before or after the buffer has changed; the bytes
  of the buffer itself are free to use.
\<close>

theorem overrun_detected:
  assumes "cache_alloc c = (x, d)" "x \<noteq> NULL" "16 \<le> c_bufsize c"
  shows "cache_free x (d\<lparr>c_heap := h\<rparr>) = None
     \<longleftrightarrow> (\<exists>q. h q \<noteq> c_heap d q \<and> (x - 8 \<le> q \<and> q < x
           \<or> x + (c_bufsize c - 16) \<le> q \<and> q < x + (c_bufsize c - 16) + 8))"
proof -
  let ?P = redzone_pattern and ?pz = "x + (c_bufsize c - 16)"
  from cache_alloc_result [OF assms(1,2)] obtain ret g where x: "x = ret + 8"
    and hd: "c_heap d = write_bytes (post_zone c x) ?P (write_bytes ret ?P g)"
    and sz: "c_bufsize d = c_bufsize c" by (auto simp: get_object_def)
  have pz: "post_zone c x = ?pz" "post_zone d x = ?pz" using assms(3) sz by (simp_all add: post_zone_def)
  have pre: "bytes_at (c_heap d) ret 8 = ?P"
    unfolding hd pz using x bytes_at_write [of ret ?P] by (subst bytes_at_write_other) simp_all
  have post: "bytes_at (c_heap d) ?pz 8 = ?P"
    unfolding hd pz using bytes_at_write [of ?pz ?P] by simp
  have "cache_free x (d\<lparr>c_heap := h\<rparr>) = None \<longleftrightarrow> bytes_at h ?pz 8 \<noteq> ?P \<or> bytes_at h ret 8 \<noteq> ?P"
    using x pz(2) by (simp add: cache_free_def Let_def pre_zone_def post_zone_def split: prod.splits)
  also have "\<dots> \<longleftrightarrow> bytes_at h ?pz 8 \<noteq> bytes_at (c_heap d) ?pz 8 \<or> bytes_at h ret 8 \<noteq> bytes_at (c_heap d) ret 8"
    unfolding pre post ..
  finally show ?thesis unfolding bytes_at_eq_iff using x by auto
qed

definition cache_boot :: cache where
  "cache_boot = \<lparr>c_name = ''suffix'', c_ptr = [1000, NULL], c_bufsize = 40, c_freetotal = 2,
     c_freecurr = 1, c_constructor = None, c_destructor = None, c_heap = (\<lambda>_. 0), c_mallocs = [],
     c_freed = []\<rparr>"

theorem overrun_detected_witness:
  "\<exists>d. cache_alloc cache_boot = (1008, d) \<and> cache_free 1008 (d\<lparr>c_heap := (c_heap d)(1032 := 7)\<rparr>) = None"
proof -
  obtain d where d: "cache_alloc cache_boot = (1008, d)"
    by (simp add: cache_alloc_def cache_boot_def get_object_def)
  have "c_bufsize cache_boot = 40" "c_heap d 1032 = 0xbe"
    using d by (auto simp: cache_alloc_def cache_boot_def get_object_def post_zone_def
        write_bytes_def redzone_pattern_def)
  with overrun_detected [OF d, of "(c_heap d)(1032 := 7)"] d show ?thesis by auto
qed

text \<open>
  A buffer given back is the next one handed out, with the user's bytes as they were left, and as
  many allocations as there are cached buffers return distinct ones.
\<close>

theorem buffer_reuse:
  assumes "cache_holds c xs" "cache_idle x c" "k \<le> length xs"
  shows "\<exists>d e. cache_free x c = Some d \<and> cache_get d = Some (x, e) \<and> cache_holds e xs
     \<and> (\<exists>ys f. get_n cache_get k e = Some (ys, f) \<and> length ys = k \<and> distinct (x # ys))
     \<and> (\<forall>q. x \<le> q \<and> q < x + (c_bufsize c - 16) \<longrightarrow> c_heap e q = c_heap c q)"
proof -
  from buffer_pool.put_get [OF assms(1,2)] obtain d e where de: "cache_free x c = Some d"
    "cache_get d = Some (x, e)" "cache_holds e xs" by blast
  from buffer_pool.get_n_holds [OF de(3) assms(3)] obtain f where f: "get_n cache_get k e = Some (take k xs, f)"
    by blast
  have "cache_holds d (x # xs)"
    using buffer_pool.put_law [OF assms(1,2)] de(1) by auto
  then have "distinct (x # xs)" by (rule buffer_pool.distinct_law)
  then have "distinct (x # take k xs)" by (auto dest: in_set_takeD)
  moreover have "c_heap e q = c_heap c q" if q: "x \<le> q" "q < x + (c_bufsize c - 16)" for q
  proof -
    have d: "c_heap d = c_heap c" "c_bufsize d = c_bufsize c" "0 < c_freecurr d" "16 \<le> c_bufsize c"
      using de(1) assms(1,2)
      by (auto simp: cache_free_def cache_idle_def cache_holds_def cache_shape_def split: if_splits)
    have "cache_alloc d = (x, e)" "x \<noteq> NULL"
      using de(2) by (auto simp: cache_get_def split: prod.splits if_splits)
    from cache_alloc_result [OF this] obtain ret where "x = get_object ret"
      "c_heap e = write_bytes (post_zone d x) redzone_pattern (write_bytes ret redzone_pattern (c_heap d))"
      using d(3) by auto
    with q d show ?thesis by (simp add: write_bytes_def post_zone_def get_object_def)
  qed
  ultimately show ?thesis using de f assms(3)
    by (intro exI [of _ d] exI [of _ e] conjI exI [of _ "take k xs"] exI [of _ f]) auto
qed

theorem buffer_reuse_witness:
  "\<exists>c d e. cache_free 2008 c = Some d \<and> cache_get d = Some (2008, e) \<and> cache_holds c [1008]"
proof -
  define c where "c = cache_boot\<lparr>c_heap := write_bytes 2032 redzone_pattern (write_bytes 2000 redzone_pattern (\<lambda>_. 0))\<rparr>"
  have "cache_holds c [1008]"
    by (simp add: cache_holds_def cache_shape_def c_def cache_boot_def get_object_def)
  moreover have "cache_idle 2008 c"
    by (simp add: cache_idle_def c_def cache_boot_def pre_zone_def post_zone_def bytes_at_def
        write_bytes_def redzone_pattern_def upt_rec)
  ultimately show ?thesis using buffer_reuse [of c "[1008]" 2008 1] by auto
qed

end
