(* ===== verification/Prefix_Stats.thy ===== *)
theory Prefix_Stats
  imports Hash Clib Memory
begin

text \<open>
  \<open>stats.c\<close>: counters per key prefix, kept in a hash table of fixed size. A chain of
  \<open>PREFIX_STATS\<close> structures is the list of its elements from the head; the pointer that
  \<open>stats_prefix_find\<close> returns is the bucket and the position in its chain.
\<close>

section \<open>State\<close>

definition PREFIX_HASH_SIZE :: nat where "PREFIX_HASH_SIZE = 256"

record prefix_entry =
  px_prefix :: string
  px_prefix_len :: nat
  px_gets :: u64
  px_sets :: u64
  px_deletes :: u64
  px_hits :: u64

text \<open>The two totals are of type \<open>int\<close>; they are kept as 32-bit words and read with \<open>sint\<close>.\<close>

record prefix_state =
  prefix_stats :: "nat \<Rightarrow> prefix_entry list"
  num_prefixes :: u32
  total_prefix_size :: u32
  px_mallocs :: "addr list"

text \<open>The static variables when the program starts, with the answers that \<open>malloc\<close> will give.\<close>

definition prefix_static :: "addr list \<Rightarrow> prefix_state" where
  "prefix_static ms = \<lparr>prefix_stats = (\<lambda>_. []), num_prefixes = 0, total_prefix_size = 0, px_mallocs = ms\<rparr>"

definition px_malloc :: "prefix_state \<Rightarrow> addr \<times> prefix_state" where
  "px_malloc s = (case px_mallocs s of [] \<Rightarrow> (NULL, s) | p # ps \<Rightarrow> (p, s\<lparr>px_mallocs := ps\<rparr>))"

definition stats_prefix_init :: "prefix_state \<Rightarrow> prefix_state" where
  "stats_prefix_init s = s\<lparr>prefix_stats := (\<lambda>_. [])\<rparr>"

definition stats_prefix_clear :: "prefix_state \<Rightarrow> prefix_state" where
  "stats_prefix_clear s = s\<lparr>prefix_stats := (\<lambda>i. if i < PREFIX_HASH_SIZE then [] else prefix_stats s i),
     num_prefixes := 0, total_prefix_size := 0\<rparr>"

section \<open>Finding a prefix\<close>

text \<open>
  The part of the key before the first delimiter, \<open>None\<close> when there is none: the scan stops at the
  end of the key or at a null character.
\<close>

fun prefix_scan :: "char \<Rightarrow> string \<Rightarrow> string option" where
  "prefix_scan delim [] = None"
| "prefix_scan delim (c # cs) = (if c = CHR 0x00 then None else if c = delim then Some []
     else map_option ((#) c) (prefix_scan delim cs))"

text \<open>\<open>strncmp(pfs->prefix, key, length) == 0\<close>, where the key has \<open>length\<close> non-null characters.\<close>

definition prefix_matches :: "string \<Rightarrow> string \<Rightarrow> bool" where
  "prefix_matches stored pre \<longleftrightarrow> take (length pre) stored = pre"

fun prefix_search :: "string \<Rightarrow> nat \<Rightarrow> prefix_entry list \<Rightarrow> nat option" where
  "prefix_search pre i [] = None"
| "prefix_search pre i (e # es) = (if prefix_matches (px_prefix e) pre then Some i
     else prefix_search pre (i + 1) es)"

definition prefix_bucket :: "string \<Rightarrow> nat" where
  "prefix_bucket pre = unat (hash_key pre) mod PREFIX_HASH_SIZE"

definition stats_prefix_find :: "char \<Rightarrow> string \<Rightarrow> prefix_state \<Rightarrow> (nat \<times> nat) option \<times> prefix_state" where
  "stats_prefix_find delim key s = (case prefix_scan delim key of None \<Rightarrow> (None, s)
     | Some pre \<Rightarrow> (let hashval = prefix_bucket pre in
         case prefix_search pre 0 (prefix_stats s hashval) of
           Some i \<Rightarrow> (Some (hashval, i), s)
         | None \<Rightarrow> (let (pfs, s) = px_malloc s in
             if pfs = NULL then (None, s)
             else let (buf, s) = px_malloc s in
             if buf = NULL then (None, s)
             else (Some (hashval, 0), s\<lparr>prefix_stats := (prefix_stats s)(hashval :=
                 \<lparr>px_prefix = pre, px_prefix_len = length pre, px_gets = 0, px_sets = 0,
                  px_deletes = 0, px_hits = 0\<rparr> # prefix_stats s hashval),
               num_prefixes := num_prefixes s + 1,
               total_prefix_size := total_prefix_size s + of_nat (length pre)\<rparr>))))"

section \<open>Recording\<close>

definition upd_prefix :: "nat \<times> nat \<Rightarrow> (prefix_entry \<Rightarrow> prefix_entry) \<Rightarrow> prefix_state \<Rightarrow> prefix_state" where
  "upd_prefix p f s = (case p of (b, i) \<Rightarrow>
     s\<lparr>prefix_stats := (prefix_stats s)(b := (prefix_stats s b)[i := f (prefix_stats s b ! i)])\<rparr>)"

definition record_prefix :: "char \<Rightarrow> string \<Rightarrow> (prefix_entry \<Rightarrow> prefix_entry) \<Rightarrow> prefix_state \<Rightarrow> prefix_state" where
  "record_prefix delim key f s = (case stats_prefix_find delim key s of
     (None, s) \<Rightarrow> s | (Some p, s) \<Rightarrow> upd_prefix p f s)"

definition stats_prefix_record_get :: "char \<Rightarrow> string \<Rightarrow> bool \<Rightarrow> prefix_state \<Rightarrow> prefix_state" where
  "stats_prefix_record_get delim key is_hit = record_prefix delim key
     (\<lambda>e. let e = e\<lparr>px_gets := px_gets e + 1\<rparr> in if is_hit then e\<lparr>px_hits := px_hits e + 1\<rparr> else e)"

definition stats_prefix_record_delete :: "char \<Rightarrow> string \<Rightarrow> prefix_state \<Rightarrow> prefix_state" where
  "stats_prefix_record_delete delim key =
     record_prefix delim key (\<lambda>e. e\<lparr>px_deletes := px_deletes e + 1\<rparr>)"

definition stats_prefix_record_set :: "char \<Rightarrow> string \<Rightarrow> prefix_state \<Rightarrow> prefix_state" where
  "stats_prefix_record_set delim key = record_prefix delim key (\<lambda>e. e\<lparr>px_sets := px_sets e + 1\<rparr>)"

section \<open>Printing\<close>

definition prefix_format :: string where
  "prefix_format = ''PREFIX %s get %llu hit %llu set %llu del %llu'' @ [CHR 0x0D, CHR 0x0A]"

definition prefix_line :: "prefix_entry \<Rightarrow> string" where
  "prefix_line e = ''PREFIX '' @ px_prefix e @ '' get '' @ dec (unat (px_gets e)) @ '' hit ''
     @ dec (unat (px_hits e)) @ '' set '' @ dec (unat (px_sets e)) @ '' del ''
     @ dec (unat (px_deletes e)) @ [CHR 0x0D, CHR 0x0A]"

text \<open>
  The size of the buffer, in \<open>size_t\<close> arithmetic: the two totals are sign-extended, and
  \<open>sizeof("END\r\n")\<close> is 6.
\<close>

definition dump_size :: "prefix_state \<Rightarrow> u64" where
  "dump_size s = of_nat (length prefix_format) + scast (total_prefix_size s)
     + scast (num_prefixes s) * (of_nat (length prefix_format) - 2 + 4 * (20 - 4)) + 6"

text \<open>
  The \<open>snprintf\<close> of each entry at \<open>buf + pos\<close>, where \<open>pos\<close> is an \<open>int\<close>, and the assertion on
  \<open>total_written\<close> after it. \<open>None\<close> is a failed assertion, or a store before the buffer.
\<close>

fun dump_entries :: "prefix_entry list \<Rightarrow> u64 \<Rightarrow> u32 \<Rightarrow> u64 \<Rightarrow> string \<Rightarrow> (u32 \<times> string) option" where
  "dump_entries [] bufsize pos total_written buf = Some (pos, buf)"
| "dump_entries (e # es) bufsize pos total_written buf = (if sint pos < 0 then None
     else let buf = take (unat pos) buf @ prefix_line e;
       written = of_nat (length (prefix_line e)) :: u64;
       pos = pos + ucast written;
       total_written = total_written + written in
     if total_written < bufsize then dump_entries es bufsize pos total_written buf else None)"

definition all_entries :: "prefix_state \<Rightarrow> prefix_entry list" where
  "all_entries s = concat (map (prefix_stats s) [0..<PREFIX_HASH_SIZE])"

text \<open>
  The outer option is a failed assertion or a store outside the buffer, also of the six bytes of the terminator,
  the inner one a failed \<open>malloc\<close>. The text returned has the length that the caller is given.
\<close>

definition stats_prefix_dump :: "prefix_state \<Rightarrow> (string option \<times> prefix_state) option" where
  "stats_prefix_dump s = (let bufsize = dump_size s in case px_malloc s of (buf, s) \<Rightarrow>
     if buf = NULL then Some (None, s)
     else case dump_entries (all_entries s) bufsize 0 0 [] of None \<Rightarrow> None
       | Some (pos, out) \<Rightarrow>
           if sint pos < 0 \<or> unat bufsize < unat pos + 6 then None
           else Some (Some (take (unat pos) out @ ''END'' @ [CHR 0x0D, CHR 0x0A]), s))"

section \<open>The dump fits its buffer\<close>

text \<open>The two totals are those of the table, and each stored length is right.\<close>

definition prefix_chars :: "prefix_state \<Rightarrow> nat" where
  "prefix_chars s = (\<Sum>e\<leftarrow>all_entries s. length (px_prefix e))"

definition prefix_ok :: "prefix_state \<Rightarrow> bool" where
  "prefix_ok s \<longleftrightarrow> num_prefixes s = of_nat (length (all_entries s))
     \<and> total_prefix_size s = of_nat (prefix_chars s)"

lemma prefix_bucket_less: "prefix_bucket pre < PREFIX_HASH_SIZE"
  by (simp add: prefix_bucket_def PREFIX_HASH_SIZE_def)

lemma dec_length: "0 < k \<Longrightarrow> n < 10 ^ k \<Longrightarrow> length (dec n) \<le> k"
proof (induction k arbitrary: n)
  case (Suc k)
  show ?case
  proof (cases "n < 10")
    case False
    with Suc.prems have "0 < k" by (cases k) auto
    moreover have "n div 10 < 10 ^ k" using Suc.prems by simp
    ultimately show ?thesis using Suc.IH False by (simp add: dec.simps [of n])
  qed (simp add: dec.simps [of n])
qed simp

lemma dec_u64_length: "length (dec (unat (w :: u64))) \<le> 20"
proof (rule dec_length)
  have "unat w < 2 ^ 64" by (rule order.strict_trans2 [OF unsigned_less]) simp
  then show "unat w < 10 ^ 20" by simp
qed simp

lemma format_length [simp]: "length prefix_format = 47"
  by (simp add: prefix_format_def)

lemma prefix_line_length: "length (prefix_line e) \<le> length (px_prefix e) + 109"
  using dec_u64_length [of "px_gets e"] dec_u64_length [of "px_hits e"] dec_u64_length [of "px_sets e"]
    dec_u64_length [of "px_deletes e"] by (simp add: prefix_line_def)

lemma prefix_line_longer: "length (px_prefix e) < length (prefix_line e)"
  by (simp add: prefix_line_def)

lemma int_of_nat_word:
  assumes "n < 2 ^ 31"
  shows "unat (of_nat n :: u32) = n" "sint (of_nat n :: u32) = int n" "scast (of_nat n :: u32) = (of_nat n :: u64)"
proof -
  show "unat (of_nat n :: u32) = n" using assms by (simp add: unat_of_nat)
  show s: "sint (of_nat n :: u32) = int n"
    using assms by (simp add: signed_of_nat signed_take_bit_int_eq_self)
  show "scast (of_nat n :: u32) = (of_nat n :: u64)" by (simp add: scast_eq s)
qed

lemma size_of_nat_word: "n < 2 ^ 64 \<Longrightarrow> unat (of_nat n :: u64) = n"
  by (simp add: unat_of_nat)

lemma dump_entries_fit:
  assumes "length buf + length (concat (map prefix_line es)) < 2 ^ 31"
    and "length buf + length (concat (map prefix_line es)) < unat bufsize"
  shows "dump_entries es bufsize (of_nat (length buf)) (of_nat (length buf)) buf
    = Some (of_nat (length buf + length (concat (map prefix_line es))), buf @ concat (map prefix_line es))"
  using assms
proof (induction es arbitrary: buf)
  case (Cons e es)
  let ?n = "length buf" and ?l = "length (prefix_line e)"
  have n: "?n < 2 ^ 31" "?n + ?l < 2 ^ 31" "?n + ?l < unat bufsize" using Cons.prems by simp_all
  have a: "\<not> sint (of_nat ?n :: u32) < 0" "unat (of_nat ?n :: u32) = ?n"
    using int_of_nat_word [OF n(1)] by simp_all
  have b: "of_nat ?n + ucast (of_nat ?l :: u64) = (of_nat (?n + ?l) :: u32)"
    by (simp add: unsigned_of_nat word_of_nat_eq_iff take_bit_take_bit)
  have c: "of_nat ?n + of_nat ?l < bufsize"
    using n by (simp add: word_less_nat_alt size_of_nat_word flip: of_nat_add)
  show ?case using Cons.IH [of "buf @ prefix_line e"] Cons.prems a b c
    by (simp add: Let_def add.assoc)
qed simp

lemma int_sum_lengths: "int (\<Sum>e\<leftarrow>es. length (px_prefix e)) = (\<Sum>e\<leftarrow>es. int (length (px_prefix e)))"
  by (induction es) simp_all

lemma lines_bounds:
  "length (concat (map prefix_line es)) \<le> (\<Sum>e\<leftarrow>es. length (px_prefix e)) + length es * 109"
  "(\<Sum>e\<leftarrow>es. length (px_prefix e)) + length es \<le> length (concat (map prefix_line es))"
proof (induction es)
  case (Cons e es)
  { case 1 show ?case using Cons.IH(1) prefix_line_length [of e] by simp }
  { case 2 show ?case using Cons.IH(2) prefix_line_longer [of e] by simp }
qed simp_all

text \<open>Updating or adding an entry in one bucket.\<close>

lemma all_entries_upd:
  assumes "b < PREFIX_HASH_SIZE"
  shows "\<exists>as bs. all_entries s = as @ prefix_stats s b @ bs
    \<and> all_entries (s\<lparr>prefix_stats := (prefix_stats s)(b := xs)\<rparr>) = as @ xs @ bs"
proof -
  have "[0..<PREFIX_HASH_SIZE] = [0..<b] @ b # [Suc b..<PREFIX_HASH_SIZE]"
    using assms by (metis le0 less_imp_le_nat upt_add_eq_append upt_conv_Cons add_0 le_add_diff_inverse)
  then show ?thesis
    by (intro exI [of _ "concat (map (prefix_stats s) [0..<b])"]
        exI [of _ "concat (map (prefix_stats s) [Suc b..<PREFIX_HASH_SIZE])"])
      (auto simp: all_entries_def)
qed

lemma px_malloc_ok: "px_malloc s = (p, t) \<Longrightarrow> prefix_stats t = prefix_stats s \<and> num_prefixes t = num_prefixes s
    \<and> total_prefix_size t = total_prefix_size s"
  by (auto simp: px_malloc_def split: list.splits)

lemma prefix_search_less: "prefix_search pre i es = Some j \<Longrightarrow> i \<le> j \<and> j < i + length es
    \<and> prefix_matches (px_prefix (es ! (j - i))) pre"
proof (induction es arbitrary: i)
  case (Cons e es)
  show ?case
  proof (cases "prefix_matches (px_prefix e) pre")
    case False
    with Cons.prems Cons.IH [of "i + 1"] have "i + 1 \<le> j \<and> j < i + 1 + length es
      \<and> prefix_matches (px_prefix (es ! (j - (i + 1)))) pre" by simp
    then show ?thesis by (auto simp: Suc_diff_le nth_Cons' Suc_diff_Suc)
  qed (use Cons.prems in auto)
qed simp

lemma stats_prefix_find_ok:
  assumes "stats_prefix_find delim key s = (r, t)" "prefix_ok s"
  shows "prefix_ok t" "r = Some (b, i) \<Longrightarrow> b < PREFIX_HASH_SIZE \<and> i < length (prefix_stats t b)"
proof -
  have "prefix_ok t \<and> (\<forall>b i. r = Some (b, i) \<longrightarrow> b < PREFIX_HASH_SIZE \<and> i < length (prefix_stats t b))"
  proof (cases "prefix_scan delim key")
    case None
    with assms show ?thesis by (auto simp: stats_prefix_find_def)
  next
    case (Some pre)
    let ?b = "prefix_bucket pre"
    show ?thesis
    proof (cases "prefix_search pre 0 (prefix_stats s ?b)")
      case (Some i)
      with assms \<open>prefix_scan delim key = Some pre\<close> show ?thesis
        by (auto simp: stats_prefix_find_def dest: prefix_search_less intro: prefix_bucket_less)
    next
      case None
      obtain p u where p: "px_malloc s = (p, u)" by fastforce
      obtain q v where q: "px_malloc u = (q, v)" by fastforce
      have v: "prefix_stats v = prefix_stats s" "num_prefixes v = num_prefixes s"
        "total_prefix_size v = total_prefix_size s"
        "prefix_stats u = prefix_stats s" "num_prefixes u = num_prefixes s"
        "total_prefix_size u = total_prefix_size s"
        using px_malloc_ok [OF p] px_malloc_ok [OF q] by simp_all
      then have ok: "prefix_ok u" "prefix_ok v"
        using assms(2) by (simp_all add: prefix_ok_def prefix_chars_def all_entries_def)
      let ?e = "\<lparr>px_prefix = pre, px_prefix_len = length pre, px_gets = 0, px_sets = 0,
                  px_deletes = 0, px_hits = 0\<rparr>"
      let ?w = "v\<lparr>prefix_stats := (prefix_stats v)(?b := ?e # prefix_stats v ?b),
        num_prefixes := num_prefixes v + 1, total_prefix_size := total_prefix_size v + of_nat (length pre)\<rparr>"
      have "prefix_ok ?w"
        using all_entries_upd [OF prefix_bucket_less [of pre], of v "?e # prefix_stats v ?b"] ok(2)
        by (auto simp: prefix_ok_def prefix_chars_def all_entries_def)
      then show ?thesis
        using assms(1) \<open>prefix_scan delim key = Some pre\<close> None p q ok prefix_bucket_less
        by (auto simp: stats_prefix_find_def Let_def split: if_splits)
    qed
  qed
  then show "prefix_ok t" "r = Some (b, i) \<Longrightarrow> b < PREFIX_HASH_SIZE \<and> i < length (prefix_stats t b)"
    by blast+
qed

lemma upd_prefix_ok:
  assumes "prefix_ok s" "b < PREFIX_HASH_SIZE" "i < length (prefix_stats s b)" "\<And>e. px_prefix (f e) = px_prefix e"
  shows "prefix_ok (upd_prefix (b, i) f s)"
proof -
  let ?xs = "(prefix_stats s b)[i := f (prefix_stats s b ! i)]"
  have "map (\<lambda>e. length (px_prefix e)) ?xs = map (\<lambda>e. length (px_prefix e)) (prefix_stats s b)"
    by (rule nth_equalityI) (simp_all add: nth_list_update assms(3,4))
  then have "sum_list (map (\<lambda>e. length (px_prefix e)) ?xs)
      = sum_list (map (\<lambda>e. length (px_prefix e)) (prefix_stats s b))" by (rule arg_cong)
  with all_entries_upd [OF assms(2), of s ?xs] assms(1) show ?thesis
    by (auto simp: prefix_ok_def prefix_chars_def upd_prefix_def)
qed

lemma record_prefix_ok:
  assumes "prefix_ok s" "\<And>e. px_prefix (f e) = px_prefix e"
  shows "prefix_ok (record_prefix delim key f s)"
proof -
  obtain r t where r: "stats_prefix_find delim key s = (r, t)" by fastforce
  note ok = stats_prefix_find_ok [OF r assms(1)]
  show ?thesis
    using ok assms(2) r by (cases r) (auto simp: record_prefix_def intro!: upd_prefix_ok)
qed

text \<open>Calls of the module, in any order.\<close>

datatype prefix_op = PGet string bool | PDelete string | PSet string | PClear | PDump

fun prefix_step :: "char \<Rightarrow> prefix_op \<Rightarrow> prefix_state \<Rightarrow> prefix_state option" where
  "prefix_step d (PGet k hit) s = Some (stats_prefix_record_get d k hit s)"
| "prefix_step d (PDelete k) s = Some (stats_prefix_record_delete d k s)"
| "prefix_step d (PSet k) s = Some (stats_prefix_record_set d k s)"
| "prefix_step d PClear s = Some (stats_prefix_clear s)"
| "prefix_step d PDump s = map_option snd (stats_prefix_dump s)"

fun prefix_run :: "char \<Rightarrow> prefix_op list \<Rightarrow> prefix_state \<Rightarrow> prefix_state option" where
  "prefix_run d [] s = Some s"
| "prefix_run d (x # xs) s = Option.bind (prefix_step d x s) (prefix_run d xs)"

lemma prefix_step_ok:
  assumes "prefix_step d x s = Some t" "prefix_ok s"
  shows "prefix_ok t"
proof (cases x)
  case PClear
  have "all_entries (stats_prefix_clear s) = []"
    by (auto simp: all_entries_def stats_prefix_clear_def)
  moreover have "t = stats_prefix_clear s" using assms(1) PClear by simp
  ultimately show ?thesis
    by (simp add: prefix_ok_def prefix_chars_def) (simp add: stats_prefix_clear_def)
next
  case PDump
  obtain buf u where "px_malloc s = (buf, u)" by fastforce
  with assms(1) PDump have "t = u" "px_malloc s = (buf, u)"
    by (auto simp: stats_prefix_dump_def Let_def split: if_splits option.splits prod.splits)
  with assms(2) px_malloc_ok [of s buf u] show ?thesis
    by (simp add: prefix_ok_def prefix_chars_def all_entries_def)
qed (use assms in \<open>auto simp: stats_prefix_record_get_def stats_prefix_record_delete_def
      stats_prefix_record_set_def Let_def intro!: record_prefix_ok\<close>)

lemma prefix_run_ok: "prefix_run d ops s = Some t \<Longrightarrow> prefix_ok s \<Longrightarrow> prefix_ok t"
  by (induction ops arbitrary: s) (auto simp: bind_eq_Some_conv dest: prefix_step_ok)

lemma prefix_static_ok: "prefix_ok (stats_prefix_init (prefix_static ms))"
proof -
  have "all_entries (stats_prefix_init (prefix_static ms)) = []" by (auto simp: all_entries_def stats_prefix_init_def)
  then show ?thesis by (simp add: prefix_ok_def prefix_chars_def) (simp add: prefix_static_def stats_prefix_init_def)
qed

lemma dump_size_exact:
  assumes "prefix_ok s" "prefix_chars s < 2 ^ 31" "length (all_entries s) < 2 ^ 31"
  shows "unat (dump_size s) = 53 + prefix_chars s + length (all_entries s) * 109"
    "sint (num_prefixes s) = int (length (all_entries s))" "sint (total_prefix_size s) = int (prefix_chars s)"
proof -
  have "dump_size s = of_nat (53 + prefix_chars s + length (all_entries s) * 109)"
    using assms by (simp add: dump_size_def prefix_ok_def int_of_nat_word(3) algebra_simps)
  moreover have "53 + prefix_chars s + length (all_entries s) * 109 < 2 ^ 64" using assms(2,3) by simp
  ultimately show "unat (dump_size s) = 53 + prefix_chars s + length (all_entries s) * 109"
    by (simp only: size_of_nat_word)
qed (use assms in \<open>simp_all add: prefix_ok_def int_of_nat_word(2)\<close>)

text \<open>
  Property C32.
  Whatever \<open>malloc\<close> answers, after any sequence of recorded commands, resets and dumps from the start of the
  program the two totals are those of the table: the number of prefixes stored and the sum of their lengths. As long
  as the text of the dump has a length that is an \<open>int\<close>, it fits the buffer whose size was computed from them, so that
  the assertion in \<open>stats_prefix_dump\<close> does not fail and nothing is stored outside the buffer: when \<open>malloc\<close>
  succeeds the result is one complete line for each prefix, and the terminator.
\<close>

theorem prefix_dump_fits:
  assumes "prefix_run d ops (stats_prefix_init (prefix_static ms)) = Some t"
    and "length (concat (map prefix_line (all_entries t))) < 2 ^ 31"
    and "px_malloc t = (buf, u)" "buf \<noteq> NULL"
  shows "sint (num_prefixes t) = int (length (all_entries t))
    \<and> sint (total_prefix_size t) = (\<Sum>e\<leftarrow>all_entries t. int (length (px_prefix e)))
    \<and> stats_prefix_dump t
      = Some (Some (concat (map prefix_line (all_entries t)) @ ''END'' @ [CHR 0x0D, CHR 0x0A]), u)"
proof -
  let ?out = "concat (map prefix_line (all_entries t))"
  have t: "prefix_ok t" by (rule prefix_run_ok [OF assms(1) prefix_static_ok])
  have b: "prefix_chars t + length (all_entries t) \<le> length ?out"
    "length ?out \<le> prefix_chars t + length (all_entries t) * 109"
    using lines_bounds [where es = "all_entries t"] by (simp_all add: prefix_chars_def)
  note size = dump_size_exact [OF t]
  have "all_entries u = all_entries t" using px_malloc_ok [OF assms(3)] by (simp add: all_entries_def)
  moreover have "dump_entries (all_entries t) (dump_size t) 0 0 [] = Some (of_nat (length ?out), ?out)"
    using dump_entries_fit [of "[]" "all_entries t" "dump_size t"] assms(2) b size(1) by simp
  moreover have "unat (of_nat (length ?out) :: u32) = length ?out" "\<not> sint (of_nat (length ?out) :: u32) < 0"
    using int_of_nat_word(1,2) [OF assms(2)] by simp_all
  ultimately have "stats_prefix_dump t = Some (Some (?out @ ''END'' @ [CHR 0x0D, CHR 0x0A]), u)"
    using assms(2-4) b size(1) by (simp add: stats_prefix_dump_def Let_def)
  moreover have "int (prefix_chars t) = (\<Sum>e\<leftarrow>all_entries t. int (length (px_prefix e)))"
    by (simp add: prefix_chars_def int_sum_lengths)
  ultimately show ?thesis using size(2,3) b assms(2) by simp
qed

text \<open>A state with five blocks of memory to give out.\<close>

definition prefix_boot :: prefix_state where
  "prefix_boot = prefix_static [100, 200, 300, 400, 500]"

section \<open>Two prefixes taken for one\<close>

text \<open>
  The comparison of a lookup stops after the length of the key's prefix, so a stored prefix that
  continues it is taken for it when both hash to the same bucket: after a get of a key with
  prefix \<open>p @ ext\<close>, a get of a key with prefix \<open>p\<close> creates no entry and is counted under the
  longer one.
\<close>

theorem prefix_taken_for_longer:
  assumes "prefix_bucket p = prefix_bucket (p @ ext)" "prefix_scan d k1 = Some (p @ ext)"
    "prefix_scan d k2 = Some p" "px_mallocs s = a # b # ms" "a \<noteq> NULL" "b \<noteq> NULL"
    "prefix_stats s (prefix_bucket p) = []"
  shows "map (\<lambda>e. (px_prefix e, px_gets e))
    (prefix_stats (stats_prefix_record_get d k2 h2 (stats_prefix_record_get d k1 h1 s)) (prefix_bucket p))
    = [(p @ ext, 2)]"
proof -
  have "prefix_matches (p @ ext) p" by (simp add: prefix_matches_def)
  with assms show ?thesis
    by (simp add: stats_prefix_record_get_def record_prefix_def stats_prefix_find_def px_malloc_def
        upd_prefix_def Let_def flip: assms(1))
qed

lemmas hash_stages = hash_key_def hash_eq_by_bytes hash_by_bytes_def hash_start_def hash_loop.simps hash_finish_def

lemma bucket_collision: "prefix_bucket ''p'' = 91" "prefix_bucket ''pc'' = 91"
  by (simp add: prefix_bucket_def PREFIX_HASH_SIZE_def hash_stages, simp add: tail8_def k8_def mem_of_def,
      simp add: final_def, simp add: rot_def)+

theorem prefix_taken_for_longer_witness:
  "map (\<lambda>e. (px_prefix e, px_gets e)) (prefix_stats
     (stats_prefix_record_get CHR '':'' ''p:x'' True (stats_prefix_record_get CHR '':'' ''pc:x'' True prefix_boot)) 91)
   = [(''pc'', 2)]"
  using prefix_taken_for_longer [of "''p''" "''c''" "CHR '':''" "''pc:x''" "''p:x''" prefix_boot 100 200
      "[300, 400, 500]" True True]
  by (simp add: bucket_collision) (simp add: prefix_boot_def prefix_static_def)

text \<open>Two prefixes of one bucket, the second the first with one more character.\<close>

definition prefix_two :: prefix_state where
  "prefix_two = \<lparr>prefix_stats = (\<lambda>_. [])(91 :=
       [\<lparr>px_prefix = ''pc'', px_prefix_len = 2, px_gets = 0, px_sets = 1, px_deletes = 0, px_hits = 0\<rparr>,
        \<lparr>px_prefix = ''p'', px_prefix_len = 1, px_gets = 1, px_sets = 0, px_deletes = 0, px_hits = 1\<rparr>]),
     num_prefixes = 2, total_prefix_size = 3, px_mallocs = [500]\<rparr>"

lemma prefix_two_run:
  "prefix_run CHR '':'' [PGet ''p:x'' True, PSet ''pc:y''] (stats_prefix_init (prefix_static [100, 200, 300, 400, 500]))
     = Some prefix_two"
  by (simp add: stats_prefix_record_get_def stats_prefix_record_set_def record_prefix_def stats_prefix_find_def
      px_malloc_def upd_prefix_def Let_def stats_prefix_init_def prefix_static_def bucket_collision
      prefix_matches_def prefix_two_def fun_eq_iff)

lemma prefix_two_entries: "all_entries prefix_two = prefix_stats prefix_two 91"
proof -
  let ?s = "prefix_two\<lparr>prefix_stats := (\<lambda>_. [])\<rparr>"
  have "prefix_two = ?s\<lparr>prefix_stats := (prefix_stats ?s)(91 := prefix_stats prefix_two 91)\<rparr>"
    by (simp add: prefix_two_def)
  moreover have "all_entries ?s = []" by (auto simp: all_entries_def)
  ultimately show ?thesis
    using all_entries_upd [of 91 ?s "prefix_stats prefix_two 91"] by (auto simp: PREFIX_HASH_SIZE_def)
qed

theorem prefix_dump_fits_witness:
  "prefix_run CHR '':'' [PGet ''p:x'' True, PSet ''pc:y''] (stats_prefix_init (prefix_static [100, 200, 300, 400, 500]))
     = Some prefix_two
   \<and> sint (num_prefixes prefix_two) = 2 \<and> sint (total_prefix_size prefix_two) = 3
   \<and> stats_prefix_dump prefix_two = Some (Some (''PREFIX pc get 0 hit 0 set 1 del 0'' @ [CHR 0x0D, CHR 0x0A]
        @ ''PREFIX p get 1 hit 1 set 0 del 0'' @ [CHR 0x0D, CHR 0x0A] @ ''END'' @ [CHR 0x0D, CHR 0x0A]),
      prefix_two\<lparr>px_mallocs := []\<rparr>)"
proof -
  have l: "concat (map prefix_line (all_entries prefix_two)) = ''PREFIX pc get 0 hit 0 set 1 del 0'' @ [CHR 0x0D, CHR 0x0A]
      @ ''PREFIX p get 1 hit 1 set 0 del 0'' @ [CHR 0x0D, CHR 0x0A]"
    unfolding prefix_two_entries by (simp add: prefix_two_def prefix_line_def dec.simps digit_def char_of_def bit_Suc_0_iff)
  have m: "px_malloc prefix_two = (500, prefix_two\<lparr>px_mallocs := []\<rparr>)"
    by (simp add: prefix_two_def px_malloc_def)
  have e: "length (all_entries prefix_two) = 2" "(\<Sum>e\<leftarrow>all_entries prefix_two. int (length (px_prefix e))) = 3"
    unfolding prefix_two_entries by (simp_all add: prefix_two_def)
  have "length (concat (map prefix_line (all_entries prefix_two))) < 2 ^ 31" unfolding l by simp
  from prefix_dump_fits [OF prefix_two_run this m] show ?thesis
    unfolding e l by (simp add: prefix_two_run del: prefix_run.simps)
qed

end
