(* ===== verification/Item_Access.thy ===== *)
theory Item_Access
  imports Slab_Move Conn_Queue
begin

text \<open>
  \<open>thread.c\<close>: the item locks and the wrappers through which the command handlers reach items. The
  lock of a key is picked by its hash; while the table is being expanded the threads use one
  global lock instead. A call that would wait for a lock its own thread holds never returns, a
  \<open>None\<close>; a lock that another thread holds is waited for, so it is free when the call returns.
\<close>

section \<open>Item locks\<close>

text \<open>\<open>lock_type\<close> is the calling thread's \<open>item_lock_type\<close>; \<open>global_held\<close> says that it holds \<open>item_global_lock\<close>.\<close>

record access = mover +
  lock_type :: item_lock_types
  global_held :: bool

definition item_lock_global :: "'a access_scheme \<Rightarrow> 'a access_scheme option" where
  "item_lock_global s = (if global_held s then None else Some (s\<lparr>global_held := True\<rparr>))"

definition item_unlock_global :: "'a access_scheme \<Rightarrow> 'a access_scheme option" where
  "item_unlock_global s = (if global_held s then Some (s\<lparr>global_held := False\<rparr>) else None)"

definition item_lock :: "u32 \<Rightarrow> 'a access_scheme \<Rightarrow> 'a access_scheme option" where
  "item_lock hv s = (if lock_type s = ITEM_LOCK_GRANULAR
     then (let l = item_lock_index hv s in
       if l \<in> held_locks s then None
       else Some (s\<lparr>held_locks := insert l (held_locks s), busy_locks := busy_locks s - {l}\<rparr>))
     else item_lock_global s)"

definition item_unlock :: "u32 \<Rightarrow> 'a access_scheme \<Rightarrow> 'a access_scheme option" where
  "item_unlock hv s = (if lock_type s = ITEM_LOCK_GRANULAR
     then item_trylock_unlock (item_lock_index hv s) s else item_unlock_global s)"

section \<open>Wrappers\<close>

definition item_alloc :: "string \<Rightarrow> u32 \<Rightarrow> u32 \<Rightarrow> u32 \<Rightarrow> 'a access_scheme \<Rightarrow> (addr \<times> 'a access_scheme) option" where
  "item_alloc key flags exptime nbytes s = do_item_alloc key flags exptime nbytes 0 s"

definition item_get :: "string \<Rightarrow> 'a access_scheme \<Rightarrow> (addr \<times> 'a access_scheme) option" where
  "item_get key s = (let hv = hash_key key in do {
     s \<leftarrow> item_lock hv s;
     (it, s) \<leftarrow> do_item_get key hv s;
     s \<leftarrow> item_unlock hv s;
     Some (it, s) })"

definition item_touch :: "string \<Rightarrow> u32 \<Rightarrow> 'a access_scheme \<Rightarrow> (addr \<times> 'a access_scheme) option" where
  "item_touch key exptime s = (let hv = hash_key key in do {
     s \<leftarrow> item_lock hv s;
     (it, s) \<leftarrow> do_item_touch key exptime hv s;
     s \<leftarrow> item_unlock hv s;
     Some (it, s) })"

text \<open>The wrappers that lock the item they are given by its own key.\<close>

definition locked_item :: "addr \<Rightarrow> (u32 \<Rightarrow> 'a access_scheme \<Rightarrow> 'a access_scheme option)
    \<Rightarrow> 'a access_scheme \<Rightarrow> 'a access_scheme option" where
  "locked_item it f s = (let hv = hash_key (ITEM_key (mem s it)) in do {
     s \<leftarrow> item_lock hv s;
     s \<leftarrow> f hv s;
     item_unlock hv s })"

definition item_link :: "addr \<Rightarrow> 'a access_scheme \<Rightarrow> 'a access_scheme option" where
  "item_link it s = locked_item it (\<lambda>hv. do_item_link it hv) s"

definition item_remove :: "addr \<Rightarrow> 'a access_scheme \<Rightarrow> 'a access_scheme option" where
  "item_remove it s = locked_item it (\<lambda>hv. do_item_remove it) s"

definition item_replace :: "addr \<Rightarrow> addr \<Rightarrow> u32 \<Rightarrow> 'a access_scheme \<Rightarrow> 'a access_scheme option" where
  "item_replace old_it new_it hv s = do_item_replace old_it new_it hv s"

definition item_unlink :: "addr \<Rightarrow> 'a access_scheme \<Rightarrow> 'a access_scheme option" where
  "item_unlink it s = locked_item it (\<lambda>hv. do_item_unlink it hv) s"

definition item_update :: "addr \<Rightarrow> 'a access_scheme \<Rightarrow> 'a access_scheme option" where
  "item_update it s = locked_item it (\<lambda>hv. do_item_update it) s"

definition item_flush_expired :: "'a access_scheme \<Rightarrow> 'a access_scheme option" where
  "item_flush_expired s = do_item_flush_expired s"

section \<open>The size of the lock table\<close>

text \<open>\<open>thread_init\<close> sizes the lock table by the number of threads.\<close>

definition lock_power :: "int \<Rightarrow> nat" where
  "lock_power nthreads = (if nthreads < 3 then 10 else if nthreads < 4 then 11
     else if nthreads < 5 then 12 else 13)"

definition init_item_locks :: "int \<Rightarrow> 'a items_scheme \<Rightarrow> 'a items_scheme" where
  "init_item_locks nthreads s = s\<lparr>item_lock_count := push_bit (lock_power nthreads) 1,
     held_locks := {}, busy_locks := {}\<rparr>"

section \<open>Locks and the cache invariant\<close>

text \<open>The lock that the operation needs is not held by its own thread.\<close>

definition can_lock :: "u32 \<Rightarrow> 'a access_scheme \<Rightarrow> bool" where
  "can_lock hv s \<longleftrightarrow> (if lock_type s = ITEM_LOCK_GRANULAR then item_lock_index hv s \<notin> held_locks s
     else \<not> global_held s)"

text \<open>Which locks the thread holds.\<close>

definition same_locks :: "'a access_scheme \<Rightarrow> 'a access_scheme \<Rightarrow> bool" where
  "same_locks s t \<longleftrightarrow> held_locks t = held_locks s \<and> global_held t = global_held s \<and> lock_type t = lock_type s
     \<and> busy_locks t \<subseteq> busy_locks s"

definition locked :: "u32 \<Rightarrow> 'a access_scheme \<Rightarrow> 'a access_scheme" where
  "locked hv s = (if lock_type s = ITEM_LOCK_GRANULAR
     then s\<lparr>held_locks := insert (item_lock_index hv s) (held_locks s),
            busy_locks := busy_locks s - {item_lock_index hv s}\<rparr>
     else s\<lparr>global_held := True\<rparr>)"

definition unlocked :: "u32 \<Rightarrow> 'a access_scheme \<Rightarrow> 'a access_scheme" where
  "unlocked hv s = (if lock_type s = ITEM_LOCK_GRANULAR
     then s\<lparr>held_locks := held_locks s - {item_lock_index hv s}\<rparr> else s\<lparr>global_held := False\<rparr>)"

lemma item_lock_can: "can_lock hv s \<Longrightarrow> item_lock hv s = Some (locked hv s)"
  by (simp add: item_lock_def can_lock_def locked_def item_lock_global_def Let_def split: if_splits)

lemma access_frame:
  fixes s t :: "'a access_scheme"
  assumes "items_frame s t"
  shows "lock_type t = lock_type s" "global_held t = global_held s"
  using assms by (cases s; cases t; simp add: items_frame_def)+

lemma lock_index_frame: "items_frame s t \<Longrightarrow> item_lock_index hv t = item_lock_index hv s"
  by (simp add: item_lock_index_def items_frameD)

lemma item_unlock_after:
  assumes "can_lock hv s" "items_frame (locked hv s) t"
  shows "item_unlock hv t = Some (unlocked hv t)" "same_locks s (unlocked hv t)"
proof -
  note fr = access_frame [OF assms(2)] items_frameD(6,7) [OF assms(2)] lock_index_frame [OF assms(2), of hv]
  have i: "item_lock_index hv (locked hv s) = item_lock_index hv s"
    by (simp add: locked_def item_lock_index_def)
  show "item_unlock hv t = Some (unlocked hv t)"
    using fr i by (auto simp: item_unlock_def unlocked_def item_unlock_global_def item_trylock_unlock_def locked_def)
  show "same_locks s (unlocked hv t)"
    using fr i assms(1)
    by (auto simp: same_locks_def unlocked_def locked_def can_lock_def split: if_splits)
qed

lemma locks_same_tables: "same_tables s (locked hv s)" "same_tables s (unlocked hv s)"
  by (simp_all add: same_tables_def locked_def unlocked_def)

lemma locks_mem [simp]: "mem (locked hv s) = mem s" "mem (unlocked hv s) = mem s"
  by (simp_all add: locked_def unlocked_def)

lemma locks_fields:
  "settings (locked hv s) = settings s" "current_time (locked hv s) = current_time s"
  "power_largest (locked hv s) = power_largest s" "slabclass (locked hv s) = slabclass s"
  "slab_rebalance_signal (locked hv s) = slab_rebalance_signal s" "slab_rebal (locked hv s) = slab_rebal s"
  "settings (unlocked hv s) = settings s" "current_time (unlocked hv s) = current_time s"
  "power_largest (unlocked hv s) = power_largest s" "slabclass (unlocked hv s) = slabclass s"
  "slab_rebalance_signal (unlocked hv s) = slab_rebalance_signal s" "slab_rebal (unlocked hv s) = slab_rebal s"
  by (simp_all add: locked_def unlocked_def)

lemma locks_live: "live (locked hv s) p l r = live s p l r" "live (unlocked hv s) p l r = live s p l r"
  by (simp_all add: live_def valid_class_def locks_fields)

lemma locks_slabs: "slabs_rel (locked hv s) fl = slabs_rel s fl" "slabs_rel (unlocked hv s) fl = slabs_rel s fl"
  by (simp_all add: slabs_rel_def freelist_def locks_fields)

lemma cache_rel_locked: "cache_rel s m lru fl refs \<Longrightarrow> cache_rel (locked hv s) m lru fl refs"
  by (rule cache_rel_cong [OF _ locks_same_tables(1)])
    (simp_all add: locks_live locks_slabs cache_relD(2,5))

lemma cache_rel_unlocked: "cache_rel s m lru fl refs \<Longrightarrow> cache_rel (unlocked hv s) m lru fl refs"
  by (rule cache_rel_cong [OF _ locks_same_tables(2)])
    (simp_all add: locks_live locks_slabs cache_relD(2,5))

lemma item_dead_locked: "item_dead p (locked hv s) = item_dead p s"
  by (simp add: item_dead_def in_moving_page_def locks_fields)

section \<open>Operations under the lock\<close>

text \<open>The common frame: lock, run, unlock.\<close>

lemma locked_item_step:
  assumes "can_lock (hash_key (key_at s p)) s"
    and "f (hash_key (key_at s p)) (locked (hash_key (key_at s p)) s) = Some t"
    and "items_frame (locked (hash_key (key_at s p)) s) t"
  shows "locked_item p f s = Some (unlocked (hash_key (key_at s p)) t)
    \<and> same_locks s (unlocked (hash_key (key_at s p)) t)"
  using item_unlock_after [OF assms(1,3)] assms(2) by (simp add: locked_item_def item_lock_can [OF assms(1)])

lemma item_get_step:
  assumes "can_lock (hash_key k) s" "do_item_get k (hash_key k) (locked (hash_key k) s) = Some (p, t)"
    and "items_frame (locked (hash_key k) s) t"
  shows "item_get k s = Some (p, unlocked (hash_key k) t) \<and> same_locks s (unlocked (hash_key k) t)"
  using item_unlock_after [OF assms(1,3)] assms(2) by (simp add: item_get_def item_lock_can [OF assms(1)])

lemma flagged_value: "it_value ((set_flag f i)\<lparr>it_refcount := r\<rparr>) = it_value i"
  by (simp add: set_flag_def)

text \<open>
  Property C5.
  A lookup is exact and lazy about expiry: \<open>item_get\<close> returns the item stored under the key, with
  its value and one more reference, unless it is flushed, expired or in a page being moved; then it
  reports a miss and removes the key. Every case keeps the cache consistent and leaves the
  thread's locks as they were.
\<close>

theorem item_get_correct:
  assumes R: "cache_rel s m lru fl refs" and L: "can_lock (hash_key k) s"
    and b: "\<And>p. m k = Some p \<Longrightarrow> refs p + 2 < 65536"
  shows "case m k of
      None \<Rightarrow> \<exists>t. item_get k s = Some (NULL, t) \<and> cache_rel t m lru fl refs \<and> same_locks s t
    | Some p \<Rightarrow> if item_dead p s
        then \<exists>t lru' fl'. item_get k s = Some (NULL, t) \<and> cache_rel t (m(k := None)) lru' fl' refs \<and> same_locks s t
        else \<exists>t. item_get k s = Some (p, t) \<and> cache_rel t m lru fl (refs(p := refs p + 1))
          \<and> it_value (mem t p) = it_value (mem s p) \<and> same_locks s t"
proof -
  let ?s = "locked (hash_key k) s"
  have R': "cache_rel ?s m lru fl refs" by (rule cache_rel_locked [OF R])
  show ?thesis
  proof (cases "m k")
    case None
    with do_item_get_rel [OF R', of k] b have "do_item_get k (hash_key k) ?s = Some (NULL, ?s)" by simp
    from item_get_step [OF L this] show ?thesis using None cache_rel_unlocked [OF R'] by auto
  next
    case (Some p)
    note G = do_item_get_rel [OF R', of k, unfolded Some option.case item_dead_locked]
    show ?thesis
    proof (cases "item_dead p s")
      case True
      with G b Some obtain t lru' fl' where t: "do_item_get k (hash_key k) ?s = Some (NULL, t)" "items_frame ?s t"
        "cache_rel t (m(k := None)) lru' fl' refs" by auto
      from item_get_step [OF L t(1,2)] cache_rel_unlocked [OF t(3)] Some True show ?thesis by auto
    next
      case False
      with G b Some obtain t where t: "do_item_get k (hash_key k) ?s = Some (p, t)" "items_frame ?s t"
        "cache_rel t m lru fl (refs(p := refs p + 1))"
        "mem t = (mem ?s)(p := (set_flag ITEM_FETCHED (mem ?s p))\<lparr>it_refcount := it_refcount (mem ?s p) + 1\<rparr>)"
        by auto
      have "it_value (mem t p) = it_value (mem s p)" by (simp add: t(4) flagged_value)
      with item_get_step [OF L t(1,2)] cache_rel_unlocked [OF t(3)] Some False show ?thesis by auto
    qed
  qed
qed

text \<open>
  Property C3.
  No use after free and no leak: releasing a reference frees the chunk exactly when it was the
  last reference to an item that is no longer linked; in every other case the item stays allocated
  and its counter drops by one.
\<close>

theorem item_remove_frees_last:
  assumes R: "cache_rel s m lru fl refs" and p: "0 < refs p" and L: "can_lock (hash_key (key_at s p)) s"
  shows "\<exists>t fl'. item_remove p s = Some t \<and> cache_rel t m lru fl' (refs(p := refs p - 1)) \<and> same_locks s t
    \<and> ((\<exists>c. p \<in> set (fl' c)) \<longleftrightarrow> p \<notin> ran m \<and> refs p = 1)"
proof -
  let ?hv = "hash_key (key_at s p)"
  let ?s = "locked ?hv s"
  let ?c = "unat (it_slabs_clsid (mem s p))"
  let ?fl = "if p \<notin> ran m \<and> refs p = 1 then fl(?c := p # fl ?c) else fl"
  have R': "cache_rel ?s m lru fl refs" by (rule cache_rel_locked [OF R])
  from do_item_remove_rel [OF R' p, unfolded locks_mem] obtain t where t: "do_item_remove p ?s = Some t"
    "items_frame ?s t" "cache_rel t m lru ?fl (refs(p := refs p - 1))" by blast
  have "p \<notin> set (fl c)" for c using cache_rel_not_free [OF R] p by blast
  then have "(\<exists>c. p \<in> set (?fl c)) \<longleftrightarrow> p \<notin> ran m \<and> refs p = 1" by auto
  moreover from locked_item_step [of s p "\<lambda>hv. do_item_remove p" t] L t(1,2) cache_rel_unlocked [OF t(3)]
  have "item_remove p s = Some (unlocked ?hv t)" "same_locks s (unlocked ?hv t)"
    "cache_rel (unlocked ?hv t) m lru ?fl (refs(p := refs p - 1))"
    by (simp_all add: item_remove_def)
  ultimately show ?thesis by blast
qed

text \<open>What linking an item under a new key gives.\<close>

lemma item_link_rel:
  assumes R: "cache_rel s m lru fl refs" and new: "m (key_at s p) = None" "p \<notin> ran m"
    and p: "0 < refs p" "refs p + 1 < 65536" "key_ok (mem s p)" and L: "can_lock (hash_key (key_at s p)) s"
  shows "\<exists>t lru'. item_link p s = Some t \<and> cache_rel t (m(key_at s p \<mapsto> p)) lru' fl refs \<and> same_locks s t
    \<and> items_frame s (t\<lparr>held_locks := held_locks s, busy_locks := busy_locks s\<rparr>)
    \<and> it_time (mem t p) = current_time s \<and> it_exptime (mem t p) = it_exptime (mem s p)
    \<and> it_value (mem t p) = it_value (mem s p)"
proof -
  let ?hv = "hash_key (key_at s p)"
  let ?s = "locked ?hv s"
  have R': "cache_rel ?s m lru fl refs" by (rule cache_rel_locked [OF R])
  from do_item_link_rel [OF R', of p] new p obtain t lru' where t: "do_item_link p ?hv ?s = Some t"
    "items_frame ?s t" "cache_rel t (m(key_at s p \<mapsto> p)) lru' fl refs" "it_time (mem t p) = current_time s"
    "it_exptime (mem t p) = it_exptime (mem s p)" "it_value (mem t p) = it_value (mem s p)"
    by (auto simp: locks_fields)
  have fr: "items_frame s ((unlocked ?hv t)\<lparr>held_locks := held_locks s, busy_locks := busy_locks s\<rparr>)"
    using t(2) item_unlock_after [OF L t(2)] access_frame [OF t(2)]
    by (cases s; cases t) (auto simp: items_frame_def locked_def unlocked_def same_locks_def split: if_splits)
  from locked_item_step [of s p "do_item_link p" t] L t(1,2) cache_rel_unlocked [OF t(3)] t(4-6) fr show ?thesis
    by (intro exI [of _ "unlocked ?hv t"] exI [of _ lru']) (simp add: item_link_def)
qed

lemma same_locks_can_lock:
  "same_locks s t \<Longrightarrow> hashpower t = hashpower s \<Longrightarrow> item_lock_count t = item_lock_count s
    \<Longrightarrow> can_lock hv t = can_lock hv s"
  by (simp add: same_locks_def can_lock_def item_lock_index_def)

lemma same_locks_trans: "same_locks s t \<Longrightarrow> same_locks t u \<Longrightarrow> same_locks s u"
  by (auto simp: same_locks_def)

text \<open>
  Property C4.
  What was stored is found: after a new item has been linked, a lookup of its key returns that
  item with the value that was stored, unless a flush takes effect in the same second, the item
  has already expired, or its page is being moved; the keys stored before are all kept.
\<close>

theorem store_then_get:
  assumes R: "cache_rel s m lru fl refs" and new: "m (key_at s p) = None" "p \<notin> ran m"
    and p: "0 < refs p" "refs p + 2 < 65536" "key_ok (mem s p)" and L: "can_lock (hash_key (key_at s p)) s"
    and fresh: "it_exptime (mem s p) = 0 \<or> current_time s < it_exptime (mem s p)"
      "oldest_live (settings s) = 0 \<or> oldest_live (settings s) \<noteq> current_time s" "\<not> in_moving_page p s"
  shows "\<exists>t u lru'. item_link p s = Some t \<and> item_get (key_at s p) t = Some (p, u)
    \<and> it_value (mem u p) = it_value (mem s p)
    \<and> cache_rel u (m(key_at s p \<mapsto> p)) lru' fl (refs(p := refs p + 1)) \<and> same_locks s u"
proof -
  let ?k = "key_at s p"
  from item_link_rel [OF R new p(1) _ p(3) L] p(2) obtain t lru' where t: "item_link p s = Some t"
    "cache_rel t (m(?k \<mapsto> p)) lru' fl refs" "same_locks s t"
    "items_frame s (t\<lparr>held_locks := held_locks s, busy_locks := busy_locks s\<rparr>)"
    "it_time (mem t p) = current_time s" "it_exptime (mem t p) = it_exptime (mem s p)"
    "it_value (mem t p) = it_value (mem s p)" by auto
  have fr: "settings t = settings s" "current_time t = current_time s" "slab_rebal t = slab_rebal s"
    "slab_rebalance_signal t = slab_rebalance_signal s" "hashpower t = hashpower s"
    "item_lock_count t = item_lock_count s"
    using items_frameD [OF t(4)] by simp_all
  have alive: "\<not> item_dead p t"
    using fresh by (auto simp: item_dead_def in_moving_page_def fr t(5,6))
  have "can_lock (hash_key ?k) t" using L same_locks_can_lock [OF t(3) fr(5,6)] by simp
  from item_get_correct [OF t(2) this, unfolded fun_upd_same option.case] alive p(2)
  obtain u where u: "item_get ?k t = Some (p, u)" "cache_rel u (m(?k \<mapsto> p)) lru' fl (refs(p := refs p + 1))"
    "it_value (mem u p) = it_value (mem t p)" "same_locks t u" by auto
  have "same_locks s u" by (rule same_locks_trans [OF t(3) u(4)])
  then show ?thesis using t(1,7) u(1-3) by (intro exI [of _ t] exI [of _ u] exI [of _ lru']) simp
qed

text \<open>
  Property C6.
  A deleted key is gone, but an item that a user still holds is not freed under him: after
  \<open>item_unlink\<close> the key maps to nothing, a lookup misses, all other keys are kept, and the item's
  chunk is on no free list while references to it remain.
\<close>

theorem delete_then_get:
  assumes R: "cache_rel s m lru fl refs" and k: "m (key_at s p) = Some p" and r: "0 < refs p" "refs p + 1 < 65536"
    and L: "can_lock (hash_key (key_at s p)) s"
  shows "\<exists>t u lru' fl'. item_unlink p s = Some t \<and> cache_rel t (m(key_at s p := None)) lru' fl' refs
    \<and> (\<forall>c. p \<notin> set (fl' c)) \<and> item_get (key_at s p) t = Some (NULL, u) \<and> same_locks s u"
proof -
  let ?k = "key_at s p" and ?s = "locked (hash_key (key_at s p)) s"
  have R': "cache_rel ?s m lru fl refs" by (rule cache_rel_locked [OF R])
  from do_item_unlink_rel [OF R' k r(2)] r(1) obtain t lru' where
    t: "do_item_unlink_nolock p (hash_key ?k) ?s = Some t" "items_frame ?s t"
    "cache_rel t (m(?k := None)) lru' fl refs" by auto
  let ?t = "unlocked (hash_key ?k) t"
  have step: "item_unlink p s = Some ?t" "same_locks s ?t"
    using locked_item_step [of s p "do_item_unlink p" t] L t(1,2)
    by (simp_all add: item_unlink_def do_item_unlink_def)
  note Rt = cache_rel_unlocked [OF t(3), of "hash_key ?k"]
  have "hashpower ?t = hashpower s" "item_lock_count ?t = item_lock_count s"
    using items_frameD(4,5) [OF t(2)] by (simp_all add: unlocked_def locked_def)
  then have "can_lock (hash_key ?k) ?t" using L same_locks_can_lock [OF step(2)] by simp
  from item_get_correct [OF Rt this] obtain u where u: "item_get ?k ?t = Some (NULL, u)" "same_locks ?t u" by auto
  have "p \<notin> set (fl c)" for c using cache_rel_not_free [OF Rt, of p c] r(1) by simp
  with step u Rt same_locks_trans [OF step(2) u(2)] show ?thesis by blast
qed

text \<open>
  Recency: \<open>item_update\<close> moves a linked item that was last touched more than a minute ago to the
  head of the queue of its class, leaving the order of all other items and all other queues alone,
  and stamps it with the current time; otherwise it changes no queue.
\<close>

theorem item_update_recency:
  assumes R: "cache_rel s m lru fl refs" and p: "p \<in> ran m \<or> 0 < refs p" and L: "can_lock (hash_key (key_at s p)) s"
  shows "\<exists>t. item_update p s = Some t \<and> same_locks s t
    \<and> (if it_time (mem s p) < current_time s - 60 \<and> p \<in> ran m
       then cache_rel t m (\<lambda>c. if p \<in> set (lru c) then p # remove1 p (lru c) else lru c) fl refs
         \<and> it_time (mem t p) = current_time s
       else cache_rel t m lru fl refs \<and> mem t = mem s)"
proof -
  let ?s = "locked (hash_key (key_at s p)) s"
  let ?c = "unat (it_slabs_clsid (mem s p))"
  have R': "cache_rel ?s m lru fl refs" by (rule cache_rel_locked [OF R])
  have st: "stale p ?s \<longleftrightarrow> it_time (mem s p) < current_time s - 60"
    by (simp add: stale_def ITEM_UPDATE_INTERVAL_def locks_fields)
  note U = do_item_update_rel [OF R' p, unfolded st locks_mem locks_fields]
  have q: "(\<lambda>c. if p \<in> set (lru c) then p # remove1 p (lru c) else lru c) = lru(?c := p # remove1 p (lru ?c))"
    if pm: "p \<in> ran m"
  proof -
    have "p \<in> set (lru c) \<longleftrightarrow> c = ?c" for c using cache_rel_queue [OF R pm] by blast
    then show ?thesis by (simp add: fun_eq_iff)
  qed
  obtain t where t: "do_item_update p ?s = Some t" "items_frame ?s t"
    "if it_time (mem s p) < current_time s - 60 \<and> p \<in> ran m
     then cache_rel t m (lru(?c := p # remove1 p (lru ?c))) fl refs \<and> it_time (mem t p) = current_time s
     else t = ?s"
  proof (cases "it_time (mem s p) < current_time s - 60 \<and> p \<in> ran m")
    case True
    then have c: "(it_time (mem s p) < current_time s - 60 \<and> p \<in> ran m) = True" by simp
    from U [unfolded c if_True] obtain t where "do_item_update p ?s = Some t" "items_frame ?s t"
      "cache_rel t m (lru(?c := p # remove1 p (lru ?c))) fl refs" "it_time (mem t p) = current_time s" by blast
    then show ?thesis by (intro that [of t]) (simp_all add: c)
  next
    case False
    then have c: "(it_time (mem s p) < current_time s - 60 \<and> p \<in> ran m) = False" by simp
    from U [unfolded c if_False] show ?thesis by (intro that [of ?s]) (simp_all add: c)
  qed
  let ?t = "unlocked (hash_key (key_at s p)) t"
  have "item_update p s = Some ?t" "same_locks s ?t"
    using locked_item_step [of s p "\<lambda>hv. do_item_update p" t] L t(1,2) by (simp_all add: item_update_def)
  moreover have "if it_time (mem s p) < current_time s - 60 \<and> p \<in> ran m
     then cache_rel ?t m (lru(?c := p # remove1 p (lru ?c))) fl refs \<and> it_time (mem ?t p) = current_time s
     else cache_rel ?t m lru fl refs \<and> mem ?t = mem s"
    using t(3) cache_rel_unlocked R' by (auto split: if_splits)
  ultimately show ?thesis using q
    by (intro exI [of _ ?t]) (cases "it_time (mem s p) < current_time s - 60"; cases "p \<in> ran m"; simp)
qed

section \<open>Examples\<close>

text \<open>A cache with one uploaded item, not linked yet, under the key \<open>k\<close>.\<close>

definition access_boot :: "'a \<Rightarrow> 'a access_scheme" where
  "access_boot r = \<lparr>mem = (\<lambda>_. zero_item)(2000 := zero_item\<lparr>it_refcount := 1, it_slabs_clsid := 1,
       it_nkey := 1, it_key := ''k'', it_value := ''41'' @ [CHR 0x0D, CHR 0x0A]\<rparr>), mallocs = [], current_time = 100,
     process_started = 0, settings = settings_init, stats = stats_init,
     primary_hashtable = [NULL, NULL], old_hashtable = [], hashpower = 1, hash_items = 0, expanding = False,
     started_expanding = False, expand_bucket = 0, hash_bulk_move = 1, slabclass = (\<lambda>_. empty_class),
     mem_limit = 0, mem_malloced = 0, power_largest = 1, mem_base = NULL, mem_current = NULL,
     mem_avail = 0, slab_rebal = \<lparr>rb_slab_start = NULL, rb_slab_end = NULL, rb_slab_pos = NULL,
       rb_s_clsid = 0, rb_d_clsid = 0, rb_busy_items = 0, rb_done = 0\<rparr>, slab_rebalance_signal = 0,
     reassign_cur = 0, rebalance_busy = False, heads = (\<lambda>_. NULL), tails = (\<lambda>_. NULL),
     itemstats = (\<lambda>_. zero_itemstats), sizes = (\<lambda>_. 0), cas_id = 0, item_lock_count = 1024,
     held_locks = {}, busy_locks = {}, evicted_old = (\<lambda>_. 0), slab_zeroes = (\<lambda>_. 0),
     slab_winner = 0, slab_wins = 0, next_run = 0, slab_bulk_check = 1, do_run_slab_thread = True,
     do_run_slab_rebalance_thread = True, move_busy = 0, lock_type = ITEM_LOCK_GRANULAR,
     global_held = False, \<dots> = r\<rparr>"

abbreviation boot_refs :: "addr \<Rightarrow> nat" where
  "boot_refs \<equiv> (\<lambda>_. 0)(2000 := 1)"

lemma access_boot_rel: "cache_rel (access_boot r) Map.empty (\<lambda>_. []) (\<lambda>_. []) boot_refs"
proof -
  have "read_slot (bucket_slot hv (access_boot r)) (access_boot r) = NULL" for hv
  proof -
    have "hbucket hv 1 < 2" using hbucket_less [of 1 hv] by simp
    then show ?thesis
      by (auto simp: bucket_slot_def in_old_def access_boot_def less_2_cases_iff)
  qed
  moreover have "members Map.empty f b = {}" for f b by (simp add: members_def)
  moreover have "assoc_shape (access_boot r)"
    by (simp add: assoc_shape_def access_boot_def hashsize_def)
  ultimately have "assoc_rel (access_boot r) Map.empty"
    by (auto simp: assoc_rel_def) (simp_all add: access_boot_def)
  moreover have "slabs_rel (access_boot r) (\<lambda>_. [])"
    by (simp add: slabs_rel_def freelist_def access_boot_def empty_class_def)
  moreover have "lru_ok (access_boot r) c []" for c
    by (simp add: lru_ok_def lru_shape_def access_boot_def)
  moreover have "live (access_boot r) 2000 False 1"
    by (simp add: live_def valid_class_def POWER_SMALLEST_def LARGEST_ID_def POWER_LARGEST_def
        access_boot_def has_flag_def zero_item_def)
  ultimately show ?thesis
    unfolding cache_rel_def by (auto simp: access_boot_def stats_init_def)
qed

lemma access_boot_fields:
  "key_at (access_boot r) 2000 = ''k''" "key_ok (mem (access_boot r) 2000)" "can_lock hv (access_boot r)"
  "it_exptime (mem (access_boot r) 2000) = 0" "oldest_live (settings (access_boot r)) = 0"
  "\<not> in_moving_page 2000 (access_boot r)" "it_value (mem (access_boot r) 2000) = ''41'' @ [CHR 0x0D, CHR 0x0A]"
  by (simp_all add: access_boot_def ITEM_key_def key_ok_def can_lock_def in_moving_page_def settings_init_def
      zero_item_def)

lemma access_linked:
  "\<exists>t lru. item_link 2000 (access_boot r) = Some t \<and> cache_rel t [''k'' \<mapsto> 2000] lru (\<lambda>_. []) boot_refs
     \<and> same_locks (access_boot r) t \<and> can_lock hv t \<and> key_at t 2000 = ''k''
     \<and> \<not> item_dead 2000 t \<and> it_value (mem t 2000) = ''41'' @ [CHR 0x0D, CHR 0x0A]"
proof -
  obtain t lru where t: "item_link 2000 (access_boot r) = Some t"
    "cache_rel t [''k'' \<mapsto> 2000] lru (\<lambda>_. []) boot_refs" "same_locks (access_boot r) t"
    "items_frame (access_boot r) (t\<lparr>held_locks := held_locks (access_boot r), busy_locks := busy_locks (access_boot r)\<rparr>)"
    "it_time (mem t 2000) = current_time (access_boot r)" "it_exptime (mem t 2000) = it_exptime (mem (access_boot r) 2000)"
    "it_value (mem t 2000) = ''41'' @ [CHR 0x0D, CHR 0x0A]"
    using item_link_rel [OF access_boot_rel [of r], of 2000] by (auto simp: access_boot_fields)
  have "hashpower t = hashpower (access_boot r)" "item_lock_count t = item_lock_count (access_boot r)"
    using items_frameD [OF t(4)] by simp_all
  then have "can_lock hv t" using same_locks_can_lock [OF t(3)] access_boot_fields(3) by simp
  moreover have "key_at t 2000 = ''k''" using assoc_relD(5) [OF cache_relD(1) [OF t(2)]] by simp
  moreover have "settings t = settings (access_boot r)" "current_time t = current_time (access_boot r)"
    "slab_rebal t = slab_rebal (access_boot r)" "slab_rebalance_signal t = slab_rebalance_signal (access_boot r)"
    using items_frameD [OF t(4)] by simp_all
  then have "\<not> item_dead 2000 t"
    by (simp add: item_dead_def in_moving_page_def t(5,6) access_boot_def settings_init_def zero_item_def)
  ultimately show ?thesis using t(1-3,7) by blast
qed

theorem item_get_correct_witness:
  "\<exists>t. item_get ''none'' (access_boot ()) = Some (NULL, t) \<and> same_locks (access_boot ()) t"
  using item_get_correct [OF access_boot_rel [of "()"], of "''none''"] access_boot_fields(3) [where r = "()"] by auto

theorem item_remove_frees_last_witness:
  "\<exists>t fl. item_remove 2000 (access_boot ()) = Some t \<and> (\<exists>c. 2000 \<in> set (fl c)) \<and> slabs_rel t fl"
  using item_remove_frees_last [OF access_boot_rel [of "()"], of 2000] access_boot_fields(3) [where r = "()"] by (auto dest: cache_relD(2))

theorem store_then_get_witness:
  "\<exists>t u. item_link 2000 (access_boot ()) = Some t \<and> item_get ''k'' t = Some (2000, u)
     \<and> it_value (mem u 2000) = ''41'' @ [CHR 0x0D, CHR 0x0A]"
  using store_then_get [OF access_boot_rel [of "()"], of 2000] by (auto simp: access_boot_fields)

theorem delete_then_get_witness:
  "\<exists>s t u. item_link 2000 (access_boot ()) = Some s \<and> item_unlink 2000 s = Some t \<and> item_get ''k'' t = Some (NULL, u)"
proof -
  obtain s lru where s: "item_link 2000 (access_boot ()) = Some s"
    "cache_rel s [''k'' \<mapsto> 2000] lru (\<lambda>_. []) boot_refs" "can_lock (hash_key ''k'') s" "key_at s 2000 = ''k''"
    using access_linked [where r = "()"] by blast
  with delete_then_get [OF s(2), of 2000] show ?thesis by auto
qed

theorem item_update_recency_witness:
  "\<exists>s t. item_link 2000 (access_boot ()) = Some s \<and> item_update 2000 s = Some t \<and> same_locks s t"
proof -
  obtain s lru where s: "item_link 2000 (access_boot ()) = Some s"
    "cache_rel s [''k'' \<mapsto> 2000] lru (\<lambda>_. []) boot_refs" "can_lock (hash_key ''k'') s" "key_at s 2000 = ''k''"
    using access_linked [where r = "()"] by blast
  with item_update_recency [OF s(2), of 2000] show ?thesis by auto
qed

end
