(* ===== verification/Out_Vec.thy ===== *)
theory Out_Vec
  imports Conn_Queue Clib
begin

text \<open>
  \<open>memcached.c\<close>: the scatter lists of a reply. A connection collects the pieces of its reply in an
  array of \<open>iovec\<close>s, cut into messages by an array of \<open>msghdr\<close>s; both arrays grow by \<open>realloc\<close>.
  An access outside an array is \<open>None\<close>. The functions touch nothing of the connection but the
  fields of \<open>msgq\<close>, so they work on every extension of that record.
\<close>

section \<open>State\<close>

definition UDP_HEADER_SIZE :: nat where "UDP_HEADER_SIZE = 8"
definition UDP_MAX_PAYLOAD_SIZE :: int where "UDP_MAX_PAYLOAD_SIZE = 1400"

text \<open>The limit of the platform, from \<open>limits.h\<close>.\<close>

definition IOV_MAX :: nat where "IOV_MAX = 1024"

text \<open>
  Where the bytes of a piece come from: a constant of the program, the key, the suffix or the data
  of an item, the connection's \<open>wbuf\<close>, the buffer to be freed after writing, a buffer of the suffix
  cache, or the header buffer. \<open>IO_null\<close> is the null pointer.
\<close>

datatype iosrc = IO_null | IO_lit string | IO_key addr | IO_suffix addr | IO_data addr
  | IO_wbuf | IO_free | IO_sufbuf addr | IO_hdr

record iovec =
  iov_base :: iosrc
  iov_off :: nat
  iov_len :: int

record msghdr =
  msg_iov :: nat
  msg_iovlen :: nat
  msg_namelen :: nat

definition zero_iovec :: iovec where
  "zero_iovec = \<lparr>iov_base = IO_null, iov_off = 0, iov_len = 0\<rparr>"

definition zero_msghdr :: msghdr where
  "zero_msghdr = \<lparr>msg_iov = 0, msg_iovlen = 0, msg_namelen = 0\<rparr>"

text \<open>
  The arrays are lists as long as the allocated size; \<open>msg_iov\<close> is the index into \<open>cn_iov\<close> that the
  pointer has. \<open>grants\<close> says, in order, which of the coming allocations for the buffers of the
  connection succeed; when it is exhausted they fail.
\<close>

record msgq =
  grants :: "bool list"
  cn_iov :: "iovec list"
  cn_iovsize :: nat
  cn_iovused :: nat
  cn_msglist :: "msghdr list"
  cn_msgsize :: nat
  cn_msgused :: nat
  cn_msgcurr :: nat
  cn_msgbytes :: int
  cn_transport :: network_transport
  cn_request_id :: int
  cn_request_addr_size :: nat
  cn_hdrbuf :: "u8 list option"
  cn_hdrsize :: nat

definition grant :: "'a msgq_scheme \<Rightarrow> bool \<times> 'a msgq_scheme" where
  "grant c = (case grants c of [] \<Rightarrow> (False, c) | g # gs \<Rightarrow> (g, c\<lparr>grants := gs\<rparr>))"

definition upd_msg :: "nat \<Rightarrow> (msghdr \<Rightarrow> msghdr) \<Rightarrow> 'a msgq_scheme \<Rightarrow> 'a msgq_scheme option" where
  "upd_msg i f c = (if i < length (cn_msglist c)
     then Some (c\<lparr>cn_msglist := (cn_msglist c)[i := f (cn_msglist c ! i)]\<rparr>) else None)"

definition set_iov :: "nat \<Rightarrow> iovec \<Rightarrow> 'a msgq_scheme \<Rightarrow> 'a msgq_scheme option" where
  "set_iov i v c = (if i < length (cn_iov c) then Some (c\<lparr>cn_iov := (cn_iov c)[i := v]\<rparr>) else None)"

section \<open>Growing the arrays\<close>

text \<open>The loop that points the message headers at the new array.\<close>

fun relink_msgs :: "nat list \<Rightarrow> nat \<Rightarrow> 'a msgq_scheme \<Rightarrow> 'a msgq_scheme option" where
  "relink_msgs [] iovnum c = Some c"
| "relink_msgs (i # is) iovnum c = do {
     c \<leftarrow> upd_msg i (\<lambda>m. m\<lparr>msg_iov := iovnum\<rparr>) c;
     relink_msgs is (iovnum + msg_iovlen (cn_msglist c ! i)) c }"

definition ensure_iov_space :: "'a msgq_scheme \<Rightarrow> (int \<times> 'a msgq_scheme) option" where
  "ensure_iov_space c =
     (if cn_iovsize c \<le> cn_iovused c then
        (case grant c of (ok, c) \<Rightarrow>
           if \<not> ok then Some (-1, c)
           else do {
             let c = c\<lparr>cn_iov := cn_iov c @ replicate (cn_iovsize c * 2 - length (cn_iov c)) zero_iovec,
                       cn_iovsize := cn_iovsize c * 2\<rparr>;
             c \<leftarrow> relink_msgs [0..<cn_msgused c] 0 c;
             Some (0, c) })
      else Some (0, c))"

text \<open>\<open>add_msghdr\<close> up to its last test.\<close>

definition new_msghdr :: "'a msgq_scheme \<Rightarrow> (int \<times> 'a msgq_scheme) option" where
  "new_msghdr c = (case
     (if cn_msgsize c = cn_msgused c then
        (case grant c of (ok, c) \<Rightarrow>
           if \<not> ok then (False, c)
           else (True, c\<lparr>cn_msglist := cn_msglist c @ replicate (cn_msgsize c * 2 - length (cn_msglist c)) zero_msghdr,
                         cn_msgsize := cn_msgsize c * 2\<rparr>))
      else (True, c)) of (ok, c) \<Rightarrow>
     if \<not> ok then Some (-1, c)
     else do {
       c \<leftarrow> upd_msg (cn_msgused c) (\<lambda>_. zero_msghdr\<lparr>msg_iov := cn_iovused c, msg_namelen := cn_request_addr_size c\<rparr>) c;
       Some (0, c\<lparr>cn_msgbytes := 0, cn_msgused := cn_msgused c + 1\<rparr>) })"

section \<open>Adding to the reply\<close>

text \<open>
  \<open>add_msghdr\<close> and \<open>add_iov\<close> call each other, so they are one recursive function on which of the two
  is called: \<open>None\<close> is \<open>add_msghdr(c)\<close>, \<open>Some\<close> is a turn of the loop of \<open>add_iov(c, buf, len)\<close>.
\<close>

definition limit_to_mtu :: "'a msgq_scheme \<Rightarrow> bool" where
  "limit_to_mtu c \<longleftrightarrow> IS_UDP (cn_transport c) \<or> cn_msgused c = 1"

definition msg_full :: "bool \<Rightarrow> 'a msgq_scheme \<Rightarrow> bool" where
  "msg_full mtu c \<longleftrightarrow> msg_iovlen (cn_msglist c ! (cn_msgused c - 1)) = IOV_MAX
     \<or> mtu \<and> UDP_MAX_PAYLOAD_SIZE \<le> cn_msgbytes c"

text \<open>The store of one piece, behind the last piece of the last message.\<close>

definition put_iov :: "iosrc \<Rightarrow> nat \<Rightarrow> int \<Rightarrow> 'a msgq_scheme \<Rightarrow> 'a msgq_scheme option" where
  "put_iov src off len c = (let i = cn_msgused c - 1; m = cn_msglist c ! i in do {
     c \<leftarrow> set_iov (msg_iov m + msg_iovlen m) \<lparr>iov_base = src, iov_off = off, iov_len = len\<rparr> c;
     let c = c\<lparr>cn_msgbytes := cn_msgbytes c + len, cn_iovused := cn_iovused c + 1\<rparr>;
     upd_msg i (\<lambda>m. m\<lparr>msg_iovlen := msg_iovlen m + 1\<rparr>) c })"

partial_function (option) add_io ::
    "(iosrc \<times> nat \<times> int) option \<Rightarrow> 'a msgq_scheme \<Rightarrow> (int \<times> 'a msgq_scheme) option" where
  "add_io arg c = (case arg of
     None \<Rightarrow> Option.bind (new_msghdr c) (\<lambda>(r, c).
       if r \<noteq> 0 then Some (r, c)
       else if IS_UDP (cn_transport c) then add_io (Some (IO_null, 0, int UDP_HEADER_SIZE)) c
       else Some (0, c))
   | Some (src, off, len) \<Rightarrow>
       if cn_msgused c = 0 \<or> length (cn_msglist c) < cn_msgused c then None
       else let mtu = limit_to_mtu c in
         Option.bind (if msg_full mtu c then add_io None c else Some (0, c)) (\<lambda>(r, c).
         Option.bind (ensure_iov_space c) (\<lambda>(r, c).
           if r \<noteq> 0 then Some (-1, c)
           else let leftover = (if mtu \<and> UDP_MAX_PAYLOAD_SIZE < len + cn_msgbytes c
                    then len + cn_msgbytes c - UDP_MAX_PAYLOAD_SIZE else 0);
                  n = len - leftover in
             Option.bind (put_iov src off n c) (\<lambda>c.
               if 0 < leftover then add_io (Some (src, off + nat n, leftover)) c else Some (0, c)))))"

definition add_msghdr :: "'a msgq_scheme \<Rightarrow> (int \<times> 'a msgq_scheme) option" where
  "add_msghdr c = add_io None c"

definition add_iov :: "iosrc \<Rightarrow> nat \<Rightarrow> int \<Rightarrow> 'a msgq_scheme \<Rightarrow> (int \<times> 'a msgq_scheme) option" where
  "add_iov src off len c = add_io (Some (src, off, len)) c"

section \<open>UDP headers\<close>

text \<open>The eight bytes of a header; the stores of \<open>int\<close> values into bytes truncate.\<close>

definition udp_header :: "int \<Rightarrow> nat \<Rightarrow> nat \<Rightarrow> u8 list" where
  "udp_header request_id i msgused = [word_of_int (request_id div 256), word_of_int (request_id mod 256),
     of_nat (i div 256), of_nat (i mod 256), of_nat (msgused div 256), of_nat (msgused mod 256), 0, 0]"

fun attach_headers :: "nat list \<Rightarrow> u8 list \<Rightarrow> 'a msgq_scheme \<Rightarrow> 'a msgq_scheme option" where
  "attach_headers [] hdr c = Some (c\<lparr>cn_hdrbuf := Some hdr\<rparr>)"
| "attach_headers (i # is) hdr c =
     (if length (cn_msglist c) \<le> i then None
      else do {
        c \<leftarrow> set_iov (msg_iov (cn_msglist c ! i))
               \<lparr>iov_base = IO_hdr, iov_off = i * UDP_HEADER_SIZE, iov_len = int UDP_HEADER_SIZE\<rparr> c;
        attach_headers is (take (i * UDP_HEADER_SIZE) hdr
          @ udp_header (cn_request_id c) i (cn_msgused c) @ drop ((i + 1) * UDP_HEADER_SIZE) hdr) c })"

definition build_udp_headers :: "'a msgq_scheme \<Rightarrow> (int \<times> 'a msgq_scheme) option" where
  "build_udp_headers c = (case
     (if cn_hdrsize c < cn_msgused c then
        (case grant c of (ok, c) \<Rightarrow>
           if \<not> ok then (False, c)
           else (let old = (case cn_hdrbuf c of None \<Rightarrow> [] | Some h \<Rightarrow> h) in
             (True, c\<lparr>cn_hdrbuf := Some (old @ replicate (cn_msgused c * 2 * UDP_HEADER_SIZE - length old) 0),
                      cn_hdrsize := cn_msgused c * 2\<rparr>)))
      else (True, c)) of (ok, c) \<Rightarrow>
     if \<not> ok then Some (-1, c)
     else (case cn_hdrbuf c of
         None \<Rightarrow> if cn_msgused c = 0 then Some (0, c) else None
       | Some hdr \<Rightarrow> map_option (\<lambda>c. (0, c)) (attach_headers [0..<cn_msgused c] hdr c)))"

section \<open>Replies of a stream connection\<close>

text \<open>
  The messages cut the pieces into consecutive runs: each starts where the one before it ends.
\<close>

fun msgs_from :: "nat \<Rightarrow> msghdr list \<Rightarrow> bool" where
  "msgs_from k [] \<longleftrightarrow> True"
| "msgs_from k (m # ms) \<longleftrightarrow> msg_iov m = k \<and> msgs_from (k + msg_iovlen m) ms"

abbreviation used_msgs :: "'a msgq_scheme \<Rightarrow> msghdr list" where
  "used_msgs c \<equiv> take (cn_msgused c) (cn_msglist c)"

definition pieces :: "'a msgq_scheme \<Rightarrow> iovec list" where
  "pieces c = take (cn_iovused c) (cn_iov c)"

definition out_shape :: "'a msgq_scheme \<Rightarrow> bool" where
  "out_shape c \<longleftrightarrow> length (cn_iov c) = cn_iovsize c \<and> 0 < cn_iovsize c \<and> cn_iovused c \<le> cn_iovsize c
     \<and> length (cn_msglist c) = cn_msgsize c \<and> 1 < cn_msgsize c \<and> cn_msgused c \<le> cn_msgsize c
     \<and> msgs_from 0 (used_msgs c) \<and> sum_list (map msg_iovlen (used_msgs c)) = cn_iovused c"

lemma out_shapeD:
  assumes "out_shape c"
  shows "length (cn_iov c) = cn_iovsize c" "0 < cn_iovsize c" "cn_iovused c \<le> cn_iovsize c"
    "length (cn_msglist c) = cn_msgsize c" "1 < cn_msgsize c" "cn_msgused c \<le> cn_msgsize c"
    "msgs_from 0 (used_msgs c)" "sum_list (map msg_iovlen (used_msgs c)) = cn_iovused c"
  using assms by (simp_all add: out_shape_def)

lemma msgs_from_append:
  "msgs_from k (xs @ ys) \<longleftrightarrow> msgs_from k xs \<and> msgs_from (k + sum_list (map msg_iovlen xs)) ys"
  by (induction xs arbitrary: k) (simp_all add: add.assoc)

lemma used_msgs_last:
  assumes "out_shape c" "0 < cn_msgused c"
  shows "used_msgs c = take (cn_msgused c - 1) (cn_msglist c) @ [cn_msglist c ! (cn_msgused c - 1)]"
  using assms out_shapeD(4,6) [OF assms(1)]
  by (metis One_nat_def Suc_pred less_le_trans lessI take_Suc_conv_app_nth)

lemma last_msg_end:
  assumes "out_shape c" "0 < cn_msgused c"
  shows "msg_iov (cn_msglist c ! (cn_msgused c - 1)) + msg_iovlen (cn_msglist c ! (cn_msgused c - 1)) = cn_iovused c"
  using out_shapeD(7,8) [OF assms(1)] unfolding used_msgs_last [OF assms] by (simp add: msgs_from_append)

text \<open>Re-pointing the headers after the array has moved finds every index as it was.\<close>

lemma relink_msgs_id:
  assumes "msgs_from k (drop j (take n (cn_msglist c)))" "j \<le> n" "n \<le> length (cn_msglist c)"
  shows "relink_msgs [j..<n] k c = Some c"
  using assms
proof (induction "n - j" arbitrary: j k)
  case (Suc d)
  have j: "j < n" using Suc.hyps(2) by simp
  then have e: "drop j (take n (cn_msglist c)) = cn_msglist c ! j # drop (Suc j) (take n (cn_msglist c))"
    using Suc.prems(3) by (simp add: Cons_nth_drop_Suc [symmetric])
  have "upd_msg j (\<lambda>m. m\<lparr>msg_iov := k\<rparr>) c = Some c"
    using Suc.prems(1,3) j unfolding e by (auto simp: upd_msg_def)
  with Suc e j show ?case by (simp add: upt_conv_Cons)
qed simp

lemma ensure_iov_space_ok:
  assumes "out_shape c"
  shows "\<exists>r d. ensure_iov_space c = Some (r, d) \<and> out_shape d \<and> pieces d = pieces c
    \<and> (r = 0 \<longrightarrow> cn_iovused d < cn_iovsize d) \<and> cn_msglist d = cn_msglist c \<and> cn_msgused d = cn_msgused c
    \<and> cn_msgsize d = cn_msgsize c
    \<and> cn_msgbytes d = cn_msgbytes c \<and> cn_transport d = cn_transport c"
proof (cases "cn_iovsize c \<le> cn_iovused c \<and> grants c \<noteq> [] \<and> hd (grants c)")
  case True
  then obtain gs where g: "grants c = True # gs" by (cases "grants c") auto
  note S = out_shapeD [OF assms]
  let ?c = "c\<lparr>grants := gs, cn_iov := cn_iov c @ replicate (cn_iovsize c) zero_iovec, cn_iovsize := cn_iovsize c * 2\<rparr>"
  have l: "relink_msgs [0..<cn_msgused c] 0 ?c = Some ?c"
    using S(4,6,7) by (intro relink_msgs_id) simp_all
  have "ensure_iov_space c = Some (0, ?c)"
    using True g l S(1) by (simp add: ensure_iov_space_def grant_def)
  moreover have "out_shape ?c" using S by (simp add: out_shape_def)
  ultimately show ?thesis using S True by (simp add: pieces_def)
next
  case False
  then show ?thesis using assms
    by (cases "grants c") (auto simp: ensure_iov_space_def grant_def out_shape_def pieces_def)
qed

lemma new_msghdr_ok:
  assumes "out_shape c"
  shows "\<exists>r d. new_msghdr c = Some (r, d) \<and> out_shape d \<and> pieces d = pieces c \<and> cn_transport d = cn_transport c
    \<and> (if r = 0 then cn_msgused d = cn_msgused c + 1 \<and> cn_msgbytes d = 0
       else cn_msgused d = cn_msgused c \<and> cn_msgbytes d = cn_msgbytes c)
    \<and> (cn_msgused c < cn_msgsize c \<longrightarrow> r = 0)"
proof -
  note S = out_shapeD [OF assms]
  let ?m = "zero_msghdr\<lparr>msg_iov := cn_iovused c, msg_namelen := cn_request_addr_size c\<rparr>"
  have snoc: "take (Suc n) ((xs @ ys)[n := x]) = take n xs @ [x]" if "n \<le> length xs" "n < length (xs @ ys)"
    for n xs ys and x :: msghdr
    using that by (simp add: take_Suc_conv_app_nth)
  have len: "msgs_from 0 (used_msgs c @ [?m])" "sum_list (map msg_iovlen (used_msgs c @ [?m])) = cn_iovused c"
    using S(7,8) by (simp_all add: msgs_from_append zero_msghdr_def)
  show ?thesis
  proof (cases "cn_msgused c < cn_msgsize c")
    case True
    then have "new_msghdr c = Some (0, c\<lparr>cn_msglist := (cn_msglist c)[cn_msgused c := ?m], cn_msgbytes := 0,
        cn_msgused := cn_msgused c + 1\<rparr>)"
      using S(4) by (simp add: new_msghdr_def upd_msg_def)
    moreover have "take (Suc (cn_msgused c)) ((cn_msglist c)[cn_msgused c := ?m]) = used_msgs c @ [?m]"
      using snoc [of "cn_msgused c" "cn_msglist c" "[]"] True S(4) by simp
    ultimately show ?thesis using S True len by (simp add: out_shape_def pieces_def)
  next
    case False
    then have e: "cn_msgsize c = cn_msgused c" using S(6) by simp
    show ?thesis
    proof (cases "grants c \<noteq> [] \<and> hd (grants c)")
      case True
      then obtain gs where g: "grants c = True # gs" by (cases "grants c") auto
      let ?l = "cn_msglist c @ replicate (cn_msgsize c) zero_msghdr"
      have "new_msghdr c = Some (0, c\<lparr>grants := gs, cn_msglist := ?l[cn_msgused c := ?m],
          cn_msgsize := cn_msgsize c * 2, cn_msgbytes := 0, cn_msgused := cn_msgused c + 1\<rparr>)"
        using S(4,5) e g by (simp add: new_msghdr_def grant_def upd_msg_def)
      moreover have "take (Suc (cn_msgused c)) (?l[cn_msgused c := ?m]) = used_msgs c @ [?m]"
        using S(4,5) e by (intro snoc) simp_all
      ultimately show ?thesis using S e len by (simp add: out_shape_def pieces_def)
    next
      case False
      then show ?thesis using S e
        by (cases "grants c") (auto simp: new_msghdr_def grant_def out_shape_def pieces_def)
    qed
  qed
qed

lemma put_iov_ok:
  assumes "out_shape c" "0 < cn_msgused c" "cn_iovused c < cn_iovsize c"
  shows "\<exists>d. put_iov src off n c = Some d \<and> out_shape d
    \<and> pieces d = pieces c @ [\<lparr>iov_base = src, iov_off = off, iov_len = n\<rparr>] \<and> cn_transport d = cn_transport c
    \<and> cn_msgused d = cn_msgused c \<and> cn_msgbytes d = cn_msgbytes c + n"
proof -
  note S = out_shapeD [OF assms(1)]
  let ?i = "cn_msgused c - 1" and ?v = "\<lparr>iov_base = src, iov_off = off, iov_len = n\<rparr>"
  let ?m = "cn_msglist c ! ?i"
  let ?m' = "?m\<lparr>msg_iovlen := msg_iovlen ?m + 1\<rparr>"
  let ?d = "c\<lparr>cn_iov := (cn_iov c)[cn_iovused c := ?v], cn_msgbytes := cn_msgbytes c + n,
    cn_iovused := cn_iovused c + 1, cn_msglist := (cn_msglist c)[?i := ?m']\<rparr>"
  have i: "?i < length (cn_msglist c)" using assms(2) S(4,6) by simp
  have e: "put_iov src off n c = Some ?d"
    using i assms(3) S(1) last_msg_end [OF assms(1,2)] by (simp add: put_iov_def set_iov_def upd_msg_def Let_def)
  have "take (cn_msgused c) ((cn_msglist c)[?i := ?m']) = take ?i (cn_msglist c) @ [?m']"
    using i assms(2) take_Suc_conv_app_nth [of ?i "(cn_msglist c)[?i := ?m']"] by simp
  then have u: "used_msgs ?d = take ?i (cn_msglist c) @ [?m']" by simp
  have "msgs_from 0 (used_msgs ?d)" "sum_list (map msg_iovlen (used_msgs ?d)) = cn_iovused c + 1"
    unfolding u using S(7,8) unfolding used_msgs_last [OF assms(1,2)] by (simp_all add: msgs_from_append)
  then have "out_shape ?d" using S assms by (simp add: out_shape_def)
  moreover have "pieces ?d = pieces c @ [?v]"
    using assms(3) S(1) by (simp add: pieces_def take_Suc_conv_app_nth)
  ultimately show ?thesis using e by simp
qed

text \<open>One turn of the loop of \<open>add_iov\<close>.\<close>

lemma io_msghdr_stream:
  "\<not> IS_UDP (cn_transport c) \<Longrightarrow> out_shape c \<Longrightarrow> add_io None c = new_msghdr c"
  using new_msghdr_ok [of c] by (subst add_io.simps) auto

definition turn :: "iosrc \<Rightarrow> nat \<Rightarrow> int \<Rightarrow> 'a msgq_scheme \<Rightarrow> int \<Rightarrow> 'a msgq_scheme \<Rightarrow> bool" where
  "turn src off len c n d \<longleftrightarrow> 0 \<le> n \<and> n \<le> len \<and> out_shape d \<and> \<not> IS_UDP (cn_transport d)
     \<and> pieces d = pieces c @ [\<lparr>iov_base = src, iov_off = off, iov_len = n\<rparr>] \<and> cn_msgused c \<le> cn_msgused d
     \<and> (1 < cn_msgused c \<longrightarrow> n = len)
     \<and> (cn_msgused c = 1 \<and> msg_full True c \<longrightarrow> cn_msgused d = 2)
     \<and> (cn_msgused c = 1 \<and> \<not> msg_full True c \<and> n < len \<longrightarrow> cn_msgused d = 1 \<and> msg_full True d)
     \<and> add_io (Some (src, off, len)) c =
         (if n < len then add_io (Some (src, off + nat n, len - n)) d else Some (0, d))"

lemma io_turn:
  assumes S: "out_shape c" and T: "\<not> IS_UDP (cn_transport c)" and u: "0 < cn_msgused c" and l: "0 \<le> len"
  shows "(\<exists>d. add_io (Some (src, off, len)) c = Some (-1, d) \<and> out_shape d \<and> pieces d = pieces c)
    \<or> (\<exists>n d. turn src off len c n d)"
proof -
  let ?mtu = "limit_to_mtu c"
  have mtu: "?mtu \<longleftrightarrow> cn_msgused c = 1" using T by (simp add: limit_to_mtu_def)
  obtain r1 c1 where c1: "(if msg_full ?mtu c then add_io None c else Some (0, c)) = Some (r1, c1)"
    "out_shape c1" "pieces c1 = pieces c" "cn_transport c1 = cn_transport c" "cn_msgused c \<le> cn_msgused c1"
    "if msg_full ?mtu c \<and> cn_msgused c = 1 then cn_msgused c1 = 2 \<and> cn_msgbytes c1 = 0
     else msg_full ?mtu c \<or> c1 = c"
  proof (cases "msg_full ?mtu c")
    case True
    from new_msghdr_ok [OF S] obtain r d where d: "new_msghdr c = Some (r, d)" "out_shape d" "pieces d = pieces c"
      "cn_transport d = cn_transport c" "if r = 0 then cn_msgused d = cn_msgused c + 1 \<and> cn_msgbytes d = 0
       else cn_msgused d = cn_msgused c \<and> cn_msgbytes d = cn_msgbytes c"
      "cn_msgused c < cn_msgsize c \<longrightarrow> r = 0" by blast
    have "cn_msgused c = 1 \<longrightarrow> r = 0" using d(6) out_shapeD(5) [OF S] by simp
    with d True io_msghdr_stream [OF T S] show ?thesis by (intro that [of r d]) (auto split: if_splits)
  next
    case False
    then show ?thesis using S by (intro that [of 0 c]) simp_all
  qed
  from ensure_iov_space_ok [OF c1(2)] obtain r2 c2 where c2: "ensure_iov_space c1 = Some (r2, c2)" "out_shape c2"
    "pieces c2 = pieces c1" "r2 = 0 \<longrightarrow> cn_iovused c2 < cn_iovsize c2" "cn_msglist c2 = cn_msglist c1"
    "cn_msgused c2 = cn_msgused c1" "cn_msgbytes c2 = cn_msgbytes c1" "cn_transport c2 = cn_transport c1" by blast
  let ?over = "?mtu \<and> UDP_MAX_PAYLOAD_SIZE < len + cn_msgbytes c2"
  let ?left = "if ?over then len + cn_msgbytes c2 - UDP_MAX_PAYLOAD_SIZE else 0"
  let ?n = "len - ?left"
  have unf: "add_io (Some (src, off, len)) c = (if r2 \<noteq> 0 then Some (-1, c2) else
      Option.bind (put_iov src off ?n c2) (\<lambda>c. if 0 < ?left then add_io (Some (src, off + nat ?n, ?left)) c else Some (0, c)))"
    using u out_shapeD(4,6) [OF S] c1(1) c2(1) by (subst add_io.simps) (simp add: Let_def)
  show ?thesis
  proof (cases "r2 = 0")
    case False
    then show ?thesis using unf c1(3) c2(2,3) by (intro disjI1 exI [of _ c2]) simp
  next
    case True
    then have "cn_iovused c2 < cn_iovsize c2" using c2(4) by simp
    moreover have "0 < cn_msgused c2" using c1(5) c2(6) u by simp
    ultimately obtain d where d: "put_iov src off ?n c2 = Some d" "out_shape d"
      "pieces d = pieces c2 @ [\<lparr>iov_base = src, iov_off = off, iov_len = ?n\<rparr>]" "cn_transport d = cn_transport c2"
      "cn_msgused d = cn_msgused c2" "cn_msgbytes d = cn_msgbytes c2 + ?n"
      using put_iov_ok [OF c2(2), of src off ?n] by blast
    have b: "cn_msgbytes c2 \<le> UDP_MAX_PAYLOAD_SIZE" if "?mtu"
      using that mtu c1(6) c2(7) by (auto simp: msg_full_def UDP_MAX_PAYLOAD_SIZE_def split: if_splits)
    have "turn src off len c ?n d"
      unfolding turn_def
    proof (intro conjI impI)
      show "0 \<le> ?n" using b l by auto
      show "?n \<le> len" by auto
      show "out_shape d" by (rule d(2))
      show "\<not> IS_UDP (cn_transport d)" using T c1(4) c2(8) d(4) by simp
      show "pieces d = pieces c @ [\<lparr>iov_base = src, iov_off = off, iov_len = ?n\<rparr>]" using d(3) c1(3) c2(3) by simp
      show "cn_msgused c \<le> cn_msgused d" using c1(5) c2(6) d(5) by simp
      show "?n = len" if "1 < cn_msgused c" using that mtu by simp
      show "cn_msgused d = 2" if "cn_msgused c = 1 \<and> msg_full True c"
        using that mtu c1(6) c2(6) d(5) by simp
      {
        assume a: "cn_msgused c = 1 \<and> \<not> msg_full True c \<and> ?n < len"
        then have "c1 = c" using mtu c1(6) by simp
        then show "cn_msgused d = 1" using a c2(6) d(5) by simp
        have "?over" using a by (auto split: if_splits)
        then have "cn_msgbytes d = UDP_MAX_PAYLOAD_SIZE" using d(6) by simp
        then show "msg_full True d" by (simp add: msg_full_def)
      }
      have "0 < ?left \<longleftrightarrow> ?n < len" by auto
      then show "add_io (Some (src, off, len)) c =
         (if ?n < len then add_io (Some (src, off + nat ?n, len - ?n)) d else Some (0, d))"
        using unf True d(1) by simp
    qed
    then show ?thesis by blast
  qed
qed

lemma turnD:
  assumes "turn src off len c n d"
  shows "0 \<le> n" "n \<le> len" "out_shape d" "\<not> IS_UDP (cn_transport d)" "cn_msgused c \<le> cn_msgused d"
    "1 < cn_msgused c \<Longrightarrow> n = len" "cn_msgused c = 1 \<Longrightarrow> msg_full True c \<Longrightarrow> cn_msgused d = 2"
    "cn_msgused c = 1 \<Longrightarrow> \<not> msg_full True c \<Longrightarrow> n < len \<Longrightarrow> cn_msgused d = 1"
    "cn_msgused c = 1 \<Longrightarrow> \<not> msg_full True c \<Longrightarrow> n < len \<Longrightarrow> msg_full True d"
  using assms unfolding turn_def by blast+

section \<open>What is sent\<close>

text \<open>The bytes of a piece, for given contents of the sources.\<close>

definition piece_bytes :: "(iosrc \<Rightarrow> string) \<Rightarrow> iovec \<Rightarrow> string" where
  "piece_bytes f v = take (nat (iov_len v)) (drop (iov_off v) (f (iov_base v)))"

definition reply_bytes :: "(iosrc \<Rightarrow> string) \<Rightarrow> 'a msgq_scheme \<Rightarrow> string" where
  "reply_bytes f c = concat (map (piece_bytes f) (pieces c))"

definition appended :: "(iosrc \<Rightarrow> string) \<Rightarrow> iosrc \<Rightarrow> nat \<Rightarrow> int \<Rightarrow> 'a msgq_scheme \<Rightarrow> bool" where
  "appended f src off len c \<longleftrightarrow> (\<exists>r d k. add_io (Some (src, off, len)) c = Some (r, d) \<and> out_shape d
     \<and> (r = 0 \<or> r = -1) \<and> reply_bytes f d = reply_bytes f c @ take k (drop off (f src))
     \<and> (if r = 0 then k = nat len else k \<le> nat len))"

lemma appended_turn:
  assumes "0 < cn_msgused c" "turn src off len c n d" "n < len \<Longrightarrow> appended f src (off + nat n) (len - n) d"
  shows "appended f src off len c"
proof (cases "n < len")
  case True
  have n: "0 \<le> n" "n \<le> len" and b: "reply_bytes f d = reply_bytes f c @ take (nat n) (drop off (f src))"
    using assms(2) by (simp_all add: turn_def reply_bytes_def piece_bytes_def)
  from assms(3) [OF True] obtain r e k where e: "add_io (Some (src, off + nat n, len - n)) d = Some (r, e)"
    "out_shape e" "r = 0 \<or> r = -1" "reply_bytes f e = reply_bytes f d @ take k (drop (off + nat n) (f src))"
    "if r = 0 then k = nat (len - n) else k \<le> nat (len - n)" by (auto simp: appended_def)
  have "reply_bytes f e = reply_bytes f c @ take (nat n + k) (drop off (f src))"
    using e(4) b by (simp add: take_add add.commute [of "nat n" off])
  moreover have "if r = 0 then nat n + k = nat len else nat n + k \<le> nat len" using e(5) n by auto
  moreover have "add_io (Some (src, off, len)) c = Some (r, e)" using assms(2) True e(1) by (simp add: turn_def)
  ultimately show ?thesis using e(2,3) unfolding appended_def by blast
next
  case False
  then show ?thesis using assms(2)
    by (intro appended_def [THEN iffD2] exI [of _ 0] exI [of _ d] exI [of _ "nat len"])
      (auto simp: turn_def reply_bytes_def piece_bytes_def)
qed

lemma appended_step:
  assumes "out_shape c" "\<not> IS_UDP (cn_transport c)" "0 < cn_msgused c" "0 \<le> len"
    and "\<And>n d. turn src off len c n d \<Longrightarrow> n < len \<Longrightarrow> appended f src (off + nat n) (len - n) d"
  shows "appended f src off len c"
  using io_turn [OF assms(1-4), of src off]
proof
  assume "\<exists>d. add_io (Some (src, off, len)) c = Some (-1, d) \<and> out_shape d \<and> pieces d = pieces c"
  then show ?thesis unfolding appended_def reply_bytes_def by (force intro: exI [of _ "0 :: nat"])
qed (use appended_turn assms(3,5) in blast)

text \<open>
  Property C25.
  Replies are sent whole: on a stream connection \<open>add_iov\<close> returns, stays inside the two arrays whether
  they had to grow or not, and when it reports success the bytes to be sent are those from before
  followed by exactly the \<open>len\<close> bytes of the buffer, however they were cut into pieces and messages;
  when memory runs out a beginning of them has been added and the arrays are consistent.
\<close>

theorem add_iov_appends:
  assumes S: "out_shape c" and T: "\<not> IS_UDP (cn_transport c)" and u: "0 < cn_msgused c" and l: "0 \<le> len"
  shows "\<exists>r d k. add_iov src off len c = Some (r, d) \<and> out_shape d \<and> (r = 0 \<or> r = -1)
    \<and> reply_bytes f d = reply_bytes f c @ take k (drop off (f src)) \<and> (if r = 0 then k = nat len else k \<le> nat len)"
proof -
  have many: "appended f src off len c" if "1 < cn_msgused c" "out_shape c" "\<not> IS_UDP (cn_transport c)" "0 \<le> len"
    for c :: "'a msgq_scheme" and off len
    using that(2,3) _ that(4) by (rule appended_step) (use that(1) turnD(6) in force)+
  have full: "appended f src off len c" if c: "cn_msgused c = 1" "msg_full True c" "out_shape c"
    "\<not> IS_UDP (cn_transport c)" "0 \<le> len" for c :: "'a msgq_scheme" and off len
  proof (rule appended_step [OF c(3,4) _ c(5)])
    fix n d assume "turn src off len c n d" "n < len"
    note t = turnD [OF this(1)] this(2)
    show "appended f src (off + nat n) (len - n) d" using t(7) [OF c(1,2)] t(1-4,10) by (intro many) simp_all
  qed (use c in simp)
  have "appended f src off len c"
  proof (rule appended_step [OF S T u l])
    fix n d assume "turn src off len c n d" "n < len"
    note t = turnD [OF this(1)] this(2)
    have c: "cn_msgused c = 1" using u t(6,10) by force
    show "appended f src (off + nat n) (len - n) d"
    proof (cases "msg_full True c")
      case True
      show ?thesis using t(7) [OF c True] t(1-4,10) by (intro many) simp_all
    next
      case False
      show ?thesis using t(8,9) [OF c False t(10)] t(1-4,10) by (intro full) simp_all
    qed
  qed
  then show ?thesis by (simp add: appended_def add_iov_def)
qed

text \<open>A connection with one message that has 1,398 bytes in it already.\<close>

definition out_boot :: msgq where
  "out_boot = \<lparr>grants = [], cn_iov = [\<lparr>iov_base = IO_wbuf, iov_off = 0, iov_len = 1398\<rparr>, zero_iovec, zero_iovec],
     cn_iovsize = 3, cn_iovused = 1, cn_msglist = [\<lparr>msg_iov = 0, msg_iovlen = 1, msg_namelen = 16\<rparr>, zero_msghdr],
     cn_msgsize = 2, cn_msgused = 1, cn_msgcurr = 0, cn_msgbytes = 1398, cn_transport = tcp_transport,
     cn_request_id = 0, cn_request_addr_size = 16, cn_hdrbuf = None, cn_hdrsize = 0\<rparr>"

theorem add_iov_appends_witness:
  "\<exists>r d k. add_iov (IO_lit ''VALUE'') 0 5 out_boot = Some (r, d)
     \<and> reply_bytes (\<lambda>b. ''VALUE'') d = reply_bytes (\<lambda>b. ''VALUE'') out_boot @ take k ''VALUE''
     \<and> (if r = 0 then k = 5 else k \<le> 5)"
proof -
  have "out_shape out_boot" "cn_transport out_boot \<noteq> udp_transport" "0 < cn_msgused out_boot" "0 \<le> (5 :: int)"
    by (simp_all add: out_shape_def out_boot_def)
  from add_iov_appends [OF this, where f = "\<lambda>b. ''VALUE''" and src = "IO_lit ''VALUE''" and off = 0]
  show ?thesis unfolding nat_numeral drop_0 by blast
qed

end
