(* ===== verification/Conn.thy ===== *)
theory Conn
  imports Out_Vec Item_Access Thread_Stats Prefix_Stats Object_Cache
begin

text \<open>
  Connections (\<open>memcached.h\<close>, \<open>memcached.c\<close>): the record of a connection, the state of the server as
  a worker thread sees it, the free list of connections, and what every command handler uses to
  answer. Diagnostics on \<open>stderr\<close> and trace points are left out. \<open>con\<close> is the connection being
  served, the argument \<open>c\<close> of the functions of the source.
\<close>

section \<open>Constants and types\<close>

definition DATA_BUFFER_SIZE :: nat where "DATA_BUFFER_SIZE = 2048"
definition UDP_READ_BUFFER_SIZE :: nat where "UDP_READ_BUFFER_SIZE = 65536"
definition SUFFIX_SIZE :: nat where "SUFFIX_SIZE = 24"
definition ITEM_LIST_INITIAL :: nat where "ITEM_LIST_INITIAL = 200"
definition SUFFIX_LIST_INITIAL :: nat where "SUFFIX_LIST_INITIAL = 20"
definition IOV_LIST_INITIAL :: nat where "IOV_LIST_INITIAL = 400"
definition MSG_LIST_INITIAL :: nat where "MSG_LIST_INITIAL = 10"
definition READ_BUFFER_HIGHWAT :: nat where "READ_BUFFER_HIGHWAT = 8192"
definition ITEM_LIST_HIGHWAT :: nat where "ITEM_LIST_HIGHWAT = 400"
definition IOV_LIST_HIGHWAT :: nat where "IOV_LIST_HIGHWAT = 600"
definition MSG_LIST_HIGHWAT :: nat where "MSG_LIST_HIGHWAT = 100"

lemmas conn_sizes = DATA_BUFFER_SIZE_def UDP_READ_BUFFER_SIZE_def SUFFIX_SIZE_def ITEM_LIST_INITIAL_def
  SUFFIX_LIST_INITIAL_def IOV_LIST_INITIAL_def MSG_LIST_INITIAL_def READ_BUFFER_HIGHWAT_def
  ITEM_LIST_HIGHWAT_def IOV_LIST_HIGHWAT_def MSG_LIST_HIGHWAT_def

datatype bin_substates = bin_no_state | bin_reading_set_header | bin_reading_cas_header
  | bin_read_set_value | bin_reading_get_key | bin_reading_stat | bin_reading_del_header
  | bin_reading_incr_header | bin_read_flush_exptime | bin_reading_sasl_auth
  | bin_reading_sasl_auth_data | bin_reading_touch_key

definition NREAD_ADD :: int where "NREAD_ADD = 1"
definition NREAD_SET :: int where "NREAD_SET = 2"
definition NREAD_REPLACE :: int where "NREAD_REPLACE = 3"
definition NREAD_APPEND :: int where "NREAD_APPEND = 4"
definition NREAD_PREPEND :: int where "NREAD_PREPEND = 5"
definition NREAD_CAS :: int where "NREAD_CAS = 6"

lemmas nread_defs = NREAD_ADD_def NREAD_SET_def NREAD_REPLACE_def NREAD_APPEND_def NREAD_PREPEND_def NREAD_CAS_def

datatype store_item_type = NOT_STORED | STORED | EXISTS | NOT_FOUND

datatype delta_result_type = OK | NON_NUMERIC | EOM | DELTA_ITEM_NOT_FOUND | DELTA_ITEM_CAS_MISMATCH

text \<open>\<open>protocol_binary_request_header\<close> after its fields were put into host order.\<close>

record bin_header =
  bh_magic :: u8
  bh_opcode :: u8
  bh_keylen :: u16
  bh_extlen :: u8
  bh_datatype :: u8
  bh_reserved :: u16
  bh_bodylen :: u32
  bh_opaque :: u32
  bh_cas :: u64

definition zero_header :: bin_header where
  "zero_header = \<lparr>bh_magic = 0, bh_opcode = 0, bh_keylen = 0, bh_extlen = 0, bh_datatype = 0,
     bh_reserved = 0, bh_bodylen = 0, bh_opaque = 0, bh_cas = 0\<rparr>"

section \<open>Connections\<close>

text \<open>
  \<open>cn_rcurr\<close> is the index that the pointer has in \<open>cn_rbuf\<close>, \<open>cn_icurr\<close> and \<open>cn_suffixcurr\<close> those
  into \<open>cn_ilist\<close> and \<open>cn_suffixlist\<close>; \<open>cn_wcurr\<close> and \<open>cn_ritem\<close> point into one of several buffers.
  \<open>cn_write_and_free\<close> and \<open>cn_stats_buffer\<close> are the contents of the buffers they point to. Memory that
  \<open>malloc\<close> returns is filled with null characters; the source reads none of it before writing it.
\<close>

datatype rdest = R_null | R_item addr | R_rbuf

record conn = msgq +
  cn_sfd :: int
  cn_state :: conn_states
  cn_substate :: bin_substates
  cn_ev_flags :: int
  cn_which :: int
  cn_rbuf :: string
  cn_rcurr :: nat
  cn_rsize :: nat
  cn_rbytes :: int
  cn_wbuf :: string
  cn_wcurr :: "iosrc \<times> nat"
  cn_wsize :: nat
  cn_wbytes :: int
  cn_write_and_go :: conn_states
  cn_write_and_free :: "string option"
  cn_ritem :: "rdest \<times> nat"
  cn_rlbytes :: int
  cn_item :: addr
  cn_sbytes :: int
  cn_ilist :: "addr list"
  cn_isize :: nat
  cn_icurr :: nat
  cn_ileft :: int
  cn_suffixlist :: "addr list"
  cn_suffixsize :: nat
  cn_suffixcurr :: nat
  cn_suffixleft :: int
  cn_protocol :: protocol
  cn_noreply :: bool
  cn_stats_buffer :: "string option"
  cn_stats_size :: nat
  cn_stats_offset :: nat
  cn_header :: bin_header
  cn_cas :: u64
  cn_cmd :: int
  cn_opaque :: u32
  cn_keylen :: int
  cn_thread :: nat
  cn_ramcube_proxy :: addr

section \<open>The server as a worker sees it\<close>

text \<open>
  \<open>threads\<close> are the counters of the workers; \<open>freeconns\<close> holds the \<open>freecurr\<close> connections of the free
  list, in the order of the array, of size \<open>freetotal\<close>. \<open>event_adds\<close> are the answers of the coming
  calls that register an event (they fail when the list ends), \<open>closed\<close> the descriptors closed, and
  \<open>errno_range\<close> says whether \<open>errno\<close> is \<open>ERANGE\<close>.
\<close>

record server = access +
  con :: conn
  threads :: "thread_stats_t list"
  prefixes :: prefix_state
  suffix_cache :: cache
  freeconns :: "conn list"
  freetotal :: nat
  allow_new_conns :: bool
  event_adds :: "bool list"
  closed :: "int list"
  ramcube_config_file :: "string option"
  errno_range :: bool

definition upd_con :: "(conn \<Rightarrow> conn) \<Rightarrow> 'a server_scheme \<Rightarrow> 'a server_scheme" where
  "upd_con f s = s\<lparr>con := f (con s)\<rparr>"

text \<open>An operation of the reply lists, run on the connection.\<close>

definition on_con :: "(conn \<Rightarrow> ('r \<times> conn) option) \<Rightarrow> 'a server_scheme \<Rightarrow> ('r \<times> 'a server_scheme) option" where
  "on_con f s = map_option (\<lambda>(r, c). (r, s\<lparr>con := c\<rparr>)) (f (con s))"

definition upd_tstats :: "(thread_stats_t \<Rightarrow> thread_stats_t) \<Rightarrow> 'a server_scheme \<Rightarrow> 'a server_scheme" where
  "upd_tstats f s = (let w = cn_thread (con s) in s\<lparr>threads := (threads s)[w := f (threads s ! w)]\<rparr>)"

text \<open>The counters of a slab class, \<open>c->thread->stats.slab_stats[clsid]\<close>.\<close>

definition upd_slab_stats :: "u8 \<Rightarrow> (slab_stats_t \<Rightarrow> slab_stats_t) \<Rightarrow> 'a server_scheme \<Rightarrow> 'a server_scheme" where
  "upd_slab_stats clsid f = upd_tstats (\<lambda>t. t\<lparr>slab_stats := (slab_stats t)(unat clsid := f (slab_stats t (unat clsid)))\<rparr>)"

text \<open>
  The effect of a number conversion on \<open>errno\<close>: \<open>safe_strtol\<close> and its relatives clear it first, the
  functions of the library set it on a range error only. The argument is the result of the scanner.
\<close>

definition errno_safe :: "('v \<times> bool \<times> string) option \<Rightarrow> 'a server_scheme \<Rightarrow> 'a server_scheme" where
  "errno_safe r s = s\<lparr>errno_range := (case r of None \<Rightarrow> False | Some (_, e, _) \<Rightarrow> e)\<rparr>"

definition errno_plain :: "('v \<times> bool \<times> string) option \<Rightarrow> 'a server_scheme \<Rightarrow> 'a server_scheme" where
  "errno_plain r s = s\<lparr>errno_range := (errno_range s \<or> (case r of None \<Rightarrow> False | Some (_, e, _) \<Rightarrow> e))\<rparr>"

section \<open>The free list of connections\<close>

definition conn_init :: "'a server_scheme \<Rightarrow> 'a server_scheme" where
  "conn_init s = s\<lparr>freetotal := 200, freeconns := []\<rparr>"

definition conn_from_freelist :: "'a server_scheme \<Rightarrow> conn option \<times> 'a server_scheme" where
  "conn_from_freelist s = (if freeconns s \<noteq> []
     then (Some (last (freeconns s)), s\<lparr>freeconns := butlast (freeconns s)\<rparr>) else (None, s))"

text \<open>The result is \<open>True\<close> when the connection could not be added.\<close>

definition conn_add_to_freelist :: "conn \<Rightarrow> 'a server_scheme \<Rightarrow> bool \<times> 'a server_scheme" where
  "conn_add_to_freelist c s =
     (if length (freeconns s) < freetotal s then (False, s\<lparr>freeconns := freeconns s @ [c]\<rparr>)
      else (case malloc s of (new_freeconns, s) \<Rightarrow>
        if new_freeconns \<noteq> NULL
        then (False, s\<lparr>freetotal := freetotal s * 2, freeconns := freeconns s @ [c]\<rparr>)
        else (True, s)))"

definition prot_text :: "protocol \<Rightarrow> string" where
  "prot_text prot = (case prot of ascii_prot \<Rightarrow> ''ascii'' | binary_prot \<Rightarrow> ''binary''
     | negotiating_prot \<Rightarrow> ''auto-negotiate'')"

section \<open>Creating a connection\<close>

text \<open>The structure that \<open>calloc\<close> returns; \<open>gs\<close> are the coming allocations for its buffers.\<close>

definition zero_conn :: "bool list \<Rightarrow> conn" where
  "zero_conn gs = \<lparr>grants = gs, cn_iov = [], cn_iovsize = 0, cn_iovused = 0, cn_msglist = [], cn_msgsize = 0,
     cn_msgused = 0, cn_msgcurr = 0, cn_msgbytes = 0, cn_transport = local_transport, cn_request_id = 0,
     cn_request_addr_size = 0, cn_hdrbuf = None, cn_hdrsize = 0, cn_sfd = 0, cn_state = conn_listening,
     cn_substate = bin_no_state, cn_ev_flags = 0, cn_which = 0, cn_rbuf = [], cn_rcurr = 0, cn_rsize = 0,
     cn_rbytes = 0, cn_wbuf = [], cn_wcurr = (IO_null, 0), cn_wsize = 0, cn_wbytes = 0,
     cn_write_and_go = conn_listening, cn_write_and_free = None, cn_ritem = (R_null, 0), cn_rlbytes = 0,
     cn_item = NULL, cn_sbytes = 0, cn_ilist = [], cn_isize = 0, cn_icurr = 0, cn_ileft = 0,
     cn_suffixlist = [], cn_suffixsize = 0, cn_suffixcurr = 0, cn_suffixleft = 0, cn_protocol = ascii_prot,
     cn_noreply = False, cn_stats_buffer = None, cn_stats_size = 0, cn_stats_offset = 0,
     cn_header = zero_header, cn_cas = 0, cn_cmd = 0, cn_opaque = 0, cn_keylen = 0, cn_thread = 0,
     cn_ramcube_proxy = NULL\<rparr>"

text \<open>The six buffers are all requested before any of the results is tested.\<close>

definition alloc_conn :: "nat \<Rightarrow> bool list \<Rightarrow> conn option" where
  "alloc_conn read_buffer_size gs =
     (if 6 \<le> length gs \<and> list_all (\<lambda>g. g) (take 6 gs)
      then Some ((zero_conn (drop 6 gs))\<lparr>cn_rbuf := replicate read_buffer_size (CHR 0x00), cn_rsize := read_buffer_size,
        cn_wbuf := replicate DATA_BUFFER_SIZE (CHR 0x00), cn_wsize := DATA_BUFFER_SIZE,
        cn_ilist := replicate ITEM_LIST_INITIAL NULL, cn_isize := ITEM_LIST_INITIAL,
        cn_suffixlist := replicate SUFFIX_LIST_INITIAL NULL, cn_suffixsize := SUFFIX_LIST_INITIAL,
        cn_iov := replicate IOV_LIST_INITIAL zero_iovec, cn_iovsize := IOV_LIST_INITIAL,
        cn_msglist := replicate MSG_LIST_INITIAL zero_msghdr, cn_msgsize := MSG_LIST_INITIAL, cn_hdrsize := 0\<rparr>)
      else None)"

text \<open>\<open>sizeof(struct sockaddr)\<close>.\<close>

definition sizeof_sockaddr :: nat where "sizeof_sockaddr = 16"

definition init_conn :: "int \<Rightarrow> conn_states \<Rightarrow> int \<Rightarrow> network_transport \<Rightarrow> settings_t \<Rightarrow> conn \<Rightarrow> conn" where
  "init_conn sfd init_state event_flags transport st c = c\<lparr>cn_transport := transport,
     cn_protocol := binding_protocol st,
     cn_request_addr_size := (if socketpath st = None then sizeof_sockaddr else 0),
     cn_sfd := sfd, cn_state := init_state, cn_rlbytes := 0, cn_cmd := -1, cn_rbytes := 0, cn_wbytes := 0,
     cn_wcurr := (IO_wbuf, 0), cn_rcurr := 0, cn_ritem := (R_null, 0), cn_icurr := 0, cn_suffixcurr := 0,
     cn_ileft := 0, cn_suffixleft := 0, cn_iovused := 0, cn_msgcurr := 0, cn_msgused := 0,
     cn_write_and_go := init_state, cn_write_and_free := None, cn_item := NULL, cn_noreply := False,
     cn_ev_flags := event_flags\<rparr>"

definition event_add :: "'a server_scheme \<Rightarrow> bool \<times> 'a server_scheme" where
  "event_add s = (case event_adds s of [] \<Rightarrow> (False, s) | e # es \<Rightarrow> (e, s\<lparr>event_adds := es\<rparr>))"

text \<open>
  \<open>calloc\<close> of the structure is the first of \<open>gs\<close>. \<open>proxy_new\<close> is \<open>ramcube_server_proxy_new\<close>, which
  is called when a RAMCube configuration was given.
\<close>

definition conn_new :: "(conn \<Rightarrow> conn) \<Rightarrow> bool list \<Rightarrow> int \<Rightarrow> conn_states \<Rightarrow> int \<Rightarrow> nat \<Rightarrow> network_transport
    \<Rightarrow> 'a server_scheme \<Rightarrow> conn option \<times> 'a server_scheme" where
  "conn_new proxy_new gs sfd init_state event_flags read_buffer_size transport s =
     (case (case conn_from_freelist s of
         (Some c, s) \<Rightarrow> (Some c, s)
       | (None, s) \<Rightarrow>
           (case (if gs \<noteq> [] \<and> hd gs then alloc_conn read_buffer_size (tl gs) else None) of
              None \<Rightarrow> (None, s)
            | Some c \<Rightarrow> (Some c, upd_stats (\<lambda>t. t\<lparr>conn_structs := conn_structs t + 1\<rparr>) s))) of
       (None, s) \<Rightarrow> (None, s)
     | (Some c, s) \<Rightarrow> (let c = init_conn sfd init_state event_flags transport (settings s) c in
         case event_add s of (ok, s) \<Rightarrow>
           if \<not> ok then (None, snd (conn_add_to_freelist c s))
           else (let s = upd_stats (\<lambda>t. t\<lparr>curr_conns := curr_conns t + 1, total_conns := total_conns t + 1\<rparr>) s;
                     c = (if ramcube_config_file s \<noteq> None then proxy_new c else c)
             in (Some c, s))))"

section \<open>State changes and releasing a connection\<close>

definition state_text :: "conn_states \<Rightarrow> string" where
  "state_text state = (case state of conn_listening \<Rightarrow> ''conn_listening'' | conn_new_cmd \<Rightarrow> ''conn_new_cmd''
     | conn_waiting \<Rightarrow> ''conn_waiting'' | conn_read \<Rightarrow> ''conn_read'' | conn_parse_cmd \<Rightarrow> ''conn_parse_cmd''
     | conn_write \<Rightarrow> ''conn_write'' | conn_nread \<Rightarrow> ''conn_nread'' | conn_swallow \<Rightarrow> ''conn_swallow''
     | conn_closing \<Rightarrow> ''conn_closing'' | conn_mwrite \<Rightarrow> ''conn_mwrite'' | conn_max_state \<Rightarrow> [])"

text \<open>The assertion that the new state is below \<open>conn_max_state\<close>; the state is stored in any case.\<close>

definition conn_set_state :: "conn_states \<Rightarrow> 'a server_scheme \<Rightarrow> 'a server_scheme option" where
  "conn_set_state state s = (if state = conn_max_state then None
     else Some (upd_con (\<lambda>c. c\<lparr>cn_state := state\<rparr>) s))"

fun release_items :: "nat \<Rightarrow> 'a server_scheme \<Rightarrow> 'a server_scheme option" where
  "release_items 0 s = Some s"
| "release_items (Suc n) s =
     (if length (cn_ilist (con s)) \<le> cn_icurr (con s) then None
      else do {
        s \<leftarrow> item_remove (cn_ilist (con s) ! cn_icurr (con s)) s;
        release_items n (upd_con (\<lambda>c. c\<lparr>cn_ileft := cn_ileft c - 1, cn_icurr := cn_icurr c + 1\<rparr>) s) })"

definition free_suffix :: "addr \<Rightarrow> 'a server_scheme \<Rightarrow> 'a server_scheme option" where
  "free_suffix p s = map_option (\<lambda>k. s\<lparr>suffix_cache := k\<rparr>) (cache_free p (suffix_cache s))"

fun release_suffixes :: "nat \<Rightarrow> 'a server_scheme \<Rightarrow> 'a server_scheme option" where
  "release_suffixes 0 s = Some s"
| "release_suffixes (Suc n) s =
     (if length (cn_suffixlist (con s)) \<le> cn_suffixcurr (con s) then None
      else do {
        s \<leftarrow> free_suffix (cn_suffixlist (con s) ! cn_suffixcurr (con s)) s;
        release_suffixes n (upd_con (\<lambda>c. c\<lparr>cn_suffixleft := cn_suffixleft c - 1, cn_suffixcurr := cn_suffixcurr c + 1\<rparr>) s) })"

text \<open>\<open>sasl_conn\<close> stays null in the build without SASL.\<close>

definition conn_cleanup :: "'a server_scheme \<Rightarrow> 'a server_scheme option" where
  "conn_cleanup s = do {
     s \<leftarrow> (if cn_item (con s) \<noteq> NULL
          then map_option (upd_con (\<lambda>c. c\<lparr>cn_item := NULL\<rparr>)) (item_remove (cn_item (con s)) s) else Some s);
     s \<leftarrow> (if cn_ileft (con s) \<noteq> 0 then release_items (nat (cn_ileft (con s))) s else Some s);
     s \<leftarrow> (if cn_suffixleft (con s) \<noteq> 0 then release_suffixes (nat (cn_suffixleft (con s))) s else Some s);
     let s = upd_con (\<lambda>c. c\<lparr>cn_write_and_free := None\<rparr>) s;
     if IS_UDP (cn_transport (con s)) then conn_set_state conn_read s else Some s }"

text \<open>A connection that is not put on the free list is freed with its buffers.\<close>

definition conn_close :: "'a server_scheme \<Rightarrow> 'a server_scheme option" where
  "conn_close s = do {
     let s = s\<lparr>closed := closed s @ [cn_sfd (con s)], allow_new_conns := True\<rparr>;
     s \<leftarrow> conn_cleanup s;
     let s = (if READ_BUFFER_HIGHWAT < cn_rsize (con s) then s else snd (conn_add_to_freelist (con s) s));
     Some (upd_stats (\<lambda>t. t\<lparr>curr_conns := curr_conns t - 1\<rparr>) s) }"

text \<open>\<open>realloc\<close> of an array of the connection to a smaller size.\<close>

definition try_shrink :: "bool \<Rightarrow> (conn \<Rightarrow> conn) \<Rightarrow> conn \<Rightarrow> conn" where
  "try_shrink big f c = (if big then (case grant c of (ok, c) \<Rightarrow> if ok then f c else c) else c)"

definition conn_shrink :: "conn \<Rightarrow> conn" where
  "conn_shrink c = (if IS_UDP (cn_transport c) then c
     else let
       c = (if READ_BUFFER_HIGHWAT < cn_rsize c \<and> cn_rbytes c < int DATA_BUFFER_SIZE then
              (let n = nat (cn_rbytes c);
                   c = (if cn_rcurr c \<noteq> 0 then c\<lparr>cn_rbuf := take n (drop (cn_rcurr c) (cn_rbuf c)) @ drop n (cn_rbuf c)\<rparr> else c);
                   c = try_shrink True (\<lambda>c. c\<lparr>cn_rbuf := take DATA_BUFFER_SIZE (cn_rbuf c), cn_rsize := DATA_BUFFER_SIZE\<rparr>) c
               in c\<lparr>cn_rcurr := 0\<rparr>)
            else c);
       c = try_shrink (ITEM_LIST_HIGHWAT < cn_isize c)
             (\<lambda>c. c\<lparr>cn_ilist := take ITEM_LIST_INITIAL (cn_ilist c), cn_isize := ITEM_LIST_INITIAL\<rparr>) c;
       c = try_shrink (MSG_LIST_HIGHWAT < cn_msgsize c)
             (\<lambda>c. c\<lparr>cn_msglist := take MSG_LIST_INITIAL (cn_msglist c), cn_msgsize := MSG_LIST_INITIAL\<rparr>) c
     in try_shrink (IOV_LIST_HIGHWAT < cn_iovsize c)
          (\<lambda>c. c\<lparr>cn_iov := take IOV_LIST_INITIAL (cn_iov c), cn_iovsize := IOV_LIST_INITIAL\<rparr>) c)"

section \<open>Answering\<close>

definition crlf :: string where "crlf = [CHR 0x0D, CHR 0x0A]"

text \<open>\<open>memcpy\<close> to the beginning of \<open>wbuf\<close>.\<close>

definition put_wbuf :: "string \<Rightarrow> 'a server_scheme \<Rightarrow> 'a server_scheme option" where
  "put_wbuf str s = (if length str \<le> length (cn_wbuf (con s))
     then Some (upd_con (\<lambda>c. c\<lparr>cn_wbuf := str @ drop (length str) (cn_wbuf c)\<rparr>) s) else None)"

definition out_string :: "string \<Rightarrow> 'a server_scheme \<Rightarrow> 'a server_scheme option" where
  "out_string str s =
     (if cn_noreply (con s) then conn_set_state conn_new_cmd (upd_con (\<lambda>c. c\<lparr>cn_noreply := False\<rparr>) s)
      else do {
        let s = upd_con (\<lambda>c. c\<lparr>cn_msgcurr := 0, cn_msgused := 0, cn_iovused := 0\<rparr>) s;
        (r, s) \<leftarrow> on_con add_msghdr s;
        let str = (if cn_wsize (con s) < length str + 2 then ''SERVER_ERROR output line too long'' else str);
        s \<leftarrow> put_wbuf (str @ crlf) s;
        let s = upd_con (\<lambda>c. c\<lparr>cn_wbytes := int (length str) + 2, cn_wcurr := (IO_wbuf, 0)\<rparr>) s;
        s \<leftarrow> conn_set_state conn_write s;
        Some (upd_con (\<lambda>c. c\<lparr>cn_write_and_go := conn_new_cmd\<rparr>) s) })"

text \<open>\<open>write_and_free\<close>: the buffer is a null pointer when \<open>malloc\<close> had failed.\<close>

definition write_and_free :: "string option \<Rightarrow> int \<Rightarrow> 'a server_scheme \<Rightarrow> 'a server_scheme option" where
  "write_and_free buf bytes s = (case buf of
     Some b \<Rightarrow> do {
       let s = upd_con (\<lambda>c. c\<lparr>cn_write_and_free := Some b, cn_wcurr := (IO_free, 0), cn_wbytes := bytes\<rparr>) s;
       s \<leftarrow> conn_set_state conn_write s;
       Some (upd_con (\<lambda>c. c\<lparr>cn_write_and_go := conn_new_cmd\<rparr>) s) }
   | None \<Rightarrow> out_string ''SERVER_ERROR out of memory writing stats'' s)"

end
