(* ===== verification/Requests.thy ===== *)
theory Requests
  imports Memory Clib
begin

text \<open>
  \<open>memcached.c\<close>: cutting a command line into tokens, and expiry times. A token is its value as a
  C string (\<open>None\<close> for a null pointer) and its length; the spaces that the source overwrites with
  null characters end the values.
\<close>

section \<open>Tokens\<close>

definition MAX_TOKENS :: nat where "MAX_TOKENS = 8"
definition COMMAND_TOKEN :: nat where "COMMAND_TOKEN = 0"
definition SUBCOMMAND_TOKEN :: nat where "SUBCOMMAND_TOKEN = 1"
definition KEY_TOKEN :: nat where "KEY_TOKEN = 1"

record token =
  tk_value :: "string option"
  tk_length :: nat

definition word_token :: "string \<Rightarrow> token" where
  "word_token w = \<lparr>tk_value = Some w, tk_length = length w\<rparr>"

text \<open>
  The loop, on the characters from \<open>e\<close> on, those from \<open>s\<close> to \<open>e\<close>, and the tokens found; it returns
  the tokens, the characters of an unfinished one, and what was not scanned.
\<close>

fun tokenize_loop :: "nat \<Rightarrow> string \<Rightarrow> string \<Rightarrow> token list \<Rightarrow> token list \<times> string \<times> string" where
  "tokenize_loop max_tokens [] cur toks = (toks, cur, [])"
| "tokenize_loop max_tokens (e # es) cur toks =
     (if e = CHR '' '' then
        if cur \<noteq> [] then
          (let toks = toks @ [word_token cur] in
           if length toks = max_tokens - 1 then (toks, [], es) else tokenize_loop max_tokens es [] toks)
        else tokenize_loop max_tokens es [] toks
      else tokenize_loop max_tokens es (cur @ [e]) toks)"

definition tokenize_command :: "string \<Rightarrow> nat \<Rightarrow> token list" where
  "tokenize_command command max_tokens = (case tokenize_loop max_tokens command [] [] of (toks, cur, rest) \<Rightarrow>
     (if cur \<noteq> [] then toks @ [word_token cur] else toks)
       @ [\<lparr>tk_value = (if rest = [] then None else Some rest), tk_length = 0\<rparr>])"

section \<open>Words\<close>

text \<open>The maximal runs of characters other than the space.\<close>

fun words_from :: "string \<Rightarrow> string \<Rightarrow> string list" where
  "words_from cur [] = (if cur = [] then [] else [cur])"
| "words_from cur (e # es) = (if e = CHR '' '' then (if cur = [] then words_from [] es else cur # words_from [] es)
     else words_from (cur @ [e]) es)"

definition spaced_words :: "string \<Rightarrow> string list" where
  "spaced_words s = words_from [] s"

text \<open>The loop finds the words in order, and stops only at the limit.\<close>

lemma tokenize_loop_words:
  assumes "tokenize_loop n es cur toks = (toks', cur', rest)" "length toks < n - 1"
  shows "\<exists>ws. toks' = toks @ map word_token ws
    \<and> words_from cur es = ws @ (if cur' = [] then [] else [cur']) @ spaced_words rest
    \<and> (rest \<noteq> [] \<longrightarrow> length toks' = n - 1 \<and> cur' = []) \<and> length toks' + (if cur' = [] then 0 else 1) \<le> n - 1"
  using assms
proof (induction n es cur toks rule: tokenize_loop.induct)
  case (1 n cur toks)
  then show ?case by (auto simp: spaced_words_def intro!: exI [of _ "[]"])
next
  case (2 n e es cur toks)
  note IH = 2(1-3) and run = 2(4) and len = 2(5)
  show ?case
  proof (cases "e = CHR '' '' \<and> cur \<noteq> []")
    case True
    then have c: "e = CHR '' ''" "cur \<noteq> []" by simp_all
    show ?thesis
    proof (cases "length (toks @ [word_token cur]) = n - 1")
      case full: True
      then show ?thesis using run c len by (auto simp: spaced_words_def intro!: exI [of _ "[cur]"])
    next
      case False
      then have "tokenize_loop n es [] (toks @ [word_token cur]) = (toks', cur', rest)" using run c by simp
      from IH(1) [OF c refl False this] False len obtain ws where "toks' = (toks @ [word_token cur]) @ map word_token ws"
        "words_from [] es = ws @ (if cur' = [] then [] else [cur']) @ spaced_words rest"
        "rest \<noteq> [] \<longrightarrow> length toks' = n - 1 \<and> cur' = []" "length toks' + (if cur' = [] then 0 else 1) \<le> n - 1"
        by auto
      then show ?thesis using c by (intro exI [of _ "cur # ws"]) simp
    qed
  next
    case False
    then show ?thesis using IH(2,3) run len by (cases "e = CHR '' ''") simp_all
  qed
qed

text \<open>
  Property C26.
  The tokenizer is exact: its tokens are the first words of the command line, each with its length,
  at most \<open>max_tokens - 1\<close> of them, followed by a terminal token of length zero; that token has a
  null value only when nothing is left, and otherwise the scan stopped because the array was full
  and the words of the rest are exactly the missing ones.
\<close>

theorem tokenize_command_exact:
  assumes "1 < max_tokens"
  shows "\<exists>ws rest. tokenize_command command max_tokens
      = map word_token ws @ [\<lparr>tk_value = (if rest = [] then None else Some rest), tk_length = 0\<rparr>]
    \<and> spaced_words command = ws @ spaced_words rest \<and> length ws < max_tokens
    \<and> (rest \<noteq> [] \<longrightarrow> length ws = max_tokens - 1)"
proof -
  obtain toks cur rest where t: "tokenize_loop max_tokens command [] [] = (toks, cur, rest)"
    using prod_cases3 by blast
  from tokenize_loop_words [OF t] assms obtain ws where w: "toks = map word_token ws"
    "spaced_words command = ws @ (if cur = [] then [] else [cur]) @ spaced_words rest"
    "rest \<noteq> [] \<longrightarrow> length toks = max_tokens - 1 \<and> cur = []"
    "length toks + (if cur = [] then 0 else 1) \<le> max_tokens - 1" by (auto simp: spaced_words_def)
  show ?thesis
    using t w assms by (intro exI [of _ "ws @ (if cur = [] then [] else [cur])"] exI [of _ rest])
      (auto simp: tokenize_command_def)
qed

theorem tokenize_command_exact_witness:
  "\<exists>ws rest. tokenize_command ''get a  b c'' 3
      = map word_token ws @ [\<lparr>tk_value = (if rest = [] then None else Some rest), tk_length = 0\<rparr>]
    \<and> spaced_words ''get a  b c'' = ws @ spaced_words rest"
proof -
  have "1 < (3 :: nat)" by simp
  from tokenize_command_exact [OF this, of "''get a  b c''"] show ?thesis by blast
qed

section \<open>Expiry times\<close>

definition REALTIME_MAXDELTA :: int where "REALTIME_MAXDELTA = 60 * 60 * 24 * 30"

text \<open>\<open>time_t\<close> is a 64-bit signed integer; the results are converted to 32 bits.\<close>

definition realtime :: "int \<Rightarrow> 'a mc_scheme \<Rightarrow> u32" where
  "realtime exptime s =
     (if exptime = 0 then 0
      else if REALTIME_MAXDELTA < exptime then
        (if exptime \<le> process_started s then 1 else word_of_int (exptime - process_started s))
      else word_of_int (exptime + uint (current_time s)))"

text \<open>
  Property C30.
  An expiry time in the past is not taken for none: a positive time gives a positive relative time,
  as long as the clock and the time fit 32 bits, and it is expired at once exactly when the time
  given, relative or absolute, is not after the current time (the process is at least a second old).
\<close>

theorem realtime_sound:
  assumes "0 < exptime" "uint (current_time s) + REALTIME_MAXDELTA < 2 ^ 32" "1 \<le> uint (current_time s)"
    and "exptime < process_started s + 2 ^ 32" "0 \<le> process_started s"
  shows "realtime exptime s \<noteq> 0 \<and> (realtime exptime s \<le> current_time s
    \<longleftrightarrow> REALTIME_MAXDELTA < exptime \<and> exptime \<le> process_started s + uint (current_time s))"
proof -
  have M: "REALTIME_MAXDELTA = 2592000" by (simp add: REALTIME_MAXDELTA_def)
  have u: "uint (word_of_int i :: u32) = i" if "0 \<le> i" "i < 2 ^ 32" for i
    using that by (simp add: uint_word_of_int)
  let ?early = "REALTIME_MAXDELTA < exptime \<and> exptime \<le> process_started s"
  have v: "uint (realtime exptime s) = (if ?early then 1
      else if REALTIME_MAXDELTA < exptime then exptime - process_started s else exptime + uint (current_time s))"
    using assms M unfolding realtime_def by (auto simp: u simp del: of_int_add of_int_diff)
  then have "uint (realtime exptime s) \<noteq> 0" using assms M by (auto split: if_splits)
  then have "realtime exptime s \<noteq> 0" by auto
  moreover have "realtime exptime s \<le> current_time s \<longleftrightarrow> REALTIME_MAXDELTA < exptime
       \<and> exptime \<le> process_started s + uint (current_time s)"
    unfolding word_le_def v using assms M by (auto split: if_splits)
  ultimately show ?thesis by simp
qed

definition clock_state :: mc where
  "clock_state = \<lparr>mem = \<lambda>_. zero_item, mallocs = [], current_time = 100, process_started = 1400000000,
     settings = settings_init, stats = stats_init\<rparr>"

theorem realtime_sound_witness:
  "realtime 1400000050 clock_state \<noteq> 0 \<and> realtime 1400000050 clock_state \<le> current_time clock_state"
  using realtime_sound [of 1400000050 clock_state] by (simp add: clock_state_def REALTIME_MAXDELTA_def)

end
