(* ===== verification/Store.thy ===== *)
theory Store
  imports Conn Requests Util
begin

text \<open>
  \<open>memcached.c\<close> and \<open>thread.c\<close>: the semantics of the storage commands (\<open>do_store_item\<close>) and of
  \<open>incr\<close> and \<open>decr\<close> (\<open>do_add_delta\<close>), run by a worker on the item with the lock of its key held.
\<close>

section \<open>The data of an item\<close>

text \<open>The C string at the beginning of a buffer.\<close>

definition cstr :: "string \<Rightarrow> string" where
  "cstr s = takeWhile (\<lambda>c. c \<noteq> CHR 0x00) s"

text \<open>\<open>memcpy(buf + off, bs, length bs)\<close>; a buffer shorter than \<open>off\<close> has arbitrary contents there.\<close>

definition write_at :: "nat \<Rightarrow> string \<Rightarrow> string \<Rightarrow> string" where
  "write_at off bs v = take off (v @ replicate (off - length v) (CHR 0x00)) @ bs @ drop (off + length bs) v"

text \<open>The \<open>nbytes\<close> bytes at \<open>ITEM_data\<close>.\<close>

definition item_nbytes :: "item \<Rightarrow> nat" where
  "item_nbytes i = nat (sint (it_nbytes i))"

definition item_data :: "item \<Rightarrow> string" where
  "item_data i = take (item_nbytes i) (it_value i)"

definition put_data :: "nat \<Rightarrow> string \<Rightarrow> item \<Rightarrow> item" where
  "put_data off bs i = i\<lparr>it_value := write_at off bs (it_value i)\<rparr>"

text \<open>\<open>(int) strtol(str, NULL, 10)\<close> and \<open>atoi\<close>; 0 when there is no number.\<close>

definition atoi :: "string \<Rightarrow> u32" where
  "atoi str = (case strtoll str of None \<Rightarrow> 0 | Some (v, _, _) \<Rightarrow> word_of_int v)"

section \<open>Storing\<close>

text \<open>The end of \<open>do_store_item\<close>: the references taken are released.\<close>

definition store_release :: "addr \<Rightarrow> addr \<Rightarrow> store_item_type \<Rightarrow> addr \<Rightarrow> 'a server_scheme
    \<Rightarrow> (store_item_type \<times> 'a server_scheme) option" where
  "store_release old_it new_it stored it s = do {
     s \<leftarrow> (if old_it \<noteq> NULL then do_item_remove old_it s else Some s);
     s \<leftarrow> (if new_it \<noteq> NULL then do_item_remove new_it s else Some s);
     Some (stored, if stored = STORED then upd_con (\<lambda>c. c\<lparr>cn_cas := ITEM_get_cas (mem s it)\<rparr>) s else s) }"

text \<open>The common end of the storing branches.\<close>

definition store_link :: "addr \<Rightarrow> addr \<Rightarrow> addr \<Rightarrow> u32 \<Rightarrow> 'a server_scheme
    \<Rightarrow> (store_item_type \<times> 'a server_scheme) option" where
  "store_link old_it new_it it hv s = do {
     s \<leftarrow> (if old_it \<noteq> NULL then item_replace old_it it hv s else do_item_link it hv s);
     let s = upd_con (\<lambda>c. c\<lparr>cn_cas := ITEM_get_cas (mem s it)\<rparr>) s;
     store_release old_it new_it STORED it s }"

text \<open>The item that holds the old and the new data.\<close>

definition combined_data :: "int \<Rightarrow> item \<Rightarrow> item \<Rightarrow> item \<Rightarrow> item" where
  "combined_data comm old new i = (if comm = NREAD_APPEND
     then put_data (item_nbytes old - 2) (item_data new) (put_data 0 (item_data old) i)
     else put_data (item_nbytes new - 2) (item_data old) (put_data 0 (item_data new) i))"

definition store_cas :: "addr \<Rightarrow> addr \<Rightarrow> u32 \<Rightarrow> 'a server_scheme
    \<Rightarrow> (store_item_type \<times> 'a server_scheme) option" where
  "store_cas old_it it hv s =
     (if old_it = NULL then
        store_release old_it NULL NOT_FOUND it (upd_tstats (\<lambda>t. t\<lparr>cas_misses := cas_misses t + 1\<rparr>) s)
      else if ITEM_get_cas (mem s it) = ITEM_get_cas (mem s old_it) then do {
        let s = upd_slab_stats (it_slabs_clsid (mem s old_it)) (\<lambda>t. t\<lparr>cas_hits := cas_hits t + 1\<rparr>) s;
        s \<leftarrow> item_replace old_it it hv s;
        store_release old_it NULL STORED it s }
      else store_release old_it NULL EXISTS it
        (upd_slab_stats (it_slabs_clsid (mem s old_it)) (\<lambda>t. t\<lparr>cas_badval := cas_badval t + 1\<rparr>) s))"

definition store_combined :: "int \<Rightarrow> addr \<Rightarrow> addr \<Rightarrow> u32 \<Rightarrow> 'a server_scheme
    \<Rightarrow> (store_item_type \<times> 'a server_scheme) option" where
  "store_combined comm old_it it hv s =
     (if ITEM_get_cas (mem s it) \<noteq> 0 \<and> ITEM_get_cas (mem s it) \<noteq> ITEM_get_cas (mem s old_it)
      then store_release old_it NULL EXISTS it s
      else do {
        let flags = atoi (it_suffix (mem s old_it));
        (new_it, s) \<leftarrow> do_item_alloc (ITEM_key (mem s it)) flags (it_exptime (mem s old_it))
            (it_nbytes (mem s it) + it_nbytes (mem s old_it) - 2) hv s;
        if new_it = NULL then do {
          s \<leftarrow> (if old_it \<noteq> NULL then do_item_remove old_it s else Some s);
          Some (NOT_STORED, s) }
        else store_link old_it new_it new_it hv
          (upd_item new_it (combined_data comm (mem s old_it) (mem s it)) s) })"

definition do_store_item :: "addr \<Rightarrow> int \<Rightarrow> u32 \<Rightarrow> 'a server_scheme \<Rightarrow> (store_item_type \<times> 'a server_scheme) option" where
  "do_store_item it comm hv s = do {
     (old_it, s) \<leftarrow> do_item_get (ITEM_key (mem s it)) hv s;
     if old_it \<noteq> NULL \<and> comm = NREAD_ADD then do {
       s \<leftarrow> do_item_update old_it s;
       store_release old_it NULL NOT_STORED it s }
     else if old_it = NULL \<and> (comm = NREAD_REPLACE \<or> comm = NREAD_APPEND \<or> comm = NREAD_PREPEND)
     then store_release old_it NULL NOT_STORED it s
     else if comm = NREAD_CAS then store_cas old_it it hv s
     else if comm = NREAD_APPEND \<or> comm = NREAD_PREPEND then store_combined comm old_it it hv s
     else store_link old_it NULL it hv s }"

definition store_item :: "addr \<Rightarrow> int \<Rightarrow> 'a server_scheme \<Rightarrow> (store_item_type \<times> 'a server_scheme) option" where
  "store_item it comm s = (let hv = hash_key (ITEM_key (mem s it)) in do {
     s \<leftarrow> item_lock hv s;
     (ret, s) \<leftarrow> do_store_item it comm hv s;
     s \<leftarrow> item_unlock hv s;
     Some (ret, s) })"

section \<open>Increment and decrement\<close>

definition add_delta_value :: "bool \<Rightarrow> u64 \<Rightarrow> u64 \<Rightarrow> u64" where
  "add_delta_value incr delta value = (if incr then value + delta else if value < delta then 0 else value - delta)"

text \<open>
  The results are what is returned, the text written to \<open>buf\<close> if it was written, and the new value
  of \<open>*cas\<close>, where \<open>cas = None\<close> is a null pointer. The suffix of an item is followed by its data, so
  the number in it ends at a space.
\<close>

type_synonym 'a delta_result = "(delta_result_type \<times> string \<times> u64 option \<times> 'a server_scheme) option"

text \<open>The new number in a new item, which replaces the old one.\<close>

definition delta_realloc :: "addr \<Rightarrow> string \<Rightarrow> u64 option \<Rightarrow> u32 \<Rightarrow> 'a server_scheme \<Rightarrow> 'a delta_result" where
  "delta_realloc it buf cas hv s = (let i = mem s it; res = length buf in do {
     (new_it, s) \<leftarrow> do_item_alloc (ITEM_key i) (atoi (drop 1 (it_suffix i))) (it_exptime i) (of_nat (res + 2)) hv s;
     if new_it = NULL then do {
       s \<leftarrow> do_item_remove it s;
       Some (EOM, buf, cas, s) }
     else do {
       let s = upd_item new_it (put_data res crlf \<circ> put_data 0 buf) s;
       s \<leftarrow> item_replace it new_it hv s;
       let s = upd_item it (ITEM_set_cas (if use_cas (settings s) then ITEM_get_cas (mem s new_it) else 0)) s;
       s \<leftarrow> do_item_remove new_it s;
       let cas = map_option (\<lambda>_. ITEM_get_cas (mem s it)) cas;
       s \<leftarrow> do_item_remove it s;
       Some (OK, buf, cas, s) } })"

text \<open>The new number in the old item, padded with spaces.\<close>

definition delta_in_place :: "addr \<Rightarrow> string \<Rightarrow> u64 option \<Rightarrow> 'a server_scheme \<Rightarrow> 'a delta_result" where
  "delta_in_place it buf cas s = do {
     let pad = item_nbytes (mem s it) - length buf - 2;
     let s = set_new_cas it s;
     let s = upd_item it (put_data (length buf) (replicate pad (CHR '' '')) \<circ> put_data 0 buf) s;
     s \<leftarrow> do_item_update it s;
     let cas = map_option (\<lambda>_. ITEM_get_cas (mem s it)) cas;
     s \<leftarrow> do_item_remove it s;
     Some (OK, buf, cas, s) }"

definition count_delta :: "bool \<Rightarrow> addr \<Rightarrow> 'a server_scheme \<Rightarrow> 'a server_scheme" where
  "count_delta incr it s = upd_slab_stats (it_slabs_clsid (mem s it))
     (\<lambda>t. if incr then t\<lparr>incr_hits := incr_hits t + 1\<rparr> else t\<lparr>decr_hits := decr_hits t + 1\<rparr>) s"

definition do_add_delta :: "string \<Rightarrow> bool \<Rightarrow> u64 \<Rightarrow> u64 option \<Rightarrow> u32 \<Rightarrow> 'a server_scheme \<Rightarrow> 'a delta_result" where
  "do_add_delta key incr delta cas hv s = do {
     (it, s) \<leftarrow> do_item_get key hv s;
     if it = NULL then Some (DELTA_ITEM_NOT_FOUND, [], cas, s)
     else if (case cas of None \<Rightarrow> False | Some v \<Rightarrow> v \<noteq> 0 \<and> ITEM_get_cas (mem s it) \<noteq> v) then do {
       s \<leftarrow> do_item_remove it s;
       Some (DELTA_ITEM_CAS_MISMATCH, [], cas, s) }
     else (case safe_strtoull (cstr (it_value (mem s it))) of
       (False, _) \<Rightarrow> do {
         s \<leftarrow> do_item_remove it (errno_safe (strtoull (cstr (it_value (mem s it)))) s);
         Some (NON_NUMERIC, [], cas, s) }
     | (True, value) \<Rightarrow> (let
         s = count_delta incr it (errno_safe (strtoull (cstr (it_value (mem s it)))) s);
         buf = dec (unat (add_delta_value incr delta value)) in
         if sint (it_nbytes (mem s it)) < int (length buf) + 2 \<or> it_refcount (mem s it) \<noteq> 1
         then delta_realloc it buf cas hv s else delta_in_place it buf cas s)) }"

definition add_delta :: "string \<Rightarrow> bool \<Rightarrow> u64 \<Rightarrow> u64 option \<Rightarrow> 'a server_scheme \<Rightarrow> 'a delta_result" where
  "add_delta key incr delta cas s = (let hv = hash_key key in do {
     s \<leftarrow> item_lock hv s;
     (ret, buf, cas, s) \<leftarrow> do_add_delta key incr delta cas hv s;
     s \<leftarrow> item_unlock hv s;
     Some (ret, buf, cas, s) })"

section \<open>The cache invariant and the rest of the server\<close>

lemma upd_server_fields [simp]:
  "mem (upd_con f s) = mem s" "settings (upd_con f s) = settings s" "current_time (upd_con f s) = current_time s"
  "mem (upd_tstats g s) = mem s" "settings (upd_tstats g s) = settings s"
  "current_time (upd_tstats g s) = current_time s"
  "mem (upd_slab_stats c h s) = mem s" "settings (upd_slab_stats c h s) = settings s"
  "current_time (upd_slab_stats c h s) = current_time s"
  by (simp_all add: upd_con_def upd_tstats_def upd_slab_stats_def Let_def)

text \<open>The cache does not depend on the connection and the counters.\<close>

lemma cache_rel_server:
  assumes "cache_rel s m lru fl refs"
  shows "cache_rel (upd_con f s) m lru fl refs" "cache_rel (upd_tstats g s) m lru fl refs"
    "cache_rel (upd_slab_stats c h s) m lru fl refs"
proof -
  have eq: "same_tables s (upd_con f s)" "same_tables s (upd_tstats g s)" for f g
    by (simp_all add: same_tables_def upd_con_def upd_tstats_def Let_def)
  have lv: "live (upd_con f s) p l r = live s p l r" "live (upd_tstats g s) p l r = live s p l r" for f g p l r
    by (simp_all add: live_def valid_class_def) (simp_all add: upd_con_def upd_tstats_def Let_def)
  have sl: "slabs_rel (upd_con f s) fl = slabs_rel s fl" "slabs_rel (upd_tstats g s) fl = slabs_rel s fl" for f g
    by (simp_all add: slabs_rel_def freelist_def) (simp_all add: upd_con_def upd_tstats_def Let_def)
  show c: "cache_rel (upd_con f s) m lru fl refs"
    by (rule cache_rel_cong [OF assms eq(1)]) (simp_all add: lv sl cache_relD(2,5) [OF assms])
  show t: "cache_rel (upd_tstats g s) m lru fl refs" for g
    by (rule cache_rel_cong [OF assms eq(2)]) (simp_all add: lv sl cache_relD(2,5) [OF assms])
  show "cache_rel (upd_slab_stats c h s) m lru fl refs" unfolding upd_slab_stats_def by (rule t)
qed

lemma store_release_null: "store_release NULL NULL r it s =
    Some (r, if r = STORED then upd_con (\<lambda>c. c\<lparr>cn_cas := ITEM_get_cas (mem s it)\<rparr>) s else s)"
  by (simp add: store_release_def)

lemma store_release_old:
  assumes R: "cache_rel s m lru fl (refs(q := refs q + 1))" and p: "p \<noteq> q" "0 < refs p"
  shows "\<exists>t fl'. store_release q NULL r it s = Some (r, t) \<and> cache_rel t m lru fl' refs
     \<and> it_value (mem t p) = it_value (mem s p)"
proof -
  let ?c = "unat (it_slabs_clsid (mem s q))"
  have q: "0 < (refs(q := refs q + 1)) q" by simp
  have e: "(refs(q := refs q + 1))(q := (refs(q := refs q + 1)) q - 1) = refs" by (simp add: fun_eq_iff)
  from do_item_remove_rel [OF R q, unfolded e] obtain t fl' where t: "do_item_remove q s = Some t"
    "mem_frame (insert q (set (fl ?c))) s t" "cache_rel t m lru fl' refs" by blast
  have "q \<noteq> NULL" using cache_relD(5) [OF R, of q] by (simp add: live_def)
  moreover have "p \<notin> set (fl ?c)" using cache_rel_not_free [OF R, of p] p by simp
  then have "mem t p = mem s p" using t(2) p(1) by (simp add: mem_frame_def)
  ultimately show ?thesis using t(1) cache_rel_server(1) [OF t(3)] t(3)
    by (intro exI [of _ "if r = STORED then upd_con (\<lambda>c. c\<lparr>cn_cas := ITEM_get_cas (mem t it)\<rparr>) t else t"]
        exI [of _ fl']) (simp add: store_release_def)
qed

section \<open>The storage commands\<close>

text \<open>The item that a command finds under a key, and what the protocol says the answer is.\<close>

definition found_at :: "(string \<rightharpoonup> addr) \<Rightarrow> string \<Rightarrow> 'a items_scheme \<Rightarrow> addr option" where
  "found_at m k s = (case m k of None \<Rightarrow> None | Some q \<Rightarrow> if item_dead q s then None else Some q)"

definition store_answer :: "int \<Rightarrow> (addr \<Rightarrow> bool) \<Rightarrow> addr option \<Rightarrow> store_item_type" where
  "store_answer comm same_cas old = (case old of
     None \<Rightarrow> if comm = NREAD_CAS then NOT_FOUND else if comm = NREAD_REPLACE then NOT_STORED else STORED
   | Some q \<Rightarrow> if comm = NREAD_ADD then NOT_STORED
       else if comm = NREAD_CAS then (if same_cas q then STORED else EXISTS) else STORED)"

text \<open>No item found: the key is free when the rest of the command runs.\<close>

lemma store_none:
  assumes R: "cache_rel s m lru fl refs" and free: "m k = None" "p \<notin> ran m"
    and p: "0 < refs p" "refs p + 1 < 65536" "key_ok (mem s p)" "key_at s p = k"
    and comm: "comm \<in> {NREAD_ADD, NREAD_SET, NREAD_REPLACE, NREAD_CAS}"
  shows "\<exists>t lru'. (if comm = NREAD_REPLACE then store_release NULL NULL NOT_STORED p s
       else if comm = NREAD_CAS then store_cas NULL p (hash_key k) s else store_link NULL NULL p (hash_key k) s)
     = Some (store_answer comm c None, t)
     \<and> cache_rel t (if store_answer comm c None = STORED then m(k \<mapsto> p) else m) lru' fl refs
     \<and> it_value (mem t p) = it_value (mem s p)"
proof (cases "comm = NREAD_ADD \<or> comm = NREAD_SET")
  case True
  have "m (key_at s p) = None" using free(1) p(4) by simp
  from do_item_link_rel [OF R this free(2) p(1-3)] p(4) obtain t lru' where t: "do_item_link p (hash_key k) s = Some t"
    "cache_rel t (m(k \<mapsto> p)) lru' fl refs" "it_value (mem t p) = it_value (mem s p)" by auto
  then show ?thesis using True cache_rel_server(1) [OF cache_rel_server(1) [OF t(2)]]
    by (auto simp: store_link_def store_release_null store_answer_def nread_defs)
next
  case False
  then show ?thesis using comm R cache_rel_server(2) [OF R]
    by (auto simp: store_cas_def store_release_null store_answer_def nread_defs)
qed

text \<open>Replacing the item found, and releasing it.\<close>

lemma item_replace_ref:
  assumes R: "cache_rel s m lru fl (refs(q := refs q + 1))" and k: "m k = Some q" "refs q + 2 < 65536"
    and p: "p \<notin> ran m" "0 < refs p" "refs p + 1 < 65536" "key_ok (mem s p)" "key_at s p = k"
  shows "\<exists>u lru' fl'. item_replace q p (hash_key k) s = Some u
     \<and> cache_rel u (m(k \<mapsto> p)) lru' fl' (refs(q := refs q + 1)) \<and> it_value (mem u p) = it_value (mem s p)"
proof -
  have ne: "p \<noteq> q" using p(1) k(1) by (auto simp: ran_def)
  then have "(refs(q := refs q + 1)) q + 1 < 65536" "0 < (refs(q := refs q + 1)) p"
    "(refs(q := refs q + 1)) p + 1 < 65536" using k(2) p(2,3) by simp_all
  from do_item_replace_rel [OF R k(1) this(1) p(1) this(2,3) p(4,5)] show ?thesis
    unfolding item_replace_def by blast
qed

lemma do_item_update_keeps:
  assumes R: "cache_rel s m lru fl refs" and q: "q \<in> ran m \<or> 0 < refs q"
  shows "\<exists>u lru'. do_item_update q s = Some u \<and> cache_rel u m lru' fl refs"
  using do_item_update_rel [OF R q] R by (cases "stale q s \<and> q \<in> ran m") auto

text \<open>An item found: the branch that runs.\<close>

lemma store_some:
  assumes R: "cache_rel s m lru fl (refs(q := refs q + 1))" and k: "m k = Some q" "refs q + 2 < 65536"
    and p: "p \<notin> ran m" "0 < refs p" "refs p + 1 < 65536" "key_ok (mem s p)" "key_at s p = k"
    and comm: "comm \<in> {NREAD_ADD, NREAD_SET, NREAD_REPLACE, NREAD_CAS}"
    and same: "same q \<longleftrightarrow> ITEM_get_cas (mem s p) = ITEM_get_cas (mem s q)"
  shows "\<exists>t lru' fl'. (if comm = NREAD_ADD then Option.bind (do_item_update q s) (store_release q NULL NOT_STORED p)
       else if comm = NREAD_CAS then store_cas q p (hash_key k) s else store_link q NULL p (hash_key k) s)
     = Some (store_answer comm same (Some q), t)
     \<and> cache_rel t (if store_answer comm same (Some q) = STORED then m(k \<mapsto> p) else m) lru' fl' refs
     \<and> (store_answer comm same (Some q) = STORED \<longrightarrow> it_value (mem t p) = it_value (mem s p))"
proof -
  have ne: "p \<noteq> q" using p(1) k(1) by (auto simp: ran_def)
  have qn: "q \<noteq> NULL" using cache_relD(5) [OF R, of q] by (simp add: live_def)
  have nn: "NREAD_ADD \<noteq> NREAD_CAS" by (simp add: nread_defs)
  note rel = store_release_old [where p = p and q = q and refs = refs, OF _ ne p(2)]
  consider (add) "comm = NREAD_ADD" | (cas) "comm = NREAD_CAS" "same q" | (exist) "comm = NREAD_CAS" "\<not> same q"
    | (set) "comm = NREAD_SET \<or> comm = NREAD_REPLACE" using comm by blast
  then show ?thesis
  proof cases
    case add
    have "q \<in> ran m \<or> 0 < (refs(q := refs q + 1)) q" by simp
    from do_item_update_keeps [OF R this] obtain u lru' where u: "do_item_update q s = Some u"
      "cache_rel u m lru' fl (refs(q := refs q + 1))" by blast
    from rel [OF u(2), of NOT_STORED p] obtain t fl' where "store_release q NULL NOT_STORED p u = Some (NOT_STORED, t)"
      "cache_rel t m lru' fl' refs" by blast
    with u(1) add show ?thesis by (intro exI [of _ t] exI [of _ lru'] exI [of _ fl']) (simp add: store_answer_def)
  next
    case cas
    let ?s = "upd_slab_stats (it_slabs_clsid (mem s q)) (\<lambda>t. t\<lparr>cas_hits := cas_hits t + 1\<rparr>) s"
    have R': "cache_rel ?s m lru fl (refs(q := refs q + 1))" by (rule cache_rel_server(3) [OF R])
    from item_replace_ref [OF R' k p(1-3)] p(4,5) obtain u lru' fl' where u: "item_replace q p (hash_key k) ?s = Some u"
      "cache_rel u (m(k \<mapsto> p)) lru' fl' (refs(q := refs q + 1))" "it_value (mem u p) = it_value (mem s p)" by auto
    from rel [OF u(2), of STORED] obtain t fl'' where t: "store_release q NULL STORED p u = Some (STORED, t)"
      "cache_rel t (m(k \<mapsto> p)) lru' fl'' refs" "it_value (mem t p) = it_value (mem u p)" by blast
    have "store_cas q p (hash_key k) s = Some (STORED, t)" using cas same qn u(1) t(1) by (simp add: store_cas_def)
    then show ?thesis using cas nn t(2,3) u(3) by (auto simp: store_answer_def)
  next
    case exist
    let ?s = "upd_slab_stats (it_slabs_clsid (mem s q)) (\<lambda>t. t\<lparr>cas_badval := cas_badval t + 1\<rparr>) s"
    have R': "cache_rel ?s m lru fl (refs(q := refs q + 1))" by (rule cache_rel_server(3) [OF R])
    from rel [OF R', of EXISTS p] obtain t fl' where "store_release q NULL EXISTS p ?s = Some (EXISTS, t)"
      "cache_rel t m lru fl' refs" by blast
    with exist same qn nn show ?thesis
      by (intro exI [of _ t] exI [of _ lru] exI [of _ fl']) (simp add: store_cas_def store_answer_def)
  next
    case set
    from item_replace_ref [OF R k p] obtain u lru' fl' where u: "item_replace q p (hash_key k) s = Some u"
      "cache_rel u (m(k \<mapsto> p)) lru' fl' (refs(q := refs q + 1))" "it_value (mem u p) = it_value (mem s p)" by blast
    let ?u = "upd_con (\<lambda>c. c\<lparr>cn_cas := ITEM_get_cas (mem u p)\<rparr>) u"
    from rel [OF cache_rel_server(1) [OF u(2)], of STORED p "\<lambda>c. c\<lparr>cn_cas := ITEM_get_cas (mem u p)\<rparr>"]
    obtain t fl'' where t: "store_release q NULL STORED p ?u = Some (STORED, t)"
      "cache_rel t (m(k \<mapsto> p)) lru' fl'' refs" "it_value (mem t p) = it_value (mem u p)" by auto
    have "store_link q NULL p (hash_key k) s = Some (STORED, t)" using qn u(1) t(1) by (simp add: store_link_def)
    then show ?thesis using set t(2,3) u(3) by (auto simp: store_answer_def nread_defs)
  qed
qed

text \<open>The command after the lookup.\<close>

lemma do_store_item_step:
  assumes "do_item_get (key_at s p) hv s = Some (old, u)" "comm \<in> {NREAD_ADD, NREAD_SET, NREAD_REPLACE, NREAD_CAS}"
  shows "do_store_item p comm hv s = (if old = NULL then
       (if comm = NREAD_REPLACE then store_release NULL NULL NOT_STORED p u
        else if comm = NREAD_CAS then store_cas NULL p hv u else store_link NULL NULL p hv u)
     else (if comm = NREAD_ADD then Option.bind (do_item_update old u) (store_release old NULL NOT_STORED p)
        else if comm = NREAD_CAS then store_cas old p hv u else store_link old NULL p hv u))"
  using assms by (auto simp: do_store_item_def nread_defs)

text \<open>A lookup that finds nothing leaves the key free.\<close>

lemma do_item_get_none:
  assumes R: "cache_rel s m lru fl refs" and b: "\<And>q. m k = Some q \<Longrightarrow> refs q + 2 < 65536"
    and none: "found_at m k s = None" and p: "p \<notin> ran m" "0 < refs p"
  shows "\<exists>u lru' fl'. do_item_get k (hash_key k) s = Some (NULL, u) \<and> cache_rel u (m(k := None)) lru' fl' refs
    \<and> unlinked_view (mem u p) = unlinked_view (mem s p)"
proof (cases "m k")
  case None
  then have "m(k := None) = m" by auto
  then show ?thesis using do_item_get_rel [OF R b, of k, unfolded None option.case] R by auto
next
  case (Some q)
  then have d: "item_dead q s" using none by (auto simp: found_at_def split: if_splits)
  have "p \<noteq> q" using p(1) Some by (auto simp: ran_def)
  moreover have "p \<notin> set (fl c)" for c using cache_rel_not_free [OF R, of p c] p(2) by simp
  moreover from do_item_get_rel [OF R b, of k, unfolded Some option.case] d obtain u where
    "do_item_get k (hash_key k) s = Some (NULL, u)"
    "others_kept q (set (fl (unat (it_slabs_clsid (mem s q))))) s u"
    "\<exists>lru' fl'. cache_rel u (m(k := None)) lru' fl' refs" by auto
  ultimately show ?thesis by (auto simp: others_kept_def)
qed

text \<open>
  Property C2.
  The storage commands: \<open>add\<close> stores only under a free key, \<open>replace\<close> only over a stored one,
  \<open>cas\<close> only over an item whose CAS number is the given one, \<open>set\<close> always; an item that is flushed
  or expired counts as absent and is removed. The answer is the protocol's, the key then maps to the
  new item with its value exactly when the answer is \<open>STORED\<close>, the other keys are as they were,
  and every reference taken on the way is given back.
\<close>

theorem do_store_item_semantics:
  assumes R: "cache_rel s m lru fl refs" and p: "p \<notin> ran m" "0 < refs p" "refs p + 1 < 65536" "key_ok (mem s p)"
    and bounds: "\<forall>q. m (key_at s p) = Some q \<longrightarrow> refs q + 2 < 65536"
    and comm: "comm \<in> {NREAD_ADD, NREAD_SET, NREAD_REPLACE, NREAD_CAS}"
  shows "\<exists>t lru' fl' r. do_store_item p comm (hash_key (key_at s p)) s = Some (r, t)
     \<and> r = store_answer comm (\<lambda>q. ITEM_get_cas (mem s p) = ITEM_get_cas (mem s q)) (found_at m (key_at s p) s)
     \<and> cache_rel t (if r = STORED then m(key_at s p \<mapsto> p)
         else if found_at m (key_at s p) s = None then m(key_at s p := None) else m) lru' fl' refs
     \<and> (r = STORED \<longrightarrow> it_value (mem t p) = it_value (mem s p))"
proof -
  let ?k = "key_at s p" and ?same = "\<lambda>q. ITEM_get_cas (mem s p) = ITEM_get_cas (mem s q)"
  have b: "\<And>q. m ?k = Some q \<Longrightarrow> refs q + 2 < 65536" using bounds by blast
  show ?thesis
  proof (cases "found_at m ?k s")
    case None
    from do_item_get_none [OF R b None p(1,2)] obtain u lru' fl' where u: "do_item_get ?k (hash_key ?k) s = Some (NULL, u)"
      "cache_rel u (m(?k := None)) lru' fl' refs" "unlinked_view (mem u p) = unlinked_view (mem s p)" by blast
    note v = unlinked_view_key(1,2) [OF u(3)] unlinked_view_eqD(12) [OF u(3)]
    have nr: "p \<notin> ran (m(?k := None))" using p(1) by (auto simp: ran_def split: if_splits)
    have kp: "(m(?k := None)) ?k = None" "key_ok (mem u p)" "key_at u p = ?k" using v p(4) by simp_all
    note S = do_store_item_step [OF u(1) comm, unfolded simp_thms if_True]
    from store_none [OF u(2) kp(1) nr p(2,3) kp(2,3) comm, of ?same, unfolded v fun_upd_upd, folded S]
    show ?thesis by (simp only: None simp_thms if_True) blast
  next
    case (Some q)
    then have q: "m ?k = Some q" "\<not> item_dead q s" by (auto simp: found_at_def split: option.splits if_splits)
    have ne: "p \<noteq> q" using p(1) q(1) by (auto simp: ran_def)
    from do_item_get_rel [OF R b, of ?k, unfolded q(1) option.case] q(2) obtain u where u: "do_item_get ?k (hash_key ?k) s = Some (q, u)"
      "cache_rel u m lru fl (refs(q := refs q + 1))"
      "mem u = (mem s)(q := (set_flag ITEM_FETCHED (mem s q))\<lparr>it_refcount := it_refcount (mem s q) + 1\<rparr>)" by auto
    have mp: "mem u p = mem s p" using u(3) ne by simp
    have cas: "ITEM_get_cas (mem u q) = ITEM_get_cas (mem s q)"
      using set_flag_simps(6) [of "mem s q"]
      by (simp add: u(3) ITEM_get_cas_def has_flag_def set_flag_def)
    have qn: "(q = NULL) = False" using cache_relD(5) [OF u(2), of q] by (simp add: live_def)
    have kp: "key_ok (mem u p)" "key_at u p = ?k" using mp p(4) by simp_all
    have same: "?same q \<longleftrightarrow> ITEM_get_cas (mem u p) = ITEM_get_cas (mem u q)" by (simp only: mp cas)
    note S = do_store_item_step [OF u(1) comm, unfolded qn if_False]
    from store_some [OF u(2) q(1) b [OF q(1)] p(1-3) kp comm, of ?same, OF same, unfolded mp, folded S]
    show ?thesis by (simp only: Some option.distinct if_False) blast
  qed
qed

section \<open>Examples\<close>

definition boot_suffixes :: cache where
  "boot_suffixes = \<lparr>c_name = ''suffix'', c_ptr = replicate 64 NULL, c_bufsize = 40, c_freetotal = 64,
     c_freecurr = 0, c_constructor = None, c_destructor = None, c_heap = (\<lambda>_. 0), c_mallocs = [], c_freed = []\<rparr>"

definition server_boot :: server where
  "server_boot = access_boot (server.fields (zero_conn []) [zero_thread_stats] prefix_boot boot_suffixes [] 200
     True [] [] None False)"

lemma server_boot_rel: "cache_rel server_boot Map.empty (\<lambda>_. []) (\<lambda>_. []) boot_refs"
  unfolding server_boot_def by (rule access_boot_rel)

theorem do_store_item_semantics_witness:
  "\<exists>t. do_store_item 2000 NREAD_SET (hash_key ''k'') server_boot = Some (STORED, t)
     \<and> it_value (mem t 2000) = ''41'' @ crlf
     \<and> (\<exists>lru fl. cache_rel t [''k'' \<mapsto> 2000] lru fl boot_refs)"
proof -
  note f = access_boot_fields [where r = "server.fields (zero_conn []) [zero_thread_stats] prefix_boot boot_suffixes
    [] 200 True [] [] None False", folded server_boot_def]
  have a: "store_answer NREAD_SET g None = STORED" for g by (simp add: store_answer_def nread_defs)
  have n: "found_at Map.empty k s = None" for k s by (simp add: found_at_def)
  have "(2000 :: addr) \<notin> ran Map.empty" "0 < boot_refs 2000" "boot_refs 2000 + 1 < 65536"
    "\<forall>q. Map.empty (key_at server_boot 2000) = Some q \<longrightarrow> boot_refs q + 2 < 65536"
    "NREAD_SET \<in> {NREAD_ADD, NREAD_SET, NREAD_REPLACE, NREAD_CAS}" by simp_all
  from do_store_item_semantics [OF server_boot_rel this(1-3) f(2) this(4,5), unfolded f(1) n a]
  obtain t lru fl r where t: "do_store_item 2000 NREAD_SET (hash_key ''k'') server_boot = Some (r, t)" "r = STORED"
    "cache_rel t (if r = STORED then [''k'' \<mapsto> 2000] else if None = (None :: addr option) then Map.empty(''k'' := None) else Map.empty) lru fl boot_refs"
    "r = STORED \<longrightarrow> it_value (mem t 2000) = it_value (mem server_boot 2000)" by (elim exE conjE) (rule that, assumption+)
  then have "cache_rel t [''k'' \<mapsto> 2000] lru fl boot_refs" "it_value (mem t 2000) = ''41'' @ crlf"
    using f(7) by (simp_all only: refl if_True simp_thms crlf_def)
  with t(1,2) show ?thesis by blast
qed

section \<open>Counters\<close>

text \<open>The references to an item that a lookup has just returned.\<close>

lemma found_refcount:
  assumes R: "cache_rel s m lru fl refs" and q: "m k = Some q" "\<not> item_dead q s" "refs q + 2 < 65536"
  shows "\<exists>u. do_item_get k (hash_key k) s = Some (q, u) \<and> cache_rel u m lru fl (refs(q := refs q + 1))
    \<and> unat (it_refcount (mem u q)) = refs q + 2 \<and> ITEM_key (mem u q) = k
    \<and> it_value (mem u q) = it_value (mem s q) \<and> it_suffix (mem u q) = it_suffix (mem s q)
    \<and> it_exptime (mem u q) = it_exptime (mem s q) \<and> it_slabs_clsid (mem u q) = it_slabs_clsid (mem s q)"
proof -
  have b: "\<And>p. m k = Some p \<Longrightarrow> refs p + 2 < 65536" using q(1,3) by simp
  from do_item_get_rel [OF R b, of k, unfolded q(1) option.case] q(2) obtain u where
    u: "do_item_get k (hash_key k) s = Some (q, u)" "cache_rel u m lru fl (refs(q := refs q + 1))"
    "mem u = (mem s)(q := (set_flag ITEM_FETCHED (mem s q))\<lparr>it_refcount := it_refcount (mem s q) + 1\<rparr>)" by auto
  have "q \<in> ran m" using q(1) by (auto simp: ran_def)
  then have "it_refcount (mem u q) = of_nat (refs q + 2)"
    using cache_relD(5) [OF u(2), of q] by (simp add: live_def)
  moreover have "unat (of_nat (refs q + 2) :: u16) = refs q + 2"
    unfolding unsigned_of_nat using q(3) by (simp add: take_bit_nat_eq_self)
  ultimately have "unat (it_refcount (mem u q)) = refs q + 2" by (simp only:)
  moreover have "ITEM_key (mem u q) = k" using assoc_relD(5) [OF cache_relD(1) [OF u(2)] q(1)] by simp
  ultimately show ?thesis using u by (auto simp: set_flag_def)
qed

text \<open>
  A counter is never updated in place: the test \<open>refcount != 1\<close> of \<open>do_add_delta\<close> counts the
  reference that the lookup has just taken on top of the one of the table, so it always holds.
  Every \<open>incr\<close> and \<open>decr\<close> of a number allocates a new item, also when the new number fits into
  the old one.
\<close>

theorem counter_never_in_place:
  assumes R: "cache_rel s m lru fl refs" and q: "m k = Some q" "\<not> item_dead q s" "refs q + 2 < 65536"
    and num: "safe_strtoull (cstr (it_value (mem s q))) = (True, v)"
  shows "\<exists>u. do_item_get k (hash_key k) s = Some (q, u) \<and> do_add_delta k incr delta None (hash_key k) s
    = delta_realloc q (dec (unat (add_delta_value incr delta v))) None (hash_key k)
      (count_delta incr q (u\<lparr>errno_range := False\<rparr>))"
proof -
  from found_refcount [OF R q] obtain u where u: "do_item_get k (hash_key k) s = Some (q, u)"
    "cache_rel u m lru fl (refs(q := refs q + 1))" "unat (it_refcount (mem u q)) = refs q + 2"
    "it_value (mem u q) = it_value (mem s q)" by blast
  have "q \<noteq> NULL" using cache_relD(5) [OF u(2), of q] by (simp add: live_def)
  moreover have "it_refcount (mem u q) \<noteq> 1" using u(3) by auto
  moreover have "errno_safe (strtoull (cstr (it_value (mem s q)))) u = u\<lparr>errno_range := False\<rparr>"
    using num by (auto simp: safe_strtoull_def errno_safe_def split: option.splits if_splits)
  moreover have "mem (count_delta incr q (u\<lparr>errno_range := False\<rparr>)) = mem u" by (simp add: count_delta_def)
  ultimately show ?thesis using u(1,4) num by (simp add: do_add_delta_def Let_def)
qed

text \<open>
  The arithmetic of counters: \<open>incr\<close> adds modulo 2 to the power 64, \<open>decr\<close> subtracts and stops at
  zero, and the text written back is parsed as exactly the number it stands for.
\<close>

theorem counter_arithmetic:
  "unat (add_delta_value True delta v) = (unat v + unat delta) mod 2 ^ 64
   \<and> unat (add_delta_value False delta v) = unat v - unat delta
   \<and> safe_strtoull (dec (unat (add_delta_value incr delta v)) @ crlf) = (True, add_delta_value incr delta v)"
proof -
  let ?w = "add_delta_value incr delta v"
  have "unat (v - delta) = unat v - unat delta" if "\<not> v < delta"
    using that by (simp add: unat_sub not_less)
  then have "unat (add_delta_value False delta v) = unat v - unat delta"
    by (auto simp: add_delta_value_def word_less_nat_alt)
  moreover have "unat (add_delta_value True delta v) = (unat v + unat delta) mod 2 ^ 64"
    by (simp add: add_delta_value_def unat_word_ariths)
  moreover have "safe_strtoull (dec (unat ?w) @ crlf) = (True, ?w)"
    using safe_strtoull_dec [of "unat ?w" crlf] unsigned_less [of ?w]
    by (simp add: crlf_def ends_number_def isspace_def)
  ultimately show ?thesis by simp
qed

theorem counter_never_in_place_witness:
  "\<exists>s u. item_link 2000 server_boot = Some s \<and> do_item_get ''k'' (hash_key ''k'') s = Some (2000, u)
     \<and> do_add_delta ''k'' True 1 None (hash_key ''k'') s
       = delta_realloc 2000 (dec (unat (add_delta_value True 1 41))) None (hash_key ''k'')
         (count_delta True 2000 (u\<lparr>errno_range := False\<rparr>))"
proof -
  obtain s lru where s: "item_link 2000 server_boot = Some s"
    "cache_rel s [''k'' \<mapsto> 2000] lru (\<lambda>_. []) boot_refs" "\<not> item_dead 2000 s"
    "it_value (mem s 2000) = ''41'' @ [CHR 0x0D, CHR 0x0A]"
    using access_linked [where r = "server.fields (zero_conn []) [zero_thread_stats] prefix_boot boot_suffixes
      [] 200 True [] [] None False", folded server_boot_def] by blast
  have "safe_strtoull (cstr (it_value (mem s 2000))) = (True, 41)"
    using safe_strtoull_dec [of 41 crlf] unfolding s(4)
    by (simp add: cstr_def crlf_def ends_number_def isspace_def dec.simps digit_def char_of_def bit_iff_odd)
  from counter_never_in_place [OF s(2) _ s(3) _ this, of "''k''" True 1] s(1) show ?thesis by auto
qed

end
