(* ===== verification/Stats.thy ===== *)
theory Stats
  imports "HOL-Library.Sublist" Store
begin

text \<open>
  The \<open>stats\<close> command: the reply buffer (\<open>append_stats\<close> and \<open>grow_stats_buf\<close> of \<open>memcached.c\<close>), what
  each part of the program reports (\<open>items.c\<close>, \<open>slabs.c\<close>, \<open>memcached.c\<close>), and \<open>process_stat\<close>. A
  report is the list of the names and values that are passed to \<open>append_stat\<close>. \<open>None\<close> is a write or
  a read outside an array.
\<close>

section \<open>Bytes of the binary protocol\<close>

definition byte :: "nat \<Rightarrow> char" where "byte n = char_of (n mod 256)"

definition be16 :: "nat \<Rightarrow> string" where "be16 n = [byte (n div 256), byte n]"

definition be32 :: "nat \<Rightarrow> string" where
  "be32 n = [byte (n div 2 ^ 24), byte (n div 2 ^ 16), byte (n div 2 ^ 8), byte n]"

definition be64 :: "nat \<Rightarrow> string" where "be64 n = be32 (n div 2 ^ 32) @ be32 (n mod 2 ^ 32)"

text \<open>
  The opaque number is copied from the request to the response without a change of byte order;
  this is the order in which it lies in memory.
\<close>

definition le32 :: "u32 \<Rightarrow> string" where "le32 w = rev (be32 (unat w))"

definition PROTOCOL_BINARY_RES :: nat where "PROTOCOL_BINARY_RES = 0x81"
definition PROTOCOL_BINARY_CMD_STAT :: nat where "PROTOCOL_BINARY_CMD_STAT = 0x10"

text \<open>A response header of 24 bytes.\<close>

definition res_header :: "nat \<Rightarrow> nat \<Rightarrow> nat \<Rightarrow> nat \<Rightarrow> nat \<Rightarrow> u32 \<Rightarrow> u64 \<Rightarrow> string" where
  "res_header opcode keylen extlen status bodylen opaque cas = [byte PROTOCOL_BINARY_RES, byte opcode] @ be16 keylen
     @ [byte extlen, byte 0] @ be16 status @ be32 bodylen @ le32 opaque @ be64 (unat cas)"

section \<open>The reply buffer\<close>

text \<open>The first assertion of the loop is a \<open>None\<close>; a size that is doubled does not reach 64 bits.\<close>

function grow_size :: "nat \<Rightarrow> nat \<Rightarrow> nat \<Rightarrow> nat option" where
  "grow_size needed offset nsize = (if nsize - offset < needed then
      (if nsize = 0 then None else grow_size needed offset (nsize * 2)) else Some nsize)"
  by pat_completeness auto
termination by (relation "measure (\<lambda>(needed, offset, nsize). needed + offset - nsize)") auto

declare grow_size.simps [simp del]

definition grow_stats_buf :: "nat \<Rightarrow> conn \<Rightarrow> (bool \<times> conn) option" where
  "grow_stats_buf needed c = (let
     (nsize, c) = (if cn_stats_buffer c = None then (1024, c\<lparr>cn_stats_size := 0, cn_stats_offset := 0\<rparr>)
                   else (cn_stats_size c, c));
     start = (if cn_stats_buffer c = None then grow_size needed 0 (if needed = 0 then nsize else nsize * 2)
              else grow_size needed (cn_stats_offset c) nsize) in
   map_option (\<lambda>nsize. if nsize \<noteq> cn_stats_size c then
       (case grant c of (ok, c) \<Rightarrow>
          if ok then (let old = (case cn_stats_buffer c of None \<Rightarrow> [] | Some b \<Rightarrow> b) in
            (True, c\<lparr>cn_stats_buffer := Some (old @ replicate (nsize - length old) (CHR 0x00)), cn_stats_size := nsize\<rparr>))
          else (False, c))
     else (True, c)) start)"

text \<open>A store into the buffer; its end is checked.\<close>

definition put_stats :: "string \<Rightarrow> conn \<Rightarrow> conn option" where
  "put_stats bs c = (case cn_stats_buffer c of None \<Rightarrow> None
     | Some b \<Rightarrow> if cn_stats_offset c + length bs \<le> length b
         then Some (c\<lparr>cn_stats_buffer := Some (write_at (cn_stats_offset c) bs b)\<rparr>) else None)"

text \<open>
  The value is what the buffer \<open>val_str\<close> holds, and \<open>vlen\<close> the length that \<open>vsnprintf\<close> reports, which
  is larger when the value was cut; the copy of \<open>vlen\<close> bytes then reads past the text.
\<close>

definition append_bin_stats :: "string \<Rightarrow> string \<Rightarrow> nat \<Rightarrow> conn \<Rightarrow> conn option" where
  "append_bin_stats key val vlen c = (let klen = length key; bodylen = klen + vlen in
     if 0 < klen \<and> length val < vlen then None
     else do {
       c \<leftarrow> put_stats (res_header PROTOCOL_BINARY_CMD_STAT klen 0 0 bodylen (cn_opaque c) 0
         @ (if 0 < klen then key @ take vlen val else [])) c;
       Some (c\<lparr>cn_stats_offset := cn_stats_offset c + 24 + bodylen\<rparr>) })"

text \<open>\<open>snprintf\<close> writes at most \<open>room - 1\<close> characters and a null character.\<close>

definition append_ascii_stats :: "string \<Rightarrow> string \<Rightarrow> nat \<Rightarrow> conn \<Rightarrow> conn option" where
  "append_ascii_stats key val vlen c = (let
     room = int (cn_stats_size c) - int (cn_stats_offset c) - 1;
     text = (if key = [] \<and> vlen = 0 then ''END'' @ crlf
             else if vlen = 0 then ''STAT '' @ key @ crlf
             else ''STAT '' @ key @ '' '' @ val @ crlf) in
   if room \<le> 0 then None
   else do {
     c \<leftarrow> put_stats (take (nat room - 1) text @ [CHR 0x00]) c;
     Some (c\<lparr>cn_stats_offset := cn_stats_offset c + length text\<rparr>) })"

text \<open>The assertion at the end is the last test.\<close>

definition append_stats :: "string \<Rightarrow> string \<Rightarrow> nat \<Rightarrow> conn \<Rightarrow> conn option" where
  "append_stats key val vlen c =
     (if key = [] \<and> 0 < vlen then Some c
      else let bin = (cn_protocol c = binary_prot); needed = vlen + length key + (if bin then 24 else 10) in do {
        (ok, c) \<leftarrow> grow_stats_buf needed c;
        if \<not> ok then Some c
        else do {
          c \<leftarrow> (if bin then append_bin_stats key val vlen c else append_ascii_stats key val vlen c);
          if cn_stats_offset c \<le> cn_stats_size c then Some c else None } })"

text \<open>
  \<open>append_stat\<close> formats into 127 bytes of \<open>val_str\<close>, so 126 characters and the null character are
  kept.
\<close>

definition append_stat :: "string \<times> string \<Rightarrow> conn \<Rightarrow> conn option" where
  "append_stat st c = append_stats (fst st) (take 126 (snd st)) (length (snd st)) c"

fun append_report :: "(string \<times> string) list \<Rightarrow> conn \<Rightarrow> conn option" where
  "append_report [] c = Some c"
| "append_report (st # sts) c = Option.bind (append_stat st c) (append_report sts)"

text \<open>\<open>add_stats(NULL, 0, NULL, 0, c)\<close>, the terminator.\<close>

definition append_end :: "conn \<Rightarrow> conn option" where
  "append_end c = append_stats [] [] 0 c"

section \<open>Reports of the item and slab components\<close>

abbreviation u32s :: "u32 \<Rightarrow> string" where "u32s w \<equiv> dec (unat w)"
abbreviation u64s :: "u64 \<Rightarrow> string" where "u64s w \<equiv> dec (unat w)"

definition report_totals :: "'a items_scheme \<Rightarrow> (string \<times> string) list" where
  "report_totals s = (let total = (\<lambda>f. u64s (\<Sum>i\<leftarrow>[0..<LARGEST_ID]. f (itemstats s i))) in
     [(''expired_unfetched'', total is_expired_unfetched), (''evicted_unfetched'', total is_evicted_unfetched),
      (''evictions'', total is_evicted), (''reclaimed'', total is_reclaimed)])"

definition items_stat :: "nat \<Rightarrow> string \<Rightarrow> string \<Rightarrow> string \<times> string" where
  "items_stat i name val = (''items:'' @ dec i @ '':'' @ name, val)"

definition class_items_report :: "'a items_scheme \<Rightarrow> nat \<Rightarrow> (string \<times> string) list" where
  "class_items_report s i = (if tails s i = NULL then [] else let t = itemstats s i in
     [items_stat i ''number'' (u32s (sizes s i)),
      items_stat i ''age'' (u32s (current_time s - it_time (mem s (tails s i)))),
      items_stat i ''evicted'' (u64s (is_evicted t)),
      items_stat i ''evicted_nonzero'' (u64s (is_evicted_nonzero t)),
      items_stat i ''evicted_time'' (u32s (is_evicted_time t)),
      items_stat i ''outofmemory'' (u64s (is_outofmemory t)),
      items_stat i ''tailrepairs'' (u64s (is_tailrepairs t)),
      items_stat i ''reclaimed'' (u64s (is_reclaimed t)),
      items_stat i ''expired_unfetched'' (u64s (is_expired_unfetched t)),
      items_stat i ''evicted_unfetched'' (u64s (is_evicted_unfetched t))])"

definition do_item_stats :: "'a items_scheme \<Rightarrow> (string \<times> string) list" where
  "do_item_stats s = concat (map (class_items_report s) [0..<LARGEST_ID])"

text \<open>The histogram of the item sizes: a walk along each queue, which may be cyclic.\<close>

definition num_buckets :: nat where "num_buckets = 32768"

definition size_bucket :: "item \<Rightarrow> nat" where
  "size_bucket i = (let ntotal = unat (ITEM_ntotal i) in
     ntotal div 32 + (if ntotal mod 32 \<noteq> 0 then 1 else 0))"

partial_function (option) histogram_walk :: "addr \<Rightarrow> (nat \<Rightarrow> u32) \<Rightarrow> 'a items_scheme \<Rightarrow> (nat \<Rightarrow> u32) option" where
  "histogram_walk iter h s = (if iter = NULL then Some h
     else (let b = size_bucket (mem s iter) in
       histogram_walk (it_next (mem s iter)) (if b < num_buckets then h(b := h b + 1) else h) s))"

fun histogram_classes :: "nat list \<Rightarrow> (nat \<Rightarrow> u32) \<Rightarrow> 'a items_scheme \<Rightarrow> (nat \<Rightarrow> u32) option" where
  "histogram_classes [] h s = Some h"
| "histogram_classes (i # is) h s =
     Option.bind (histogram_walk (heads s i) h s) (\<lambda>h. histogram_classes is h s)"

text \<open>The report is empty when there is no memory for the histogram.\<close>

definition do_item_stats_sizes :: "'a items_scheme \<Rightarrow> ((string \<times> string) list \<times> 'a items_scheme) option" where
  "do_item_stats_sizes s = (case malloc s of (histogram, s) \<Rightarrow>
     if histogram = NULL then Some ([], s)
     else map_option (\<lambda>h. (map (\<lambda>i. (dec (i * 32), u32s (h i))) (filter (\<lambda>i. h i \<noteq> 0) [0..<num_buckets]), s))
            (histogram_classes [0..<LARGEST_ID] (\<lambda>_. 0) s))"

definition num_stat :: "nat \<Rightarrow> string \<Rightarrow> string \<Rightarrow> string \<times> string" where
  "num_stat i name val = (dec i @ '':'' @ name, val)"

text \<open>The products and differences of the chunk counts are 32-bit unsigned.\<close>

definition class_slabs_report :: "'a slabs_scheme \<Rightarrow> thread_stats_t \<Rightarrow> nat \<Rightarrow> (string \<times> string) list" where
  "class_slabs_report s ts i = (let p = slabclass s i; slabs = of_nat (cls_slabs p) :: u32;
       perslab = of_nat (cls_perslab p) :: u32; t = slab_stats ts i in
     if cls_slabs p = 0 then [] else
     [num_stat i ''chunk_size'' (dec (cls_size p)), num_stat i ''chunks_per_page'' (u32s perslab),
      num_stat i ''total_pages'' (u32s slabs), num_stat i ''total_chunks'' (u32s (slabs * perslab)),
      num_stat i ''used_chunks'' (u32s (slabs * perslab - of_nat (cls_sl_curr p))),
      num_stat i ''free_chunks'' (dec (cls_sl_curr p)), num_stat i ''free_chunks_end'' (dec 0),
      num_stat i ''mem_requested'' (u64s (cls_requested p)), num_stat i ''get_hits'' (u64s (get_hits t)),
      num_stat i ''cmd_set'' (u64s (set_cmds t)), num_stat i ''delete_hits'' (u64s (delete_hits t)),
      num_stat i ''incr_hits'' (u64s (incr_hits t)), num_stat i ''decr_hits'' (u64s (decr_hits t)),
      num_stat i ''cas_hits'' (u64s (cas_hits t)), num_stat i ''cas_badval'' (u64s (cas_badval t)),
      num_stat i ''touch_hits'' (u64s (touch_hits t))])"

definition do_slabs_stats :: "'a slabs_scheme \<Rightarrow> thread_stats_t list \<Rightarrow> (string \<times> string) list" where
  "do_slabs_stats s ths = (let ts = threadlocal_stats_aggregate ths; is = [POWER_SMALLEST..<power_largest s + 1] in
     concat (map (class_slabs_report s ts) is)
     @ [(''active_slabs'', dec (length (filter (\<lambda>i. cls_slabs (slabclass s i) \<noteq> 0) is))),
        (''total_malloced'', dec (mem_malloced s))])"

text \<open>\<open>nz_strcmp\<close> returns 0 for equal strings, \<open>z\<close> being null-terminated.\<close>

definition nz_strcmp :: "string \<Rightarrow> string \<Rightarrow> int" where
  "nz_strcmp nz z = (if length z = length nz \<and> take (length z) nz = z then 0 else -1)"

text \<open>A report appended to the buffer of the connection, with or without the terminator.\<close>

definition send_report :: "(string \<times> string) list \<Rightarrow> bool \<Rightarrow> 'a server_scheme \<Rightarrow> 'a server_scheme option" where
  "send_report sts terminate s = do {
     c \<leftarrow> append_report sts (con s);
     c \<leftarrow> (if terminate then append_end c else Some c);
     Some (s\<lparr>con := c\<rparr>) }"

text \<open>\<open>stat_type\<close> is \<open>None\<close> for the null pointer of the plain command.\<close>

definition get_stats :: "string option \<Rightarrow> 'a server_scheme \<Rightarrow> (bool \<times> 'a server_scheme) option" where
  "get_stats stat_type s = (case stat_type of
     None \<Rightarrow> map_option (\<lambda>s. (True, s)) (send_report
       ([(''bytes'', u64s (curr_bytes (stats s))), (''curr_items'', u32s (curr_items (stats s))),
         (''total_items'', u32s (total_items (stats s)))] @ report_totals s) False s)
   | Some key \<Rightarrow>
       if nz_strcmp key ''items'' = 0 then map_option (\<lambda>s. (True, s)) (send_report (do_item_stats s) True s)
       else if nz_strcmp key ''slabs'' = 0 then
         map_option (\<lambda>s. (True, s)) (send_report (do_slabs_stats s (threads s)) True s)
       else if nz_strcmp key ''sizes'' = 0 then do {
         (sts, s) \<leftarrow> do_item_stats_sizes s;
         s \<leftarrow> send_report sts True s;
         Some (True, s) }
       else Some (False, s))"

section \<open>Dumping a queue\<close>

definition cachedump_limit :: nat where "cachedump_limit = 2 * 1024 * 1024"

text \<open>The key is copied as a C string; the sum of the expiry time is 64 bits wide.\<close>

definition cachedump_line :: "item \<Rightarrow> int \<Rightarrow> string" where
  "cachedump_line i started = ''ITEM '' @ cstr (ITEM_key i) @ '' ['' @ dec_int (sint (it_nbytes i) - 2) @ '' b; ''
     @ u64s (ucast (it_exptime i) + word_of_int started) @ '' s]'' @ crlf"

function cachedump_loop :: "addr \<Rightarrow> u32 \<Rightarrow> u32 \<Rightarrow> string \<Rightarrow> 'a mc_scheme \<Rightarrow> string option" where
  "cachedump_loop it limit shown buf s =
     (if it \<noteq> NULL \<and> (limit = 0 \<or> shown < limit) then
        (let i = mem s it; temp = cachedump_line i (process_started s) in
         if KEY_MAX_LENGTH < unat (it_nkey i) then None
         else if cachedump_limit < length buf + length temp + 6 then Some buf
         else cachedump_loop (it_next i) limit (shown + 1) (buf @ temp) s)
      else Some buf)"
  by pat_completeness auto
termination
  by (relation "measure (\<lambda>(it, limit, shown, buf, s). cachedump_limit - length buf)")
    (auto simp: cachedump_line_def)

declare cachedump_loop.simps [simp del]

text \<open>The first option is a failed assertion, the second a failed \<open>malloc\<close>.\<close>

definition do_item_cachedump :: "nat \<Rightarrow> u32 \<Rightarrow> 'a items_scheme \<Rightarrow> (string option \<times> 'a items_scheme) option" where
  "do_item_cachedump cid limit s = (case malloc s of (buffer, s) \<Rightarrow>
     if buffer = NULL then Some (None, s)
     else map_option (\<lambda>buf. (Some (buf @ ''END'' @ crlf), s)) (cachedump_loop (heads s cid) limit 0 [] s))"

section \<open>Reports of the server\<close>

text \<open>
  What the operating system and the libraries report: the process, the program and library versions,
  the size of a pointer, and the two times of \<open>getrusage\<close> in seconds and microseconds.
\<close>

record os_info =
  os_pid :: int
  os_version :: string
  os_libevent :: string
  os_pointer_size :: nat
  os_utime :: "int \<times> nat"
  os_stime :: "int \<times> nat"

text \<open>\<open>%ld.%06ld\<close>, \<open>%u\<close> of a truth value, \<open>%o\<close>, and \<open>%.2f\<close> of the exact value of a double.\<close>

definition rusage_text :: "int \<times> nat \<Rightarrow> string" where
  "rusage_text t = (let u = dec (snd t) in dec_int (fst t) @ ''.'' @ replicate (6 - length u) (CHR ''0'') @ u)"

definition bool_text :: "bool \<Rightarrow> string" where "bool_text b = (if b then ''1'' else ''0'')"

fun oct :: "nat \<Rightarrow> string" where
  "oct n = (if n < 8 then [digit n] else oct (n div 8) @ [digit (n mod 8)])"

declare oct.simps [simp del]

definition fixed2 :: "c_double \<Rightarrow> string" where
  "fixed2 v = (case v of
     Dbl x \<Rightarrow> (let n = nat (round_half_even (\<bar>x\<bar> * 100)); f = dec (n mod 100) in
       (if x < 0 then ''-'' else []) @ dec (n div 100) @ ''.'' @ replicate (2 - length f) (CHR ''0'') @ f)
   | Infinity \<Rightarrow> ''inf'' | Neg_Infinity \<Rightarrow> ''-inf'' | NaN neg \<Rightarrow> if neg then ''-nan'' else ''nan'')"

definition server_report :: "os_info \<Rightarrow> 'a server_scheme \<Rightarrow> (string \<times> string) list" where
  "server_report os s = (let ts = threadlocal_stats_aggregate (threads s); sl = slab_stats_aggregate ts;
       st = stats s; se = settings s in
     [(''pid'', dec_int (os_pid os)), (''uptime'', u32s (current_time s)),
      (''time'', dec_int (uint (current_time s) + process_started s)), (''version'', os_version os),
      (''libevent'', os_libevent os), (''pointer_size'', dec (8 * os_pointer_size os)),
      (''rusage_user'', rusage_text (os_utime os)), (''rusage_system'', rusage_text (os_stime os)),
      (''curr_connections'', u32s (curr_conns st - 1)), (''total_connections'', u32s (total_conns st))]
     @ (if maxconns_fast se then [(''rejected_connections'', u64s (rejected_conns st))] else []) @
     [(''connection_structures'', u32s (conn_structs st)), (''reserved_fds'', u32s (reserved_fds st)),
      (''cmd_get'', u64s (get_cmds ts)), (''cmd_set'', u64s (set_cmds sl)), (''cmd_flush'', u64s (flush_cmds ts)),
      (''cmd_touch'', u64s (touch_cmds ts)), (''get_hits'', u64s (get_hits sl)), (''get_misses'', u64s (get_misses ts)),
      (''delete_misses'', u64s (delete_misses ts)), (''delete_hits'', u64s (delete_hits sl)),
      (''incr_misses'', u64s (incr_misses ts)), (''incr_hits'', u64s (incr_hits sl)),
      (''decr_misses'', u64s (decr_misses ts)), (''decr_hits'', u64s (decr_hits sl)),
      (''cas_misses'', u64s (cas_misses ts)), (''cas_hits'', u64s (cas_hits sl)),
      (''cas_badval'', u64s (cas_badval sl)), (''touch_hits'', u64s (touch_hits sl)),
      (''touch_misses'', u64s (touch_misses ts)), (''auth_cmds'', u64s (auth_cmds ts)),
      (''auth_errors'', u64s (auth_errors ts)), (''bytes_read'', u64s (bytes_read ts)),
      (''bytes_written'', u64s (bytes_written ts)), (''limit_maxbytes'', dec (maxbytes se)),
      (''accepting_conns'', bool_text (accepting_conns st)),
      (''listen_disabled_num'', u64s (listen_disabled_num st)), (''threads'', dec (num_threads se)),
      (''conn_yields'', u64s (conn_yields ts)), (''hash_power_level'', u32s (hash_power_level st)),
      (''hash_bytes'', u64s (hash_bytes st)), (''hash_is_expanding'', bool_text (hash_is_expanding st))]
     @ (if slab_reassign se then
          [(''slab_reassign_running'', bool_text (slab_reassign_running st)), (''slabs_moved'', u64s (slabs_moved st))]
        else []))"

definition server_stats :: "os_info \<Rightarrow> 'a server_scheme \<Rightarrow> 'a server_scheme option" where
  "server_stats os s = send_report (server_report os s) False s"

text \<open>The delimiter of prefixes is taken not to be the null character.\<close>

definition settings_report :: "settings_t \<Rightarrow> (string \<times> string) list" where
  "settings_report se = (let yes_no = (\<lambda>b. if b then ''yes'' else ''no'');
       or_null = (\<lambda>t. case t of None \<Rightarrow> ''NULL'' | Some v \<Rightarrow> v) in
     [(''maxbytes'', u32s (of_nat (maxbytes se))), (''maxconns'', dec_int (maxconns se)),
      (''tcpport'', dec_int (port se)), (''udpport'', dec_int (udpport se)), (''inter'', or_null (inter se)),
      (''verbosity'', dec_int (verbose se)), (''oldest'', u32s (oldest_live se)),
      (''evictions'', if evict_to_free se \<noteq> 0 then ''on'' else ''off''),
      (''domain_socket'', or_null (socketpath se)), (''umask'', oct (nat (settings_t.access se))),
      (''growth_factor'', fixed2 (factor se)), (''chunk_size'', dec_int (chunk_size se)),
      (''num_threads'', dec (num_threads se)), (''num_threads_per_udp'', dec (num_threads_per_udp se)),
      (''stat_key_prefix'', [prefix_delimiter se]), (''detail_enabled'', yes_no (detail_enabled se \<noteq> 0)),
      (''reqs_per_event'', dec_int (reqs_per_event se)), (''cas_enabled'', yes_no (use_cas se)),
      (''tcp_backlog'', dec_int (backlog se)), (''binding_protocol'', prot_text (binding_protocol se)),
      (''auth_enabled_sasl'', yes_no (sasl se)), (''item_size_max'', dec (item_size_max se)),
      (''maxconns_fast'', yes_no (maxconns_fast se)), (''hashpower_init'', dec (hashpower_init se)),
      (''slab_reassign'', yes_no (slab_reassign se)), (''slab_automove'', dec_int (slab_automove se))])"

definition process_stat_settings :: "'a server_scheme \<Rightarrow> 'a server_scheme option" where
  "process_stat_settings s = send_report (settings_report (settings s)) False s"

section \<open>The command\<close>

definition stats_reset :: "'a server_scheme \<Rightarrow> 'a server_scheme" where
  "stats_reset s = (let
     s = upd_stats (\<lambda>t. t\<lparr>total_items := 0, total_conns := 0, rejected_conns := 0, listen_disabled_num := 0\<rparr>) s;
     s = s\<lparr>prefixes := stats_prefix_clear (prefixes s)\<rparr>;
     s = s\<lparr>threads := threadlocal_stats_reset (threads s)\<rparr>
   in item_stats_reset s)"

definition process_stats_detail :: "string \<Rightarrow> 'a server_scheme \<Rightarrow> 'a server_scheme option" where
  "process_stats_detail command s =
     (if command = ''on'' then out_string ''OK'' (s\<lparr>settings := (settings s)\<lparr>detail_enabled := 1\<rparr>\<rparr>)
      else if command = ''off'' then out_string ''OK'' (s\<lparr>settings := (settings s)\<lparr>detail_enabled := 0\<rparr>\<rparr>)
      else if command = ''dump'' then do {
        (txt, p) \<leftarrow> stats_prefix_dump (prefixes s);
        write_and_free txt (case txt of None \<Rightarrow> 0 | Some t \<Rightarrow> int (length t)) (s\<lparr>prefixes := p\<rparr>) }
      else out_string ''CLIENT_ERROR usage: stats detail on|off|dump'' s)"

text \<open>The value of a token as a string; \<open>None\<close> is a null pointer or a token that was not set.\<close>

definition tok :: "token list \<Rightarrow> nat \<Rightarrow> string option" where
  "tok tokens i = (if i < length tokens then tk_value (tokens ! i) else None)"

text \<open>The finished buffer is handed over, so that the next report starts a new one.\<close>

definition write_stats :: "'a server_scheme \<Rightarrow> 'a server_scheme option" where
  "write_stats s = (case cn_stats_buffer (con s) of
     None \<Rightarrow> out_string ''SERVER_ERROR out of memory writing stats'' s
   | Some b \<Rightarrow> map_option (upd_con (\<lambda>c. c\<lparr>cn_stats_buffer := None\<rparr>))
       (write_and_free (Some b) (int (cn_stats_offset (con s))) s))"

definition process_cachedump :: "token list \<Rightarrow> 'a server_scheme \<Rightarrow> 'a server_scheme option" where
  "process_cachedump tokens s =
     (if length tokens < 5 then out_string ''CLIENT_ERROR bad command line'' s
      else do {
        t2 \<leftarrow> tok tokens 2;
        t3 \<leftarrow> tok tokens 3;
        let (ok1, cid) = safe_strtoul t2;
        let (ok2, limit) = safe_strtoul t3;
        let s = errno_safe (strtoull (if ok1 then t3 else t2)) s;
        if \<not> ok1 \<or> \<not> ok2 then out_string ''CLIENT_ERROR bad command line format'' s
        else if POWER_LARGEST \<le> unat cid then out_string ''CLIENT_ERROR Illegal slab id'' s
        else do {
          (buf, s) \<leftarrow> do_item_cachedump (unat cid) limit s;
          write_and_free buf (case buf of None \<Rightarrow> 0 | Some b \<Rightarrow> int (length b)) s } })"

definition process_stat :: "os_info \<Rightarrow> token list \<Rightarrow> 'a server_scheme \<Rightarrow> 'a server_scheme option" where
  "process_stat os tokens s = (let ntokens = length tokens;
       finish = (\<lambda>s. Option.bind (append_end (con s)) (\<lambda>c. write_stats (s\<lparr>con := c\<rparr>))) in
     if ntokens < 2 then out_string ''CLIENT_ERROR bad command line'' s
     else if ntokens = 2 then do {
       s \<leftarrow> server_stats os s;
       (r, s) \<leftarrow> get_stats None s;
       finish s }
     else do {
       subcommand \<leftarrow> tok tokens SUBCOMMAND_TOKEN;
       if subcommand = ''reset'' then out_string ''RESET'' (stats_reset s)
       else if subcommand = ''detail'' then
         (if ntokens < 4 then process_stats_detail [] s
          else Option.bind (tok tokens 2) (\<lambda>t. process_stats_detail t s))
       else if subcommand = ''settings'' then Option.bind (process_stat_settings s) finish
       else if subcommand = ''cachedump'' then process_cachedump tokens s
       else do {
         (r, s) \<leftarrow> get_stats (Some subcommand) s;
         if r then write_stats s else out_string ''ERROR'' s } })"

section \<open>The buffer holds what is appended\<close>

definition stats_ok :: "conn \<Rightarrow> bool" where
  "stats_ok c \<longleftrightarrow> (case cn_stats_buffer c of None \<Rightarrow> True
     | Some b \<Rightarrow> length b = cn_stats_size c \<and> cn_stats_offset c \<le> cn_stats_size c \<and> 0 < cn_stats_size c)"

definition stats_text :: "conn \<Rightarrow> string" where
  "stats_text c = (case cn_stats_buffer c of None \<Rightarrow> [] | Some b \<Rightarrow> take (cn_stats_offset c) b)"

lemma grow_size_some: "0 < nsize \<Longrightarrow> \<exists>n. grow_size needed offset nsize = Some n \<and> nsize \<le> n \<and> needed \<le> n - offset"
proof (induction needed offset nsize rule: grow_size.induct)
  case (1 needed offset nsize)
  show ?case
  proof (cases "nsize - offset < needed")
    case True
    with 1 obtain n where "grow_size needed offset (nsize * 2) = Some n" "nsize * 2 \<le> n" "needed \<le> n - offset" by auto
    then show ?thesis using True 1(2) by (subst grow_size.simps) auto
  qed (subst grow_size.simps, simp)
qed

text \<open>After growing there is room, or memory ran out and nothing changed.\<close>

definition roomy :: "nat \<Rightarrow> conn \<Rightarrow> bool" where
  "roomy needed d \<longleftrightarrow> (\<exists>b. cn_stats_buffer d = Some b) \<and> stats_ok d \<and> needed \<le> cn_stats_size d - cn_stats_offset d"

text \<open>What an attempt to allocate does to the answers: nothing was asked for, one was granted, or refused.\<close>

definition granted :: "conn \<Rightarrow> conn \<Rightarrow> bool" where
  "granted c d \<longleftrightarrow> grants d = grants c \<or> grants c = True # grants d"

definition refused :: "conn \<Rightarrow> conn \<Rightarrow> bool" where
  "refused c d \<longleftrightarrow> grants c = [] \<and> grants d = [] \<or> grants c = False # grants d"

lemma grow_stats_buf_ok:
  assumes "stats_ok c" "0 < needed"
  shows "\<exists>ok d. grow_stats_buf needed c = Some (ok, d) \<and> stats_ok d \<and> stats_text d = stats_text c
    \<and> cn_protocol d = cn_protocol c \<and> cn_opaque d = cn_opaque c \<and> (ok \<longrightarrow> roomy needed d)
    \<and> (if ok then granted c d else refused c d)"
proof (cases "cn_stats_buffer c")
  case None
  from grow_size_some [of "1024 * 2" needed 0] obtain n where n: "grow_size needed 0 (1024 * 2) = Some n" "2048 \<le> n"
    "needed \<le> n - 0" by auto
  have e: "grow_stats_buf needed c = (case grant (c\<lparr>cn_stats_size := 0, cn_stats_offset := 0\<rparr>) of (ok, c) \<Rightarrow>
      Some (if ok then (True, c\<lparr>cn_stats_buffer := Some (replicate n (CHR 0x00)), cn_stats_size := n\<rparr>) else (False, c)))"
    using None n(1,2) assms(2)
    by (cases "grants c") (auto simp: grow_stats_buf_def Let_def grant_def)
  show ?thesis using None n(2,3)
    by (cases "grants c") (auto simp: e grant_def stats_ok_def stats_text_def roomy_def granted_def refused_def)
next
  case (Some b)
  then have b: "length b = cn_stats_size c" "cn_stats_offset c \<le> cn_stats_size c" "0 < cn_stats_size c"
    using assms(1) by (simp_all add: stats_ok_def)
  from grow_size_some [OF b(3), of needed "cn_stats_offset c"] obtain n where
    n: "grow_size needed (cn_stats_offset c) (cn_stats_size c) = Some n" "cn_stats_size c \<le> n"
    "needed \<le> n - cn_stats_offset c" by auto
  show ?thesis
  proof (cases "n = cn_stats_size c")
    case True
    then have "grow_stats_buf needed c = Some (True, c)" using Some n(1) by (simp add: grow_stats_buf_def Let_def)
    then show ?thesis using assms(1) Some True n(3) by (auto simp: roomy_def granted_def)
  next
    case False
    then have e: "grow_stats_buf needed c = (case grant c of (ok, c) \<Rightarrow>
        Some (if ok then (True, c\<lparr>cn_stats_buffer := Some (b @ replicate (n - length b) (CHR 0x00)), cn_stats_size := n\<rparr>)
              else (False, c)))"
      using Some n(1) by (auto simp: grow_stats_buf_def Let_def grant_def split: prod.splits list.splits)
    show ?thesis using Some b n(2,3)
      by (cases "grants c") (auto simp: e grant_def stats_ok_def stats_text_def roomy_def granted_def refused_def)
  qed
qed

lemma put_stats_ok:
  assumes "roomy needed c" "length bs \<le> needed" "n \<le> length bs"
  shows "\<exists>b. put_stats bs c = Some (c\<lparr>cn_stats_buffer := Some b\<rparr>) \<and> length b = cn_stats_size c
    \<and> take (cn_stats_offset c + n) b = stats_text c @ take n bs"
proof -
  obtain b where b: "cn_stats_buffer c = Some b" "length b = cn_stats_size c" "cn_stats_offset c \<le> cn_stats_size c"
    using assms(1) by (auto simp: roomy_def stats_ok_def)
  have fit: "cn_stats_offset c + length bs \<le> length b" using assms b by (auto simp: roomy_def)
  then have w: "write_at (cn_stats_offset c) bs b
      = take (cn_stats_offset c) b @ bs @ drop (cn_stats_offset c + length bs) b"
    by (simp add: write_at_def)
  have "take (cn_stats_offset c + n) (write_at (cn_stats_offset c) bs b) = stats_text c @ take n bs"
    unfolding w using fit assms(3) b by (simp add: stats_text_def min_def)
  moreover have "length (write_at (cn_stats_offset c) bs b) = cn_stats_size c"
    unfolding w using fit b by simp
  ultimately show ?thesis using b fit unfolding put_stats_def
    by (intro exI [of _ "write_at (cn_stats_offset c) bs b"]) simp
qed

lemma stats_after:
  assumes "length b = cn_stats_size d" "off \<le> cn_stats_size d" "0 < cn_stats_size d"
  shows "stats_ok (d\<lparr>cn_stats_buffer := Some b, cn_stats_offset := off\<rparr>)"
    "stats_text (d\<lparr>cn_stats_buffer := Some b, cn_stats_offset := off\<rparr>) = take off b"
  using assms by (simp_all add: stats_ok_def stats_text_def)

definition stat_entry :: "conn \<Rightarrow> string \<times> string \<Rightarrow> string" where
  "stat_entry c st = (let val = take 126 (snd st) in
     if cn_protocol c = binary_prot
     then res_header PROTOCOL_BINARY_CMD_STAT (length (fst st)) 0 0 (length (fst st) + length val) (cn_opaque c) 0 @ fst st @ val
     else if val = [] then ''STAT '' @ fst st @ crlf else ''STAT '' @ fst st @ '' '' @ val @ crlf)"

lemma res_header_length: "length (res_header op kl el st bl oq cas) = 24"
  by (simp add: res_header_def be16_def be32_def be64_def le32_def)

lemma append_stat_ok:
  assumes S: "stats_ok c" and k: "fst st \<noteq> []" and l: "cn_protocol c = binary_prot \<longrightarrow> length (snd st) \<le> 126"
  shows "\<exists>d. append_stat st c = Some d \<and> stats_ok d \<and> cn_protocol d = cn_protocol c \<and> cn_opaque d = cn_opaque c
    \<and> (stats_text d = stats_text c \<and> refused c d \<or> stats_text d = stats_text c @ stat_entry c st \<and> granted c d)"
proof -
  let ?key = "fst st" and ?val = "take 126 (snd st)" and ?vlen = "length (snd st)"
  let ?bin = "cn_protocol c = binary_prot"
  let ?needed = "?vlen + length ?key + (if ?bin then 24 else 10)"
  have np: "0 < ?needed" by simp
  from grow_stats_buf_ok [OF S np] obtain ok d where d: "grow_stats_buf ?needed c = Some (ok, d)" "stats_ok d"
    "stats_text d = stats_text c" "cn_protocol d = cn_protocol c" "cn_opaque d = cn_opaque c" "ok \<longrightarrow> roomy ?needed d"
    "if ok then granted c d else refused c d" by blast
  have unf: "append_stat st c = (if \<not> ok then Some d else Option.bind
      (if ?bin then append_bin_stats ?key ?val ?vlen d else append_ascii_stats ?key ?val ?vlen d)
      (\<lambda>c. if cn_stats_offset c \<le> cn_stats_size c then Some c else None))"
    using k d(1) by (simp add: append_stat_def append_stats_def Let_def)
  show ?thesis
  proof (cases ok)
    case False
    then show ?thesis using unf d by auto
  next
    case True
    then have room: "roomy ?needed d" and g: "granted c d" using d(6,7) by simp_all
    then have off: "cn_stats_offset d + ?needed \<le> cn_stats_size d"
      by (auto simp: roomy_def stats_ok_def split: option.splits)
    show ?thesis
    proof (cases ?bin)
      case bin: True
      then have v: "?val = snd st" using l by simp
      let ?bs = "stat_entry c st"
      have len: "length ?bs = ?needed" using bin v by (simp add: stat_entry_def res_header_length Let_def)
      have bs: "?bs = res_header PROTOCOL_BINARY_CMD_STAT (length ?key) 0 0 (length ?key + ?vlen) (cn_opaque d) 0
          @ (if 0 < length ?key then ?key @ take ?vlen ?val else [])"
        using bin v k d(5) by (simp add: stat_entry_def Let_def)
      from put_stats_ok [OF room, of ?bs ?needed] len obtain b where b: "put_stats ?bs d = Some (d\<lparr>cn_stats_buffer := Some b\<rparr>)"
        "length b = cn_stats_size d" "take (cn_stats_offset d + ?needed) b = stats_text d @ ?bs" by auto
      have "append_bin_stats ?key ?val ?vlen d
          = Some (d\<lparr>cn_stats_buffer := Some b, cn_stats_offset := cn_stats_offset d + ?needed\<rparr>)"
        using b(1) v bin unfolding append_bin_stats_def bs by (simp add: Let_def)
      then have "append_stat st c = Some (d\<lparr>cn_stats_buffer := Some b, cn_stats_offset := cn_stats_offset d + ?needed\<rparr>)"
        using unf True bin off by simp
      moreover note stats_after [OF b(2) off]
      moreover have "0 < cn_stats_size d" using off np by linarith
      ultimately show ?thesis using b(3) d(3-5) g by (simp add: granted_def)
    next
      case asc: False
      let ?bs = "stat_entry c st"
      have len: "length ?bs + 2 \<le> ?needed"
        using asc by (auto simp: stat_entry_def Let_def crlf_def)
      let ?room = "cn_stats_size d - cn_stats_offset d - 1"
      have tk: "take (?room - 1) ?bs = ?bs" using len off by simp
      from put_stats_ok [OF room, of "?bs @ [CHR 0x00]" "length ?bs"] len obtain b where
        b: "put_stats (?bs @ [CHR 0x00]) d = Some (d\<lparr>cn_stats_buffer := Some b\<rparr>)" "length b = cn_stats_size d"
        "take (cn_stats_offset d + length ?bs) b = stats_text d @ ?bs" by auto
      have line: "(if ?key = [] \<and> ?vlen = 0 then ''END'' @ crlf else if ?vlen = 0 then ''STAT '' @ ?key @ crlf
             else ''STAT '' @ ?key @ '' '' @ ?val @ crlf) = ?bs"
        using k asc by (simp add: stat_entry_def Let_def)
      have "append_ascii_stats ?key ?val ?vlen d
          = Some (d\<lparr>cn_stats_buffer := Some b, cn_stats_offset := cn_stats_offset d + length ?bs\<rparr>)"
        using b(1) off len tk unfolding append_ascii_stats_def line Let_def
        by (simp add: nat_diff_distrib of_nat_diff)
      then have "append_stat st c = Some (d\<lparr>cn_stats_buffer := Some b, cn_stats_offset := cn_stats_offset d + length ?bs\<rparr>)"
        using unf True asc off len by simp
      moreover have le: "cn_stats_offset d + length ?bs \<le> cn_stats_size d" using off len by linarith
      moreover note stats_after [OF b(2) le]
      moreover have "0 < cn_stats_size d" using off np by linarith
      ultimately show ?thesis using b(3) d(3-5) g by (simp add: granted_def)
    qed
  qed
qed

text \<open>
  Property C31.
  A \<open>stats\<close> reply never leaves its buffer: appending a report of any length, in either protocol,
  stores within the buffer, which is enlarged as needed; the reply is a run of complete entries,
  in the order of the report. An entry is missing only because memory ran out: as many are missing as allocations were
  refused, so that without a refusal the reply is the whole report. Values up to 126
  characters are assumed for the binary protocol (see the next property).
\<close>

theorem stats_report_fits:
  assumes "stats_ok c" "\<forall>st \<in> set sts. fst st \<noteq> [] \<and> (cn_protocol c = binary_prot \<longrightarrow> length (snd st) \<le> 126)"
  shows "\<exists>d es gs. append_report sts c = Some d \<and> stats_ok d
    \<and> stats_text d = stats_text c @ concat (map (stat_entry c) es) \<and> subseq es sts
    \<and> grants c = gs @ grants d \<and> length gs \<le> length sts
    \<and> (grants d \<noteq> [] \<longrightarrow> length sts = length es + length (filter Not gs))
    \<and> (grants d \<noteq> [] \<and> False \<notin> set gs \<longrightarrow> es = sts)"
proof -
  have "\<exists>d es gs. append_report sts c = Some d \<and> stats_ok d
    \<and> stats_text d = stats_text c @ concat (map (stat_entry c) es) \<and> subseq es sts
    \<and> grants c = gs @ grants d \<and> length gs \<le> length sts
    \<and> (grants d \<noteq> [] \<longrightarrow> length sts = length es + length (filter Not gs))"
    using assms
  proof (induction sts arbitrary: c)
    case Nil
    then show ?case by (intro exI [of _ c] exI [of _ "[]"]) simp
  next
    case (Cons st sts)
    then have k: "fst st \<noteq> []" "cn_protocol c = binary_prot \<longrightarrow> length (snd st) \<le> 126" by simp_all
    from append_stat_ok [OF Cons.prems(1) k] obtain d where d: "append_stat st c = Some d" "stats_ok d"
      "cn_protocol d = cn_protocol c" "cn_opaque d = cn_opaque c"
      "stats_text d = stats_text c \<and> refused c d \<or> stats_text d = stats_text c @ stat_entry c st \<and> granted c d" by blast
    have same: "stat_entry d = stat_entry c" using d(3,4) by (intro ext) (simp add: stat_entry_def Let_def)
    from Cons.IH [OF d(2)] Cons.prems(2) d(3) obtain e es gs where e: "append_report sts d = Some e" "stats_ok e"
      "stats_text e = stats_text d @ concat (map (stat_entry c) es)" "subseq es sts" "grants d = gs @ grants e" "length gs \<le> length sts"
      "grants e \<noteq> [] \<longrightarrow> length sts = length es + length (filter Not gs)" unfolding same by auto
    from d(5) show ?case
    proof (elim disjE conjE)
      assume t: "stats_text d = stats_text c" and r: "refused c d"
      define hs where "hs = (if grants c = [] then [] else [False])"
      have h: "grants c = (hs @ gs) @ grants e" "length hs \<le> 1" "grants e \<noteq> [] \<longrightarrow> length (filter Not hs) = 1"
        using r e(5) by (auto simp: refused_def hs_def)
      show ?thesis using d(1) e t h
        by (intro exI [of _ e] exI [of _ es] exI [of _ "hs @ gs"]) (auto intro: list_emb_Cons)
    next
      assume t: "stats_text d = stats_text c @ stat_entry c st" and r: "granted c d"
      define hs where "hs = (if grants d = grants c then [] else [True])"
      have h: "grants c = (hs @ gs) @ grants e" "length hs \<le> 1" "length (filter Not hs) = 0"
        using r e(5) by (auto simp: granted_def hs_def)
      show ?thesis using d(1) e t h
        by (intro exI [of _ e] exI [of _ "st # es"] exI [of _ "hs @ gs"]) auto
    qed
  qed
  then obtain d es gs where d: "append_report sts c = Some d" "stats_ok d"
    "stats_text d = stats_text c @ concat (map (stat_entry c) es)" "subseq es sts" "grants c = gs @ grants d" "length gs \<le> length sts"
    "grants d \<noteq> [] \<longrightarrow> length sts = length es + length (filter Not gs)" by blast
  have "es = sts" if "grants d \<noteq> []" "False \<notin> set gs"
  proof -
    have "filter Not gs = []" using that(2) by (induction gs) auto
    with d(4,7) that(1) show ?thesis by (simp add: subseq_same_length)
  qed
  with d show ?thesis by blast
qed

definition stats_conn :: "protocol \<Rightarrow> conn" where
  "stats_conn p = (zero_conn [True])\<lparr>cn_protocol := p\<rparr>"

theorem stats_report_fits_witness:
  "\<exists>d. append_report [(''threads'', ''4''), (''inter'', ''NULL'')]
       ((stats_conn ascii_prot)\<lparr>grants := [True, True, True]\<rparr>) = Some d
     \<and> stats_text d = ''STAT threads 4'' @ crlf @ ''STAT inter NULL'' @ crlf"
proof -
  define c where "c = (stats_conn ascii_prot)\<lparr>grants := [True, True, True]\<rparr>"
  define sts where "sts = [(''threads'', ''4''), (''inter'', ''NULL'')]"
  have c: "stats_ok c" "stats_text c = []" "cn_protocol c = ascii_prot" "grants c = [True, True, True]"
    by (simp_all add: c_def stats_ok_def stats_text_def stats_conn_def zero_conn_def)
  have k: "\<forall>st \<in> set sts. fst st \<noteq> [] \<and> (cn_protocol c = binary_prot \<longrightarrow> length (snd st) \<le> 126)" and l: "length sts = 2"
    by (simp_all add: sts_def c(3))
  from stats_report_fits [OF c(1) k] obtain d es gs where d: "append_report sts c = Some d"
    "stats_text d = concat (map (stat_entry c) es)" "[True, True, True] = gs @ grants d" "length gs \<le> 2"
    "grants d \<noteq> [] \<and> False \<notin> set gs \<longrightarrow> es = sts"
    unfolding c(2,4) l by auto
  have "grants d \<noteq> []" using d(3,4) by (cases "grants d") auto
  moreover have "False \<notin> set (gs @ grants d)" unfolding d(3) [symmetric] by simp
  ultimately have "stats_text d = concat (map (stat_entry c) sts)" using d(2,5) by simp
  also have "\<dots> = ''STAT threads 4'' @ crlf @ ''STAT inter NULL'' @ crlf" using c(3) by (simp add: stat_entry_def sts_def)
  finally show ?thesis using d(1) unfolding c_def sts_def by blast
qed

text \<open>
  \<open>append_stat\<close> passes on the length that \<open>vsnprintf\<close> reports, not the length that it stored: in the
  binary protocol a value of 127 characters or more, such as a long list of interfaces or a long
  socket path, makes \<open>append_bin_stats\<close> copy bytes from behind the text in \<open>val_str\<close>, and from
  behind the array itself when the value has more than 128.
\<close>

theorem stat_value_overread:
  assumes "cn_protocol c = binary_prot" "fst st \<noteq> []" "126 < length (snd st)"
    and "grow_stats_buf (length (snd st) + length (fst st) + 24) c = Some (True, d)"
  shows "append_stat st c = None"
  using assms by (simp add: append_stat_def append_stats_def append_bin_stats_def Let_def)

theorem stat_value_overread_witness:
  "append_stat (''inter'', replicate 200 (CHR ''1'')) (stats_conn binary_prot) = None"
proof -
  have "grow_stats_buf 229 (stats_conn binary_prot) = Some (True, (stats_conn binary_prot)\<lparr>grants := [],
      cn_stats_buffer := Some (replicate 2048 (CHR 0x00)), cn_stats_size := 2048\<rparr>)"
    by (simp add: grow_stats_buf_def stats_conn_def zero_conn_def grow_size.simps grant_def)
  from stat_value_overread [of "stats_conn binary_prot" "(''inter'', replicate 200 (CHR ''1''))", OF _ _ _] this
  show ?thesis by (simp add: stats_conn_def)
qed

end
