(* ===== verification/Ascii.thy ===== *)
theory Ascii
  imports Stats
begin

text \<open>
  The text protocol (\<open>memcached.c\<close>): the handler of each command and \<open>process_command\<close>, which cuts
  the line into tokens and calls it. A handler leaves the connection in the state in which the state
  machine goes on: sending a line, sending items, or reading the data block of a storage command.
\<close>

section \<open>Retrieval\<close>

text \<open>\<open>noreply\<close> is the last word of the line.\<close>

definition set_noreply_maybe :: "token list \<Rightarrow> 'a server_scheme \<Rightarrow> bool \<times> 'a server_scheme" where
  "set_noreply_maybe tokens s = (let
     s = (if 2 \<le> length tokens \<and> tok tokens (length tokens - 2) = Some ''noreply''
          then upd_con (\<lambda>c. c\<lparr>cn_noreply := True\<rparr>) s else s)
   in (cn_noreply (con s), s))"

text \<open>The pieces of a reply, added until one fails.\<close>

fun add_iovs :: "(iosrc \<times> int) list \<Rightarrow> 'a server_scheme \<Rightarrow> (bool \<times> 'a server_scheme) option" where
  "add_iovs [] s = Some (True, s)"
| "add_iovs ((src, len) # vs) s = do {
     (r, s) \<leftarrow> on_con (add_iov src 0 len) s;
     if r \<noteq> 0 then Some (False, s) else add_iovs vs s }"

definition grow_ilist :: "nat \<Rightarrow> conn \<Rightarrow> bool \<times> conn" where
  "grow_ilist i c = (if cn_isize c \<le> i then
     (case grant c of (ok, c) \<Rightarrow>
        (ok, if ok then c\<lparr>cn_isize := cn_isize c * 2,
               cn_ilist := cn_ilist c @ replicate (cn_isize c * 2 - length (cn_ilist c)) NULL\<rparr> else c))
     else (True, c))"

definition grow_suffixlist :: "nat \<Rightarrow> conn \<Rightarrow> bool \<times> conn" where
  "grow_suffixlist i c = (if cn_suffixsize c \<le> i then
     (case grant c of (ok, c) \<Rightarrow>
        (ok, if ok then c\<lparr>cn_suffixsize := cn_suffixsize c * 2,
               cn_suffixlist := cn_suffixlist c @ replicate (cn_suffixsize c * 2 - length (cn_suffixlist c)) NULL\<rparr> else c))
     else (True, c))"

definition set_ilist :: "nat \<Rightarrow> addr \<Rightarrow> 'a server_scheme \<Rightarrow> 'a server_scheme option" where
  "set_ilist i it s = (if i < length (cn_ilist (con s))
     then Some (upd_con (\<lambda>c. c\<lparr>cn_ilist := (cn_ilist c)[i := it]\<rparr>) s) else None)"

definition set_suffixlist :: "nat \<Rightarrow> addr \<Rightarrow> 'a server_scheme \<Rightarrow> 'a server_scheme option" where
  "set_suffixlist i p s = (if i < length (cn_suffixlist (con s))
     then Some (upd_con (\<lambda>c. c\<lparr>cn_suffixlist := (cn_suffixlist c)[i := p]\<rparr>) s) else None)"

text \<open>What becomes of one key: the handler returns, the loop is left, or it goes on with the next key.\<close>

datatype 's get_step = Returned 's | Broken 's | Served nat 's

definition broken :: "addr \<Rightarrow> 'a server_scheme \<Rightarrow> 'a server_scheme get_step option" where
  "broken it s = map_option Broken (item_remove it s)"

text \<open>\<open>snprintf\<close> of a CAS number into a buffer of the suffix cache; the null character is stored too.\<close>

definition cas_suffix :: "u64 \<Rightarrow> string" where
  "cas_suffix cas = take (SUFFIX_SIZE - 1) ('' '' @ u64s cas @ crlf)"

definition write_suffix :: "addr \<Rightarrow> u64 \<Rightarrow> 'a server_scheme \<Rightarrow> 'a server_scheme" where
  "write_suffix p cas s = s\<lparr>suffix_cache := (suffix_cache s)\<lparr>c_heap :=
     write_bytes p (map of_char (cas_suffix cas @ [CHR 0x00])) (c_heap (suffix_cache s))\<rparr>\<rparr>"

definition count_get :: "addr \<Rightarrow> 'a server_scheme \<Rightarrow> 'a server_scheme" where
  "count_get it s = upd_tstats (\<lambda>t. t\<lparr>get_cmds := get_cmds t + 1\<rparr>)
     (upd_slab_stats (it_slabs_clsid (mem s it)) (\<lambda>t. t\<lparr>get_hits := get_hits t + 1\<rparr>) s)"

definition get_served :: "nat \<Rightarrow> addr \<Rightarrow> 'a server_scheme \<Rightarrow> 'a server_scheme get_step option" where
  "get_served i it s = do {
     s \<leftarrow> item_update it (count_get it s);
     s \<leftarrow> set_ilist i it s;
     Some (Served (i + 1) s) }"

definition get_with_cas :: "nat \<Rightarrow> addr \<Rightarrow> 'a server_scheme \<Rightarrow> 'a server_scheme get_step option" where
  "get_with_cas i it s = (case grow_suffixlist i (con s) of (ok, c) \<Rightarrow> let s = s\<lparr>con := c\<rparr> in
     if \<not> ok then broken it s
     else (case cache_alloc (suffix_cache s) of (sfx, k) \<Rightarrow> let s = s\<lparr>suffix_cache := k\<rparr> in
       if sfx = NULL then do {
         s \<leftarrow> out_string ''SERVER_ERROR out of memory making CAS suffix'' s;
         map_option Returned (item_remove it s) }
       else do {
         s \<leftarrow> set_suffixlist i sfx s;
         let cas = ITEM_get_cas (mem s it);
         let s = write_suffix sfx cas s;
         let m = mem s it;
         (ok, s) \<leftarrow> add_iovs [(IO_lit ''VALUE '', 6), (IO_key it, uint (it_nkey m)),
             (IO_suffix it, uint (it_nsuffix m) - 2), (IO_sufbuf sfx, int (length (cas_suffix cas))),
             (IO_data it, sint (it_nbytes m))] s;
         if \<not> ok then broken it s else get_served i it s }))"

definition get_plain :: "nat \<Rightarrow> addr \<Rightarrow> 'a server_scheme \<Rightarrow> 'a server_scheme get_step option" where
  "get_plain i it s = do {
     let m = mem s it;
     (ok, s) \<leftarrow> add_iovs [(IO_lit ''VALUE '', 6), (IO_key it, uint (it_nkey m)),
         (IO_suffix it, uint (it_nsuffix m) + sint (it_nbytes m))] s;
     if \<not> ok then broken it s else get_served i it s }"

definition get_key :: "bool \<Rightarrow> string \<Rightarrow> nat \<Rightarrow> 'a server_scheme \<Rightarrow> 'a server_scheme get_step option" where
  "get_key return_cas key i s = do {
     (it, s) \<leftarrow> item_get key s;
     let s = (if detail_enabled (settings s) \<noteq> 0
       then s\<lparr>prefixes := stats_prefix_record_get (prefix_delimiter (settings s)) key (it \<noteq> NULL) (prefixes s)\<rparr> else s);
     if it = NULL then
       Some (Served i (upd_tstats (\<lambda>t. t\<lparr>get_misses := get_misses t + 1, get_cmds := get_cmds t + 1\<rparr>) s))
     else (case grow_ilist i (con s) of (ok, c) \<Rightarrow> let s = s\<lparr>con := c\<rparr> in
       if \<not> ok then broken it s
       else if return_cas then get_with_cas i it s else get_plain i it s) }"

text \<open>
  The two nested loops, on the token array, the index of \<open>key_token\<close> and the number of items found.
  \<open>Inl\<close> is the early return. Leaving the inner loop in the middle makes the outer one go on with the
  tokens of the key itself.
\<close>

partial_function (option) get_loop :: "bool \<Rightarrow> token list \<Rightarrow> nat \<Rightarrow> nat \<Rightarrow> 'a server_scheme
    \<Rightarrow> ('a server_scheme + nat \<times> 'a server_scheme) option" where
  "get_loop return_cas tokens j i s =
     (if length tokens \<le> j then None
      else let t = tokens ! j in
        (case tk_value t of
           None \<Rightarrow> if tk_length t \<noteq> 0 then None else Some (Inr (i, s))
         | Some v \<Rightarrow>
             if tk_length t \<noteq> 0 then
               (if KEY_MAX_LENGTH < tk_length t
                then map_option Inl (out_string ''CLIENT_ERROR bad command line format'' s)
                else Option.bind (get_key return_cas v i s) (\<lambda>r. case r of
                    Returned s \<Rightarrow> Some (Inl s)
                  | Served i s \<Rightarrow> get_loop return_cas tokens (j + 1) i s
                  | Broken s \<Rightarrow> get_loop return_cas (tokenize_command v MAX_TOKENS) 0 i s))
             else get_loop return_cas (tokenize_command v MAX_TOKENS) 0 i s))"

definition process_get_command :: "token list \<Rightarrow> bool \<Rightarrow> 'a server_scheme \<Rightarrow> 'a server_scheme option" where
  "process_get_command tokens return_cas s =
     Option.bind (get_loop return_cas tokens KEY_TOKEN 0 s) (\<lambda>r. case r of
       Inl s \<Rightarrow> Some s
     | Inr (i, s) \<Rightarrow> do {
         let s = upd_con (\<lambda>c. c\<lparr>cn_icurr := 0, cn_ileft := int i\<rparr>) s;
         let s = (if return_cas then upd_con (\<lambda>c. c\<lparr>cn_suffixcurr := 0, cn_suffixleft := int i\<rparr>) s else s);
         (r, s) \<leftarrow> on_con (add_iov (IO_lit (''END'' @ crlf)) 0 5) s;
         (ok, s) \<leftarrow> (if r = 0 \<and> IS_UDP (cn_transport (con s))
           then map_option (\<lambda>(r, s). (r = 0, s)) (on_con build_udp_headers s) else Some (r = 0, s));
         if \<not> ok then out_string ''SERVER_ERROR out of memory writing get response'' s
         else map_option (upd_con (\<lambda>c. c\<lparr>cn_msgcurr := 0\<rparr>)) (conn_set_state conn_mwrite s) })"

section \<open>Storage\<close>

text \<open>\<open>int\<close> addition of two bytes for the line end, which wraps around at the largest value.\<close>

definition data_length :: "u32 \<Rightarrow> u32" where "data_length vlen = vlen + 2"

definition process_update_command :: "token list \<Rightarrow> int \<Rightarrow> bool \<Rightarrow> 'a server_scheme \<Rightarrow> 'a server_scheme option" where
  "process_update_command tokens comm handle_cas s = (let
     s = snd (set_noreply_maybe tokens s);
     bad = out_string ''CLIENT_ERROR bad command line format'' in
   if KEY_MAX_LENGTH < tk_length (tokens ! KEY_TOKEN) then bad s
   else do {
     key \<leftarrow> tok tokens KEY_TOKEN;
     t2 \<leftarrow> tok tokens 2;
     t3 \<leftarrow> tok tokens 3;
     t4 \<leftarrow> tok tokens 4;
     let (ok2, flags) = safe_strtoul t2;
     let (ok3, exptime_int) = safe_strtol t3;
     let (ok4, vlen) = safe_strtol t4;
     let s = (if \<not> ok2 then errno_safe (strtoull t2) s else if \<not> ok3 then errno_safe (strtoll t3) s
              else errno_safe (strtoll t4) s);
     if \<not> (ok2 \<and> ok3 \<and> ok4) then bad s
     else do {
       let exptime = (if sint exptime_int < 0 then REALTIME_MAXDELTA + 1 else sint exptime_int);
       (ok5, req_cas_id, s) \<leftarrow> (if handle_cas
          then map_option (\<lambda>t5. (fst (safe_strtoull t5), snd (safe_strtoull t5), errno_safe (strtoull t5) s)) (tok tokens 5)
          else Some (True, 0, s));
       let vlen = data_length vlen;
       if \<not> ok5 then bad s
       else if sint vlen < 0 \<or> sint (vlen - 2) < 0 then bad s
       else do {
         let s = (if detail_enabled (settings s) \<noteq> 0
           then s\<lparr>prefixes := stats_prefix_record_set (prefix_delimiter (settings s)) key (prefixes s)\<rparr> else s);
         (it, s) \<leftarrow> item_alloc key flags (realtime exptime s) vlen s;
         if it = NULL then do {
           s \<leftarrow> out_string (if \<not> item_size_ok (length key) flags vlen s then ''SERVER_ERROR object too large for cache''
                  else ''SERVER_ERROR out of memory storing object'') s;
           let s = upd_con (\<lambda>c. c\<lparr>cn_write_and_go := conn_swallow, cn_sbytes := sint vlen\<rparr>) s;
           if comm = NREAD_SET then do {
             (it, s) \<leftarrow> item_get key s;
             if it \<noteq> NULL then Option.bind (item_unlink it s) (item_remove it) else Some s }
           else Some s }
         else do {
           let s = upd_item it (ITEM_set_cas req_cas_id) s;
           let s = upd_con (\<lambda>c. c\<lparr>cn_item := it, cn_ritem := (R_item it, 0), cn_rlbytes := sint (it_nbytes (mem s it)),
             cn_cmd := comm\<rparr>) s;
           conn_set_state conn_nread s } } } })"

section \<open>Touch, counters and deletion\<close>

definition process_touch_command :: "token list \<Rightarrow> 'a server_scheme \<Rightarrow> 'a server_scheme option" where
  "process_touch_command tokens s = (let s = snd (set_noreply_maybe tokens s) in
   if KEY_MAX_LENGTH < tk_length (tokens ! KEY_TOKEN)
   then out_string ''CLIENT_ERROR bad command line format'' s
   else do {
     key \<leftarrow> tok tokens KEY_TOKEN;
     t2 \<leftarrow> tok tokens 2;
     let (ok, exptime_int) = safe_strtol t2;
     let s = errno_safe (strtoll t2) s;
     if \<not> ok then out_string ''CLIENT_ERROR invalid exptime argument'' s
     else do {
       (it, s) \<leftarrow> item_touch key (realtime (sint exptime_int) s) s;
       if it \<noteq> NULL then do {
         s \<leftarrow> item_update it s;
         let s = upd_tstats (\<lambda>t. t\<lparr>touch_cmds := touch_cmds t + 1\<rparr>) s;
         let s = upd_slab_stats (it_slabs_clsid (mem s it)) (\<lambda>t. t\<lparr>touch_hits := touch_hits t + 1\<rparr>) s;
         s \<leftarrow> out_string ''TOUCHED'' s;
         item_remove it s }
       else out_string ''NOT_FOUND''
         (upd_tstats (\<lambda>t. t\<lparr>touch_cmds := touch_cmds t + 1, touch_misses := touch_misses t + 1\<rparr>) s) } })"

definition process_arithmetic_command :: "token list \<Rightarrow> bool \<Rightarrow> 'a server_scheme \<Rightarrow> 'a server_scheme option" where
  "process_arithmetic_command tokens incr s = (let s = snd (set_noreply_maybe tokens s) in
   if KEY_MAX_LENGTH < tk_length (tokens ! KEY_TOKEN)
   then out_string ''CLIENT_ERROR bad command line format'' s
   else do {
     key \<leftarrow> tok tokens KEY_TOKEN;
     t2 \<leftarrow> tok tokens 2;
     let (ok, delta) = safe_strtoull t2;
     let s = errno_safe (strtoull t2) s;
     if \<not> ok then out_string ''CLIENT_ERROR invalid numeric delta argument'' s
     else do {
       (r, temp, cas, s) \<leftarrow> add_delta key incr delta None s;
       case r of
         OK \<Rightarrow> out_string temp s
       | NON_NUMERIC \<Rightarrow> out_string ''CLIENT_ERROR cannot increment or decrement non-numeric value'' s
       | EOM \<Rightarrow> out_string ''SERVER_ERROR out of memory'' s
       | DELTA_ITEM_NOT_FOUND \<Rightarrow> out_string ''NOT_FOUND'' (upd_tstats (\<lambda>t. if incr
            then t\<lparr>incr_misses := incr_misses t + 1\<rparr> else t\<lparr>decr_misses := decr_misses t + 1\<rparr>) s)
       | DELTA_ITEM_CAS_MISMATCH \<Rightarrow> Some s } })"

definition process_delete_command :: "token list \<Rightarrow> 'a server_scheme \<Rightarrow> 'a server_scheme option" where
  "process_delete_command tokens s = (let
     ntokens = length tokens;
     hold_is_zero = (tok tokens (KEY_TOKEN + 1) = Some ''0'');
     (sets_noreply, s) = (if 3 < ntokens then set_noreply_maybe tokens s else (False, s));
     valid = (ntokens = 4 \<and> (hold_is_zero \<or> sets_noreply) \<or> ntokens = 5 \<and> hold_is_zero \<and> sets_noreply) in
   if 3 < ntokens \<and> \<not> valid
   then out_string ''CLIENT_ERROR bad command line format.  Usage: delete <key> [noreply]'' s
   else if KEY_MAX_LENGTH < tk_length (tokens ! KEY_TOKEN)
   then out_string ''CLIENT_ERROR bad command line format'' s
   else do {
     key \<leftarrow> tok tokens KEY_TOKEN;
     let s = (if detail_enabled (settings s) \<noteq> 0
       then s\<lparr>prefixes := stats_prefix_record_delete (prefix_delimiter (settings s)) key (prefixes s)\<rparr> else s);
     (it, s) \<leftarrow> item_get key s;
     if it \<noteq> NULL then do {
       let s = upd_slab_stats (it_slabs_clsid (mem s it)) (\<lambda>t. t\<lparr>delete_hits := delete_hits t + 1\<rparr>) s;
       s \<leftarrow> item_unlink it s;
       s \<leftarrow> item_remove it s;
       out_string ''DELETED'' s }
     else out_string ''NOT_FOUND'' (upd_tstats (\<lambda>t. t\<lparr>delete_misses := delete_misses t + 1\<rparr>) s) })"

section \<open>Administration\<close>

definition MAX_VERBOSITY_LEVEL :: nat where "MAX_VERBOSITY_LEVEL = 2"

text \<open>\<open>strtoul\<close> and \<open>strtol\<close> as the source uses them: the value, 0 when there is no number.\<close>

definition strtoul_value :: "string \<Rightarrow> u64" where
  "strtoul_value str = (case strtoull str of None \<Rightarrow> 0 | Some (v, _, _) \<Rightarrow> v)"

definition strtol_value :: "string \<Rightarrow> int" where
  "strtol_value str = (case strtoll str of None \<Rightarrow> 0 | Some (v, _, _) \<Rightarrow> v)"

definition process_verbosity_command :: "token list \<Rightarrow> 'a server_scheme \<Rightarrow> 'a server_scheme option" where
  "process_verbosity_command tokens s = do {
     let s = snd (set_noreply_maybe tokens s);
     t1 \<leftarrow> tok tokens 1;
     let level = unat (ucast (strtoul_value t1) :: u32);
     let s = errno_plain (strtoull t1) s;
     out_string ''OK'' (s\<lparr>settings := (settings s)\<lparr>verbose :=
       (if MAX_VERBOSITY_LEVEL < level then int MAX_VERBOSITY_LEVEL else int level)\<rparr>\<rparr>) }"

definition process_slabs_automove_command :: "token list \<Rightarrow> 'a server_scheme \<Rightarrow> 'a server_scheme option" where
  "process_slabs_automove_command tokens s = do {
     let s = snd (set_noreply_maybe tokens s);
     t2 \<leftarrow> tok tokens 2;
     let level = unat (ucast (strtoul_value t2) :: u32);
     let s = errno_plain (strtoull t2) s;
     if level = 0 \<or> level = 1 \<or> level = 2 then out_string ''OK'' (s\<lparr>settings := (settings s)\<lparr>slab_automove := int level\<rparr>\<rparr>)
     else out_string ''ERROR'' s }"

definition set_oldest_live :: "u32 \<Rightarrow> 'a server_scheme \<Rightarrow> 'a server_scheme" where
  "set_oldest_live t s = s\<lparr>settings := (settings s)\<lparr>oldest_live := t\<rparr>\<rparr>"

definition process_flush_all :: "token list \<Rightarrow> 'a server_scheme \<Rightarrow> 'a server_scheme option" where
  "process_flush_all tokens s = (let
     s = snd (set_noreply_maybe tokens s);
     s = upd_tstats (\<lambda>t. t\<lparr>flush_cmds := flush_cmds t + 1\<rparr>) s;
     flush = (\<lambda>s. Option.bind (item_flush_expired s) (out_string ''OK'')) in
   if length tokens = (if cn_noreply (con s) then 3 else 2) then flush (set_oldest_live (current_time s - 1) s)
   else do {
     t1 \<leftarrow> tok tokens 1;
     let exptime = strtol_value t1;
     let s = errno_plain (strtoll t1) s;
     if errno_range s then out_string ''CLIENT_ERROR bad command line format'' s
     else flush (set_oldest_live (if 0 < exptime then realtime exptime s - 1 else current_time s - 1) s) })"

definition reassign_text :: "reassign_result \<Rightarrow> string" where
  "reassign_text rv = (case rv of REASSIGN_OK \<Rightarrow> ''OK''
     | REASSIGN_RUNNING \<Rightarrow> ''BUSY currently processing reassign request''
     | REASSIGN_BADCLASS \<Rightarrow> ''BADCLASS invalid src or dst class id''
     | REASSIGN_NOSPARE \<Rightarrow> ''NOSPARE source class has no spare pages''
     | REASSIGN_SRC_DST_SAME \<Rightarrow> ''SAME src and dst class are identical'')"

text \<open>The class numbers are \<open>int\<close>s: the 64-bit values are truncated.\<close>

definition process_slabs_command :: "token list \<Rightarrow> 'a server_scheme \<Rightarrow> 'a server_scheme option" where
  "process_slabs_command tokens s =
     (if length tokens = 5 \<and> tok tokens 1 = Some ''reassign'' then
        (if \<not> slab_reassign (settings s) then out_string ''CLIENT_ERROR slab reassignment disabled'' s
         else do {
           t2 \<leftarrow> tok tokens 2;
           t3 \<leftarrow> tok tokens 3;
           let s = errno_plain (strtoll t3) (errno_plain (strtoll t2) s);
           if errno_range s then out_string ''CLIENT_ERROR bad command line format'' s
           else (case slabs_reassign (sint (word_of_int (strtol_value t2) :: u32))
                        (sint (word_of_int (strtol_value t3) :: u32)) s of
             (rv, s) \<Rightarrow> out_string (reassign_text rv) s) })
      else if length tokens = 4 \<and> tok tokens 1 = Some ''automove'' then process_slabs_automove_command tokens s
      else out_string ''ERROR'' s)"

section \<open>Commands\<close>

text \<open>The storage command that a word names.\<close>

definition update_command :: "string \<Rightarrow> int option" where
  "update_command w = (if w = ''add'' then Some NREAD_ADD else if w = ''set'' then Some NREAD_SET
     else if w = ''replace'' then Some NREAD_REPLACE else if w = ''prepend'' then Some NREAD_PREPEND
     else if w = ''append'' then Some NREAD_APPEND else None)"

text \<open>
  \<open>ramcube\<close> is \<open>ramcube_process_commands\<close> with the rest of the input, which gets the commands that
  memcached does not know when a RAMCube configuration was given; the second result is what
  \<open>process_command\<close> returns. A line without a word has no command token to compare, so that it only
  passes the tests of the number of tokens.
\<close>

definition process_command :: "os_info \<Rightarrow> (token list \<Rightarrow> 'a server_scheme \<Rightarrow> (u64 \<times> 'a server_scheme) option)
    \<Rightarrow> string \<Rightarrow> 'a server_scheme \<Rightarrow> (u64 \<times> 'a server_scheme) option" where
  "process_command os ramcube command s = do {
     let s = upd_con (\<lambda>c. c\<lparr>cn_msgcurr := 0, cn_msgused := 0, cn_iovused := 0\<rparr>) s;
     (r, s) \<leftarrow> on_con add_msghdr s;
     if r \<noteq> 0 then map_option (Pair 0) (out_string ''SERVER_ERROR out of memory preparing response'' s)
     else let
       tokens = tokenize_command command MAX_TOKENS;
       n = length tokens;
       is = (\<lambda>w. tok tokens COMMAND_TOKEN = Some w);
       comm = Option.bind (tok tokens COMMAND_TOKEN) update_command;
       done = map_option (Pair (0 :: u64)) in
     if 3 \<le> n \<and> (is ''get'' \<or> is ''bget'') then done (process_get_command tokens False s)
     else if (n = 6 \<or> n = 7) \<and> comm \<noteq> None then done (process_update_command tokens (the comm) False s)
     else if (n = 7 \<or> n = 8) \<and> is ''cas'' then done (process_update_command tokens NREAD_CAS True s)
     else if (n = 4 \<or> n = 5) \<and> is ''incr'' then done (process_arithmetic_command tokens True s)
     else if 3 \<le> n \<and> is ''gets'' then done (process_get_command tokens True s)
     else if (n = 4 \<or> n = 5) \<and> is ''decr'' then done (process_arithmetic_command tokens False s)
     else if 3 \<le> n \<and> n \<le> 5 \<and> is ''delete'' then done (process_delete_command tokens s)
     else if (n = 4 \<or> n = 5) \<and> is ''touch'' then done (process_touch_command tokens s)
     else if 2 \<le> n \<and> is ''stats'' then done (process_stat os tokens s)
     else if 2 \<le> n \<and> n \<le> 4 \<and> is ''flush_all'' then done (process_flush_all tokens s)
     else if n = 2 \<and> is ''version'' then done (out_string (''VERSION '' @ os_version os) s)
     else if n = 2 \<and> is ''quit'' then done (conn_set_state conn_closing s)
     else if 1 < n \<and> is ''slabs'' then done (process_slabs_command tokens s)
     else if (n = 3 \<or> n = 4) \<and> is ''verbosity'' then done (process_verbosity_command tokens s)
     else if ramcube_config_file s \<noteq> None then do {
       (rtn, s) \<leftarrow> ramcube tokens s;
       if rtn = 0 then map_option (Pair 0) (conn_set_state conn_new_cmd s)
       else if rtn = 1 \<or> rtn = 2 then Some (rtn, s)
       else done (out_string ''ERROR'' s) }
     else done (out_string ''ERROR'' s) }"

section \<open>The data block of a storage command\<close>

text \<open>
  \<open>complete_nread_ascii\<close>: \<open>post\<close> is \<open>ramcube_post_set_data\<close>, called for a stored item when a RAMCube
  configuration was given. The comparison of the last two bytes with the line end stops at a null
  character, so a missing byte counts as different.
\<close>

definition complete_nread_ascii :: "('a server_scheme \<Rightarrow> (u64 \<times> 'a server_scheme) option) \<Rightarrow> 'a server_scheme
    \<Rightarrow> 'a server_scheme option" where
  "complete_nread_ascii post s = do {
     let it = cn_item (con s);
     let s = upd_slab_stats (it_slabs_clsid (mem s it)) (\<lambda>t. t\<lparr>set_cmds := set_cmds t + 1\<rparr>) s;
     s \<leftarrow> (if take 2 (drop (item_nbytes (mem s it) - 2) (it_value (mem s it))) \<noteq> crlf
          then out_string ''CLIENT_ERROR bad data chunk'' s
          else do {
            (ret, s) \<leftarrow> store_item it (cn_cmd (con s)) s;
            case ret of
              STORED \<Rightarrow>
                if ramcube_config_file s \<noteq> None then do {
                  (rtn, s) \<leftarrow> post s;
                  if rtn = 0 then conn_set_state conn_new_cmd s
                  else out_string (take 99 (''BACKUP_REPLY '' @ u64s rtn)) s }
                else out_string ''STORED'' s
            | EXISTS \<Rightarrow> out_string ''EXISTS'' s
            | NOT_FOUND \<Rightarrow> out_string ''NOT_FOUND'' s
            | NOT_STORED \<Rightarrow> out_string ''NOT_STORED'' s });
     s \<leftarrow> item_remove (cn_item (con s)) s;
     Some (upd_con (\<lambda>c. c\<lparr>cn_item := NULL\<rparr>) s) }"

end
