(* ===== verification/Binary.thy ===== *)
theory Binary
  imports Ascii
begin

text \<open>
  The binary protocol (\<open>protocol_binary.h\<close>, \<open>memcached.c\<close>): how a request lies in the read buffer, how
  a response is put together, and the handler of each command. A request is read in two steps: the
  state machine reads the header, \<open>dispatch_bin_command\<close> decides how many bytes of extras and key
  have to follow, and when they are there \<open>complete_nread_binary\<close> calls the handler. The build is the
  one without SASL, where the functions of that library are macros with fixed results.
\<close>

section \<open>Constants\<close>

definition PROTOCOL_BINARY_REQ :: nat where "PROTOCOL_BINARY_REQ = 0x80"

abbreviation (input) CMD_GET :: int where "CMD_GET \<equiv> 0x00"
abbreviation (input) CMD_SET :: int where "CMD_SET \<equiv> 0x01"
abbreviation (input) CMD_ADD :: int where "CMD_ADD \<equiv> 0x02"
abbreviation (input) CMD_REPLACE :: int where "CMD_REPLACE \<equiv> 0x03"
abbreviation (input) CMD_DELETE :: int where "CMD_DELETE \<equiv> 0x04"
abbreviation (input) CMD_INCREMENT :: int where "CMD_INCREMENT \<equiv> 0x05"
abbreviation (input) CMD_DECREMENT :: int where "CMD_DECREMENT \<equiv> 0x06"
abbreviation (input) CMD_QUIT :: int where "CMD_QUIT \<equiv> 0x07"
abbreviation (input) CMD_FLUSH :: int where "CMD_FLUSH \<equiv> 0x08"
abbreviation (input) CMD_GETQ :: int where "CMD_GETQ \<equiv> 0x09"
abbreviation (input) CMD_NOOP :: int where "CMD_NOOP \<equiv> 0x0a"
abbreviation (input) CMD_VERSION :: int where "CMD_VERSION \<equiv> 0x0b"
abbreviation (input) CMD_GETK :: int where "CMD_GETK \<equiv> 0x0c"
abbreviation (input) CMD_GETKQ :: int where "CMD_GETKQ \<equiv> 0x0d"
abbreviation (input) CMD_APPEND :: int where "CMD_APPEND \<equiv> 0x0e"
abbreviation (input) CMD_PREPEND :: int where "CMD_PREPEND \<equiv> 0x0f"
abbreviation (input) CMD_STAT :: int where "CMD_STAT \<equiv> 0x10"
abbreviation (input) CMD_SETQ :: int where "CMD_SETQ \<equiv> 0x11"
abbreviation (input) CMD_ADDQ :: int where "CMD_ADDQ \<equiv> 0x12"
abbreviation (input) CMD_REPLACEQ :: int where "CMD_REPLACEQ \<equiv> 0x13"
abbreviation (input) CMD_DELETEQ :: int where "CMD_DELETEQ \<equiv> 0x14"
abbreviation (input) CMD_INCREMENTQ :: int where "CMD_INCREMENTQ \<equiv> 0x15"
abbreviation (input) CMD_DECREMENTQ :: int where "CMD_DECREMENTQ \<equiv> 0x16"
abbreviation (input) CMD_QUITQ :: int where "CMD_QUITQ \<equiv> 0x17"
abbreviation (input) CMD_FLUSHQ :: int where "CMD_FLUSHQ \<equiv> 0x18"
abbreviation (input) CMD_APPENDQ :: int where "CMD_APPENDQ \<equiv> 0x19"
abbreviation (input) CMD_PREPENDQ :: int where "CMD_PREPENDQ \<equiv> 0x1a"
abbreviation (input) CMD_TOUCH :: int where "CMD_TOUCH \<equiv> 0x1c"
abbreviation (input) CMD_GAT :: int where "CMD_GAT \<equiv> 0x1d"
abbreviation (input) CMD_GATQ :: int where "CMD_GATQ \<equiv> 0x1e"
abbreviation (input) CMD_GATK :: int where "CMD_GATK \<equiv> 0x23"
abbreviation (input) CMD_GATKQ :: int where "CMD_GATKQ \<equiv> 0x24"
abbreviation (input) CMD_SASL_LIST_MECHS :: int where "CMD_SASL_LIST_MECHS \<equiv> 0x20"
abbreviation (input) CMD_SASL_AUTH :: int where "CMD_SASL_AUTH \<equiv> 0x21"
abbreviation (input) CMD_SASL_STEP :: int where "CMD_SASL_STEP \<equiv> 0x22"

abbreviation (input) RESPONSE_KEY_ENOENT :: nat where "RESPONSE_KEY_ENOENT \<equiv> 0x01"
abbreviation (input) RESPONSE_KEY_EEXISTS :: nat where "RESPONSE_KEY_EEXISTS \<equiv> 0x02"
abbreviation (input) RESPONSE_E2BIG :: nat where "RESPONSE_E2BIG \<equiv> 0x03"
abbreviation (input) RESPONSE_EINVAL :: nat where "RESPONSE_EINVAL \<equiv> 0x04"
abbreviation (input) RESPONSE_NOT_STORED :: nat where "RESPONSE_NOT_STORED \<equiv> 0x05"
abbreviation (input) RESPONSE_DELTA_BADVAL :: nat where "RESPONSE_DELTA_BADVAL \<equiv> 0x06"
abbreviation (input) RESPONSE_AUTH_ERROR :: nat where "RESPONSE_AUTH_ERROR \<equiv> 0x20"
abbreviation (input) RESPONSE_AUTH_CONTINUE :: nat where "RESPONSE_AUTH_CONTINUE \<equiv> 0x21"
abbreviation (input) RESPONSE_UNKNOWN_COMMAND :: nat where "RESPONSE_UNKNOWN_COMMAND \<equiv> 0x81"
abbreviation (input) RESPONSE_ENOMEM :: nat where "RESPONSE_ENOMEM \<equiv> 0x82"

text \<open>The sizes of the headers, and of a printed counter.\<close>

definition HEADER_LEN :: nat where "HEADER_LEN = 24"
definition INCR_MAX_STORAGE_LEN :: nat where "INCR_MAX_STORAGE_LEN = 24"

section \<open>The request in the read buffer\<close>

text \<open>A field in network order.\<close>

definition be_val :: "string \<Rightarrow> nat" where
  "be_val bs = foldl (\<lambda>n b. n * 256 + of_char b) 0 bs"

text \<open>The positions in \<open>rbuf\<close> of the request and of its key, once they have been read.\<close>

definition binary_get_request :: "conn \<Rightarrow> nat option" where
  "binary_get_request c = (let n = HEADER_LEN + unat (bh_keylen (cn_header c)) + unat (bh_extlen (cn_header c)) in
     if n \<le> cn_rcurr c then Some (cn_rcurr c - n) else None)"

definition binary_get_key :: "conn \<Rightarrow> nat option" where
  "binary_get_key c = (let n = unat (bh_keylen (cn_header c)) in
     if n \<le> cn_rcurr c then Some (cn_rcurr c - n) else None)"

definition request_key :: "conn \<Rightarrow> string option" where
  "request_key c = Option.bind (binary_get_key c) (\<lambda>off.
     if cn_rcurr c \<le> length (cn_rbuf c) then Some (take (unat (bh_keylen (cn_header c))) (drop off (cn_rbuf c))) else None)"

text \<open>
  \<open>ntohl\<close> or \<open>ntohll\<close> of a field of \<open>n\<close> bytes. \<open>swap_field\<close> also stores the result back, as the
  handlers of updates and counters do: on a little-endian machine this reverses the bytes.
\<close>

definition read_field :: "nat \<Rightarrow> nat \<Rightarrow> conn \<Rightarrow> nat option" where
  "read_field off n c = (if off + n \<le> length (cn_rbuf c) then Some (be_val (take n (drop off (cn_rbuf c)))) else None)"

definition swap_field :: "nat \<Rightarrow> nat \<Rightarrow> 'a server_scheme \<Rightarrow> (nat \<times> 'a server_scheme) option" where
  "swap_field off n s = Option.bind (read_field off n (con s)) (\<lambda>v.
     Some (v, upd_con (\<lambda>c. c\<lparr>cn_rbuf := write_at off (rev (take n (drop off (cn_rbuf c)))) (cn_rbuf c)\<rparr>) s))"

section \<open>Responses\<close>

text \<open>A store into \<open>wbuf\<close>, and a part of a response whose failure to be added is not noticed.\<close>

definition put_wbuf_at :: "nat \<Rightarrow> string \<Rightarrow> 'a server_scheme \<Rightarrow> 'a server_scheme option" where
  "put_wbuf_at off bs s = (if off + length bs \<le> length (cn_wbuf (con s))
     then Some (upd_con (\<lambda>c. c\<lparr>cn_wbuf := write_at off bs (cn_wbuf c)\<rparr>) s) else None)"

definition add_part :: "iosrc \<Rightarrow> nat \<Rightarrow> int \<Rightarrow> 'a server_scheme \<Rightarrow> 'a server_scheme option" where
  "add_part src off len s = map_option snd (on_con (add_iov src off len) s)"

definition add_bin_header :: "nat \<Rightarrow> nat \<Rightarrow> nat \<Rightarrow> nat \<Rightarrow> 'a server_scheme \<Rightarrow> 'a server_scheme option" where
  "add_bin_header err hdr_len key_len body_len s = do {
     let s = upd_con (\<lambda>c. c\<lparr>cn_msgcurr := 0, cn_msgused := 0, cn_iovused := 0\<rparr>) s;
     (r, s) \<leftarrow> on_con add_msghdr s;
     if r \<noteq> 0 then out_string ''SERVER_ERROR out of memory'' s
     else do {
       let c = con s;
       s \<leftarrow> put_wbuf_at 0 (res_header (unat (bh_opcode (cn_header c))) key_len hdr_len err body_len
              (cn_opaque c) (cn_cas c)) s;
       add_part IO_wbuf 0 (int HEADER_LEN) s } }"

text \<open>The text of an error; an unknown one fails an assertion.\<close>

definition bin_errstr :: "nat \<Rightarrow> string option" where
  "bin_errstr err =
     (if err = RESPONSE_ENOMEM then Some ''Out of memory''
      else if err = RESPONSE_UNKNOWN_COMMAND then Some ''Unknown command''
      else if err = RESPONSE_KEY_ENOENT then Some ''Not found''
      else if err = RESPONSE_EINVAL then Some ''Invalid arguments''
      else if err = RESPONSE_KEY_EEXISTS then Some ''Data exists for key.''
      else if err = RESPONSE_E2BIG then Some ''Too large.''
      else if err = RESPONSE_DELTA_BADVAL then Some ''Non-numeric server-side value for incr or decr''
      else if err = RESPONSE_NOT_STORED then Some ''Not stored.''
      else if err = RESPONSE_AUTH_ERROR then Some ''Auth failure.''
      else None)"

definition write_bin_error :: "nat \<Rightarrow> int \<Rightarrow> 'a server_scheme \<Rightarrow> 'a server_scheme option" where
  "write_bin_error err swallow s = do {
     errstr \<leftarrow> bin_errstr err;
     s \<leftarrow> add_bin_header err 0 0 (length errstr) s;
     s \<leftarrow> add_part (IO_lit errstr) 0 (int (length errstr)) s;
     s \<leftarrow> conn_set_state conn_mwrite s;
     Some (upd_con (\<lambda>c. if 0 < swallow then c\<lparr>cn_sbytes := swallow, cn_write_and_go := conn_swallow\<rparr>
                          else c\<lparr>cn_write_and_go := conn_new_cmd\<rparr>) s) }"

definition write_bin_response :: "iosrc \<Rightarrow> nat \<Rightarrow> nat \<Rightarrow> nat \<Rightarrow> nat \<Rightarrow> 'a server_scheme \<Rightarrow> 'a server_scheme option" where
  "write_bin_response src off hlen keylen dlen s =
     (if \<not> cn_noreply (con s) \<or> cn_cmd (con s) = CMD_GET \<or> cn_cmd (con s) = CMD_GETK then do {
        s \<leftarrow> add_bin_header 0 hlen keylen dlen s;
        s \<leftarrow> (if 0 < dlen then add_part src off (int dlen) s else Some s);
        s \<leftarrow> conn_set_state conn_mwrite s;
        Some (upd_con (\<lambda>c. c\<lparr>cn_write_and_go := conn_new_cmd\<rparr>) s) }
      else conn_set_state conn_new_cmd s)"

definition set_write_and_go :: "conn_states \<Rightarrow> 'a server_scheme \<Rightarrow> 'a server_scheme" where
  "set_write_and_go st = upd_con (\<lambda>c. c\<lparr>cn_write_and_go := st\<rparr>)"

definition handle_binary_protocol_error :: "'a server_scheme \<Rightarrow> 'a server_scheme option" where
  "handle_binary_protocol_error s =
     map_option (set_write_and_go conn_closing) (write_bin_error RESPONSE_EINVAL 0 s)"

section \<open>Counters\<close>

text \<open>The value of the response, in \<open>wbuf\<close> behind the header.\<close>

definition put_counter :: "u64 \<Rightarrow> 'a server_scheme \<Rightarrow> 'a server_scheme option" where
  "put_counter v s = put_wbuf_at HEADER_LEN (be64 (unat v)) s"

definition respond_counter :: "'a server_scheme \<Rightarrow> 'a server_scheme option" where
  "respond_counter s = write_bin_response IO_wbuf HEADER_LEN 0 0 8 s"

text \<open>
  The counter that is created when the key is not found. Its item has room for 24 bytes, of which
  only the number and a null character are written.
\<close>

definition create_counter :: "string \<Rightarrow> nat \<Rightarrow> nat \<Rightarrow> 'a server_scheme \<Rightarrow> 'a server_scheme option" where
  "create_counter key initial expiration s = do {
     s \<leftarrow> put_counter (of_nat initial) s;
     (it, s) \<leftarrow> item_alloc key 0 (realtime (int expiration) s) (of_nat INCR_MAX_STORAGE_LEN) s;
     if it \<noteq> NULL then do {
       let s = upd_item it (put_data 0 (take (INCR_MAX_STORAGE_LEN - 1) (u64s (of_nat initial)) @ [CHR 0x00])) s;
       (ret, s) \<leftarrow> store_item it NREAD_ADD s;
       s \<leftarrow> (if ret \<noteq> NOT_STORED then respond_counter (upd_con (\<lambda>c. c\<lparr>cn_cas := ITEM_get_cas (mem s it)\<rparr>) s)
            else write_bin_error RESPONSE_NOT_STORED 0 s);
       item_remove it s }
     else write_bin_error RESPONSE_ENOMEM 0 s }"

definition complete_incr_bin :: "'a server_scheme \<Rightarrow> 'a server_scheme option" where
  "complete_incr_bin s = do {
     req \<leftarrow> binary_get_request (con s);
     if cn_wsize (con s) < HEADER_LEN + 8 then None
     else do {
       (delta, s) \<leftarrow> swap_field (req + HEADER_LEN) 8 s;
       (initial, s) \<leftarrow> swap_field (req + HEADER_LEN + 8) 8 s;
       (expiration, s) \<leftarrow> swap_field (req + HEADER_LEN + 16) 4 s;
       key \<leftarrow> request_key (con s);
       let incr = (cn_cmd (con s) = CMD_INCREMENT);
       (r, tmpbuf, cas, s) \<leftarrow> add_delta key incr (of_nat delta) (Some (bh_cas (cn_header (con s)))) s;
       case r of
         OK \<Rightarrow> do {
           s \<leftarrow> put_counter (strtoul_value tmpbuf) s;
           let cas = (case cas of Some v \<Rightarrow> v | None \<Rightarrow> 0);
           respond_counter (if cas \<noteq> 0 then upd_con (\<lambda>c. c\<lparr>cn_cas := cas\<rparr>) s else s) }
       | NON_NUMERIC \<Rightarrow> write_bin_error RESPONSE_DELTA_BADVAL 0 s
       | EOM \<Rightarrow> write_bin_error RESPONSE_ENOMEM 0 s
       | DELTA_ITEM_NOT_FOUND \<Rightarrow>
           (if expiration \<noteq> 0xffffffff then create_counter key initial expiration s
            else write_bin_error RESPONSE_KEY_ENOENT 0 (upd_tstats (\<lambda>t. if incr
                   then t\<lparr>incr_misses := incr_misses t + 1\<rparr> else t\<lparr>decr_misses := decr_misses t + 1\<rparr>) s))
       | DELTA_ITEM_CAS_MISMATCH \<Rightarrow> write_bin_error RESPONSE_KEY_EEXISTS 0 s } }"

section \<open>Storage\<close>

text \<open>The line end is not part of the request; it is put behind the value.\<close>

definition set_line_end :: "item \<Rightarrow> item" where
  "set_line_end i = put_data (item_nbytes i - 2) crlf i"

definition complete_update_bin :: "'a server_scheme \<Rightarrow> 'a server_scheme option" where
  "complete_update_bin s = do {
     let it = cn_item (con s);
     let s = upd_slab_stats (it_slabs_clsid (mem s it)) (\<lambda>t. t\<lparr>set_cmds := set_cmds t + 1\<rparr>) s;
     let s = upd_item it set_line_end s;
     (ret, s) \<leftarrow> store_item it (cn_cmd (con s)) s;
     s \<leftarrow> (case ret of
         STORED \<Rightarrow> write_bin_response IO_null 0 0 0 0 s
       | EXISTS \<Rightarrow> write_bin_error RESPONSE_KEY_EEXISTS 0 s
       | NOT_FOUND \<Rightarrow> write_bin_error RESPONSE_KEY_ENOENT 0 s
       | NOT_STORED \<Rightarrow> write_bin_error (if cn_cmd (con s) = NREAD_ADD then RESPONSE_KEY_EEXISTS
             else if cn_cmd (con s) = NREAD_REPLACE then RESPONSE_KEY_ENOENT else RESPONSE_NOT_STORED) 0 s);
     s \<leftarrow> item_remove (cn_item (con s)) s;
     Some (upd_con (\<lambda>c. c\<lparr>cn_item := NULL\<rparr>) s) }"

text \<open>The value of the request is read into the item next.\<close>

definition read_value :: "addr \<Rightarrow> u32 \<Rightarrow> 'a server_scheme \<Rightarrow> 'a server_scheme option" where
  "read_value it vlen s = do {
     let s = upd_con (\<lambda>c. c\<lparr>cn_item := it, cn_ritem := (R_item it, 0), cn_rlbytes := sint vlen\<rparr>) s;
     s \<leftarrow> conn_set_state conn_nread s;
     Some (upd_con (\<lambda>c. c\<lparr>cn_substate := bin_read_set_value\<rparr>) s) }"

definition update_alloc_failed :: "string \<Rightarrow> u32 \<Rightarrow> u32 \<Rightarrow> 'a server_scheme \<Rightarrow> 'a server_scheme option" where
  "update_alloc_failed key flags vlen s =
     write_bin_error (if \<not> item_size_ok (length key) flags (vlen + 2) s then RESPONSE_E2BIG else RESPONSE_ENOMEM)
       (sint vlen) s"

text \<open>The storage command of an opcode; another one fails an assertion.\<close>

definition bin_update_command :: "int \<Rightarrow> int option" where
  "bin_update_command cmd = (if cmd = CMD_ADD then Some NREAD_ADD else if cmd = CMD_SET then Some NREAD_SET
     else if cmd = CMD_REPLACE then Some NREAD_REPLACE else None)"

definition process_bin_update :: "'a server_scheme \<Rightarrow> 'a server_scheme option" where
  "process_bin_update s = do {
     req \<leftarrow> binary_get_request (con s);
     key \<leftarrow> request_key (con s);
     let h = cn_header (con s);
     (flags, s) \<leftarrow> swap_field (req + HEADER_LEN) 4 s;
     (expiration, s) \<leftarrow> swap_field (req + HEADER_LEN + 4) 4 s;
     let vlen = bh_bodylen h - (ucast (bh_keylen h) + ucast (bh_extlen h));
     let s = (if detail_enabled (settings s) \<noteq> 0
       then s\<lparr>prefixes := stats_prefix_record_set (prefix_delimiter (settings s)) key (prefixes s)\<rparr> else s);
     (it, s) \<leftarrow> item_alloc key (of_nat flags) (realtime (int expiration) s) (vlen + 2) s;
     if it = NULL then do {
       s \<leftarrow> update_alloc_failed key (of_nat flags) vlen s;
       s \<leftarrow> (if cn_cmd (con s) = CMD_SET then do {
              (it, s) \<leftarrow> item_get key s;
              if it \<noteq> NULL then Option.bind (item_unlink it s) (item_remove it) else Some s }
            else Some s);
       Some (set_write_and_go conn_swallow s) }
     else do {
       let s = upd_item it (ITEM_set_cas (bh_cas h)) s;
       cmd \<leftarrow> bin_update_command (cn_cmd (con s));
       let cmd = (if ITEM_get_cas (mem s it) \<noteq> 0 then NREAD_CAS else cmd);
       read_value it vlen (upd_con (\<lambda>c. c\<lparr>cn_cmd := cmd\<rparr>) s) } }"

definition process_bin_append_prepend :: "'a server_scheme \<Rightarrow> 'a server_scheme option" where
  "process_bin_append_prepend s = do {
     key \<leftarrow> request_key (con s);
     let h = cn_header (con s);
     let vlen = bh_bodylen h - ucast (bh_keylen h);
     let s = (if detail_enabled (settings s) \<noteq> 0
       then s\<lparr>prefixes := stats_prefix_record_set (prefix_delimiter (settings s)) key (prefixes s)\<rparr> else s);
     (it, s) \<leftarrow> item_alloc key 0 0 (vlen + 2) s;
     if it = NULL then map_option (set_write_and_go conn_swallow) (update_alloc_failed key 0 vlen s)
     else do {
       let s = upd_item it (ITEM_set_cas (bh_cas h)) s;
       cmd \<leftarrow> (if cn_cmd (con s) = CMD_APPEND then Some NREAD_APPEND
              else if cn_cmd (con s) = CMD_PREPEND then Some NREAD_PREPEND else None);
       read_value it vlen (upd_con (\<lambda>c. c\<lparr>cn_cmd := cmd\<rparr>) s) } }"

section \<open>Retrieval, touch and deletion\<close>

text \<open>
  The common part of the answers of \<open>process_bin_get\<close> and \<open>process_bin_touch\<close>: the header with the
  CAS number of the item, the flags, and then the key if \<open>with_key\<close>, and the data if \<open>with_data\<close>.
  The item stays referenced until the answer has been sent.
\<close>

definition respond_item :: "bool \<Rightarrow> bool \<Rightarrow> nat \<Rightarrow> addr \<Rightarrow> 'a server_scheme \<Rightarrow> 'a server_scheme option" where
  "respond_item with_key with_data nkey it s = do {
     let vlen = it_nbytes (mem s it) - 2;
     let bodylen = 4 + (if with_data then vlen else 0) + (if with_key then of_nat nkey else 0);
     s \<leftarrow> add_bin_header 0 4 (if with_key then nkey else 0) (unat bodylen) s;
     s \<leftarrow> put_wbuf_at 16 (be64 (unat (ITEM_get_cas (mem s it)))) s;
     s \<leftarrow> put_wbuf_at HEADER_LEN (be32 (unat (strtoul_value (it_suffix (mem s it))))) s;
     s \<leftarrow> add_part IO_wbuf HEADER_LEN 4 s;
     s \<leftarrow> (if with_key then add_part (IO_key it) 0 (int nkey) s else Some s);
     s \<leftarrow> (if with_data then add_part (IO_data it) 0 (sint vlen) s else Some s);
     s \<leftarrow> conn_set_state conn_mwrite s;
     Some (upd_con (\<lambda>c. c\<lparr>cn_write_and_go := conn_new_cmd, cn_item := it\<rparr>) s) }"

text \<open>The answer for a key that was not found, with the key itself if \<open>with_key\<close>.\<close>

definition respond_miss :: "bool \<Rightarrow> string \<Rightarrow> 'a server_scheme \<Rightarrow> 'a server_scheme option" where
  "respond_miss with_key key s =
     (if cn_noreply (con s) then conn_set_state conn_new_cmd s
      else if with_key then do {
        s \<leftarrow> add_bin_header RESPONSE_KEY_ENOENT 0 (length key) (length key) s;
        s \<leftarrow> put_wbuf_at HEADER_LEN key s;
        s \<leftarrow> add_part IO_wbuf HEADER_LEN (int (length key)) s;
        s \<leftarrow> conn_set_state conn_mwrite s;
        Some (set_write_and_go conn_new_cmd s) }
      else write_bin_error RESPONSE_KEY_ENOENT 0 s)"

definition record_get :: "string \<Rightarrow> bool \<Rightarrow> 'a server_scheme \<Rightarrow> 'a server_scheme" where
  "record_get key hit s = (if detail_enabled (settings s) \<noteq> 0
     then s\<lparr>prefixes := stats_prefix_record_get (prefix_delimiter (settings s)) key hit (prefixes s)\<rparr> else s)"

definition process_bin_touch :: "'a server_scheme \<Rightarrow> 'a server_scheme option" where
  "process_bin_touch s = do {
     key \<leftarrow> request_key (con s);
     t \<leftarrow> binary_get_request (con s);
     exptime \<leftarrow> read_field (t + HEADER_LEN) 4 (con s);
     (it, s) \<leftarrow> item_touch key (realtime (int exptime) s) s;
     s \<leftarrow> (if it \<noteq> NULL then do {
            s \<leftarrow> item_update it s;
            let s = upd_tstats (\<lambda>t. t\<lparr>touch_cmds := touch_cmds t + 1\<rparr>) s;
            let s = upd_slab_stats (it_slabs_clsid (mem s it)) (\<lambda>t. t\<lparr>touch_hits := touch_hits t + 1\<rparr>) s;
            let cmd = cn_cmd (con s);
            respond_item (cmd = CMD_GATK) (cmd \<noteq> CMD_TOUCH) (length key) it s }
          else do {
            let s = upd_tstats (\<lambda>t. t\<lparr>touch_cmds := touch_cmds t + 1, touch_misses := touch_misses t + 1\<rparr>) s;
            respond_miss (cn_cmd (con s) = CMD_GATK) key s });
     Some (record_get key (it \<noteq> NULL) s) }"

definition process_bin_get :: "'a server_scheme \<Rightarrow> 'a server_scheme option" where
  "process_bin_get s = do {
     key \<leftarrow> request_key (con s);
     (it, s) \<leftarrow> item_get key s;
     s \<leftarrow> (if it \<noteq> NULL then do {
            s \<leftarrow> item_update it s;
            respond_item (cn_cmd (con s) = CMD_GETK) True (length key) it (count_get it s) }
          else do {
            let s = upd_tstats (\<lambda>t. t\<lparr>get_cmds := get_cmds t + 1, get_misses := get_misses t + 1\<rparr>) s;
            respond_miss (cn_cmd (con s) = CMD_GETK) key s });
     Some (record_get key (it \<noteq> NULL) s) }"

text \<open>The CAS number is read from the request once more.\<close>

definition process_bin_delete :: "'a server_scheme \<Rightarrow> 'a server_scheme option" where
  "process_bin_delete s = do {
     req \<leftarrow> binary_get_request (con s);
     key \<leftarrow> request_key (con s);
     let s = (if detail_enabled (settings s) \<noteq> 0
       then s\<lparr>prefixes := stats_prefix_record_delete (prefix_delimiter (settings s)) key (prefixes s)\<rparr> else s);
     (it, s) \<leftarrow> item_get key s;
     if it \<noteq> NULL then do {
       cas \<leftarrow> read_field (req + 16) 8 (con s);
       s \<leftarrow> (if cas = 0 \<or> of_nat cas = ITEM_get_cas (mem s it) then do {
              let s = upd_slab_stats (it_slabs_clsid (mem s it)) (\<lambda>t. t\<lparr>delete_hits := delete_hits t + 1\<rparr>) s;
              s \<leftarrow> item_unlink it s;
              write_bin_response IO_null 0 0 0 0 s }
            else write_bin_error RESPONSE_KEY_EEXISTS 0 s);
       item_remove it s }
     else do {
       s \<leftarrow> write_bin_error RESPONSE_KEY_ENOENT 0 s;
       Some (upd_tstats (\<lambda>t. t\<lparr>delete_misses := delete_misses t + 1\<rparr>) s) } }"

section \<open>Flushing and statistics\<close>

definition process_bin_flush :: "'a server_scheme \<Rightarrow> 'a server_scheme option" where
  "process_bin_flush s = do {
     req \<leftarrow> binary_get_request (con s);
     exptime \<leftarrow> (if bh_extlen (cn_header (con s)) = 4 then read_field (req + HEADER_LEN) 4 (con s) else Some 0);
     let s = set_oldest_live ((if 0 < exptime then realtime (int exptime) s else current_time s) - 1) s;
     s \<leftarrow> item_flush_expired s;
     let s = upd_tstats (\<lambda>t. t\<lparr>flush_cmds := flush_cmds t + 1\<rparr>) s;
     write_bin_response IO_null 0 0 0 0 s }"

text \<open>
  \<open>strncmp(b, w, strlen(w)) = 0\<close>: the comparison stops at the first difference. It does not stop at
  the end of the key, but goes on in what the read buffer holds behind it.
\<close>

fun starts_with :: "string \<Rightarrow> string \<Rightarrow> bool option" where
  "starts_with [] b = Some True"
| "starts_with (w # ws) [] = None"
| "starts_with (w # ws) (b # bs) = (if b = w then starts_with ws bs else Some False)"

definition finish_bin_stat :: "'a server_scheme \<Rightarrow> 'a server_scheme option" where
  "finish_bin_stat s = (case cn_stats_buffer (con s) of
     None \<Rightarrow> write_bin_error RESPONSE_ENOMEM 0 s
   | Some b \<Rightarrow> map_option (upd_con (\<lambda>c. c\<lparr>cn_stats_buffer := None\<rparr>))
       (write_and_free (Some b) (int (cn_stats_offset (con s))) s))"

definition end_bin_stat :: "'a server_scheme \<Rightarrow> 'a server_scheme option" where
  "end_bin_stat s = Option.bind (append_end (con s)) (\<lambda>c. finish_bin_stat (s\<lparr>con := c\<rparr>))"

definition process_bin_detail :: "string \<Rightarrow> 'a server_scheme \<Rightarrow> 'a server_scheme option" where
  "process_bin_detail subcmd s = do {
     dump \<leftarrow> starts_with '' dump'' subcmd;
     if dump then do {
       (dump_buf, p) \<leftarrow> stats_prefix_dump (prefixes s);
       let s = s\<lparr>prefixes := p\<rparr>;
       case dump_buf of
         None \<Rightarrow> write_bin_error RESPONSE_ENOMEM 0 s
       | Some t \<Rightarrow>
           (if t = [] then write_bin_error RESPONSE_ENOMEM 0 s
            else Option.bind (append_stats ''detailed'' t (length t) (con s)) (\<lambda>c. end_bin_stat (s\<lparr>con := c\<rparr>))) }
     else do {
       on \<leftarrow> starts_with '' on'' subcmd;
       if on then end_bin_stat (s\<lparr>settings := (settings s)\<lparr>detail_enabled := 1\<rparr>\<rparr>)
       else do {
         off \<leftarrow> starts_with '' off'' subcmd;
         if off then end_bin_stat (s\<lparr>settings := (settings s)\<lparr>detail_enabled := 0\<rparr>\<rparr>)
         else write_bin_error RESPONSE_KEY_ENOENT 0 s } } }"

definition process_bin_stat :: "os_info \<Rightarrow> 'a server_scheme \<Rightarrow> 'a server_scheme option" where
  "process_bin_stat os s = do {
     key \<leftarrow> request_key (con s);
     off \<leftarrow> binary_get_key (con s);
     let subcommand = drop off (cn_rbuf (con s));
     if key = [] then do {
       s \<leftarrow> server_stats os s;
       (r, s) \<leftarrow> get_stats None s;
       end_bin_stat s }
     else do {
       reset \<leftarrow> starts_with ''reset'' subcommand;
       if reset then end_bin_stat (stats_reset s)
       else do {
         sets \<leftarrow> starts_with ''settings'' subcommand;
         if sets then Option.bind (process_stat_settings s) end_bin_stat
         else do {
           detail \<leftarrow> starts_with ''detail'' subcommand;
           if detail then process_bin_detail (drop 6 subcommand) s
           else do {
             (r, s) \<leftarrow> get_stats (Some key) s;
             if r then finish_bin_stat s else write_bin_error RESPONSE_KEY_ENOENT 0 s } } } } }"

section \<open>Authentication\<close>

text \<open>
  Without the library \<open>sasl_server_new\<close>, \<open>sasl_listmech\<close>, \<open>sasl_server_start\<close> and \<open>sasl_server_step\<close> are
  the constant 1, which is an error: no connection ever has a SASL context, and no string or length
  is returned.
\<close>

definition SASL_OK :: int where "SASL_OK = 0"
definition SASL_CONTINUE :: int where "SASL_CONTINUE = -1"
definition sasl_listmech :: int where "sasl_listmech = 1"
definition sasl_server_start :: int where "sasl_server_start = 1"
definition sasl_server_step :: int where "sasl_server_step = 1"
definition MAX_SASL_MECH_LEN :: nat where "MAX_SASL_MECH_LEN = 32"

text \<open>The answer when SASL is switched off; the value of the request is to be swallowed.\<close>

definition sasl_disabled :: "'a server_scheme \<Rightarrow> 'a server_scheme option" where
  "sasl_disabled s = (let h = cn_header (con s) in
     write_bin_error RESPONSE_UNKNOWN_COMMAND (sint (bh_bodylen h - ucast (bh_keylen h))) s)"

definition bin_list_sasl_mechs :: "'a server_scheme \<Rightarrow> 'a server_scheme option" where
  "bin_list_sasl_mechs s =
     (if \<not> sasl (settings s) then sasl_disabled s
      else if sasl_listmech \<noteq> SASL_OK then write_bin_error RESPONSE_AUTH_ERROR 0 s
      else write_bin_response IO_null 0 0 0 0 s)"

definition process_bin_sasl_auth :: "'a server_scheme \<Rightarrow> 'a server_scheme option" where
  "process_bin_sasl_auth s =
     (if \<not> sasl (settings s) then sasl_disabled s
      else let h = cn_header (con s); nkey = unat (bh_keylen h); vlen = bh_bodylen h - ucast (bh_keylen h) in
        if bh_extlen h \<noteq> 0 then None
        else if MAX_SASL_MECH_LEN < nkey
        then map_option (set_write_and_go conn_swallow) (write_bin_error RESPONSE_EINVAL (sint vlen) s)
        else do {
          key \<leftarrow> request_key (con s);
          (it, s) \<leftarrow> item_alloc key 0 0 vlen s;
          if it = NULL then map_option (set_write_and_go conn_swallow) (write_bin_error RESPONSE_ENOMEM (sint vlen) s)
          else do {
            let s = upd_con (\<lambda>c. c\<lparr>cn_item := it, cn_ritem := (R_item it, 0), cn_rlbytes := sint vlen\<rparr>) s;
            s \<leftarrow> conn_set_state conn_nread s;
            Some (upd_con (\<lambda>c. c\<lparr>cn_substate := bin_reading_sasl_auth_data\<rparr>) s) } })"

definition process_bin_complete_sasl_auth :: "'a server_scheme \<Rightarrow> 'a server_scheme option" where
  "process_bin_complete_sasl_auth s =
     (if \<not> sasl (settings s) \<or> cn_item (con s) = NULL then None
      else do {
        result \<leftarrow> (if cn_cmd (con s) = CMD_SASL_AUTH then Some sasl_server_start
                  else if cn_cmd (con s) = CMD_SASL_STEP then Some sasl_server_step else None);
        s \<leftarrow> item_unlink (cn_item (con s)) s;
        if result = SASL_OK then
          map_option (upd_tstats (\<lambda>t. t\<lparr>auth_cmds := auth_cmds t + 1\<rparr>))
            (write_bin_response (IO_lit ''Authenticated'') 0 0 0 13 s)
        else if result = SASL_CONTINUE then do {
          s \<leftarrow> add_bin_header RESPONSE_AUTH_CONTINUE 0 0 0 s;
          s \<leftarrow> conn_set_state conn_mwrite s;
          Some (set_write_and_go conn_new_cmd s) }
        else
          map_option (upd_tstats (\<lambda>t. t\<lparr>auth_cmds := auth_cmds t + 1, auth_errors := auth_errors t + 1\<rparr>))
            (write_bin_error RESPONSE_AUTH_ERROR 0 s) })"

text \<open>The first test is an assertion; there is no SASL context to ask for the name of the user.\<close>

definition authenticated :: "'a server_scheme \<Rightarrow> bool option" where
  "authenticated s = (if \<not> sasl (settings s) then None
     else Some (cn_cmd (con s) \<in> {CMD_SASL_LIST_MECHS, CMD_SASL_AUTH, CMD_SASL_STEP, CMD_VERSION}))"

section \<open>Reading the key\<close>

text \<open>\<open>memmove(rbuf, rcurr, rbytes)\<close>.\<close>

definition repack :: "conn \<Rightarrow> conn" where
  "repack c = (let n = nat (cn_rbytes c) in
     c\<lparr>cn_rbuf := take n (drop (cn_rcurr c) (cn_rbuf c)) @ drop n (cn_rbuf c), cn_rcurr := 0\<rparr>)"

text \<open>The loop that doubles the size is \<open>grow_size\<close> without an offset; \<open>rsize\<close> is not zero.\<close>

definition make_room :: "conn \<Rightarrow> (bool \<times> conn) option" where
  "make_room c = Option.bind (grow_size (nat (cn_rlbytes c) + HEADER_LEN) 0 (cn_rsize c)) (\<lambda>nsize.
     case (if nsize \<noteq> cn_rsize c then
         (case grant c of (ok, c) \<Rightarrow> (ok, if ok then c\<lparr>cn_rsize := nsize,
            cn_rbuf := cn_rbuf c @ replicate (nsize - length (cn_rbuf c)) (CHR 0x00)\<rparr> else c))
       else (True, c)) of (ok, c) \<Rightarrow>
       Some (ok, if ok \<and> cn_rcurr c \<noteq> 0 then repack c else c))"

definition bin_read_key :: "bin_substates \<Rightarrow> nat \<Rightarrow> 'a server_scheme \<Rightarrow> 'a server_scheme option" where
  "bin_read_key next_substate extra s = do {
     let s = upd_con (\<lambda>c. c\<lparr>cn_substate := next_substate, cn_rlbytes := cn_keylen c + int extra\<rparr>) s;
     let c = con s;
     (ok, c) \<leftarrow> (if int (cn_rsize c) - int (cn_rcurr c + HEADER_LEN) < cn_rlbytes c then make_room c else Some (True, c));
     let s = s\<lparr>con := c\<rparr>;
     if \<not> ok then conn_set_state conn_closing s
     else conn_set_state conn_nread (upd_con (\<lambda>c. c\<lparr>cn_ritem := (R_rbuf, cn_rcurr c + HEADER_LEN)\<rparr>) s) }"

section \<open>Dispatch\<close>

text \<open>The command that a quiet one stands for.\<close>

definition quiet_command :: "int \<Rightarrow> int option" where
  "quiet_command cmd =
     (if cmd = CMD_SETQ then Some CMD_SET else if cmd = CMD_ADDQ then Some CMD_ADD
      else if cmd = CMD_REPLACEQ then Some CMD_REPLACE else if cmd = CMD_DELETEQ then Some CMD_DELETE
      else if cmd = CMD_INCREMENTQ then Some CMD_INCREMENT else if cmd = CMD_DECREMENTQ then Some CMD_DECREMENT
      else if cmd = CMD_QUITQ then Some CMD_QUIT else if cmd = CMD_FLUSHQ then Some CMD_FLUSH
      else if cmd = CMD_APPENDQ then Some CMD_APPEND else if cmd = CMD_PREPENDQ then Some CMD_PREPEND
      else if cmd = CMD_GETQ then Some CMD_GET else if cmd = CMD_GETKQ then Some CMD_GETK
      else if cmd = CMD_GATQ then Some CMD_GAT else if cmd = CMD_GATKQ then Some CMD_GAT else None)"

definition bin_quit :: "'a server_scheme \<Rightarrow> 'a server_scheme option" where
  "bin_quit s = do {
     s \<leftarrow> write_bin_response IO_null 0 0 0 0 s;
     let s = set_write_and_go conn_closing s;
     if cn_noreply (con s) then conn_set_state conn_closing s else Some s }"

text \<open>The second \<open>switch\<close>: a request whose lengths do not fit its command is a protocol error.\<close>

definition dispatch_command :: "os_info \<Rightarrow> 'a server_scheme \<Rightarrow> 'a server_scheme option" where
  "dispatch_command os s = (let
     h = cn_header (con s); cmd = cn_cmd (con s);
     extlen = unat (bh_extlen h); keylen = unat (bh_keylen h); bodylen = unat (bh_bodylen h);
     empty = (extlen = 0 \<and> keylen = 0 \<and> bodylen = 0);
     run = (\<lambda>valid handler. if valid then handler s else handle_binary_protocol_error s) in
   if cmd = CMD_VERSION then run empty (write_bin_response (IO_lit (os_version os)) 0 0 0 (length (os_version os)))
   else if cmd = CMD_FLUSH then run (keylen = 0 \<and> bodylen = extlen \<and> (extlen = 0 \<or> extlen = 4))
     (bin_read_key bin_read_flush_exptime extlen)
   else if cmd = CMD_NOOP then run empty (write_bin_response IO_null 0 0 0 0)
   else if cmd \<in> {CMD_SET, CMD_ADD, CMD_REPLACE} then run (extlen = 8 \<and> keylen \<noteq> 0 \<and> keylen + 8 \<le> bodylen)
     (bin_read_key bin_reading_set_header 8)
   else if cmd \<in> {CMD_GETQ, CMD_GET, CMD_GETKQ, CMD_GETK} then run (extlen = 0 \<and> bodylen = keylen \<and> 0 < keylen)
     (bin_read_key bin_reading_get_key 0)
   else if cmd = CMD_DELETE then run (0 < keylen \<and> extlen = 0 \<and> bodylen = keylen)
     (bin_read_key bin_reading_del_header extlen)
   else if cmd \<in> {CMD_INCREMENT, CMD_DECREMENT} then run (0 < keylen \<and> extlen = 20 \<and> bodylen = keylen + extlen)
     (bin_read_key bin_reading_incr_header 20)
   else if cmd \<in> {CMD_APPEND, CMD_PREPEND} then run (0 < keylen \<and> extlen = 0)
     (bin_read_key bin_reading_set_header 0)
   else if cmd = CMD_STAT then run (extlen = 0) (bin_read_key bin_reading_stat 0)
   else if cmd = CMD_QUIT then run empty bin_quit
   else if cmd = CMD_SASL_LIST_MECHS then run empty bin_list_sasl_mechs
   else if cmd \<in> {CMD_SASL_AUTH, CMD_SASL_STEP} then run (extlen = 0 \<and> keylen \<noteq> 0)
     (bin_read_key bin_reading_sasl_auth 0)
   else if cmd \<in> {CMD_TOUCH, CMD_GAT, CMD_GATQ, CMD_GATK, CMD_GATKQ} then run (extlen = 4 \<and> keylen \<noteq> 0)
     (bin_read_key bin_reading_touch_key 4)
   else write_bin_error RESPONSE_UNKNOWN_COMMAND (sint (bh_bodylen h)) s)"

definition dispatch_bin_command :: "os_info \<Rightarrow> 'a server_scheme \<Rightarrow> 'a server_scheme option" where
  "dispatch_bin_command os s = do {
     ok \<leftarrow> (if sasl (settings s) then authenticated s else Some True);
     if \<not> ok then map_option (set_write_and_go conn_closing) (write_bin_error RESPONSE_AUTH_ERROR 0 s)
     else let s = upd_con (\<lambda>c. c\<lparr>cn_noreply := True\<rparr>) s in
       if KEY_MAX_LENGTH < unat (bh_keylen (cn_header (con s))) then handle_binary_protocol_error s
       else dispatch_command os (upd_con (\<lambda>c. case quiet_command (cn_cmd c) of
           Some cmd \<Rightarrow> c\<lparr>cn_cmd := cmd\<rparr> | None \<Rightarrow> c\<lparr>cn_noreply := False\<rparr>) s) }"

definition complete_nread_binary :: "os_info \<Rightarrow> 'a server_scheme \<Rightarrow> 'a server_scheme option" where
  "complete_nread_binary os s = (if cn_cmd (con s) < 0 then None else
     case cn_substate (con s) of
       bin_reading_set_header \<Rightarrow>
         (if cn_cmd (con s) = CMD_APPEND \<or> cn_cmd (con s) = CMD_PREPEND then process_bin_append_prepend s
          else process_bin_update s)
     | bin_read_set_value \<Rightarrow> complete_update_bin s
     | bin_reading_get_key \<Rightarrow> process_bin_get s
     | bin_reading_touch_key \<Rightarrow> process_bin_touch s
     | bin_reading_stat \<Rightarrow> process_bin_stat os s
     | bin_reading_del_header \<Rightarrow> process_bin_delete s
     | bin_reading_incr_header \<Rightarrow> complete_incr_bin s
     | bin_read_flush_exptime \<Rightarrow> process_bin_flush s
     | bin_reading_sasl_auth \<Rightarrow> process_bin_sasl_auth s
     | bin_reading_sasl_auth_data \<Rightarrow> process_bin_complete_sasl_auth s
     | _ \<Rightarrow> None)"

end
