(* ===== verification/Machine.thy ===== *)
theory Machine
  imports Binary
begin

text \<open>
  The state machine of a connection (\<open>memcached.c\<close>, from \<open>try_read_command\<close> to \<open>event_handler\<close>): reading
  requests, parsing them, collecting the data of an item, sending replies, and accepting connections.
  The network is a list of coming answers of the system calls. \<open>None\<close> is a failed assertion or an
  access outside a buffer.
\<close>

section \<open>The network\<close>

text \<open>
  What happens on the socket: \<open>Arrived bs\<close> are bytes that are ready to be read (an empty string is the
  end of the stream), a read with nothing ready would block. A kernel that \<open>Takes n\<close> accepts at most
  \<open>n\<close> bytes of a message. \<open>Accepted sfd ok\<close> is a new connection, \<open>ok\<close> saying whether it could be made
  non-blocking.
\<close>

datatype net_read = Arrived string | Read_block | Read_fail
datatype net_write = Takes nat | Write_block | Write_fail
datatype net_accept = Accepted int bool | Accept_block | Accept_full | Accept_fail

datatype read_result = Got string | Would_block | Net_error

record listener =
  l_sfd :: int
  l_ev_flags :: int
  l_backlog :: int

record machine = server +
  net_in :: "net_read list"
  datagrams :: "string list"
  net_out :: "net_write list"
  sent :: string
  accepts :: "net_accept list"
  event_dels :: "bool list"
  listeners :: "listener list"
  maxconns_timer :: bool
  dispatcher :: dispatch

definition EV_READ :: int where "EV_READ = 2"
definition EV_WRITE :: int where "EV_WRITE = 4"
definition EV_PERSIST :: int where "EV_PERSIST = 16"

text \<open>\<open>read(c->sfd, buf, n)\<close>: what does not fit into the buffer stays to be read.\<close>

definition sock_read :: "nat \<Rightarrow> 'a machine_scheme \<Rightarrow> read_result \<times> 'a machine_scheme" where
  "sock_read n s = (case net_in s of
     [] \<Rightarrow> (Would_block, s)
   | Arrived bs # es \<Rightarrow> (Got (take n bs),
       if bs = [] \<or> n = 0 then s else s\<lparr>net_in := (if length bs \<le> n then es else Arrived (drop n bs) # es)\<rparr>)
   | Read_block # es \<Rightarrow> (Would_block, s\<lparr>net_in := es\<rparr>)
   | Read_fail # es \<Rightarrow> (Net_error, s\<lparr>net_in := es\<rparr>))"

definition count_read :: "nat \<Rightarrow> 'a machine_scheme \<Rightarrow> 'a machine_scheme" where
  "count_read n = upd_tstats (\<lambda>t. t\<lparr>bytes_read := bytes_read t + of_nat n\<rparr>)"

section \<open>Events\<close>

definition event_del :: "'a machine_scheme \<Rightarrow> bool \<times> 'a machine_scheme" where
  "event_del s = (case event_dels s of [] \<Rightarrow> (False, s) | e # es \<Rightarrow> (e, s\<lparr>event_dels := es\<rparr>))"

text \<open>\<open>update_event\<close> on the flags of a connection: whether it worked, and the new flags.\<close>

definition change_flags :: "int \<Rightarrow> int \<Rightarrow> 'a machine_scheme \<Rightarrow> bool \<times> int \<times> 'a machine_scheme" where
  "change_flags new_flags flags s =
     (if flags = new_flags then (True, flags, s)
      else case event_del s of (ok, s) \<Rightarrow>
        if \<not> ok then (False, flags, s)
        else (case event_add s of (ok, s) \<Rightarrow> (ok, new_flags, s)))"

definition update_event :: "int \<Rightarrow> 'a machine_scheme \<Rightarrow> bool \<times> 'a machine_scheme" where
  "update_event new_flags s = (case change_flags new_flags (cn_ev_flags (con s)) s of (ok, flags, s) \<Rightarrow>
     (ok, upd_con (\<lambda>c. c\<lparr>cn_ev_flags := flags\<rparr>) s))"

text \<open>An event is requested, or else the connection is closed.\<close>

definition await_event :: "int \<Rightarrow> 'a machine_scheme \<Rightarrow> (bool \<times> 'a machine_scheme) option" where
  "await_event flags s = (case update_event flags s of (ok, s) \<Rightarrow>
     if ok then Some (True, s) else map_option (Pair False) (conn_set_state conn_closing s))"

text \<open>
  The loop over the listening connections. The result of \<open>update_event\<close> is not looked at, and the
  backlog of the socket is set in any case. The connection being served may be one of them.
\<close>

fun update_listeners :: "int \<Rightarrow> int \<Rightarrow> listener list \<Rightarrow> 'a machine_scheme \<Rightarrow> listener list \<times> 'a machine_scheme" where
  "update_listeners flags bl [] s = ([], s)"
| "update_listeners flags bl (l # ls) s = (case change_flags flags (l_ev_flags l) s of (ok, f, s) \<Rightarrow>
     case update_listeners flags bl ls s of (ls, s) \<Rightarrow> (l\<lparr>l_ev_flags := f, l_backlog := bl\<rparr> # ls, s))"

definition sync_listener :: "'a machine_scheme \<Rightarrow> 'a machine_scheme" where
  "sync_listener s = (case find (\<lambda>l. l_sfd l = cn_sfd (con s)) (listeners s) of
     None \<Rightarrow> s | Some l \<Rightarrow> upd_con (\<lambda>c. c\<lparr>cn_ev_flags := l_ev_flags l\<rparr>) s)"

text \<open>\<open>maxconns_handler(-42, 0, 0)\<close> only starts the timer.\<close>

definition poll_maxconns :: "'a machine_scheme \<Rightarrow> 'a machine_scheme" where
  "poll_maxconns s = s\<lparr>maxconns_timer := True\<rparr>"

definition do_accept_new_conns :: "bool \<Rightarrow> 'a machine_scheme \<Rightarrow> 'a machine_scheme" where
  "do_accept_new_conns do_accept s = (case (if do_accept
       then update_listeners (EV_READ + EV_PERSIST) (backlog (settings s)) (listeners s) s
       else update_listeners 0 0 (listeners s) s) of (ls, s) \<Rightarrow>
     let s = sync_listener (s\<lparr>listeners := ls\<rparr>) in
     if do_accept then upd_stats (\<lambda>t. t\<lparr>accepting_conns := True\<rparr>) s
     else poll_maxconns ((upd_stats (\<lambda>t. t\<lparr>accepting_conns := False,
            listen_disabled_num := listen_disabled_num t + 1\<rparr>) s)\<lparr>allow_new_conns := False\<rparr>))"

definition maxconns_handler :: "int \<Rightarrow> 'a machine_scheme \<Rightarrow> 'a machine_scheme" where
  "maxconns_handler fd s = (if fd = -42 \<or> \<not> allow_new_conns s then poll_maxconns s
     else do_accept_new_conns True (s\<lparr>maxconns_timer := False\<rparr>))"

section \<open>Reading requests\<close>

datatype try_read_result = READ_DATA_RECEIVED | READ_NO_DATA_RECEIVED | READ_ERROR | READ_MEMORY_ERROR

text \<open>\<open>recvfrom\<close> cuts a datagram to the size of the buffer.\<close>

definition try_read_udp :: "'a machine_scheme \<Rightarrow> (try_read_result \<times> 'a machine_scheme) option" where
  "try_read_udp s = (let s = upd_con (\<lambda>c. c\<lparr>cn_request_addr_size := sizeof_sockaddr\<rparr>) s in
     case datagrams s of
       [] \<Rightarrow> Some (READ_NO_DATA_RECEIVED, s)
     | d # ds \<Rightarrow> (let
         buf = take (cn_rsize (con s)) d; res = length buf;
         s = upd_con (\<lambda>c. c\<lparr>cn_rbuf := write_at 0 buf (cn_rbuf c)\<rparr>) (s\<lparr>datagrams := ds\<rparr>) in
         if res \<le> 8 then Some (READ_NO_DATA_RECEIVED, s)
         else let
           s = count_read res s;
           s = upd_con (\<lambda>c. c\<lparr>cn_request_id := of_char (buf ! 0) * 256 + of_char (buf ! 1)\<rparr>) s in
         if of_char (buf ! 4) \<noteq> (0 :: nat) \<or> of_char (buf ! 5) \<noteq> (1 :: nat)
         then map_option (Pair READ_NO_DATA_RECEIVED) (out_string ''SERVER_ERROR multi-packet request not supported'' s)
         else Some (READ_DATA_RECEIVED, upd_con (\<lambda>c. c\<lparr>cn_rbuf := write_at 0 (drop 8 buf) (cn_rbuf c),
                cn_rbytes := int res - 8, cn_rcurr := 0\<rparr>) s)))"

text \<open>The unread bytes are moved to the beginning of the buffer.\<close>

definition rewind :: "conn \<Rightarrow> conn" where
  "rewind c = (if cn_rcurr c \<noteq> 0 then (if cn_rbytes c \<noteq> 0 then repack c else c\<lparr>cn_rcurr := 0\<rparr>) else c)"

text \<open>
  A turn of the loop, with \<open>num_allocs\<close> and \<open>gotdata\<close>. The buffer is doubled when it is full, and the
  rest of it is cleared before the read.
\<close>

definition double_rbuf :: "conn \<Rightarrow> conn" where
  "double_rbuf c = c\<lparr>cn_rcurr := 0, cn_rsize := cn_rsize c * 2,
     cn_rbuf := cn_rbuf c @ replicate (cn_rsize c * 2 - length (cn_rbuf c)) (CHR 0x00)\<rparr>"

definition no_read_memory :: "'a machine_scheme \<Rightarrow> 'a machine_scheme option" where
  "no_read_memory s = do {
     s \<leftarrow> out_string ''SERVER_ERROR out of memory reading request'' (upd_con (\<lambda>c. c\<lparr>cn_rbytes := 0\<rparr>) s);
     Some (set_write_and_go conn_closing s) }"

partial_function (option) read_loop :: "nat \<Rightarrow> try_read_result \<Rightarrow> 'a machine_scheme
    \<Rightarrow> (try_read_result \<times> 'a machine_scheme) option" where
  "read_loop num_allocs gotdata s = (let c = con s; full = (int (cn_rsize c) \<le> cn_rbytes c) in
     if full \<and> num_allocs = 4 then Some (gotdata, s)
     else (case (if full then grant c else (True, c)) of (ok, c) \<Rightarrow>
       if \<not> ok then map_option (Pair READ_MEMORY_ERROR) (no_read_memory (s\<lparr>con := c\<rparr>))
       else (let
         c = (if full then double_rbuf c else c);
         n = nat (cn_rbytes c); avail = cn_rsize c - n;
         s = s\<lparr>con := c\<lparr>cn_rbuf := take n (cn_rbuf c) @ replicate avail (CHR 0x00)\<rparr>\<rparr> in
         case sock_read avail s of (res, s) \<Rightarrow> (case res of
           Got [] \<Rightarrow> Some (READ_ERROR, s)
         | Got bs \<Rightarrow> (let
             s = upd_con (\<lambda>c. c\<lparr>cn_rbuf := write_at n bs (cn_rbuf c), cn_rbytes := int (n + length bs)\<rparr>)
                   (count_read (length bs) s) in
             if length bs = avail then read_loop (if full then num_allocs + 1 else num_allocs) READ_DATA_RECEIVED s
             else Some (READ_DATA_RECEIVED, s))
         | Would_block \<Rightarrow> Some (gotdata, s)
         | Net_error \<Rightarrow> Some (READ_ERROR, s)))))"

definition try_read_network :: "'a machine_scheme \<Rightarrow> (try_read_result \<times> 'a machine_scheme) option" where
  "try_read_network s = read_loop 0 READ_NO_DATA_RECEIVED (upd_con rewind s)"

section \<open>Parsing requests\<close>

text \<open>
  The header of a binary request, with the fields of more than one byte put into host order except
  \<open>reserved\<close> and \<open>opaque\<close>, which are copied as they lie in memory.
\<close>

definition decode_header :: "string \<Rightarrow> bin_header" where
  "decode_header bs = (let be = (\<lambda>off n. be_val (take n (drop off bs))); le = (\<lambda>off n. be_val (rev (take n (drop off bs)))) in
     \<lparr>bh_magic = of_nat (be 0 1), bh_opcode = of_nat (be 1 1), bh_keylen = of_nat (be 2 2), bh_extlen = of_nat (be 4 1),
      bh_datatype = of_nat (be 5 1), bh_reserved = of_nat (le 6 2), bh_bodylen = of_nat (be 8 4),
      bh_opaque = of_nat (le 12 4), bh_cas = of_nat (be 16 8)\<rparr>)"

text \<open>The unread bytes.\<close>

definition unread :: "conn \<Rightarrow> string" where
  "unread c = take (nat (cn_rbytes c)) (drop (cn_rcurr c) (cn_rbuf c))"

definition advance :: "nat \<Rightarrow> conn \<Rightarrow> conn" where
  "advance n c = c\<lparr>cn_rcurr := cn_rcurr c + n, cn_rbytes := cn_rbytes c - int n\<rparr>"

definition read_binary :: "os_info \<Rightarrow> 'a machine_scheme \<Rightarrow> (int \<times> 'a machine_scheme) option" where
  "read_binary os s =
     (if cn_rbytes (con s) < int HEADER_LEN then Some (0, s)
      else if length (cn_rbuf (con s)) < cn_rcurr (con s) + HEADER_LEN then None
      else let h = decode_header (take HEADER_LEN (drop (cn_rcurr (con s)) (cn_rbuf (con s))));
               s = upd_con (\<lambda>c. c\<lparr>cn_header := h\<rparr>) s in
        if unat (bh_magic h) \<noteq> PROTOCOL_BINARY_REQ then map_option (Pair (-1)) (conn_set_state conn_closing s)
        else do {
          let s = upd_con (\<lambda>c. c\<lparr>cn_msgcurr := 0, cn_msgused := 0, cn_iovused := 0\<rparr>) s;
          (r, s) \<leftarrow> on_con add_msghdr s;
          if r \<noteq> 0 then map_option (Pair 0) (out_string ''SERVER_ERROR out of memory'' s)
          else do {
            let s = upd_con (\<lambda>c. c\<lparr>cn_cmd := uint (bh_opcode h), cn_keylen := uint (bh_keylen h),
                  cn_opaque := bh_opaque h, cn_cas := 0\<rparr>) s;
            s \<leftarrow> dispatch_bin_command os s;
            Some (1, upd_con (advance HEADER_LEN) s) } })"

text \<open>
  A line that is longer than a kilobyte has to be a multiget. The loop that skips its spaces has no
  bound, so it leaves a buffer that ends with them; the comparisons stop at the first difference.
\<close>

definition long_line_ok :: "conn \<Rightarrow> bool option" where
  "long_line_ok c = (let str = drop (cn_rcurr c) (cn_rbuf c); ptr = dropWhile (\<lambda>e. e = CHR '' '') str in
     if ptr = [] then None
     else if 100 < length str - length ptr then Some False
     else do {
       g \<leftarrow> starts_with ''get '' ptr;
       if g then Some True else starts_with ''gets '' ptr })"

text \<open>
  The first line of the unread bytes without its line end: the length of what the command is read
  from, and the length with the line end. A carriage return that is the first character stays.
\<close>

definition line_lengths :: "string \<Rightarrow> (nat \<times> nat) option" where
  "line_lengths str = (if CHR 0x0A \<in> set str then
       (let el = length (takeWhile (\<lambda>e. e \<noteq> CHR 0x0A) str) in
         Some (if 1 < el \<and> str ! (el - 1) = CHR 0x0D then el - 1 else el, el + 1))
     else None)"

text \<open>
  \<open>ramcube\<close> is \<open>ramcube_process_commands\<close> as in \<open>process_command\<close>; it also gets the position in \<open>rbuf\<close>
  where the input continues. When it returns 1 it has used up the input, and \<open>rcurr\<close> is pointed at an
  empty string outside the buffer: this is the position behind its end.
\<close>

definition read_ascii :: "os_info \<Rightarrow> (nat \<Rightarrow> token list \<Rightarrow> 'a machine_scheme \<Rightarrow> (u64 \<times> 'a machine_scheme) option)
    \<Rightarrow> 'a machine_scheme \<Rightarrow> (int \<times> 'a machine_scheme) option" where
  "read_ascii os ramcube s = (if cn_rbytes (con s) = 0 then Some (0, s) else let c = con s in
     case line_lengths (unread c) of
       None \<Rightarrow>
         (if 1024 < cn_rbytes c then do {
            ok \<leftarrow> long_line_ok c;
            if ok then Some (0, s) else map_option (Pair 1) (conn_set_state conn_closing s) }
          else Some (0, s))
     | Some (el, n) \<Rightarrow> do {
         let cont = cn_rcurr c + n;
         let s = upd_con (\<lambda>c. c\<lparr>cn_rbuf := (cn_rbuf c)[cn_rcurr c + el := CHR 0x00]\<rparr>) s;
         (rtn, s) \<leftarrow> process_command os (ramcube cont) (cstr (take el (unread c))) s;
         if rtn = 1 then Some (1, upd_con (\<lambda>c. c\<lparr>cn_rbytes := 0, cn_rcurr := cn_rsize c\<rparr>) s)
         else if cn_rsize (con s) < cont then None
         else Some (1, upd_con (\<lambda>c. c\<lparr>cn_rbytes := cn_rbytes c - (int cont - int (cn_rcurr c)), cn_rcurr := cont\<rparr>) s) })"

text \<open>The protocol is chosen by the first byte of the buffer.\<close>

definition negotiate :: "'a machine_scheme \<Rightarrow> 'a machine_scheme option" where
  "negotiate s = (if cn_protocol (con s) = negotiating_prot \<or> IS_UDP (cn_transport (con s)) then
       (case cn_rbuf (con s) of [] \<Rightarrow> None
        | b # bs \<Rightarrow> Some (upd_con (\<lambda>c. c\<lparr>cn_protocol := (if of_char b = PROTOCOL_BINARY_REQ then binary_prot else ascii_prot)\<rparr>) s))
     else Some s)"

definition try_read_command :: "os_info \<Rightarrow> (nat \<Rightarrow> token list \<Rightarrow> 'a machine_scheme \<Rightarrow> (u64 \<times> 'a machine_scheme) option)
    \<Rightarrow> 'a machine_scheme \<Rightarrow> (int \<times> 'a machine_scheme) option" where
  "try_read_command os ramcube s =
     (if cn_rsize (con s) < cn_rcurr (con s) \<or> cn_rbytes (con s) \<le> 0 then None
      else do {
        s \<leftarrow> negotiate s;
        if cn_protocol (con s) = binary_prot then read_binary os s else read_ascii os ramcube s })"

section \<open>Collecting data\<close>

definition reset_cmd_handler :: "'a machine_scheme \<Rightarrow> 'a machine_scheme option" where
  "reset_cmd_handler s = do {
     let s = upd_con (\<lambda>c. c\<lparr>cn_cmd := -1, cn_substate := bin_no_state\<rparr>) s;
     s \<leftarrow> (if cn_item (con s) \<noteq> NULL
          then map_option (upd_con (\<lambda>c. c\<lparr>cn_item := NULL\<rparr>)) (item_remove (cn_item (con s)) s) else Some s);
     let s = upd_con conn_shrink s;
     conn_set_state (if 0 < cn_rbytes (con s) then conn_parse_cmd else conn_waiting) s }"

definition complete_nread :: "os_info \<Rightarrow> ('a machine_scheme \<Rightarrow> (u64 \<times> 'a machine_scheme) option) \<Rightarrow> 'a machine_scheme
    \<Rightarrow> 'a machine_scheme option" where
  "complete_nread os post s = (case cn_protocol (con s) of
     ascii_prot \<Rightarrow> complete_nread_ascii post s
   | binary_prot \<Rightarrow> complete_nread_binary os s
   | negotiating_prot \<Rightarrow> None)"

text \<open>
  A store at \<open>ritem\<close>, which is moved on behind it: into the data of the item, or into the read
  buffer. \<open>moved\<close> bytes have been stored, \<open>rlbytes\<close> are still to come.
\<close>

definition store_ritem :: "string \<Rightarrow> 'a machine_scheme \<Rightarrow> 'a machine_scheme option" where
  "store_ritem bs s = (let c = con s; (dst, off) = cn_ritem c; n = length bs;
       done = upd_con (\<lambda>c. c\<lparr>cn_ritem := (dst, off + n), cn_rlbytes := cn_rlbytes c - int n\<rparr>) in
     case dst of
       R_null \<Rightarrow> None
     | R_item it \<Rightarrow> (if item_nbytes (mem s it) < off + n then None else Some (done (upd_item it (put_data off bs) s)))
     | R_rbuf \<Rightarrow> (if length (cn_rbuf c) < off + n then None
         else Some (done (upd_con (\<lambda>c. c\<lparr>cn_rbuf := write_at off bs (cn_rbuf c)\<rparr>) s))))"

text \<open>
  What is left in the buffer is taken first; the copy of a negative number of bytes runs out of every
  buffer. The flag says whether all of the data has been collected.
\<close>

definition take_leftovers :: "'a machine_scheme \<Rightarrow> (bool \<times> 'a machine_scheme) option" where
  "take_leftovers s = (let c = con s in
     if 0 < cn_rbytes c then
       (let tocopy = (if cn_rlbytes c < cn_rbytes c then cn_rlbytes c else cn_rbytes c) in
        if tocopy < 0 then None
        else map_option (\<lambda>s. let s = upd_con (advance (nat tocopy)) s in (cn_rlbytes (con s) = 0, s))
               (store_ritem (take (nat tocopy) (unread c)) s))
     else Some (False, s))"

definition step_nread :: "os_info \<Rightarrow> ('a machine_scheme \<Rightarrow> (u64 \<times> 'a machine_scheme) option) \<Rightarrow> 'a machine_scheme
    \<Rightarrow> (bool \<times> 'a machine_scheme) option" where
  "step_nread os post s = (if cn_rlbytes (con s) = 0 then map_option (Pair False) (complete_nread os post s)
     else do {
       (all, s) \<leftarrow> take_leftovers s;
       if all then Some (False, s)
       else if cn_rlbytes (con s) < 0 then None
       else (case sock_read (nat (cn_rlbytes (con s))) s of (res, s) \<Rightarrow> (case res of
         Got [] \<Rightarrow> map_option (Pair False) (conn_set_state conn_closing s)
       | Got bs \<Rightarrow> do {
           let s = count_read (length bs) s;
           let here = (cn_ritem (con s) = (R_rbuf, cn_rcurr (con s)));
           s \<leftarrow> store_ritem bs s;
           Some (False, if here then upd_con (\<lambda>c. c\<lparr>cn_rcurr := cn_rcurr c + length bs\<rparr>) s else s) }
       | Would_block \<Rightarrow> await_event (EV_READ + EV_PERSIST) s
       | Net_error \<Rightarrow> map_option (Pair False) (conn_set_state conn_closing s))) })"

text \<open>Throwing away \<open>sbytes\<close> bytes; a negative number moves the read position back.\<close>

definition step_swallow :: "'a machine_scheme \<Rightarrow> (bool \<times> 'a machine_scheme) option" where
  "step_swallow s = (let c = con s in
     if cn_sbytes c = 0 then map_option (Pair False) (conn_set_state conn_new_cmd s)
     else if 0 < cn_rbytes c then
       (let tocopy = (if cn_sbytes c < cn_rbytes c then cn_sbytes c else cn_rbytes c) in
        if int (cn_rcurr c) + tocopy < 0 then None
        else Some (False, upd_con (\<lambda>c. c\<lparr>cn_sbytes := cn_sbytes c - tocopy,
               cn_rcurr := nat (int (cn_rcurr c) + tocopy), cn_rbytes := cn_rbytes c - tocopy\<rparr>) s))
     else let n = (if cn_sbytes c < int (cn_rsize c) then cn_sbytes c else int (cn_rsize c)) in
       if n < 0 then None
       else (case sock_read (nat n) s of (res, s) \<Rightarrow> (case res of
         Got [] \<Rightarrow> map_option (Pair False) (conn_set_state conn_closing s)
       | Got bs \<Rightarrow> Some (False, upd_con (\<lambda>c. c\<lparr>cn_rbuf := write_at 0 bs (cn_rbuf c),
             cn_sbytes := cn_sbytes c - int (length bs)\<rparr>) (count_read (length bs) s))
       | Would_block \<Rightarrow> await_event (EV_READ + EV_PERSIST) s
       | Net_error \<Rightarrow> map_option (Pair False) (conn_set_state conn_closing s))))"

section \<open>Sending\<close>

text \<open>The contents of the buffers that a reply refers to. Memory never written reads as null characters.\<close>

definition src_bytes :: "'a server_scheme \<Rightarrow> iosrc \<Rightarrow> string" where
  "src_bytes s src = (let data = (\<lambda>it. let i = mem s it in
       item_data i @ replicate (item_nbytes i - length (item_data i)) (CHR 0x00)) in
     case src of
       IO_null \<Rightarrow> []
     | IO_lit t \<Rightarrow> t
     | IO_key it \<Rightarrow> ITEM_key (mem s it)
     | IO_suffix it \<Rightarrow> it_suffix (mem s it) @ data it
     | IO_data it \<Rightarrow> data it
     | IO_wbuf \<Rightarrow> cn_wbuf (con s)
     | IO_free \<Rightarrow> (case cn_write_and_free (con s) of None \<Rightarrow> [] | Some b \<Rightarrow> b)
     | IO_sufbuf p \<Rightarrow> map (\<lambda>b. char_of (unat b)) (bytes_at (c_heap (suffix_cache s)) p SUFFIX_SIZE)
     | IO_hdr \<Rightarrow> (case cn_hdrbuf (con s) of None \<Rightarrow> [] | Some h \<Rightarrow> map (\<lambda>b. char_of (unat b)) h))"

text \<open>The pieces of a message that are still to be sent, and whether each lies inside its buffer.\<close>

definition msg_pieces :: "msghdr \<Rightarrow> conn \<Rightarrow> iovec list" where
  "msg_pieces m c = take (msg_iovlen m) (drop (msg_iov m) (cn_iov c))"

definition piece_inside :: "(iosrc \<Rightarrow> string) \<Rightarrow> iovec \<Rightarrow> bool" where
  "piece_inside f v \<longleftrightarrow> 0 \<le> iov_len v \<and> iov_off v + nat (iov_len v) \<le> length (f (iov_base v))"

definition message_bytes :: "'a server_scheme \<Rightarrow> msghdr \<Rightarrow> string option" where
  "message_bytes s m = (let vs = msg_pieces m (con s) in
     if length vs = msg_iovlen m \<and> list_all (piece_inside (src_bytes s)) vs
     then Some (concat (map (piece_bytes (src_bytes s)) vs)) else None)"

datatype send_result = Sent nat | Send_block | Send_error

text \<open>\<open>sendmsg\<close>; \<open>sent\<close> collects what went out.\<close>

definition sendmsg :: "msghdr \<Rightarrow> 'a machine_scheme \<Rightarrow> (send_result \<times> 'a machine_scheme) option" where
  "sendmsg m s = (case net_out s of
     [] \<Rightarrow> Some (Send_block, s)
   | Write_block # es \<Rightarrow> Some (Send_block, s\<lparr>net_out := es\<rparr>)
   | Write_fail # es \<Rightarrow> Some (Send_error, s\<lparr>net_out := es\<rparr>)
   | Takes n # es \<Rightarrow> map_option (\<lambda>bs. (Sent (length (take n bs)), s\<lparr>net_out := es, sent := sent s @ take n bs\<rparr>))
       (message_bytes s m))"

text \<open>The loop that removes the pieces that have been sent completely, and what is left of \<open>res\<close>.\<close>

fun drop_pieces :: "nat \<Rightarrow> nat \<Rightarrow> nat \<Rightarrow> iovec list \<Rightarrow> nat \<times> nat \<times> nat" where
  "drop_pieces i 0 res iov = (i, 0, res)"
| "drop_pieces i (Suc n) res iov =
     (if iov_len (iov ! i) \<le> int res then drop_pieces (i + 1) n (res - nat (iov_len (iov ! i))) iov else (i, Suc n, res))"

definition consume_msg :: "nat \<Rightarrow> conn \<Rightarrow> conn option" where
  "consume_msg res c = (let m = cn_msglist c ! cn_msgcurr c in
     case drop_pieces (msg_iov m) (msg_iovlen m) res (cn_iov c) of (i, n, res) \<Rightarrow> do {
       c \<leftarrow> upd_msg (cn_msgcurr c) (\<lambda>m. m\<lparr>msg_iov := i, msg_iovlen := n\<rparr>) c;
       if 0 < res then set_iov i (let v = cn_iov c ! i in v\<lparr>iov_off := iov_off v + res, iov_len := iov_len v - int res\<rparr>) c
       else Some c })"

datatype transmit_result = TRANSMIT_COMPLETE | TRANSMIT_INCOMPLETE | TRANSMIT_SOFT_ERROR | TRANSMIT_HARD_ERROR

definition skip_sent_msg :: "conn \<Rightarrow> conn" where
  "skip_sent_msg c = (if cn_msgcurr c < cn_msgused c \<and> msg_iovlen (cn_msglist c ! cn_msgcurr c) = 0
     then c\<lparr>cn_msgcurr := cn_msgcurr c + 1\<rparr> else c)"

text \<open>The second \<open>if\<close> of \<open>transmit\<close>, and the whole of it.\<close>

definition transmit_msg :: "'a machine_scheme \<Rightarrow> (transmit_result \<times> 'a machine_scheme) option" where
  "transmit_msg s = (let c = con s;
       hard = (\<lambda>s. map_option (Pair TRANSMIT_HARD_ERROR)
         (conn_set_state (if IS_UDP (cn_transport (con s)) then conn_read else conn_closing) s)) in
     if cn_msgused c \<le> cn_msgcurr c then Some (TRANSMIT_COMPLETE, s)
     else if length (cn_msglist c) \<le> cn_msgcurr c then None
     else do {
       (res, s) \<leftarrow> sendmsg (cn_msglist c ! cn_msgcurr c) s;
       case res of
         Sent n \<Rightarrow>
           (if 0 < n then do {
              let s = upd_tstats (\<lambda>t. t\<lparr>bytes_written := bytes_written t + of_nat n\<rparr>) s;
              c \<leftarrow> consume_msg n (con s);
              Some (TRANSMIT_INCOMPLETE, s\<lparr>con := c\<rparr>) }
            else hard s)
       | Send_block \<Rightarrow> map_option (\<lambda>(ok, s). (if ok then TRANSMIT_SOFT_ERROR else TRANSMIT_HARD_ERROR, s))
           (await_event (EV_WRITE + EV_PERSIST) s)
       | Send_error \<Rightarrow> hard s })"

definition transmit :: "'a machine_scheme \<Rightarrow> (transmit_result \<times> 'a machine_scheme) option" where
  "transmit s = transmit_msg (upd_con skip_sent_msg s)"

text \<open>When a reply has been sent: items and suffixes are released, and the next state is entered.\<close>

definition sent_all :: "'a machine_scheme \<Rightarrow> 'a machine_scheme option" where
  "sent_all s = (case cn_state (con s) of
     conn_mwrite \<Rightarrow> do {
       s \<leftarrow> release_items (nat (cn_ileft (con s))) s;
       s \<leftarrow> release_suffixes (nat (cn_suffixleft (con s))) s;
       conn_set_state (if cn_protocol (con s) = binary_prot then cn_write_and_go (con s) else conn_new_cmd) s }
   | conn_write \<Rightarrow> (let s = upd_con (\<lambda>c. c\<lparr>cn_write_and_free := None\<rparr>) s in conn_set_state (cn_write_and_go (con s)) s)
   | _ \<Rightarrow> conn_set_state conn_closing s)"

definition step_mwrite :: "'a machine_scheme \<Rightarrow> (bool \<times> 'a machine_scheme) option" where
  "step_mwrite s = do {
     (ok, s) \<leftarrow> (if IS_UDP (cn_transport (con s)) \<and> cn_msgcurr (con s) = 0
       then map_option (\<lambda>(r, s). (r = 0, s)) (on_con build_udp_headers s) else Some (True, s));
     if \<not> ok then map_option (Pair False) (conn_set_state conn_closing s)
     else do {
       (res, s) \<leftarrow> transmit s;
       case res of
         TRANSMIT_COMPLETE \<Rightarrow> map_option (Pair False) (sent_all s)
       | TRANSMIT_INCOMPLETE \<Rightarrow> Some (False, s)
       | TRANSMIT_HARD_ERROR \<Rightarrow> Some (False, s)
       | TRANSMIT_SOFT_ERROR \<Rightarrow> Some (True, s) } }"

text \<open>A simple answer is made into a message first.\<close>

definition step_write :: "'a machine_scheme \<Rightarrow> (bool \<times> 'a machine_scheme) option" where
  "step_write s = (let c = con s in
     if cn_iovused c = 0 \<or> IS_UDP (cn_transport c) \<and> cn_iovused c = 1 then do {
       (r, s) \<leftarrow> on_con (add_iov (fst (cn_wcurr c)) (snd (cn_wcurr c)) (cn_wbytes c)) s;
       if r \<noteq> 0 then map_option (Pair False) (conn_set_state conn_closing s) else step_mwrite s }
     else step_mwrite s)"

section \<open>Accepting connections\<close>

definition accept_conn :: "int \<Rightarrow> 'a machine_scheme \<Rightarrow> 'a machine_scheme option" where
  "accept_conn sfd s =
     (if maxconns_fast (settings s) \<and>
         uint (word_of_int (maxconns (settings s) - 1) :: u32) \<le> uint (curr_conns (stats s) + reserved_fds (stats s))
      then Some (upd_stats (\<lambda>t. t\<lparr>rejected_conns := rejected_conns t + 1\<rparr>) (s\<lparr>closed := closed s @ [sfd]\<rparr>))
      else map_option (\<lambda>d. s\<lparr>dispatcher := d\<rparr>)
        (dispatch_conn_new sfd conn_new_cmd (EV_READ + EV_PERSIST) (int DATA_BUFFER_SIZE) tcp_transport (dispatcher s)))"

definition step_listening :: "'a machine_scheme \<Rightarrow> (bool \<times> 'a machine_scheme) option" where
  "step_listening s = (case accepts s of
     [] \<Rightarrow> Some (True, s)
   | a # as \<Rightarrow> (let s = s\<lparr>accepts := as\<rparr> in case a of
       Accept_block \<Rightarrow> Some (True, s)
     | Accept_full \<Rightarrow> Some (True, do_accept_new_conns False s)
     | Accept_fail \<Rightarrow> Some (True, s)
     | Accepted sfd ok \<Rightarrow>
         (if \<not> ok then Some (False, s\<lparr>closed := closed s @ [sfd]\<rparr>)
          else map_option (Pair True) (accept_conn sfd s))))"

section \<open>The machine\<close>

definition step_waiting :: "'a machine_scheme \<Rightarrow> (bool \<times> 'a machine_scheme) option" where
  "step_waiting s = do {
     (ok, s) \<leftarrow> await_event (EV_READ + EV_PERSIST) s;
     if ok then map_option (Pair True) (conn_set_state conn_read s) else Some (False, s) }"

definition step_read :: "'a machine_scheme \<Rightarrow> (bool \<times> 'a machine_scheme) option" where
  "step_read s = do {
     (res, s) \<leftarrow> (if IS_UDP (cn_transport (con s)) then try_read_udp s else try_read_network s);
     map_option (Pair False) (case res of
         READ_NO_DATA_RECEIVED \<Rightarrow> conn_set_state conn_waiting s
       | READ_DATA_RECEIVED \<Rightarrow> conn_set_state conn_parse_cmd s
       | READ_ERROR \<Rightarrow> conn_set_state conn_closing s
       | READ_MEMORY_ERROR \<Rightarrow> Some s) }"

definition step_parse_cmd :: "os_info \<Rightarrow> (nat \<Rightarrow> token list \<Rightarrow> 'a machine_scheme \<Rightarrow> (u64 \<times> 'a machine_scheme) option)
    \<Rightarrow> 'a machine_scheme \<Rightarrow> (bool \<times> 'a machine_scheme) option" where
  "step_parse_cmd os ramcube s = do {
     (r, s) \<leftarrow> try_read_command os ramcube s;
     if r = 0 then map_option (Pair False) (conn_set_state conn_waiting s) else Some (False, s) }"

text \<open>\<open>nreqs\<close> is the number of requests that may still be served, after it was counted down.\<close>

definition step_new_cmd :: "int \<Rightarrow> 'a machine_scheme \<Rightarrow> (bool \<times> 'a machine_scheme) option" where
  "step_new_cmd nreqs s =
     (if 0 \<le> nreqs then map_option (Pair False) (reset_cmd_handler s)
      else let s = upd_tstats (\<lambda>t. t\<lparr>conn_yields := conn_yields t + 1\<rparr>) s in
        if 0 < cn_rbytes (con s) then map_option (\<lambda>(ok, s). (True, s)) (await_event (EV_WRITE + EV_PERSIST) s)
        else Some (True, s))"

definition step_closing :: "'a machine_scheme \<Rightarrow> (bool \<times> 'a machine_scheme) option" where
  "step_closing s = map_option (Pair True)
     (if IS_UDP (cn_transport (con s)) then conn_cleanup s else conn_close s)"

text \<open>
  The parameters of the machine: the system, and the hooks of the RAMCube additions for the commands
  that memcached does not know and for a stored item. A turn returns whether the machine stops.
\<close>

definition machine_step :: "os_info \<Rightarrow> (nat \<Rightarrow> token list \<Rightarrow> 'a machine_scheme \<Rightarrow> (u64 \<times> 'a machine_scheme) option)
    \<Rightarrow> ('a machine_scheme \<Rightarrow> (u64 \<times> 'a machine_scheme) option) \<Rightarrow> int \<Rightarrow> 'a machine_scheme
    \<Rightarrow> (bool \<times> 'a machine_scheme) option" where
  "machine_step os ramcube post nreqs s = (case cn_state (con s) of
     conn_listening \<Rightarrow> step_listening s
   | conn_waiting \<Rightarrow> step_waiting s
   | conn_read \<Rightarrow> step_read s
   | conn_parse_cmd \<Rightarrow> step_parse_cmd os ramcube s
   | conn_new_cmd \<Rightarrow> step_new_cmd nreqs s
   | conn_nread \<Rightarrow> step_nread os post s
   | conn_swallow \<Rightarrow> step_swallow s
   | conn_write \<Rightarrow> step_write s
   | conn_mwrite \<Rightarrow> step_mwrite s
   | conn_closing \<Rightarrow> step_closing s
   | conn_max_state \<Rightarrow> None)"

partial_function (option) drive_loop :: "os_info
    \<Rightarrow> (nat \<Rightarrow> token list \<Rightarrow> 'a machine_scheme \<Rightarrow> (u64 \<times> 'a machine_scheme) option)
    \<Rightarrow> ('a machine_scheme \<Rightarrow> (u64 \<times> 'a machine_scheme) option) \<Rightarrow> int \<Rightarrow> 'a machine_scheme
    \<Rightarrow> 'a machine_scheme option" where
  "drive_loop os ramcube post nreqs s = (let
     nreqs = (if cn_state (con s) = conn_new_cmd then nreqs - 1 else nreqs) in
   Option.bind (machine_step os ramcube post nreqs s) (\<lambda>(stop, s).
     if stop then Some s else drive_loop os ramcube post nreqs s))"

definition drive_machine :: "os_info \<Rightarrow> (nat \<Rightarrow> token list \<Rightarrow> 'a machine_scheme \<Rightarrow> (u64 \<times> 'a machine_scheme) option)
    \<Rightarrow> ('a machine_scheme \<Rightarrow> (u64 \<times> 'a machine_scheme) option) \<Rightarrow> 'a machine_scheme \<Rightarrow> 'a machine_scheme option" where
  "drive_machine os ramcube post s = drive_loop os ramcube post (reqs_per_event (settings s)) s"

definition event_handler :: "os_info \<Rightarrow> (nat \<Rightarrow> token list \<Rightarrow> 'a machine_scheme \<Rightarrow> (u64 \<times> 'a machine_scheme) option)
    \<Rightarrow> ('a machine_scheme \<Rightarrow> (u64 \<times> 'a machine_scheme) option) \<Rightarrow> int \<Rightarrow> int \<Rightarrow> 'a machine_scheme
    \<Rightarrow> 'a machine_scheme option" where
  "event_handler os ramcube post fd which s = (let s = upd_con (\<lambda>c. c\<lparr>cn_which := which\<rparr>) s in
     if fd \<noteq> cn_sfd (con s) then conn_close s else drive_machine os ramcube post s)"

end
