(* ===== verification/Delivery.thy ===== *)
theory Delivery
  imports Machine
begin

text \<open>
  What the state machine does with the bytes of the network: a reply goes out whole and in order,
  however the kernel cuts it into pieces, and a data block is collected whole and in order, however
  it arrives.
\<close>

section \<open>The bytes still to be sent\<close>

definition pending_msgs :: "'a msgq_scheme \<Rightarrow> msghdr list" where
  "pending_msgs c = drop (cn_msgcurr c) (take (cn_msgused c) (cn_msglist c))"

abbreviation total_pieces :: "msghdr list \<Rightarrow> nat" where
  "total_pieces ms \<equiv> sum_list (map msg_iovlen ms)"

definition pending :: "'a server_scheme \<Rightarrow> string" where
  "pending s = concat (map (\<lambda>m. concat (map (piece_bytes (src_bytes s)) (msg_pieces m (con s)))) (pending_msgs (con s)))"

text \<open>
  The messages that are not sent yet lie one behind the other in the array of pieces, from \<open>k\<close> on,
  and every piece lies inside the buffer it refers to.
\<close>

definition send_shape :: "'a server_scheme \<Rightarrow> nat \<Rightarrow> bool" where
  "send_shape s k \<longleftrightarrow> (let c = con s; ms = pending_msgs c in cn_msgused c \<le> length (cn_msglist c)
     \<and> msgs_from k ms \<and> k + total_pieces ms \<le> length (cn_iov c)
     \<and> list_all (piece_inside (src_bytes s)) (take (total_pieces ms) (drop k (cn_iov c))))"

definition send_ok :: "'a server_scheme \<Rightarrow> bool" where
  "send_ok s \<longleftrightarrow> (\<exists>k. send_shape s k)"

lemma take_drop_append: "take (a + b) (drop k xs) = take a (drop k xs) @ take b (drop (k + a) xs)"
  by (metis add.commute drop_drop take_add)

lemma msgs_pieces:
  assumes "msgs_from k ms" "k + total_pieces ms \<le> length (cn_iov c)"
  shows "concat (map (\<lambda>m. msg_pieces m c) ms) = take (total_pieces ms) (drop k (cn_iov c))"
  using assms by (induction ms arbitrary: k) (simp_all add: msg_pieces_def take_drop_append)

lemma concat_flat: "concat (map (\<lambda>x. concat (map f (g x))) xs) = concat (map f (concat (map g xs)))"
  by (induction xs) simp_all

lemma pending_region:
  assumes "send_shape s k"
  shows "pending s = concat (map (piece_bytes (src_bytes s))
    (take (total_pieces (pending_msgs (con s))) (drop k (cn_iov (con s)))))"
proof -
  have "pending s = concat (map (piece_bytes (src_bytes s)) (concat (map (\<lambda>m. msg_pieces m (con s)) (pending_msgs (con s)))))"
    unfolding pending_def by (simp add: concat_flat)
  then show ?thesis using assms msgs_pieces [of k "pending_msgs (con s)" "con s"] by (simp add: send_shape_def Let_def)
qed

section \<open>Removing what has been sent\<close>

lemma piece_length: "piece_inside f v \<Longrightarrow> length (piece_bytes f v) = nat (iov_len v)"
  by (auto simp: piece_inside_def piece_bytes_def)

lemma drop_pieces_region:
  assumes "drop_pieces i n res iov = (i', n', res')" "i + n + r \<le> length iov"
    and "list_all (piece_inside f) (take n (drop i iov))"
    and "res \<le> length (concat (map (piece_bytes f) (take n (drop i iov))))"
  shows "i' + n' = i + n" "i \<le> i'" "n' = 0 \<longrightarrow> res' = 0" "0 < n' \<longrightarrow> res' < length (piece_bytes f (iov ! i'))"
    "drop res' (concat (map (piece_bytes f) (take (n' + r) (drop i' iov))))
      = drop res (concat (map (piece_bytes f) (take (n + r) (drop i iov))))"
proof -
  have "i' + n' = i + n \<and> i \<le> i' \<and> (n' = 0 \<longrightarrow> res' = 0) \<and> (0 < n' \<longrightarrow> res' < length (piece_bytes f (iov ! i')))
    \<and> drop res' (concat (map (piece_bytes f) (take (n' + r) (drop i' iov))))
      = drop res (concat (map (piece_bytes f) (take (n + r) (drop i iov))))"
    using assms
  proof (induction i n res iov rule: drop_pieces.induct)
    case (2 i n res iov)
    let ?b = "piece_bytes f (iov ! i)"
    have d: "drop i iov = iov ! i # drop (Suc i) iov" using 2(3) by (simp add: Cons_nth_drop_Suc)
    have len: "length ?b = nat (iov_len (iov ! i))" and nn: "0 \<le> iov_len (iov ! i)"
      using 2(4) d by (simp_all add: piece_length piece_inside_def)
    show ?case
    proof (cases "iov_len (iov ! i) \<le> int res")
      case True
      have "res - nat (iov_len (iov ! i)) \<le> length (concat (map (piece_bytes f) (take n (drop (Suc i) iov))))"
        using 2(5) d len by simp
      with 2(1) [OF True] 2(2-4) True d
      have "i' + n' = Suc i + n \<and> Suc i \<le> i' \<and> (n' = 0 \<longrightarrow> res' = 0) \<and> (0 < n' \<longrightarrow> res' < length (piece_bytes f (iov ! i')))
        \<and> drop res' (concat (map (piece_bytes f) (take (n' + r) (drop i' iov))))
          = drop (res - nat (iov_len (iov ! i))) (concat (map (piece_bytes f) (take (n + r) (drop (Suc i) iov))))"
        by simp
      then show ?thesis using d len True by simp
    next
      case False
      then show ?thesis using 2(2) len nn by auto
    qed
  qed simp
  then show "i' + n' = i + n" "i \<le> i'" "n' = 0 \<longrightarrow> res' = 0" "0 < n' \<longrightarrow> res' < length (piece_bytes f (iov ! i'))"
    "drop res' (concat (map (piece_bytes f) (take (n' + r) (drop i' iov))))
      = drop res (concat (map (piece_bytes f) (take (n + r) (drop i iov))))" by blast+
qed

section \<open>Calls that leave the reply alone\<close>

definition same_reply :: "'a machine_scheme \<Rightarrow> 'a machine_scheme \<Rightarrow> bool" where
  "same_reply s t \<longleftrightarrow> src_bytes t = src_bytes s \<and> sent t = sent s \<and> cn_iov (con t) = cn_iov (con s)
     \<and> cn_msglist (con t) = cn_msglist (con s) \<and> cn_msgused (con t) = cn_msgused (con s)
     \<and> cn_msgcurr (con t) = cn_msgcurr (con s)"

lemma same_replyD:
  assumes "same_reply s t"
  shows "src_bytes t = src_bytes s" "sent t = sent s" "pending_msgs (con t) = pending_msgs (con s)"
    "pending t = pending s" "send_shape t k = send_shape s k"
proof -
  show "src_bytes t = src_bytes s" "sent t = sent s" using assms by (simp_all add: same_reply_def)
  show m: "pending_msgs (con t) = pending_msgs (con s)" using assms by (simp add: same_reply_def pending_msgs_def)
  show "pending t = pending s" unfolding pending_def m using assms by (simp add: same_reply_def msg_pieces_def)
  show "send_shape t k = send_shape s k" unfolding send_shape_def Let_def m using assms by (simp add: same_reply_def)
qed

lemma src_bytes_cong:
  assumes "mem t = mem s" "cn_wbuf (con t) = cn_wbuf (con s)" "cn_write_and_free (con t) = cn_write_and_free (con s)"
    "suffix_cache t = suffix_cache s" "cn_hdrbuf (con t) = cn_hdrbuf (con s)"
  shows "src_bytes t = src_bytes s"
  using assms by (simp add: fun_eq_iff src_bytes_def Let_def split: iosrc.splits)

lemma change_flags_rest:
  "change_flags f g s = (ok, h, t) \<Longrightarrow> con t = con s \<and> mem t = mem s \<and> suffix_cache t = suffix_cache s
     \<and> sent t = sent s \<and> net_out t = net_out s \<and> net_in t = net_in s"
  by (auto simp: change_flags_def event_del_def event_add_def split: if_splits list.splits prod.splits)

lemma same_reply_con:
  assumes "mem t = mem s" "suffix_cache t = suffix_cache s" "sent t = sent s"
    and "con t = (con s)\<lparr>cn_state := st, cn_ev_flags := fl\<rparr>"
  shows "same_reply s t"
proof -
  have "src_bytes t = src_bytes s" by (rule src_bytes_cong) (simp_all add: assms)
  then show ?thesis unfolding same_reply_def by (simp add: assms)
qed

lemma set_state_same:
  "st \<noteq> conn_max_state \<Longrightarrow> \<exists>t. conn_set_state st s = Some t \<and> same_reply s t \<and> net_out t = net_out s
     \<and> net_in t = net_in s \<and> mem t = mem s \<and> cn_state (con t) = st"
  unfolding conn_set_state_def upd_con_def
  by (simp, rule same_reply_con [where st = st and fl = "cn_ev_flags (con s)"]) simp_all

lemma await_event_same:
  "\<exists>ok t. await_event f s = Some (ok, t) \<and> same_reply s t \<and> net_out t = net_out s \<and> net_in t = net_in s
     \<and> mem t = mem s \<and> (ok \<longrightarrow> cn_state (con t) = cn_state (con s)) \<and> (\<not> ok \<longrightarrow> cn_state (con t) = conn_closing)"
proof -
  obtain ok h u where u: "change_flags f (cn_ev_flags (con s)) s = (ok, h, u)" by (cases "change_flags f (cn_ev_flags (con s)) s") auto
  note r = change_flags_rest [OF u]
  let ?st = "if ok then cn_state (con s) else conn_closing"
  let ?t = "u\<lparr>con := (con u)\<lparr>cn_ev_flags := h, cn_state := ?st\<rparr>\<rparr>"
  have "await_event f s = Some (ok, ?t)" using r by (simp add: await_event_def update_event_def u conn_set_state_def upd_con_def)
  moreover have "same_reply s ?t" by (rule same_reply_con [where st = ?st and fl = h]) (use r in simp_all)
  ultimately show ?thesis using r by (intro exI [of _ ok] exI [of _ ?t]) simp
qed

section \<open>Transmitting\<close>

text \<open>No message is empty but one that has just been sent.\<close>

definition sendable :: "'a machine_scheme \<Rightarrow> bool" where
  "sendable s \<longleftrightarrow> (\<forall>m \<in> set (pending_msgs (con s)). msg_iovlen m \<noteq> 0 \<longrightarrow>
       concat (map (piece_bytes (src_bytes s)) (msg_pieces m (con s))) \<noteq> [])
     \<and> (\<forall>m \<in> set (tl (pending_msgs (con s))). 0 < msg_iovlen m)"

lemma pending_Cons:
  assumes "cn_msgcurr c < cn_msgused c" "cn_msgused c \<le> length (cn_msglist c)"
  shows "pending_msgs c = cn_msglist c ! cn_msgcurr c # drop (Suc (cn_msgcurr c)) (take (cn_msgused c) (cn_msglist c))"
  unfolding pending_msgs_def using assms by (subst Cons_nth_drop_Suc [symmetric]) simp_all

lemma skip_sent:
  assumes S: "send_shape s k" and t: "t = upd_con skip_sent_msg s"
  shows "send_shape t k \<and> pending t = pending s \<and> sent t = sent s \<and> src_bytes t = src_bytes s
    \<and> net_out t = net_out s \<and> (sendable s \<longrightarrow> sendable t \<and> (\<forall>m \<in> set (pending_msgs (con t)). 0 < msg_iovlen m))"
proof (cases "cn_msgcurr (con s) < cn_msgused (con s) \<and> msg_iovlen (cn_msglist (con s) ! cn_msgcurr (con s)) = 0")
  case True
  let ?m = "cn_msglist (con s) ! cn_msgcurr (con s)"
  have c: "con t = (con s)\<lparr>cn_msgcurr := Suc (cn_msgcurr (con s))\<rparr>" and r: "src_bytes t = src_bytes s"
    "sent t = sent s" "net_out t = net_out s"
    using True by (auto simp: t upd_con_def skip_sent_msg_def intro!: src_bytes_cong)
  have m: "pending_msgs (con s) = ?m # pending_msgs (con t)"
    using S True pending_Cons [of "con s"] by (simp add: send_shape_def Let_def c pending_msgs_def)
  have p: "msg_pieces x (con t) = msg_pieces x (con s)" for x by (simp add: msg_pieces_def c)
  have e: "msg_pieces ?m (con s) = []" using True by (simp add: msg_pieces_def)
  have f: "cn_msgused (con t) = cn_msgused (con s)" "cn_msglist (con t) = cn_msglist (con s)" "cn_iov (con t) = cn_iov (con s)"
    by (simp_all add: c)
  have "send_shape t k" using S m True unfolding send_shape_def Let_def r f by simp
  moreover have "pending t = pending s" using m e unfolding pending_def by (simp add: r p)
  moreover have "sendable s \<longrightarrow> sendable t \<and> (\<forall>m \<in> set (pending_msgs (con t)). 0 < msg_iovlen m)"
    unfolding sendable_def m p r by (cases "pending_msgs (con t)") auto
  ultimately show ?thesis using r by blast
next
  case False
  then have e: "t = s" by (auto simp: t upd_con_def skip_sent_msg_def)
  have "0 < msg_iovlen x" if sd: "sendable s" and x: "x \<in> set (pending_msgs (con s))" for x
  proof (cases "cn_msgcurr (con s) < cn_msgused (con s)")
    case True
    then show ?thesis using False S sd x pending_Cons [of "con s"]
      by (auto simp: sendable_def send_shape_def Let_def)
  next
    case nope: False
    then show ?thesis using x by (simp add: pending_msgs_def)
  qed
  then show ?thesis using e S by blast
qed

text \<open>A piece of which \<open>n\<close> bytes have been sent.\<close>

lemma piece_rest:
  assumes "piece_inside f v" "n < length (piece_bytes f v)"
  shows "piece_inside f (v\<lparr>iov_off := iov_off v + n, iov_len := iov_len v - int n\<rparr>)"
    "piece_bytes f (v\<lparr>iov_off := iov_off v + n, iov_len := iov_len v - int n\<rparr>) = drop n (piece_bytes f v)"
  using assms by (auto simp: piece_inside_def piece_bytes_def drop_take nat_diff_distrib add.commute)

lemma msg_bytes_inside:
  assumes "send_shape s k" "pending_msgs (con s) = m # ms"
  shows "message_bytes s m = Some (concat (map (piece_bytes (src_bytes s)) (msg_pieces m (con s))))"
    "msg_iov m = k" "k + msg_iovlen m + total_pieces ms \<le> length (cn_iov (con s))"
    "list_all (piece_inside (src_bytes s)) (take (msg_iovlen m) (drop k (cn_iov (con s))))"
    "list_all (piece_inside (src_bytes s)) (take (total_pieces ms) (drop (k + msg_iovlen m) (cn_iov (con s))))"
    "msgs_from (k + msg_iovlen m) ms"
  using assms by (auto simp: send_shape_def Let_def message_bytes_def msg_pieces_def take_drop_append)

lemma msgs_from_ge: "msgs_from k ms \<Longrightarrow> m \<in> set ms \<Longrightarrow> k \<le> msg_iov m"
  by (induction ms arbitrary: k) (auto dest: add_leD1)

text \<open>What \<open>consume_msg\<close> leaves is what was to be sent without its first \<open>res\<close> bytes.\<close>

lemma consume_msg_ok:
  assumes S: "send_shape s k" and u: "cn_msgcurr (con s) < cn_msgused (con s)"
    and res: "res \<le> length (concat (map (piece_bytes (src_bytes s)) (msg_pieces (cn_msglist (con s) ! cn_msgcurr (con s)) (con s))))"
    and D: "drop_pieces k (msg_iovlen (cn_msglist (con s) ! cn_msgcurr (con s))) res (cn_iov (con s)) = (i, n, r)"
  shows "\<exists>c. consume_msg res (con s) = Some c \<and> send_shape (s\<lparr>con := c\<rparr>) i
    \<and> src_bytes (s\<lparr>con := c\<rparr>) = src_bytes s \<and> pending (s\<lparr>con := c\<rparr>) = drop res (pending s)
    \<and> (sendable s \<longrightarrow> sendable (s\<lparr>con := c\<rparr>))"
proof -
  let ?c = "con s" and ?f = "src_bytes s"
  let ?m = "cn_msglist ?c ! cn_msgcurr ?c"
  let ?ms = "drop (Suc (cn_msgcurr ?c)) (take (cn_msgused ?c) (cn_msglist ?c))"
  have len: "cn_msgused ?c \<le> length (cn_msglist ?c)" using S by (simp add: send_shape_def Let_def)
  have ms: "pending_msgs ?c = ?m # ?ms" by (rule pending_Cons [OF u len])
  note M = msg_bytes_inside [OF S ms]
  have iov: "k + msg_iovlen ?m + total_pieces ?ms \<le> length (cn_iov ?c)" by (rule M(3))
  have res': "res \<le> length (concat (map (piece_bytes ?f) (take (msg_iovlen ?m) (drop k (cn_iov ?c)))))"
    using res M(2) by (simp add: msg_pieces_def)
  note R = drop_pieces_region [OF D M(3) M(4) res']
  let ?v = "cn_iov ?c ! i"
  let ?iov = "if 0 < r then (cn_iov ?c)[i := ?v\<lparr>iov_off := iov_off ?v + r, iov_len := iov_len ?v - int r\<rparr>] else cn_iov ?c"
  let ?l = "(cn_msglist ?c)[cn_msgcurr ?c := ?m\<lparr>msg_iov := i, msg_iovlen := n\<rparr>]"
  let ?d = "?c\<lparr>cn_msglist := ?l, cn_iov := ?iov\<rparr>"
  have i: "r \<noteq> 0 \<Longrightarrow> 0 < n \<and> i < length (cn_iov ?c)" using R(1,3) iov by auto
  have "consume_msg res ?c = Some ?d"
    using D M(2) u len i by (simp add: consume_msg_def upd_msg_def set_iov_def Let_def)
  moreover have src: "src_bytes (s\<lparr>con := ?d\<rparr>) = ?f" by (rule src_bytes_cong) simp_all
  have msd: "pending_msgs ?d = ?m\<lparr>msg_iov := i, msg_iovlen := n\<rparr> # ?ms"
    using u len by (subst pending_Cons) (simp_all add: take_update_swap)
  let ?t = "n + total_pieces ?ms"
  have region: "take ?t (drop i ?iov) = (if 0 < r then ?v\<lparr>iov_off := iov_off ?v + r, iov_len := iov_len ?v - int r\<rparr>
      # take (?t - 1) (drop (Suc i) (cn_iov ?c)) else take ?t (drop i (cn_iov ?c)))"
  proof (cases "0 < r")
    case True
    with i have ii: "i < length (cn_iov ?c)" "0 < n" by auto
    have "drop i ?iov = ?v\<lparr>iov_off := iov_off ?v + r, iov_len := iov_len ?v - int r\<rparr> # drop (Suc i) (cn_iov ?c)"
      using True ii by (subst Cons_nth_drop_Suc [symmetric]) simp_all
    then show ?thesis using True ii by (cases n) simp_all
  qed simp
  have old: "0 < r \<Longrightarrow> take ?t (drop i (cn_iov ?c)) = ?v # take (?t - 1) (drop (Suc i) (cn_iov ?c))"
    using i by (cases n) (simp_all add: Cons_nth_drop_Suc [symmetric])
  have inold: "list_all (piece_inside ?f) (take ?t (drop i (cn_iov ?c)))"
  proof -
    have "take (msg_iovlen ?m) (drop k (cn_iov ?c)) = take (i - k) (drop k (cn_iov ?c)) @ take n (drop i (cn_iov ?c))"
      using take_drop_append [of "i - k" n k "cn_iov ?c"] R(1,2) by simp
    then show ?thesis using M(4,5) R(1) by (simp add: take_drop_append)
  qed
  have shape: "send_shape (s\<lparr>con := ?d\<rparr>) i"
  proof -
    have "list_all (piece_inside ?f) (take ?t (drop i ?iov))"
    proof (cases "0 < r")
      case True
      with inold old have "piece_inside ?f ?v" "list_all (piece_inside ?f) (take (?t - 1) (drop (Suc i) (cn_iov ?c)))" by simp_all
      then show ?thesis using True region R(4) i piece_rest(1) [of ?f ?v r] by simp
    qed (use inold in simp)
    then show ?thesis unfolding send_shape_def Let_def src using msd len R(1) M(6) iov by simp
  qed
  moreover have "pending (s\<lparr>con := ?d\<rparr>) = drop res (pending s)"
  proof -
    have "pending (s\<lparr>con := ?d\<rparr>) = concat (map (piece_bytes ?f) (take ?t (drop i ?iov)))"
      using pending_region [OF shape] unfolding src by (simp add: msd)
    also have "\<dots> = drop r (concat (map (piece_bytes ?f) (take ?t (drop i (cn_iov ?c)))))"
    proof (cases "0 < r")
      case True
      with inold old have "piece_inside ?f ?v" by simp
      then show ?thesis using True region old R(4) i piece_rest(2) [of ?f ?v r] by simp
    qed simp
    also have "\<dots> = drop res (pending s)" using R(5) pending_region [OF S] by (simp add: ms)
    finally show ?thesis .
  qed
  moreover have "sendable s \<longrightarrow> sendable (s\<lparr>con := ?d\<rparr>)"
  proof
    assume sd: "sendable s"
    have first: "n \<noteq> 0 \<longrightarrow> concat (map (piece_bytes ?f) (take n (drop i ?iov))) \<noteq> []"
    proof
      assume n: "n \<noteq> 0"
      then have ii: "i < length ?iov" and rl: "r < length (piece_bytes ?f ?v)" using R(1,4) iov by auto
      have "piece_inside ?f ?v" using inold n ii by (cases n) (simp_all add: Cons_nth_drop_Suc [symmetric] split: if_splits)
      then have "piece_bytes ?f (?iov ! i) \<noteq> []" using rl ii piece_rest(2) [of ?f ?v r] by auto
      then show "concat (map (piece_bytes ?f) (take n (drop i ?iov))) \<noteq> []"
        using n ii by (cases n) (simp_all add: Cons_nth_drop_Suc [symmetric])
    qed
    have rest: "msg_pieces x ?d = msg_pieces x ?c" if "x \<in> set ?ms" for x
    proof -
      have "k + msg_iovlen ?m \<le> msg_iov x" by (rule msgs_from_ge [OF M(6) that])
      then have "0 < r \<longrightarrow> i < msg_iov x" using R(1) i by auto
      then show ?thesis by (simp add: msg_pieces_def)
    qed
    show "sendable (s\<lparr>con := ?d\<rparr>)"
      using sd first rest unfolding sendable_def src by (simp add: msd ms msg_pieces_def)
  qed
  ultimately show ?thesis using src by blast
qed

text \<open>One call: what it reports, and what it does to the bytes to be sent.\<close>

definition transmitted :: "'a machine_scheme \<Rightarrow> transmit_result \<Rightarrow> 'a machine_scheme \<Rightarrow> bool" where
  "transmitted s r t \<longleftrightarrow> send_ok t \<and> sent t @ pending t = sent s @ pending s
     \<and> (r = TRANSMIT_COMPLETE \<longrightarrow> pending t = [])"

lemma transmitted_same:
  assumes "send_shape s k" "same_reply s t" "r \<noteq> TRANSMIT_COMPLETE"
  shows "transmitted s r t"
  using assms same_replyD(2,4,5) [OF assms(2)] by (auto simp: transmitted_def send_ok_def)

text \<open>A kernel that takes something.\<close>

lemma transmit_takes:
  assumes S: "send_shape s k" and u: "cn_msgcurr (con s) < cn_msgused (con s)"
    and net: "net_out s = Takes n # es"
    and B: "take n (concat (map (piece_bytes (src_bytes s)) (msg_pieces (cn_msglist (con s) ! cn_msgcurr (con s)) (con s)))) \<noteq> []"
  shows "\<exists>t. transmit_msg s = Some (TRANSMIT_INCOMPLETE, t) \<and> transmitted s TRANSMIT_INCOMPLETE t \<and> net_out t = es
    \<and> length (pending t) < length (pending s) \<and> (sendable s \<longrightarrow> sendable t)"
proof -
  let ?c = "con s" and ?f = "src_bytes s" let ?m = "cn_msglist ?c ! cn_msgcurr ?c"
  let ?B = "concat (map (piece_bytes ?f) (msg_pieces ?m ?c))"
  obtain bs where bs: "bs = take n ?B" by blast
  let ?r = "length bs"
  have len: "cn_msgused ?c \<le> length (cn_msglist ?c)" using S by (simp add: send_shape_def Let_def)
  note ms = pending_Cons [OF u len] and M = msg_bytes_inside [OF S pending_Cons [OF u len]]
  obtain u where u': "u = upd_tstats (\<lambda>t. t\<lparr>bytes_written := bytes_written t + of_nat ?r\<rparr>)
      (s\<lparr>net_out := es, sent := sent s @ bs\<rparr>)" by blast
  have h: "con u = ?c" "mem u = mem s" "suffix_cache u = suffix_cache s" "sent u = sent s @ bs" "net_out u = es"
    unfolding u' upd_tstats_def Let_def by simp_all
  have src: "src_bytes u = ?f" by (rule src_bytes_cong) (simp_all add: h)
  have S': "send_shape u k" using S unfolding send_shape_def h src .
  have p: "pending u = pending s" unfolding pending_def h src ..
  have sd: "sendable u = sendable s" unfolding sendable_def h src ..
  obtain i j r where D: "drop_pieces k (msg_iovlen ?m) ?r (cn_iov ?c) = (i, j, r)"
    by (cases "drop_pieces k (msg_iovlen ?m) ?r (cn_iov ?c)") auto
  have le: "?r \<le> length ?B" by (simp add: bs)
  obtain c where c: "consume_msg ?r ?c = Some c" "send_shape (u\<lparr>con := c\<rparr>) i"
    "src_bytes (u\<lparr>con := c\<rparr>) = ?f" "pending (u\<lparr>con := c\<rparr>) = drop ?r (pending s)"
    "sendable s \<longrightarrow> sendable (u\<lparr>con := c\<rparr>)"
    using consume_msg_ok [OF S', unfolded h src p sd, OF u le D] by (elim exE conjE)
  have "sendmsg ?m s = Some (Sent ?r, s\<lparr>net_out := es, sent := sent s @ bs\<rparr>)"
    using M(1) net by (simp add: sendmsg_def bs)
  then have "transmit_msg s = Some (TRANSMIT_INCOMPLETE, u\<lparr>con := c\<rparr>)"
    using u len B [folded bs] c(1) h(1) by (simp add: transmit_msg_def Let_def u' [symmetric])
  moreover have pre: "pending s = bs @ drop ?r (pending s)"
  proof -
    have "take ?r (pending s) = bs" by (simp add: pending_def ms min_def bs)
    then show ?thesis by (metis append_take_drop_id)
  qed
  moreover have s': "sent (u\<lparr>con := c\<rparr>) = sent s @ bs" "net_out (u\<lparr>con := c\<rparr>) = es" using h(4,5) by simp_all
  moreover have "length (drop ?r (pending s)) < length (pending s)"
  proof -
    have "0 < length bs" using B [folded bs] by simp
    then show ?thesis using arg_cong [OF pre, of length] by (simp only: length_append)
  qed
  moreover have "transmitted s TRANSMIT_INCOMPLETE (u\<lparr>con := c\<rparr>)"
    unfolding transmitted_def s' c(4) using c(2) pre by (auto simp: send_ok_def)
  ultimately show ?thesis using c(4,5) by (intro exI [of _ "u\<lparr>con := c\<rparr>"] conjI) simp_all
qed

lemma transmit_msg_any:
  assumes S: "send_shape s k"
  shows "\<exists>r t. transmit_msg s = Some (r, t) \<and> transmitted s r t"
proof (cases "cn_msgcurr (con s) < cn_msgused (con s)")
  case False
  then have "transmit_msg s = Some (TRANSMIT_COMPLETE, s)" "pending s = []"
    by (simp_all add: transmit_msg_def Let_def pending_def pending_msgs_def)
  then show ?thesis using S by (auto simp: transmitted_def send_ok_def)
next
  case u: True
  let ?c = "con s" let ?m = "cn_msglist ?c ! cn_msgcurr ?c"
  let ?B = "concat (map (piece_bytes (src_bytes s)) (msg_pieces ?m ?c))"
  have len: "cn_msgused ?c \<le> length (cn_msglist ?c)" using S by (simp add: send_shape_def Let_def)
  note M = msg_bytes_inside [OF S pending_Cons [OF u len]]
  have same: "same_reply s (s\<lparr>net_out := es\<rparr>)" for es
    by (rule same_reply_con [where st = "cn_state ?c" and fl = "cn_ev_flags ?c"]) simp_all
  have hard: "\<exists>t. conn_set_state (if IS_UDP (cn_transport (con s)) then conn_read else conn_closing) (s\<lparr>net_out := es\<rparr>) = Some t
      \<and> transmitted s TRANSMIT_HARD_ERROR t" for es
  proof -
    obtain t where t: "conn_set_state (if IS_UDP (cn_transport (con s)) then conn_read else conn_closing) (s\<lparr>net_out := es\<rparr>) = Some t"
      "same_reply (s\<lparr>net_out := es\<rparr>) t"
      using set_state_same [of "if IS_UDP (cn_transport (con s)) then conn_read else conn_closing" "s\<lparr>net_out := es\<rparr>"]
      by (cases "IS_UDP (cn_transport (con s))") auto
    with same [of es] have "same_reply s t" by (simp add: same_reply_def)
    with transmitted_same [OF S] t(1) show ?thesis by blast
  qed
  have block: ?thesis if "sendmsg ?m s = Some (Send_block, s\<lparr>net_out := es\<rparr>)" for es
  proof -
    obtain ok t where t: "await_event (EV_WRITE + EV_PERSIST) (s\<lparr>net_out := es\<rparr>) = Some (ok, t)"
      "same_reply (s\<lparr>net_out := es\<rparr>) t"
      using await_event_same [of "EV_WRITE + EV_PERSIST" "s\<lparr>net_out := es\<rparr>"] by blast
    with same [of es] have r: "same_reply s t" by (simp add: same_reply_def)
    have "transmit_msg s = Some (if ok then TRANSMIT_SOFT_ERROR else TRANSMIT_HARD_ERROR, t)"
      using u len that t(1) by (simp add: transmit_msg_def Let_def)
    with transmitted_same [OF S r] show ?thesis by (cases ok) auto
  qed
  show ?thesis
  proof (cases "net_out s")
    case Nil
    then have "sendmsg ?m s = Some (Send_block, s\<lparr>net_out := []\<rparr>)" by (simp add: sendmsg_def)
    then show ?thesis by (rule block)
  next
    case (Cons e es)
    show ?thesis
    proof (cases e)
      case Write_block
      then have "sendmsg ?m s = Some (Send_block, s\<lparr>net_out := es\<rparr>)" using Cons by (simp add: sendmsg_def)
      then show ?thesis by (rule block)
    next
      case Write_fail
      then have "sendmsg ?m s = Some (Send_error, s\<lparr>net_out := es\<rparr>)" using Cons by (simp add: sendmsg_def)
      then have "transmit_msg s = map_option (Pair TRANSMIT_HARD_ERROR)
          (conn_set_state (if IS_UDP (cn_transport (con s)) then conn_read else conn_closing) (s\<lparr>net_out := es\<rparr>))"
        using u len by (simp add: transmit_msg_def Let_def)
      then show ?thesis using hard [of es] by (elim exE conjE) (simp only: option.map, blast)
    next
      case (Takes n)
      show ?thesis
      proof (cases "take n ?B = []")
        case True
        then have "sendmsg ?m s = Some (Sent 0, s\<lparr>net_out := es\<rparr>)"
          by (simp only: sendmsg_def Cons list.case Takes net_write.case M(1) option.map True list.size append_Nil2) simp
        then have "transmit_msg s = map_option (Pair TRANSMIT_HARD_ERROR)
            (conn_set_state (if IS_UDP (cn_transport (con s)) then conn_read else conn_closing) (s\<lparr>net_out := es\<rparr>))"
          using u len by (simp add: transmit_msg_def Let_def)
        then show ?thesis using hard [of es] by (elim exE conjE) (simp only: option.map, blast)
      next
        case False
        with transmit_takes [OF S u _ False] Cons Takes show ?thesis by blast
      qed
    qed
  qed
qed

lemma transmit_any: "send_ok s \<Longrightarrow> \<exists>r t. transmit s = Some (r, t) \<and> transmitted s r t"
  using transmit_msg_any [of "upd_con skip_sent_msg s"] skip_sent [OF _ refl]
  unfolding transmit_def send_ok_def [of s] transmitted_def by metis

text \<open>
  Property C7.
  Replies leave in order: a call of \<open>transmit\<close> never fails on a well-formed reply, whatever the kernel
  does, sends a beginning of the bytes that are still to be sent and keeps exactly the others, and
  reports completion only when nothing is left.
\<close>

theorem transmit_in_order:
  assumes "send_ok s"
  shows "\<exists>r t. transmit s = Some (r, t) \<and> send_ok t \<and> sent t @ pending t = sent s @ pending s
    \<and> (r = TRANSMIT_COMPLETE \<longrightarrow> pending t = [])"
  using transmit_any [OF assms] by (simp add: transmitted_def)

text \<open>The turns of the machine while it is sending a reply.\<close>

fun transmit_run :: "nat \<Rightarrow> 'a machine_scheme \<Rightarrow> (transmit_result \<times> 'a machine_scheme) option" where
  "transmit_run 0 s = Some (TRANSMIT_INCOMPLETE, s)"
| "transmit_run (Suc n) s = Option.bind (transmit s) (\<lambda>(r, t).
     if r = TRANSMIT_INCOMPLETE then transmit_run n t else Some (r, t))"

lemma sendable_empty:
  assumes "sendable s" "\<forall>m \<in> set (pending_msgs (con s)). 0 < msg_iovlen m" "pending s = []"
  shows "pending_msgs (con s) = []"
proof (cases "pending_msgs (con s)")
  case (Cons m ms)
  with assms(1,2) have "concat (map (piece_bytes (src_bytes s)) (msg_pieces m (con s))) \<noteq> []" by (simp add: sendable_def)
  then show ?thesis using assms(3) Cons by (simp add: pending_def)
qed

lemma transmit_run_all:
  assumes "send_ok s" "sendable s" "net_out s = map Takes ns @ es" "\<forall>n \<in> set ns. 0 < n"
    and "length (pending s) \<le> length ns" "length (pending s) < k"
  shows "\<exists>t. transmit_run k s = Some (TRANSMIT_COMPLETE, t) \<and> sent t = sent s @ pending s \<and> pending t = []"
  using assms
proof (induction "length (pending s)" arbitrary: s ns k rule: less_induct)
  case less
  obtain j where S: "send_shape s j" using less.prems(1) by (auto simp: send_ok_def)
  let ?u = "upd_con skip_sent_msg s"
  from skip_sent [OF S refl] less.prems(2) have u: "send_shape ?u j" "pending ?u = pending s" "sent ?u = sent s"
    "net_out ?u = net_out s" "sendable ?u" "\<forall>m \<in> set (pending_msgs (con ?u)). 0 < msg_iovlen m" by blast+
  obtain k' where k: "k = Suc k'" using less.prems(6) by (cases k) auto
  show ?case
  proof (cases "pending s = []")
    case True
    with sendable_empty [OF u(5,6)] u(2) have "pending_msgs (con ?u) = []" by simp
    moreover have "cn_msgused (con ?u) \<le> length (cn_msglist (con ?u))" using u(1) by (simp add: send_shape_def Let_def)
    ultimately have "cn_msgused (con ?u) \<le> cn_msgcurr (con ?u)" by (simp add: pending_msgs_def)
    then have "transmit s = Some (TRANSMIT_COMPLETE, ?u)" by (simp add: transmit_def transmit_msg_def Let_def)
    then show ?thesis using True u(2,3) k by simp
  next
    case False
    then obtain n ns' where ns: "ns = n # ns'" using less.prems(5) by (cases ns) auto
    have curr: "cn_msgcurr (con ?u) < cn_msgused (con ?u)"
    proof (rule ccontr)
      assume "\<not> ?thesis"
      then have "pending ?u = []" by (simp add: pending_def pending_msgs_def)
      with False u(2) show False by simp
    qed
    have len: "cn_msgused (con ?u) \<le> length (cn_msglist (con ?u))" using u(1) by (simp add: send_shape_def Let_def)
    have bytes: "concat (map (piece_bytes (src_bytes ?u)) (msg_pieces (cn_msglist (con ?u) ! cn_msgcurr (con ?u)) (con ?u))) \<noteq> []"
      using u(5,6) unfolding sendable_def pending_Cons [OF curr len] list.set by blast
    have n: "0 < n" and net: "net_out ?u = Takes n # map Takes ns' @ es" using less.prems(3,4) ns u(4) by simp_all
    have "take n (concat (map (piece_bytes (src_bytes ?u)) (msg_pieces (cn_msglist (con ?u) ! cn_msgcurr (con ?u)) (con ?u)))) \<noteq> []"
      using bytes n by (simp only: take_eq_Nil) simp
    from transmit_takes [OF u(1) curr net this] obtain t where t: "transmit s = Some (TRANSMIT_INCOMPLETE, t)"
      "transmitted ?u TRANSMIT_INCOMPLETE t" "net_out t = map Takes ns' @ es" "length (pending t) < length (pending s)"
      "sendable t" unfolding transmit_def u(2) using u(5) by blast
    have st: "send_ok t" "sent t @ pending t = sent s @ pending s" using t(2) by (simp_all add: transmitted_def u(2,3))
    have "\<forall>n \<in> set ns'. 0 < n" "length (pending t) \<le> length ns'" "length (pending t) < k'"
      using less.prems(4-6) t(4) ns k by auto
    from less.hyps [OF t(4) st(1) t(5,3) this] obtain v where v: "transmit_run k' t = Some (TRANSMIT_COMPLETE, v)"
      "sent v = sent t @ pending t" "pending v = []" by blast
    then show ?thesis using t(1) st(2) k by simp
  qed
qed


text \<open>A connection that has two messages of two and one pieces to send.\<close>

definition machine_boot :: "conn \<Rightarrow> net_read list \<Rightarrow> net_write list \<Rightarrow> machine" where
  "machine_boot c ins outs = server.extend (server_boot\<lparr>con := c\<rparr>)
     (machine.fields ins [] outs [] [] [True] [] False dispatch_boot)"

lemma machine_boot_fields [simp]:
  "con (machine_boot c ins outs) = c" "net_in (machine_boot c ins outs) = ins" "net_out (machine_boot c ins outs) = outs"
  "sent (machine_boot c ins outs) = []" "mem (machine_boot c ins outs) = mem server_boot"
  "settings (machine_boot c ins outs) = settings server_boot" "suffix_cache (machine_boot c ins outs) = suffix_cache server_boot"
  by (simp_all add: machine_boot_def server.defs machine.defs)

definition sending_conn :: conn where
  "sending_conn = (zero_conn [])\<lparr>cn_wbuf := ''VALUE k'', cn_msgused := 2,
     cn_iov := [\<lparr>iov_base = IO_wbuf, iov_off = 0, iov_len = 7\<rparr>, \<lparr>iov_base = IO_lit ''41'', iov_off = 0, iov_len = 2\<rparr>,
       \<lparr>iov_base = IO_lit ''END'', iov_off = 0, iov_len = 3\<rparr>], cn_iovused := 3,
     cn_msglist := [\<lparr>msg_iov = 0, msg_iovlen = 2, msg_namelen = 0\<rparr>, \<lparr>msg_iov = 2, msg_iovlen = 1, msg_namelen = 0\<rparr>]\<rparr>"

lemma sending_boot:
  fixes outs defines "s \<equiv> machine_boot sending_conn [] outs"
  shows "send_ok s" "sendable s" "pending s = ''VALUE k41END''"
proof -
  have src: "src_bytes s IO_wbuf = ''VALUE k''" "src_bytes s (IO_lit t) = t" for t
    by (simp_all add: s_def src_bytes_def sending_conn_def)
  have con: "con s = sending_conn" by (simp add: s_def)
  have "send_shape s 0" unfolding send_shape_def con Let_def
    by (simp add: sending_conn_def pending_msgs_def piece_inside_def src zero_conn_def)
  then show "send_ok s" unfolding send_ok_def by blast
  show "sendable s" unfolding sendable_def con
    by (simp add: sending_conn_def pending_msgs_def msg_pieces_def piece_bytes_def src zero_conn_def)
  show "pending s = ''VALUE k41END''" unfolding pending_def con
    by (simp add: sending_conn_def pending_msgs_def msg_pieces_def piece_bytes_def src zero_conn_def)
qed

theorem transmit_in_order_witness:
  "\<exists>r t. transmit (machine_boot sending_conn [] [Takes 8]) = Some (r, t) \<and> sent t @ pending t = ''VALUE k41END''
     \<and> (r = TRANSMIT_COMPLETE \<longrightarrow> pending t = [])"
proof -
  from transmit_in_order [OF sending_boot(1) [of "[Takes 8]"]] show ?thesis by (simp add: sending_boot(3)) blast
qed


section \<open>Collecting a data block\<close>

text \<open>The turns of the machine, until it stops.\<close>

fun machine_run :: "('a machine_scheme \<Rightarrow> (bool \<times> 'a machine_scheme) option) \<Rightarrow> nat \<Rightarrow> 'a machine_scheme
    \<Rightarrow> 'a machine_scheme option" where
  "machine_run step 0 s = Some s"
| "machine_run step (Suc k) s = Option.bind (step s) (\<lambda>(stop, t). if stop then Some t else machine_run step k t)"

text \<open>
  The connection collects \<open>n\<close> bytes into \<open>it\<close>, of which \<open>r\<close> are still missing; the rest of the input is
  in the buffer and in the nonempty \<open>parts\<close>.
\<close>

definition collecting :: "addr \<Rightarrow> nat \<Rightarrow> nat \<Rightarrow> string list \<Rightarrow> net_read list \<Rightarrow> 'a machine_scheme \<Rightarrow> bool" where
  "collecting it n r parts rest s \<longleftrightarrow> (let c = con s in cn_state c = conn_nread \<and> cn_ritem c = (R_item it, n - r)
     \<and> cn_rlbytes c = int r \<and> r \<le> n \<and> n \<le> item_nbytes (mem s it) \<and> 0 \<le> cn_rbytes c
     \<and> cn_rcurr c + nat (cn_rbytes c) \<le> length (cn_rbuf c) \<and> n - r \<le> length (it_value (mem s it))
     \<and> net_in s = map Arrived parts @ rest \<and> [] \<notin> set parts)"

text \<open>What has been collected, followed by what is to come.\<close>

definition stream :: "addr \<Rightarrow> nat \<Rightarrow> nat \<Rightarrow> string list \<Rightarrow> 'a machine_scheme \<Rightarrow> string" where
  "stream it n r parts s = take (n - r) (it_value (mem s it)) @ unread (con s) @ concat parts"

lemma take_write_at: "off \<le> length v \<Longrightarrow> take (off + length bs) (write_at off bs v) = take off v @ bs"
  by (simp add: write_at_def)

lemma store_collecting:
  assumes "collecting it n r parts rest s" "length bs \<le> r"
  shows "\<exists>t. store_ritem bs s = Some t \<and> net_in t = net_in s
    \<and> con t = (con s)\<lparr>cn_ritem := (R_item it, n - (r - length bs)), cn_rlbytes := int (r - length bs)\<rparr>
    \<and> item_nbytes (mem t it) = item_nbytes (mem s it) \<and> n - (r - length bs) \<le> length (it_value (mem t it))
    \<and> take (n - (r - length bs)) (it_value (mem t it)) = take (n - r) (it_value (mem s it)) @ bs"
proof -
  let ?c = "con s"
  have c: "cn_ritem ?c = (R_item it, n - r)" "cn_rlbytes ?c = int r" "r \<le> n" "n \<le> item_nbytes (mem s it)"
    "n - r \<le> length (it_value (mem s it))" using assms(1) by (simp_all add: collecting_def Let_def)
  have e: "n - (r - length bs) = n - r + length bs" "int (r - length bs) = int r - int (length bs)" using assms(2) c(3) by simp_all
  let ?t = "upd_con (\<lambda>c. c\<lparr>cn_ritem := (R_item it, n - r + length bs), cn_rlbytes := cn_rlbytes c - int (length bs)\<rparr>)
    (upd_item it (put_data (n - r) bs) s)"
  have "store_ritem bs s = Some ?t" using c assms(2) by (simp add: store_ritem_def Let_def)
  moreover have "mem ?t it = put_data (n - r) bs (mem s it)" "net_in ?t = net_in s" "con (upd_item it (put_data (n - r) bs) s) = ?c"
    by (simp_all add: upd_con_def upd_item_def)
  moreover have "con ?t = ?c\<lparr>cn_ritem := (R_item it, n - (r - length bs)), cn_rlbytes := int (r - length bs)\<rparr>"
    unfolding e by (simp add: upd_con_def upd_item_def c(2))
  moreover have "n - r + length bs \<le> length (it_value (put_data (n - r) bs (mem s it)))" using c(5) by (simp add: put_data_def write_at_def)
  ultimately show ?thesis unfolding e(1) using take_write_at [OF c(5), of bs]
    by (intro exI [of _ ?t]) (simp add: put_data_def item_nbytes_def)
qed

text \<open>The part that is in the read buffer.\<close>

lemma take_leftovers_ok:
  assumes C: "collecting it n r parts rest s" and r: "0 < r"
  shows "\<exists>d r'. take_leftovers s = Some (cn_rlbytes (con d) = 0, d) \<and> r' \<le> r \<and> collecting it n r' parts rest d
    \<and> stream it n r' parts d = stream it n r parts s \<and> (r' \<noteq> 0 \<longrightarrow> cn_rbytes (con d) = 0)"
proof (cases "0 < cn_rbytes (con s)")
  case False
  then have "cn_rbytes (con s) = 0" using C by (simp add: collecting_def Let_def)
  then show ?thesis using C r by (intro exI [of _ s] exI [of _ r]) (simp add: take_leftovers_def Let_def collecting_def)
next
  case True
  let ?c = "con s" let ?k = "min r (nat (cn_rbytes ?c))"
  have c: "cn_rlbytes ?c = int r" "cn_rcurr ?c + nat (cn_rbytes ?c) \<le> length (cn_rbuf ?c)" "r \<le> n" "n \<le> item_nbytes (mem s it)"
    "net_in s = map Arrived parts @ rest" "[] \<notin> set parts" "cn_state ?c = conn_nread"
    using C by (simp_all add: collecting_def Let_def)
  let ?bs = "take ?k (unread ?c)"
  have len: "length ?bs = ?k" using c(2) by (simp add: unread_def)
  then have "length ?bs \<le> r" by simp
  from store_collecting [OF C this, unfolded len] obtain t where t: "store_ritem ?bs s = Some t" "net_in t = net_in s"
    "con t = ?c\<lparr>cn_ritem := (R_item it, n - (r - ?k)), cn_rlbytes := int (r - ?k)\<rparr>"
    "item_nbytes (mem t it) = item_nbytes (mem s it)" "n - (r - ?k) \<le> length (it_value (mem t it))"
    "take (n - (r - ?k)) (it_value (mem t it)) = take (n - r) (it_value (mem s it)) @ ?bs" by blast
  let ?d = "upd_con (advance ?k) t"
  have d: "con ?d = (con t)\<lparr>cn_rcurr := cn_rcurr ?c + ?k, cn_rbytes := cn_rbytes ?c - int ?k\<rparr>" "mem ?d = mem t" "net_in ?d = net_in s"
    using t(2,3) by (simp_all add: upd_con_def advance_def)
  have tc: "(if cn_rlbytes ?c < cn_rbytes ?c then cn_rlbytes ?c else cn_rbytes ?c) = int ?k" using c(1) True by auto
  have "take_leftovers s = Some (cn_rlbytes (con ?d) = 0, ?d)"
    using True t(1) unfolding take_leftovers_def Let_def tc by simp
  moreover have "collecting it n (r - ?k) parts rest ?d"
    unfolding collecting_def Let_def d using c t True by auto
  moreover have "unread ?c = ?bs @ unread (con ?d)"
  proof -
    have "nat (cn_rbytes ?c) = ?k + nat (cn_rbytes ?c - int ?k)" by auto
    from arg_cong [OF this, of "\<lambda>i. take i (drop (cn_rcurr ?c) (cn_rbuf ?c))", unfolded take_drop_append]
    have "unread ?c = take ?k (drop (cn_rcurr ?c) (cn_rbuf ?c)) @ unread (con ?d)"
      unfolding unread_def d(1) t(3) by simp
    moreover have "?bs = take ?k (drop (cn_rcurr ?c) (cn_rbuf ?c))" by (simp add: unread_def)
    ultimately show ?thesis by (simp only:)
  qed
  then have "stream it n (r - ?k) parts ?d = stream it n r parts s" unfolding stream_def d(2) t(6) by simp
  moreover have "r - ?k \<noteq> 0 \<longrightarrow> cn_rbytes (con ?d) = 0" unfolding d(1) t(3) using True by auto
  ultimately show ?thesis by (intro exI [of _ ?d] exI [of _ "r - ?k"]) simp
qed

lemma step_nread_ok:
  assumes C: "collecting it n r parts rest s" and r: "0 < r" and enough: "n \<le> length (stream it n r parts s)"
  shows "\<exists>t r' parts'. step_nread os post s = Some (False, t) \<and> r' < r \<and> collecting it n r' parts' rest t
    \<and> stream it n r' parts' t = stream it n r parts s"
proof -
  obtain d r' where d: "take_leftovers s = Some (cn_rlbytes (con d) = 0, d)" "r' \<le> r" "collecting it n r' parts rest d"
    "stream it n r' parts d = stream it n r parts s" "r' \<noteq> 0 \<longrightarrow> cn_rbytes (con d) = 0"
    using take_leftovers_ok [OF C r] by blast
  have nz: "cn_rlbytes (con s) \<noteq> 0" using C r by (simp add: collecting_def Let_def)
  show ?thesis
  proof (cases "r' = 0")
    case True
    then have "cn_rlbytes (con d) = 0" using d(3) by (simp add: collecting_def Let_def)
    then have "step_nread os post s = Some (False, d)" using nz d(1) by (simp add: step_nread_def)
    then show ?thesis using d True r by (intro exI [of _ d] exI [of _ 0] exI [of _ parts]) simp
  next
    case False
    have c: "cn_rlbytes (con d) = int r'" "cn_ritem (con d) = (R_item it, n - r')" "r' \<le> n"
      "net_in d = map Arrived parts @ rest" "[] \<notin> set parts" "n - r' \<le> length (it_value (mem d it))"
      using d(3) by (simp_all add: collecting_def Let_def)
    have empty: "unread (con d) = []" using d(5) False by (simp add: unread_def)
    obtain b bs where p: "parts = b # bs"
    proof (cases parts)
      case Nil
      then have "length (stream it n r' parts d) = n - r'" using empty c(6) by (simp add: stream_def)
      with enough d(4) False c(3) have False by simp
      then show ?thesis ..
    qed
    have b: "b \<noteq> []" using c(5) p by auto
    obtain g ps where gp: "g = take r' b" "ps = (if length b \<le> r' then bs else drop r' b # bs)" by blast
    have g: "g \<noteq> []" "length g \<le> r'" "g @ concat ps = concat parts" "[] \<notin> set ps"
      using b False p c(5) by (auto simp: gp)
    have sock: "sock_read r' d = (Got g, d\<lparr>net_in := map Arrived ps @ rest\<rparr>)"
      using c(4) p b False by (simp add: sock_read_def gp)
    obtain u where u': "u = count_read (length g) (d\<lparr>net_in := map Arrived ps @ rest\<rparr>)" by blast
    have u: "con u = con d" "mem u = mem d" "net_in u = map Arrived ps @ rest"
      by (simp_all add: u' count_read_def upd_tstats_def Let_def)
    have C': "collecting it n r' ps rest u" using d(3) g(4) unfolding collecting_def Let_def u by auto
    from store_collecting [OF C' g(2)] obtain t where t: "store_ritem g u = Some t" "net_in t = net_in u"
      "con t = (con d)\<lparr>cn_ritem := (R_item it, n - (r' - length g)), cn_rlbytes := int (r' - length g)\<rparr>"
      "item_nbytes (mem t it) = item_nbytes (mem d it)" "n - (r' - length g) \<le> length (it_value (mem t it))"
      "take (n - (r' - length g)) (it_value (mem t it)) = take (n - r') (it_value (mem d it)) @ g"
      unfolding u by blast
    obtain x xs where xs: "g = x # xs" using g(1) by (cases g) auto
    have here: "cn_ritem (con u) \<noteq> (R_rbuf, cn_rcurr (con u))" unfolding u c(2) by simp
    have u'': "count_read (Suc (length xs)) (d\<lparr>net_in := map Arrived ps @ rest\<rparr>) = u" by (simp add: u' xs)
    have "cn_rlbytes (con d) \<noteq> 0" "\<not> cn_rlbytes (con d) < 0" using c(1) False by simp_all
    then have "step_nread os post s = Some (False, t)"
      using nz d(1) sock t(1) here u'' by (simp add: step_nread_def c(1) xs Let_def)
    moreover have "collecting it n (r' - length g) ps rest t"
      using C' [unfolded collecting_def Let_def u] t(2-5) u(3) unfolding collecting_def Let_def by auto
    moreover have "stream it n (r' - length g) ps t = stream it n r' parts d"
    proof -
      have "unread (con t) = unread (con d)" by (simp add: unread_def t(3))
      moreover have "g @ concat ps = concat parts" by (rule g(3))
      ultimately show ?thesis unfolding stream_def t(6) empty by simp
    qed
    moreover have "r' - length g < r" using xs g(2) d(2) by auto
    ultimately show ?thesis using d(4) by (intro exI [of _ t] exI [of _ "r' - length g"] exI [of _ ps]) simp
  qed
qed

lemma collect_all:
  assumes "collecting it n r parts rest s" "n \<le> length (stream it n r parts s)"
  shows "\<exists>k t parts'. machine_run (machine_step os ramcube post nreqs) k s = Some t \<and> collecting it n 0 parts' rest t
    \<and> stream it n 0 parts' t = stream it n r parts s"
  using assms
proof (induction r arbitrary: s parts rule: less_induct)
  case (less r)
  show ?case
  proof (cases "r = 0")
    case True
    then show ?thesis using less.prems by (intro exI [of _ 0] exI [of _ s] exI [of _ parts]) simp
  next
    case False
    then obtain t r' ps where t: "step_nread os post s = Some (False, t)" "r' < r" "collecting it n r' ps rest t"
      "stream it n r' ps t = stream it n r parts s"
      using step_nread_ok [OF less.prems(1) _ less.prems(2)] by blast
    have "n \<le> length (stream it n r' ps t)" using less.prems(2) t(4) by simp
    from less.IH [OF t(2,3) this] obtain k u ps' where u: "machine_run (machine_step os ramcube post nreqs) k t = Some u"
      "collecting it n 0 ps' rest u" "stream it n 0 ps' u = stream it n r' ps t" by blast
    have "cn_state (con s) = conn_nread" using less.prems(1) by (simp add: collecting_def Let_def)
    then have "machine_run (machine_step os ramcube post nreqs) (Suc k) s = Some u"
      using t(1) u(1) by (simp add: machine_step_def)
    then show ?thesis using u(2,3) t(4) by (intro exI [of _ "Suc k"] exI [of _ u] exI [of _ ps']) simp
  qed
qed

text \<open>
  Property C9.
  A data block is read whole: a connection that waits for the \<open>n\<close> bytes of an item gets them, in
  finitely many turns, as soon as the client has sent them, wherever they lie and however the network
  cuts them: the item then holds exactly the next \<open>n\<close> bytes of the input, nothing behind them is
  lost, and the command is ready to be completed.
\<close>

theorem data_block_collected:
  assumes "collecting it n n parts rest s" "n \<le> length (unread (con s) @ concat parts)"
  shows "\<exists>k t parts'. machine_run (machine_step os ramcube post nreqs) k s = Some t
    \<and> cn_state (con t) = conn_nread \<and> cn_rlbytes (con t) = 0 \<and> net_in t = map Arrived parts' @ rest
    \<and> take n (it_value (mem t it)) = take n (unread (con s) @ concat parts)
    \<and> unread (con t) @ concat parts' = drop n (unread (con s) @ concat parts)"
proof -
  have e: "stream it n n parts s = unread (con s) @ concat parts" by (simp add: stream_def)
  obtain k t ps where t: "machine_run (machine_step os ramcube post nreqs) k s = Some t" "collecting it n 0 ps rest t"
    "stream it n 0 ps t = stream it n n parts s"
    using collect_all [OF assms(1)] assms(2) unfolding e by blast
  have c: "cn_state (con t) = conn_nread" "cn_rlbytes (con t) = 0" "net_in t = map Arrived ps @ rest"
    "n \<le> length (it_value (mem t it))" using t(2) by (simp_all add: collecting_def Let_def)
  have st: "take n (it_value (mem t it)) @ (unread (con t) @ concat ps) = unread (con s) @ concat parts"
    using t(3) unfolding e by (simp add: stream_def)
  have l: "length (take n (it_value (mem t it))) = n" using c(4) by simp
  have "take n (unread (con s) @ concat parts) = take n (it_value (mem t it))"
    "drop n (unread (con s) @ concat parts) = unread (con t) @ concat ps"
    unfolding st [symmetric] using l by simp_all
  then show ?thesis using t(1) c by (intro exI [of _ k] exI [of _ t] exI [of _ ps]) simp
qed

text \<open>An item of six bytes, one of them already in the buffer, the others in two parts.\<close>

definition collecting_conn :: conn where
  "collecting_conn = (zero_conn [])\<lparr>cn_state := conn_nread, cn_rbuf := ''h'' @ replicate 7 (CHR 0x00), cn_rsize := 8,
     cn_rbytes := 1, cn_ritem := (R_item 2000, 0), cn_rlbytes := 6\<rparr>"

definition collecting_boot :: machine where
  "collecting_boot = upd_item 2000 (\<lambda>i. i\<lparr>it_nbytes := 8\<rparr>) (machine_boot collecting_conn [Arrived ''el'', Arrived ''lo!get''] [])"

lemma collecting_boot: "collecting 2000 6 6 [''el'', ''lo!get''] [] collecting_boot" "unread (con collecting_boot) = ''h''"
  by (simp_all add: collecting_def collecting_boot_def upd_item_def collecting_conn_def zero_conn_def item_nbytes_def unread_def)

theorem data_block_collected_witness:
  "\<forall>os ramcube post. \<exists>k t parts'. machine_run (machine_step os ramcube post 1) k collecting_boot = Some t
     \<and> cn_rlbytes (con t) = 0 \<and> take 6 (it_value (mem t 2000)) = ''hello!'' \<and> unread (con t) @ concat parts' = ''get''"
proof (intro allI)
  fix os ramcube post
  have n: "6 \<le> length (unread (con collecting_boot) @ concat [''el'', ''lo!get''])" by (simp add: collecting_boot(2))
  obtain k t ps where t: "machine_run (machine_step os ramcube post 1) k collecting_boot = Some t" "cn_rlbytes (con t) = 0"
    "take 6 (it_value (mem t 2000)) = take 6 (unread (con collecting_boot) @ concat [''el'', ''lo!get''])"
    "unread (con t) @ concat ps = drop 6 (unread (con collecting_boot) @ concat [''el'', ''lo!get''])"
    using data_block_collected [OF collecting_boot(1) n, where os = os and ramcube = ramcube and post = post and nreqs = 1] by blast
  show "\<exists>k t parts'. machine_run (machine_step os ramcube post 1) k collecting_boot = Some t
     \<and> cn_rlbytes (con t) = 0 \<and> take 6 (it_value (mem t 2000)) = ''hello!'' \<and> unread (con t) @ concat parts' = ''get''"
    using t unfolding collecting_boot(2) by (intro exI [of _ k] exI [of _ t] exI [of _ ps]) simp
qed

end
