(* ===== verification/Dispatch.thy ===== *)
theory Dispatch
  imports Machine
begin

text \<open>
  Binary requests, whatever the client sends: every header is answered or leads to a well-formed
  reading of the key, and what the lengths of a request can do to the state machine.
\<close>

section \<open>The reply lists do not touch the rest of a connection\<close>

abbreviation io_same :: "'a msgq_scheme \<Rightarrow> 'a msgq_scheme \<Rightarrow> bool" where
  "io_same c d \<equiv> msgq.more d = msgq.more c \<and> cn_transport d = cn_transport c \<and> cn_msgused c \<le> cn_msgused d"

lemma grant_more: "grant c = (ok, d) \<Longrightarrow> io_same c d"
  by (auto simp: grant_def split: list.splits)

lemma upd_msg_more: "upd_msg i f c = Some d \<Longrightarrow> io_same c d"
  by (auto simp: upd_msg_def split: if_splits)

lemma set_iov_more: "set_iov i v c = Some d \<Longrightarrow> io_same c d"
  by (auto simp: set_iov_def split: if_splits)

lemma relink_msgs_more:
  "relink_msgs is k c = Some d \<Longrightarrow> io_same c d"
proof (induction "is" k c rule: relink_msgs.induct)
  case (2 i "is" k c)
  from 2(2) obtain e where e: "upd_msg i (\<lambda>m. m\<lparr>msg_iov := k\<rparr>) c = Some e"
    "relink_msgs is (k + msg_iovlen (cn_msglist e ! i)) e = Some d" by (auto simp: bind_eq_Some_conv)
  show ?case using 2(1) [OF e] upd_msg_more [OF e(1)] by simp
qed simp

lemma ensure_iov_space_more:
  "ensure_iov_space c = Some (r, d) \<Longrightarrow> io_same c d"
  by (auto simp: ensure_iov_space_def Let_def bind_eq_Some_conv split: if_splits prod.splits
      dest!: grant_more relink_msgs_more)

lemma new_msghdr_more:
  "new_msghdr c = Some (r, d) \<Longrightarrow> io_same c d"
  by (auto simp: new_msghdr_def bind_eq_Some_conv split: if_splits prod.splits dest!: grant_more upd_msg_more)

lemma put_iov_more: "put_iov src off n c = Some d \<Longrightarrow> io_same c d"
  by (auto simp: put_iov_def Let_def bind_eq_Some_conv dest!: set_iov_more upd_msg_more)


lemma add_io_result:
  assumes "add_io arg0 c0 = Some y0"
  shows "io_same c0 (snd y0)"
proof (rule add_io.raw_induct [OF _ assms])
  fix add arg and c :: "'a msgq_scheme" and y
  assume 1: "\<And>arg c y. add arg c = Some y \<Longrightarrow> io_same c (snd y)"
    "(case arg of
     None \<Rightarrow> Option.bind (new_msghdr c) (\<lambda>(r, c).
       if r \<noteq> 0 then Some (r, c)
       else if IS_UDP (cn_transport c) then add (Some (IO_null, 0, int UDP_HEADER_SIZE)) c
       else Some (0, c))
   | Some (src, off, len) \<Rightarrow>
       if cn_msgused c = 0 \<or> length (cn_msglist c) < cn_msgused c then None
       else let mtu = limit_to_mtu c in
         Option.bind (if msg_full mtu c then add None c else Some (0, c)) (\<lambda>(r, c).
         Option.bind (ensure_iov_space c) (\<lambda>(r, c).
           if r \<noteq> 0 then Some (-1, c)
           else let leftover = (if mtu \<and> UDP_MAX_PAYLOAD_SIZE < len + cn_msgbytes c
                    then len + cn_msgbytes c - UDP_MAX_PAYLOAD_SIZE else 0);
                  n = len - leftover in
             Option.bind (put_iov src off n c) (\<lambda>c.
               if 0 < leftover then add (Some (src, off + nat n, leftover)) c else Some (0, c))))) = Some y"
  obtain r d where y: "y = (r, d)" by (cases y)
  note IH = 1(1) [of _ _ "(_, _)", simplified snd_conv]
  have "io_same c d"
  proof (cases arg)
    case None
    with 1(2) [unfolded y] obtain q e where e: "new_msghdr c = Some (q, e)" and
      k: "(if q \<noteq> 0 then Some (q, e) else if IS_UDP (cn_transport e) then add (Some (IO_null, 0, int UDP_HEADER_SIZE)) e
        else Some (0, e)) = Some (r, d)" by (auto simp: bind_eq_Some_conv)
    have "io_same e d"
      using k IH [of "Some (IO_null, 0, int UDP_HEADER_SIZE)" e] by (auto split: if_splits)
    then show ?thesis using new_msghdr_more [OF e] by simp
  next
    case (Some a)
    obtain src off len where a: "a = (src, off, len)" by (cases a)
    let ?mtu = "limit_to_mtu c"
    obtain q e where e: "(if msg_full ?mtu c then add None c else Some (0, c)) = Some (q, e)"
      and k: "Option.bind (ensure_iov_space e) (\<lambda>(r, c).
           if r \<noteq> 0 then Some (-1, c)
           else let leftover = (if ?mtu \<and> UDP_MAX_PAYLOAD_SIZE < len + cn_msgbytes c
                    then len + cn_msgbytes c - UDP_MAX_PAYLOAD_SIZE else 0);
                  n = len - leftover in
             Option.bind (put_iov src off n c) (\<lambda>c.
               if 0 < leftover then add (Some (src, off + nat n, leftover)) c else Some (0, c))) = Some (r, d)"
      using 1(2) [unfolded y] Some a by (auto simp: bind_eq_Some_conv Let_def split: if_splits)
    have e1: "io_same c e"
      using e IH [of None c] by (auto split: if_splits)
    obtain q2 f where f: "ensure_iov_space e = Some (q2, f)" using k by (auto simp: bind_eq_Some_conv)
    note f1 = ensure_iov_space_more [OF f]
    have "io_same f d"
    proof (cases "q2 = 0")
      case True
      with k f obtain n g lo where g: "put_iov src off n f = Some g"
        "(if 0 < lo then add (Some (src, off + nat n, lo)) g else Some (0, g)) = Some (r, d)"
        by (auto simp: Let_def bind_eq_Some_conv)
      have "io_same g d"
        using g(2) IH [of "Some (src, off + nat n, lo)" g] by (auto split: if_splits)
      then show ?thesis using put_iov_more [OF g(1)] by simp
    qed (use k f in simp)
    then show ?thesis using e1 f1 by simp
  qed
  then show "io_same c (snd y)" by (simp add: y)
qed

lemma add_io_more: "add_io arg c = Some (r, d) \<Longrightarrow> io_same c d"
  using add_io_result [of arg c "(r, d)"] by simp

lemmas add_iov_more = add_io_more [where arg = "Some (src, off, len)" for src off len, folded add_iov_def]

section \<open>Connections that can answer\<close>

text \<open>
  The reply lists are consistent, and the two buffers are as long as the connection says, the write
  buffer at least as long as it was made.
\<close>

definition con_ok :: "conn \<Rightarrow> bool" where
  "con_ok c \<longleftrightarrow> out_shape c \<and> \<not> IS_UDP (cn_transport c) \<and> length (cn_wbuf c) = cn_wsize c \<and> DATA_BUFFER_SIZE \<le> cn_wsize c
     \<and> length (cn_rbuf c) = cn_rsize c \<and> 0 < cn_rsize c \<and> 0 \<le> cn_rbytes c \<and> cn_rcurr c + nat (cn_rbytes c) \<le> cn_rsize c"

text \<open>What an answer leaves alone.\<close>

definition same_request :: "conn \<Rightarrow> conn \<Rightarrow> bool" where
  "same_request c d \<longleftrightarrow> cn_rbuf d = cn_rbuf c \<and> cn_rcurr d = cn_rcurr c \<and> cn_rbytes d = cn_rbytes c \<and> cn_rsize d = cn_rsize c
     \<and> cn_header d = cn_header c \<and> cn_cmd d = cn_cmd c \<and> cn_keylen d = cn_keylen c \<and> cn_noreply d = cn_noreply c"

lemma more_fields:
  fixes c d :: conn
  assumes "msgq.more d = msgq.more c"
  shows "cn_rbuf d = cn_rbuf c" "cn_rcurr d = cn_rcurr c" "cn_rbytes d = cn_rbytes c" "cn_rsize d = cn_rsize c"
    "cn_header d = cn_header c" "cn_cmd d = cn_cmd c" "cn_keylen d = cn_keylen c" "cn_noreply d = cn_noreply c"
    "cn_wbuf d = cn_wbuf c" "cn_wsize d = cn_wsize c"
  using assms by (cases c; cases d; simp)+

lemma con_ok_more:
  assumes "con_ok c" "io_same c d" "out_shape d"
  shows "con_ok d \<and> same_request c d"
  using assms more_fields [of d c] by (simp add: con_ok_def same_request_def)

lemma same_request_trans: "same_request c d \<Longrightarrow> same_request d e \<Longrightarrow> same_request c e"
  by (simp add: same_request_def)

section \<open>Answers never fail\<close>

definition answered :: "'a server_scheme \<Rightarrow> 'a server_scheme \<Rightarrow> bool" where
  "answered s t \<longleftrightarrow> con_ok (con t) \<and> same_request (con s) (con t) \<and> settings t = settings s"

lemma answered_trans: "answered s t \<Longrightarrow> answered t u \<Longrightarrow> answered s u"
  unfolding answered_def using same_request_trans by metis

lemma answered_con:
  assumes "con_ok (con s)" "con t = (con s)\<lparr>cn_state := st, cn_write_and_go := g, cn_sbytes := n\<rparr>" "settings t = settings s"
  shows "answered s t"
  using assms by (simp add: answered_def con_ok_def same_request_def out_shape_def)

lemma add_part_ok:
  assumes C: "con_ok (con s)" and u: "0 < cn_msgused (con s)" and l: "0 \<le> len"
  shows "\<exists>t. add_part src off len s = Some t \<and> answered s t \<and> 0 < cn_msgused (con t)"
proof -
  have "out_shape (con s)" "\<not> IS_UDP (cn_transport (con s))" using C by (simp_all add: con_ok_def)
  from add_iov_appends [OF this u l] obtain r d where d: "add_iov src off len (con s) = Some (r, d)" "out_shape d" by blast
  have m: "io_same (con s) d" using add_io_more d(1) unfolding add_iov_def by blast
  have "add_part src off len s = Some (s\<lparr>con := d\<rparr>)" using d(1) by (simp add: add_part_def on_con_def)
  moreover have "answered s (s\<lparr>con := d\<rparr>)" using con_ok_more [OF C m d(2)] by (simp add: answered_def)
  ultimately show ?thesis using m u by auto
qed

text \<open>A fresh reply has room for its first message.\<close>

lemma add_bin_header_ok:
  assumes C: "con_ok (con s)"
  shows "\<exists>t. add_bin_header err hl kl bl s = Some t \<and> answered s t \<and> 0 < cn_msgused (con t)"
proof -
  let ?c = "(con s)\<lparr>cn_msgcurr := 0, cn_msgused := 0, cn_iovused := 0\<rparr>"
  have c: "out_shape ?c" "con_ok ?c" "cn_msgused ?c < cn_msgsize ?c"
    using C by (simp_all add: con_ok_def out_shape_def)
  from new_msghdr_ok [OF c(1)] c(3) obtain d where d: "new_msghdr ?c = Some (0, d)" "out_shape d"
    "cn_transport d = cn_transport ?c" "cn_msgused d = 1" by auto
  have a: "add_msghdr ?c = Some (0, d)"
    using d(1,3) C by (simp add: add_msghdr_def add_io.simps con_ok_def)
  note m = new_msghdr_more [OF d(1)]
  have D: "con_ok d" "same_request (con s) d" "cn_wbuf d = cn_wbuf (con s)"
    using con_ok_more [OF c(2) m d(2)] more_fields(9) [of d ?c] m by (simp_all add: same_request_def)
  let ?h = "res_header (unat (bh_opcode (cn_header d))) kl hl err bl (cn_opaque d) (cn_cas d)"
  let ?e = "d\<lparr>cn_wbuf := write_at 0 ?h (cn_wbuf d)\<rparr>"
  have fit: "0 + length ?h \<le> length (cn_wbuf d)" using D(1) by (simp add: con_ok_def res_header_length DATA_BUFFER_SIZE_def)
  have E: "con_ok ?e" "same_request (con s) ?e"
    using D fit by (simp_all add: con_ok_def out_shape_def same_request_def write_at_def)
  have "add_bin_header err hl kl bl s = add_part IO_wbuf 0 (int HEADER_LEN) (s\<lparr>con := ?e\<rparr>)"
    using a fit by (simp add: add_bin_header_def on_con_def upd_con_def put_wbuf_at_def Let_def)
  moreover have "answered s (s\<lparr>con := ?e\<rparr>)" using E by (simp add: answered_def)
  moreover obtain t where "add_part IO_wbuf 0 (int HEADER_LEN) (s\<lparr>con := ?e\<rparr>) = Some t" "answered (s\<lparr>con := ?e\<rparr>) t"
    "0 < cn_msgused (con t)" using add_part_ok [of "s\<lparr>con := ?e\<rparr>" "int HEADER_LEN" IO_wbuf 0] E(1) d(4) by auto
  ultimately show ?thesis using answered_trans by (metis (no_types))
qed

text \<open>The end of an answer: the state, and what comes after it.\<close>

lemma finish_answer:
  assumes "con_ok (con s)" "st \<noteq> conn_max_state"
    and "\<And>c. f c = c\<lparr>cn_write_and_go := g c, cn_sbytes := n c\<rparr>"
  shows "\<exists>t. conn_set_state st s = Some t \<and> answered s (upd_con f t) \<and> cn_state (con (upd_con f t)) = st"
proof -
  let ?t = "upd_con (\<lambda>c. c\<lparr>cn_state := st\<rparr>) s"
  have "conn_set_state st s = Some ?t" using assms(2) by (simp add: conn_set_state_def)
  moreover have "answered s (upd_con f ?t)"
    by (rule answered_con [OF assms(1), where st = st]) (simp_all add: upd_con_def assms(3))
  ultimately show ?thesis by (auto simp: upd_con_def assms(3))
qed

lemma write_bin_error_ok:
  assumes "con_ok (con s)" "bin_errstr err = Some e"
  shows "\<exists>t. write_bin_error err swallow s = Some t \<and> answered s t \<and> cn_state (con t) = conn_mwrite"
proof -
  obtain t where t: "add_bin_header err 0 0 (length e) s = Some t" "answered s t" "0 < cn_msgused (con t)"
    using add_bin_header_ok [OF assms(1)] by blast
  have "con_ok (con t)" using t(2) by (simp add: answered_def)
  from add_part_ok [OF this t(3)] obtain u where u: "add_part (IO_lit e) 0 (int (length e)) t = Some u" "answered t u"
    by (metis of_nat_0_le_iff)
  let ?f = "\<lambda>c. if 0 < swallow then c\<lparr>cn_sbytes := swallow, cn_write_and_go := conn_swallow\<rparr>
                          else c\<lparr>cn_write_and_go := conn_new_cmd\<rparr>"
  have "con_ok (con u)" using u(2) by (simp add: answered_def)
  then obtain v where v: "conn_set_state conn_mwrite u = Some v" "answered u (upd_con ?f v)"
    "cn_state (con (upd_con ?f v)) = conn_mwrite"
    using finish_answer [where s = u and st = conn_mwrite and f = ?f
        and g = "\<lambda>c. if 0 < swallow then conn_swallow else conn_new_cmd"
        and n = "\<lambda>c. if 0 < swallow then swallow else cn_sbytes c"] by auto
  have "write_bin_error err swallow s = Some (upd_con ?f v)"
    using assms(2) t(1) u(1) v(1) by (simp add: write_bin_error_def)
  then show ?thesis using answered_trans [OF t(2) answered_trans [OF u(2) v(2)]] v(3) by blast
qed

lemma write_bin_response_ok:
  assumes "con_ok (con s)"
  shows "\<exists>t. write_bin_response src off hl kl dl s = Some t \<and> answered s t \<and> cn_state (con t) \<in> {conn_mwrite, conn_new_cmd}"
proof (cases "\<not> cn_noreply (con s) \<or> cn_cmd (con s) = CMD_GET \<or> cn_cmd (con s) = CMD_GETK")
  case False
  have "answered s (upd_con (\<lambda>c. c\<lparr>cn_state := conn_new_cmd\<rparr>) s)"
    by (rule answered_con [OF assms, where st = conn_new_cmd and g = "cn_write_and_go (con s)" and n = "cn_sbytes (con s)"])
      (simp_all add: upd_con_def)
  then show ?thesis using False by (auto simp: write_bin_response_def conn_set_state_def upd_con_def)
next
  case True
  obtain t where t: "add_bin_header 0 hl kl dl s = Some t" "answered s t" "0 < cn_msgused (con t)"
    using add_bin_header_ok [OF assms] by blast
  have ct: "con_ok (con t)" using t(2) by (simp add: answered_def)
  obtain u where u: "(if 0 < dl then add_part src off (int dl) t else Some t) = Some u" "answered t u"
  proof (cases "0 < dl")
    case False
    have "answered t t" using ct by (simp add: answered_def same_request_def)
    then show ?thesis using False that by simp
  next
    case dl: True
    from add_part_ok [OF ct t(3), of "int dl" src off] dl that show ?thesis by auto
  qed
  let ?f = "\<lambda>c. c\<lparr>cn_write_and_go := conn_new_cmd\<rparr>"
  have "con_ok (con u)" using u(2) by (simp add: answered_def)
  then obtain v where v: "conn_set_state conn_mwrite u = Some v" "answered u (upd_con ?f v)"
    "cn_state (con (upd_con ?f v)) = conn_mwrite"
    using finish_answer [where s = u and st = conn_mwrite and f = ?f and g = "\<lambda>c. conn_new_cmd" and n = cn_sbytes] by auto
  have "write_bin_response src off hl kl dl s = Some (upd_con ?f v)"
    using True t(1) u(1) v(1) by (simp add: write_bin_response_def)
  then show ?thesis using answered_trans [OF t(2) answered_trans [OF u(2) v(2)]] v(3) by blast
qed

lemma set_write_and_go_ok:
  assumes "con_ok (con s)"
  shows "answered s (set_write_and_go st s)" "cn_state (con (set_write_and_go st s)) = cn_state (con s)"
  using answered_con [OF assms, where st = "cn_state (con s)" and g = st and n = "cn_sbytes (con s)" and t = "set_write_and_go st s"]
  by (simp_all add: set_write_and_go_def upd_con_def)

lemma error_texts: "err \<in> {RESPONSE_EINVAL, RESPONSE_UNKNOWN_COMMAND} \<Longrightarrow> \<exists>e. bin_errstr err = Some e"
  by (auto simp: bin_errstr_def)

lemma handle_binary_protocol_error_ok:
  assumes "con_ok (con s)"
  shows "\<exists>t. handle_binary_protocol_error s = Some t \<and> answered s t \<and> cn_state (con t) = conn_mwrite"
proof -
  obtain e where "bin_errstr RESPONSE_EINVAL = Some e" using error_texts by blast
  from write_bin_error_ok [OF assms this] obtain t where t: "write_bin_error RESPONSE_EINVAL 0 s = Some t" "answered s t"
    "cn_state (con t) = conn_mwrite" by blast
  have "con_ok (con t)" using t(2) by (simp add: answered_def)
  note w = set_write_and_go_ok [OF this, of conn_closing]
  show ?thesis using t w answered_trans [OF t(2) w(1)] by (simp add: handle_binary_protocol_error_def)
qed

section \<open>Waiting for a key\<close>

text \<open>
  The connection waits for \<open>n\<close> bytes behind the header, for which there is room in the buffer, and
  nothing that was read is lost; or it is closed because there was no memory.
\<close>

definition awaits_key :: "nat \<Rightarrow> 'a server_scheme \<Rightarrow> 'a server_scheme \<Rightarrow> bool" where
  "awaits_key n s t \<longleftrightarrow> con_ok (con t) \<and> settings t = settings s \<and> unread (con t) = unread (con s)
     \<and> (cn_state (con t) = conn_closing
        \<or> cn_state (con t) = conn_nread \<and> cn_ritem (con t) = (R_rbuf, cn_rcurr (con t) + HEADER_LEN)
          \<and> cn_rlbytes (con t) = int n \<and> cn_rcurr (con t) + HEADER_LEN + n \<le> length (cn_rbuf (con t)))"

lemma repack_ok:
  assumes "con_ok c"
  shows "con_ok (repack c)" "unread (repack c) = unread c" "cn_rcurr (repack c) = 0" "cn_rsize (repack c) = cn_rsize c"
    "cn_rlbytes (repack c) = cn_rlbytes c"
  using assms by (auto simp: repack_def con_ok_def out_shape_def unread_def Let_def)

lemma make_room_ok:
  assumes C: "con_ok c" and n: "cn_rlbytes c = int n"
  shows "\<exists>ok d. make_room c = Some (ok, d) \<and> con_ok d \<and> unread d = unread c \<and> cn_rlbytes d = cn_rlbytes c
    \<and> (ok \<longrightarrow> cn_rcurr d + HEADER_LEN + n \<le> length (cn_rbuf d))"
proof -
  have "0 < cn_rsize c" using C by (simp add: con_ok_def)
  from grow_size_some [OF this, of "n + HEADER_LEN" 0] obtain m where m: "grow_size (n + HEADER_LEN) 0 (cn_rsize c) = Some m"
    "cn_rsize c \<le> m" "n + HEADER_LEN \<le> m" by auto
  let ?g = "\<lambda>c. c\<lparr>cn_rsize := m, cn_rbuf := cn_rbuf c @ replicate (m - length (cn_rbuf c)) (CHR 0x00)\<rparr>"
  obtain ok d where d: "(if m \<noteq> cn_rsize c then (case grant c of (ok, c) \<Rightarrow> (ok, if ok then ?g c else c)) else (True, c)) = (ok, d)"
    by (cases "if m \<noteq> cn_rsize c then (case grant c of (ok, c) \<Rightarrow> (ok, if ok then ?g c else c)) else (True, c)") auto
  have D: "con_ok d" "unread d = unread c" "cn_rlbytes d = cn_rlbytes c" "ok \<longrightarrow> cn_rsize d = m"
    using d C m by (auto simp: con_ok_def out_shape_def unread_def grant_def split: if_splits list.splits)
  let ?e = "if ok \<and> cn_rcurr d \<noteq> 0 then repack d else d"
  have "make_room c = Some (ok, ?e)" using m(1) d n by (simp add: make_room_def)
  moreover have "con_ok ?e" "unread ?e = unread c" "cn_rlbytes ?e = cn_rlbytes c" "ok \<longrightarrow> cn_rcurr ?e = 0 \<and> cn_rsize ?e = m"
    using D repack_ok [OF D(1)] by auto
  moreover have "length (cn_rbuf ?e) = cn_rsize ?e" using calculation(2) by (simp add: con_ok_def)
  ultimately show ?thesis using m(3) by (intro exI [of _ ok] exI [of _ ?e]) auto
qed

lemma bin_read_key_ok:
  assumes C: "con_ok (con s)" and n: "cn_keylen (con s) + int extra = int n"
  shows "\<exists>t. bin_read_key sub extra s = Some t \<and> awaits_key n s t"
proof -
  let ?c = "(con s)\<lparr>cn_substate := sub, cn_rlbytes := cn_keylen (con s) + int extra\<rparr>"
  have c: "con_ok ?c" "unread ?c = unread (con s)" "cn_rlbytes ?c = int n"
    using C n by (simp_all add: con_ok_def out_shape_def unread_def)
  obtain ok d where d: "(if int (cn_rsize ?c) - int (cn_rcurr ?c + HEADER_LEN) < cn_rlbytes ?c then make_room ?c
      else Some (True, ?c)) = Some (ok, d)"
    "con_ok d" "unread d = unread ?c" "cn_rlbytes d = int n" "ok \<longrightarrow> cn_rcurr d + HEADER_LEN + n \<le> length (cn_rbuf d)"
  proof (cases "int (cn_rsize ?c) - int (cn_rcurr ?c + HEADER_LEN) < cn_rlbytes ?c")
    case True
    with make_room_ok [OF c(1,3)] that c(3) show ?thesis by auto
  next
    case False
    then have "cn_rcurr ?c + HEADER_LEN + n \<le> length (cn_rbuf ?c)" using c by (simp add: con_ok_def)
    then show ?thesis using that [of True ?c] c False by simp
  qed
  let ?t = "if ok then s\<lparr>con := d\<lparr>cn_ritem := (R_rbuf, cn_rcurr d + HEADER_LEN), cn_state := conn_nread\<rparr>\<rparr>
    else s\<lparr>con := d\<lparr>cn_state := conn_closing\<rparr>\<rparr>"
  have "bin_read_key sub extra s = Some ?t"
    using d(1) by (simp add: bin_read_key_def upd_con_def conn_set_state_def)
  moreover have "awaits_key n s ?t"
    using d(2-5) c(2) by (simp add: awaits_key_def con_ok_def out_shape_def unread_def)
  ultimately show ?thesis by blast
qed

section \<open>Every header is handled\<close>

definition dispatched :: "nat \<Rightarrow> 'a server_scheme \<Rightarrow> 'a server_scheme option \<Rightarrow> bool" where
  "dispatched n s r \<longleftrightarrow> (\<exists>t. r = Some t \<and> con_ok (con t) \<and> unread (con t) = unread (con s)
     \<and> (cn_state (con t) \<in> {conn_mwrite, conn_new_cmd, conn_closing} \<or> awaits_key n s t))"

lemma dispatched_answer:
  assumes "\<exists>t. r = Some t \<and> answered s t \<and> cn_state (con t) \<in> {conn_mwrite, conn_new_cmd}"
  shows "dispatched n s r"
  using assms by (auto simp: dispatched_def answered_def same_request_def unread_def)

lemma dispatched_if: "(b \<Longrightarrow> dispatched n s x) \<Longrightarrow> (\<not> b \<Longrightarrow> dispatched n s y) \<Longrightarrow> dispatched n s (if b then x else y)"
  by simp

lemma dispatched_error:
  assumes "con_ok (con s)"
  shows "dispatched n s (handle_binary_protocol_error s)" "dispatched n s (write_bin_error RESPONSE_UNKNOWN_COMMAND sw s)"
    "dispatched n s (write_bin_response src off hl kl dl s)"
proof -
  show "dispatched n s (handle_binary_protocol_error s)"
    by (rule dispatched_answer) (use handle_binary_protocol_error_ok [OF assms] in blast)
  obtain e where "bin_errstr RESPONSE_UNKNOWN_COMMAND = Some e" using error_texts by blast
  from write_bin_error_ok [OF assms this] show "dispatched n s (write_bin_error RESPONSE_UNKNOWN_COMMAND sw s)"
    by (intro dispatched_answer) blast
  show "dispatched n s (write_bin_response src off hl kl dl s)"
    by (rule dispatched_answer) (rule write_bin_response_ok [OF assms])
qed

lemma dispatched_key:
  assumes "con_ok (con s)" "cn_keylen (con s) + int extra = int n"
  shows "dispatched n s (bin_read_key sub extra s)"
proof -
  from bin_read_key_ok [OF assms] obtain t where t: "bin_read_key sub extra s = Some t" "awaits_key n s t" by blast
  then show ?thesis by (auto simp: dispatched_def awaits_key_def)
qed

lemma con_ok_state:
  "con_ok (con s) \<Longrightarrow> con_ok (con (upd_con (\<lambda>c. c\<lparr>cn_state := st\<rparr>) s))"
  "unread (con (upd_con (\<lambda>c. c\<lparr>cn_state := st\<rparr>) s)) = unread (con s)"
  "cn_state (con (upd_con (\<lambda>c. c\<lparr>cn_state := st\<rparr>) s)) = st"
  by (simp_all add: upd_con_def con_ok_def out_shape_def unread_def)

lemma dispatched_quit:
  assumes C: "con_ok (con s)"
  shows "dispatched n s (bin_quit s)"
proof -
  obtain t where t: "write_bin_response IO_null 0 0 0 0 s = Some t" "answered s t" "cn_state (con t) \<in> {conn_mwrite, conn_new_cmd}"
    using write_bin_response_ok [OF C] by blast
  have "con_ok (con t)" using t(2) by (simp add: answered_def)
  note w = set_write_and_go_ok [OF this, of conn_closing]
  have a: "answered s (set_write_and_go conn_closing t)" by (rule answered_trans [OF t(2) w(1)])
  have ok: "con_ok (con (set_write_and_go conn_closing t))" "unread (con (set_write_and_go conn_closing t)) = unread (con s)"
    using a by (simp_all add: answered_def same_request_def unread_def)
  note st = con_ok_state(1) [OF ok(1), of conn_closing]
    con_ok_state(2,3) [where st = conn_closing and s = "set_write_and_go conn_closing t"]
  show ?thesis
  proof (cases "cn_noreply (con (set_write_and_go conn_closing t))")
    case True
    then have "bin_quit s = Some (upd_con (\<lambda>c. c\<lparr>cn_state := conn_closing\<rparr>) (set_write_and_go conn_closing t))"
      using t(1) by (simp add: bin_quit_def conn_set_state_def)
    then show ?thesis using st ok(2) by (simp add: dispatched_def)
  next
    case False
    then have "bin_quit s = Some (set_write_and_go conn_closing t)" using t(1) by (simp add: bin_quit_def)
    then show ?thesis using ok w(2) t(3) by (auto simp: dispatched_def)
  qed
qed

lemma dispatch_command_ok:
  assumes C: "con_ok (con s)" and sasl: "\<not> sasl (settings s)"
    and h: "cn_keylen (con s) = int (unat (bh_keylen (cn_header (con s))))"
  shows "dispatched (unat (bh_keylen (cn_header (con s))) + unat (bh_extlen (cn_header (con s)))) s (dispatch_command os s)"
proof -
  have k: "cn_keylen (con s) + int extra = int (unat (bh_keylen (cn_header (con s))) + unat (bh_extlen (cn_header (con s))))"
    if "extra = unat (bh_extlen (cn_header (con s)))" for extra using h that by simp
  have mechs: "bin_list_sasl_mechs s = write_bin_error RESPONSE_UNKNOWN_COMMAND
      (sint (bh_bodylen (cn_header (con s)) - ucast (bh_keylen (cn_header (con s))))) s"
    using sasl by (simp add: bin_list_sasl_mechs_def sasl_disabled_def Let_def)
  show ?thesis unfolding dispatch_command_def Let_def mechs
    by (intro dispatched_if dispatched_error [OF C] dispatched_quit [OF C] dispatched_key [OF C k]) auto
qed

text \<open>
  Property C18.
  The dispatcher is total and keeps a connection well-formed: whatever header a client sends, the
  binary dispatcher returns, leaves the unread input as it is, and the connection either has an
  answer to send, takes the next command, closes, or waits for exactly the extras and the key the
  header announces, for which the read buffer has been given room.
\<close>

theorem dispatch_total:
  assumes "con_ok (con s)" "\<not> sasl (settings s)"
    and "cn_keylen (con s) = int (unat (bh_keylen (cn_header (con s))))"
  shows "dispatched (unat (bh_keylen (cn_header (con s))) + unat (bh_extlen (cn_header (con s)))) s (dispatch_bin_command os s)"
proof -
  let ?h = "cn_header (con s)" let ?n = "unat (bh_keylen ?h) + unat (bh_extlen ?h)"
  let ?s = "upd_con (\<lambda>c. c\<lparr>cn_noreply := True\<rparr>) s"
  let ?f = "\<lambda>c. case quiet_command (cn_cmd c) of Some cmd \<Rightarrow> c\<lparr>cn_cmd := cmd\<rparr> | None \<Rightarrow> c\<lparr>cn_noreply := False\<rparr>"
  have c: "con_ok (con ?s)" "con_ok (con (upd_con ?f ?s))" "unread (con ?s) = unread (con s)"
    "unread (con (upd_con ?f ?s)) = unread (con s)" "cn_keylen (con (upd_con ?f ?s)) = cn_keylen (con s)"
    "cn_header (con (upd_con ?f ?s)) = ?h" "settings (upd_con ?f ?s) = settings s"
    "settings ?s = settings s"
    using assms(1) by (auto simp: upd_con_def con_ok_def out_shape_def unread_def split: option.splits)
  have e: "dispatched ?n t r = dispatched ?n s r" if "unread (con t) = unread (con s)" "settings t = settings s" for t r
    using that by (simp add: dispatched_def awaits_key_def)
  have "dispatched ?n s (handle_binary_protocol_error ?s)"
    using dispatched_error(1) [OF c(1), of ?n] unfolding e [OF c(3,8)] .
  moreover have "dispatched ?n s (dispatch_command os (upd_con ?f ?s))"
    using dispatch_command_ok [OF c(2), unfolded c(5-7), OF assms(2,3)] unfolding e [OF c(4,7)] .
  moreover have "cn_header (con ?s) = ?h" by (simp add: upd_con_def)
  ultimately show ?thesis using assms(2) by (simp add: dispatch_bin_command_def Let_def)
qed

text \<open>A connection with a get request of one byte of key in front of it.\<close>

definition bin_conn :: conn where
  "bin_conn = (zero_conn [])\<lparr>cn_wbuf := replicate DATA_BUFFER_SIZE (CHR 0x00), cn_wsize := DATA_BUFFER_SIZE,
     cn_rbuf := replicate 32 (CHR 0x00), cn_rsize := 32, cn_rbytes := 24, cn_iov := replicate 2 zero_iovec, cn_iovsize := 2,
     cn_msglist := replicate 2 zero_msghdr, cn_msgsize := 2, cn_protocol := binary_prot,
     cn_header := zero_header\<lparr>bh_magic := 0x80, bh_keylen := 1, bh_bodylen := 1\<rparr>, cn_keylen := 1\<rparr>"

lemma bin_conn_ok: "con_ok bin_conn" "cn_keylen bin_conn = 1" "unat (bh_keylen (cn_header bin_conn)) = 1"
    "unat (bh_extlen (cn_header bin_conn)) = 0"
  by (simp_all add: bin_conn_def con_ok_def out_shape_def zero_conn_def zero_header_def)

theorem dispatch_total_witness:
  "\<forall>os. dispatched 1 (server_boot\<lparr>con := bin_conn\<rparr>) (dispatch_bin_command os (server_boot\<lparr>con := bin_conn\<rparr>))"
proof
  fix os
  let ?s = "server_boot\<lparr>con := bin_conn\<rparr>"
  have c: "con ?s = bin_conn" by simp
  have "\<not> sasl (settings ?s)" by (simp add: server_boot_def access_boot_def settings_init_def)
  moreover have "con_ok (con ?s)" "cn_keylen (con ?s) = int (unat (bh_keylen (cn_header (con ?s))))"
    unfolding c using bin_conn_ok by simp_all
  ultimately show "dispatched 1 ?s (dispatch_bin_command os ?s)"
    using dispatch_total [of ?s os] unfolding c bin_conn_ok by simp
qed

end
