(* ===== verification/Overruns.thy ===== *)
theory Overruns
  imports Machine
begin

text \<open>
  Requests that take the state machine out of its buffers: a flood of spaces, and lengths that are
  negative.
\<close>

section \<open>A flood of spaces\<close>

text \<open>The buffer is full of \<open>m\<close> spaces and \<open>r\<close> more are ready to be read.\<close>

definition blank_full :: "nat \<Rightarrow> nat \<Rightarrow> net_read list \<Rightarrow> bool list \<Rightarrow> 'a machine_scheme \<Rightarrow> bool" where
  "blank_full m r es gs s \<longleftrightarrow> (let c = con s in cn_rcurr c = 0 \<and> cn_rsize c = m \<and> cn_rbytes c = int m
     \<and> cn_rbuf c = replicate m (CHR '' '') \<and> grants c = gs \<and> \<not> IS_UDP (cn_transport c) \<and> cn_protocol c = ascii_prot
     \<and> net_in s = (if r = 0 then es else Arrived (replicate r (CHR '' '')) # es))"

lemma read_spaces:
  assumes "0 < n" "n \<le> r" "net_in s = (if r = 0 then es else Arrived (replicate r (CHR '' '')) # es)"
  shows "sock_read n s = (Got (replicate n (CHR '' '')),
    s\<lparr>net_in := (if r - n = 0 then es else Arrived (replicate (r - n) (CHR '' '')) # es)\<rparr>)"
  using assms by (auto simp: sock_read_def take_replicate drop_replicate min_def)

text \<open>A turn of the read loop that fills the doubled buffer.\<close>

lemma read_loop_doubles:
  assumes B: "blank_full m r es (True # gs) s" and m: "0 < m" "m \<le> r" and k: "k \<noteq> 4"
  shows "\<exists>t. read_loop k got s = read_loop (k + 1) READ_DATA_RECEIVED t \<and> blank_full (2 * m) (r - m) es gs t"
proof -
  let ?c = "con s"
  have c: "cn_rcurr ?c = 0" "cn_rsize ?c = m" "cn_rbytes ?c = int m" "cn_rbuf ?c = replicate m (CHR '' '')"
    "grants ?c = True # gs" "net_in s = (if r = 0 then es else Arrived (replicate r (CHR '' '')) # es)"
    using B by (simp_all add: blank_full_def Let_def)
  let ?d = "double_rbuf (?c\<lparr>grants := gs\<rparr>)"
  let ?e = "?d\<lparr>cn_rbuf := replicate m (CHR '' '') @ replicate m (CHR 0x00)\<rparr>"
  let ?es = "if r - m = 0 then es else Arrived (replicate (r - m) (CHR '' '')) # es"
  let ?t = "upd_con (\<lambda>c. c\<lparr>cn_rbuf := write_at m (replicate m (CHR '' '')) (cn_rbuf c), cn_rbytes := int (m + m)\<rparr>)
    (count_read m (s\<lparr>con := ?e, net_in := ?es\<rparr>))"
  have g: "grant ?c = (True, ?c\<lparr>grants := gs\<rparr>)" using c(5) by (simp add: grant_def)
  have buf: "cn_rsize ?d - m = m" "take m (cn_rbuf ?d) = replicate m (CHR '' '')" "cn_rbytes ?d = int m"
    using c by (simp_all add: double_rbuf_def)
  have sock: "sock_read m (s\<lparr>con := ?e\<rparr>) = (Got (replicate m (CHR '' '')), s\<lparr>con := ?e, net_in := ?es\<rparr>)"
    using read_spaces [OF m, of "s\<lparr>con := ?e\<rparr>" es] c(6) by simp
  obtain x xs where x: "replicate m (CHR '' '') = x # xs" using m(1) by (cases m) auto
  have len: "length (x # xs) = m" unfolding x [symmetric] by simp
  have "read_loop k got s = read_loop (k + 1) READ_DATA_RECEIVED ?t"
    using c(2,3) g k buf sock unfolding x
    by (subst read_loop.simps) (simp add: Let_def len del: length_Cons list.size(4))
  moreover have "blank_full (2 * m) (r - m) es gs ?t"
  proof -
    have w: "write_at m (replicate m (CHR '' '')) (replicate m (CHR '' '') @ replicate m (CHR 0x00)) = replicate (2 * m) (CHR '' '')"
      by (simp add: write_at_def replicate_add [symmetric] mult_2)
    have "con ?t = ?e\<lparr>cn_rbuf := replicate (2 * m) (CHR '' ''), cn_rbytes := int (m + m)\<rparr>" "net_in ?t = ?es"
      by (simp_all add: upd_con_def count_read_def upd_tstats_def Let_def w)
    then show ?thesis using B c(2) by (simp add: blank_full_def Let_def double_rbuf_def)
  qed
  ultimately show ?thesis by blast
qed

definition blank_ready :: "nat \<Rightarrow> net_read list \<Rightarrow> bool list \<Rightarrow> 'a machine_scheme \<Rightarrow> bool" where
  "blank_ready n es gs s \<longleftrightarrow> (let c = con s in cn_state c = conn_read \<and> cn_rcurr c = 0 \<and> cn_rsize c = n \<and> cn_rbytes c = 0
     \<and> length (cn_rbuf c) = n \<and> grants c = gs \<and> \<not> IS_UDP (cn_transport c) \<and> cn_protocol c = ascii_prot
     \<and> net_in s = Arrived (replicate (16 * n) (CHR '' '')) # es)"

lemma read_loop_first:
  assumes B: "blank_ready n es gs s" and n: "0 < n"
  shows "\<exists>t. read_loop 0 got s = read_loop 0 READ_DATA_RECEIVED t \<and> blank_full n (15 * n) es gs t"
proof -
  let ?c = "con s"
  have c: "cn_rcurr ?c = 0" "cn_rsize ?c = n" "cn_rbytes ?c = 0" "net_in s = Arrived (replicate (16 * n) (CHR '' '')) # es"
    using B by (simp_all add: blank_ready_def Let_def)
  let ?e = "?c\<lparr>cn_rbuf := replicate n (CHR 0x00)\<rparr>"
  let ?es = "Arrived (replicate (15 * n) (CHR '' '')) # es"
  let ?t = "upd_con (\<lambda>c. c\<lparr>cn_rbuf := write_at 0 (replicate n (CHR '' '')) (cn_rbuf c), cn_rbytes := int (0 + n)\<rparr>)
    (count_read n (s\<lparr>con := ?e, net_in := ?es\<rparr>))"
  have sock: "sock_read n (s\<lparr>con := ?e\<rparr>) = (Got (replicate n (CHR '' '')), s\<lparr>con := ?e, net_in := ?es\<rparr>)"
    using read_spaces [of n "16 * n" "s\<lparr>con := ?e\<rparr>" es] c(4) n by simp
  obtain x xs where x: "replicate n (CHR '' '') = x # xs" using n by (cases n) auto
  have len: "length (x # xs) = n" unfolding x [symmetric] by simp
  have "read_loop 0 got s = read_loop 0 READ_DATA_RECEIVED ?t"
    using c(2,3) sock n unfolding x
    by (subst read_loop.simps) (simp add: Let_def len del: length_Cons list.size(4))
  moreover have "con ?t = ?e\<lparr>cn_rbuf := replicate n (CHR '' ''), cn_rbytes := int (0 + n)\<rparr>" "net_in ?t = ?es"
    by (simp_all add: upd_con_def count_read_def upd_tstats_def Let_def write_at_def)
  then have "blank_full n (15 * n) es gs ?t" using B n by (simp add: blank_full_def blank_ready_def Let_def)
  ultimately show ?thesis by blast
qed

lemma read_flood:
  assumes B: "blank_ready n es (True # True # True # True # gs) s" and n: "0 < n"
  shows "\<exists>t. try_read_network s = Some (READ_DATA_RECEIVED, t) \<and> blank_full (16 * n) 0 es gs t"
proof -
  have rw: "upd_con rewind s = s" using B by (simp add: blank_ready_def Let_def upd_con_def rewind_def)
  obtain t0 where 0: "read_loop 0 READ_NO_DATA_RECEIVED s = read_loop 0 READ_DATA_RECEIVED t0"
    "blank_full n (15 * n) es (True # True # True # True # gs) t0" using read_loop_first [OF B n] by blast
  obtain t1 where 1: "read_loop 0 READ_DATA_RECEIVED t0 = read_loop (0 + 1) READ_DATA_RECEIVED t1"
    "blank_full (2 * n) (14 * n) es (True # True # True # gs) t1"
    using read_loop_doubles [OF 0(2) n, of 0 READ_DATA_RECEIVED] by auto
  obtain t2 where 2: "read_loop (0 + 1) READ_DATA_RECEIVED t1 = read_loop (0 + 1 + 1) READ_DATA_RECEIVED t2"
    "blank_full (4 * n) (12 * n) es (True # True # gs) t2"
    using read_loop_doubles [OF 1(2), of "0 + 1" READ_DATA_RECEIVED] n by auto
  obtain t3 where 3: "read_loop (0 + 1 + 1) READ_DATA_RECEIVED t2 = read_loop (0 + 1 + 1 + 1) READ_DATA_RECEIVED t3"
    "blank_full (8 * n) (8 * n) es (True # gs) t3"
    using read_loop_doubles [OF 2(2), of "0 + 1 + 1" READ_DATA_RECEIVED] n by auto
  obtain t4 where 4: "read_loop (0 + 1 + 1 + 1) READ_DATA_RECEIVED t3 = read_loop (0 + 1 + 1 + 1 + 1) READ_DATA_RECEIVED t4"
    "blank_full (16 * n) 0 es gs t4"
    using read_loop_doubles [OF 3(2), of "0 + 1 + 1 + 1" READ_DATA_RECEIVED] n by auto
  have "read_loop (0 + 1 + 1 + 1 + 1) READ_DATA_RECEIVED t4 = Some (READ_DATA_RECEIVED, t4)"
    using 4(2) by (subst read_loop.simps) (simp add: blank_full_def Let_def)
  then show ?thesis using 0(1) 1(1) 2(1) 3(1) 4 rw by (simp only: try_read_network_def) blast
qed

lemma all_spaces_overrun: "blank_full m r es gs s \<Longrightarrow> 1024 < m \<Longrightarrow> try_read_command os ramcube s = None"
  by (simp add: blank_full_def Let_def try_read_command_def negotiate_def read_ascii_def line_lengths_def unread_def
      long_line_ok_def)

text \<open>
  Property C40.
  A client can make the server read behind its buffer: of 16 buffers full of spaces without a line
  end everything is read, since the buffer may be doubled four times, and the loop that skips the
  spaces of a long line then runs past its end. The first turn of the machine reads the spaces, and
  the second has no defined behaviour.
\<close>

theorem blank_flood_overruns:
  assumes "blank_ready n es (True # True # True # True # gs) s" "64 < n"
  shows "\<exists>t. machine_step os ramcube post nreqs s = Some (False, t) \<and> cn_state (con t) = conn_parse_cmd
    \<and> machine_step os ramcube post nreqs t = None"
proof -
  from assms(2) have n: "0 < n" "1024 < 16 * n" by simp_all
  obtain t where t: "try_read_network s = Some (READ_DATA_RECEIVED, t)" "blank_full (16 * n) 0 es gs t"
    using read_flood [OF assms(1) n(1)] by blast
  let ?t = "upd_con (\<lambda>c. c\<lparr>cn_state := conn_parse_cmd\<rparr>) t"
  have "machine_step os ramcube post nreqs s = Some (False, ?t)"
    using assms(1) t(1) by (simp add: machine_step_def blank_ready_def Let_def step_read_def conn_set_state_def)
  moreover have "blank_full (16 * n) 0 es gs ?t" using t(2) by (simp add: blank_full_def Let_def upd_con_def)
  then have "try_read_command os ramcube ?t = None" by (rule all_spaces_overrun [OF _ n(2)])
  then have "machine_step os ramcube post nreqs ?t = None"
    by (simp add: machine_step_def upd_con_def step_parse_cmd_def)
  ultimately show ?thesis by (intro exI [of _ ?t]) (simp add: upd_con_def)
qed

text \<open>A new connection of the usual size, and 32,768 spaces.\<close>

definition flooded_conn :: conn where
  "flooded_conn = (zero_conn [True, True, True, True])\<lparr>cn_state := conn_read, cn_rbuf := replicate DATA_BUFFER_SIZE (CHR 0x00),
     cn_rsize := DATA_BUFFER_SIZE\<rparr>"

definition flooded_boot :: machine where
  "flooded_boot = server.extend (server_boot\<lparr>con := flooded_conn\<rparr>)
     (machine.fields [Arrived (replicate (16 * DATA_BUFFER_SIZE) (CHR '' ''))] [] [] [] [] [] [] False dispatch_boot)"

theorem blank_flood_overruns_witness:
  "\<forall>os ramcube post. \<exists>t. machine_step os ramcube post 1 flooded_boot = Some (False, t) \<and> machine_step os ramcube post 1 t = None"
proof (intro allI)
  fix os ramcube post
  have "blank_ready DATA_BUFFER_SIZE [] [True, True, True, True] flooded_boot"
    by (simp add: blank_ready_def flooded_boot_def flooded_conn_def zero_conn_def server.defs machine.defs Let_def)
  moreover have "64 < DATA_BUFFER_SIZE" by (simp add: DATA_BUFFER_SIZE_def)
  ultimately show "\<exists>t. machine_step os ramcube post 1 flooded_boot = Some (False, t) \<and> machine_step os ramcube post 1 t = None"
    using blank_flood_overruns by blast
qed

end
