(* ===== verification/Text_Commands.thy ===== *)
theory Text_Commands
  imports Dispatch
begin

text \<open>
  The text commands: what an answer line looks like on the wire, and what becomes of the data block
  of a storage command that is refused.
\<close>

section \<open>Answer lines\<close>

lemma same_request_refl: "same_request c c"
  by (simp add: same_request_def)

definition line_answered :: "string \<Rightarrow> 'a server_scheme \<Rightarrow> 'a server_scheme \<Rightarrow> bool" where
  "line_answered str s t \<longleftrightarrow> con_ok (con t) \<and> unread (con t) = unread (con s) \<and> settings t = settings s \<and> mem t = mem s
     \<and> \<not> cn_noreply (con t)
     \<and> (if cn_noreply (con s) then cn_state (con t) = conn_new_cmd
        else cn_state (con t) = conn_write \<and> cn_write_and_go (con t) = conn_new_cmd \<and> cn_wcurr (con t) = (IO_wbuf, 0)
          \<and> cn_wbytes (con t) = int (length str) + 2 \<and> take (length str + 2) (cn_wbuf (con t)) = str @ crlf)"

lemma out_string_ok:
  assumes C: "con_ok (con s)" and l: "length str + 2 \<le> DATA_BUFFER_SIZE"
  shows "\<exists>t. out_string str s = Some t \<and> line_answered str s t"
proof (cases "cn_noreply (con s)")
  case True
  let ?t = "upd_con (\<lambda>c. c\<lparr>cn_noreply := False, cn_state := conn_new_cmd\<rparr>) s"
  have "out_string str s = Some ?t" using True by (simp add: out_string_def conn_set_state_def upd_con_def)
  moreover have "line_answered str s ?t"
    using C True by (simp add: line_answered_def upd_con_def con_ok_def out_shape_def unread_def)
  ultimately show ?thesis by blast
next
  case False
  let ?c = "(con s)\<lparr>cn_msgcurr := 0, cn_msgused := 0, cn_iovused := 0\<rparr>"
  have c: "out_shape ?c" "con_ok ?c" "cn_msgused ?c < cn_msgsize ?c"
    using C by (simp_all add: con_ok_def out_shape_def)
  from new_msghdr_ok [OF c(1)] c(3) obtain d where d: "new_msghdr ?c = Some (0, d)" "out_shape d"
    "cn_transport d = cn_transport ?c" by auto
  have a: "add_msghdr ?c = Some (0, d)"
    using d(1,3) C by (simp add: add_msghdr_def add_io.simps con_ok_def)
  note m = new_msghdr_more [OF d(1)]
  have D: "con_ok d" "same_request ?c d" "cn_wbuf d = cn_wbuf (con s)" "cn_wsize d = cn_wsize (con s)"
    using con_ok_more [OF c(2) m d(2)] more_fields(9,10) [of d ?c] m by simp_all
  have w: "length str + 2 \<le> length (cn_wbuf d)" "\<not> cn_wsize d < length str + 2"
    using D(1) l by (simp_all add: con_ok_def)
  let ?e = "d\<lparr>cn_wbuf := (str @ crlf) @ drop (length (str @ crlf)) (cn_wbuf d), cn_wbytes := int (length str) + 2,
    cn_wcurr := (IO_wbuf, 0), cn_state := conn_write, cn_write_and_go := conn_new_cmd\<rparr>"
  have "out_string str s = Some (s\<lparr>con := ?e\<rparr>)"
    using False a w by (simp add: out_string_def on_con_def upd_con_def put_wbuf_def conn_set_state_def crlf_def Let_def)
  moreover have "line_answered str s (s\<lparr>con := ?e\<rparr>)"
    using D(1,2) w False
    by (simp add: line_answered_def con_ok_def out_shape_def same_request_def unread_def crlf_def)
  ultimately show ?thesis by blast
qed

section \<open>Values that do not fit\<close>

text \<open>The tokens of a storage command.\<close>

definition update_tokens :: "string \<Rightarrow> string \<Rightarrow> string \<Rightarrow> string \<Rightarrow> string \<Rightarrow> bool \<Rightarrow> token list" where
  "update_tokens w key flags exptime vlen noreply = map word_token [w, key, flags, exptime, vlen]
     @ (if noreply then [word_token ''noreply''] else []) @ [\<lparr>tk_value = None, tk_length = 0\<rparr>]"

lemma data_length_sint:
  fixes n :: u32
  assumes "0 \<le> sint n" "sint n + 2 < 2 ^ 31"
  shows "sint (data_length n) = sint n + 2" "sint (data_length n - 2) = sint n"
proof -
  show "sint (data_length n) = sint n + 2"
    unfolding data_length_def using assms by (simp add: sint_word_ariths signed_take_bit_int_eq_self)
  show "sint (data_length n - 2) = sint n" by (simp add: data_length_def)
qed

lemma clsid_loop_cong:
  assumes "slabclass t = slabclass s" "power_largest t = power_largest s"
  shows "clsid_loop n r t = clsid_loop n r s"
  using assms
proof (induction n r s rule: clsid_loop.induct)
  case (1 n r s)
  show ?case unfolding clsid_loop.simps [of n r t] clsid_loop.simps [of n r s]
    using 1 by simp
qed

lemma item_size_ok_cong:
  assumes "slabclass t = slabclass s" "power_largest t = power_largest s" "settings t = settings s"
  shows "item_size_ok k f n t = item_size_ok k f n s"
  using clsid_loop_cong [OF assms(1,2)] assms(3) by (simp add: item_size_ok_def item_total_def slabs_clsid_def)

lemma item_alloc_refused:
  "\<not> item_size_ok (length key) flags nbytes s \<Longrightarrow> item_alloc key flags exptime nbytes s = Some (NULL, s)"
  by (simp add: item_size_ok_def item_alloc_def do_item_alloc_def Let_def)


lemma safe_strtol_dec:
  "n < 2 ^ 63 \<Longrightarrow> safe_strtol (dec n) = (True, of_nat n)"
  using scan_int_dec_ends [of "[]" n]
  by (simp add: safe_strtol_def strtoll_def ends_number_def)

lemma zero_one_text: "''0'' = dec 0" "''1'' = dec 1"
  by (simp_all add: dec.simps digit_def char_of_def bit_0)


end
