(* ===== verification/Segments.thy ===== *)
theory Segments
  imports Store
begin

text \<open>
  The memory and the disk of a backup node (\<open>Object.c\<close>, \<open>Segment.c\<close>): the commands that a primary
  sends are kept as objects, in one list of seglets for each primary, its segment; a segment that is
  full is written to a file and freed. Segments, seglets and objects are three heaps, partial maps
  from addresses; a pointer outside their domain must not be followed. \<open>None\<close> is a run that reads or
  writes outside an array or follows such a pointer.
\<close>

section \<open>Data\<close>

text \<open>An array of characters and a store in it that must stay inside.\<close>

definition put_at :: "nat \<Rightarrow> string \<Rightarrow> string \<Rightarrow> string option" where
  "put_at off bs buf = (if off + length bs \<le> length buf then Some (write_at off bs buf) else None)"

definition zeros :: "nat \<Rightarrow> string" where
  "zeros n = replicate n (CHR 0x00)"

text \<open>Reading an array as a string needs its terminating null character.\<close>

definition str_of :: "string \<Rightarrow> string option" where
  "str_of buf = (if CHR 0x00 \<in> set buf then Some (cstr buf) else None)"

text \<open>
  \<open>ob_command\<close> is the string in the array of 2048 characters; nothing reads behind its end.
\<close>

record object_t =
  ob_avaliable :: bool
  ob_timestamp :: int
  ob_command :: string

record seglet =
  sl_length :: int
  sl_objector :: addr
  sl_next :: addr

record seg_head =
  hd_used :: bool
  hd_segletnum :: int
  hd_capacity :: int
  hd_sin_addr :: string
  hd_sin_port :: int

record segment =
  sg_header :: seg_head
  sg_p :: addr
  sg_segleter :: addr
  sg_next :: addr

definition COMMAND_SIZE :: nat where "COMMAND_SIZE = 2048"
definition MAX_SEGMENT_CAPACITY :: int where "MAX_SEGMENT_CAPACITY = 1024 * 1024"

text \<open>A file is the list of the structures written to it.\<close>

datatype block = B_seg segment | B_let seglet | B_obj object_t

text \<open>
  \<open>callocs\<close>, \<open>mkdirs\<close> and \<open>fopens\<close> are the answers of the coming calls; a list that has ended fails.
  Memory comes from addresses never used before, \<open>brk\<close> upwards. Directories are named by their
  paths without a slash at the end; \<open>files\<close> has directory, name and contents.
\<close>

record seg_state =
  ss_segs :: "addr \<rightharpoonup> segment"
  ss_lets :: "addr \<rightharpoonup> seglet"
  ss_objs :: "addr \<rightharpoonup> object_t"
  ss_brk :: addr
  ss_callocs :: "bool list"
  mg_used :: bool
  mg_segment :: addr
  ss_time :: int
  ss_cwd :: string
  ss_dirs :: "string list"
  ss_files :: "(string \<times> string \<times> block list) list"
  ss_mkdirs :: "bool list"
  ss_fopens :: "bool list"

definition deref :: "(addr \<rightharpoonup> 'b) \<Rightarrow> addr \<Rightarrow> 'b option" where
  "deref h a = (if a = NULL then None else h a)"

definition store_seg :: "addr \<Rightarrow> (segment \<Rightarrow> segment) \<Rightarrow> seg_state \<Rightarrow> seg_state option" where
  "store_seg a f s = map_option (\<lambda>g. s\<lparr>ss_segs := (ss_segs s)(a \<mapsto> f g)\<rparr>) (deref (ss_segs s) a)"

definition store_let :: "addr \<Rightarrow> (seglet \<Rightarrow> seglet) \<Rightarrow> seg_state \<Rightarrow> seg_state option" where
  "store_let a f s = map_option (\<lambda>l. s\<lparr>ss_lets := (ss_lets s)(a \<mapsto> f l)\<rparr>) (deref (ss_lets s) a)"

section \<open>Objects\<close>

definition zero_object :: object_t where
  "zero_object = \<lparr>ob_avaliable = False, ob_timestamp = 0, ob_command = []\<rparr>"

definition init_object :: object_t where
  "init_object = zero_object"

definition setCommandClient :: "string \<Rightarrow> object_t \<Rightarrow> object_t option" where
  "setCommandClient com obj = (if length com < COMMAND_SIZE then Some (obj\<lparr>ob_command := com\<rparr>) else None)"

text \<open>
  The command that the primary sends. \<open>key\<close> and \<open>data\<close> are the strings at the two pointers, up to
  their null characters. The static \<open>Obj\<close> is only the place where the result is built.
\<close>

definition setCommandServer :: "string \<Rightarrow> string \<Rightarrow> int \<Rightarrow> object_t option" where
  "setCommandServer key data nbyte = (let str = dec_int nbyte;
     buf = ''set '' @ key @ '' 0 0 '' @ str @ [CHR 0x0D, CHR 0x0A] @ data in
   if 10 \<le> length str \<or> COMMAND_SIZE \<le> length buf then None
   else Some (init_object\<lparr>ob_command := buf\<rparr>))"

section \<open>Memory\<close>

definition init_SegmentManager :: "seg_state \<Rightarrow> seg_state" where
  "init_SegmentManager s = s\<lparr>mg_used := False, mg_segment := NULL\<rparr>"

definition seg_calloc :: "seg_state \<Rightarrow> addr \<times> seg_state" where
  "seg_calloc s = (case ss_callocs s of [] \<Rightarrow> (NULL, s)
     | g # gs \<Rightarrow> if g then (ss_brk s, s\<lparr>ss_brk := ss_brk s + 1, ss_callocs := gs\<rparr>)
                else (NULL, s\<lparr>ss_callocs := gs\<rparr>))"

definition zero_segment :: segment where
  "zero_segment = \<lparr>sg_header = \<lparr>hd_used = False, hd_segletnum = 0, hd_capacity = 0, hd_sin_addr = [], hd_sin_port = 0\<rparr>,
     sg_p = NULL, sg_segleter = NULL, sg_next = NULL\<rparr>"

definition createSegment :: "seg_state \<Rightarrow> addr \<times> seg_state" where
  "createSegment s = (case seg_calloc s of (a, s) \<Rightarrow>
     (a, if a = NULL then s else s\<lparr>ss_segs := (ss_segs s)(a \<mapsto> zero_segment)\<rparr>))"

definition createSeglet :: "string \<Rightarrow> seg_state \<Rightarrow> (addr \<times> seg_state) option" where
  "createSeglet command s = (case seg_calloc s of (l, s) \<Rightarrow> case seg_calloc s of (ob, s) \<Rightarrow>
     if ob = NULL \<or> COMMAND_SIZE \<le> length command \<or> l = NULL then None
     else Some (l, s\<lparr>ss_objs := (ss_objs s)(ob \<mapsto> \<lparr>ob_avaliable = True, ob_timestamp = ss_time s, ob_command = command\<rparr>),
       ss_lets := (ss_lets s)(l \<mapsto> \<lparr>sl_length = int (length command), sl_objector = ob, sl_next = NULL\<rparr>)\<rparr>))"

definition setHead :: "addr \<Rightarrow> string \<Rightarrow> int \<Rightarrow> seg_state \<Rightarrow> seg_state option" where
  "setHead seg ip prt s = (if 20 \<le> length ip then None
     else store_seg seg (\<lambda>g. g\<lparr>sg_header := (sg_header g)\<lparr>hd_capacity := MAX_SEGMENT_CAPACITY, hd_segletnum := 0,
       hd_used := True, hd_sin_addr := ip, hd_sin_port := prt\<rparr>\<rparr>) s)"

definition setCapacity :: "addr \<Rightarrow> int \<Rightarrow> seg_state \<Rightarrow> seg_state option" where
  "setCapacity seg bits = store_seg seg (\<lambda>g. g\<lparr>sg_header := (sg_header g)\<lparr>hd_capacity := hd_capacity (sg_header g) - bits\<rparr>\<rparr>)"

definition setSegletNum :: "addr \<Rightarrow> seg_state \<Rightarrow> seg_state option" where
  "setSegletNum seg = store_seg seg (\<lambda>g. g\<lparr>sg_header := (sg_header g)\<lparr>hd_segletnum := hd_segletnum (sg_header g) + 1\<rparr>\<rparr>)"

definition getSegletNum :: "addr \<Rightarrow> seg_state \<Rightarrow> int option" where
  "getSegletNum seg s = map_option (\<lambda>g. hd_segletnum (sg_header g)) (deref (ss_segs s) seg)"

text \<open>The walks along the list of segments; a list that closes on itself is never left.\<close>

partial_function (option) find_segment :: "addr \<Rightarrow> string \<Rightarrow> int \<Rightarrow> seg_state \<Rightarrow> addr option" where
  "find_segment it ip prt s = (if it = NULL then Some NULL
     else Option.bind (ss_segs s it) (\<lambda>g.
       if hd_sin_addr (sg_header g) = ip \<and> hd_sin_port (sg_header g) = prt then Some it
       else find_segment (sg_next g) ip prt s))"

definition getSegment :: "string \<Rightarrow> int \<Rightarrow> seg_state \<Rightarrow> addr option" where
  "getSegment ip prt s = find_segment (mg_segment s) ip prt s"

partial_function (option) last_segment :: "addr \<Rightarrow> seg_state \<Rightarrow> addr option" where
  "last_segment it s = (if it = NULL then Some it
     else Option.bind (ss_segs s it) (\<lambda>g. last_segment (sg_next g) s))"

definition getLastSegment :: "seg_state \<Rightarrow> addr option" where
  "getLastSegment s = last_segment (mg_segment s) s"

partial_function (option) free_lets :: "addr \<Rightarrow> seg_state \<Rightarrow> seg_state option" where
  "free_lets it s = (if it = NULL then Some s
     else Option.bind (ss_lets s it) (\<lambda>l.
       if sl_objector l \<noteq> NULL \<and> ss_objs s (sl_objector l) = None then None
       else free_lets (sl_next l) (s\<lparr>ss_objs := (ss_objs s)(sl_objector l := None), ss_lets := (ss_lets s)(it := None)\<rparr>)))"

definition freeSegment :: "addr \<Rightarrow> seg_state \<Rightarrow> seg_state option" where
  "freeSegment seg s = do {
     g \<leftarrow> deref (ss_segs s) seg;
     s \<leftarrow> free_lets (sg_segleter g) s;
     Some (s\<lparr>ss_segs := (ss_segs s)(seg := None)\<rparr>) }"

section \<open>Taking a message apart\<close>

definition is_eol :: "char \<Rightarrow> bool" where
  "is_eol c \<longleftrightarrow> c = CHR 0x0D \<or> c = CHR 0x0A"

text \<open>The loop that drops the line ends at the end; of nothing but line ends it reads in front of the string.\<close>

definition drop_eols :: "string \<Rightarrow> string option" where
  "drop_eols cont = (let r = dropWhile is_eol (rev cont) in if r = [] then None else Some (rev r))"

text \<open>
  The last line. The array is left with the whole message and the last line over its beginning; the
  overlapping \<open>strcpy\<close> is taken to copy forwards.
\<close>

definition parseIpPort :: "string \<Rightarrow> string \<Rightarrow> string option" where
  "parseIpPort cont buf = do {
     str \<leftarrow> drop_eols cont;
     buf \<leftarrow> put_at 0 (str @ [CHR 0x00]) buf;
     if CHR 0x0A \<in> set str
     then put_at 0 (rev (takeWhile (\<lambda>c. c \<noteq> CHR 0x0A) (rev str)) @ [CHR 0x00]) buf
     else None }"

definition getIp :: "string \<Rightarrow> string \<Rightarrow> string option" where
  "getIp cont ip = (let i = length (takeWhile (\<lambda>c. c \<noteq> CHR '':'') cont) in
     if i = length cont then None else put_at 0 (take i cont @ [CHR 0x00]) ip)"

text \<open>A character is signed, and so is the number, which must not overflow.\<close>

definition char_val :: "char \<Rightarrow> int" where
  "char_val c = (let n = of_char c :: nat in if n < 128 then int n else int n - 256)"

definition int_range :: "int \<Rightarrow> bool" where
  "int_range i \<longleftrightarrow> - (2 ^ 31) \<le> i \<and> i < 2 ^ 31"

fun port_digits :: "int \<Rightarrow> string \<Rightarrow> int option" where
  "port_digits n [] = Some n"
| "port_digits n (c # cs) = (let m = n * 10 + (char_val c - char_val (CHR ''0'')) in
     if int_range (n * 10) \<and> int_range m then port_digits m cs else None)"

definition getPort :: "string \<Rightarrow> int option" where
  "getPort cont = (case dropWhile (\<lambda>c. c \<noteq> CHR '':'') cont of [] \<Rightarrow> Some 0 | _ # cs \<Rightarrow> port_digits 0 cs)"

text \<open>\<open>parseCommand\<close> is not called any more; the length it copied is \<open>getCommandLen\<close>.\<close>

definition getCommandLen :: "string \<Rightarrow> string \<Rightarrow> int option" where
  "getCommandLen cont Iport = map_option (\<lambda>str. int (length str) - int (length Iport)) (drop_eols cont)"

section \<open>The disk\<close>

text \<open>Paths as \<open>getcwd\<close> gives them, and what a name means in the current directory.\<close>

definition norm_path :: "string \<Rightarrow> string" where
  "norm_path p = rev (dropWhile (\<lambda>c. c = CHR ''/'') (rev p))"

definition getcwd :: "nat \<Rightarrow> seg_state \<Rightarrow> string option" where
  "getcwd n s = (if length (ss_cwd s) < n then Some (ss_cwd s) else None)"

definition has_dir :: "string \<Rightarrow> seg_state \<Rightarrow> bool" where
  "has_dir name s \<longleftrightarrow> ss_cwd s @ ''/'' @ name \<in> set (ss_dirs s)"

definition mkdir :: "string \<Rightarrow> seg_state \<Rightarrow> seg_state" where
  "mkdir path s = (case ss_mkdirs s of [] \<Rightarrow> s
     | b # bs \<Rightarrow> s\<lparr>ss_mkdirs := bs, ss_dirs := (if b then norm_path path # ss_dirs s else ss_dirs s)\<rparr>)"

definition chdir :: "string \<Rightarrow> seg_state \<Rightarrow> seg_state" where
  "chdir path s = (if norm_path path \<in> set (ss_dirs s) then s\<lparr>ss_cwd := norm_path path\<rparr> else s)"

definition fopen :: "seg_state \<Rightarrow> bool \<times> seg_state" where
  "fopen s = (case ss_fopens s of [] \<Rightarrow> (False, s) | b # bs \<Rightarrow> (b, s\<lparr>ss_fopens := bs\<rparr>))"

definition DIR_SIZE :: nat where "DIR_SIZE = 128"

definition mkStorage :: "string \<Rightarrow> seg_state \<Rightarrow> (string \<times> seg_state) option" where
  "mkStorage dirname s = do {
     buf \<leftarrow> getcwd DIR_SIZE s;
     let backup = buf @ ''/backup/'';
     if DIR_SIZE \<le> length backup then None
     else do {
       let s = (if has_dir ''backup'' s then s else mkdir backup s);
       let s = chdir backup s;
       let buf = backup @ dirname;
       if DIR_SIZE \<le> length buf then None
       else Some (buf, if has_dir dirname s then s else mkdir buf s) } }"

text \<open>The seglets of a segment and their objects, as they are written.\<close>

partial_function (option) write_lets :: "addr \<Rightarrow> seg_state \<Rightarrow> block list option" where
  "write_lets it s = (if it = NULL then Some []
     else Option.bind (ss_lets s it) (\<lambda>l.
       Option.bind (deref (ss_objs s) (sl_objector l)) (\<lambda>ob.
       Option.bind (write_lets (sl_next l) s) (\<lambda>bs. Some (B_let l # B_obj ob # bs)))))"

definition file_name :: "int \<Rightarrow> int \<Rightarrow> string" where
  "file_name segletNum t = dec_int segletNum @ ''.'' @ dec_int t @ ''.ram''"

definition dir_name :: "string \<Rightarrow> int \<Rightarrow> string" where
  "dir_name ip prt = ip @ ''.'' @ dec_int prt"

text \<open>\<open>fopen\<close> for writing empties a file that exists.\<close>

definition put_file :: "string \<Rightarrow> string \<Rightarrow> block list \<Rightarrow> (string \<times> string \<times> block list) list \<Rightarrow> (string \<times> string \<times> block list) list" where
  "put_file d n bs fs = filter (\<lambda>(d', n', _). \<not> (d' = d \<and> n' = n)) fs @ [(d, n, bs)]"

definition persist :: "addr \<Rightarrow> seg_state \<Rightarrow> (int \<times> seg_state) option" where
  "persist seg s = do {
     maindir \<leftarrow> getcwd DIR_SIZE s;
     g \<leftarrow> deref (ss_segs s) seg;
     let h = sg_header g;
     let dirname = dir_name (hd_sin_addr h) (hd_sin_port h);
     if 64 \<le> length dirname then None
     else do {
       (currdir, s) \<leftarrow> mkStorage dirname s;
       let filename = file_name (hd_segletnum h) (ss_time s);
       if 32 \<le> length filename then None
       else case fopen (chdir currdir s) of (ok, s) \<Rightarrow>
         if \<not> ok then Some (-1, s)
         else do {
           bs \<leftarrow> write_lets (sg_segleter g) s;
           let s = s\<lparr>ss_files := put_file (ss_cwd s) filename (B_seg g # bs) (ss_files s)\<rparr>;
           Some (0, chdir maindir s) } } }"

section \<open>Storing a command\<close>

text \<open>
  The pass over the list after a command was stored: a segment over its capacity is written and
  freed, whether or not it could be written; \<open>flag3\<close> says that the manager is to be pointed past it.
\<close>

partial_function (option) persist_loop :: "addr \<Rightarrow> bool \<Rightarrow> seg_state \<Rightarrow> seg_state option" where
  "persist_loop it flag3 s = (if it = NULL then Some s
     else Option.bind (ss_segs s it) (\<lambda>g. let temp = sg_next g in
       if hd_capacity (sg_header g) < 0 then
         Option.bind (persist it s) (\<lambda>(_, s). Option.bind (freeSegment it s) (\<lambda>s.
           persist_loop temp (flag3 \<and> temp = NULL) (if flag3 then s\<lparr>mg_segment := temp\<rparr> else s)))
       else persist_loop temp flag3 s))"

text \<open>
  A segment just created gets its head and its first seglet. The count that goes up is that of the
  segment the manager points to.
\<close>

definition fill_segment :: "addr \<Rightarrow> string \<Rightarrow> int \<Rightarrow> string \<Rightarrow> seg_state \<Rightarrow> seg_state option" where
  "fill_segment seg ip prt command s = do {
     s \<leftarrow> store_seg seg (\<lambda>g. g\<lparr>sg_next := NULL\<rparr>) s;
     s \<leftarrow> setHead seg ip prt s;
     (l, s) \<leftarrow> createSeglet command s;
     s \<leftarrow> store_seg seg (\<lambda>g. g\<lparr>sg_segleter := l\<rparr>) s;
     slet \<leftarrow> deref (ss_lets s) l;
     s \<leftarrow> setCapacity seg (sl_length slet) s;
     s \<leftarrow> setSegletNum (mg_segment s) s;
     s \<leftarrow> store_seg seg (\<lambda>g. g\<lparr>sg_p := sg_segleter g\<rparr>) s;
     store_let l (\<lambda>x. x\<lparr>sl_next := NULL\<rparr>) s }"

definition new_first_segment :: "string \<Rightarrow> int \<Rightarrow> string \<Rightarrow> seg_state \<Rightarrow> seg_state option" where
  "new_first_segment ip prt command s = (case createSegment s of (seg, s) \<Rightarrow>
     fill_segment seg ip prt command (s\<lparr>mg_segment := seg\<rparr>))"

definition append_seglet :: "addr \<Rightarrow> string \<Rightarrow> seg_state \<Rightarrow> seg_state option" where
  "append_seglet currSeg command s = do {
     g \<leftarrow> deref (ss_segs s) currSeg;
     (l, s) \<leftarrow> createSeglet command s;
     s \<leftarrow> store_let (sg_p g) (\<lambda>x. x\<lparr>sl_next := l\<rparr>) s;
     slet \<leftarrow> deref (ss_lets s) l;
     s \<leftarrow> setCapacity currSeg (sl_length slet) s;
     s \<leftarrow> setSegletNum (mg_segment s) s;
     s \<leftarrow> store_let l (\<lambda>x. x\<lparr>sl_next := NULL\<rparr>) s;
     store_seg currSeg (\<lambda>g. g\<lparr>sg_p := l\<rparr>) s }"

text \<open>The first command of a message.\<close>

definition place_command :: "string \<Rightarrow> int \<Rightarrow> string \<Rightarrow> seg_state \<Rightarrow> seg_state option" where
  "place_command ip prt command s =
     (if \<not> mg_used s then map_option (\<lambda>s. s\<lparr>mg_used := True\<rparr>) (new_first_segment ip prt command s)
      else do {
        currSeg \<leftarrow> getSegment ip prt s;
        if currSeg \<noteq> NULL then append_seglet currSeg command s
        else do {
          lst \<leftarrow> getLastSegment s;
          if lst \<noteq> NULL then (case createSegment s of (seg, s) \<Rightarrow> do {
              s \<leftarrow> store_seg lst (\<lambda>g. g\<lparr>sg_next := seg\<rparr>) s;
              fill_segment seg ip prt command s })
          else new_first_segment ip prt command s } })"

text \<open>A later command of the message expects the segment to be there.\<close>

definition store_command :: "bool \<Rightarrow> string \<Rightarrow> int \<Rightarrow> string \<Rightarrow> seg_state \<Rightarrow> seg_state option" where
  "store_command is_first ip prt command s = do {
     s \<leftarrow> (if is_first then place_command ip prt command s
          else Option.bind (getSegment ip prt s) (\<lambda>currSeg. append_seglet currSeg command s));
     persist_loop (mg_segment s) True s }"

text \<open>
  The loop over the message: two lines are collected, the command is stored at the character after
  them, and then everything up to the second carriage return is passed over, and one character more.
\<close>

record scan =
  sc_flag1 :: nat
  sc_flag2 :: nat
  sc_j :: nat
  sc_done :: bool
  sc_first :: bool
  sc_command :: string

definition scan_char :: "string \<Rightarrow> int \<Rightarrow> char \<Rightarrow> scan \<Rightarrow> seg_state \<Rightarrow> (scan \<times> seg_state) option" where
  "scan_char ip prt c k s =
     (if sc_flag1 k < 2 then do {
        command \<leftarrow> put_at (sc_j k) [c] (sc_command k);
        Some (k\<lparr>sc_command := command, sc_flag1 := sc_flag1 k + (if c = CHR 0x0A then 1 else 0), sc_j := sc_j k + 1\<rparr>, s) }
      else if sc_flag2 k < 2 then do {
        s \<leftarrow> (if sc_done k then Some s
             else Option.bind (str_of (sc_command k)) (\<lambda>command. store_command (sc_first k) ip prt command s));
        Some (k\<lparr>sc_flag2 := sc_flag2 k + (if c = CHR 0x0D then 1 else 0), sc_done := True, sc_first := False\<rparr>, s) }
      else Some (k\<lparr>sc_done := False, sc_flag1 := 0, sc_flag2 := 0, sc_j := 0,
             sc_command := zeros 1024 @ drop 1024 (sc_command k)\<rparr>, s))"

fun scan_loop :: "string \<Rightarrow> int \<Rightarrow> string \<Rightarrow> scan \<Rightarrow> seg_state \<Rightarrow> (scan \<times> seg_state) option" where
  "scan_loop ip prt [] k s = Some (k, s)"
| "scan_loop ip prt (c # cs) k s = Option.bind (scan_char ip prt c k s) (\<lambda>(k, s). scan_loop ip prt cs k s)"

definition appendToSegment :: "string \<Rightarrow> seg_state \<Rightarrow> seg_state option" where
  "appendToSegment cont s = do {
     IpPort \<leftarrow> parseIpPort cont (zeros COMMAND_SIZE);
     rip \<leftarrow> getIp IpPort (zeros 16);
     ip_port \<leftarrow> str_of IpPort;
     rport \<leftarrow> getPort ip_port;
     len \<leftarrow> getCommandLen cont ip_port;
     (k, s) \<leftarrow> scan_loop (cstr rip) rport (take (nat (len + 1)) (cont @ [CHR 0x00]))
       \<lparr>sc_flag1 = 0, sc_flag2 = 0, sc_j = 0, sc_done = False, sc_first = True, sc_command = zeros COMMAND_SIZE\<rparr> s;
     Some s }"

section \<open>Recovery\<close>

definition has_ram :: "string \<Rightarrow> bool" where
  "has_ram name \<longleftrightarrow> CHR ''.'' \<in> set name \<and>
     map (\<lambda>c. let n = of_char c :: nat in if 65 \<le> n \<and> n \<le> 90 then char_of (n + 32) else c)
       (rev (takeWhile (\<lambda>c. c \<noteq> CHR ''.'') (rev name))) = ''ram''"

text \<open>The number in front of the first dot of the name; without a dot the search leaves the name.\<close>

definition getSegmentLength :: "string \<Rightarrow> int option" where
  "getSegmentLength str = (if CHR ''.'' \<in> set str then port_digits 0 (takeWhile (\<lambda>c. c \<noteq> CHR ''.'') str) else None)"

text \<open>
  One seglet and its object are read. At the end of the file nothing is read, and the structure is
  as \<open>calloc\<close> made it. The addresses of the seglet and of the rest of the file.
\<close>

definition read_let :: "block list \<Rightarrow> seg_state \<Rightarrow> (addr \<times> block list \<times> seg_state) option" where
  "read_let bs s = (case seg_calloc s of (l, s) \<Rightarrow> if l = NULL then None else do {
     (x, bs) \<leftarrow> (case bs of [] \<Rightarrow> Some (\<lparr>sl_length = 0, sl_objector = NULL, sl_next = NULL\<rparr>, [])
                 | B_let x # bs \<Rightarrow> Some (x, bs) | _ \<Rightarrow> None);
     case seg_calloc s of (ob, s) \<Rightarrow> if ob = NULL then None else do {
       (y, bs) \<leftarrow> (case bs of [] \<Rightarrow> Some (zero_object, []) | B_obj y # bs \<Rightarrow> Some (y, bs) | _ \<Rightarrow> None);
       Some (l, bs, s\<lparr>ss_lets := (ss_lets s)(l \<mapsto> x\<lparr>sl_objector := ob\<rparr>), ss_objs := (ss_objs s)(ob \<mapsto> y)\<rparr>) } })"

text \<open>The seglets after the first are linked to the one before.\<close>

fun read_lets :: "nat \<Rightarrow> addr \<Rightarrow> block list \<Rightarrow> seg_state \<Rightarrow> seg_state option" where
  "read_lets 0 prev bs s = Some s"
| "read_lets (Suc n) prev bs s = do {
     (l, bs, s) \<leftarrow> read_let bs s;
     s \<leftarrow> store_let prev (\<lambda>x. x\<lparr>sl_next := l\<rparr>) s;
     read_lets n l bs s }"

definition find_file :: "string \<Rightarrow> string \<Rightarrow> seg_state \<Rightarrow> block list option" where
  "find_file d n s = map_option (\<lambda>(_, _, bs). bs) (find (\<lambda>(d', n', _). d' = d \<and> n' = n) (ss_files s))"

definition readFile :: "string \<Rightarrow> string \<Rightarrow> seg_state \<Rightarrow> (addr \<times> seg_state) option" where
  "readFile dirName fileName s = (if DIR_SIZE \<le> length dirName + length fileName then None else
     case fopen s of (ok, s) \<Rightarrow> do {
       bs \<leftarrow> (if ok then find_file (norm_path dirName) fileName s else None);
       case createSegment s of (head, s) \<Rightarrow> if head = NULL then None else do {
         (g, bs) \<leftarrow> (case bs of [] \<Rightarrow> Some (zero_segment, []) | B_seg g # bs \<Rightarrow> Some (g, bs) | _ \<Rightarrow> None);
         s \<leftarrow> store_seg head (\<lambda>_. g) s;
         len \<leftarrow> getSegmentLength fileName;
         if len = 0 then Some (head, s)
         else if len < 0 then None
         else do {
           (l, bs, s) \<leftarrow> read_let bs s;
           s \<leftarrow> store_seg head (\<lambda>g. g\<lparr>sg_segleter := l\<rparr>) s;
           s \<leftarrow> read_lets (nat (len - 1)) l bs s;
           Some (head, s) } } })"

text \<open>The names after the first one that is a segment.\<close>

fun load_more :: "string \<Rightarrow> string list \<Rightarrow> addr \<Rightarrow> seg_state \<Rightarrow> seg_state option" where
  "load_more d [] cur s = Some s"
| "load_more d (n # ns) cur s = (if \<not> has_ram n then load_more d ns cur s
     else do {
       (seg, s) \<leftarrow> readFile d n s;
       s \<leftarrow> store_seg cur (\<lambda>g. g\<lparr>sg_next := seg\<rparr>) s;
       s \<leftarrow> store_seg seg (\<lambda>g. g\<lparr>sg_next := NULL\<rparr>) s;
       load_more d ns seg s })"

fun load_first :: "string \<Rightarrow> string list \<Rightarrow> seg_state \<Rightarrow> (addr \<times> seg_state) option" where
  "load_first d [] s = Some (NULL, s)"
| "load_first d (n # ns) s = (if \<not> has_ram n then load_first d ns s
     else do {
       (seg, s) \<leftarrow> readFile d n s;
       s \<leftarrow> load_more d ns seg s;
       Some (seg, s) })"

text \<open>
  \<open>ls\<close> is the order in which \<open>readdir\<close> gives the names of a directory. Reading a directory that could
  not be opened fails.
\<close>

definition loadToMem :: "(string list \<Rightarrow> string list) \<Rightarrow> string \<Rightarrow> seg_state \<Rightarrow> (addr \<times> seg_state) option" where
  "loadToMem ls ipPort s = do {
     cwd \<leftarrow> getcwd DIR_SIZE s;
     let d = cwd @ ''/backup/'' @ ipPort @ ''/'';
     if DIR_SIZE \<le> length d \<or> norm_path d \<notin> set (ss_dirs s) then None
     else load_first d (ls (map (fst \<circ> snd) (filter (\<lambda>(d', _). d' = norm_path d) (ss_files s)))) s }"

text \<open>
  \<open>segmentToString\<close> of \<open>ramcube.c\<close> appends the commands of a segment to the string in an array with
  room for \<open>n\<close> characters.
\<close>

partial_function (option) lets_string :: "nat \<Rightarrow> addr \<Rightarrow> string \<Rightarrow> seg_state \<Rightarrow> string option" where
  "lets_string n it str s = (if it = NULL then Some str
     else Option.bind (ss_lets s it) (\<lambda>l.
       Option.bind (deref (ss_objs s) (sl_objector l)) (\<lambda>ob. let str = str @ ob_command ob in
       if n \<le> length str then None else lets_string n (sl_next l) str s)))"

definition segmentToString :: "nat \<Rightarrow> addr \<Rightarrow> string \<Rightarrow> seg_state \<Rightarrow> string option" where
  "segmentToString n seg str s = Option.bind (deref (ss_segs s) seg) (\<lambda>g. lets_string n (sg_segleter g) str s)"

declare find_segment.simps [code] last_segment.simps [code] free_lets.simps [code] write_lets.simps [code]
  persist_loop.simps [code] lets_string.simps [code]

end
