(* ===== verification/Segment_Store.thy ===== *)
theory Segment_Store
  imports Segments "HOL-Library.Multiset"
begin

text \<open>
  What a backup node does with the messages of its primaries: the pointer structures of \<open>Segments\<close>
  against an abstract backup, the commands held for one primary.
\<close>
section \<open>The backup\<close>

text \<open>
  The seglets from \<open>p\<close> on, with their objects and commands.
\<close>

fun lets_at :: "seg_state \<Rightarrow> addr \<Rightarrow> (addr \<times> addr \<times> string) list \<Rightarrow> bool" where
  "lets_at s p [] \<longleftrightarrow> p = NULL"
| "lets_at s p ((x, ob, c) # r) \<longleftrightarrow> p = x \<and> x \<noteq> NULL \<and> ob \<noteq> NULL
     \<and> (\<exists>nx. ss_lets s x = Some \<lparr>sl_length = int (length c), sl_objector = ob, sl_next = nx\<rparr> \<and> lets_at s nx r)
     \<and> (\<exists>av t. ss_objs s ob = Some \<lparr>ob_avaliable = av, ob_timestamp = t, ob_command = c\<rparr>)"

type_synonym backup = "((string \<times> int) \<times> string list) option"

definition room_left :: "string list \<Rightarrow> int" where
  "room_left cmds = MAX_SEGMENT_CAPACITY - int (sum_list (map length cmds))"

text \<open>Nothing was ever stored above the break.\<close>

definition heap_ok :: "seg_state \<Rightarrow> bool" where
  "heap_ok s \<longleftrightarrow> 0 < ss_brk s \<and> (\<forall>a. ss_brk s \<le> a \<longrightarrow> ss_segs s a = None \<and> ss_lets s a = None \<and> ss_objs s a = None)"

definition seg_holds :: "addr \<Rightarrow> string \<times> int \<Rightarrow> string list \<Rightarrow> (addr \<times> addr \<times> string) list \<Rightarrow> seg_state \<Rightarrow> bool" where
  "seg_holds seg a cmds ts s \<longleftrightarrow> seg \<noteq> NULL \<and> cmds \<noteq> [] \<and> map (snd \<circ> snd) ts = cmds
     \<and> distinct (map fst ts) \<and> distinct (map (fst \<circ> snd) ts)
     \<and> (\<exists>g. ss_segs s seg = Some g \<and> sg_next g = NULL \<and> sg_p g = fst (last ts) \<and> lets_at s (sg_segleter g) ts
          \<and> sg_header g = \<lparr>hd_used = True, hd_segletnum = int (length cmds), hd_capacity = room_left cmds,
              hd_sin_addr = fst a, hd_sin_port = snd a\<rparr>)"

definition backup_holds :: "backup \<Rightarrow> seg_state \<Rightarrow> bool" where
  "backup_holds b s \<longleftrightarrow> heap_ok s \<and> (case b of None \<Rightarrow> mg_segment s = NULL
     | Some (a, cmds) \<Rightarrow> mg_used s \<and> (\<exists>ts. seg_holds (mg_segment s) a cmds ts s))"

lemma lets_at_cong:
  assumes "\<And>x ob c. (x, ob, c) \<in> set ts \<Longrightarrow> ss_lets t x = ss_lets s x \<and> ss_objs t ob = ss_objs s ob"
  shows "lets_at t p ts \<longleftrightarrow> lets_at s p ts"
  using assms by (induction ts arbitrary: p) fastforce+

lemma lets_at_allocated:
  "lets_at s p ts \<Longrightarrow> (x, ob, c) \<in> set ts \<Longrightarrow> ss_lets s x \<noteq> None \<and> ss_objs s ob \<noteq> None \<and> x \<noteq> NULL \<and> ob \<noteq> NULL"
  by (induction ts arbitrary: p) auto

lemma heap_ok_below:
  assumes "heap_ok s"
  shows "ss_segs s a = Some g \<Longrightarrow> a < ss_brk s" "ss_lets s a = Some l \<Longrightarrow> a < ss_brk s" "ss_objs s a = Some ob \<Longrightarrow> a < ss_brk s"
  using assms by (fastforce simp: heap_ok_def not_less [symmetric])+

text \<open>A seglet linked behind the last one.\<close>

lemma lets_at_snoc:
  assumes "lets_at s p ts" "ts \<noteq> []" "distinct (map fst ts)" "n \<notin> fst ` set ts" "n \<noteq> NULL" "ob \<noteq> NULL"
    "ob \<notin> (fst \<circ> snd) ` set ts"
    and "fst (last ts) = z" "ss_lets s z = Some l"
    and t: "ss_lets t = (ss_lets s)(z \<mapsto> l\<lparr>sl_next := n\<rparr>, n \<mapsto> \<lparr>sl_length = int (length c), sl_objector = ob, sl_next = NULL\<rparr>)"
    "ss_objs t = (ss_objs s)(ob \<mapsto> \<lparr>ob_avaliable = av, ob_timestamp = tm, ob_command = c\<rparr>)"
  shows "lets_at t p (ts @ [(n, ob, c)])"
  using assms(1-9)
proof (induction ts arbitrary: p)
  case Nil
  then show ?case by simp
next
  case (Cons q ts)
  obtain x o' c' where q: "q = (x, o', c')" by (cases q)
  show ?case
  proof (cases "ts = []")
    case True
    then show ?thesis using Cons.prems t by (auto simp: q)
  next
    case False
    from Cons.prems(1) obtain nx where nx: "ss_lets s x = Some \<lparr>sl_length = int (length c'), sl_objector = o', sl_next = nx\<rparr>"
      "lets_at s nx ts" "p = x" "x \<noteq> NULL" "o' \<noteq> NULL"
      "\<exists>av t. ss_objs s o' = Some \<lparr>ob_avaliable = av, ob_timestamp = t, ob_command = c'\<rparr>" by (auto simp: q)
    have "lets_at t nx (ts @ [(n, ob, c)])"
      using Cons.IH [OF nx(2) False] Cons.prems False by (auto simp: q)
    moreover have "x \<noteq> z" using Cons.prems(3,8) False by (auto simp: q dest: last_in_set)
    moreover have "x \<noteq> n" "o' \<noteq> ob" using Cons.prems by (auto simp: q)
    ultimately show ?thesis using nx t by (simp add: q)
  qed
qed

text \<open>Nothing happens to the disk.\<close>

definition same_disk :: "seg_state \<Rightarrow> seg_state \<Rightarrow> bool" where
  "same_disk s t \<longleftrightarrow> ss_cwd t = ss_cwd s \<and> ss_dirs t = ss_dirs s \<and> ss_files t = ss_files s \<and> ss_mkdirs t = ss_mkdirs s
     \<and> ss_fopens t = ss_fopens s \<and> ss_time t = ss_time s"

lemma new_first_segment_ok:
  assumes H: "heap_ok s" and g: "ss_callocs s = True # True # True # gs"
    and c: "length c < COMMAND_SIZE" "length (fst a) < 20"
  shows "\<exists>t ts. new_first_segment (fst a) (snd a) c s = Some t \<and> heap_ok t \<and> seg_holds (mg_segment t) a [c] ts t
    \<and> mg_used t = mg_used s \<and> same_disk s t"
proof -
  let ?b = "ss_brk s"
  let ?h = "\<lparr>hd_used = True, hd_segletnum = 1, hd_capacity = MAX_SEGMENT_CAPACITY - int (length c), hd_sin_addr = fst a,
    hd_sin_port = snd a\<rparr>"
  let ?l = "\<lparr>sl_length = int (length c), sl_objector = ?b + 2, sl_next = NULL\<rparr>"
  let ?ob = "\<lparr>ob_avaliable = True, ob_timestamp = ss_time s, ob_command = c\<rparr>"
  let ?t = "s\<lparr>ss_brk := ?b + 3, ss_callocs := gs, mg_segment := ?b,
    ss_segs := (ss_segs s)(?b \<mapsto> \<lparr>sg_header = ?h, sg_p = ?b + 1, sg_segleter = ?b + 1, sg_next = NULL\<rparr>),
    ss_lets := (ss_lets s)(?b + 1 \<mapsto> ?l), ss_objs := (ss_objs s)(?b + 2 \<mapsto> ?ob)\<rparr>"
  have b: "0 < ?b" using H by (simp add: heap_ok_def)
  have "new_first_segment (fst a) (snd a) c s = Some ?t"
    using b g c by (simp add: new_first_segment_def createSegment_def seg_calloc_def fill_segment_def store_seg_def deref_def
        setHead_def createSeglet_def setCapacity_def setSegletNum_def store_let_def zero_segment_def numeral_eq_Suc)
  moreover have "heap_ok ?t" using H by (simp add: heap_ok_def)
  moreover have "seg_holds (mg_segment ?t) a [c] [(?b + 1, ?b + 2, c)] ?t"
    using b exI [of "\<lambda>av. av" True] by (simp add: seg_holds_def room_left_def)
  moreover have "mg_used ?t = mg_used s \<and> same_disk s ?t" by (simp add: same_disk_def)
  ultimately show ?thesis by blast
qed

lemma append_seglet_ok:
  assumes H: "heap_ok s" "seg_holds (mg_segment s) a cmds ts s" and g: "ss_callocs s = True # True # gs"
    and c: "length c < COMMAND_SIZE"
  shows "\<exists>t ts. append_seglet (mg_segment s) c s = Some t \<and> heap_ok t \<and> seg_holds (mg_segment t) a (cmds @ [c]) ts t
    \<and> mg_used t = mg_used s \<and> same_disk s t"
proof -
  let ?b = "ss_brk s" and ?m = "mg_segment s"
  obtain g where G: "ss_segs s ?m = Some g" "sg_next g = NULL" "sg_p g = fst (last ts)" "lets_at s (sg_segleter g) ts"
    "sg_header g = \<lparr>hd_used = True, hd_segletnum = int (length cmds), hd_capacity = room_left cmds,
       hd_sin_addr = fst a, hd_sin_port = snd a\<rparr>"
    using H(2) by (auto simp: seg_holds_def)
  have S: "?m \<noteq> NULL" "cmds \<noteq> []" "map (snd \<circ> snd) ts = cmds" "distinct (map fst ts)" "distinct (map (fst \<circ> snd) ts)"
    using H(2) by (simp_all add: seg_holds_def)
  have ne: "ts \<noteq> []" using S(2,3) by auto
  define z where "z = fst (last ts)"
  have alloc: "ss_lets s x \<noteq> None \<and> ss_objs s ob \<noteq> None" "x \<noteq> NULL" if "(x, ob, d) \<in> set ts" for x ob d
    using lets_at_allocated [OF G(4) that] by simp_all
  have below: "x < ?b \<and> ob < ?b" if "(x, ob, d) \<in> set ts" for x ob d
    using alloc [OF that] heap_ok_below [OF H(1)] by blast
  obtain oz cz where lz: "(z, oz, cz) \<in> set ts" using last_in_set [OF ne] unfolding z_def by (metis prod.collapse)
  obtain l where l: "ss_lets s z = Some l" using alloc(1) [OF lz] by blast
  have z: "z \<noteq> NULL" "z < ?b" using alloc(2) [OF lz] below [OF lz] by simp_all
  have b: "0 < ?b" "?m < ?b" using H(1) heap_ok_below(1) [OF H(1) G(1)] by (simp_all add: heap_ok_def)
  let ?l = "\<lparr>sl_length = int (length c), sl_objector = ?b + 1, sl_next = NULL\<rparr>"
  let ?ob = "\<lparr>ob_avaliable = True, ob_timestamp = ss_time s, ob_command = c\<rparr>"
  let ?h = "(sg_header g)\<lparr>hd_segletnum := int (length cmds) + 1, hd_capacity := room_left cmds - int (length c)\<rparr>"
  let ?t = "s\<lparr>ss_brk := ?b + 2, ss_callocs := gs,
    ss_segs := (ss_segs s)(?m \<mapsto> g\<lparr>sg_header := ?h, sg_p := ?b\<rparr>),
    ss_lets := (ss_lets s)(z \<mapsto> l\<lparr>sl_next := ?b\<rparr>, ?b \<mapsto> ?l), ss_objs := (ss_objs s)(?b + 1 \<mapsto> ?ob)\<rparr>"
  have upd: "(ss_lets s)(?b \<mapsto> ?l, z \<mapsto> l\<lparr>sl_next := ?b\<rparr>, ?b \<mapsto> ?l) = (ss_lets s)(z \<mapsto> l\<lparr>sl_next := ?b\<rparr>, ?b \<mapsto> ?l)"
    using z by auto
  have "append_seglet ?m c s = Some ?t"
    using b z S(1) G l g c upd unfolding z_def [symmetric]
    by (simp add: append_seglet_def seg_calloc_def store_seg_def deref_def createSeglet_def setCapacity_def setSegletNum_def
        store_let_def)
  moreover have "heap_ok ?t" using H(1) b z by (auto simp: heap_ok_def)
  moreover have "lets_at ?t (sg_segleter g) (ts @ [(?b, ?b + 1, c)])"
    using below b by (intro lets_at_snoc [OF G(4) ne S(4) _ _ _ _ z_def [symmetric] l]) fastforce+
  then have "seg_holds (mg_segment ?t) a (cmds @ [c]) (ts @ [(?b, ?b + 1, c)]) ?t"
    using S b below G(2,5) by (fastforce simp: seg_holds_def room_left_def)
  moreover have "mg_used ?t = mg_used s \<and> same_disk s ?t" by (simp add: same_disk_def)
  ultimately show ?thesis by blast
qed

text \<open>The commands after one more: another primary's take the place of what was held.\<close>

definition held_after :: "string \<times> int \<Rightarrow> string \<Rightarrow> backup \<Rightarrow> string list" where
  "held_after a c b = (case b of None \<Rightarrow> [c] | Some (a', cmds) \<Rightarrow> if a' = a then cmds @ [c] else [c])"

lemma place_command_ok:
  assumes B: "backup_holds b s" and g: "ss_callocs s = True # True # True # gs"
    and c: "length c < COMMAND_SIZE" "length (fst a) < 20"
  shows "\<exists>t ts. place_command (fst a) (snd a) c s = Some t \<and> heap_ok t \<and> mg_used t
    \<and> seg_holds (mg_segment t) a (held_after a c b) ts t \<and> same_disk s t"
proof (cases b)
  case None
  have H: "heap_ok s" "mg_segment s = NULL" using B None by (simp_all add: backup_holds_def)
  obtain t ts where t: "new_first_segment (fst a) (snd a) c s = Some t" "heap_ok t" "seg_holds (mg_segment t) a [c] ts t"
    "mg_used t = mg_used s" "same_disk s t" using new_first_segment_ok [OF H(1) g c] by blast
  have e: "getSegment (fst a) (snd a) s = Some NULL" "getLastSegment s = Some NULL"
    by (simp_all add: getSegment_def H(2) find_segment.simps getLastSegment_def last_segment.simps)
  show ?thesis
  proof (cases "mg_used s")
    case True
    then show ?thesis using t e None by (auto simp: place_command_def held_after_def)
  next
    case False
    let ?u = "t\<lparr>mg_used := True\<rparr>"
    have "lets_at ?u p xs \<longleftrightarrow> lets_at t p xs" for p xs by (rule lets_at_cong) simp
    then have "heap_ok ?u" "seg_holds (mg_segment ?u) a [c] ts ?u" "same_disk s ?u"
      using t(2,3,5) by (simp_all add: heap_ok_def seg_holds_def same_disk_def)
    then show ?thesis using t(1) False None by (auto simp: place_command_def held_after_def)
  qed
next
  case (Some p)
  obtain a' cmds where p: "p = (a', cmds)" by (cases p)
  have H: "heap_ok s" "mg_used s" using B by (simp_all add: backup_holds_def Some p)
  obtain ts where ts: "seg_holds (mg_segment s) a' cmds ts s" using B by (auto simp: backup_holds_def Some p)
  obtain g where G: "ss_segs s (mg_segment s) = Some g" "sg_next g = NULL" "hd_sin_addr (sg_header g) = fst a'"
    "hd_sin_port (sg_header g) = snd a'" "mg_segment s \<noteq> NULL" using ts by (auto simp: seg_holds_def)
  show ?thesis
  proof (cases "a' = a")
    case True
    have "getSegment (fst a) (snd a) s = Some (mg_segment s)"
      using G True by (simp add: getSegment_def find_segment.simps)
    then show ?thesis
      using append_seglet_ok [OF H(1) ts _ c(1), of "True # gs"] g G(5) H(2) True
      by (auto simp: place_command_def held_after_def Some p)
  next
    case False
    have "\<not> (fst a' = fst a \<and> snd a' = snd a)" using False by (auto simp: prod_eq_iff)
    then have "getSegment (fst a) (snd a) s = Some NULL" "getLastSegment s = Some NULL"
      using G by (auto simp: getSegment_def find_segment.simps [of "mg_segment s"] find_segment.simps [of NULL] getLastSegment_def
          last_segment.simps [of "mg_segment s"] last_segment.simps [of NULL])
    then show ?thesis using new_first_segment_ok [OF H(1) g c] H(2) False
      by (auto simp: place_command_def held_after_def Some p)
  qed
qed

section \<open>Writing a segment to the disk\<close>

text \<open>The blocks of a file that holds the commands.\<close>

fun lets_blocks :: "block list \<Rightarrow> string list \<Rightarrow> bool" where
  "lets_blocks [] cmds \<longleftrightarrow> cmds = []"
| "lets_blocks (B_let l # B_obj ob # bs) (c # cmds) \<longleftrightarrow>
     ob_command ob = c \<and> sl_length l = int (length c) \<and> (bs = [] \<longrightarrow> sl_next l = NULL) \<and> lets_blocks bs cmds"
| "lets_blocks _ _ \<longleftrightarrow> False"

definition segment_file :: "string \<times> int \<Rightarrow> string list \<Rightarrow> block list \<Rightarrow> bool" where
  "segment_file a cmds bs \<longleftrightarrow> cmds \<noteq> [] \<and> (\<exists>g r. bs = B_seg g # r \<and> hd_sin_addr (sg_header g) = fst a
     \<and> hd_sin_port (sg_header g) = snd a \<and> lets_blocks r cmds)"

lemma write_lets_at:
  "lets_at s p ts \<Longrightarrow> \<exists>bs. write_lets p s = Some bs \<and> lets_blocks bs (map (snd \<circ> snd) ts) \<and> (bs = [] \<longleftrightarrow> p = NULL)"
proof (induction ts arbitrary: p)
  case Nil
  then show ?case by (simp add: write_lets.simps)
next
  case (Cons q ts)
  obtain x ob c where q: "q = (x, ob, c)" by (cases q)
  from Cons.prems obtain nx av t where x: "p = x" "x \<noteq> NULL" "ob \<noteq> NULL" "lets_at s nx ts"
    "ss_lets s x = Some \<lparr>sl_length = int (length c), sl_objector = ob, sl_next = nx\<rparr>"
    "ss_objs s ob = Some \<lparr>ob_avaliable = av, ob_timestamp = t, ob_command = c\<rparr>" by (auto simp: q)
  from Cons.IH [OF x(4)] obtain bs where "write_lets nx s = Some bs" "lets_blocks bs (map (snd \<circ> snd) ts)"
    "bs = [] \<longleftrightarrow> nx = NULL" by blast
  with x show ?case by (subst write_lets.simps) (simp add: q deref_def)
qed

lemma norm_path_slash [simp]: "norm_path (p @ ''/'') = norm_path p"
  by (simp add: norm_path_def)

lemma norm_path_last: "p \<noteq> [] \<Longrightarrow> last p \<noteq> CHR ''/'' \<Longrightarrow> norm_path p = p"
  by (cases p rule: rev_cases) (simp_all add: norm_path_def)

lemma last_dec_int: "dec_int i \<noteq> [] \<and> isdigit (last (dec_int i))"
proof -
  have "isdigit (last (dec n))" for n
    by (rule isdigit_dec [OF last_in_set [OF dec_nonempty]])
  then show ?thesis using dec_nonempty by (simp add: dec_int_def)
qed

definition backup_dir :: "string \<times> int \<Rightarrow> seg_state \<Rightarrow> string" where
  "backup_dir a s = ss_cwd s @ ''/backup/'' @ dir_name (fst a) (snd a)"

lemma norm_backup_dir: "norm_path (backup_dir a s) = backup_dir a s"
proof -
  have "last (backup_dir a s) = last (dec_int (snd a))" using last_dec_int [of "snd a"] by (simp add: backup_dir_def dir_name_def)
  moreover have "last (dec_int (snd a)) \<noteq> CHR ''/''" using last_dec_int [of "snd a"] by (auto simp: isdigit_def)
  ultimately show ?thesis by (intro norm_path_last) (simp_all add: backup_dir_def)
qed

text \<open>
  The names fit the arrays of \<open>persist\<close>, the directories can be made and the file be opened. \<open>n\<close> is the
  number of commands.
\<close>

definition disk_ready :: "nat \<Rightarrow> string \<times> int \<Rightarrow> seg_state \<Rightarrow> bool" where
  "disk_ready n a s \<longleftrightarrow> norm_path (ss_cwd s) = ss_cwd s \<and> ss_cwd s \<in> set (ss_dirs s) \<and> False \<notin> set (ss_mkdirs s)
     \<and> 2 \<le> length (ss_mkdirs s) \<and> (\<exists>fs. ss_fopens s = True # fs) \<and> length (dir_name (fst a) (snd a)) < 64
     \<and> length (backup_dir a s) < DIR_SIZE \<and> length (file_name (int n) (ss_time s)) < 32"

text \<open>The three heaps and the manager are not touched.\<close>

definition same_heap :: "seg_state \<Rightarrow> seg_state \<Rightarrow> bool" where
  "same_heap s t \<longleftrightarrow> ss_segs t = ss_segs s \<and> ss_lets t = ss_lets s \<and> ss_objs t = ss_objs s \<and> ss_brk t = ss_brk s
     \<and> mg_segment t = mg_segment s \<and> mg_used t = mg_used s \<and> ss_time t = ss_time s \<and> ss_callocs t = ss_callocs s"

lemma mkStorage_ok:
  assumes D: "disk_ready n a s"
  shows "\<exists>t. mkStorage (dir_name (fst a) (snd a)) s = Some (backup_dir a s, t) \<and> same_heap s t
    \<and> set (ss_dirs s) \<subseteq> set (ss_dirs t) \<and> backup_dir a s \<in> set (ss_dirs t) \<and> ss_files t = ss_files s
    \<and> ss_fopens t = ss_fopens s"
proof -
  let ?d = "dir_name (fst a) (snd a)" and ?w = "ss_cwd s"
  have len: "length ?w + 8 + length ?d < DIR_SIZE" using D by (simp add: disk_ready_def backup_dir_def)
  obtain b1 b2 bs where mk: "ss_mkdirs s = b1 # b2 # bs" "b1" "b2"
    using D by (auto simp: disk_ready_def numeral_2_eq_2 Suc_le_length_iff)
  have nb: "norm_path (?w @ ''/backup/'') = ?w @ ''/backup''"
    using norm_path_slash [of "?w @ ''/backup''"] norm_path_last [of "?w @ ''/backup''"] by simp
  have nd: "norm_path (?w @ ''/backup/'' @ ?d) = ?w @ ''/backup/'' @ ?d" using norm_backup_dir [of a s] by (simp add: backup_dir_def)
  define u where "u = (if has_dir ''backup'' s then s else mkdir (?w @ ''/backup/'') s)"
  have u: "same_heap s u" "ss_cwd u = ?w" "set (ss_dirs s) \<subseteq> set (ss_dirs u)" "?w @ ''/backup'' \<in> set (ss_dirs u)"
    "ss_files u = ss_files s" "ss_fopens u = ss_fopens s" "\<exists>bs. ss_mkdirs u = True # bs"
    using mk nb by (auto simp: u_def mkdir_def has_dir_def same_heap_def)
  define v where "v = chdir (?w @ ''/backup/'') u"
  have v: "same_heap s v" "ss_cwd v = ?w @ ''/backup''" "ss_dirs v = ss_dirs u" "ss_files v = ss_files s"
    "ss_fopens v = ss_fopens s" "\<exists>bs. ss_mkdirs v = True # bs"
    using u nb by (auto simp: v_def chdir_def same_heap_def)
  define t where "t = (if has_dir ?d v then v else mkdir (?w @ ''/backup/'' @ ?d) v)"
  have "mkStorage ?d s = Some (backup_dir a s, t)"
    using len by (simp add: mkStorage_def getcwd_def t_def v_def u_def backup_dir_def Let_def)
  moreover have "same_heap s t \<and> set (ss_dirs s) \<subseteq> set (ss_dirs t) \<and> backup_dir a s \<in> set (ss_dirs t)
    \<and> ss_files t = ss_files s \<and> ss_fopens t = ss_fopens s"
    using v u(3) nd by (auto simp: t_def mkdir_def has_dir_def same_heap_def backup_dir_def)
  ultimately show ?thesis by blast
qed

lemma persist_ok:
  assumes S: "seg_holds seg a cmds ts s" and D: "disk_ready (length cmds) a s"
  shows "\<exists>t bs. persist seg s = Some (0, t) \<and> same_heap s t \<and> segment_file a cmds bs \<and> ss_cwd t = ss_cwd s
    \<and> set (ss_dirs s) \<subseteq> set (ss_dirs t) \<and> backup_dir a s \<in> set (ss_dirs t)
    \<and> ss_files t = put_file (backup_dir a s) (file_name (int (length cmds)) (ss_time s)) bs (ss_files s)"
proof -
  obtain g where G: "ss_segs s seg = Some g" "sg_next g = NULL" "lets_at s (sg_segleter g) ts"
    "sg_header g = \<lparr>hd_used = True, hd_segletnum = int (length cmds), hd_capacity = room_left cmds,
       hd_sin_addr = fst a, hd_sin_port = snd a\<rparr>" "seg \<noteq> NULL" "cmds \<noteq> []" "map (snd \<circ> snd) ts = cmds"
    using S by (auto simp: seg_holds_def)
  from mkStorage_ok [OF D] obtain u where u: "mkStorage (dir_name (fst a) (snd a)) s = Some (backup_dir a s, u)"
    "same_heap s u" "set (ss_dirs s) \<subseteq> set (ss_dirs u)" "backup_dir a s \<in> set (ss_dirs u)" "ss_files u = ss_files s"
    "ss_fopens u = ss_fopens s" by blast
  obtain fs where fs: "ss_fopens s = True # fs" using D by (auto simp: disk_ready_def)
  define v where "v = (chdir (backup_dir a s) u)\<lparr>ss_fopens := fs\<rparr>"
  have v: "same_heap s v" "ss_cwd v = backup_dir a s" "ss_dirs v = ss_dirs u" "ss_files v = ss_files s"
    using u norm_backup_dir [of a s] by (simp_all add: v_def chdir_def same_heap_def)
  have fo: "fopen (chdir (backup_dir a s) u) = (True, v)"
    using u(6) fs by (simp add: fopen_def v_def chdir_def)
  have "lets_at v (sg_segleter g) ts \<longleftrightarrow> lets_at s (sg_segleter g) ts"
    using v(1) by (intro lets_at_cong) (simp add: same_heap_def)
  then obtain bs where bs: "write_lets (sg_segleter g) v = Some bs" "lets_blocks bs cmds"
    using write_lets_at [of v "sg_segleter g" ts] G(3,7) by blast
  have cw: "norm_path (ss_cwd s) = ss_cwd s" "ss_cwd s \<in> set (ss_dirs s)" "length (ss_cwd s) < DIR_SIZE"
    "length (dir_name (fst a) (snd a)) < 64" "length (file_name (int (length cmds)) (ss_time s)) < 32"
    using D by (simp_all add: disk_ready_def backup_dir_def)
  have tm: "ss_time u = ss_time s" using u(2) by (simp add: same_heap_def)
  let ?t = "chdir (ss_cwd s) (v\<lparr>ss_files := put_file (backup_dir a s) (file_name (int (length cmds)) (ss_time s)) (B_seg g # bs) (ss_files v)\<rparr>)"
  have "persist seg s = Some (0, ?t)"
    using G cw u(1) fo bs(1) v(2) tm by (simp add: persist_def getcwd_def deref_def Let_def)
  moreover have "segment_file a cmds (B_seg g # bs)" using G bs(2) by (simp add: segment_file_def)
  moreover have "same_heap s ?t \<and> ss_cwd ?t = ss_cwd s \<and> set (ss_dirs s) \<subseteq> set (ss_dirs ?t) \<and> backup_dir a s \<in> set (ss_dirs ?t)
    \<and> ss_files ?t = put_file (backup_dir a s) (file_name (int (length cmds)) (ss_time s)) (B_seg g # bs) (ss_files s)"
    using v u(3,4) cw by (auto simp: chdir_def same_heap_def)
  ultimately show ?thesis by blast
qed

section \<open>Storing a command\<close>

definition fewer :: "seg_state \<Rightarrow> seg_state \<Rightarrow> bool" where
  "fewer s t \<longleftrightarrow> (heap_ok s \<longrightarrow> heap_ok t) \<and> mg_segment t = mg_segment s \<and> mg_used t = mg_used s \<and> same_disk s t
     \<and> ss_segs t = ss_segs s"

lemma free_lets_at:
  "lets_at s p ts \<Longrightarrow> distinct (map fst ts) \<Longrightarrow> distinct (map (fst \<circ> snd) ts) \<Longrightarrow> \<exists>t. free_lets p s = Some t \<and> fewer s t"
proof (induction ts arbitrary: p s)
  case Nil
  then show ?case by (simp add: free_lets.simps fewer_def same_disk_def)
next
  case (Cons q ts)
  obtain x ob c where q: "q = (x, ob, c)" by (cases q)
  from Cons.prems obtain nx av t where x: "p = x" "x \<noteq> NULL" "ob \<noteq> NULL" "lets_at s nx ts"
    "ss_lets s x = Some \<lparr>sl_length = int (length c), sl_objector = ob, sl_next = nx\<rparr>"
    "ss_objs s ob = Some \<lparr>ob_avaliable = av, ob_timestamp = t, ob_command = c\<rparr>" by (auto simp: q)
  let ?s = "s\<lparr>ss_objs := (ss_objs s)(ob := None), ss_lets := (ss_lets s)(x := None)\<rparr>"
  have "lets_at ?s nx ts \<longleftrightarrow> lets_at s nx ts" using Cons.prems by (intro lets_at_cong) (force simp: q)
  with Cons.IH [of ?s nx] Cons.prems x(4) obtain u where u: "free_lets nx ?s = Some u" "fewer ?s u" by (auto simp: q)
  have "fewer s u" using u(2) by (auto simp: fewer_def same_disk_def heap_ok_def)
  then show ?case using u(1) x by (subst free_lets.simps) simp
qed

lemma freeSegment_ok:
  assumes S: "seg_holds seg a cmds ts s"
  shows "\<exists>t. freeSegment seg s = Some t \<and> (heap_ok s \<longrightarrow> heap_ok t) \<and> mg_segment t = mg_segment s \<and> same_disk s t"
proof -
  obtain g where G: "ss_segs s seg = Some g" "lets_at s (sg_segleter g) ts" "seg \<noteq> NULL" "distinct (map fst ts)"
    "distinct (map (fst \<circ> snd) ts)" using S by (auto simp: seg_holds_def)
  from free_lets_at [OF G(2,4,5)] obtain t where t: "free_lets (sg_segleter g) s = Some t" "fewer s t" by blast
  then show ?thesis using G by (auto simp: freeSegment_def deref_def fewer_def heap_ok_def same_disk_def)
qed

lemma seg_holds_cong:
  assumes "same_heap s t"
  shows "seg_holds seg a cmds ts t \<longleftrightarrow> seg_holds seg a cmds ts s" "heap_ok t \<longleftrightarrow> heap_ok s"
proof -
  have "lets_at t p ts \<longleftrightarrow> lets_at s p ts" for p using assms by (intro lets_at_cong) (simp add: same_heap_def)
  then show "seg_holds seg a cmds ts t \<longleftrightarrow> seg_holds seg a cmds ts s" using assms by (simp add: seg_holds_def same_heap_def)
  show "heap_ok t \<longleftrightarrow> heap_ok s" using assms by (simp add: heap_ok_def same_heap_def)
qed

text \<open>What becomes of the commands \<open>cmds\<close> that a primary's segment holds: they stay, or they go to the disk.\<close>

definition settled :: "string \<times> int \<Rightarrow> string list \<Rightarrow> seg_state \<Rightarrow> seg_state \<Rightarrow> bool" where
  "settled a cmds s t \<longleftrightarrow> (if 0 \<le> room_left cmds then backup_holds (Some (a, cmds)) t \<and> ss_files t = ss_files s
     else backup_holds None t \<and> backup_dir a s \<in> set (ss_dirs t) \<and> ss_cwd t = ss_cwd s
       \<and> (\<exists>bs. segment_file a cmds bs
           \<and> ss_files t = put_file (backup_dir a s) (file_name (int (length cmds)) (ss_time s)) bs (ss_files s)))"

lemma store_command_ok:
  assumes B: "backup_holds b s" and g: "ss_callocs s = True # True # True # gs"
    and c: "length c < COMMAND_SIZE" "length (fst a) < 20"
    and D: "room_left (held_after a c b) < 0 \<Longrightarrow> disk_ready (length (held_after a c b)) a s"
  shows "\<exists>t. store_command True (fst a) (snd a) c s = Some t \<and> settled a (held_after a c b) s t"
proof -
  let ?cmds = "held_after a c b"
  from place_command_ok [OF B g c] obtain u ts where u: "place_command (fst a) (snd a) c s = Some u" "heap_ok u" "mg_used u"
    "seg_holds (mg_segment u) a ?cmds ts u" "same_disk s u" by blast
  obtain h where h: "ss_segs u (mg_segment u) = Some h" "sg_next h = NULL" "hd_capacity (sg_header h) = room_left ?cmds"
    "mg_segment u \<noteq> NULL" using u(4) by (auto simp: seg_holds_def)
  have nil: "persist_loop NULL f x = Some x" for f x by (simp add: persist_loop.simps)
  show ?thesis
  proof (cases "room_left ?cmds < 0")
    case False
    then have "persist_loop (mg_segment u) True u = Some u"
      using h nil by (subst persist_loop.simps) simp
    moreover have "settled a ?cmds s u"
      using False u(2-5) by (auto simp: settled_def backup_holds_def same_disk_def)
    ultimately show ?thesis using u(1) by (simp add: store_command_def)
  next
    case True
    have "disk_ready (length ?cmds) a u" using D [OF True] u(5) by (simp add: disk_ready_def same_disk_def backup_dir_def)
    from persist_ok [OF u(4) this] obtain v bs where v: "persist (mg_segment u) u = Some (0, v)" "same_heap u v"
      "segment_file a ?cmds bs" "ss_cwd v = ss_cwd u" "set (ss_dirs u) \<subseteq> set (ss_dirs v)" "backup_dir a u \<in> set (ss_dirs v)"
      "ss_files v = put_file (backup_dir a u) (file_name (int (length ?cmds)) (ss_time u)) bs (ss_files u)" by blast
    have "seg_holds (mg_segment u) a ?cmds ts v" "heap_ok v" using seg_holds_cong [OF v(2)] u(2,4) by simp_all
    from freeSegment_ok [OF this(1)] this(2) obtain w where w: "freeSegment (mg_segment u) v = Some w" "heap_ok w"
      "same_disk v w" by blast
    have "persist_loop (mg_segment u) True u = Some (w\<lparr>mg_segment := NULL\<rparr>)"
      using h nil v(1) w(1) True by (subst persist_loop.simps) simp
    moreover have "settled a ?cmds s (w\<lparr>mg_segment := NULL\<rparr>)"
      using True v w u(5) by (auto simp: settled_def backup_holds_def heap_ok_def same_disk_def backup_dir_def)
    ultimately show ?thesis using u(1) by (simp add: store_command_def)
  qed
qed

section \<open>Messages\<close>

lemma int_range_mono: "int_range (int m) \<Longrightarrow> n \<le> m \<Longrightarrow> int_range (int n)"
  by (simp add: int_range_def)

lemma port_digits_snoc:
  "port_digits n (ds @ [d]) = Option.bind (port_digits n ds) (\<lambda>m. let k = m * 10 + (char_val d - char_val (CHR ''0'')) in
     if int_range (m * 10) \<and> int_range k then Some k else None)"
  by (induction ds arbitrary: n) (auto simp: Let_def)

lemma char_val_digit: "d < 10 \<Longrightarrow> char_val (digit d) - char_val (CHR ''0'') = int d"
  by (simp add: char_val_def digit_def Let_def)

lemma port_digits_dec: "int_range (int n) \<Longrightarrow> port_digits 0 (dec n) = Some (int n)"
proof (induction n rule: dec.induct)
  case (1 n)
  show ?case
  proof (cases "n < 10")
    case True
    then show ?thesis using 1(2) char_val_digit [of n] by (subst dec.simps) (simp add: int_range_def)
  next
    case False
    have "int (n div 10) * 10 = int (n div 10 * 10)" by simp
    moreover have "int_range (int (n div 10 * 10))" by (rule int_range_mono [OF 1(2)]) simp
    moreover have "port_digits 0 (dec (n div 10)) = Some (int (n div 10))"
      using False by (intro 1(1) int_range_mono [OF 1(2)]) simp_all
    moreover have "int (n div 10) * 10 + int (n mod 10) = int n"
      by (metis div_mult_mod_eq of_nat_add of_nat_mult of_nat_numeral)
    ultimately show ?thesis
      using False 1(2) char_val_digit [of "n mod 10"] by (subst dec.simps) (simp add: port_digits_snoc Let_def)
  qed
qed

text \<open>The state of the scan while the two lines are collected.\<close>

abbreviation collected :: "nat \<Rightarrow> string \<Rightarrow> scan" where
  "collected f cs \<equiv> \<lparr>sc_flag1 = f, sc_flag2 = 0, sc_j = length cs, sc_done = False, sc_first = True,
     sc_command = cs @ zeros (COMMAND_SIZE - length cs)\<rparr>"

lemma put_at_next: "length cs < COMMAND_SIZE \<Longrightarrow> put_at (length cs) [c] (cs @ zeros (COMMAND_SIZE - length cs))
    = Some ((cs @ [c]) @ zeros (COMMAND_SIZE - length (cs @ [c])))"
  by (simp add: put_at_def write_at_def zeros_def)

lemma scan_line:
  "f < 2 \<Longrightarrow> CHR 0x0A \<notin> set xs \<Longrightarrow> length cs + length xs < COMMAND_SIZE \<Longrightarrow>
     scan_loop ip prt (xs @ ys) (collected f cs) s = scan_loop ip prt ys (collected f (cs @ xs)) s"
proof (induction xs arbitrary: cs)
  case Nil
  then show ?case by simp
next
  case (Cons x xs)
  have "scan_char ip prt x (collected f cs) s = Some (collected f (cs @ [x]), s)"
    using Cons.prems put_at_next [of cs x] by (auto simp: scan_char_def)
  then show ?case using Cons.IH [of "cs @ [x]"] Cons.prems by simp
qed

lemma scan_eol:
  "f < 2 \<Longrightarrow> length cs < COMMAND_SIZE \<Longrightarrow>
     scan_loop ip prt (CHR 0x0A # ys) (collected f cs) s = scan_loop ip prt ys (collected (f + 1) (cs @ [CHR 0x0A])) s"
  using put_at_next [of cs "CHR 0x0A"] by (simp add: scan_char_def)

lemma takeWhile_to: "c \<notin> set xs \<Longrightarrow> takeWhile (\<lambda>x. x \<noteq> c) (xs @ c # ys) = xs"
  by (induction xs) auto

lemma dropWhile_to: "c \<notin> set xs \<Longrightarrow> dropWhile (\<lambda>x. x \<noteq> c) (xs @ c # ys) = c # ys"
  by (induction xs) auto

lemma take_append_length: "take (length xs) (xs @ ys) = xs"
  by simp

lemma cstr_to: "CHR 0x00 \<notin> set xs \<Longrightarrow> cstr (xs @ CHR 0x00 # ys) = xs"
  by (simp add: cstr_def takeWhile_to)

lemma drop_eols_message:
  assumes "xs \<noteq> []" "\<not> is_eol (last xs)" "\<forall>c\<in>set eols. is_eol c"
  shows "drop_eols (xs @ eols) = Some xs"
proof -
  have "dropWhile is_eol (rev eols @ rev xs) = rev xs"
    using assms by (subst dropWhile_append2) (auto simp: dropWhile_eq_self_iff hd_rev)
  then show ?thesis using assms(1) by (simp add: drop_eols_def)
qed

text \<open>A message of two lines of any kind and the line with the address.\<close>

lemma appendToSegment_message:
  assumes l: "CHR 0x0A \<notin> set l1" "CHR 0x0A \<notin> set l2" "CHR 0x00 \<notin> set (l1 @ l2)"
    and ip: "set ip \<inter> {CHR 0x0A, CHR '':'', CHR 0x00} = {}" "length ip < 16" and p: "int_range (int p)"
    and eols: "\<forall>c\<in>set eols. is_eol c" and len: "length (l1 @ l2 @ ip @ dec p) + 3 < COMMAND_SIZE"
  shows "appendToSegment (l1 @ CHR 0x0A # l2 @ CHR 0x0A # ip @ CHR '':'' # dec p @ eols) s
    = store_command True ip (int p) (l1 @ CHR 0x0A # l2 @ [CHR 0x0A]) s"
proof -
  let ?a = "ip @ CHR '':'' # dec p" and ?c = "l1 @ CHR 0x0A # l2 @ [CHR 0x0A]"
  let ?m = "?c @ ?a" and ?z = "CHR 0x00 # zeros (COMMAND_SIZE - length ip - length (dec p) - 2)"
  have dig: "isdigit c" if "c \<in> set (dec p)" for c using isdigit_dec [OF that] .
  have no: "CHR 0x0A \<notin> set (dec p)" "CHR 0x00 \<notin> set (dec p)"
    using dig [of "CHR 0x0A"] dig [of "CHR 0x00"] by (auto simp: isdigit_def)
  have last: "last ?m = last (dec p)" "isdigit (last (dec p))" using dig last_in_set [of "dec p"] by simp_all
  then have "\<not> is_eol (last ?m)" by (auto simp: is_eol_def isdigit_def)
  from drop_eols_message [OF _ this eols] have de: "drop_eols (?m @ eols) = Some ?m" by simp
  obtain rest where r1: "put_at 0 (?m @ [CHR 0x00]) (zeros COMMAND_SIZE) = Some (?m @ CHR 0x00 # rest)"
    "length (?m @ CHR 0x00 # rest) = COMMAND_SIZE"
    using len by (simp add: put_at_def write_at_def zeros_def)
  have noa: "CHR 0x0A \<notin> set ?a" "CHR 0x00 \<notin> set ?a" using ip(1) no by auto
  have "takeWhile (\<lambda>c. c \<noteq> CHR 0x0A) (rev ?m) = rev ?a"
  proof -
    have "rev ?m = rev ?a @ CHR 0x0A # rev (l1 @ CHR 0x0A # l2)" by simp
    then show ?thesis using takeWhile_to [of "CHR 0x0A" "rev ?a"] noa(1) by (metis set_rev)
  qed
  then have lastline: "rev (takeWhile (\<lambda>c. c \<noteq> CHR 0x0A) (rev ?m)) = ?a" by (metis rev_rev_ident)
  obtain buf where buf: "parseIpPort (?m @ eols) (zeros COMMAND_SIZE) = Some (?a @ CHR 0x00 # buf)"
  proof -
    have "parseIpPort (?m @ eols) (zeros COMMAND_SIZE) = put_at 0 (?a @ [CHR 0x00]) (?m @ CHR 0x00 # rest)"
      unfolding parseIpPort_def de using r1(1) lastline by simp
    also have "\<dots> = Some (?a @ CHR 0x00 # drop (length ?a + 1) (?m @ CHR 0x00 # rest))"
      by (simp add: put_at_def write_at_def)
    finally show thesis by (rule that)
  qed
  have gi: "getIp (?a @ CHR 0x00 # buf) (zeros 16) = Some (ip @ CHR 0x00 # zeros (15 - length ip))"
  proof -
    have "takeWhile (\<lambda>c. c \<noteq> CHR '':'') (?a @ CHR 0x00 # buf) = ip"
      using takeWhile_to [of "CHR '':''" ip] ip(1) by simp
    then show ?thesis using ip(2) by (simp add: getIp_def put_at_def write_at_def zeros_def)
  qed
  have gp: "getPort ?a = Some (int p)"
    using dropWhile_to [of "CHR '':''" ip] ip(1) port_digits_dec [OF p] by (simp add: getPort_def)
  have gl: "getCommandLen (?m @ eols) ?a = Some (int (length ?c))" unfolding getCommandLen_def de by simp
  have cs: "cstr (ip @ CHR 0x00 # zeros (15 - length ip)) = ip" using ip(1) by (intro cstr_to) auto
  have so: "str_of (?a @ CHR 0x00 # buf) = Some ?a" using cstr_to [OF noa(2)] by (simp add: str_of_def)
  obtain h ts where h: "?a = h # ts" by (cases ip) auto
  have tk: "take (nat (int (length ?c) + 1)) ((?m @ eols) @ [CHR 0x00]) = l1 @ CHR 0x0A # l2 @ CHR 0x0A # [h]"
  proof -
    have "(?m @ eols) @ [CHR 0x00] = (?c @ [h]) @ ts @ eols @ [CHR 0x00]" using h by simp
    moreover have "nat (int (length ?c) + 1) = length (?c @ [h])" by simp
    ultimately have "take (nat (int (length ?c) + 1)) ((?m @ eols) @ [CHR 0x00]) = ?c @ [h]"
      using take_append_length [of "?c @ [h]" "ts @ eols @ [CHR 0x00]"] by argo
    then show ?thesis by simp
  qed
  have sc: "scan_loop ip (int p) (l1 @ CHR 0x0A # l2 @ CHR 0x0A # [h]) (collected 0 []) s
      = scan_loop ip (int p) [h] (collected 2 ?c) s"
  proof -
    let ?r = "l2 @ CHR 0x0A # [h]"
    have "scan_loop ip (int p) (l1 @ CHR 0x0A # ?r) (collected 0 []) s
        = scan_loop ip (int p) (CHR 0x0A # ?r) (collected 0 ([] @ l1)) s" using l len by (intro scan_line) simp_all
    also have "\<dots> = scan_loop ip (int p) ?r (collected (0 + 1) (([] @ l1) @ [CHR 0x0A])) s"
      using len by (intro scan_eol) simp_all
    also have "\<dots> = scan_loop ip (int p) (CHR 0x0A # [h]) (collected (0 + 1) ((([] @ l1) @ [CHR 0x0A]) @ l2)) s"
      using l len by (intro scan_line) simp_all
    also have "\<dots> = scan_loop ip (int p) [h] (collected (0 + 1 + 1) (((([] @ l1) @ [CHR 0x0A]) @ l2) @ [CHR 0x0A])) s"
      using len by (intro scan_eol) simp_all
    finally show ?thesis by (simp add: numeral_2_eq_2 del: scan_loop.simps)
  qed
  have "str_of (?c @ zeros (COMMAND_SIZE - length ?c)) = Some ?c"
  proof -
    have "zeros (COMMAND_SIZE - length ?c) = CHR 0x00 # zeros (COMMAND_SIZE - length ?c - 1)"
      using len by (cases "COMMAND_SIZE - length ?c") (simp_all add: zeros_def)
    then show ?thesis using l(3) cstr_to [of ?c] by (simp add: str_of_def)
  qed
  then have fin: "scan_loop ip (int p) [h] (collected 2 ?c) s
      = Option.bind (store_command True ip (int p) ?c s) (\<lambda>s. Some ((collected 2 ?c)
          \<lparr>sc_flag2 := (if h = CHR 0x0D then 1 else 0), sc_done := True, sc_first := False\<rparr>, s))"
    by (simp add: scan_char_def del: append_assoc)
  have "appendToSegment (?m @ eols) s = Option.bind (scan_loop ip (int p) [h] (collected 2 ?c) s) (\<lambda>(k, s). Some s)"
    unfolding appendToSegment_def buf using gi so gp gl cs tk sc by simp
  then show ?thesis unfolding fin by (cases "store_command True ip (int p) ?c s") simp_all
qed

section \<open>Recovery\<close>

definition grants_left :: "nat \<Rightarrow> seg_state \<Rightarrow> bool" where
  "grants_left k s \<longleftrightarrow> (\<exists>gs. ss_callocs s = replicate k True @ gs)"

lemma grants_left_Suc:
  "grants_left (Suc k) s \<Longrightarrow> \<exists>gs. ss_callocs s = True # gs \<and> grants_left k (s\<lparr>ss_callocs := gs\<rparr>)"
  by (auto simp: grants_left_def)

lemma grants_left_cong: "ss_callocs t = ss_callocs s \<Longrightarrow> grants_left k t \<longleftrightarrow> grants_left k s"
  by (simp add: grants_left_def)

text \<open>Reading stores above the break only.\<close>

definition above :: "seg_state \<Rightarrow> seg_state \<Rightarrow> bool" where
  "above s t \<longleftrightarrow> ss_brk s \<le> ss_brk t \<and> (\<forall>a < ss_brk s. ss_lets t a = ss_lets s a \<and> ss_objs t a = ss_objs s a)
     \<and> ss_files t = ss_files s"

lemma above_refl: "above s s" by (simp add: above_def)

lemma above_trans: "above s t \<Longrightarrow> above t u \<Longrightarrow> above s u" by (simp add: above_def)

lemma lets_at_above: "above s t \<Longrightarrow> heap_ok s \<Longrightarrow> lets_at s p ts \<Longrightarrow> lets_at t p ts"
proof -
  assume a: "above s t" "heap_ok s" "lets_at s p ts"
  have "ss_lets t x = ss_lets s x \<and> ss_objs t ob = ss_objs s ob" if "(x, ob, c) \<in> set ts" for x ob c
    using lets_at_allocated [OF a(3) that] heap_ok_below [OF a(2)] a(1) by (fastforce simp: above_def)
  then show "lets_at t p ts" using lets_at_cong [of ts t s p] a(3) by blast
qed

lemma read_let_ok:
  assumes H: "heap_ok s" and g: "grants_left (Suc (Suc k)) s"
    and b: "lets_blocks bs (c # cmds)"
  shows "\<exists>l ob av r u. bs = B_let l # B_obj ob # r \<and> lets_blocks r cmds \<and> (r = [] \<longrightarrow> sl_next l = NULL)
    \<and> read_let bs s = Some (ss_brk s, r, u) \<and> heap_ok u \<and> grants_left k u \<and> above s u
    \<and> ss_segs u = ss_segs s \<and> ss_brk u = ss_brk s + 2 \<and> ss_fopens u = ss_fopens s
    \<and> ss_lets u (ss_brk s) = Some \<lparr>sl_length = int (length c), sl_objector = ss_brk s + 1, sl_next = sl_next l\<rparr>
    \<and> ss_objs u (ss_brk s + 1) = Some \<lparr>ob_avaliable = ob_avaliable ob, ob_timestamp = av, ob_command = c\<rparr>"
proof -
  let ?b = "ss_brk s"
  obtain l ob r where bs: "bs = B_let l # B_obj ob # r" "lets_blocks r cmds" "r = [] \<longrightarrow> sl_next l = NULL"
    "ob_command ob = c" "sl_length l = int (length c)"
    using b by (cases "(bs, c # cmds)" rule: lets_blocks.cases) auto
  obtain gs where gs: "ss_callocs s = True # True # gs" "grants_left k (s\<lparr>ss_callocs := gs\<rparr>)"
    using g by (auto simp: grants_left_def)
  let ?u = "s\<lparr>ss_brk := ?b + 2, ss_callocs := gs, ss_lets := (ss_lets s)(?b \<mapsto> l\<lparr>sl_objector := ?b + 1\<rparr>),
    ss_objs := (ss_objs s)(?b + 1 \<mapsto> ob)\<rparr>"
  have "0 < ?b" using H by (simp add: heap_ok_def)
  then have "read_let bs s = Some (?b, r, ?u)" using bs(1) gs(1) by (simp add: read_let_def seg_calloc_def)
  moreover have "heap_ok ?u" using H by (simp add: heap_ok_def)
  moreover have "grants_left k ?u" using gs(2) by (simp add: grants_left_def)
  moreover have "above s ?u" by (simp add: above_def)
  moreover have "ss_lets ?u ?b = Some \<lparr>sl_length = int (length c), sl_objector = ?b + 1, sl_next = sl_next l\<rparr>"
    using bs(5) by (cases l) simp
  moreover have "ss_objs ?u (?b + 1) = Some \<lparr>ob_avaliable = ob_avaliable ob, ob_timestamp = ob_timestamp ob, ob_command = c\<rparr>"
    using bs(4) by (cases ob) simp
  ultimately show ?thesis using bs(1-3) by (intro exI [of _ l] exI [of _ ob] exI [of _ "ob_timestamp ob"] exI [of _ r] exI [of _ ?u]) simp
qed

lemma read_lets_ok:
  assumes "heap_ok s" "grants_left (2 * length cmds + k) s" "lets_blocks bs cmds" "z < ss_brk s" "z \<noteq> NULL"
    "ss_lets s z = Some \<lparr>sl_length = int (length c), sl_objector = ob, sl_next = nt\<rparr>" "bs = [] \<longrightarrow> nt = NULL"
    "ob \<noteq> NULL" "ob < ss_brk s" "ss_objs s ob = Some \<lparr>ob_avaliable = av, ob_timestamp = tm, ob_command = c\<rparr>"
  shows "\<exists>t ts. read_lets (length cmds) z bs s = Some t \<and> heap_ok t \<and> grants_left k t \<and> lets_at t z ((z, ob, c) # ts)
    \<and> map (snd \<circ> snd) ts = cmds \<and> ss_segs t = ss_segs s \<and> ss_brk s \<le> ss_brk t \<and> ss_files t = ss_files s
    \<and> ss_fopens t = ss_fopens s
    \<and> (\<forall>a < ss_brk s. (a \<noteq> z \<longrightarrow> ss_lets t a = ss_lets s a) \<and> ss_objs t a = ss_objs s a)"
  using assms
proof (induction cmds arbitrary: s bs z c ob nt av tm)
  case Nil
  then have "bs = []" by (cases "(bs, [] :: string list)" rule: lets_blocks.cases) auto
  with Nil.prems show ?case by simp
next
  case (Cons d cmds)
  let ?b = "ss_brk s"
  have "grants_left (Suc (Suc (2 * length cmds + k))) s" using Cons.prems(2) by simp
  from read_let_ok [OF Cons.prems(1) this Cons.prems(3)] obtain l o' av' r u where u: "bs = B_let l # B_obj o' # r"
    "lets_blocks r cmds" "r = [] \<longrightarrow> sl_next l = NULL" "read_let bs s = Some (?b, r, u)" "heap_ok u"
    "grants_left (2 * length cmds + k) u" "above s u" "ss_segs u = ss_segs s" "ss_brk u = ?b + 2" "ss_fopens u = ss_fopens s"
    "ss_lets u ?b = Some \<lparr>sl_length = int (length d), sl_objector = ?b + 1, sl_next = sl_next l\<rparr>"
    "ss_objs u (?b + 1) = Some \<lparr>ob_avaliable = ob_avaliable o', ob_timestamp = av', ob_command = d\<rparr>" by blast
  have uz: "ss_lets u z = ss_lets s z" "ss_files u = ss_files s" using u(7) Cons.prems(4) by (simp_all add: above_def)
  define v where "v = u\<lparr>ss_lets := (ss_lets u)(z \<mapsto> \<lparr>sl_length = int (length c), sl_objector = ob, sl_next = ?b\<rparr>)\<rparr>"
  have sv: "store_let z (\<lambda>x. x\<lparr>sl_next := ?b\<rparr>) u = Some v"
    using Cons.prems(5,6) uz by (simp add: store_let_def deref_def v_def)
  have zb: "z \<noteq> ?b" "z < ?b + 2" using Cons.prems(4) by simp_all
  have V: "heap_ok v" "grants_left (2 * length cmds + k) v" "ss_brk v = ?b + 2"
    "ss_lets v ?b = Some \<lparr>sl_length = int (length d), sl_objector = ?b + 1, sl_next = sl_next l\<rparr>"
    "ss_objs v (?b + 1) = Some \<lparr>ob_avaliable = ob_avaliable o', ob_timestamp = av', ob_command = d\<rparr>"
    using u zb by (auto simp: v_def heap_ok_def grants_left_def)
  have "0 < ?b" using Cons.prems(1) by (simp add: heap_ok_def)
  with Cons.IH [OF V(1,2) u(2) _ _ V(4) u(3) _ _ V(5)] V(3) obtain t ts where t: "read_lets (length cmds) ?b r v = Some t"
    "heap_ok t" "grants_left k t" "lets_at t ?b ((?b, ?b + 1, d) # ts)" "map (snd \<circ> snd) ts = cmds" "ss_segs t = ss_segs v"
    "?b + 2 \<le> ss_brk t" "ss_files t = ss_files v" "ss_fopens t = ss_fopens v"
    "\<forall>a < ?b + 2. (a \<noteq> ?b \<longrightarrow> ss_lets t a = ss_lets v a) \<and> ss_objs t a = ss_objs v a" by auto
  have "ss_lets t z = ss_lets v z" "ss_objs t ob = ss_objs s ob"
    using t(10) zb Cons.prems(9) u(7) by (simp_all add: v_def above_def)
  then have at: "lets_at t z ((z, ob, c) # (?b, ?b + 1, d) # ts)"
    using t(4) Cons.prems(5,8,10) by (simp add: v_def)
  have "\<forall>a < ?b. (a \<noteq> z \<longrightarrow> ss_lets t a = ss_lets s a) \<and> ss_objs t a = ss_objs s a"
    using t(10) u(7) by (simp add: v_def above_def)
  moreover have "read_lets (length (d # cmds)) z bs s = Some t"
    using u(4) sv t(1) by simp
  moreover have "ss_segs t = ss_segs s" "ss_files t = ss_files s" "ss_fopens t = ss_fopens s"
    using t(6,8,9) u(8,10) uz(2) by (simp_all add: v_def)
  ultimately show ?case using t(2,3,5,7) at by (intro exI [of _ t] exI [of _ "(?b, ?b + 1, d) # ts"]) (simp add: o_def)
qed

text \<open>A segment that was read back: its commands.\<close>

definition loaded :: "addr \<Rightarrow> string list \<Rightarrow> seg_state \<Rightarrow> bool" where
  "loaded seg cmds s \<longleftrightarrow> seg \<noteq> NULL \<and> (\<exists>g ts. ss_segs s seg = Some g \<and> lets_at s (sg_segleter g) ts \<and> map (snd \<circ> snd) ts = cmds)"

text \<open>A file as \<open>persist\<close> makes it.\<close>

definition ram_file :: "string \<Rightarrow> string \<Rightarrow> string list \<Rightarrow> seg_state \<Rightarrow> bool" where
  "ram_file d n cmds s \<longleftrightarrow> length d + 1 + length n < DIR_SIZE \<and> int_range (int (length cmds))
     \<and> (\<exists>a t bs. n = file_name (int (length cmds)) t \<and> find_file d n s = Some bs \<and> segment_file a cmds bs)"

lemma has_ram_name: "has_ram (file_name i t)"
proof -
  have "rev (file_name i t) = ''mar.'' @ rev (dec_int i @ ''.'' @ dec_int t)" by (simp add: file_name_def)
  then show ?thesis by (simp add: has_ram_def file_name_def Let_def)
qed

lemma getSegmentLength_name: "int_range (int n) \<Longrightarrow> getSegmentLength (file_name (int n) t) = Some (int n)"
proof -
  assume n: "int_range (int n)"
  have "CHR ''.'' \<notin> set (dec n)" using isdigit_dec [of "CHR ''.''" n] by (auto simp: isdigit_def)
  then have "takeWhile (\<lambda>c. c \<noteq> CHR ''.'') (file_name (int n) t) = dec n"
    using takeWhile_to [of "CHR ''.''" "dec n"] by (simp add: file_name_def dec_int_def)
  then show ?thesis using port_digits_dec [OF n] by (simp add: getSegmentLength_def file_name_def)
qed

lemma readFile_ok:
  assumes F: "ram_file d n cmds s" and d: "norm_path d = d" and H: "heap_ok s"
    and g: "grants_left (1 + 2 * length cmds + k) s" and fo: "ss_fopens s = True # fs"
  shows "\<exists>seg t. readFile (d @ ''/'') n s = Some (seg, t) \<and> heap_ok t \<and> grants_left k t \<and> above s t \<and> loaded seg cmds t
    \<and> seg = ss_brk s \<and> seg < ss_brk t \<and> ss_fopens t = fs \<and> (\<forall>a < ss_brk s. ss_segs t a = ss_segs s a)"
proof -
  let ?b = "ss_brk s"
  obtain a tm bs where f: "n = file_name (int (length cmds)) tm" "find_file d n s = Some bs" "segment_file a cmds bs"
    "length d + 1 + length n < DIR_SIZE" "int_range (int (length cmds))" using F by (auto simp: ram_file_def)
  obtain h r where bs: "bs = B_seg h # r" "lets_blocks r cmds" "cmds \<noteq> []" using f(3) by (auto simp: segment_file_def)
  obtain c cs where cs: "cmds = c # cs" using bs(3) by (cases cmds) auto
  obtain gs where gs: "ss_callocs s = True # gs" "grants_left (2 * length cmds + k) (s\<lparr>ss_callocs := gs\<rparr>)"
    using g by (auto dest: grants_left_Suc)
  have b: "0 < ?b" using H by (simp add: heap_ok_def)
  define u where "u = s\<lparr>ss_brk := ?b + 1, ss_callocs := gs, ss_fopens := fs, ss_segs := (ss_segs s)(?b \<mapsto> h)\<rparr>"
  have U: "heap_ok u" "grants_left (Suc (Suc (2 * length cs + k))) u" "above s u"
    using H gs(2) cs by (simp_all add: u_def heap_ok_def grants_left_def above_def)
  have "lets_blocks r (c # cs)" using bs(2) cs by simp
  from read_let_ok [OF U(1,2) this] obtain l ob av q v where v: "r = B_let l # B_obj ob # q" "lets_blocks q cs"
    "q = [] \<longrightarrow> sl_next l = NULL" "read_let r u = Some (?b + 1, q, v)" "heap_ok v" "grants_left (2 * length cs + k) v"
    "above u v" "ss_segs v = ss_segs u" "ss_brk v = ?b + 3" "ss_fopens v = fs"
    "ss_lets v (?b + 1) = Some \<lparr>sl_length = int (length c), sl_objector = ?b + 2, sl_next = sl_next l\<rparr>"
    "ss_objs v (?b + 2) = Some \<lparr>ob_avaliable = ob_avaliable ob, ob_timestamp = av, ob_command = c\<rparr>"
    by (auto simp: u_def numeral_3_eq_3)
  define w where "w = v\<lparr>ss_segs := (ss_segs v)(?b \<mapsto> h\<lparr>sg_segleter := ?b + 1\<rparr>)\<rparr>"
  have sw: "store_seg ?b (\<lambda>g. g\<lparr>sg_segleter := ?b + 1\<rparr>) v = Some w"
    using v(8) b by (simp add: store_seg_def deref_def u_def w_def)
  have W: "heap_ok w" "grants_left (2 * length cs + k) w" "above v w" "ss_brk w = ?b + 3" "ss_fopens w = fs"
    "ss_lets w (?b + 1) = Some \<lparr>sl_length = int (length c), sl_objector = ?b + 2, sl_next = sl_next l\<rparr>"
    "ss_objs w (?b + 2) = Some \<lparr>ob_avaliable = ob_avaliable ob, ob_timestamp = av, ob_command = c\<rparr>"
    using v by (simp_all add: w_def heap_ok_def grants_left_def above_def)
  from read_lets_ok [OF W(1,2) v(2) _ _ W(6) v(3) _ _ W(7)] W(4) obtain t ts where t: "read_lets (length cs) (?b + 1) q w = Some t"
    "heap_ok t" "grants_left k t" "lets_at t (?b + 1) ((?b + 1, ?b + 2, c) # ts)" "map (snd \<circ> snd) ts = cs" "ss_segs t = ss_segs w"
    "?b + 3 \<le> ss_brk t" "ss_files t = ss_files w" "ss_fopens t = ss_fopens w"
    "\<forall>a < ?b + 3. (a \<noteq> ?b + 1 \<longrightarrow> ss_lets t a = ss_lets w a) \<and> ss_objs t a = ss_objs w a" by auto
  have "above s t"
    using t(7,8,10) U(3) v(7) W(3) v(9) by (simp add: above_def w_def u_def)
  moreover have "loaded ?b cmds t"
    using t(4-6) b cs by (auto simp: loaded_def w_def intro!: exI [of _ "(?b + 1, ?b + 2, c) # ts"] simp: o_def)
  moreover have "readFile (d @ ''/'') n s = Some (?b, t)"
  proof -
    have cr: "createSegment (s\<lparr>ss_fopens := fs\<rparr>) = (?b, s\<lparr>ss_fopens := fs, ss_brk := ?b + 1, ss_callocs := gs,
        ss_segs := (ss_segs s)(?b \<mapsto> zero_segment)\<rparr>)"
      using gs(1) b by (simp add: createSegment_def seg_calloc_def)
    have st: "store_seg ?b (\<lambda>_. h) (s\<lparr>ss_fopens := fs, ss_brk := ?b + 1, ss_callocs := gs,
        ss_segs := (ss_segs s)(?b \<mapsto> zero_segment)\<rparr>) = Some u"
      using b by (simp add: store_seg_def deref_def u_def)
    have "find_file d n (s\<lparr>ss_fopens := fs\<rparr>) = Some bs" using f(2) by (simp add: find_file_def)
    moreover have "nat (int (length cmds) - 1) = length cs" using cs by simp
    ultimately show ?thesis
      using f(1,4) getSegmentLength_name [OF f(5)] fo d cr st v(4) sw t(1) b cs bs(1)
      by (simp add: readFile_def fopen_def)
  qed
  moreover have "\<forall>a < ?b. ss_segs t a = ss_segs s a" using t(6) v(8) by (simp add: w_def u_def)
  ultimately show ?thesis using t(2,3,7,9) W(5) by (intro exI [of _ ?b] exI [of _ t]) simp
qed

lemma ram_file_above: "ram_file d n cmds s \<Longrightarrow> above s t \<Longrightarrow> ram_file d n cmds t"
  by (auto simp: ram_file_def above_def find_file_def)

text \<open>Where the lists of seglets begin.\<close>

definition same_segleters :: "seg_state \<Rightarrow> seg_state \<Rightarrow> bool" where
  "same_segleters s t \<longleftrightarrow> (\<forall>a < ss_brk s. map_option sg_segleter (ss_segs t a) = map_option sg_segleter (ss_segs s a))"

lemma loaded_keeps:
  assumes "loaded seg cmds s" "heap_ok s" "above s t" "same_segleters s t"
  shows "loaded seg cmds t"
proof -
  obtain g ts where g: "ss_segs s seg = Some g" "lets_at s (sg_segleter g) ts" "map (snd \<circ> snd) ts = cmds" "seg \<noteq> NULL"
    using assms(1) by (auto simp: loaded_def)
  have "map_option sg_segleter (ss_segs t seg) = Some (sg_segleter g)"
    using assms(4) heap_ok_below(1) [OF assms(2) g(1)] g(1) by (simp add: same_segleters_def)
  then obtain h where "ss_segs t seg = Some h" "sg_segleter h = sg_segleter g" by auto
  then show ?thesis using lets_at_above [OF assms(3,2) g(2)] g(3,4) by (auto simp: loaded_def)
qed

lemma store_seg_next:
  assumes "ss_segs s a = Some g" "a \<noteq> NULL" "heap_ok s"
  shows "\<exists>t. store_seg a (\<lambda>g. g\<lparr>sg_next := x\<rparr>) s = Some t \<and> heap_ok t \<and> above s t \<and> same_segleters s t
    \<and> (\<forall>b. ss_segs s b \<noteq> None \<longrightarrow> ss_segs t b \<noteq> None) \<and> ss_brk t = ss_brk s \<and> ss_callocs t = ss_callocs s \<and> ss_fopens t = ss_fopens s"
  using assms by (auto simp: store_seg_def deref_def heap_ok_def above_def same_segleters_def)

definition file_calls :: "string list list \<Rightarrow> nat" where
  "file_calls css = sum_list (map (\<lambda>cmds. 1 + 2 * length cmds) css)"

lemma load_more_ok:
  assumes "list_all2 (\<lambda>n cmds. ram_file d n cmds s) ns css" "norm_path d = d" "heap_ok s" "grants_left (file_calls css) s"
    "ss_fopens s = replicate (length ns) True @ fs" "ss_segs s cur \<noteq> None" "cur \<noteq> NULL"
  shows "\<exists>t. load_more (d @ ''/'') ns cur s = Some t \<and> heap_ok t \<and> above s t \<and> same_segleters s t"
  using assms
proof (induction ns arbitrary: css cur s)
  case Nil
  then show ?case by (simp add: above_refl same_segleters_def)
next
  case (Cons n ns)
  obtain cmds cs where css: "css = cmds # cs" "ram_file d n cmds s" "list_all2 (\<lambda>n cmds. ram_file d n cmds s) ns cs"
    using Cons.prems(1) by (auto simp: list_all2_Cons1)
  have ram: "has_ram n" using css(2) has_ram_name by (auto simp: ram_file_def)
  have g: "grants_left (1 + 2 * length cmds + file_calls cs) s" using Cons.prems(4) by (simp add: css(1) file_calls_def)
  have fo: "ss_fopens s = True # (replicate (length ns) True @ fs)" using Cons.prems(5) by simp
  from readFile_ok [OF css(2) Cons.prems(2,3) g fo] obtain seg u where u: "readFile (d @ ''/'') n s = Some (seg, u)" "heap_ok u"
    "grants_left (file_calls cs) u" "above s u" "loaded seg cmds u" "ss_fopens u = replicate (length ns) True @ fs"
    "\<forall>a < ss_brk s. ss_segs u a = ss_segs s a" by blast
  have cur: "cur < ss_brk s" using Cons.prems(6) heap_ok_below(1) [OF Cons.prems(3)] by blast
  then obtain gc where gc: "ss_segs u cur = Some gc" using u(7) Cons.prems(6) by auto
  from store_seg_next [OF gc Cons.prems(7) u(2)] obtain v where v: "store_seg cur (\<lambda>g. g\<lparr>sg_next := seg\<rparr>) u = Some v" "heap_ok v"
    "above u v" "same_segleters u v" "\<forall>b. ss_segs u b \<noteq> None \<longrightarrow> ss_segs v b \<noteq> None" "ss_brk v = ss_brk u"
    "ss_callocs v = ss_callocs u" "ss_fopens v = ss_fopens u" by blast
  have sg: "seg \<noteq> NULL" "ss_segs u seg \<noteq> None" using u(5) by (auto simp: loaded_def)
  obtain gs where gs: "ss_segs v seg = Some gs" using v(5) sg(2) by blast
  from store_seg_next [OF gs sg(1) v(2)] obtain w where w: "store_seg seg (\<lambda>g. g\<lparr>sg_next := NULL\<rparr>) v = Some w" "heap_ok w"
    "above v w" "same_segleters v w" "\<forall>b. ss_segs v b \<noteq> None \<longrightarrow> ss_segs w b \<noteq> None" "ss_brk w = ss_brk v"
    "ss_callocs w = ss_callocs v" "ss_fopens w = ss_fopens v" by blast
  have sw: "above s w" using above_trans [OF above_trans [OF u(4) v(3)] w(3)] .
  have "list_all2 (\<lambda>n cmds. ram_file d n cmds w) ns cs"
    using css(3) by (rule list_all2_mono) (rule ram_file_above [OF _ sw])
  moreover have "grants_left (file_calls cs) w" using u(3) v(7) w(7) by (simp add: grants_left_def)
  moreover have "ss_fopens w = replicate (length ns) True @ fs" using u(6) v(8) w(8) by simp
  moreover have "ss_segs w seg \<noteq> None" using gs w(5) by blast
  ultimately obtain t where t: "load_more (d @ ''/'') ns seg w = Some t" "heap_ok t" "above w t" "same_segleters w t"
    using Cons.IH [OF _ Cons.prems(2) w(2) _ _ _ sg(1)] by blast
  have "same_segleters s t"
    using t(4) w(4,6) v(4,6) u(4,7) unfolding same_segleters_def above_def by auto
  moreover have "load_more (d @ ''/'') (n # ns) cur s = Some t" using ram u(1) v(1) w(1) t(1) by simp
  ultimately show ?case using t(2) above_trans [OF sw t(3)] by blast
qed

lemma lets_string_ok:
  "lets_at s p ts \<Longrightarrow> length str + length (concat (map (snd \<circ> snd) ts)) < n \<Longrightarrow>
     lets_string n p str s = Some (str @ concat (map (snd \<circ> snd) ts))"
proof (induction ts arbitrary: p str)
  case Nil
  then show ?case by (simp add: lets_string.simps)
next
  case (Cons q ts)
  obtain x ob c where q: "q = (x, ob, c)" by (cases q)
  show ?case using Cons by (subst lets_string.simps) (auto simp: q deref_def o_def)
qed

text \<open>
  What is sent for a failed primary: the commands of one file of its directory, the first that
  \<open>readdir\<close> delivers. The segments of the other files are loaded, but \<open>segmentToString\<close> does not follow
  the list of segments.
\<close>

lemma recovers_first_file:
  assumes H: "heap_ok s" and d: "norm_path (ss_cwd s @ ''/backup/'' @ p) = ss_cwd s @ ''/backup/'' @ p"
    "ss_cwd s @ ''/backup/'' @ p \<in> set (ss_dirs s)" "length (ss_cwd s) + length p + 9 < DIR_SIZE"
    and ls: "ls (map (fst \<circ> snd) (filter (\<lambda>(d, _). d = ss_cwd s @ ''/backup/'' @ p) (ss_files s))) = n # ns"
    and F: "list_all2 (\<lambda>n cmds. ram_file (ss_cwd s @ ''/backup/'' @ p) n cmds s) (n # ns) (cmds # css)"
    and g: "grants_left (file_calls (cmds # css)) s" "ss_fopens s = replicate (length (n # ns)) True @ fs"
    and room: "length (concat cmds) < cap"
  shows "\<exists>seg t. loadToMem ls p s = Some (seg, t) \<and> segmentToString cap seg [] t = Some (concat cmds)"
proof -
  let ?d = "ss_cwd s @ ''/backup/'' @ p"
  have f: "ram_file ?d n cmds s" "list_all2 (\<lambda>n cmds. ram_file ?d n cmds s) ns css" using F by simp_all
  have ram: "has_ram n" using f(1) has_ram_name by (auto simp: ram_file_def)
  have "grants_left (1 + 2 * length cmds + file_calls css) s" "ss_fopens s = True # (replicate (length ns) True @ fs)"
    using g by (simp_all add: file_calls_def)
  from readFile_ok [OF f(1) d(1) H this] obtain seg u where u: "readFile (?d @ ''/'') n s = Some (seg, u)" "heap_ok u"
    "grants_left (file_calls css) u" "above s u" "loaded seg cmds u" "ss_fopens u = replicate (length ns) True @ fs" by blast
  have sg: "ss_segs u seg \<noteq> None" "seg \<noteq> NULL" using u(5) by (auto simp: loaded_def)
  have "list_all2 (\<lambda>n cmds. ram_file ?d n cmds u) ns css"
    using f(2) by (rule list_all2_mono) (rule ram_file_above [OF _ u(4)])
  from load_more_ok [OF this d(1) u(2,3,6) sg] obtain t where t: "load_more (?d @ ''/'') ns seg u = Some t" "above u t"
    "same_segleters u t" by blast
  have "loadToMem ls p s = Some (seg, t)"
    using d ls ram u(1) t(1) norm_path_slash [of ?d]
    by (simp add: loadToMem_def getcwd_def Let_def)
  moreover have "loaded seg cmds t" by (rule loaded_keeps [OF u(5,2) t(2,3)])
  then have "segmentToString cap seg [] t = Some (concat cmds)"
    using lets_string_ok [of t _ _ "[]" cap] room by (auto simp: loaded_def segmentToString_def deref_def)
  ultimately show ?thesis by blast
qed


section \<open>Properties\<close>

lemma backup_holds_cong: "backup_holds b (s\<lparr>ss_callocs := gs, ss_fopens := fs, ss_mkdirs := ms\<rparr>) \<longleftrightarrow> backup_holds b s"
proof -
  let ?t = "s\<lparr>ss_callocs := gs, ss_fopens := fs, ss_mkdirs := ms\<rparr>"
  have "lets_at ?t p ts \<longleftrightarrow> lets_at s p ts" for p ts by (rule lets_at_cong) simp
  then show ?thesis by (simp add: backup_holds_def heap_ok_def seg_holds_def split: option.splits)
qed

text \<open>The message of a primary for one item.\<close>

definition item_message :: "object_t \<Rightarrow> string \<times> nat \<Rightarrow> string" where
  "item_message ob a = ob_command ob @ fst a @ '':'' @ dec (snd a) @ crlf"

definition message_ok :: "string \<Rightarrow> string \<Rightarrow> string \<times> nat \<Rightarrow> object_t \<Rightarrow> bool" where
  "message_ok key value a ob \<longleftrightarrow> CHR 0x0A \<notin> set (key @ value) \<and> CHR 0x00 \<notin> set (key @ value)
     \<and> setCommandServer key (value @ crlf) (int (length value)) = Some ob
     \<and> set (fst a) \<inter> {CHR 0x0A, CHR '':'', CHR 0x00} = {} \<and> length (fst a) < 16 \<and> int_range (int (snd a))
     \<and> length (item_message ob a) < COMMAND_SIZE"

text \<open>The disk is needed only when the commands do not fit.\<close>

definition disk_ready_for :: "string \<times> int \<Rightarrow> string list \<Rightarrow> seg_state \<Rightarrow> bool" where
  "disk_ready_for a cmds s \<longleftrightarrow> (room_left cmds < 0 \<longrightarrow> disk_ready (length cmds) a s)"

lemma message_stored:
  assumes M: "message_ok key value a ob" and B: "backup_holds b s" and g: "ss_callocs s = True # True # True # gs"
    and D: "disk_ready_for (fst a, int (snd a)) (held_after (fst a, int (snd a)) (ob_command ob) b) s"
  shows "\<exists>t. appendToSegment (item_message ob a) s = Some t
    \<and> settled (fst a, int (snd a)) (held_after (fst a, int (snd a)) (ob_command ob) b) s t"
proof -
  let ?l1 = "''set '' @ key @ '' 0 0 '' @ dec (length value) @ [CHR 0x0D]" and ?l2 = "value @ [CHR 0x0D]"
  have dig: "CHR 0x0A \<notin> set (dec (length value))" "CHR 0x00 \<notin> set (dec (length value))"
    using isdigit_dec [of "CHR 0x0A"] isdigit_dec [of "CHR 0x00"] by (auto simp: isdigit_def)
  have ob: "ob_command ob = ?l1 @ CHR 0x0A # ?l2 @ [CHR 0x0A]"
    using M by (auto simp: message_ok_def setCommandServer_def dec_int_def crlf_def Let_def split: if_splits)
  have "appendToSegment (?l1 @ CHR 0x0A # ?l2 @ CHR 0x0A # fst a @ CHR '':'' # dec (snd a) @ crlf) s
      = store_command True (fst a) (int (snd a)) (?l1 @ CHR 0x0A # ?l2 @ [CHR 0x0A]) s"
    using M dig unfolding message_ok_def item_message_def ob
    by (intro appendToSegment_message) (auto simp: crlf_def is_eol_def)
  then have "appendToSegment (item_message ob a) s = store_command True (fst a) (int (snd a)) (ob_command ob) s"
    by (simp add: item_message_def ob)
  moreover have "length (ob_command ob) < COMMAND_SIZE" "length (fst a) < 20"
    using M by (simp_all add: message_ok_def item_message_def)
  ultimately show ?thesis
    using store_command_ok [OF B g, of "ob_command ob" "(fst a, int (snd a))"] D by (simp add: disk_ready_for_def)
qed

text \<open>
  Property C12.
  A backup refines the abstract one: the message of a primary for an item whose key and value have
  no line feed and no null character is taken apart into exactly the command that the primary built,
  which is stored behind those held for this primary. They stay in memory, or, when they no longer
  fit the segment, they are written to one file and memory is left empty. Whatever was held for
  another primary is dropped without being written.
\<close>

theorem backup_refines:
  assumes "message_ok key value a ob" and "backup_holds b s" and "ss_callocs s = True # True # True # gs"
    and "disk_ready_for (fst a, int (snd a)) (held_after (fst a, int (snd a)) (ob_command ob) b) s"
  shows "\<exists>t. appendToSegment (item_message ob a) s = Some t
    \<and> settled (fst a, int (snd a)) (held_after (fst a, int (snd a)) (ob_command ob) b) s t"
  by (rule message_stored [OF assms])

definition seg_boot :: seg_state where
  "seg_boot = \<lparr>ss_segs = Map.empty, ss_lets = Map.empty, ss_objs = Map.empty, ss_brk = 1, ss_callocs = [True, True, True],
     mg_used = False, mg_segment = NULL, ss_time = 1000, ss_cwd = ''/srv'', ss_dirs = [''/srv''], ss_files = [],
     ss_mkdirs = [True, True], ss_fopens = [True]\<rparr>"

lemma seg_boot_holds: "backup_holds None seg_boot"
  by (simp add: backup_holds_def heap_ok_def seg_boot_def)

definition boot_object :: object_t where
  "boot_object = init_object\<lparr>ob_command := ''set k 0 0 '' @ dec 3 @ crlf @ ''fei'' @ crlf\<rparr>"

lemma boot_message: "message_ok ''k'' ''fei'' (''10.0.0.7'', 11111) boot_object"
proof -
  have "length (dec 3) \<le> 1" "length (dec 11111) \<le> 5"
    using dec_length_le [of 3 0] dec_length_le [of 11111 4] by simp_all
  then show ?thesis
    by (simp add: message_ok_def setCommandServer_def boot_object_def crlf_def dec_int_def COMMAND_SIZE_def int_range_def
        item_message_def)
qed

theorem backup_refines_witness:
  "\<exists>t. appendToSegment (item_message boot_object (''10.0.0.7'', 11111)) seg_boot = Some t
    \<and> backup_holds (Some ((''10.0.0.7'', 11111), [ob_command boot_object])) t"
proof -
  have g: "ss_callocs seg_boot = True # True # True # []" by (simp add: seg_boot_def)
  have r: "0 \<le> room_left [ob_command boot_object]"
    using boot_message by (simp add: room_left_def MAX_SEGMENT_CAPACITY_def message_ok_def item_message_def COMMAND_SIZE_def)
  have "disk_ready_for (''10.0.0.7'', 11111) (held_after (''10.0.0.7'', 11111) (ob_command boot_object) None) seg_boot"
    using r by (simp add: disk_ready_for_def held_after_def)
  then show ?thesis
    using backup_refines [OF boot_message seg_boot_holds g] r by (auto simp: settled_def held_after_def)
qed

lemma find_append_None: "find P xs = None \<Longrightarrow> find P (xs @ ys) = find P ys"
  by (induction xs) (auto split: if_splits)

text \<open>The only file of a new directory.\<close>

lemma put_file_new:
  assumes "\<forall>f\<in>set fs. fst f \<noteq> d"
  shows "filter (\<lambda>(d', _). d' = d) (put_file d n bs fs) = [(d, n, bs)]"
    "find (\<lambda>(d', n', _). d' = d \<and> n' = n) (put_file d n bs fs) = Some (d, n, bs)"
proof -
  have e: "filter (\<lambda>(d', n', _). \<not> (d' = d \<and> n' = n)) fs = fs"
    "filter (\<lambda>(d', _). d' = d) fs = []" "find (\<lambda>(d', n', _). d' = d \<and> n' = n) fs = None"
    using assms by (auto simp: filter_id_conv filter_empty_conv find_None_iff)
  then show "filter (\<lambda>(d', _). d' = d) (put_file d n bs fs) = [(d, n, bs)]"
    "find (\<lambda>(d', n', _). d' = d \<and> n' = n) (put_file d n bs fs) = Some (d, n, bs)"
    by (simp_all add: put_file_def find_append_None)
qed

text \<open>
  Property C13.
  Nothing is lost on the way to the disk and back: after the message that fills the segment of a
  primary, loading its directory gives a string of exactly the commands that were held and the new
  one, in the order in which they came, which is what the recovering node is sent. The directory held
  no file before; \<open>readdir\<close> gives every name once.
\<close>

theorem full_segment_recovered:
  assumes M: "message_ok key value a ob" and B: "backup_holds b s" and g: "ss_callocs s = True # True # True # gs"
    and full: "room_left cmds < 0" and cmds: "cmds = held_after (fst a, int (snd a)) (ob_command ob) b"
    and D: "disk_ready (length cmds) (fst a, int (snd a)) s" "\<forall>f\<in>set (ss_files s). fst f \<noteq> backup_dir (fst a, int (snd a)) s"
    and ls: "\<forall>xs. mset (ls xs) = mset xs" and room: "length (concat cmds) < cap" "int_range (int (length cmds))"
    and name: "length (backup_dir (fst a, int (snd a)) s) + 33 < DIR_SIZE"
  shows "\<exists>t. appendToSegment (item_message ob a) s = Some t \<and> (\<exists>seg u.
      loadToMem ls (dir_name (fst a) (int (snd a))) (t\<lparr>ss_callocs := replicate (file_calls [cmds]) True, ss_fopens := [True]\<rparr>)
        = Some (seg, u) \<and> segmentToString cap seg [] u = Some (concat cmds))"
proof -
  let ?a = "(fst a, int (snd a))"
  let ?d = "backup_dir ?a s" and ?n = "file_name (int (length cmds)) (ss_time s)"
  have "disk_ready_for ?a (held_after ?a (ob_command ob) b) s" using D(1) cmds by (simp add: disk_ready_for_def)
  from message_stored [OF M B g this] full cmds obtain t bs where t: "appendToSegment (item_message ob a) s = Some t"
    "backup_holds None t" "?d \<in> set (ss_dirs t)" "ss_cwd t = ss_cwd s" "segment_file ?a cmds bs"
    "ss_files t = put_file ?d ?n bs (ss_files s)" by (auto simp: settled_def)
  let ?t = "t\<lparr>ss_callocs := replicate (file_calls [cmds]) True, ss_fopens := [True]\<rparr>"
  have files: "filter (\<lambda>(d, _). d = ?d) (ss_files ?t) = [(?d, ?n, bs)]" "find_file ?d ?n ?t = Some bs"
    using put_file_new [OF D(2)] t(6) by (simp_all add: find_file_def)
  have "length ?n < 32" using D(1) by (simp add: disk_ready_def)
  then have F: "ram_file ?d ?n cmds ?t"
    using files(2) t(5) room(2) name unfolding ram_file_def by auto
  have cw: "ss_cwd ?t @ ''/backup/'' @ dir_name (fst a) (int (snd a)) = ?d" using t(4) by (simp add: backup_dir_def)
  have H: "heap_ok ?t" using t(2) by (simp add: backup_holds_def heap_ok_def)
  have len: "length (ss_cwd ?t) + length (dir_name (fst a) (int (snd a))) + 9 < DIR_SIZE"
    using name t(4) by (simp add: backup_dir_def)
  have l1: "ls (map (fst \<circ> snd) (filter (\<lambda>(d, _). d = ?d) (ss_files ?t))) = [?n]"
  proof -
    have "mset (ls [?n]) = {#?n#}" using ls by simp
    then show ?thesis unfolding files(1) by (simp add: mset_single_iff)
  qed
  have "\<exists>seg u. loadToMem ls (dir_name (fst a) (int (snd a))) ?t = Some (seg, u) \<and> segmentToString cap seg [] u = Some (concat cmds)"
  proof (rule recovers_first_file [where s = ?t and p = "dir_name (fst a) (int (snd a))" and n = ?n and ns = "[]"
        and css = "[]" and fs = "[]", unfolded cw])
    show "?d \<in> set (ss_dirs ?t)" using t(3) by simp
    show "list_all2 (\<lambda>n cmds. ram_file ?d n cmds ?t) [?n] [cmds]" using F by simp
    show "grants_left (file_calls [cmds]) ?t" by (simp add: grants_left_def)
  qed (use l1 len room(1) H norm_backup_dir in simp_all)
  then show ?thesis using t(1) by blast
qed

text \<open>A segment filled with one command after the other.\<close>

lemma filled:
  assumes "length c < COMMAND_SIZE" "length (fst a) < 20"
  shows "\<exists>s. backup_holds (Some (a, replicate (Suc n) c)) s \<and> same_disk seg_boot s"
proof (induction n)
  case 0
  have "ss_callocs seg_boot = True # True # True # []" by (simp add: seg_boot_def)
  from place_command_ok [OF seg_boot_holds this assms] show ?case
    by (auto simp: backup_holds_def held_after_def)
next
  case (Suc n)
  then obtain s where s: "backup_holds (Some (a, replicate (Suc n) c)) s" "same_disk seg_boot s" by blast
  let ?s = "s\<lparr>ss_callocs := [True, True, True], ss_fopens := ss_fopens s, ss_mkdirs := ss_mkdirs s\<rparr>"
  have "backup_holds (Some (a, replicate (Suc n) c)) ?s" using s(1) unfolding backup_holds_cong .
  from place_command_ok [OF this _ assms, of "[]"] obtain t ts where t: "heap_ok t" "mg_used t"
    "seg_holds (mg_segment t) a (replicate (Suc n) c @ [c]) ts t" "same_disk ?s t" by (auto simp: held_after_def)
  have "replicate (Suc n) c @ [c] = replicate (Suc (Suc n)) c" by (simp add: replicate_append_same)
  then show ?case using t s(2) by (auto simp: backup_holds_def same_disk_def)
qed

theorem full_segment_recovered_witness:
  "\<exists>n s t gs seg u. appendToSegment (item_message boot_object (''10.0.0.7'', 11111)) s = Some t
    \<and> loadToMem rev (dir_name ''10.0.0.7'' 11111) (t\<lparr>ss_callocs := gs, ss_fopens := [True]\<rparr>) = Some (seg, u)
    \<and> segmentToString (n * 2048 + 1) seg [] u = Some (concat (replicate n (ob_command boot_object)))"
proof -
  let ?c = "ob_command boot_object" and ?a = "(''10.0.0.7'', 11111 :: nat)" and ?b = "(''10.0.0.7'', 11111 :: int)"
  have c: "length ?c < COMMAND_SIZE" using boot_message by (simp add: message_ok_def item_message_def)
  have c0: "0 < length ?c" by (simp add: boot_object_def)
  define n where "n = 1048576 div length ?c"
  let ?cmds = "replicate (Suc n) ?c"
  have n: "1048576 < Suc n * length ?c" "n \<le> 1048576" "0 < n"
    using c0 c dividend_less_div_times [OF c0, of 1048576]
    by (simp_all add: n_def COMMAND_SIZE_def div_greater_zero_iff)
  obtain s where s: "backup_holds (Some (?b, replicate n ?c)) s" "same_disk seg_boot s"
    using filled [OF c, of ?b "n - 1"] n(3) by auto
  let ?s = "s\<lparr>ss_callocs := [True, True, True], ss_fopens := ss_fopens s, ss_mkdirs := ss_mkdirs s\<rparr>"
  have B: "backup_holds (Some (?b, replicate n ?c)) ?s" using s(1) unfolding backup_holds_cong .
  have held: "?cmds = held_after ?b ?c (Some (?b, replicate n ?c))"
    by (simp add: held_after_def replicate_append_same)
  have full: "room_left ?cmds < 0" 
  proof -
    have "int 1048576 < int (Suc n * length ?c)" using n(1) by (simp only: of_nat_less_iff)
    then show ?thesis by (simp add: room_left_def MAX_SEGMENT_CAPACITY_def sum_list_replicate)
  qed
  have disk: "ss_cwd ?s = ''/srv''" "ss_dirs ?s = [''/srv'']" "ss_files ?s = []" "ss_mkdirs ?s = [True, True]"
    "ss_fopens ?s = [True]" "ss_time ?s = 1000" using s(2) by (simp_all add: same_disk_def seg_boot_def)
  have dig: "length (dec 11111) \<le> 5" "length (dec 1000) \<le> 4" "length (dec (Suc n)) \<le> 7"
    using dec_length_le [of 11111 4] dec_length_le [of 1000 3] dec_length_le [of "Suc n" 6] n(2) by simp_all
  have bd: "backup_dir ?b ?s = ''/srv/backup/10.0.0.7.'' @ dec 11111"
    unfolding backup_dir_def dir_name_def disk(1) by (simp add: dec_int_def)
  have ready: "disk_ready (length ?cmds) ?b ?s"
    using dig disk unfolding disk_ready_def bd
    by (simp add: DIR_SIZE_def dir_name_def file_name_def dec_int_def norm_path_def nat_add_distrib)
  have len: "length (concat ?cmds) < Suc n * 2048 + 1"
  proof -
    have "length (concat ?cmds) = Suc n * length ?c" by (simp add: length_concat sum_list_replicate del: replicate.simps)
    also have "\<dots> \<le> Suc n * 2048" using c by (intro mult_le_mono) (simp_all add: COMMAND_SIZE_def)
    finally show ?thesis by simp
  qed
  have "\<exists>t. appendToSegment (item_message boot_object ?a) ?s = Some t \<and> (\<exists>seg u.
      loadToMem rev (dir_name (fst ?a) (int (snd ?a))) (t\<lparr>ss_callocs := replicate (file_calls [?cmds]) True, ss_fopens := [True]\<rparr>)
        = Some (seg, u) \<and> segmentToString (Suc n * 2048 + 1) seg [] u = Some (concat ?cmds))"
  proof (rule full_segment_recovered [OF boot_message B, where gs = "[]"])
    show "?cmds = held_after (fst ?a, int (snd ?a)) ?c (Some (?b, replicate n ?c))" using held by simp
    show "int_range (int (length ?cmds))" using n(2) by (simp add: int_range_def)
    show "length (backup_dir (fst ?a, int (snd ?a)) ?s) + 33 < DIR_SIZE" using bd dig by (simp add: DIR_SIZE_def)
    show "disk_ready (length ?cmds) (fst ?a, int (snd ?a)) ?s" using ready by simp
  qed (use full disk len in \<open>simp_all del: replicate.simps\<close>)
  then show ?thesis unfolding fst_conv snd_conv of_nat_numeral by blast
qed


end
