(* ===== verification/Cluster.thy ===== *)
theory Cluster
  imports Machine Segments
begin

text \<open>
  The RAMCube additions (\<open>ramcube.c\<close>): the neighbours of a node and its connections to them, the
  commands that nodes send each other, the copying of every stored item to a backup, the heartbeats
  and the recovery of a failed primary. Names are resolved by \<open>dns\<close>, a parameter that stands for
  \<open>gethostbyname\<close>; the buffers of libevent are strings; messages printed for the user are left out.
\<close>

section \<open>Addresses\<close>

text \<open>\<open>sin_addr\<close> and \<open>sin_port\<close> are the numbers in memory, the first byte of the wire lowest.\<close>

record sockaddr_in =
  sin_addr :: u32
  sin_port :: u16

definition zero_sin :: sockaddr_in where
  "zero_sin = \<lparr>sin_addr = 0, sin_port = 0\<rparr>"

definition htons :: "u16 \<Rightarrow> u16" where
  "htons w = push_bit 8 w OR drop_bit 8 w"

definition ntohs :: "u16 \<Rightarrow> u16" where
  "ntohs w = htons w"

definition octet :: "nat \<Rightarrow> u32 \<Rightarrow> nat" where
  "octet i w = unat (take_bit 8 (drop_bit (8 * i) w))"

definition inet_ntoa :: "u32 \<Rightarrow> string" where
  "inet_ntoa a = dec (octet 0 a) @ ''.'' @ dec (octet 1 a) @ ''.'' @ dec (octet 2 a) @ ''.'' @ dec (octet 3 a)"

text \<open>
  \<open>inet_aton\<close> of the C library: up to four numbers, decimal, octal or hexadecimal, of which the last
  fills the bytes that are left.
\<close>

definition xdigit_val :: "char \<Rightarrow> nat" where
  "xdigit_val c = (let n = of_char c in if 48 \<le> n \<and> n \<le> 57 then n - 48 else if 97 \<le> n \<and> n \<le> 102 then n - 87
     else if 65 \<le> n \<and> n \<le> 70 then n - 55 else 16)"

fun scan_base :: "nat \<Rightarrow> nat \<Rightarrow> string \<Rightarrow> nat \<times> string" where
  "scan_base b n [] = (n, [])"
| "scan_base b n (c # cs) = (if xdigit_val c < b then scan_base b (n * b + xdigit_val c) cs else (n, c # cs))"

definition c_number :: "string \<Rightarrow> nat \<times> string" where
  "c_number str = (case str of
     c # x # d # cs \<Rightarrow>
       if c = CHR ''0'' \<and> (x = CHR ''x'' \<or> x = CHR ''X'') \<and> xdigit_val d < 16 then scan_base 16 0 (d # cs)
       else scan_base (if c = CHR ''0'' then 8 else 10) 0 str
   | _ \<Rightarrow> scan_base (if take 1 str = ''0'' then 8 else 10) 0 str)"

fun aton_parts :: "nat \<Rightarrow> string \<Rightarrow> nat list option" where
  "aton_parts 0 str = None"
| "aton_parts (Suc k) str = (if str = [] \<or> \<not> isdigit (hd str) then None
     else case c_number str of (n, rest) \<Rightarrow>
       if rest \<noteq> [] \<and> hd rest = CHR ''.''
       then (if n \<le> 255 then map_option (Cons n) (aton_parts k (tl rest)) else None)
       else if rest = [] \<or> isspace (hd rest) then Some [n] else None)"

definition swap32 :: "u32 \<Rightarrow> u32" where
  "swap32 w = of_nat (octet 0 w * 2 ^ 24 + octet 1 w * 2 ^ 16 + octet 2 w * 2 ^ 8 + octet 3 w)"

definition inet_aton :: "string \<Rightarrow> u32 option" where
  "inet_aton str = (case aton_parts 4 str of None \<Rightarrow> None
     | Some ps \<Rightarrow> let k = length ps - 1; m = 256 ^ (4 - k) in
         if last ps < m
         then Some (swap32 (of_nat (foldl (\<lambda>v p. v * 256 + p) 0 (butlast ps) * m + last ps)))
         else None)"

text \<open>\<open>INADDR_NONE\<close> when the name is no address.\<close>

definition inet_addr :: "string \<Rightarrow> u32" where
  "inet_addr str = (case inet_aton str of None \<Rightarrow> - 1 | Some a \<Rightarrow> a)"

text \<open>Addresses are compared as signed numbers with the bytes in the order of memory.\<close>

definition inet_addr_compare :: "string \<Rightarrow> int \<Rightarrow> string \<Rightarrow> int \<Rightarrow> int" where
  "inet_addr_compare addr1 port1 addr2 port2 = (let
     a1 = sint (case inet_aton addr1 of None \<Rightarrow> 0 | Some a \<Rightarrow> a);
     a2 = sint (case inet_aton addr2 of None \<Rightarrow> 0 | Some a \<Rightarrow> a) in
   if a1 < a2 then -1 else if a2 < a1 then 1
   else if port1 < port2 then -1 else if port2 < port1 then 1 else 0)"

text \<open>
  A name is \<open>host#port\<close>. \<open>strtok\<close> leaves the number signs at the beginning alone and ends the host at the
  next one; when there is none, what is read as the port lies behind the string.
\<close>

definition isalpha :: "char \<Rightarrow> bool" where
  "isalpha c \<longleftrightarrow> (let n = of_char c :: nat in 65 \<le> n \<and> n \<le> 90 \<or> 97 \<le> n \<and> n \<le> 122)"

definition set_sin_by_name :: "(string \<Rightarrow> u32 option) \<Rightarrow> string \<Rightarrow> sockaddr_in option" where
  "set_sin_by_name dns name = (let hashes = takeWhile (\<lambda>c. c = CHR ''#'') name; r = drop (length hashes) name;
     w = takeWhile (\<lambda>c. c \<noteq> CHR ''#'') r; host = hashes @ w; iport = ucast (atoi (drop (length w + 1) r)) :: u16 in
   if w = r then None
   else if isalpha (hd host) then map_option (\<lambda>a. \<lparr>sin_addr = a, sin_port = htons iport\<rparr>) (dns host)
   else Some \<lparr>sin_addr = inet_addr host, sin_port = htons iport\<rparr>)"

section \<open>Proxies\<close>

datatype proxy_type =
  PROXY_TYPE_DATA_SERVER | PROXY_TYPE_PING_CLIENT | PROXY_TYPE_PING_SERVER | PROXY_TYPE_BACKUP_CLIENT
| PROXY_TYPE_BACKUP_SERVER | PROXY_TYPE_RECOVERY_CLIENT | PROXY_TYPE_RECOVERY_SERVER
| PROXY_TYPE_COORDINATOR_SERVER | PROXY_TYPE_COORDINATOR_CLIENT | PROXY_TYPE_UNKNOWN

text \<open>The timer of a proxy: its callback once it is set, and whether it is pending.\<close>

datatype timer_cb = HB_cb_timer | recovery_cb_timer

text \<open>
  \<open>px_out\<close> is the output buffer, which only proxies for connections of our own have; \<open>px_in\<close> the input
  buffer. A connection is known by its address.
\<close>

record conn_proxy =
  px_data_conn_ptr :: u64
  px_peerSin :: sockaddr_in
  px_type :: proxy_type
  px_in :: string
  px_out :: "string option"
  px_connection :: addr
  px_evt :: "timer_cb option"
  px_pending :: bool
  px_sendInfo :: string
  px_outTimes :: int

definition zero_proxy :: conn_proxy where
  "zero_proxy = \<lparr>px_data_conn_ptr = 0, px_peerSin = zero_sin, px_type = PROXY_TYPE_DATA_SERVER, px_in = [],
     px_out = None, px_connection = NULL, px_evt = None, px_pending = False, px_sendInfo = [], px_outTimes = 0\<rparr>"

record broken_master =
  b_master_ip :: string
  b_master_port :: int
  b_backup_ip :: string
  b_backup_port :: int
  b_recovery_ip :: string
  b_recovery_port :: int
  b_used :: bool

record heartbeat_info =
  hb_ip :: string
  hb_port :: int
  hb_MaxTimes :: int
  hb_used :: bool

record ramcube_config =
  cf_me :: sockaddr_in
  cf_myAddr :: string
  cf_myPort :: int
  cf_nRecoveriesPerBackup :: u32
  cf_resultFileName :: string

definition MAX_NEIGHBORS :: nat where "MAX_NEIGHBORS = 128"
definition MAX_PRIMARY :: nat where "MAX_PRIMARY = 5"
definition MAX_MSG_BUFFER :: nat where "MAX_MSG_BUFFER = 3"
definition MAX_COMM_LINE :: nat where "MAX_COMM_LINE = 100"

text \<open>
  The node: the server with the connection being served, \<open>cur_conn\<close> its address and \<open>conns\<close> the others;
  the tables of \<open>ramcube.c\<close>, where a null address ends the used part of an array and the addresses of
  peers are indices into \<open>neighbors\<close>; the proxies; the backup memory. \<open>px_callocs\<close> and \<open>connects\<close> are the
  answers of the coming calls of \<open>calloc\<close> and \<open>bufferevent_socket_connect\<close>. \<open>slack\<close> is what lies in a
  chunk behind the value of its item, and \<open>key_gap\<close> the byte between its key and its suffix, which \<open>do_item_alloc\<close>
  leaves as it was.
\<close>

record cluster = machine +
  rc_config :: ramcube_config
  localname :: string
  neighbors :: "(sockaddr_in \<times> bool) list"
  vpBackupSins :: "nat option list"
  vpPingSins :: "nat option list"
  vpCoordinatorSins :: "nat option list"
  vpBackupOut :: "addr list"
  vpPingOut :: "addr list"
  vpRecoveryOut :: "addr list"
  vpCoordinatorOut :: "addr list"
  vpBackupIn :: "addr list"
  vpPingIn :: "addr list"
  vpRecoveryIn :: "addr list"
  vpCoordinatorIn :: "addr list"
  proxies :: "addr \<rightharpoonup> conn_proxy"
  px_brk :: addr
  px_callocs :: "bool list"
  connects :: "bool list"
  cur_conn :: addr
  conns :: "addr \<rightharpoonup> conn"
  PrimaryTable :: "heartbeat_info list"
  bokenMasterTable :: "broken_master list"
  HeartBeat_initialized :: bool
  autoAddTimes_initialized :: bool
  backup_mem :: seg_state
  slack :: "addr \<Rightarrow> string"
  key_gap :: "addr \<Rightarrow> char"

definition get_proxy :: "addr \<Rightarrow> 'a cluster_scheme \<Rightarrow> conn_proxy option" where
  "get_proxy p s = deref (proxies s) p"

definition upd_proxy :: "addr \<Rightarrow> (conn_proxy \<Rightarrow> conn_proxy) \<Rightarrow> 'a cluster_scheme \<Rightarrow> 'a cluster_scheme option" where
  "upd_proxy p f s = map_option (\<lambda>x. s\<lparr>proxies := (proxies s)(p \<mapsto> f x)\<rparr>) (get_proxy p s)"

text \<open>\<open>calloc\<close> of a proxy, whose result is asserted.\<close>

definition new_proxy :: "'a cluster_scheme \<Rightarrow> (addr \<times> 'a cluster_scheme) option" where
  "new_proxy s = (case px_callocs s of True # gs \<Rightarrow>
       Some (px_brk s, s\<lparr>px_brk := px_brk s + 1, px_callocs := gs, proxies := (proxies s)(px_brk s \<mapsto> zero_proxy)\<rparr>)
     | _ \<Rightarrow> None)"

text \<open>\<open>evbuffer_add\<close> to the output buffer of a proxy.\<close>

definition evbuffer_add :: "addr \<Rightarrow> string \<Rightarrow> 'a cluster_scheme \<Rightarrow> 'a cluster_scheme option" where
  "evbuffer_add p bs s = do {
     x \<leftarrow> get_proxy p s;
     out \<leftarrow> px_out x;
     upd_proxy p (\<lambda>x. x\<lparr>px_out := Some (out @ bs)\<rparr>) s }"

text \<open>The first free place of a table; the index is not looked at when there is none.\<close>

fun push_back :: "'b \<Rightarrow> 'b \<Rightarrow> 'b list \<Rightarrow> 'b list option" where
  "push_back none x [] = None"
| "push_back none x (y # ys) = (if y = none then Some (x # ys) else map_option (Cons y) (push_back none x ys))"

definition push_back_sin :: "nat \<Rightarrow> nat option list \<Rightarrow> int \<times> nat option list" where
  "push_back_sin new sins = (case push_back None (Some new) sins of None \<Rightarrow> (-1, sins) | Some xs \<Rightarrow> (0, xs))"

definition push_back_proxy :: "addr \<Rightarrow> addr list \<Rightarrow> int \<times> addr list" where
  "push_back_proxy cp ps = (case push_back NULL cp ps of None \<Rightarrow> (-1, ps) | Some xs \<Rightarrow> (0, xs))"

fun alloc_sin :: "nat \<Rightarrow> (sockaddr_in \<times> bool) list \<Rightarrow> (nat \<times> (sockaddr_in \<times> bool) list) option" where
  "alloc_sin i [] = None"
| "alloc_sin i ((a, used) # ns) = (if \<not> used then Some (i, (a, True) # ns)
     else map_option (\<lambda>(j, ns). (j, (a, used) # ns)) (alloc_sin (i + 1) ns))"

definition alloc_sin_from_neighbors :: "'a cluster_scheme \<Rightarrow> (nat \<times> 'a cluster_scheme) option" where
  "alloc_sin_from_neighbors s = map_option (\<lambda>(i, ns). (i, s\<lparr>neighbors := ns\<rparr>)) (alloc_sin 0 (neighbors s))"
section \<open>Connections to the neighbours\<close>

text \<open>
  The timers. A timer is set with its callback and made pending; \<open>evtimer_del\<close> of one that was never
  set has no effect.
\<close>

definition set_timer :: "timer_cb \<Rightarrow> addr \<Rightarrow> 'a cluster_scheme \<Rightarrow> 'a cluster_scheme option" where
  "set_timer cb cp = upd_proxy cp (\<lambda>x. x\<lparr>px_evt := Some cb, px_pending := True\<rparr>)"

definition evtimer_del :: "addr \<Rightarrow> 'a cluster_scheme \<Rightarrow> 'a cluster_scheme option" where
  "evtimer_del cp = upd_proxy cp (\<lambda>x. x\<lparr>px_pending := False\<rparr>)"

definition HeartBeat :: "addr \<Rightarrow> 'a cluster_scheme \<Rightarrow> 'a cluster_scheme option" where
  "HeartBeat cp s = do {
     s \<leftarrow> (if HeartBeat_initialized s then evtimer_del cp s else Some (s\<lparr>HeartBeat_initialized := True\<rparr>));
     set_timer HB_cb_timer cp s }"

definition autoAddTimes :: "addr \<Rightarrow> 'a cluster_scheme \<Rightarrow> 'a cluster_scheme option" where
  "autoAddTimes cp s = do {
     s \<leftarrow> (if autoAddTimes_initialized s then evtimer_del cp s else Some (s\<lparr>autoAddTimes_initialized := True\<rparr>));
     set_timer recovery_cb_timer cp s }"

text \<open>The proxy of a connection of our own.\<close>

definition init_ConnProxy :: "proxy_type \<Rightarrow> sockaddr_in option \<Rightarrow> conn_proxy \<Rightarrow> conn_proxy" where
  "init_ConnProxy t pSin x = (let x = x\<lparr>px_in := [], px_out := Some [], px_type := t, px_outTimes := 0\<rparr> in
     case pSin of None \<Rightarrow> x | Some a \<Rightarrow> x\<lparr>px_peerSin := a\<rparr>)"

text \<open>The table and the name of the type of a client; the table is given by how it is read and replaced.\<close>

definition out_table :: "proxy_type \<Rightarrow> ('a cluster_scheme \<Rightarrow> addr list) option" where
  "out_table t = (if t = PROXY_TYPE_BACKUP_CLIENT then Some vpBackupOut else if t = PROXY_TYPE_PING_CLIENT then Some vpPingOut
     else if t = PROXY_TYPE_RECOVERY_CLIENT then Some vpRecoveryOut
     else if t = PROXY_TYPE_COORDINATOR_CLIENT then Some vpCoordinatorOut else None)"

definition put_out_table :: "proxy_type \<Rightarrow> addr list \<Rightarrow> 'a cluster_scheme \<Rightarrow> 'a cluster_scheme" where
  "put_out_table t ps s = (if t = PROXY_TYPE_BACKUP_CLIENT then s\<lparr>vpBackupOut := ps\<rparr>
     else if t = PROXY_TYPE_PING_CLIENT then s\<lparr>vpPingOut := ps\<rparr>
     else if t = PROXY_TYPE_RECOVERY_CLIENT then s\<lparr>vpRecoveryOut := ps\<rparr> else s\<lparr>vpCoordinatorOut := ps\<rparr>)"

definition type_text :: "proxy_type \<Rightarrow> string" where
  "type_text t = (if t = PROXY_TYPE_BACKUP_CLIENT then ''BACKUP'' else if t = PROXY_TYPE_PING_CLIENT then ''PING''
     else if t = PROXY_TYPE_RECOVERY_CLIENT then ''RECOVERY'' else ''COORDINATOR'')"

text \<open>The result is a null address when the type is none of a client or the connection fails at once.\<close>

definition connect_and_return_ConnProxy :: "sockaddr_in \<Rightarrow> proxy_type \<Rightarrow> 'a cluster_scheme \<Rightarrow> (addr \<times> 'a cluster_scheme) option" where
  "connect_and_return_ConnProxy pSin t s = (case out_table t of None \<Rightarrow> Some (NULL, s)
   | Some table \<Rightarrow> do {
       (cp, s) \<leftarrow> new_proxy s;
       case connects s of True # bs \<Rightarrow> do {
           let s = s\<lparr>connects := bs\<rparr>;
           s \<leftarrow> upd_proxy cp (init_ConnProxy t (Some pSin)) s;
           let (rtn, ps) = push_back_proxy cp (table s);
           if rtn \<noteq> 0 then None
           else do {
             s \<leftarrow> evbuffer_add cp (take 99 (''TYPE '' @ type_text t @ '' '' @ cf_myAddr (rc_config s) @ ''#''
                   @ dec_int (cf_myPort (rc_config s)) @ crlf)) (put_out_table t ps s);
             s \<leftarrow> (if localname s = ''primary'' \<and> t = PROXY_TYPE_PING_CLIENT then HeartBeat cp s else Some s);
             Some (cp, s) } }
       | bs \<Rightarrow> Some (NULL, s\<lparr>connects := tl bs\<rparr>) })"

text \<open>The string of an address and its port as numbers.\<close>

definition sin_name :: "sockaddr_in \<Rightarrow> string" where
  "sin_name a = inet_ntoa (sin_addr a)"

definition sin_portnum :: "sockaddr_in \<Rightarrow> int" where
  "sin_portnum a = int (unat (ntohs (sin_port a)))"

text \<open>A node connects to the peers whose address is smaller than its own.\<close>

fun connect_smaller :: "nat option list \<Rightarrow> proxy_type \<Rightarrow> 'a cluster_scheme \<Rightarrow> 'a cluster_scheme option" where
  "connect_smaller [] t s = Some s"
| "connect_smaller (None # sins) t s = Some s"
| "connect_smaller (Some i # sins) t s = do {
     let a = fst (neighbors s ! i);
     s \<leftarrow> (if 0 < inet_addr_compare (cf_myAddr (rc_config s)) (cf_myPort (rc_config s)) (sin_name a) (sin_portnum a)
          then map_option snd (connect_and_return_ConnProxy a t s) else Some s);
     connect_smaller sins t s }"

definition init_smaller_proxies :: "proxy_type \<Rightarrow> 'a cluster_scheme \<Rightarrow> (int \<times> 'a cluster_scheme) option" where
  "init_smaller_proxies t s = (
     if t = PROXY_TYPE_BACKUP_CLIENT then map_option (Pair 0) (connect_smaller (vpBackupSins s) t s)
     else if t = PROXY_TYPE_PING_CLIENT then map_option (Pair 0) (connect_smaller (vpPingSins s) t s)
     else if t = PROXY_TYPE_COORDINATOR_CLIENT then map_option (Pair 0) (connect_smaller (vpCoordinatorSins s) t s)
     else Some (-1, s))"

section \<open>The configuration file\<close>

text \<open>
  \<open>fscanf\<close> with \<open>%s\<close> takes the next word into an array of 100 characters. The file is the list of its
  words; \<open>%u\<close> takes a number from the beginning of the next one.
\<close>

definition config_word :: "string list \<Rightarrow> (string option \<times> string list) option" where
  "config_word ws = (case ws of [] \<Rightarrow> Some (None, [])
     | w # ws \<Rightarrow> if length w < 100 then Some (Some w, ws) else None)"

definition config_number :: "string list \<Rightarrow> u32 option \<times> string list" where
  "config_number ws = (case ws of [] \<Rightarrow> (None, [])
     | w # ws \<Rightarrow> (case scan_int w of None \<Rightarrow> (None, w # ws)
        | Some (neg, n, rest) \<Rightarrow> (Some (if neg then - of_nat n else of_nat n), if rest = [] then ws else rest # ws)))"

lemma config_number_shorter: "length (snd (config_number ws)) \<le> length ws"
  by (auto simp: config_number_def split: list.splits option.splits)

text \<open>A word that names a list of neighbours: the peer is entered into the list.\<close>

definition add_neighbor :: "(string \<Rightarrow> u32 option) \<Rightarrow> string option \<Rightarrow> string \<Rightarrow> 'a cluster_scheme \<Rightarrow> 'a cluster_scheme option" where
  "add_neighbor dns name kind s = do {
     (i, s) \<leftarrow> alloc_sin_from_neighbors s;
     nm \<leftarrow> name;
     a \<leftarrow> set_sin_by_name dns nm;
     let s = s\<lparr>neighbors := (neighbors s)[i := (a, True)]\<rparr>;
     Some (if kind = ''backups'' then s\<lparr>vpBackupSins := snd (push_back_sin i (vpBackupSins s))\<rparr>
           else if kind = ''pings'' then s\<lparr>vpPingSins := snd (push_back_sin i (vpPingSins s))\<rparr>
           else s\<lparr>vpCoordinatorSins := snd (push_back_sin i (vpCoordinatorSins s))\<rparr>) }"

definition config_option :: "(string \<Rightarrow> u32 option) \<Rightarrow> string \<Rightarrow> string list \<Rightarrow> 'a cluster_scheme
    \<Rightarrow> (string list \<times> 'a cluster_scheme) option" where
  "config_option dns w ws s = (
     if w = ''result_file'' then do {
       (name, ws) \<leftarrow> config_word ws;
       Some (ws, case name of None \<Rightarrow> s | Some n \<Rightarrow> s\<lparr>rc_config := (rc_config s)\<lparr>cf_resultFileName := n\<rparr>\<rparr>) }
     else if w = ''nRecoveriesPerBackup'' then (case config_number ws of (n, ws) \<Rightarrow>
       Some (ws, case n of None \<Rightarrow> s | Some n \<Rightarrow> s\<lparr>rc_config := (rc_config s)\<lparr>cf_nRecoveriesPerBackup := n\<rparr>\<rparr>))
     else if w \<in> {''me'', ''coordinator'', ''primary''} then do {
       (name, ws) \<leftarrow> config_word ws;
       nm \<leftarrow> name;
       a \<leftarrow> set_sin_by_name dns nm;
       Some (ws, s\<lparr>rc_config := (rc_config s)\<lparr>cf_me := a\<rparr>\<rparr>) }
     else if w \<in> {''backups'', ''pings'', ''coordinators''} then do {
       (name, ws) \<leftarrow> config_word ws;
       s \<leftarrow> add_neighbor dns name w s;
       Some (ws, s) }
     else Some (ws, s))"

lemma config_word_shorter: "config_word ws = Some (n, ws') \<Longrightarrow> length ws' \<le> length ws"
  by (cases ws) (auto simp: config_word_def split: if_splits)

lemma config_option_shorter:
  assumes "config_option dns w ws s = Some (ws', t)"
  shows "length ws' \<le> length ws"
proof -
  obtain c1 c2 c3 c4 where c: "(w = ''result_file'') = c1" "(w = ''nRecoveriesPerBackup'') = c2"
    "(w \<in> {''me'', ''coordinator'', ''primary''}) = c3" "(w \<in> {''backups'', ''pings'', ''coordinators''}) = c4" by blast
  show ?thesis using assms config_number_shorter [of ws] unfolding config_option_def c
    by (auto simp: bind_eq_Some_conv dest: config_word_shorter split: if_splits prod.splits)
qed

function config_loop :: "(string \<Rightarrow> u32 option) \<Rightarrow> string list \<Rightarrow> 'a cluster_scheme \<Rightarrow> 'a cluster_scheme option" where
  "config_loop dns [] s = Some s"
| "config_loop dns (w # ws) s = (if 100 \<le> length w then None
     else case config_option dns w ws s of None \<Rightarrow> None | Some (ws, s) \<Rightarrow> config_loop dns ws s)"
  by pat_completeness auto
termination
  by (relation "measure (\<lambda>(_, ws, _). length ws)") (auto simp: le_imp_less_Suc dest: config_option_shorter)

definition init_ramcube_config :: "(string \<Rightarrow> u32 option) \<Rightarrow> string list \<Rightarrow> 'a cluster_scheme \<Rightarrow> 'a cluster_scheme option" where
  "init_ramcube_config dns ws s = do {
     s \<leftarrow> config_loop dns ws (s\<lparr>rc_config := (rc_config s)\<lparr>cf_nRecoveriesPerBackup := 2,
       cf_resultFileName := ''result_default.txt''\<rparr>\<rparr>);
     Some (s\<lparr>rc_config := (rc_config s)\<lparr>cf_myAddr := sin_name (cf_me (rc_config s)),
       cf_myPort := sin_portnum (cf_me (rc_config s))\<rparr>\<rparr>) }"

text \<open>
  What the file says about the port and the kind of this node is read before the server starts. A
  name without a number sign fails an assertion.
\<close>

fun adjust_loop :: "string list \<Rightarrow> 'a cluster_scheme \<Rightarrow> 'a cluster_scheme option" where
  "adjust_loop [] s = Some s"
| "adjust_loop (w # ws) s = (if 100 \<le> length w then None
     else if w \<in> {''me'', ''coordinator'', ''primary''} then (case ws of
         [] \<Rightarrow> Some (s\<lparr>localname := w\<rparr>)
       | name # ws \<Rightarrow>
           if 100 \<le> length name \<or> CHR ''#'' \<notin> set name then None
           else adjust_loop ws (s\<lparr>localname := w, settings := (settings s)\<lparr>port :=
             sint (atoi (tl (dropWhile (\<lambda>c. c \<noteq> CHR ''#'') name)))\<rparr>\<rparr>))
     else adjust_loop ws s)"

definition ramcube_adjust_memcached_settings :: "string list \<Rightarrow> 'a cluster_scheme \<Rightarrow> 'a cluster_scheme option" where
  "ramcube_adjust_memcached_settings ws s = (case ramcube_config_file s of None \<Rightarrow> None
     | Some f \<Rightarrow> let s = s\<lparr>settings := (settings s)\<lparr>num_threads := 1\<rparr>\<rparr> in
         if f = [] then Some (s\<lparr>ramcube_config_file := None\<rparr>) else adjust_loop ws s)"

definition ramcube_init :: "(string \<Rightarrow> u32 option) \<Rightarrow> string list \<Rightarrow> 'a cluster_scheme \<Rightarrow> 'a cluster_scheme option" where
  "ramcube_init dns ws s = (if ramcube_config_file s = None then None else do {
     let no = replicate MAX_NEIGHBORS NULL;
     let s = s\<lparr>neighbors := replicate MAX_NEIGHBORS (zero_sin, False), vpBackupSins := replicate MAX_NEIGHBORS None,
       vpPingSins := replicate MAX_NEIGHBORS None, vpCoordinatorSins := replicate MAX_NEIGHBORS None,
       vpBackupOut := no, vpPingOut := no, vpBackupIn := no, vpPingIn := no, vpRecoveryOut := no, vpRecoveryIn := no,
       vpCoordinatorOut := no, vpCoordinatorIn := no\<rparr>;
     let s = s\<lparr>backup_mem := init_SegmentManager (backup_mem s)\<rparr>;
     s \<leftarrow> init_ramcube_config dns ws s;
     (_, s) \<leftarrow> init_smaller_proxies PROXY_TYPE_PING_CLIENT s;
     (_, s) \<leftarrow> init_smaller_proxies PROXY_TYPE_BACKUP_CLIENT s;
     (_, s) \<leftarrow> init_smaller_proxies PROXY_TYPE_COORDINATOR_CLIENT s;
     Some s })"

section \<open>Copies for the backup\<close>

definition atol :: "string \<Rightarrow> u64" where
  "atol str = (case strtoll str of None \<Rightarrow> 0 | Some (v, _, _) \<Rightarrow> word_of_int v)"

text \<open>\<open>ramcube_server_proxy_new\<close> for a connection \<open>c\<close> at an address.\<close>

definition ramcube_server_proxy_new :: "addr \<Rightarrow> conn \<Rightarrow> 'a cluster_scheme \<Rightarrow> (conn \<times> 'a cluster_scheme) option" where
  "ramcube_server_proxy_new a c s = (if ramcube_config_file s = None then None else do {
     (cp, s) \<leftarrow> new_proxy s;
     s \<leftarrow> upd_proxy cp (\<lambda>x. x\<lparr>px_connection := a, px_type := PROXY_TYPE_DATA_SERVER\<rparr>) s;
     Some (c\<lparr>cn_ramcube_proxy := cp\<rparr>, s) })"

text \<open>The backup of a key is chosen by its hash among the connections to backups.\<close>

definition used_places :: "addr list \<Rightarrow> nat" where
  "used_places ps = length (takeWhile (\<lambda>p. p \<noteq> NULL) ps)"

definition get_backup_proxy_by_key :: "string \<Rightarrow> 'a cluster_scheme \<Rightarrow> addr" where
  "get_backup_proxy_by_key key s = (let i = used_places (vpBackupOut s) in
     if i = 0 then NULL else vpBackupOut s ! (unat (hash_key key) mod i))"

text \<open>
  The key and the value of an item are passed as strings although nothing ends them: what lies behind them in memory
  belongs to them up to the first null character. Behind the key these are the byte in front of the suffix, the
  suffix, the value and the rest of the chunk.
\<close>

definition send_unit_to_backup :: "addr \<Rightarrow> addr \<Rightarrow> addr \<Rightarrow> 'a cluster_scheme \<Rightarrow> 'a cluster_scheme option" where
  "send_unit_to_backup cpBackupOut unit data_conn_ptr s = do {
     let i = mem s unit;
     key \<leftarrow> str_of (ITEM_key i @ [key_gap s unit] @ take (unat (it_nsuffix i)) (it_suffix i) @ it_value i @ slack s unit);
     data \<leftarrow> str_of (it_value i @ slack s unit);
     obj \<leftarrow> setCommandServer key data (sint (it_nbytes i) - 2);
     s \<leftarrow> evbuffer_add cpBackupOut (''BACKUP_REQUEST '' @ dec data_conn_ptr @ crlf) s;
     s \<leftarrow> evbuffer_add cpBackupOut (ob_command obj) s;
     evbuffer_add cpBackupOut (cf_myAddr (rc_config s) @ '':'' @ dec_int (cf_myPort (rc_config s)) @ crlf) s }"

text \<open>A stored item: what \<open>complete_nread_ascii\<close> calls.\<close>

definition ramcube_post_set_data :: "'a cluster_scheme \<Rightarrow> (u64 \<times> 'a cluster_scheme) option" where
  "ramcube_post_set_data s = (let it = cn_item (con s) in
     if ramcube_config_file s = None \<or> it = NULL then None
     else do {
       cp \<leftarrow> get_proxy (cn_ramcube_proxy (con s)) s;
       if px_type cp = PROXY_TYPE_DATA_SERVER \<or> px_type cp = PROXY_TYPE_RECOVERY_SERVER then (let
           cpBackup = get_backup_proxy_by_key (ITEM_key (mem s it)) s in
         if cpBackup = NULL then None
         else map_option (Pair 0) (send_unit_to_backup cpBackup it (cur_conn s) s))
       else if px_type cp = PROXY_TYPE_BACKUP_SERVER then
         (if px_data_conn_ptr cp = 0 then None else Some (px_data_conn_ptr cp, s))
       else Some (- 1, s) })"

text \<open>The node turns to another connection, and back.\<close>

definition switch_conn :: "addr \<Rightarrow> 'a cluster_scheme \<Rightarrow> 'a cluster_scheme option" where
  "switch_conn a s = (if a = cur_conn s then Some s
     else map_option (\<lambda>c. s\<lparr>conns := (conns s)(cur_conn s \<mapsto> con s, a := None), con := c, cur_conn := a\<rparr>) (conns s a))"

text \<open>
  The answer of a backup: the client that stored the item is told so. \<open>drive\<close> is the state machine.
\<close>

definition process_command_BACKUP_REPLY :: "('a cluster_scheme \<Rightarrow> 'a cluster_scheme option) \<Rightarrow> token list \<Rightarrow> addr
    \<Rightarrow> 'a cluster_scheme \<Rightarrow> 'a cluster_scheme option" where
  "process_command_BACKUP_REPLY drive tokens cp s = do {
     x \<leftarrow> get_proxy cp s;
     w \<leftarrow> tok tokens 1;
     let cli_conn = unat (atol w);
     if px_type x \<noteq> PROXY_TYPE_BACKUP_CLIENT \<or> cli_conn = NULL then None
     else do {
       let me = cur_conn s;
       s \<leftarrow> switch_conn cli_conn s;
       s \<leftarrow> out_string ''STORED'' s;
       s \<leftarrow> drive s;
       switch_conn me s } }"

text \<open>Not called any more.\<close>

definition send_string_via_out_cp :: "addr \<Rightarrow> string \<Rightarrow> 'a cluster_scheme \<Rightarrow> 'a cluster_scheme option" where
  "send_string_via_out_cp cp str = evbuffer_add cp (str @ crlf)"

definition send_request_to_backup :: "addr \<Rightarrow> 'a cluster_scheme \<Rightarrow> 'a cluster_scheme option" where
  "send_request_to_backup cp = evbuffer_add cp (''DATA_REQUEST '' @ dec cp @ crlf)"

section \<open>The kind of a connection\<close>

text \<open>The peers of a list up to its end.\<close>

definition my_peers :: "nat option list \<Rightarrow> 'a cluster_scheme \<Rightarrow> sockaddr_in list" where
  "my_peers sins s = map (\<lambda>i. fst (neighbors s ! the i)) (takeWhile (\<lambda>i. i \<noteq> None) sins)"

definition same_sin :: "sockaddr_in \<Rightarrow> sockaddr_in \<Rightarrow> bool" where
  "same_sin a b \<longleftrightarrow> sin_name a = sin_name b \<and> sin_portnum a = sin_portnum b"

definition process_command_TYPE :: "(string \<Rightarrow> u32 option) \<Rightarrow> token list \<Rightarrow> addr \<Rightarrow> 'a cluster_scheme
    \<Rightarrow> (int \<times> 'a cluster_scheme) option" where
  "process_command_TYPE dns tokens cp s = do {
     x \<leftarrow> get_proxy cp s;
     subcomm \<leftarrow> tok tokens 1;
     peer_name \<leftarrow> tok tokens 2;
     if px_type x \<noteq> PROXY_TYPE_DATA_SERVER then None
     else if subcomm = ''DATA'' then Some (0, s)
     else if subcomm = ''RECOVERY'' then do {
       a \<leftarrow> set_sin_by_name dns peer_name;
       s \<leftarrow> upd_proxy cp (\<lambda>x. x\<lparr>px_type := PROXY_TYPE_RECOVERY_SERVER, px_peerSin := a\<rparr>) s;
       Some (0, s\<lparr>vpRecoveryIn := snd (push_back_proxy cp (vpRecoveryIn s))\<rparr>) }
     else if subcomm = ''BACKUP'' \<or> subcomm = ''PING'' \<or> subcomm = ''COORDINATOR'' then do {
       let (t, client, sins) =
         (if subcomm = ''BACKUP'' then (PROXY_TYPE_BACKUP_SERVER, PROXY_TYPE_BACKUP_CLIENT, vpBackupSins s)
          else if subcomm = ''PING'' then (PROXY_TYPE_PING_SERVER, PROXY_TYPE_PING_CLIENT, vpPingSins s)
          else (PROXY_TYPE_COORDINATOR_SERVER, PROXY_TYPE_COORDINATOR_CLIENT, vpCoordinatorSins s));
       a \<leftarrow> set_sin_by_name dns peer_name;
       s \<leftarrow> upd_proxy cp (\<lambda>x. x\<lparr>px_type := t, px_peerSin := a\<rparr>) s;
       if \<not> list_ex (same_sin a) (my_peers sins s) then Some (-1, s)
       else do {
         let s = (if t = PROXY_TYPE_PING_SERVER then s\<lparr>vpPingIn := snd (push_back_proxy cp (vpPingIn s))\<rparr>
           else if t = PROXY_TYPE_BACKUP_SERVER then s\<lparr>vpBackupIn := snd (push_back_proxy cp (vpBackupIn s))\<rparr>
           else s\<lparr>vpCoordinatorIn := snd (push_back_proxy cp (vpCoordinatorIn s))\<rparr>);
         s \<leftarrow> (if inet_addr_compare (cf_myAddr (rc_config s)) (cf_myPort (rc_config s)) (sin_name a) (sin_portnum a) < 0
              then map_option snd (connect_and_return_ConnProxy a client s) else Some s);
         Some (0, s) } }
     else Some (-1, s) }"

section \<open>Heartbeats\<close>

definition sendHeartBeat :: "addr \<Rightarrow> 'a cluster_scheme \<Rightarrow> (int \<times> 'a cluster_scheme) option" where
  "sendHeartBeat cp s = do {
     s \<leftarrow> upd_proxy cp (\<lambda>x. x\<lparr>px_sendInfo := ''HEARTBEAT''\<rparr>) s;
     s \<leftarrow> evbuffer_add cp (''HEARTBEAT'' @ crlf) s;
     s \<leftarrow> upd_proxy cp (\<lambda>x. x\<lparr>px_outTimes := px_outTimes x + 1\<rparr>) s;
     Some (1, s) }"

text \<open>The callbacks of the timers; the event is not pending any more when they run.\<close>

definition HB_cb :: "addr \<Rightarrow> 'a cluster_scheme \<Rightarrow> 'a cluster_scheme option" where
  "HB_cb cp s = do {
     s \<leftarrow> upd_proxy cp (\<lambda>x. x\<lparr>px_pending := False\<rparr>) s;
     (r, s) \<leftarrow> sendHeartBeat cp s;
     if r = 1 then upd_proxy cp (\<lambda>x. x\<lparr>px_pending := True\<rparr>) s else Some s }"

definition hb_matches :: "sockaddr_in \<Rightarrow> heartbeat_info \<Rightarrow> bool" where
  "hb_matches a h \<longleftrightarrow> hb_ip h = sin_name a \<and> hb_port h = sin_portnum a"

text \<open>
  The handler of a heartbeat: the entry of the sender, or else the first unused one. The result says
  whether an entry was taken.
\<close>

fun note_heartbeat :: "sockaddr_in \<Rightarrow> heartbeat_info list \<Rightarrow> bool \<times> heartbeat_info list" where
  "note_heartbeat a [] = (False, [])"
| "note_heartbeat a (h # hs) =
     (if hb_matches a h then (False, h\<lparr>hb_MaxTimes := hb_MaxTimes h - 1\<rparr> # hs)
      else if \<not> hb_used h then (True, h\<lparr>hb_used := True, hb_ip := sin_name a, hb_port := sin_portnum a\<rparr> # hs)
      else case note_heartbeat a hs of (new, hs) \<Rightarrow> (new, h # hs))"

definition receive_heartbeat :: "addr \<Rightarrow> 'a cluster_scheme \<Rightarrow> 'a cluster_scheme option" where
  "receive_heartbeat cp s = do {
     x \<leftarrow> get_proxy cp s;
     let (new, table) = note_heartbeat (px_peerSin x) (PrimaryTable s);
     let s = s\<lparr>PrimaryTable := table\<rparr>;
     if new then autoAddTimes cp s else Some s }"

text \<open>
  The timer of the watching node: the entries of the peer are counted up, and the first that is above
  two ends the walk with a message to the coordinator.
\<close>

fun count_missed :: "sockaddr_in \<Rightarrow> heartbeat_info list \<Rightarrow> bool \<times> heartbeat_info list" where
  "count_missed a [] = (False, [])"
| "count_missed a (h # hs) =
     (if hb_matches a h then
        (let h = h\<lparr>hb_MaxTimes := hb_MaxTimes h + 1\<rparr> in
         if 2 < hb_MaxTimes h then (True, h # hs)
         else case count_missed a hs of (dead, hs) \<Rightarrow> (dead, h # hs))
      else case count_missed a hs of (dead, hs) \<Rightarrow> (dead, h # hs))"

definition recovery_cb :: "addr \<Rightarrow> 'a cluster_scheme \<Rightarrow> 'a cluster_scheme option" where
  "recovery_cb cp s = do {
     s \<leftarrow> upd_proxy cp (\<lambda>x. x\<lparr>px_pending := False\<rparr>) s;
     x \<leftarrow> get_proxy cp s;
     let (dead, table) = count_missed (px_peerSin x) (PrimaryTable s);
     let s = s\<lparr>PrimaryTable := table\<rparr>;
     if dead then (if vpCoordinatorOut s = [] then None else
       evbuffer_add (hd (vpCoordinatorOut s)) (''CRASH'' @ crlf @ sin_name (px_peerSin x) @ '':''
         @ dec_int (sin_portnum (px_peerSin x)) @ crlf) s)
     else upd_proxy cp (\<lambda>x. x\<lparr>px_pending := True\<rparr>) s }"

text \<open>Not called any more; master and backup are entered the wrong way round.\<close>

fun enter_broken :: "string \<Rightarrow> int \<Rightarrow> broken_master list \<Rightarrow> broken_master list" where
  "enter_broken ip prt [] = []"
| "enter_broken ip prt (b # bs) = (if \<not> b_used b
     then \<lparr>b_master_ip = ''127.0.0.1'', b_master_port = prt, b_backup_ip = ip, b_backup_port = 11114,
            b_recovery_ip = ''127.0.0.1'', b_recovery_port = 11121, b_used = True\<rparr> # bs
     else b # enter_broken ip prt bs)"

definition Recovery :: "addr \<Rightarrow> 'a cluster_scheme \<Rightarrow> 'a cluster_scheme option" where
  "Recovery cp s = map_option (\<lambda>x. s\<lparr>bokenMasterTable :=
     enter_broken (sin_name (px_peerSin x)) (sin_portnum (px_peerSin x)) (bokenMasterTable s)\<rparr>) (get_proxy cp s)"

section \<open>Recovery\<close>

definition recoveryBackupConnect :: "string \<Rightarrow> int \<Rightarrow> 'a cluster_scheme \<Rightarrow> (addr \<times> 'a cluster_scheme) option" where
  "recoveryBackupConnect ip prt s = connect_and_return_ConnProxy
     \<lparr>sin_addr = (case inet_aton ip of None \<Rightarrow> 0 | Some a \<Rightarrow> a), sin_port = htons (word_of_int prt)\<rparr> PROXY_TYPE_RECOVERY_CLIENT s"

text \<open>
  The data of a failed primary is sent from the disk. The array for the string has four gigabytes; the
  memory is taken to be available and to be filled with null characters.
\<close>

definition send_to_recovery :: "(string list \<Rightarrow> string list) \<Rightarrow> string \<Rightarrow> int \<Rightarrow> addr \<Rightarrow> 'a cluster_scheme
    \<Rightarrow> 'a cluster_scheme option" where
  "send_to_recovery ls ip prt cp s = do {
     let ipPort = dir_name ip prt;
     if 32 \<le> length ipPort then None
     else do {
       (seg, m) \<leftarrow> loadToMem ls ipPort (backup_mem s);
       str \<leftarrow> segmentToString (2 ^ 32) seg [] m;
       s \<leftarrow> evbuffer_add cp (''RECOVERY_REQUEST '' @ dec cp @ crlf) (s\<lparr>backup_mem := m\<rparr>);
       s \<leftarrow> evbuffer_add cp str s;
       evbuffer_add cp (cf_myAddr (rc_config s) @ '':'' @ dec_int (cf_myPort (rc_config s)) @ crlf) s } }"

text \<open>The words between line ends, blanks and colons, as \<open>strtok\<close> gives them.\<close>

definition is_delim :: "char \<Rightarrow> bool" where
  "is_delim c \<longleftrightarrow> c \<in> {CHR 0x0D, CHR 0x0A, CHR '' '', CHR '':''}"

function strtok_all :: "string \<Rightarrow> string list" where
  "strtok_all str = (let r = dropWhile is_delim str in
     if r = [] then [] else takeWhile (Not \<circ> is_delim) r # strtok_all (dropWhile (Not \<circ> is_delim) r))"
  by pat_completeness auto
termination
proof (relation "measure length")
  fix str :: string and r assume r: "r = dropWhile is_delim str" "r \<noteq> []"
  have "\<not> is_delim (hd r)" using r hd_dropWhile [of is_delim str] by simp
  then have "dropWhile (Not \<circ> is_delim) r = dropWhile (Not \<circ> is_delim) (tl r)"
    using r(2) by (cases r) simp_all
  also have "length \<dots> \<le> length (tl r)" by (rule length_dropWhile_le)
  also have "\<dots> < length r" using r(2) by simp
  also have "\<dots> \<le> length str" unfolding r(1) by (rule length_dropWhile_le)
  finally show "(dropWhile (Not \<circ> is_delim) r, str) \<in> measure length" by simp
qed simp

declare strtok_all.simps [simp del]

text \<open>The coordinator is told of a failed primary, and tells the backup, whose address is fixed.\<close>

definition backup_sin :: "string \<times> int" where
  "backup_sin = (''10.107.19.9'', 11114)"

fun tell_backup :: "addr list \<Rightarrow> string \<Rightarrow> 'a cluster_scheme \<Rightarrow> 'a cluster_scheme option" where
  "tell_backup [] text s = Some s"
| "tell_backup (p # ps) text s = (if p = NULL then Some s
     else do {
       x \<leftarrow> get_proxy p s;
       if sin_name (px_peerSin x) = fst backup_sin \<and> sin_portnum (px_peerSin x) = snd backup_sin
       then evbuffer_add p text s else tell_backup ps text s })"

definition handle_CRASH :: "addr \<Rightarrow> string \<Rightarrow> 'a cluster_scheme \<Rightarrow> 'a cluster_scheme option" where
  "handle_CRASH cp left_com s = do {
     x \<leftarrow> get_proxy cp s;
     case strtok_all left_com of [] \<Rightarrow> None
     | ip # ws \<Rightarrow>
         if 16 \<le> length ip then None
         else tell_backup (vpCoordinatorOut s) (''CRASHED'' @ [CHR 0x0A, CHR 0x0D] @ ip @ '':''
           @ dec_int (if ws = [] then 0 else sint (atoi (last ws))) @ '' '' @ sin_name (px_peerSin x) @ '':''
           @ dec_int (sin_portnum (px_peerSin x))) s }"

text \<open>The words after the first fill the port, the address of the recovering node and its port.\<close>

fun crashed_words :: "string list \<Rightarrow> int \<times> string \<times> int \<Rightarrow> (int \<times> string \<times> int) option" where
  "crashed_words [] r = Some r"
| "crashed_words (w # ws) (p1, ip2, p2) =
     (if p1 = 0 then crashed_words ws (sint (atoi w), ip2, p2)
      else if ip2 = [] then (if 16 \<le> length w then None else crashed_words ws (p1, w, p2))
      else crashed_words ws (p1, ip2, if p2 = 0 then sint (atoi w) else p2))"

definition handle_CRASHED :: "(string list \<Rightarrow> string list) \<Rightarrow> string \<Rightarrow> 'a cluster_scheme \<Rightarrow> 'a cluster_scheme option" where
  "handle_CRASHED ls left_com s = (case strtok_all left_com of [] \<Rightarrow> None
     | ip # ws \<Rightarrow>
         if 16 \<le> length ip then None
         else do {
           (p1, ip2, p2) \<leftarrow> crashed_words ws (0, [], 0);
           (r_cp, s) \<leftarrow> recoveryBackupConnect ip2 p2 s;
           send_to_recovery ls ip p1 r_cp s })"

text \<open>Not sent by any node any more: the data goes back on the connection of the request.\<close>

definition handle_DATA_REQUEST :: "(string list \<Rightarrow> string list) \<Rightarrow> 'a cluster_scheme \<Rightarrow> 'a cluster_scheme option" where
  "handle_DATA_REQUEST ls s = do {
     (seg, m) \<leftarrow> loadToMem ls (dir_name ''127.0.0.1'' 11111) (backup_mem s);
     temp \<leftarrow> segmentToString (1024 * 10) seg [] m;
     let str = ''DATA_REPLAY '' @ crlf @ temp;
     if 1024 * 10 \<le> length str then None
     else out_string str (s\<lparr>backup_mem := m\<rparr>) }"

section \<open>The commands of the nodes\<close>

text \<open>A copy of an item arrives at a backup.\<close>

definition handle_BACKUP_REQUEST :: "token list \<Rightarrow> addr \<Rightarrow> string \<Rightarrow> 'a cluster_scheme \<Rightarrow> 'a cluster_scheme option" where
  "handle_BACKUP_REQUEST tokens cp left_com s = do {
     w \<leftarrow> tok tokens 1;
     let ptr = atol w;
     s \<leftarrow> upd_proxy cp (\<lambda>x. x\<lparr>px_data_conn_ptr := ptr\<rparr>) s;
     if ptr = 0 then None
     else do {
       m \<leftarrow> appendToSegment left_com (backup_mem s);
       out_string (take 99 (''BACKUP_REPLY '' @ u64s ptr)) (s\<lparr>backup_mem := m\<rparr>) } }"

text \<open>
  What \<open>process_command\<close> does not know. \<open>cont\<close> is the position in \<open>rbuf\<close> behind the line: the rest of
  the command is the string that begins there. The last branch for \<open>BACKUP_REPLY\<close> is for connections
  of our own, which do not come this way.
\<close>

definition ramcube_process_commands :: "(string \<Rightarrow> u32 option) \<Rightarrow> (string list \<Rightarrow> string list)
    \<Rightarrow> ('a cluster_scheme \<Rightarrow> 'a cluster_scheme option) \<Rightarrow> nat \<Rightarrow> token list \<Rightarrow> 'a cluster_scheme
    \<Rightarrow> (u64 \<times> 'a cluster_scheme) option" where
  "ramcube_process_commands dns ls drive cont tokens s = do {
     let n = length tokens;
     let left_com = cstr (drop cont (cn_rbuf (con s)));
     let cp = cn_ramcube_proxy (con s);
     comm \<leftarrow> (if ramcube_config_file s = None then None else tok tokens 0);
     x \<leftarrow> get_proxy cp s;
     let ret = (\<lambda>r. map_option (Pair (r :: u64)));
     if n = 4 \<and> comm = ''TYPE'' \<and> px_type x = PROXY_TYPE_DATA_SERVER
     then ret 0 (map_option snd (process_command_TYPE dns tokens cp s))
     else if n = 3 \<and> comm = ''BACKUP_REQUEST'' \<and> px_type x = PROXY_TYPE_BACKUP_SERVER
     then ret 1 (handle_BACKUP_REQUEST tokens cp left_com s)
     else if n = 3 \<and> comm = ''BACKUP_REPLY'' \<and> px_type x = PROXY_TYPE_BACKUP_CLIENT
     then ret 0 (process_command_BACKUP_REPLY drive tokens cp s)
     else if n = 3 \<and> comm = ''RECOVERY_REQUEST'' \<and> px_type x = PROXY_TYPE_RECOVERY_SERVER
     then Some (2, s)
     else if n = 2 \<and> comm = ''HEARTBEAT'' then ret 1 (receive_heartbeat cp s)
     else if n = 2 \<and> comm = ''CRASH'' then ret 1 (handle_CRASH cp left_com s)
     else if n = 2 \<and> comm = ''CRASHED'' then ret 1 (handle_CRASHED ls left_com s)
     else if n = 3 \<and> comm = ''DATA_REQUEST'' then ret 1 (handle_DATA_REQUEST ls s)
     else Some (- 1, s) }"

section \<open>The node\<close>

text \<open>
  The machine of a connection in a node. A command runs the machine of another connection only from
  the branch that no connection reaches; \<open>fuel\<close> counts such nested runs.
\<close>

fun drive_node :: "os_info \<Rightarrow> (string \<Rightarrow> u32 option) \<Rightarrow> (string list \<Rightarrow> string list) \<Rightarrow> nat \<Rightarrow> 'a cluster_scheme
    \<Rightarrow> 'a cluster_scheme option" where
  "drive_node os dns ls 0 s = None"
| "drive_node os dns ls (Suc fuel) s = drive_machine os (ramcube_process_commands dns ls (drive_node os dns ls fuel))
     ramcube_post_set_data s"

text \<open>
  A line that a peer sends on a connection of ours. \<open>evbuffer_readln\<close> with a strict line end; an empty
  line is taken off and ends the loop. \<open>flg\<close> is set by \<open>DATA_REPLAY\<close>: the lines after it are collected
  in an array of ten kilobytes, \<open>str\<close>, and not used any further. The tokenizer is the copy of that of
  \<open>memcached.c\<close>, word for word.
\<close>

fun readln :: "string \<Rightarrow> (string \<times> string) option" where
  "readln (c # d # cs) = (if c = CHR 0x0D \<and> d = CHR 0x0A then Some ([], cs)
     else map_option (\<lambda>(l, r). (c # l, r)) (readln (d # cs)))"
| "readln _ = None"

lemma readln_shorter: "readln str = Some (l, r) \<Longrightarrow> length r < length str"
  by (induction str arbitrary: l r rule: readln.induct) (fastforce split: if_splits)+

definition ramcube_tokenize_command :: "string \<Rightarrow> nat \<Rightarrow> token list" where
  "ramcube_tokenize_command command max_tokens = tokenize_command command max_tokens"

definition peer_line :: "('a cluster_scheme \<Rightarrow> 'a cluster_scheme option) \<Rightarrow> string \<Rightarrow> addr \<Rightarrow> 'a cluster_scheme
    \<Rightarrow> (bool \<times> 'a cluster_scheme) option" where
  "peer_line drive line cp s = (if MAX_COMM_LINE < length line then None
     else do {
       x \<leftarrow> get_proxy cp s;
       let comm = cstr (take (MAX_COMM_LINE - 1) line);
       let tokens = ramcube_tokenize_command comm MAX_TOKENS;
       let is = (\<lambda>w. take 1 comm \<noteq> '' '' \<and> tok tokens 0 = Some w);
       if length tokens = 3 \<and> is ''BACKUP_REPLY'' \<and> px_type x = PROXY_TYPE_BACKUP_CLIENT
       then map_option (Pair False) (process_command_BACKUP_REPLY drive tokens cp s)
       else if length tokens = 2 \<and> is ''ALIVE''
       then map_option (Pair False) (upd_proxy cp (\<lambda>x. x\<lparr>px_outTimes := px_outTimes x - 1\<rparr>) s)
       else Some (length tokens = 2 \<and> is ''DATA_REPLAY'', s) })"

function read_lines :: "('a cluster_scheme \<Rightarrow> 'a cluster_scheme option) \<Rightarrow> string \<Rightarrow> bool \<Rightarrow> string \<Rightarrow> addr
    \<Rightarrow> 'a cluster_scheme \<Rightarrow> 'a cluster_scheme option" where
  "read_lines drive input flg str cp s = (case readln input of
     None \<Rightarrow> upd_proxy cp (\<lambda>x. x\<lparr>px_in := input\<rparr>) s
   | Some (line, rest) \<Rightarrow>
       if line = [] then upd_proxy cp (\<lambda>x. x\<lparr>px_in := rest\<rparr>) s
       else if flg then (let str = str @ cstr line @ crlf in
         if 1024 * 10 \<le> length str then None else read_lines drive rest True str cp s)
       else (case peer_line drive line cp s of None \<Rightarrow> None | Some (flg, s) \<Rightarrow> read_lines drive rest flg str cp s))"
  by pat_completeness auto
termination
  by (relation "measure (\<lambda>(_, input, _). length input)") (auto dest: readln_shorter)

declare read_lines.simps [simp del]

definition read_cb :: "('a cluster_scheme \<Rightarrow> 'a cluster_scheme option) \<Rightarrow> addr \<Rightarrow> 'a cluster_scheme \<Rightarrow> 'a cluster_scheme option" where
  "read_cb drive cp s = do {
     x \<leftarrow> get_proxy cp s;
     if px_connection x \<noteq> NULL then None else read_lines drive (px_in x) False [] cp s }"


end
