(* ===== verification/Replication.thy ===== *)
theory Replication
  imports Cluster Segment_Store Delivery Text_Commands
begin

text \<open>
  Properties of the nodes together: which of two peers connects, what a connection that opens leads to
  on both sides, how an item travels to the backup and its answer back, and when a failed primary is
  reported.
\<close>
section \<open>Addresses in text\<close>

lemma octet_div: "octet i w = unat w div 256 ^ i mod 256"
proof -
  have "octet i w = take_bit 8 (drop_bit (8 * i) (unat w))"
    by (simp add: octet_def unsigned_take_bit_eq unat_drop_bit_eq)
  then show ?thesis by (simp add: take_bit_eq_mod drop_bit_eq_div power_mult)
qed

lemma octet_less: "octet i w < 256"
  by (simp add: octet_div)

lemma octets: "unat (w :: u32) = octet 0 w + 256 * octet 1 w + 65536 * octet 2 w + 16777216 * octet 3 w"
proof -
  define x where "x = unat w"
  have x: "x < 4294967296" using unat_u32_less [of w] by (simp add: x_def)
  have d: "x div 65536 = x div 256 div 256" "x div 16777216 = x div 256 div 256 div 256"
    by (simp_all add: div_mult2_eq [symmetric])
  have "x div 256 div 256 div 256 < 256" using x unfolding d(2) [symmetric] by (simp add: less_mult_imp_div_less)
  moreover obtain q1 q2 q3 where q: "x div 256 = q1" "q1 div 256 = q2" "q2 div 256 = q3" by blast
  ultimately have "x = x mod 256 + 256 * (q1 mod 256) + 65536 * (q2 mod 256) + 16777216 * (q3 mod 256)"
    using div_mult_mod_eq [of x 256] div_mult_mod_eq [of q1 256] div_mult_mod_eq [of q2 256] by simp
  then have "x = x mod 256 + 256 * (x div 256 mod 256) + 65536 * (x div 65536 mod 256) + 16777216 * (x div 16777216 mod 256)"
    unfolding d q .
  moreover have "(256 :: nat) ^ 0 = 1" "(256 :: nat) ^ 1 = 256" "(256 :: nat) ^ 2 = 65536" "(256 :: nat) ^ 3 = 16777216"
    by simp_all
  ultimately show ?thesis unfolding octet_div x_def [symmetric] by (simp only: div_by_1)
qed

lemma unat_of_nat_u32: "v < 2 ^ 32 \<Longrightarrow> unat (of_nat v :: u32) = v"
  by (simp add: unsigned_of_nat take_bit_nat_eq_self)

lemma unat_u16_less: "unat (w :: u16) < 65536"
proof -
  have "unat w < 2 ^ LENGTH(16)" by (rule unsigned_less)
  then show ?thesis by simp
qed

lemma bytes_div: "r < 256 \<Longrightarrow> (x * 256 + r) div 256 = x" "r < 256 \<Longrightarrow> (x * 256 + r) mod 256 = (r :: nat)"
  by simp_all

lemma scan_base_dec:
  assumes "rest = [] \<or> 10 \<le> xdigit_val (hd rest)"
  shows "scan_base 10 m (dec n @ rest) = (m * 10 ^ length (dec n) + n, rest)"
proof -
  have d: "xdigit_val (digit k) = k" if "k < 10" for k using that by (simp add: xdigit_val_def digit_def)
  have go: "scan_base 10 m (dec n @ es) = scan_base 10 (m * 10 ^ length (dec n) + n) es" for es
  proof (induction n arbitrary: es rule: dec.induct)
    case (1 n)
    show ?case
    proof (cases "n < 10")
      case True
      then show ?thesis using d [of n] by (subst (1 2) dec.simps) simp
    next
      case False
      have "dec n = dec (n div 10) @ [digit (n mod 10)]" using False by (subst dec.simps) simp
      then have "scan_base 10 m (dec n @ es) = scan_base 10 (m * 10 ^ length (dec (n div 10)) + n div 10) (digit (n mod 10) # es)"
        using 1 [OF False, of "digit (n mod 10) # es"] by simp
      then show ?thesis using d [of "n mod 10"] \<open>dec n = _\<close> by (simp add: algebra_simps)
    qed
  qed
  show ?thesis unfolding go using assms by (cases rest) auto
qed

lemma hd_dec_zero: "0 < n \<Longrightarrow> hd (dec n) \<noteq> CHR ''0''"
proof (induction n rule: dec.induct)
  case (1 n)
  show ?case
  proof (cases "n < 10")
    case True
    then have "(of_char (digit n) :: nat) = 48 + n" by (simp add: digit_def)
    then have "digit n \<noteq> CHR ''0''" using 1(2) by auto
    then show ?thesis using True by (subst dec.simps) simp
  next
    case False
    then show ?thesis using 1 by (subst dec.simps) simp
  qed
qed

lemma c_number_dec:
  assumes "rest = [] \<or> hd rest = CHR ''.''"
  shows "c_number (dec n @ rest) = (n, rest)"
proof (cases "n = 0")
  case True
  have z: "dec 0 = ''0''" by (simp add: dec.simps digit_def char_of_def bit_0)
  have "scan_base 8 0 rest = (0, rest)" using assms by (cases rest) (auto simp: xdigit_val_def)
  then show ?thesis unfolding True z using assms
    by (cases rest; cases "tl rest") (auto simp: c_number_def xdigit_val_def)
next
  case False
  then have h: "hd (dec n) \<noteq> CHR ''0''" by (simp add: hd_dec_zero)
  have "c_number (dec n @ rest) = scan_base 10 0 (dec n @ rest)"
    using h dec_nonempty [of n] by (cases "dec n") (auto simp: c_number_def split: list.splits)
  then show ?thesis using scan_base_dec [of rest 0 n] assms by (auto simp: xdigit_val_def)
qed

lemma aton_parts_dec:
  assumes "n < 256"
  shows "aton_parts (Suc k) (dec n @ ''.'' @ rest) = map_option (Cons n) (aton_parts k rest)" "aton_parts (Suc k) (dec n) = Some [n]"
  using assms hd_dec [of n] c_number_dec [of "''.'' @ rest" n] c_number_dec [of "[]" n] by simp_all

lemma inet_aton_ntoa: "inet_aton (inet_ntoa a) = Some a"
proof -
  have "aton_parts 4 (inet_ntoa a) = Some [octet 0 a, octet 1 a, octet 2 a, octet 3 a]"
    using octet_less aton_parts_dec by (simp add: inet_ntoa_def numeral_eq_Suc)
  moreover have "swap32 (of_nat (((octet 0 a * 256 + octet 1 a) * 256 + octet 2 a) * 256 + octet 3 a)) = a"
  proof -
    obtain o0 o1 o2 o3 where ov: "octet 0 a = o0" "octet 1 a = o1" "octet 2 a = o2" "octet 3 a = o3" by blast
    have b: "o0 < 256" "o1 < 256" "o2 < 256" "o3 < 256" using octet_less [of _ a] ov by auto
    let ?v = "((o0 * 256 + o1) * 256 + o2) * 256 + o3"
    have "?v < 2 ^ 32" using b by simp
    then have u: "unat (of_nat ?v :: u32) = ?v" by (rule unat_of_nat_u32)
    have "octet 3 (of_nat ?v) = o0" "octet 2 (of_nat ?v) = o1" "octet 1 (of_nat ?v) = o2" "octet 0 (of_nat ?v) = o3"
    proof -
      have p: "v div 256 ^ 3 = v div 256 div 256 div 256" "v div 256 ^ 2 = v div 256 div 256" "v div 256 ^ 1 = v div 256"
        "v div 256 ^ 0 = v" for v :: nat by (simp_all add: div_mult2_eq [symmetric])
      show "octet 3 (of_nat ?v) = o0" "octet 2 (of_nat ?v) = o1" "octet 1 (of_nat ?v) = o2" "octet 0 (of_nat ?v) = o3"
        unfolding octet_div u p using b by (simp_all only: bytes_div mod_less)
    qed
    moreover have "o3 * 2 ^ 24 + o2 * 2 ^ 16 + o1 * 2 ^ 8 + o0 = unat a" using octets [of a] ov by simp
    ultimately show ?thesis unfolding swap32_def ov by simp
  qed
  ultimately show ?thesis using octet_less [of 3 a] by (simp add: inet_aton_def Let_def)
qed

lemma htons_htons [simp]: "htons (htons w) = w"
  by (rule bit_word_eqI) (auto simp: htons_def bit_or_iff bit_push_bit_iff bit_drop_bit_eq)

lemma sin_portnum_range: "0 \<le> sin_portnum a" "sin_portnum a < 65536"
  using unat_u16_less [of "ntohs (sin_port a)"] unfolding sin_portnum_def by linarith+

lemma htons_portnum: "htons (of_nat (unat (ntohs (sin_port a)))) = sin_port a"
  by (simp add: ntohs_def)

text \<open>The name that a node gives itself is read as its address.\<close>

definition node_name :: "sockaddr_in \<Rightarrow> string" where
  "node_name a = sin_name a @ ''#'' @ dec_int (sin_portnum a)"

lemma ntoa_chars: "c \<in> set (inet_ntoa a) \<Longrightarrow> isdigit c \<or> c = CHR ''.''"
  by (auto simp: inet_ntoa_def dest: isdigit_dec)

lemma inet_ntoa_hd: "inet_ntoa a \<noteq> [] \<and> isdigit (hd (inet_ntoa a))"
  using hd_dec [of "octet 0 a"] by (simp add: inet_ntoa_def)

lemma set_sin_node_name: "set_sin_by_name dns (node_name a) = Some a"
proof -
  let ?n = "sin_name a" and ?p = "dec_int (sin_portnum a)"
  have nh: "CHR ''#'' \<notin> set ?n" using ntoa_chars [of "CHR ''#''"] by (auto simp: sin_name_def isdigit_def)
  have hd: "?n \<noteq> []" "isdigit (hd ?n)" using inet_ntoa_hd [of "sin_addr a"] by (simp_all add: sin_name_def)
  then have h: "hd ?n \<noteq> CHR ''#''" "\<not> isalpha (hd ?n)" by (auto simp: isdigit_def isalpha_def)
  have tw: "takeWhile (\<lambda>c. c = CHR ''#'') (node_name a) = []"
    using hd(1) h(1) by (cases ?n) (simp_all add: node_name_def)
  have w: "takeWhile (\<lambda>c. c \<noteq> CHR ''#'') (node_name a) = ?n"
    using takeWhile_to [OF nh] by (simp add: node_name_def)
  have "atoi ?p = of_nat (unat (ntohs (sin_port a)))"
    using scan_int_dec_ends [of "[]" "unat (ntohs (sin_port a))"] unat_u16_less [of "ntohs (sin_port a)"]
    by (simp add: atoi_def strtoll_def ends_number_def sin_portnum_def dec_int_def)
  moreover have "(ucast (of_nat (unat (w :: u16)) :: u32) :: u16) = w" for w
    by (rule bit_word_eqI) (simp add: bit_unsigned_iff)
  moreover have "node_name a \<noteq> ?n" by (simp add: node_name_def)
  moreover have "drop (length ?n + 1) (node_name a) = ?p" by (simp add: node_name_def)
  moreover have "inet_addr ?n = sin_addr a" by (simp add: inet_addr_def sin_name_def inet_aton_ntoa)
  ultimately show ?thesis unfolding set_sin_by_name_def Let_def tw using w h(2) by (simp add: ntohs_def)
qed

section \<open>Who connects\<close>

definition sin_compare :: "sockaddr_in \<Rightarrow> sockaddr_in \<Rightarrow> int" where
  "sin_compare a b = inet_addr_compare (sin_name a) (sin_portnum a) (sin_name b) (sin_portnum b)"

lemma sin_compare_antisym: "sin_compare a b = - sin_compare b a"
  by (auto simp: sin_compare_def inet_addr_compare_def Let_def)

lemma sin_portnum_eq: "sin_portnum a = sin_portnum b \<longleftrightarrow> sin_port a = sin_port b"
proof
  assume "sin_portnum a = sin_portnum b"
  then have "ntohs (sin_port a) = ntohs (sin_port b)" by (simp add: sin_portnum_def word_uint_eq_iff)
  then have "htons (ntohs (sin_port a)) = htons (ntohs (sin_port b))" by simp
  then show "sin_port a = sin_port b" by (simp add: ntohs_def)
qed (simp add: sin_portnum_def)

lemma sin_compare_zero: "sin_compare a b = 0 \<longleftrightarrow> a = b"
  using sin_portnum_eq [of a b]
  by (cases a; cases b) (auto simp: sin_compare_def inet_addr_compare_def sin_name_def inet_aton_ntoa Let_def
      dest: signed_word_eqI)

lemma sin_name_eq: "sin_name a = sin_name b \<longleftrightarrow> sin_addr a = sin_addr b"
  unfolding sin_name_def by (metis inet_aton_ntoa option.inject)

lemma same_sin_eq: "same_sin a b \<longleftrightarrow> a = b"
  by (cases a; cases b) (auto simp: same_sin_def sin_name_eq sin_portnum_eq)

section \<open>Opening a connection\<close>

definition is_node :: "sockaddr_in \<Rightarrow> 'a cluster_scheme \<Rightarrow> bool" where
  "is_node me s \<longleftrightarrow> cf_myAddr (rc_config s) = sin_name me \<and> cf_myPort (rc_config s) = sin_portnum me"

text \<open>The line with which a connection begins.\<close>

definition type_line :: "proxy_type \<Rightarrow> sockaddr_in \<Rightarrow> string" where
  "type_line t me = ''TYPE '' @ type_text t @ '' '' @ node_name me"

definition client_kinds :: "(proxy_type \<times> proxy_type) set" where
  "client_kinds = {(PROXY_TYPE_BACKUP_CLIENT, PROXY_TYPE_BACKUP_SERVER), (PROXY_TYPE_PING_CLIENT, PROXY_TYPE_PING_SERVER),
     (PROXY_TYPE_COORDINATOR_CLIENT, PROXY_TYPE_COORDINATOR_SERVER)}"

definition peer_sins :: "proxy_type \<Rightarrow> 'a cluster_scheme \<Rightarrow> nat option list" where
  "peer_sins t s = (if t = PROXY_TYPE_BACKUP_CLIENT then vpBackupSins s else if t = PROXY_TYPE_PING_CLIENT then vpPingSins s
     else vpCoordinatorSins s)"

definition out_places :: "proxy_type \<Rightarrow> 'a cluster_scheme \<Rightarrow> addr list" where
  "out_places t s = (if t = PROXY_TYPE_BACKUP_CLIENT then vpBackupOut s else if t = PROXY_TYPE_PING_CLIENT then vpPingOut s
     else if t = PROXY_TYPE_RECOVERY_CLIENT then vpRecoveryOut s else vpCoordinatorOut s)"

text \<open>A connection of our own to the peer \<open>a\<close>, on which the line was sent.\<close>

definition link_to :: "proxy_type \<Rightarrow> sockaddr_in \<Rightarrow> sockaddr_in \<Rightarrow> addr \<Rightarrow> 'a cluster_scheme \<Rightarrow> bool" where
  "link_to t a me p s \<longleftrightarrow> p \<in> set (out_places t s) \<and> (\<exists>x. get_proxy p s = Some x \<and> px_type x = t \<and> px_peerSin x = a
     \<and> px_connection x = NULL \<and> px_out x = Some (type_line t me @ crlf))"

text \<open>A connection can be opened: there is memory, a socket and a place in the table.\<close>

definition can_connect :: "proxy_type \<Rightarrow> 'a cluster_scheme \<Rightarrow> bool" where
  "can_connect t s \<longleftrightarrow> 0 < px_brk s \<and> (\<exists>gs. px_callocs s = True # gs) \<and> (\<exists>bs. connects s = True # bs)
     \<and> NULL \<in> set (out_places t s)"

lemma push_back_room: "none \<in> set ys \<Longrightarrow> \<exists>zs. push_back none x ys = Some zs \<and> x \<in> set zs"
  by (induction ys) auto

lemma dec_small: "n < 1000 \<Longrightarrow> length (dec n) \<le> 3" "n < 100000 \<Longrightarrow> length (dec n) \<le> 5"
  using dec_length_le [of n 2] dec_length_le [of n 4] by simp_all

lemma node_name_length: "length (node_name a) \<le> 21"
proof -
  have o: "length (dec (octet i (sin_addr a))) \<le> 3" for i using octet_less [of i "sin_addr a"] by (intro dec_small) simp
  have "length (dec_int (sin_portnum a)) \<le> 5"
    using dec_small(2) [of "nat (sin_portnum a)"] sin_portnum_range [of a] by (simp add: dec_int_def)
  then show ?thesis using o [of 0] o [of 1] o [of 2] o [of 3] by (simp add: node_name_def sin_name_def inet_ntoa_def)
qed

lemma type_line_length: "take 99 (type_line t a @ crlf) = type_line t a @ crlf"
proof -
  have "length (type_line t a @ crlf) \<le> 99"
    using node_name_length [of a] by (simp add: type_line_def type_text_def crlf_def)
  then show ?thesis by simp
qed

text \<open>What opening a connection leaves alone.\<close>

definition same_node :: "'a cluster_scheme \<Rightarrow> 'a cluster_scheme \<Rightarrow> bool" where
  "same_node s t \<longleftrightarrow> rc_config t = rc_config s \<and> neighbors t = neighbors s \<and> vpBackupSins t = vpBackupSins s \<and> vpPingSins t = vpPingSins s
     \<and> vpCoordinatorSins t = vpCoordinatorSins s \<and> vpBackupIn t = vpBackupIn s \<and> vpPingIn t = vpPingIn s
     \<and> vpCoordinatorIn t = vpCoordinatorIn s \<and> localname t = localname s"

lemma heartbeat_started:
  assumes "proxies v p = Some x" "p \<noteq> NULL"
  shows "\<exists>u. HeartBeat p v = Some u \<and> proxies u = (proxies v)(p \<mapsto> x\<lparr>px_evt := Some HB_cb_timer, px_pending := True\<rparr>)
    \<and> out_places t u = out_places t v \<and> same_node v u \<and> px_brk u = px_brk v \<and> px_callocs u = px_callocs v
    \<and> ramcube_config_file u = ramcube_config_file v"
  using assms by (cases "HeartBeat_initialized v")
    (simp_all add: HeartBeat_def evtimer_del_def set_timer_def upd_proxy_def get_proxy_def deref_def same_node_def out_places_def)

lemma connect_ok:
  assumes k: "(t, t') \<in> client_kinds" and C: "can_connect t s" and me: "is_node me s"
  shows "\<exists>u. connect_and_return_ConnProxy a t s = Some (px_brk s, u) \<and> link_to t a me (px_brk s) u \<and> same_node s u
    \<and> px_brk u = px_brk s + 1 \<and> (\<forall>q. q \<noteq> px_brk s \<longrightarrow> proxies u q = proxies s q)
    \<and> px_callocs u = tl (px_callocs s) \<and> ramcube_config_file u = ramcube_config_file s"
proof -
  let ?p = "px_brk s"
  obtain gs bs where g: "px_callocs s = True # gs" "connects s = True # bs" and p: "0 < ?p" using C by (auto simp: can_connect_def)
  obtain zs where zs: "push_back NULL ?p (out_places t s) = Some zs" "?p \<in> set zs"
    using push_back_room [of NULL "out_places t s"] C by (auto simp: can_connect_def)
  let ?x = "(init_ConnProxy t (Some a) zero_proxy)\<lparr>px_out := Some (type_line t me @ crlf)\<rparr>"
  define v where "v = put_out_table t zs (s\<lparr>px_brk := ?p + 1, px_callocs := gs, connects := bs, proxies := (proxies s)(?p \<mapsto> ?x)\<rparr>)"
  have V: "get_proxy ?p v = Some ?x" "out_places t v = zs" "same_node s v" "px_brk v = ?p + 1" "localname v = localname s"
    "\<forall>q. q \<noteq> ?p \<longrightarrow> proxies v q = proxies s q" "proxies v ?p = Some ?x" "px_callocs v = tl (px_callocs s)"
    "ramcube_config_file v = ramcube_config_file s"
    using k p g by (auto simp: v_def put_out_table_def out_places_def client_kinds_def get_proxy_def deref_def same_node_def)
  have tab: "out_table t = Some (out_places t)" using k by (auto simp: out_table_def out_places_def client_kinds_def fun_eq_iff)
  have cn: "connect_and_return_ConnProxy a t s
      = Option.bind (if localname v = ''primary'' \<and> t = PROXY_TYPE_PING_CLIENT then HeartBeat ?p v else Some v) (\<lambda>s. Some (?p, s))"
  proof -
    have line: "take 99 (''TYPE '' @ type_text t @ '' '' @ cf_myAddr (rc_config s) @ ''#'' @ dec_int (cf_myPort (rc_config s)) @ crlf)
        = type_line t me @ crlf"
      using type_line_length [of t me] me by (simp add: type_line_def node_name_def is_node_def)
    define r where "r = s\<lparr>px_brk := ?p + 1, px_callocs := gs, connects := bs, proxies := (proxies s)(?p \<mapsto> init_ConnProxy t (Some a) zero_proxy)\<rparr>"
    have r: "out_places t r = out_places t s" "rc_config r = rc_config s" by (simp_all add: r_def out_places_def)
    have up: "upd_proxy ?p (init_ConnProxy t (Some a)) (s\<lparr>px_brk := ?p + 1, px_callocs := gs,
        proxies := (proxies s)(?p \<mapsto> zero_proxy), connects := bs\<rparr>) = Some r"
      using p by (simp add: upd_proxy_def get_proxy_def deref_def r_def)
    have ev: "evbuffer_add ?p (type_line t me @ crlf) (put_out_table t zs r) = Some v"
      using p by (auto simp: evbuffer_add_def upd_proxy_def get_proxy_def deref_def r_def v_def put_out_table_def
          init_ConnProxy_def Let_def)
    show ?thesis
      using p up ev line zs(1) r V(5)
      by (simp add: connect_and_return_ConnProxy_def tab new_proxy_def g push_back_proxy_def)
  qed
  show ?thesis
  proof (cases "localname v = ''primary'' \<and> t = PROXY_TYPE_PING_CLIENT")
    case False
    then have "connect_and_return_ConnProxy a t s = Some (?p, v)" using cn by auto
    moreover have "link_to t a me ?p v" using V(1,2) zs(2) by (simp add: link_to_def init_ConnProxy_def zero_proxy_def)
    ultimately show ?thesis using V by blast
  next
    case True
    let ?y = "?x\<lparr>px_evt := Some HB_cb_timer, px_pending := True\<rparr>"
    from heartbeat_started [OF V(7)] p obtain u where u: "HeartBeat ?p v = Some u"
      "proxies u = (proxies v)(?p \<mapsto> ?y)" "out_places t u = out_places t v" "same_node v u" "px_brk u = px_brk v"
      "px_callocs u = px_callocs v" "ramcube_config_file u = ramcube_config_file v" by auto
    have "connect_and_return_ConnProxy a t s = Some (?p, u)" using cn u(1) True by simp
    moreover have "link_to t a me ?p u" using u(2,3) V(2) zs(2) p by (simp add: link_to_def get_proxy_def deref_def init_ConnProxy_def zero_proxy_def)
    moreover have "same_node s u" using V(3) u(4) by (simp add: same_node_def)
    ultimately show ?thesis using V u by (intro exI [of _ u]) simp
  qed
qed

lemma tokenize_loop_word: "CHR '' '' \<notin> set w \<Longrightarrow> tokenize_loop n (w @ es) cs toks = tokenize_loop n es (cs @ w) toks"
  by (induction w arbitrary: cs) auto

lemma tokenize_two:
  assumes "CHR '' '' \<notin> set (u @ v)" "u \<noteq> []" "v \<noteq> []"
  shows "tokenize_command (u @ '' '' @ v) MAX_TOKENS = [word_token u, word_token v, \<lparr>tk_value = None, tk_length = 0\<rparr>]"
  using assms tokenize_loop_word [of u MAX_TOKENS "'' '' @ v" "[]" "[]"] tokenize_loop_word [of v MAX_TOKENS "[]" "[]" "[word_token u]"]
  by (simp add: tokenize_command_def MAX_TOKENS_def)

lemma tokenize_three:
  assumes "CHR '' '' \<notin> set (u @ v @ w)" "u \<noteq> []" "v \<noteq> []" "w \<noteq> []"
  shows "tokenize_command (u @ '' '' @ v @ '' '' @ w) MAX_TOKENS
    = [word_token u, word_token v, word_token w, \<lparr>tk_value = None, tk_length = 0\<rparr>]"
  using assms tokenize_loop_word [of u MAX_TOKENS "'' '' @ v @ '' '' @ w" "[]" "[]"]
    tokenize_loop_word [of v MAX_TOKENS "'' '' @ w" "[]" "[word_token u]"]
    tokenize_loop_word [of w MAX_TOKENS "[]" "[]" "[word_token u, word_token v]"]
  by (simp add: tokenize_command_def MAX_TOKENS_def)

lemma node_name_chars: "c \<in> set (node_name a) \<Longrightarrow> isdigit c \<or> c = CHR ''.'' \<or> c = CHR ''#''"
  using sin_portnum_range [of a]
  by (auto simp: node_name_def sin_name_def dec_int_def dest: ntoa_chars isdigit_dec)

lemma type_tokens:
  "tokenize_command (type_line t a) MAX_TOKENS
    = [word_token ''TYPE'', word_token (type_text t), word_token (node_name a), \<lparr>tk_value = None, tk_length = 0\<rparr>]"
proof -
  have "CHR '' '' \<notin> set (node_name a)" using node_name_chars [of "CHR '' ''" a] by (auto simp: isdigit_def)
  moreover have "CHR '' '' \<notin> set (type_text t)" "type_text t \<noteq> []" by (simp_all add: type_text_def)
  ultimately show ?thesis using tokenize_three [of "''TYPE''" "type_text t" "node_name a"]
    by (simp add: type_line_def node_name_def)
qed

text \<open>The accepted side of a connection.\<close>

definition accepted :: "proxy_type \<Rightarrow> sockaddr_in \<Rightarrow> addr \<Rightarrow> 'a cluster_scheme \<Rightarrow> bool" where
  "accepted t' a p s \<longleftrightarrow> (\<exists>y. get_proxy p s = Some y \<and> px_type y = t' \<and> px_peerSin y = a)
     \<and> p \<in> set (if t' = PROXY_TYPE_BACKUP_SERVER then vpBackupIn s else if t' = PROXY_TYPE_PING_SERVER then vpPingIn s
        else vpCoordinatorIn s)"

text \<open>A place for the accepted connection.\<close>

definition in_room :: "proxy_type \<Rightarrow> 'a cluster_scheme \<Rightarrow> bool" where
  "in_room t' s \<longleftrightarrow> NULL \<in> set (if t' = PROXY_TYPE_BACKUP_SERVER then vpBackupIn s else if t' = PROXY_TYPE_PING_SERVER then vpPingIn s
     else vpCoordinatorIn s)"

lemma process_TYPE_ok:
  assumes k: "(t, t') \<in> client_kinds" and x: "get_proxy p s = Some x" "px_type x = PROXY_TYPE_DATA_SERVER" "p < px_brk s"
    and peer: "a \<in> set (my_peers (peer_sins t s) s)" and b: "is_node b s" and C: "sin_compare b a < 0 \<longrightarrow> can_connect t s" "in_room t' s"
  shows "\<exists>u. process_command_TYPE dns (tokenize_command (type_line t a) MAX_TOKENS) p s = Some (0, u) \<and> accepted t' a p u
    \<and> (if sin_compare b a < 0 then link_to t a b (px_brk s) u \<and> (\<forall>q. q \<noteq> p \<and> q \<noteq> px_brk s \<longrightarrow> proxies u q = proxies s q)
       else (\<forall>q. q \<noteq> p \<longrightarrow> proxies u q = proxies s q) \<and> out_places t u = out_places t s)"
proof -
  let ?toks = "tokenize_command (type_line t a) MAX_TOKENS"
  let ?ins = "\<lambda>s. if t' = PROXY_TYPE_BACKUP_SERVER then vpBackupIn s else if t' = PROXY_TYPE_PING_SERVER then vpPingIn s else vpCoordinatorIn s"
  have tk: "tok ?toks 1 = Some (type_text t)" "tok ?toks 2 = Some (node_name a)"
    by (simp_all add: type_tokens tok_def word_token_def)
  have p: "p \<noteq> NULL" "proxies s p = Some x" using x(1) by (auto simp: get_proxy_def deref_def split: if_splits)
  obtain zs where zs: "push_back NULL p (?ins s) = Some zs" "p \<in> set zs"
    using push_back_room [of NULL "?ins s" p] C(2) unfolding in_room_def by blast
  define s1 where "s1 = s\<lparr>proxies := (proxies s)(p \<mapsto> x\<lparr>px_type := t', px_peerSin := a\<rparr>)\<rparr>"
  define v where "v = (if t' = PROXY_TYPE_PING_SERVER then s1\<lparr>vpPingIn := snd (push_back_proxy p (vpPingIn s1))\<rparr>
           else if t' = PROXY_TYPE_BACKUP_SERVER then s1\<lparr>vpBackupIn := snd (push_back_proxy p (vpBackupIn s1))\<rparr>
           else s1\<lparr>vpCoordinatorIn := snd (push_back_proxy p (vpCoordinatorIn s1))\<rparr>)"
  have V: "proxies v = (proxies s)(p \<mapsto> x\<lparr>px_type := t', px_peerSin := a\<rparr>)" "?ins v = zs" "is_node b v" "sin_compare b a < 0 \<longrightarrow> can_connect t v"
    "px_brk v = px_brk s" "out_places t v = out_places t s"
    using zs(1) b C(1) k by (auto simp: v_def s1_def is_node_def can_connect_def out_places_def push_back_proxy_def client_kinds_def)
  have peers: "list_ex (same_sin a) (my_peers (peer_sins t s) s1)"
    using peer by (simp add: list_ex_iff same_sin_eq my_peers_def s1_def)
  have up: "upd_proxy p (\<lambda>x. x\<lparr>px_type := t', px_peerSin := a\<rparr>) s = Some s1"
    using p by (simp add: upd_proxy_def x(1) s1_def)
  have run: "process_command_TYPE dns ?toks p s
      = Option.bind (if sin_compare b a < 0 then map_option snd (connect_and_return_ConnProxy a t v) else Some v) (\<lambda>s. Some (0, s))"
  proof -
    have cfg: "cf_myAddr (rc_config v) = sin_name b" "cf_myPort (rc_config v) = sin_portnum b"
      using V(3) by (simp_all add: is_node_def)
    have "process_command_TYPE dns ?toks p s = Option.bind (upd_proxy p (\<lambda>x. x\<lparr>px_type := t', px_peerSin := a\<rparr>) s) (\<lambda>s.
        if \<not> list_ex (same_sin a) (my_peers (peer_sins t s') s) then Some (-1, s)
        else Option.bind (if sin_compare b a < 0 then map_option snd (connect_and_return_ConnProxy a t v) else Some v) (\<lambda>s. Some (0, s)))"
      if "s' = s" for s'
      using k x tk up cfg that unfolding process_command_TYPE_def
      by (auto simp: set_sin_node_name client_kinds_def type_text_def peer_sins_def v_def sin_compare_def Let_def)
    from this [OF refl] show ?thesis using up peers by simp
  qed
  have acc: "accepted t' a p u" if "proxies u p = proxies v p" "?ins u = ?ins v" for u
    using that V(1,2) zs(2) p by (simp add: accepted_def get_proxy_def deref_def)
  show ?thesis
  proof (cases "sin_compare b a < 0")
    case False
    then show ?thesis using run acc [of v] V(1,6) by simp
  next
    case True
    from connect_ok [OF k mp [OF V(4) True] V(3), of a] obtain u where u: "connect_and_return_ConnProxy a t v = Some (px_brk v, u)"
      "link_to t a b (px_brk v) u" "same_node v u" "\<forall>q. q \<noteq> px_brk v \<longrightarrow> proxies u q = proxies v q" by blast
    have "accepted t' a p u" using u(3,4) V(5) x(3) by (intro acc) (simp_all add: same_node_def)
    moreover have "proxies u q = proxies s q" if "q \<noteq> p" "q \<noteq> px_brk s" for q using that u(4) V(1,5) by simp
    ultimately show ?thesis using run True u V(5) by simp
  qed
qed

text \<open>The proxies of one kind for the connections with a peer.\<close>

definition links :: "proxy_type \<Rightarrow> sockaddr_in \<Rightarrow> 'a cluster_scheme \<Rightarrow> addr set" where
  "links k a s = {p. \<exists>x. get_proxy p s = Some x \<and> px_type x = k \<and> px_peerSin x = a}"

text \<open>
  A node before it has any connection with its only peer \<open>a\<close> of the kind, with memory for two proxies, a socket, and
  places in the tables.
\<close>

definition fresh_peer :: "proxy_type \<Rightarrow> proxy_type \<Rightarrow> sockaddr_in \<Rightarrow> sockaddr_in \<Rightarrow> 'a cluster_scheme \<Rightarrow> bool" where
  "fresh_peer t t' me a s \<longleftrightarrow> is_node me s \<and> my_peers (peer_sins t s) s = [a] \<and> ramcube_config_file s \<noteq> None
     \<and> 0 < px_brk s \<and> (\<exists>gs. px_callocs s = True # True # gs) \<and> (\<exists>bs. connects s = True # bs)
     \<and> NULL \<in> set (out_places t s) \<and> in_room t' s \<and> links t a s = {} \<and> links t' a s = {}"

lemma fresh_peer_connects: "fresh_peer t t' me a s \<Longrightarrow> can_connect t s"
  by (auto simp: fresh_peer_def can_connect_def)

text \<open>The only peer of a kind is connected to at the start when its address is the smaller one.\<close>

lemma init_smaller_single:
  fixes s :: "'a cluster_scheme"
  assumes "(t, t') \<in> client_kinds" "my_peers (peer_sins t s) s = [a]" "is_node me s"
  shows "init_smaller_proxies t s = (if 0 < sin_compare me a
    then map_option (\<lambda>r. (0, snd r)) (connect_and_return_ConnProxy a t s) else Some (0, s))"
proof -
  obtain i rest where i: "peer_sins t s = Some i # rest" "fst (neighbors s ! i) = a" "takeWhile (\<lambda>i. i \<noteq> None) rest = []"
    using assms(2) by (cases "peer_sins t s") (auto simp: my_peers_def split: if_splits)
  have stop: "connect_smaller rest t u = Some u" for u :: "'a cluster_scheme"
    using i(3) by (cases rest) (auto split: if_splits)
  have "init_smaller_proxies t s = map_option (Pair 0) (connect_smaller (peer_sins t s) t s)"
    using assms(1) by (auto simp: init_smaller_proxies_def peer_sins_def client_kinds_def)
  also have "\<dots> = (if 0 < sin_compare me a
    then map_option (\<lambda>r. (0, snd r)) (connect_and_return_ConnProxy a t s) else Some (0, s))"
    unfolding i(1) using assms(3) i(2) stop
    by (cases "connect_and_return_ConnProxy a t s") (simp_all add: sin_compare_def is_node_def Let_def)
  finally show ?thesis .
qed

text \<open>A connection that comes in has a proxy of its own.\<close>

lemma server_proxy_ok:
  assumes "ramcube_config_file s \<noteq> None" "px_callocs s = True # gs" "0 < px_brk s"
  shows "\<exists>u. ramcube_server_proxy_new ca c s = Some (c\<lparr>cn_ramcube_proxy := px_brk s\<rparr>, u)
    \<and> get_proxy (px_brk s) u = Some (zero_proxy\<lparr>px_connection := ca, px_type := PROXY_TYPE_DATA_SERVER\<rparr>)
    \<and> (\<forall>q. q \<noteq> px_brk s \<longrightarrow> proxies u q = proxies s q) \<and> px_brk u = px_brk s + 1 \<and> px_callocs u = gs \<and> connects u = connects s
    \<and> rc_config u = rc_config s \<and> my_peers (peer_sins t u) u = my_peers (peer_sins t s) s \<and> out_places t u = out_places t s
    \<and> in_room t' u = in_room t' s"
  using assms by (simp add: ramcube_server_proxy_new_def new_proxy_def upd_proxy_def get_proxy_def deref_def my_peers_def
      peer_sins_def out_places_def in_room_def)

lemma same_proxies: "proxies u p = proxies s p \<Longrightarrow> get_proxy p u = get_proxy p s"
  by (simp add: get_proxy_def deref_def)

lemma kinds_differ: "(t, t') \<in> client_kinds \<Longrightarrow> t \<noteq> t' \<and> t \<noteq> PROXY_TYPE_DATA_SERVER \<and> t' \<noteq> PROXY_TYPE_DATA_SERVER"
  by (auto simp: client_kinds_def)

lemma links_among:
  assumes "links k a s = {}" "\<forall>q. q \<notin> P \<longrightarrow> proxies u q = proxies s q"
  shows "links k a u = {q \<in> P. \<exists>x. get_proxy q u = Some x \<and> px_type x = k \<and> px_peerSin x = a}"
proof -
  have "q \<in> P" if "q \<in> links k a u" for q
  proof (rule ccontr)
    assume "q \<notin> P"
    then have "get_proxy q u = get_proxy q s" using assms(2) by (intro same_proxies) blast
    with that assms(1) show False by (auto simp: links_def)
  qed
  then show ?thesis by (auto simp: links_def)
qed

text \<open>
  Property C16.
  Two peers end up with exactly one connection in each direction. When both start, the comparison of the addresses
  makes only the node \<open>a\<close> with the greater one open a connection and send its name. The other node accepts this
  connection, which gets a new proxy, recognises its peer, enters the connection as that of the peer and, by the same
  comparison, opens one in its turn; \<open>a\<close> accepts and enters this one and opens no further one. In the end each node
  has one proxy for its own connection to the peer and one for that of the peer.
\<close>

theorem handshake:
  assumes "(t, t') \<in> client_kinds" and "0 < sin_compare a b" and "fresh_peer t t' a b sa" and "fresh_peer t t' b a sb"
  shows "\<exists>sa1 sa2 sa3 sb2 sb3 pa pb qb.
      init_smaller_proxies t sa = Some (0, sa1) \<and> link_to t b a (px_brk sa) sa1 \<and> init_smaller_proxies t sb = Some (0, sb)
    \<and> ramcube_server_proxy_new cb c sb = Some (c\<lparr>cn_ramcube_proxy := pb\<rparr>, sb2)
    \<and> process_command_TYPE dns (tokenize_command (type_line t a) MAX_TOKENS) pb sb2 = Some (0, sb3)
    \<and> accepted t' a pb sb3 \<and> link_to t a b qb sb3 \<and> links t' a sb3 = {pb} \<and> links t a sb3 = {qb}
    \<and> ramcube_server_proxy_new ca d sa1 = Some (d\<lparr>cn_ramcube_proxy := pa\<rparr>, sa2)
    \<and> process_command_TYPE dns (tokenize_command (type_line t b) MAX_TOKENS) pa sa2 = Some (0, sa3)
    \<and> accepted t' b pa sa3 \<and> link_to t b a (px_brk sa) sa3 \<and> links t' b sa3 = {pa} \<and> links t b sa3 = {px_brk sa}"
proof -
  note k = kinds_differ [OF assms(1)]
  have less: "sin_compare b a < 0" using assms(2) sin_compare_antisym [of b a] by simp
  obtain gs where A: "is_node a sa" "my_peers (peer_sins t sa) sa = [b]" "ramcube_config_file sa \<noteq> None" "0 < px_brk sa"
    "px_callocs sa = True # True # gs" "in_room t' sa" "links t b sa = {}" "links t' b sa = {}"
    using assms(3) by (auto simp: fresh_peer_def)
  obtain hs bs where B: "is_node b sb" "my_peers (peer_sins t sb) sb = [a]" "ramcube_config_file sb \<noteq> None" "0 < px_brk sb"
    "px_callocs sb = True # True # hs" "connects sb = True # bs" "NULL \<in> set (out_places t sb)" "in_room t' sb"
    "links t a sb = {}" "links t' a sb = {}"
    using assms(4) by (auto simp: fresh_peer_def)
  obtain sa1 where a1: "connect_and_return_ConnProxy b t sa = Some (px_brk sa, sa1)" "link_to t b a (px_brk sa) sa1"
    "same_node sa sa1" "px_brk sa1 = px_brk sa + 1" "\<forall>q. q \<noteq> px_brk sa \<longrightarrow> proxies sa1 q = proxies sa q"
    "px_callocs sa1 = True # gs" "ramcube_config_file sa1 = ramcube_config_file sa"
    using connect_ok [OF assms(1) fresh_peer_connects [OF assms(3)] A(1), of b] A(5) by auto
  have ia: "init_smaller_proxies t sa = Some (0, sa1)"
    using init_smaller_single [OF assms(1) A(2,1)] assms(2) a1(1) by simp
  have ib: "init_smaller_proxies t sb = Some (0, sb)"
    using init_smaller_single [OF assms(1) B(2,1)] less by simp
  define pb where "pb = px_brk sb"
  obtain sb2 where b2: "ramcube_server_proxy_new cb c sb = Some (c\<lparr>cn_ramcube_proxy := pb\<rparr>, sb2)"
    "get_proxy pb sb2 = Some (zero_proxy\<lparr>px_connection := cb, px_type := PROXY_TYPE_DATA_SERVER\<rparr>)"
    "\<forall>q. q \<noteq> pb \<longrightarrow> proxies sb2 q = proxies sb q" "px_brk sb2 = pb + 1" "px_callocs sb2 = True # hs" "connects sb2 = connects sb"
    "rc_config sb2 = rc_config sb" "my_peers (peer_sins t sb2) sb2 = [a]" "out_places t sb2 = out_places t sb" "in_room t' sb2"
    using server_proxy_ok [OF B(3,5,4), of cb c t t'] B(2,8) unfolding pb_def by auto
  have cb: "can_connect t sb2" using b2(4-6,9) B(6,7) by (auto simp: can_connect_def)
  define qb where "qb = px_brk sb2"
  have q: "qb \<noteq> pb" by (simp add: qb_def b2(4))
  obtain sb3 where b3: "process_command_TYPE dns (tokenize_command (type_line t a) MAX_TOKENS) pb sb2 = Some (0, sb3)"
    "accepted t' a pb sb3" "link_to t a b qb sb3" "\<forall>q. q \<noteq> pb \<and> q \<noteq> qb \<longrightarrow> proxies sb3 q = proxies sb2 q"
    using process_TYPE_ok [OF assms(1) b2(2), of a b dns] b2(4,7,8,10) B(1) cb less unfolding qb_def
    by (auto simp: is_node_def)
  have pb3: "\<forall>q. q \<notin> {pb, qb} \<longrightarrow> proxies sb3 q = proxies sb q" using b2(3) b3(4) by simp
  have lb: "links t' a sb3 = {pb}" "links t a sb3 = {qb}"
    unfolding links_among [OF B(10) pb3] links_among [OF B(9) pb3]
    using b3(2,3) k q by (auto simp: accepted_def link_to_def)
  define pa where "pa = px_brk sa1"
  have p: "pa \<noteq> px_brk sa" by (simp add: pa_def a1(4))
  have "my_peers (peer_sins t sa1) sa1 = [b]" "in_room t' sa1" "is_node a sa1"
    using a1(3) A(1,2,6) by (auto simp: same_node_def my_peers_def peer_sins_def in_room_def is_node_def)
  moreover obtain sa2 where a2: "ramcube_server_proxy_new ca d sa1 = Some (d\<lparr>cn_ramcube_proxy := pa\<rparr>, sa2)"
    "get_proxy pa sa2 = Some (zero_proxy\<lparr>px_connection := ca, px_type := PROXY_TYPE_DATA_SERVER\<rparr>)"
    "\<forall>q. q \<noteq> pa \<longrightarrow> proxies sa2 q = proxies sa1 q" "px_brk sa2 = pa + 1" "rc_config sa2 = rc_config sa1"
    "my_peers (peer_sins t sa2) sa2 = my_peers (peer_sins t sa1) sa1" "out_places t sa2 = out_places t sa1"
    "in_room t' sa2 = in_room t' sa1"
    using server_proxy_ok [of sa1 gs ca d t t'] a1(4,6,7) A(3) unfolding pa_def by auto
  ultimately obtain sa3 where a3: "process_command_TYPE dns (tokenize_command (type_line t b) MAX_TOKENS) pa sa2 = Some (0, sa3)"
    "accepted t' b pa sa3" "\<forall>q. q \<noteq> pa \<longrightarrow> proxies sa3 q = proxies sa2 q" "out_places t sa3 = out_places t sa2"
    using process_TYPE_ok [OF assms(1) a2(2), of b a dns] a2(4) assms(2) by (auto simp: is_node_def)
  have pa3: "\<forall>q. q \<notin> {pa, px_brk sa} \<longrightarrow> proxies sa3 q = proxies sa q" using a1(5) a2(3) a3(3) by simp
  have "get_proxy (px_brk sa) sa3 = get_proxy (px_brk sa) sa1" using p a2(3) a3(3) by (intro same_proxies) simp
  then have l: "link_to t b a (px_brk sa) sa3" using a1(2) a2(7) a3(4) by (simp add: link_to_def)
  have la: "links t' b sa3 = {pa}" "links t b sa3 = {px_brk sa}"
    unfolding links_among [OF A(8) pa3] links_among [OF A(7) pa3]
    using a3(2) l k p by (auto simp: accepted_def link_to_def)
  show ?thesis
    by (intro exI [of _ sa1] exI [of _ sa2] exI [of _ sa3] exI [of _ sb2] exI [of _ sb3] exI [of _ pa] exI [of _ pb] exI [of _ qb]
        conjI ia ib a1(2) b2(1) b3(1-3) lb a2(1) a3(1,2) l la)
qed

text \<open>A node with one neighbour and one client.\<close>

definition zero_heartbeat :: heartbeat_info where
  "zero_heartbeat = \<lparr>hb_ip = [], hb_port = 0, hb_MaxTimes = 0, hb_used = False\<rparr>"

definition node_boot :: "sockaddr_in \<Rightarrow> sockaddr_in \<Rightarrow> cluster" where
  "node_boot me peer = machine.extend (machine_boot bin_conn [] []) (cluster.fields
     \<lparr>cf_me = me, cf_myAddr = sin_name me, cf_myPort = sin_portnum me, cf_nRecoveriesPerBackup = 2, cf_resultFileName = []\<rparr>
     ''me'' [(peer, True)] [Some 0] [Some 0] [Some 0] [NULL] [NULL] [NULL] [3] [NULL] [NULL] [NULL] [NULL]
     [1 \<mapsto> zero_proxy\<lparr>px_peerSin := peer, px_connection := 10\<rparr>, 2 \<mapsto> zero_proxy\<lparr>px_type := PROXY_TYPE_BACKUP_CLIENT, px_out := Some []\<rparr>,
      3 \<mapsto> zero_proxy\<lparr>px_type := PROXY_TYPE_COORDINATOR_CLIENT, px_out := Some []\<rparr>]
     4 [True] [True] 10 Map.empty (replicate 5 zero_heartbeat) [] False False seg_boot (\<lambda>_. '''') (\<lambda>_. CHR 0x00))"

definition host_a :: sockaddr_in where "host_a = \<lparr>sin_addr = 2, sin_port = 1\<rparr>"
definition host_b :: sockaddr_in where "host_b = \<lparr>sin_addr = 1, sin_port = 1\<rparr>"

lemma node_boot_fields:
  "rc_config (node_boot me peer) = \<lparr>cf_me = me, cf_myAddr = sin_name me, cf_myPort = sin_portnum me,
     cf_nRecoveriesPerBackup = 2, cf_resultFileName = []\<rparr>"
  "neighbors (node_boot me peer) = [(peer, True)]" "vpBackupSins (node_boot me peer) = [Some 0]"
  "vpBackupOut (node_boot me peer) = [NULL]" "vpBackupIn (node_boot me peer) = [NULL]"
  "vpCoordinatorOut (node_boot me peer) = [3]" "px_brk (node_boot me peer) = 4" "px_callocs (node_boot me peer) = [True]"
  "connects (node_boot me peer) = [True]" "PrimaryTable (node_boot me peer) = replicate 5 zero_heartbeat"
  "proxies (node_boot me peer) = [1 \<mapsto> zero_proxy\<lparr>px_peerSin := peer, px_connection := 10\<rparr>,
      2 \<mapsto> zero_proxy\<lparr>px_type := PROXY_TYPE_BACKUP_CLIENT, px_out := Some []\<rparr>,
      3 \<mapsto> zero_proxy\<lparr>px_type := PROXY_TYPE_COORDINATOR_CLIENT, px_out := Some []\<rparr>]"
  "cur_conn (node_boot me peer) = 10" "conns (node_boot me peer) = Map.empty" "backup_mem (node_boot me peer) = seg_boot"
  "slack (node_boot me peer) = (\<lambda>_. '''')" "con (node_boot me peer) = bin_conn"
  by (simp_all add: node_boot_def machine_boot_def machine.defs server.defs cluster.defs)

lemma node_boot_fresh:
  "fresh_peer PROXY_TYPE_BACKUP_CLIENT PROXY_TYPE_BACKUP_SERVER me peer
     ((node_boot me peer)\<lparr>ramcube_config_file := Some ''conf'', proxies := Map.empty, px_callocs := [True, True]\<rparr>)"
  by (simp add: fresh_peer_def is_node_def node_boot_fields my_peers_def peer_sins_def in_room_def out_places_def
      links_def get_proxy_def deref_def)

theorem handshake_witness:
  "\<exists>sa sa3 sb3 qb pa pb. init_smaller_proxies PROXY_TYPE_BACKUP_CLIENT
        ((node_boot host_a host_b)\<lparr>ramcube_config_file := Some ''conf'', proxies := Map.empty, px_callocs := [True, True]\<rparr>) = Some (0, sa)
    \<and> link_to PROXY_TYPE_BACKUP_CLIENT host_b host_a 4 sa
    \<and> link_to PROXY_TYPE_BACKUP_CLIENT host_a host_b qb (sb3 :: cluster) \<and> accepted PROXY_TYPE_BACKUP_SERVER host_a pb sb3
    \<and> link_to PROXY_TYPE_BACKUP_CLIENT host_b host_a 4 (sa3 :: cluster) \<and> accepted PROXY_TYPE_BACKUP_SERVER host_b pa sa3"
proof -
  have k: "(PROXY_TYPE_BACKUP_CLIENT, PROXY_TYPE_BACKUP_SERVER) \<in> client_kinds" by (simp add: client_kinds_def)
  have c: "0 < sin_compare host_a host_b"
    by (simp add: sin_compare_def inet_addr_compare_def sin_name_def inet_aton_ntoa host_a_def host_b_def)
  have b: "px_brk ((node_boot host_a host_b)\<lparr>ramcube_config_file := Some ''conf'', proxies := Map.empty, px_callocs := [True, True]\<rparr>) = 4"
    by (simp add: node_boot_fields)
  show ?thesis
    using handshake [OF k c node_boot_fresh node_boot_fresh, of 10 bin_conn "\<lambda>_. None" 11 bin_conn] unfolding b by blast
qed

section \<open>Heartbeats\<close>

text \<open>
  What the watching node sees of a peer on the proxy \<open>p\<close>: a heartbeat, or the timer.
\<close>

datatype watch_event = Beat | Tick

definition watch_step :: "addr \<Rightarrow> watch_event \<Rightarrow> 'a cluster_scheme \<Rightarrow> 'a cluster_scheme option" where
  "watch_step p e s = (case e of Beat \<Rightarrow> receive_heartbeat p s | Tick \<Rightarrow> recovery_cb p s)"

fun watch_run :: "addr \<Rightarrow> watch_event list \<Rightarrow> 'a cluster_scheme \<Rightarrow> 'a cluster_scheme option" where
  "watch_run p [] s = Some s"
| "watch_run p (e # es) s = Option.bind (watch_step p e s) (watch_run p es)"

text \<open>The seconds that passed against the heartbeats that came.\<close>

definition balance :: "watch_event list \<Rightarrow> int" where
  "balance es = int (count_list es Tick) - int (count_list es Beat)"

definition crash_line :: "sockaddr_in \<Rightarrow> string" where
  "crash_line a = ''CRASH'' @ crlf @ sin_name a @ '':'' @ dec_int (sin_portnum a) @ crlf"

text \<open>What was sent to the coordinator, over a proxy other than \<open>p\<close>.\<close>

definition told :: "addr \<Rightarrow> string \<Rightarrow> 'a cluster_scheme \<Rightarrow> bool" where
  "told p out s \<longleftrightarrow> (\<exists>c cs x. vpCoordinatorOut s = c # cs \<and> c \<noteq> p \<and> get_proxy c s = Some x \<and> px_out x = Some out)"

definition timer :: "addr \<Rightarrow> bool \<Rightarrow> sockaddr_in \<Rightarrow> 'a cluster_scheme \<Rightarrow> bool" where
  "timer p armed a s \<longleftrightarrow> (\<exists>x. get_proxy p s = Some x \<and> px_peerSin x = a \<and> px_pending x = armed)"

text \<open>The entry of the peer, and the number in it.\<close>

definition entry :: "sockaddr_in \<Rightarrow> int \<Rightarrow> heartbeat_info list \<Rightarrow> bool" where
  "entry a n hs \<longleftrightarrow> (\<exists>us h vs. hs = us @ h # vs \<and> hb_matches a h \<and> hb_MaxTimes h = n \<and> (\<forall>u\<in>set us. hb_used u \<and> \<not> hb_matches a u)
     \<and> (\<forall>v\<in>set vs. \<not> hb_matches a v))"

lemma note_heartbeat_known: "entry a n hs \<Longrightarrow> \<exists>ks. note_heartbeat a hs = (False, ks) \<and> entry a (n - 1) ks"
proof -
  assume "entry a n hs"
  then obtain us h vs where e: "hs = us @ h # vs" "hb_matches a h" "hb_MaxTimes h = n"
    "\<forall>u\<in>set us. hb_used u \<and> \<not> hb_matches a u" "\<forall>v\<in>set vs. \<not> hb_matches a v" by (auto simp: entry_def)
  have "note_heartbeat a (us @ h # vs) = (False, us @ h\<lparr>hb_MaxTimes := n - 1\<rparr> # vs)"
    using e(2-4) by (induction us) auto
  moreover have "hb_matches a (h\<lparr>hb_MaxTimes := n - 1\<rparr>)" using e(2) by (simp add: hb_matches_def)
  ultimately show ?thesis using e unfolding entry_def by fastforce
qed

lemma note_heartbeat_new:
  assumes "hs = us @ h # vs" "\<not> hb_used h" "\<forall>k\<in>set hs. \<not> hb_matches a k" "\<forall>u\<in>set us. hb_used u"
  shows "\<exists>ks. note_heartbeat a hs = (True, ks) \<and> entry a (hb_MaxTimes h) ks"
proof -
  let ?k = "h\<lparr>hb_used := True, hb_ip := sin_name a, hb_port := sin_portnum a\<rparr>"
  have "note_heartbeat a (us @ h # vs) = (True, us @ ?k # vs)"
    using assms(2-4) unfolding assms(1) by (induction us) auto
  moreover have "hb_matches a ?k" by (simp add: hb_matches_def)
  then have "entry a (hb_MaxTimes h) (us @ ?k # vs)"
    unfolding entry_def using assms by (intro exI [of _ us] exI [of _ ?k] exI [of _ vs]) simp
  ultimately show ?thesis using assms(1) by blast
qed

lemma count_missed_none: "\<forall>v\<in>set vs. \<not> hb_matches a v \<Longrightarrow> count_missed a vs = (False, vs)"
  by (induction vs) auto

lemma count_missed_known: "entry a n hs \<Longrightarrow> \<exists>ks. count_missed a hs = (2 < n + 1, ks) \<and> entry a (n + 1) ks"
proof -
  assume "entry a n hs"
  then obtain us h vs where e: "hs = us @ h # vs" "hb_matches a h" "hb_MaxTimes h = n"
    "\<forall>u\<in>set us. hb_used u \<and> \<not> hb_matches a u" "\<forall>v\<in>set vs. \<not> hb_matches a v" by (auto simp: entry_def)
  have "count_missed a (us @ h # vs) = (2 < n + 1, us @ h\<lparr>hb_MaxTimes := n + 1\<rparr> # vs)"
    using e(2-5) count_missed_none [of vs a] by (induction us) (auto simp: Let_def)
  moreover have "hb_matches a (h\<lparr>hb_MaxTimes := n + 1\<rparr>)" using e(2) by (simp add: hb_matches_def)
  ultimately show ?thesis using e unfolding entry_def by fastforce
qed

lemma told_cong:
  "told p out s \<Longrightarrow> vpCoordinatorOut t = vpCoordinatorOut s \<Longrightarrow> \<forall>q. q \<noteq> p \<longrightarrow> proxies t q = proxies s q \<Longrightarrow> told p out t"
  unfolding told_def get_proxy_def deref_def by metis

lemma beat_known:
  assumes "timer p armed a s" "entry a n (PrimaryTable s)" "told p out s"
  shows "\<exists>t. receive_heartbeat p s = Some t \<and> timer p armed a t \<and> entry a (n - 1) (PrimaryTable t) \<and> told p out t"
  using note_heartbeat_known [OF assms(2)] assms(1,3)
  by (auto simp: receive_heartbeat_def timer_def told_def get_proxy_def)

lemma beat_new:
  assumes "get_proxy p s = Some x" "px_peerSin x = a" "PrimaryTable s = us @ h # vs" "\<not> hb_used h"
    "\<forall>k\<in>set (PrimaryTable s). \<not> hb_matches a k" "\<forall>u\<in>set us. hb_used u" "told p out s"
  shows "\<exists>t. receive_heartbeat p s = Some t \<and> timer p True a t \<and> entry a (hb_MaxTimes h) (PrimaryTable t) \<and> told p out t"
proof -
  obtain ks where ks: "note_heartbeat a (PrimaryTable s) = (True, ks)" "entry a (hb_MaxTimes h) ks"
    using note_heartbeat_new [OF assms(3,4,5,6)] by blast
  have p: "proxies s p = Some x" "p \<noteq> NULL" using assms(1) by (auto simp: get_proxy_def deref_def split: if_splits)
  obtain t where "receive_heartbeat p s = Some t" "proxies t = (proxies s)(p \<mapsto> x\<lparr>px_evt := Some recovery_cb_timer, px_pending := True\<rparr>)"
    "PrimaryTable t = ks" "vpCoordinatorOut t = vpCoordinatorOut s"
    using p assms(2) ks(1) by (cases "autoAddTimes_initialized s")
      (simp_all add: receive_heartbeat_def autoAddTimes_def evtimer_del_def set_timer_def upd_proxy_def get_proxy_def deref_def)
  moreover from this have "told p out t" by (intro told_cong [OF assms(7)]) simp_all
  moreover have "timer p True a t" using calculation(2) p assms(2) by (simp add: timer_def get_proxy_def deref_def)
  ultimately show ?thesis using ks(2) by auto
qed

lemma tick_known:
  assumes "timer p True a s" "entry a n (PrimaryTable s)" "told p out s"
  shows "\<exists>t. recovery_cb p s = Some t \<and> timer p (n \<le> 1) a t \<and> entry a (n + 1) (PrimaryTable t)
    \<and> told p (if n \<le> 1 then out else out @ crash_line a) t"
proof -
  obtain x where x: "proxies s p = Some x" "p \<noteq> NULL" "px_peerSin x = a"
    using assms(1) by (auto simp: timer_def get_proxy_def deref_def split: if_splits)
  obtain c cs y where c: "vpCoordinatorOut s = c # cs" "c \<noteq> p" "proxies s c = Some y" "c \<noteq> NULL" "px_out y = Some out"
    using assms(3) by (auto simp: told_def get_proxy_def deref_def split: if_splits)
  obtain ks where ks: "count_missed a (PrimaryTable s) = (2 < n + 1, ks)" "entry a (n + 1) ks"
    using count_missed_known [OF assms(2)] by blast
  show ?thesis
  proof (cases "n \<le> 1")
    case True
    then show ?thesis using x c ks
      by (auto simp: recovery_cb_def upd_proxy_def get_proxy_def deref_def timer_def told_def Let_def)
  next
    case False
    then show ?thesis using x c ks
      by (auto simp: recovery_cb_def upd_proxy_def get_proxy_def deref_def timer_def told_def evbuffer_add_def crash_line_def Let_def)
  qed
qed

text \<open>At no time did three seconds more pass than heartbeats came.\<close>

definition in_time :: "watch_event list \<Rightarrow> bool" where
  "in_time es \<longleftrightarrow> (\<forall>k. balance (take k es) \<le> 2)"

lemma watch_known:
  assumes "timer p True a s" "entry a n (PrimaryTable s)" "told p out s" "n \<le> 2" "\<forall>k. n + balance (take k es) \<le> 2"
  shows "\<exists>t. watch_run p es s = Some t \<and> timer p True a t \<and> entry a (n + balance es) (PrimaryTable t) \<and> told p out t"
  using assms
proof (induction es arbitrary: s n)
  case Nil
  then show ?case by (simp add: balance_def)
next
  case (Cons e es)
  have step: "balance (e # xs) = (case e of Beat \<Rightarrow> -1 | Tick \<Rightarrow> 1) + balance xs" for xs
    by (cases e) (simp_all add: balance_def)
  define m where "m = n + (case e of Beat \<Rightarrow> -1 | Tick \<Rightarrow> 1)"
  have later: "\<forall>k. m + balance (take k es) \<le> 2"
  proof
    fix k show "m + balance (take k es) \<le> 2" using spec [OF Cons.prems(5), of "Suc k"] by (simp add: step m_def)
  qed
  then have m: "m \<le> 2" using spec [OF later, of 0] by (simp add: balance_def)
  have "\<exists>u. watch_step p e s = Some u \<and> timer p True a u \<and> entry a m (PrimaryTable u) \<and> told p out u"
  proof (cases e)
    case Beat
    then show ?thesis using beat_known [OF Cons.prems(1-3)] by (simp add: watch_step_def m_def)
  next
    case Tick
    then show ?thesis using tick_known [OF Cons.prems(1-3)] m by (simp add: watch_step_def m_def)
  qed
  then obtain u where u: "watch_step p e s = Some u" "timer p True a u" "entry a m (PrimaryTable u)" "told p out u" by blast
  from Cons.IH [OF u(2-4) m later] show ?case using u(1) by (simp add: step m_def add.assoc)
qed



section \<open>The copy of an item\<close>

lemma out_string_con: "out_string str s = Some t \<Longrightarrow> \<exists>c. t = s\<lparr>con := c\<rparr>"
  by (auto simp: out_string_def conn_set_state_def on_con_def put_wbuf_def upd_con_def Let_def bind_eq_Some_conv
      split: if_splits option.splits prod.splits)

text \<open>
  A primary that has stored an item in a chunk with null characters behind the key and behind the value, with the connection to the backup that its key selects.\<close>

definition stores :: "sockaddr_in \<Rightarrow> string \<Rightarrow> string \<Rightarrow> addr \<Rightarrow> string \<Rightarrow> 'a cluster_scheme \<Rightarrow> bool" where
  "stores me key value q out s \<longleftrightarrow> (let it = cn_item (con s) in
     ramcube_config_file s \<noteq> None \<and> it \<noteq> NULL \<and> is_node me s
     \<and> (\<exists>x. get_proxy (cn_ramcube_proxy (con s)) s = Some x \<and> px_type x \<in> {PROXY_TYPE_DATA_SERVER, PROXY_TYPE_RECOVERY_SERVER})
     \<and> cstr (ITEM_key (mem s it)) = key \<and> it_value (mem s it) = value @ crlf \<and> sint (it_nbytes (mem s it)) = int (length value) + 2
     \<and> key_gap s it = CHR 0x00 \<and> (\<exists>rest. slack s it = CHR 0x00 # rest)
     \<and> q = get_backup_proxy_by_key (ITEM_key (mem s it)) s \<and> (\<exists>y. get_proxy q s = Some y \<and> px_out y = Some out))"

definition node_addr :: "sockaddr_in \<Rightarrow> string \<times> nat" where
  "node_addr a = (sin_name a, nat (sin_portnum a))"

lemma evbuffer_add_ok:
  assumes "get_proxy q s = Some y" "px_out y = Some out"
  shows "\<exists>t z. evbuffer_add q bs s = Some t \<and> get_proxy q t = Some z \<and> px_out z = Some (out @ bs) \<and> rc_config t = rc_config s"
  using assms by (auto simp: evbuffer_add_def upd_proxy_def get_proxy_def deref_def split: if_splits)

lemma key_string: "cstr k = key \<Longrightarrow> str_of (k @ [CHR 0x00] @ w) = Some key"
proof (cases "CHR 0x00 \<in> set k")
  case True
  then show "cstr k = key \<Longrightarrow> ?thesis" by (simp add: str_of_def cstr_def)
next
  case False
  then have "\<forall>c\<in>set k. c \<noteq> CHR 0x00" by auto
  then have "takeWhile (\<lambda>c. c \<noteq> CHR 0x00) k = k" by (simp add: takeWhile_eq_all_conv)
  with \<open>\<forall>c\<in>set k. c \<noteq> CHR 0x00\<close> show "cstr k = key \<Longrightarrow> ?thesis" by (simp add: str_of_def cstr_def)
qed

text \<open>Without a null character behind the key, the key that is sent runs on into the suffix.\<close>

lemma key_runs_on:
  assumes "CHR 0x00 \<notin> set k" "g \<noteq> CHR 0x00" "str_of (k @ [g] @ w) = Some key"
  shows "\<exists>rest. key = k @ g # rest"
proof -
  have "\<forall>c\<in>set k. c \<noteq> CHR 0x00" using assms(1) by auto
  then show ?thesis using assms(2,3) by (auto simp: str_of_def cstr_def split: if_splits)
qed

lemma post_set_data_ok:
  assumes S: "stores me key value q out s" and M: "message_ok key value (node_addr me) ob"
  shows "\<exists>t z. ramcube_post_set_data s = Some (0, t) \<and> get_proxy q t = Some z
    \<and> px_out z = Some (out @ ''BACKUP_REQUEST '' @ dec (cur_conn s) @ crlf @ item_message ob (node_addr me))"
proof -
  let ?it = "cn_item (con s)"
  obtain x y rest where s: "ramcube_config_file s \<noteq> None" "?it \<noteq> NULL" "is_node me s" "get_proxy (cn_ramcube_proxy (con s)) s = Some x"
    "px_type x \<in> {PROXY_TYPE_DATA_SERVER, PROXY_TYPE_RECOVERY_SERVER}" "cstr (ITEM_key (mem s ?it)) = key"
    "it_value (mem s ?it) = value @ crlf" "sint (it_nbytes (mem s ?it)) = int (length value) + 2" "slack s ?it = CHR 0x00 # rest" "key_gap s ?it = CHR 0x00"
    "q = get_backup_proxy_by_key (ITEM_key (mem s ?it)) s" "get_proxy q s = Some y" "px_out y = Some out"
    using S by (auto simp: stores_def Let_def)
  have q: "q \<noteq> NULL" using s(12) by (auto simp: get_proxy_def deref_def split: if_splits)
  have nz: "CHR 0x00 \<notin> set (value @ crlf)" using M by (auto simp: message_ok_def crlf_def)
  have dat: "str_of ((value @ crlf) @ CHR 0x00 # rest) = Some (value @ crlf)"
    using cstr_to [OF nz] by (simp add: str_of_def)
  note ky = key_string [OF s(6)]
  have ob: "setCommandServer key (value @ crlf) (int (length value)) = Some ob" using M by (simp add: message_ok_def)
  obtain t1 z1 where t1: "evbuffer_add q (''BACKUP_REQUEST '' @ dec (cur_conn s) @ crlf) s = Some t1" "get_proxy q t1 = Some z1"
    "px_out z1 = Some (out @ ''BACKUP_REQUEST '' @ dec (cur_conn s) @ crlf)" "rc_config t1 = rc_config s"
    using evbuffer_add_ok [OF s(12,13)] by blast
  obtain t2 z2 where t2: "evbuffer_add q (ob_command ob) t1 = Some t2" "get_proxy q t2 = Some z2"
    "px_out z2 = Some ((out @ ''BACKUP_REQUEST '' @ dec (cur_conn s) @ crlf) @ ob_command ob)" "rc_config t2 = rc_config t1"
    using evbuffer_add_ok [OF t1(2,3)] by blast
  obtain t3 z3 where t3: "evbuffer_add q (sin_name me @ '':'' @ dec_int (sin_portnum me) @ crlf) t2 = Some t3" "get_proxy q t3 = Some z3"
    "px_out z3 = Some (((out @ ''BACKUP_REQUEST '' @ dec (cur_conn s) @ crlf) @ ob_command ob) @ sin_name me @ '':''
       @ dec_int (sin_portnum me) @ crlf)" using evbuffer_add_ok [OF t2(2,3)] by blast
  have cfg: "cf_myAddr (rc_config t2) = sin_name me" "cf_myPort (rc_config t2) = sin_portnum me"
    using s(3) t1(4) t2(4) by (simp_all add: is_node_def)
  have "send_unit_to_backup q ?it (cur_conn s) s = Some t3"
    using s(7-10) dat ky ob t1(1) t2(1) t3(1) cfg by (simp add: send_unit_to_backup_def Let_def)
  then have "ramcube_post_set_data s = Some (0, t3)"
    using s(1,2,4,5,11) q by (auto simp: ramcube_post_set_data_def Let_def)
  moreover have "dec_int (sin_portnum me) = dec (nat (sin_portnum me))"
    using sin_portnum_range [of me] by (simp add: dec_int_def)
  then have "px_out z3 = Some (out @ ''BACKUP_REQUEST '' @ dec (cur_conn s) @ crlf @ item_message ob (node_addr me))"
    using t3(3) by (simp add: item_message_def node_addr_def)
  ultimately show ?thesis using t3(2) by blast
qed


lemma atol_dec: "n < 2 ^ 63 \<Longrightarrow> atol (dec n) = of_nat n"
  using scan_int_dec_ends [of "[]" n] by (simp add: atol_def strtoll_def ends_number_def)

lemma unat_of_nat_u64: "n < 2 ^ 63 \<Longrightarrow> unat (of_nat n :: u64) = n"
  by (simp add: unsigned_of_nat take_bit_nat_eq_self)

text \<open>A backup that has got a message behind the command line.\<close>

definition backs_up :: "nat \<Rightarrow> string \<Rightarrow> backup \<Rightarrow> 'a cluster_scheme \<Rightarrow> bool" where
  "backs_up cont msg b s \<longleftrightarrow> ramcube_config_file s \<noteq> None \<and> con_ok (con s) \<and> \<not> cn_noreply (con s)
     \<and> (\<exists>x. get_proxy (cn_ramcube_proxy (con s)) s = Some x \<and> px_type x = PROXY_TYPE_BACKUP_SERVER)
     \<and> cstr (drop cont (cn_rbuf (con s))) = msg \<and> backup_holds b (backup_mem s)
     \<and> (\<exists>gs. ss_callocs (backup_mem s) = True # True # True # gs)"

text \<open>A reply of one line is in the write buffer.\<close>

definition replies :: "string \<Rightarrow> 'a server_scheme \<Rightarrow> bool" where
  "replies str s \<longleftrightarrow> cn_state (con s) = conn_write \<and> cn_write_and_go (con s) = conn_new_cmd \<and> cn_wcurr (con s) = (IO_wbuf, 0)
     \<and> cn_wbytes (con s) = int (length str) + 2 \<and> take (length str + 2) (cn_wbuf (con s)) = str @ crlf"

lemma backup_request_ok:
  assumes B: "backs_up cont (item_message ob a) b r" and M: "message_ok key value a ob" and n: "0 < n" "n < 2 ^ 63"
    and D: "disk_ready_for (fst a, int (snd a)) (held_after (fst a, int (snd a)) (ob_command ob) b) (backup_mem r)"
  shows "\<exists>u. ramcube_process_commands dns ls drive cont (tokenize_command (''BACKUP_REQUEST '' @ dec n) MAX_TOKENS) r = Some (1, u)
    \<and> settled (fst a, int (snd a)) (held_after (fst a, int (snd a)) (ob_command ob) b) (backup_mem r) (backup_mem u)
    \<and> replies (''BACKUP_REPLY '' @ dec n) u"
proof -
  let ?p = "cn_ramcube_proxy (con r)"
  obtain x gs where r: "ramcube_config_file r \<noteq> None" "con_ok (con r)" "\<not> cn_noreply (con r)" "get_proxy ?p r = Some x"
    "px_type x = PROXY_TYPE_BACKUP_SERVER" "cstr (drop cont (cn_rbuf (con r))) = item_message ob a" "backup_holds b (backup_mem r)"
    "ss_callocs (backup_mem r) = True # True # True # gs" using B by (auto simp: backs_up_def)
  have "CHR '' '' \<notin> set (dec n)" using isdigit_dec [of "CHR '' ''" n] by (auto simp: isdigit_def)
  then have toks: "tokenize_command (''BACKUP_REQUEST '' @ dec n) MAX_TOKENS
      = [word_token ''BACKUP_REQUEST'', word_token (dec n), \<lparr>tk_value = None, tk_length = 0\<rparr>]"
    using tokenize_two [of "''BACKUP_REQUEST''" "dec n"] by simp
  define ptr where "ptr = (of_nat n :: u64)"
  have ptr: "atol (dec n) = ptr" "ptr \<noteq> 0" "u64s ptr = dec n"
    using n atol_dec [OF n(2)] unat_of_nat_u64 [OF n(2)] by (auto simp: ptr_def unat_eq_zero [symmetric])
  from message_stored [OF M r(7,8) D] obtain m where m: "appendToSegment (item_message ob a) (backup_mem r) = Some m"
    "settled (fst a, int (snd a)) (held_after (fst a, int (snd a)) (ob_command ob) b) (backup_mem r) m" by blast
  define v where "v = r\<lparr>proxies := (proxies r)(?p \<mapsto> x\<lparr>px_data_conn_ptr := ptr\<rparr>), backup_mem := m\<rparr>"
  have len: "length (''BACKUP_REPLY '' @ dec n) \<le> 32" using dec_length_le [of n 18] n(2) by simp
  then have "length (''BACKUP_REPLY '' @ dec n) + 2 \<le> DATA_BUFFER_SIZE" by (simp add: DATA_BUFFER_SIZE_def)
  moreover have "con_ok (con v)" "\<not> cn_noreply (con v)" using r(2,3) by (simp_all add: v_def)
  ultimately obtain u where u: "out_string (''BACKUP_REPLY '' @ dec n) v = Some u" "line_answered (''BACKUP_REPLY '' @ dec n) v u"
    using out_string_ok by blast
  have "handle_BACKUP_REQUEST [word_token ''BACKUP_REQUEST'', word_token (dec n), \<lparr>tk_value = None, tk_length = 0\<rparr>] ?p
      (item_message ob a) r = Some u"
    using r(4) ptr m(1) u(1) len
    by (simp add: handle_BACKUP_REQUEST_def tok_def word_token_def upd_proxy_def v_def)
  then have "ramcube_process_commands dns ls drive cont (tokenize_command (''BACKUP_REQUEST '' @ dec n) MAX_TOKENS) r = Some (1, u)"
    using r(1,4-6) unfolding toks by (simp add: ramcube_process_commands_def tok_def word_token_def Let_def)
  moreover have "backup_mem u = m" using out_string_con [OF u(1)] by (auto simp: v_def)
  moreover have "replies (''BACKUP_REPLY '' @ dec n) u"
    using u(2) \<open>\<not> cn_noreply (con v)\<close> by (simp add: line_answered_def replies_def)
  ultimately show ?thesis using m(2) by blast
qed


lemma node_message: "message_ok ''k'' ''fei'' (node_addr me) boot_object"
proof -
  have o: "length (dec (octet i (sin_addr me))) \<le> 3" for i using octet_less [of i "sin_addr me"] by (intro dec_small) simp
  have "length (sin_name me) \<le> 15" using o [of 0] o [of 1] o [of 2] o [of 3] by (simp add: sin_name_def inet_ntoa_def)
  moreover have "length (dec (nat (sin_portnum me))) \<le> 5"
    using dec_small(2) [of "nat (sin_portnum me)"] sin_portnum_range [of me] by simp
  moreover have "length (dec 3) \<le> 1" using dec_length_le [of 3 0] by simp
  moreover have "set (sin_name me) \<inter> {CHR 0x0A, CHR '':'', CHR 0x00} = {}"
    using ntoa_chars [of _ "sin_addr me"] by (fastforce simp: sin_name_def isdigit_def)
  moreover have "int_range (int (nat (sin_portnum me)))" using sin_portnum_range [of me] by (simp add: int_range_def)
  moreover have "setCommandServer ''k'' (''fei'' @ crlf) (int (length ''fei'')) = Some boot_object"
    using boot_message by (simp add: message_ok_def)
  moreover have "length (ob_command boot_object) < 100" using \<open>length (dec 3) \<le> 1\<close> by (simp add: boot_object_def crlf_def)
  ultimately show ?thesis unfolding message_ok_def by (simp add: node_addr_def item_message_def COMMAND_SIZE_def crlf_def)
qed

definition storing_boot :: cluster where
  "storing_boot = (node_boot host_a host_b)\<lparr>con := bin_conn\<lparr>cn_item := 5, cn_ramcube_proxy := 1\<rparr>,
     ramcube_config_file := Some ''conf'', vpBackupOut := [2, NULL], slack := (\<lambda>_. [CHR 0x00]), key_gap := (\<lambda>_. CHR 0x00),
     mem := (\<lambda>_. zero_item\<lparr>it_nkey := 1, it_key := ''k'', it_value := ''fei'' @ crlf, it_nbytes := 5\<rparr>)\<rparr>"

definition backing_boot :: cluster where
  "backing_boot = (node_boot host_b host_a)\<lparr>con := bin_conn\<lparr>cn_ramcube_proxy := 2,
       cn_rbuf := item_message boot_object (node_addr host_a) @ [CHR 0x00], cn_rsize := length (item_message boot_object (node_addr host_a)) + 1,
       cn_rbytes := 0\<rparr>,
     ramcube_config_file := Some ''conf'', proxies := [2 \<mapsto> zero_proxy\<lparr>px_type := PROXY_TYPE_BACKUP_SERVER\<rparr>]\<rparr>"


text \<open>
  Property C17.
  The client is answered when the backup has answered: a line \<open>BACKUP_REPLY\<close> on a connection to a
  backup makes the node turn to the connection that it names, put \<open>STORED\<close> into its write buffer and
  run its state machine, and turn back afterwards.
\<close>

theorem client_answered:
  assumes "get_proxy cp s = Some x" and "px_type x = PROXY_TYPE_BACKUP_CLIENT" and "0 < n" and "n < 2 ^ 63"
    and "n \<noteq> cur_conn s" and "conns s n = Some c" and "con_ok c" and "\<not> cn_noreply c"
  shows "\<exists>u. replies ''STORED'' u \<and> cur_conn u = n \<and> conns u (cur_conn s) = Some (con s)
    \<and> peer_line drive (''BACKUP_REPLY '' @ dec n) cp s
      = map_option (Pair False) (Option.bind (drive u) (switch_conn (cur_conn s)))"
proof -
  let ?line = "''BACKUP_REPLY '' @ dec n"
  have "CHR '' '' \<notin> set (dec n)" using isdigit_dec [of "CHR '' ''" n] by (auto simp: isdigit_def)
  then have toks: "tokenize_command ?line MAX_TOKENS
      = [word_token ''BACKUP_REPLY'', word_token (dec n), \<lparr>tk_value = None, tk_length = 0\<rparr>]"
    using tokenize_two [of "''BACKUP_REPLY''" "dec n"] by simp
  have len: "length ?line \<le> 32" using dec_length_le [of n 18] assms(4) by simp
  have "CHR 0x00 \<notin> set ?line" using isdigit_dec [of "CHR 0x00" n] by (auto simp: isdigit_def)
  then have cs: "cstr (take (MAX_COMM_LINE - 1) ?line) = ?line"
    using len by (simp add: MAX_COMM_LINE_def cstr_def takeWhile_eq_all_conv) (metis)
  define v where "v = s\<lparr>conns := (conns s)(cur_conn s \<mapsto> con s, n := None), con := c, cur_conn := n\<rparr>"
  have "length ''STORED'' + 2 \<le> DATA_BUFFER_SIZE" "con_ok (con v)" using assms(7) by (simp_all add: DATA_BUFFER_SIZE_def v_def)
  then obtain u where u: "out_string ''STORED'' v = Some u" "line_answered ''STORED'' v u" using out_string_ok by blast
  have sw: "switch_conn n s = Some v" using assms(5,6) by (simp add: switch_conn_def v_def)
  have "process_command_BACKUP_REPLY drive (tokenize_command ?line MAX_TOKENS) cp s
      = Option.bind (drive u) (switch_conn (cur_conn s))"
    using assms(1-4) atol_dec [OF assms(4)] unat_of_nat_u64 [OF assms(4)] sw u(1) unfolding toks
    by (simp add: process_command_BACKUP_REPLY_def tok_def word_token_def Let_def)
  then have "peer_line drive ?line cp s = map_option (Pair False) (Option.bind (drive u) (switch_conn (cur_conn s)))"
    using assms(1,2) cs len toks by (simp add: peer_line_def ramcube_tokenize_command_def MAX_COMM_LINE_def tok_def word_token_def Let_def)
  moreover have "cur_conn u = n" "conns u (cur_conn s) = Some (con s)"
    using out_string_con [OF u(1)] assms(5) by (auto simp: v_def)
  moreover have "replies ''STORED'' u" using u(2) assms(8) by (simp add: line_answered_def replies_def v_def)
  ultimately show ?thesis by blast
qed

theorem client_answered_witness:
  "\<exists>u. replies ''STORED'' u \<and> cur_conn u = 11
    \<and> peer_line Some (''BACKUP_REPLY '' @ dec 11) 2 ((node_boot host_a host_b)\<lparr>conns := [11 \<mapsto> bin_conn]\<rparr>)
      = map_option (Pair False) (switch_conn 10 u)"
proof -
  let ?s = "(node_boot host_a host_b)\<lparr>conns := [11 \<mapsto> bin_conn]\<rparr>"
  have "get_proxy 2 ?s = Some (zero_proxy\<lparr>px_type := PROXY_TYPE_BACKUP_CLIENT, px_out := Some []\<rparr>)"
    by (simp add: get_proxy_def deref_def node_boot_fields)
  moreover have "\<not> cn_noreply bin_conn" by (simp add: bin_conn_def zero_conn_def)
  moreover have "cur_conn ?s = 10" "conns ?s 11 = Some bin_conn" by (simp_all add: node_boot_fields)
  ultimately show ?thesis
    using client_answered [of 2 ?s _ 11 bin_conn Some] bin_conn_ok(1) by auto
qed

section \<open>Limits\<close>

text \<open>A value of two kilobytes overflows the array in which the primary builds the command.\<close>

lemma large_value_overflows:
  assumes S: "stores me key value q out s" and v: "CHR 0x00 \<notin> set value" "2048 \<le> length value"
  shows "ramcube_post_set_data s = None"
proof -
  let ?it = "cn_item (con s)"
  obtain x y rest where s: "ramcube_config_file s \<noteq> None" "?it \<noteq> NULL" "get_proxy (cn_ramcube_proxy (con s)) s = Some x"
    "px_type x \<in> {PROXY_TYPE_DATA_SERVER, PROXY_TYPE_RECOVERY_SERVER}" "cstr (ITEM_key (mem s ?it)) = key"
    "it_value (mem s ?it) = value @ crlf" "sint (it_nbytes (mem s ?it)) = int (length value) + 2" "slack s ?it = CHR 0x00 # rest" "key_gap s ?it = CHR 0x00"
    "q = get_backup_proxy_by_key (ITEM_key (mem s ?it)) s"
    using S by (auto simp: stores_def Let_def)
  have "str_of ((value @ crlf) @ CHR 0x00 # rest) = Some (value @ crlf)"
    using cstr_to [of "value @ crlf" rest] v(1) by (simp add: str_of_def crlf_def)
  moreover have "setCommandServer key (value @ crlf) (int (length value)) = None"
    using v(2) by (simp add: setCommandServer_def COMMAND_SIZE_def Let_def)
  ultimately have "send_unit_to_backup q ?it (cur_conn s) s = None"
    using s(6-9) key_string [OF s(5)] by (simp add: send_unit_to_backup_def Let_def)
  then show ?thesis using s(1-4,10) by (auto simp: ramcube_post_set_data_def Let_def)
qed


end
