(* ===== verification/Options.thy ===== *)
theory Options
  imports Store
begin

text \<open>
  The command line (the option loop of \<open>main\<close> in \<open>memcached.c\<close> and what follows it up to the first
  system call): \<open>getopt\<close> and \<open>getsubopt\<close> of the C library, one function for the big \<open>switch\<close>, and the
  settings that depend on several options. A result \<open>Inl\<close> is the exit status of the process,
  \<open>None\<close> a read before the beginning of an argument.
\<close>

section \<open>The C library\<close>

text \<open>The options of the server; a colon marks those with an argument.\<close>

definition optstring :: string where
  "optstring = ''a:p:s:U:m:Mc:khirvdl:u:P:f:n:t:D:LR:Cb:B:I:So:z:''"

fun option_kind :: "char \<Rightarrow> string \<Rightarrow> bool option" where
  "option_kind c [] = None"
| "option_kind c (d # ds) = (if c = d \<and> c \<noteq> CHR '':'' then Some (ds \<noteq> [] \<and> hd ds = CHR '':'') else option_kind c ds)"

text \<open>
  All that \<open>getopt\<close> returns, with \<open>optarg\<close>: a question mark for an unknown option or a missing
  argument. Arguments that are not options are passed over; \<open>cluster\<close> is what is left of an argument.
\<close>

function getopt_all :: "string \<Rightarrow> string list \<Rightarrow> (char \<times> string) list" where
  "getopt_all [] [] = []"
| "getopt_all [] (a # args) = (if a = ''--'' then []
     else if a = [] \<or> hd a \<noteq> CHR ''-'' \<or> a = ''-'' then getopt_all [] args
     else getopt_all (tl a) args)"
| "getopt_all (c # cs) args = (case option_kind c optstring of
       None \<Rightarrow> (CHR ''?'', []) # getopt_all cs args
     | Some False \<Rightarrow> (c, []) # getopt_all cs args
     | Some True \<Rightarrow> if cs \<noteq> [] then (c, cs) # getopt_all [] args
         else (case args of [] \<Rightarrow> [(CHR ''?'', [])] | v # args \<Rightarrow> (c, v) # getopt_all [] args))"
  by pat_completeness auto
termination
  by (relation "measure (\<lambda>(cs, args). length cs + (\<Sum>a\<leftarrow>args. Suc (length a)))") auto

text \<open>\<open>strtol\<close> in base 8, converted to \<open>int\<close>.\<close>

definition octal_digits :: "string \<Rightarrow> string" where
  "octal_digits = takeWhile (\<lambda>c. isdigit c \<and> digit_val c < 8)"

definition strtol_octal :: "string \<Rightarrow> int" where
  "strtol_octal str = (let s = dropWhile isspace str;
     neg = (s \<noteq> [] \<and> hd s = CHR ''-'');
     s = (if s \<noteq> [] \<and> (hd s = CHR ''-'' \<or> hd s = CHR ''+'') then tl s else s);
     n = int (foldl (\<lambda>a c. 8 * a + digit_val c) 0 (octal_digits s));
     v = min (2 ^ 63 - 1) (max (- (2 ^ 63)) (if neg then - n else n))
   in sint (word_of_int v :: u32))"

text \<open>
  \<open>atof\<close>: a decimal or hexadecimal number with a fraction and an exponent, rounded to a \<open>double\<close> and infinite from
  \<open>2 ^ 1024\<close> on, or a word that stands for an infinity or a NaN.
\<close>

definition to_lower :: "char \<Rightarrow> char" where
  "to_lower c = (if 65 \<le> (of_char c :: nat) \<and> (of_char c :: nat) \<le> 90 then char_of ((of_char c :: nat) + 32) else c)"

definition is_hex :: "char \<Rightarrow> bool" where
  "is_hex c \<longleftrightarrow> isdigit c \<or> 97 \<le> (of_char c :: nat) \<and> (of_char c :: nat) \<le> 102"

definition hex_digits_val :: "string \<Rightarrow> nat" where
  "hex_digits_val ds = foldl (\<lambda>a c. 16 * a + (if isdigit c then digit_val c else of_char c - 87)) 0 ds"

text \<open>The digits before and behind the point, and what follows them.\<close>

definition scan_point :: "(char \<Rightarrow> bool) \<Rightarrow> string \<Rightarrow> string \<times> string \<times> string" where
  "scan_point dig s = (let rest = dropWhile dig s; point = (rest \<noteq> [] \<and> hd rest = CHR ''.'') in
     (takeWhile dig s, if point then takeWhile dig (tl rest) else [], if point then dropWhile dig (tl rest) else rest))"

text \<open>The exponent behind its letter, if there is a number.\<close>

definition scan_exponent :: "char \<Rightarrow> string \<Rightarrow> int" where
  "scan_exponent letter s = (if s \<noteq> [] \<and> hd s = letter \<and> tl s \<noteq> [] \<and> \<not> isspace (hd (tl s))
     then case scan_int (tl s) of None \<Rightarrow> 0 | Some (neg, n, _) \<Rightarrow> if neg then - int n else int n
     else 0)"

definition scale_by :: "rat \<Rightarrow> rat \<Rightarrow> int \<Rightarrow> rat" where
  "scale_by v b e = (if 0 \<le> e then v * b ^ nat e else v / b ^ nat (- e))"

text \<open>The magnitude of the number in lower case.\<close>

definition scan_double :: "string \<Rightarrow> rat" where
  "scan_double s = (case scan_point is_hex (drop 2 s) of (whole, behind, rest) \<Rightarrow>
     if take 2 s = ''0x'' \<and> whole @ behind \<noteq> []
     then scale_by (of_nat (hex_digits_val (whole @ behind)) / 16 ^ length behind) 2 (scan_exponent CHR ''p'' rest)
     else case scan_point isdigit s of (whole, behind, rest) \<Rightarrow>
       scale_by (of_nat (digits_val (whole @ behind)) / 10 ^ length behind) 10
         (if whole @ behind = [] then 0 else scan_exponent CHR ''e'' rest))"

definition atof :: "string \<Rightarrow> c_double" where
  "atof str = (let s = dropWhile isspace str;
     neg = (s \<noteq> [] \<and> hd s = CHR ''-'');
     s = map to_lower (if s \<noteq> [] \<and> (hd s = CHR ''-'' \<or> hd s = CHR ''+'') then tl s else s) in
   if take 3 s = ''inf'' then (if neg then Neg_Infinity else Infinity)
   else if take 3 s = ''nan'' then NaN neg
   else let v = round_double (scan_double s) in
     if 2 ^ 1024 \<le> v then (if neg then Neg_Infinity else Infinity) else Dbl (if neg then - v else v))"

text \<open>\<open>factor <= 1.0\<close>, which is false for a NaN.\<close>

definition at_most_one :: "c_double \<Rightarrow> bool" where
  "at_most_one fac = (case fac of Dbl q \<Rightarrow> q \<le> 1 | Neg_Infinity \<Rightarrow> True | _ \<Rightarrow> False)"

text \<open>
  \<open>getsubopt\<close> for the four tokens of the server: the index of the token, or \<open>None\<close>; the value behind
  the equals sign, if there is one; and the rest behind the comma.
\<close>

datatype subopt = MAXCONNS_FAST | HASHPOWER_INIT | SLAB_REASSIGN | SLAB_AUTOMOVE

definition subopt_of :: "string \<Rightarrow> subopt option" where
  "subopt_of w = (if w = ''maxconns_fast'' then Some MAXCONNS_FAST else if w = ''hashpower'' then Some HASHPOWER_INIT
     else if w = ''slab_reassign'' then Some SLAB_REASSIGN else if w = ''slab_automove'' then Some SLAB_AUTOMOVE else None)"

definition getsubopt :: "string \<Rightarrow> subopt option \<times> string option \<times> string" where
  "getsubopt str = (let w = takeWhile (\<lambda>c. c \<noteq> CHR '','') str; rest = dropWhile (\<lambda>c. c \<noteq> CHR '','') str;
     name = takeWhile (\<lambda>c. c \<noteq> CHR ''='') w; val = dropWhile (\<lambda>c. c \<noteq> CHR ''='') w
   in (subopt_of name, if val = [] then None else Some (tl val), tl rest))"

lemma getsubopt_shorter:
  assumes "str \<noteq> []" and "getsubopt str = (k, v, rest)"
  shows "length rest < length str"
proof -
  have "rest = tl (dropWhile (\<lambda>c. c \<noteq> CHR '','') str)" using assms(2) by (simp add: getsubopt_def Let_def)
  then show ?thesis using assms(1) length_dropWhile_le [of "\<lambda>c. c \<noteq> CHR '',''" str] by (cases str) auto
qed

section \<open>The option loop\<close>

definition EX_USAGE :: int where "EX_USAGE = 64"
definition EX_NOUSER :: int where "EX_NOUSER = 67"
definition EX_OSERR :: int where "EX_OSERR = 71"

text \<open>The local variables of \<open>main\<close>; \<open>o_grants\<close> says which of the coming allocations succeed.\<close>

record options =
  o_settings :: settings_t
  lock_memory :: bool
  do_daemonize :: bool
  preallocate :: bool
  maxcore :: bool
  username :: "string option"
  pid_file :: "string option"
  protocol_specified :: bool
  tcp_specified :: bool
  udp_specified :: bool
  config_file :: "string option"
  o_grants :: "bool list"

definition zero_options :: "bool list \<Rightarrow> options" where
  "zero_options gs = \<lparr>o_settings = settings_init, lock_memory = False, do_daemonize = False, preallocate = False,
     maxcore = False, username = None, pid_file = None, protocol_specified = False, tcp_specified = False,
     udp_specified = False, config_file = None, o_grants = gs\<rparr>"

definition o_malloc :: "options \<Rightarrow> bool \<times> options" where
  "o_malloc opts = (case o_grants opts of [] \<Rightarrow> (False, opts) | g # gs \<Rightarrow> (g, opts\<lparr>o_grants := gs\<rparr>))"

definition upd_set :: "(settings_t \<Rightarrow> settings_t) \<Rightarrow> options \<Rightarrow> options" where
  "upd_set f opts = opts\<lparr>o_settings := f (o_settings opts)\<rparr>"

definition int_of :: "string \<Rightarrow> int" where
  "int_of str = sint (atoi str)"

text \<open>
  \<open>-I\<close>: the size with its unit, in \<open>int\<close> arithmetic that wraps; the last character of an empty
  argument lies before its beginning.
\<close>

definition item_size_arg :: "string \<Rightarrow> u32" where
  "item_size_arg str = (let unit = last str; n = atoi (butlast str) in
     if unit = CHR ''k'' \<or> unit = CHR ''K'' then n * 1024
     else if unit = CHR ''m'' \<or> unit = CHR ''M'' then n * (1024 * 1024)
     else atoi str)"

definition item_size_option :: "string \<Rightarrow> options \<Rightarrow> (int + options) option" where
  "item_size_option str opts = (if str = [] then None else let n = sint (item_size_arg str) in
     if n < 1024 then Some (Inl 1)
     else if 1024 * 1024 * 128 < n then Some (Inl 1)
     else Some (Inr (upd_set (\<lambda>se. se\<lparr>item_size_max := nat n\<rparr>) opts)))"

text \<open>\<open>-o\<close>.\<close>

definition sub_option :: "subopt option \<Rightarrow> string option \<Rightarrow> options \<Rightarrow> int + options" where
  "sub_option k v opts = (case k of
     Some MAXCONNS_FAST \<Rightarrow> Inr (upd_set (\<lambda>se. se\<lparr>maxconns_fast := True\<rparr>) opts)
   | Some HASHPOWER_INIT \<Rightarrow> (case v of None \<Rightarrow> Inl 1
       | Some v \<Rightarrow> if int_of v < 12 then Inl 1 else if 64 < int_of v then Inl 1
           else Inr (upd_set (\<lambda>se. se\<lparr>hashpower_init := nat (int_of v)\<rparr>) opts))
   | Some SLAB_REASSIGN \<Rightarrow> Inr (upd_set (\<lambda>se. se\<lparr>slab_reassign := True\<rparr>) opts)
   | Some SLAB_AUTOMOVE \<Rightarrow> (case v of None \<Rightarrow> Inr (upd_set (\<lambda>se. se\<lparr>slab_automove := 1\<rparr>) opts)
       | Some v \<Rightarrow> if int_of v < 0 \<or> 2 < int_of v then Inl 1
           else Inr (upd_set (\<lambda>se. se\<lparr>slab_automove := int_of v\<rparr>) opts))
   | None \<Rightarrow> Inl 1)"

function sub_options :: "string \<Rightarrow> options \<Rightarrow> int + options" where
  "sub_options str opts = (if str = [] then Inr opts
     else case getsubopt str of (k, v, rest) \<Rightarrow>
       (case sub_option k v opts of Inl e \<Rightarrow> Inl e | Inr opts \<Rightarrow> sub_options rest opts))"
  by pat_completeness auto
termination
  by (relation "measure (\<lambda>(str, opts). length str)") (auto dest: getsubopt_shorter [OF _ sym])

declare sub_options.simps [simp del]

text \<open>\<open>-l\<close>: the addresses of several options are joined by commas; \<open>strdup\<close> may fail unnoticed.\<close>

definition interface_option :: "string \<Rightarrow> options \<Rightarrow> int + options" where
  "interface_option str opts = (case o_malloc opts of (ok, opts) \<Rightarrow>
     (case inter (o_settings opts) of
        Some old \<Rightarrow> if ok then Inr (upd_set (\<lambda>se. se\<lparr>inter := Some (old @ '','' @ str)\<rparr>) opts) else Inl 1
      | None \<Rightarrow> Inr (upd_set (\<lambda>se. se\<lparr>inter := (if ok then Some str else None)\<rparr>) opts)))"

definition protocol_option :: "string \<Rightarrow> options \<Rightarrow> int + options" where
  "protocol_option str opts = (let opts = opts\<lparr>protocol_specified := True\<rparr> in
     if str = ''auto'' then Inr (upd_set (\<lambda>se. se\<lparr>binding_protocol := negotiating_prot\<rparr>) opts)
     else if str = ''binary'' then Inr (upd_set (\<lambda>se. se\<lparr>binding_protocol := binary_prot\<rparr>) opts)
     else if str = ''ascii'' then Inr (upd_set (\<lambda>se. se\<lparr>binding_protocol := ascii_prot\<rparr>) opts)
     else Inl EX_USAGE)"

text \<open>The options with a number that is checked.\<close>

definition number_option :: "char \<Rightarrow> string \<Rightarrow> options \<Rightarrow> int + options" where
  "number_option c str opts = (let n = int_of str in
     if c = CHR ''R'' then (if n = 0 then Inl 1 else Inr (upd_set (\<lambda>se. se\<lparr>reqs_per_event := n\<rparr>) opts))
     else if c = CHR ''n'' then (if n = 0 then Inl 1 else Inr (upd_set (\<lambda>se. se\<lparr>chunk_size := n\<rparr>) opts))
     else if c = CHR ''t'' then (if n \<le> 0 then Inl 1 else Inr (upd_set (\<lambda>se. se\<lparr>num_threads := nat n\<rparr>) opts))
     else (if at_most_one (atof str) then Inl 1 else Inr (upd_set (\<lambda>se. se\<lparr>factor := atof str\<rparr>) opts)))"

text \<open>
  The \<open>switch\<close>. Help and licence end the process with success; large pages and SASL are not built in.
\<close>

definition set_option :: "char \<Rightarrow> string \<Rightarrow> options \<Rightarrow> (int + options) option" where
  "set_option c str opts = (
     if c = CHR ''I'' then item_size_option str opts
     else Some (
       if c = CHR ''a'' then Inr (upd_set (\<lambda>se. se\<lparr>access := strtol_octal str\<rparr>) opts)
       else if c = CHR ''U'' then Inr (upd_set (\<lambda>se. se\<lparr>udpport := int_of str\<rparr>) opts\<lparr>udp_specified := True\<rparr>)
       else if c = CHR ''p'' then Inr (upd_set (\<lambda>se. se\<lparr>port := int_of str\<rparr>) opts\<lparr>tcp_specified := True\<rparr>)
       else if c = CHR ''s'' then Inr (upd_set (\<lambda>se. se\<lparr>socketpath := Some str\<rparr>) opts)
       else if c = CHR ''m'' then Inr (upd_set (\<lambda>se. se\<lparr>maxbytes := unat (word_of_int (int_of str) * (1024 * 1024) :: u64)\<rparr>) opts)
       else if c = CHR ''M'' then Inr (upd_set (\<lambda>se. se\<lparr>evict_to_free := 0\<rparr>) opts)
       else if c = CHR ''c'' then Inr (upd_set (\<lambda>se. se\<lparr>maxconns := int_of str\<rparr>) opts)
       else if c = CHR ''h'' \<or> c = CHR ''i'' then Inl 0
       else if c = CHR ''k'' then Inr (opts\<lparr>lock_memory := True\<rparr>)
       else if c = CHR ''v'' then Inr (upd_set (\<lambda>se. se\<lparr>verbose := verbose se + 1\<rparr>) opts)
       else if c = CHR ''l'' then interface_option str opts
       else if c = CHR ''d'' then Inr (opts\<lparr>do_daemonize := True\<rparr>)
       else if c = CHR ''r'' then Inr (opts\<lparr>maxcore := True\<rparr>)
       else if c = CHR ''u'' then Inr (opts\<lparr>username := Some str\<rparr>)
       else if c = CHR ''P'' then Inr (opts\<lparr>pid_file := Some str\<rparr>)
       else if c = CHR ''R'' \<or> c = CHR ''n'' \<or> c = CHR ''t'' \<or> c = CHR ''f'' then number_option c str opts
       else if c = CHR ''D'' then (if str = [] then Inl 1
         else Inr (upd_set (\<lambda>se. se\<lparr>prefix_delimiter := hd str, detail_enabled := 1\<rparr>) opts))
       else if c = CHR ''L'' then Inl 1
       else if c = CHR ''C'' then Inr (upd_set (\<lambda>se. se\<lparr>use_cas := False\<rparr>) opts)
       else if c = CHR ''b'' then Inr (upd_set (\<lambda>se. se\<lparr>backlog := int_of str\<rparr>) opts)
       else if c = CHR ''B'' then protocol_option str opts
       else if c = CHR ''S'' then Inl EX_USAGE
       else if c = CHR ''o'' then sub_options str opts
       else if c = CHR ''z'' then (case o_malloc opts of (ok, opts) \<Rightarrow> Inr (opts\<lparr>config_file := (if ok then Some str else None)\<rparr>))
       else Inl 1))"

fun option_loop :: "(char \<times> string) list \<Rightarrow> options \<Rightarrow> (int + options) option" where
  "option_loop [] opts = Some (Inr opts)"
| "option_loop ((c, str) # cs) opts = (case set_option c str opts of
     None \<Rightarrow> None | Some (Inl e) \<Rightarrow> Some (Inl e) | Some (Inr opts) \<Rightarrow> option_loop cs opts)"

section \<open>Settings that depend on several options\<close>

definition finish_options :: "options \<Rightarrow> int + options" where
  "finish_options opts = (let
     opts = upd_set (\<lambda>se. se\<lparr>num_threads_per_udp :=
       (case inter se of Some w \<Rightarrow> if CHR '','' \<in> set w then 1 else num_threads se | None \<Rightarrow> num_threads se)\<rparr>) opts in
     if sasl (o_settings opts) \<and> protocol_specified opts \<and> binding_protocol (o_settings opts) \<noteq> binary_prot then Inl EX_USAGE
     else let
       opts = (if sasl (o_settings opts) \<and> \<not> protocol_specified opts
         then upd_set (\<lambda>se. se\<lparr>binding_protocol := binary_prot\<rparr>) opts else opts);
       opts = (if tcp_specified opts \<and> \<not> udp_specified opts then upd_set (\<lambda>se. se\<lparr>udpport := port se\<rparr>) opts
         else if udp_specified opts \<and> \<not> tcp_specified opts then upd_set (\<lambda>se. se\<lparr>port := udpport se\<rparr>) opts
         else opts)
     in Inr opts)"

definition process_arguments :: "string list \<Rightarrow> bool list \<Rightarrow> (int + options) option" where
  "process_arguments args gs = (case option_loop (getopt_all [] args) (zero_options gs) of
     None \<Rightarrow> None | Some (Inl e) \<Rightarrow> Some (Inl e) | Some (Inr opts) \<Rightarrow> Some (finish_options opts))"

section \<open>What an accepted command line leaves\<close>

definition settings_ok :: "settings_t \<Rightarrow> bool" where
  "settings_ok se \<longleftrightarrow> 0 < num_threads se \<and> reqs_per_event se \<noteq> 0 \<and> \<not> at_most_one (factor se) \<and> chunk_size se \<noteq> 0
     \<and> 1024 \<le> item_size_max se \<and> item_size_max se \<le> 128 * 1024 * 1024
     \<and> (hashpower_init se = 0 \<or> 12 \<le> hashpower_init se \<and> hashpower_init se \<le> 64)
     \<and> 0 \<le> slab_automove se \<and> slab_automove se \<le> 2 \<and> \<not> sasl se \<and> maxbytes se < 2 ^ 64"

definition same_ports :: "options \<Rightarrow> options \<Rightarrow> bool" where
  "same_ports o1 o2 \<longleftrightarrow> port (o_settings o2) = port (o_settings o1) \<and> udpport (o_settings o2) = udpport (o_settings o1)
     \<and> tcp_specified o2 = tcp_specified o1 \<and> udp_specified o2 = udp_specified o1"

definition keeps_ok :: "options \<Rightarrow> options \<Rightarrow> bool" where
  "keeps_ok o1 o2 \<longleftrightarrow> (settings_ok (o_settings o1) \<longrightarrow> settings_ok (o_settings o2)) \<and> same_ports o1 o2"

lemma keeps_ok_refl: "keeps_ok opts opts"
  by (simp add: keeps_ok_def same_ports_def)

lemma keeps_ok_trans: "keeps_ok o1 o2 \<Longrightarrow> keeps_ok o2 o3 \<Longrightarrow> keeps_ok o1 o3"
  by (simp add: keeps_ok_def same_ports_def)

lemmas keeps_ok_defs = keeps_ok_def same_ports_def settings_ok_def upd_set_def

lemma sub_option_ok: "sub_option k v opts = Inr o2 \<Longrightarrow> keeps_ok opts o2"
  by (auto simp: sub_option_def keeps_ok_defs split: option.splits subopt.splits if_splits)

lemma sub_options_ok: "sub_options str opts = Inr o2 \<Longrightarrow> keeps_ok opts o2"
proof (induction str opts rule: sub_options.induct)
  case (1 str opts)
  show ?case
  proof (cases "str = []")
    case True
    with 1 show ?thesis by (simp add: sub_options.simps [of "[]"] keeps_ok_refl)
  next
    case False
    obtain k v rest where g: "getsubopt str = (k, v, rest)" by (cases "getsubopt str")
    with 1(2) False obtain o1 where o1: "sub_option k v opts = Inr o1" "sub_options rest o1 = Inr o2"
      by (auto simp: sub_options.simps [of str] split: sum.splits)
    have "keeps_ok o1 o2" using 1(1) [OF False g [symmetric] refl o1] .
    with sub_option_ok [OF o1(1)] show ?thesis by (rule keeps_ok_trans)
  qed
qed

lemma interface_option_ok: "interface_option str opts = Inr o2 \<Longrightarrow> keeps_ok opts o2"
  by (auto simp: interface_option_def o_malloc_def keeps_ok_defs split: prod.splits option.splits list.splits if_splits)

lemma protocol_option_ok: "protocol_option str opts = Inr o2 \<Longrightarrow> keeps_ok opts o2"
  by (auto simp: protocol_option_def keeps_ok_defs Let_def split: if_splits)

lemma number_option_ok: "number_option c str opts = Inr o2 \<Longrightarrow> keeps_ok opts o2"
  by (auto simp: number_option_def keeps_ok_defs Let_def split: if_splits)

lemma item_size_option_ok: "item_size_option str opts = Some (Inr o2) \<Longrightarrow> keeps_ok opts o2"
  by (auto simp: item_size_option_def keeps_ok_defs Let_def split: if_splits)

lemma set_option_ok:
  assumes "set_option c str opts = Some (Inr o2)" "c \<noteq> CHR ''U''" "c \<noteq> CHR ''p''"
  shows "keeps_ok opts o2"
proof -
  have local: "keeps_ok opts o3" if "o_settings o3 = o_settings opts" "tcp_specified o3 = tcp_specified opts"
    "udp_specified o3 = udp_specified opts" for o3
    using that by (simp add: keeps_ok_def same_ports_def)
  consider "c = CHR ''I''" | "c = CHR ''l''" | "c \<in> set ''Rntf''" | "c = CHR ''B''" | "c = CHR ''o''" | "c = CHR ''z''"
    | "c \<notin> set ''IlRntfBoz''" by fastforce
  then show ?thesis
  proof cases
    case 6
    then show ?thesis using assms(1)
      by (auto simp: set_option_def o_malloc_def intro!: local split: prod.splits list.splits)
  next
    case 7
    then have "c \<noteq> CHR ''I''" "c \<noteq> CHR ''l''" "\<not> (c = CHR ''R'' \<or> c = CHR ''n'' \<or> c = CHR ''t'' \<or> c = CHR ''f'')" "c \<noteq> CHR ''B''"
      "c \<noteq> CHR ''o''" "c \<noteq> CHR ''z''" by auto
    note other = this
    have "unat (x :: u64) < 2 ^ 64" for x by (rule order_less_le_trans [OF unsigned_less]) simp
    then show ?thesis using assms unfolding set_option_def
      by (auto simp: other keeps_ok_defs split: if_splits)
  qed (use assms(1) in \<open>auto simp: set_option_def intro: item_size_option_ok interface_option_ok number_option_ok
     protocol_option_ok sub_options_ok\<close>)
qed

lemma set_ports:
  "set_option CHR ''U'' str opts = Some (Inr (upd_set (\<lambda>se. se\<lparr>udpport := int_of str\<rparr>) opts\<lparr>udp_specified := True\<rparr>))"
  "set_option CHR ''p'' str opts = Some (Inr (upd_set (\<lambda>se. se\<lparr>port := int_of str\<rparr>) opts\<lparr>tcp_specified := True\<rparr>))"
  by (simp_all add: set_option_def)

text \<open>The value of an option that is given, the last one if there are several.\<close>

fun last_arg :: "char \<Rightarrow> (char \<times> string) list \<Rightarrow> string option \<Rightarrow> string option" where
  "last_arg c [] v = v"
| "last_arg c ((d, str) # cs) v = last_arg c cs (if d = c then Some str else v)"

definition given :: "string option \<Rightarrow> int \<Rightarrow> int" where
  "given v n = (case v of None \<Rightarrow> n | Some str \<Rightarrow> int_of str)"

lemma option_loop_ok:
  assumes "option_loop cs opts = Some (Inr o2)" "settings_ok (o_settings opts)"
    "port (o_settings opts) = given p n" "tcp_specified opts \<longleftrightarrow> p \<noteq> None"
    "udpport (o_settings opts) = given u n" "udp_specified opts \<longleftrightarrow> u \<noteq> None"
  shows "settings_ok (o_settings o2)
    \<and> port (o_settings o2) = given (last_arg CHR ''p'' cs p) n \<and> (tcp_specified o2 \<longleftrightarrow> last_arg CHR ''p'' cs p \<noteq> None)
    \<and> udpport (o_settings o2) = given (last_arg CHR ''U'' cs u) n \<and> (udp_specified o2 \<longleftrightarrow> last_arg CHR ''U'' cs u \<noteq> None)"
  using assms
proof (induction cs arbitrary: opts p u)
  case (Cons x cs)
  obtain c str where x: "x = (c, str)" by (cases x)
  with Cons.prems(1) obtain o1 where o1: "set_option c str opts = Some (Inr o1)" "option_loop cs o1 = Some (Inr o2)"
    by (auto split: option.splits sum.splits)
  consider "c = CHR ''U''" | "c = CHR ''p''" | "c \<noteq> CHR ''U''" "c \<noteq> CHR ''p''" by blast
  then show ?case
  proof cases
    case 1
    with o1(1) have e: "o1 = upd_set (\<lambda>se. se\<lparr>udpport := int_of str\<rparr>) opts\<lparr>udp_specified := True\<rparr>"
      by (simp add: set_ports)
    show ?thesis using Cons.IH [OF o1(2), of p "Some str"] Cons.prems 1
      by (simp add: e x upd_set_def settings_ok_def given_def)
  next
    case 2
    with o1(1) have e: "o1 = upd_set (\<lambda>se. se\<lparr>port := int_of str\<rparr>) opts\<lparr>tcp_specified := True\<rparr>"
      by (simp add: set_ports)
    show ?thesis using Cons.IH [OF o1(2), of "Some str" u] Cons.prems 2
      by (simp add: e x upd_set_def settings_ok_def given_def)
  next
    case 3
    show ?thesis using Cons.IH [OF o1(2), of p u] Cons.prems 3 set_option_ok [OF o1(1) 3]
      by (simp add: x keeps_ok_def same_ports_def)
  qed
qed simp



text \<open>A growth factor that is not a number passes the check, since nothing compares with it.\<close>

theorem nan_factor_accepted:
  "set_option CHR ''f'' ''nan'' opts = Some (Inr (upd_set (\<lambda>se. se\<lparr>factor := NaN False\<rparr>) opts))"
  by (simp add: set_option_def number_option_def atof_def at_most_one_def isspace_def to_lower_def)

text \<open>
  Property C38.
  The unit of \<open>-I\<close> multiplies in 32 bits: a size of more than 4 GB, as much larger as one likes, is
  accepted when what is left modulo 4 GB is, and the limit of 128 MB is not enforced.
\<close>

theorem item_size_wraps:
  assumes "1 \<le> r" and "r \<le> 128" and "4096 * q + r < 2 ^ 31"
  shows "set_option CHR ''I'' (dec (4096 * q + r) @ ''m'') opts
    = Some (Inr (upd_set (\<lambda>se. se\<lparr>item_size_max := r * 1048576\<rparr>) opts))"
proof -
  have n: "atoi (dec m) = of_nat m" if "m < 2 ^ 31" for m
    using that scan_int_dec [of "[]" m] by (simp add: atoi_def strtoll_def)
  have "of_nat (4096 * q + r) * (1024 * 1024) = (of_nat (r * 1048576) :: u32)"
  proof -
    have "(4294967296 :: u32) = 0" by simp
    then have "of_nat q * (4294967296 :: u32) = 0" by (simp only: mult_zero_right)
    then show ?thesis by (simp add: algebra_simps)
  qed
  then have a: "item_size_arg (dec (4096 * q + r) @ ''m'') = of_nat (r * 1048576)"
    using n [OF assms(3)] by (simp add: item_size_arg_def Let_def)
  have "sint (of_nat (r * 1048576) :: u32) = int (r * 1048576)"
    using assms(2) by (simp add: signed_of_nat signed_take_bit_int_eq_self del: of_nat_mult)
  moreover have "nat (int (r * 1048576)) = r * 1048576" by (rule nat_int)
  ultimately show ?thesis using a assms(1,2)
    by (simp add: set_option_def item_size_option_def del: of_nat_mult)
qed

theorem item_size_wraps_witness:
  "set_option CHR ''I'' (dec (4096 * 1 + 1) @ ''m'') (zero_options [])
    = Some (Inr (upd_set (\<lambda>se. se\<lparr>item_size_max := 1048576\<rparr>) (zero_options [])))"
  using item_size_wraps [of 1 1 "zero_options []"] by simp

end
