(* ===== verification/Sockets.thy ===== *)
theory Sockets
  imports Delivery
begin

text \<open>
  The sockets on which the server listens (\<open>memcached.c\<close>, from \<open>new_socket\<close> to \<open>server_socket_unix\<close>).
  The answers of the system calls are given with the address they are about; \<open>getaddrinfo\<close> is a
  parameter. A result \<open>Inl\<close> is the exit status of the process. \<open>None\<close> is a failed assertion, a loop
  that does not end, or a dispatch without memory.
\<close>

section \<open>The send buffer\<close>

definition MAX_SENDBUF_SIZE :: int where "MAX_SENDBUF_SIZE = 256 * 1024 * 1024"

text \<open>
  The binary search: \<open>ok n\<close> says whether the kernel takes the size \<open>n\<close>. The result is \<open>last_good\<close> and
  the sizes that were tried, in order.
\<close>

partial_function (option) sndbuf_loop :: "(int \<Rightarrow> bool) \<Rightarrow> int \<Rightarrow> int \<Rightarrow> int \<Rightarrow> int list \<Rightarrow> (int \<times> int list) option" where
  "sndbuf_loop ok last_good lo hi tried =
     (if lo \<le> hi then (let avg = (lo + hi) mod 2 ^ 32 div 2 in
        if ok avg then sndbuf_loop ok avg (avg + 1) hi (tried @ [avg])
        else sndbuf_loop ok last_good lo (avg - 1) (tried @ [avg]))
      else Some (last_good, tried))"

declare sndbuf_loop.simps [code]

text \<open>\<open>old_size\<close> is the answer of \<open>getsockopt\<close>.\<close>

definition maximize_sndbuf :: "int option \<Rightarrow> (int \<Rightarrow> bool) \<Rightarrow> (int \<times> int list) option" where
  "maximize_sndbuf old_size ok = (case old_size of None \<Rightarrow> Some (0, [])
     | Some n \<Rightarrow> sndbuf_loop ok 0 n MAX_SENDBUF_SIZE [])"

section \<open>One address\<close>

text \<open>
  \<open>Sock sfd nb\<close> is a new descriptor, \<open>nb\<close> saying whether it could be made non-blocking; \<open>Sock_full\<close> is
  a process out of descriptors.
\<close>

datatype sock_result = Sock int bool | Sock_full | Sock_fail
datatype bind_result = Bind_ok | Bind_in_use | Bind_fail
datatype family = AF_INET | AF_INET6 | AF_OTHER

record addrinfo =
  ai_family :: family
  ai_socket :: sock_result
  ai_v6only :: bool
  ai_sndbuf :: "int option"
  ai_sndbuf_ok :: "int \<Rightarrow> bool"
  ai_bind :: bind_result
  ai_listen :: bool
  ai_sockname :: "nat option"
  ai_conn :: "bool list"

definition close_fd :: "int \<Rightarrow> 'a machine_scheme \<Rightarrow> 'a machine_scheme" where
  "close_fd sfd s = s\<lparr>closed := closed s @ [sfd]\<rparr>"

text \<open>The descriptor, or none.\<close>

definition new_socket :: "sock_result \<Rightarrow> 'a machine_scheme \<Rightarrow> int option \<times> 'a machine_scheme" where
  "new_socket r s = (case r of Sock sfd nb \<Rightarrow> if nb then (Some sfd, s) else (None, close_fd sfd s) | _ \<Rightarrow> (None, s))"

text \<open>The line of the file of port numbers; the address was bound.\<close>

definition port_line :: "network_transport \<Rightarrow> addrinfo \<Rightarrow> string" where
  "port_line transport ai = (case ai_sockname ai of None \<Rightarrow> [] | Some n \<Rightarrow>
     if ai_family ai = AF_OTHER then [] else
       (if IS_UDP transport then ''UDP'' else ''TCP'')
       @ (if ai_family ai = AF_INET then '' INET: '' else '' INET6: '') @ dec n @ [CHR 0x0A])"

text \<open>A bound UDP socket is given to \<open>num_threads_per_udp\<close> workers.\<close>

fun dispatch_udp :: "nat \<Rightarrow> int \<Rightarrow> dispatch \<Rightarrow> dispatch option" where
  "dispatch_udp 0 sfd d = Some d"
| "dispatch_udp (Suc n) sfd d = do {
     d \<leftarrow> dispatch_conn_new sfd conn_read (EV_READ + EV_PERSIST) (int UDP_READ_BUFFER_SIZE) udp_transport d;
     dispatch_udp n sfd d }"

text \<open>A listening connection is entered at the head of the list.\<close>

definition listen_on :: "(conn \<Rightarrow> conn) \<Rightarrow> bool list \<Rightarrow> int \<Rightarrow> network_transport \<Rightarrow> 'a machine_scheme \<Rightarrow> int + 'a machine_scheme" where
  "listen_on proxy_new gs sfd transport s =
     (case conn_new proxy_new gs sfd conn_listening (EV_READ + EV_PERSIST) 1 transport s of
        (None, s) \<Rightarrow> Inl 1
      | (Some c, s) \<Rightarrow> Inr (s\<lparr>listeners := \<lparr>l_sfd = cn_sfd c, l_ev_flags = cn_ev_flags c, l_backlog = backlog (settings s)\<rparr>
          # listeners s\<rparr>))"

definition serve_socket :: "(conn \<Rightarrow> conn) \<Rightarrow> network_transport \<Rightarrow> addrinfo \<Rightarrow> int \<Rightarrow> 'a machine_scheme
    \<Rightarrow> (int + 'a machine_scheme) option" where
  "serve_socket proxy_new transport ai sfd s =
     (if IS_UDP transport then
        map_option (\<lambda>d. Inr (s\<lparr>dispatcher := d\<rparr>)) (dispatch_udp (num_threads_per_udp (settings s)) sfd (dispatcher s))
      else Some (listen_on proxy_new (ai_conn ai) sfd transport s))"

section \<open>All addresses\<close>

text \<open>
  The loop of \<open>server_socket\<close>: \<open>success\<close> counts the sockets that were bound, \<open>f\<close> is the file of port
  numbers, if there is one. The result is what \<open>server_socket\<close> returns.
\<close>

fun bind_loop :: "(conn \<Rightarrow> conn) \<Rightarrow> network_transport \<Rightarrow> addrinfo list \<Rightarrow> nat \<Rightarrow> string option \<Rightarrow> 'a machine_scheme
    \<Rightarrow> (int + int \<times> string option \<times> 'a machine_scheme) option" where
  "bind_loop proxy_new transport [] success f s = Some (Inr (if success = 0 then 1 else 0, f, s))"
| "bind_loop proxy_new transport (ai # ais) success f s = (case new_socket (ai_socket ai) s of
     (None, s) \<Rightarrow> if ai_socket ai = Sock_full then Some (Inl 71) else bind_loop proxy_new transport ais success f s
   | (Some sfd, s) \<Rightarrow>
       if ai_family ai = AF_INET6 \<and> \<not> ai_v6only ai then bind_loop proxy_new transport ais success f (close_fd sfd s)
       else do {
         _ \<leftarrow> (if IS_UDP transport then maximize_sndbuf (ai_sndbuf ai) (ai_sndbuf_ok ai) else Some (0, []));
         if ai_bind ai = Bind_fail then Some (Inr (1, f, close_fd sfd s))
         else if ai_bind ai = Bind_in_use then bind_loop proxy_new transport ais success f (close_fd sfd s)
         else if \<not> IS_UDP transport \<and> \<not> ai_listen ai then Some (Inr (1, f, close_fd sfd s))
         else do {
           let f = map_option (\<lambda>str. str @ port_line transport ai) f;
           r \<leftarrow> serve_socket proxy_new transport ai sfd s;
           (case r of Inl e \<Rightarrow> Some (Inl e) | Inr s \<Rightarrow> bind_loop proxy_new transport ais (success + 1) f s) } })"

text \<open>\<open>resolve\<close> is \<open>getaddrinfo\<close> for an interface and a port; it may fail.\<close>

definition server_socket :: "(string option \<Rightarrow> int \<Rightarrow> addrinfo list option) \<Rightarrow> (conn \<Rightarrow> conn) \<Rightarrow> string option \<Rightarrow> int
    \<Rightarrow> network_transport \<Rightarrow> string option \<Rightarrow> 'a machine_scheme
    \<Rightarrow> (int + int \<times> string option \<times> 'a machine_scheme) option" where
  "server_socket resolve proxy_new interface prt transport f s =
     (case resolve interface (if prt = -1 then 0 else prt) of
        None \<Rightarrow> Some (Inr (1, f, s))
      | Some ais \<Rightarrow> bind_loop proxy_new transport ais 0 f s)"

section \<open>The list of interfaces\<close>

definition is_sep :: "char \<Rightarrow> bool" where
  "is_sep c \<longleftrightarrow> c = CHR '';'' \<or> c = CHR '',''"

text \<open>The tokens that \<open>strtok_r\<close> finds.\<close>

function sep_tokens :: "string \<Rightarrow> string list" where
  "sep_tokens str = (let str = dropWhile is_sep str in
     if str = [] then [] else takeWhile (\<lambda>c. \<not> is_sep c) str # sep_tokens (dropWhile (\<lambda>c. \<not> is_sep c) str))"
  by pat_completeness auto
termination
proof (relation "measure length")
  fix str x :: string
  assume x: "x = dropWhile is_sep str" "x \<noteq> []"
  then have "\<not> is_sep (hd x)" by (simp add: hd_dropWhile)
  with x(2) have "length (dropWhile (\<lambda>c. \<not> is_sep c) x) < length x"
    by (cases x) (simp_all add: le_imp_less_Suc length_dropWhile_le)
  also have "\<dots> \<le> length str" by (simp add: x(1) length_dropWhile_le)
  finally show "(dropWhile (\<lambda>c. \<not> is_sep c) x, str) \<in> measure length" by simp
qed simp

declare sep_tokens.simps [simp del]

text \<open>The host and the port of a token; \<open>None\<close> when the port is not a number.\<close>

definition interface_port :: "int \<Rightarrow> string \<Rightarrow> (string option \<times> int) option" where
  "interface_port prt w = (let p = takeWhile (\<lambda>c. c \<noteq> CHR '':'') w; rest = dropWhile (\<lambda>c. c \<noteq> CHR '':'') w;
     host = (if p = ''*'' then None else Some p) in
     if rest = [] then Some (host, prt)
     else case safe_strtol (tl rest) of (ok, n) \<Rightarrow> if ok then Some (host, sint n) else None)"

fun socket_loop :: "(string option \<Rightarrow> int \<Rightarrow> addrinfo list option) \<Rightarrow> (conn \<Rightarrow> conn) \<Rightarrow> int \<Rightarrow> network_transport
    \<Rightarrow> string list \<Rightarrow> int \<Rightarrow> string option \<Rightarrow> 'a machine_scheme
    \<Rightarrow> (int + int \<times> string option \<times> 'a machine_scheme) option" where
  "socket_loop resolve proxy_new prt transport [] ret f s = Some (Inr (ret, f, s))"
| "socket_loop resolve proxy_new prt transport (w # ws) ret f s = (case interface_port prt w of
     None \<Rightarrow> Some (Inr (1, f, s))
   | Some (host, n) \<Rightarrow> (case server_socket resolve proxy_new host n transport f s of
       None \<Rightarrow> None
     | Some (Inl e) \<Rightarrow> Some (Inl e)
     | Some (Inr (r, f, s)) \<Rightarrow> socket_loop resolve proxy_new prt transport ws (or ret r) f s))"

text \<open>\<open>dup\<close> says whether \<open>strdup\<close> succeeds.\<close>

definition server_sockets :: "(string option \<Rightarrow> int \<Rightarrow> addrinfo list option) \<Rightarrow> (conn \<Rightarrow> conn) \<Rightarrow> bool \<Rightarrow> int
    \<Rightarrow> network_transport \<Rightarrow> string option \<Rightarrow> 'a machine_scheme
    \<Rightarrow> (int + int \<times> string option \<times> 'a machine_scheme) option" where
  "server_sockets resolve proxy_new dup prt transport f s = (case inter (settings s) of
     None \<Rightarrow> server_socket resolve proxy_new None prt transport f s
   | Some w \<Rightarrow> if dup then socket_loop resolve proxy_new prt transport (sep_tokens w) 0 f s else Some (Inr (1, f, s)))"

section \<open>The UNIX socket\<close>

text \<open>
  The addresses of \<open>addrinfo\<close> serve for the system calls here as well. The size of \<open>sun_path\<close> is 108;
  the copy is one shorter, and a longer path fails the assertion. \<open>leftover\<close> says whether the path names
  a socket; it is removed then.
\<close>

definition server_socket_unix :: "(conn \<Rightarrow> conn) \<Rightarrow> addrinfo \<Rightarrow> bool \<Rightarrow> string \<Rightarrow> 'a machine_scheme
    \<Rightarrow> (int + int \<times> bool \<times> 'a machine_scheme) option" where
  "server_socket_unix proxy_new ai leftover path s = (case new_socket (ai_socket ai) s of
     (None, s) \<Rightarrow> Some (Inr (1, False, s))
   | (Some sfd, s) \<Rightarrow>
       if 107 < length path then None
       else if ai_bind ai \<noteq> Bind_ok \<or> \<not> ai_listen ai then Some (Inr (1, leftover, close_fd sfd s))
       else Some (case listen_on proxy_new (ai_conn ai) sfd local_transport (s\<lparr>listeners := []\<rparr>) of
           Inl e \<Rightarrow> Inl e | Inr s \<Rightarrow> Inr (0, leftover, s)))"

section \<open>The search for the size of the send buffer\<close>

text \<open>
  The interval shrinks to at most half with every try, so the number of tries is bounded by the
  number of binary digits of its length.
\<close>

lemma sndbuf_loop_end: "hi < lo \<Longrightarrow> sndbuf_loop ok r lo hi tried = Some (r, tried)"
  by (subst sndbuf_loop.simps) simp

lemma sndbuf_loop_best:
  assumes "\<forall>x. ok x \<longleftrightarrow> x \<le> limit" and "0 \<le> lo" and "lo \<le> hi + 1" and "hi < 2 ^ 31" and "hi + 1 - lo < 2 ^ k"
  shows "\<exists>ys. sndbuf_loop ok r lo hi tried = Some (if lo \<le> min limit hi then min limit hi else r, tried @ ys)
    \<and> length ys \<le> k"
  using assms(2-)
proof (induction k arbitrary: lo hi r tried)
  case 0
  then show ?case by (simp add: sndbuf_loop_end)
next
  case (Suc k)
  show ?case
  proof (cases "lo \<le> hi")
    case False
    then show ?thesis by (simp add: sndbuf_loop_end)
  next
    case True
    define avg where "avg = (lo + hi) div 2"
    have "(lo + hi) mod 2 ^ 32 = lo + hi" using Suc.prems True by (intro mod_pos_pos_trivial) simp_all
    then have step: "sndbuf_loop ok r lo hi tried
        = (if ok avg then sndbuf_loop ok avg (avg + 1) hi (tried @ [avg]) else sndbuf_loop ok r lo (avg - 1) (tried @ [avg]))"
      using True by (subst sndbuf_loop.simps) (simp add: avg_def Let_def)
    have avg: "lo \<le> avg" "avg \<le> hi" using True by (simp_all add: avg_def)
    show ?thesis
    proof (cases "ok avg")
      case acc: True
      have "hi + 1 - (avg + 1) < 2 ^ k" using Suc.prems(4) unfolding avg_def by simp
      then obtain ys where ys: "sndbuf_loop ok avg (avg + 1) hi (tried @ [avg])
          = Some (if avg + 1 \<le> min limit hi then min limit hi else avg, (tried @ [avg]) @ ys)" "length ys \<le> k"
        using Suc.IH [of "avg + 1" hi avg "tried @ [avg]"] Suc.prems avg by auto
      have "avg \<le> limit" using acc assms(1) by simp
      with ys avg step acc show ?thesis by (intro exI [of _ "avg # ys"]) auto
    next
      case rej: False
      have "avg - 1 + 1 - lo < 2 ^ k" using Suc.prems(4) unfolding avg_def by simp
      then obtain ys where ys: "sndbuf_loop ok r lo (avg - 1) (tried @ [avg])
          = Some (if lo \<le> min limit (avg - 1) then min limit (avg - 1) else r, (tried @ [avg]) @ ys)" "length ys \<le> k"
        using Suc.IH [of lo "avg - 1" r "tried @ [avg]"] Suc.prems avg by auto
      have "limit < avg" using rej assms(1) by simp
      with ys avg step rej show ?thesis by (intro exI [of _ "avg # ys"]) auto
    qed
  qed
qed

text \<open>
  Property C29.
  The send buffer is made as large as the kernel allows: when the kernel takes every size up to some
  limit, and the size at the start is below it, the search ends after at most 29 calls with the limit,
  or with 256 MB if that is less; when the limit is below the size at the start, no call succeeds.
\<close>

theorem maximize_sndbuf_best:
  assumes "\<forall>x. ok x \<longleftrightarrow> x \<le> limit" and "0 \<le> old_size" and "old_size \<le> MAX_SENDBUF_SIZE"
  shows "\<exists>tried. maximize_sndbuf (Some old_size) ok
      = Some (if old_size \<le> limit then min limit MAX_SENDBUF_SIZE else 0, tried) \<and> length tried \<le> 29"
  using sndbuf_loop_best [OF assms(1), of old_size MAX_SENDBUF_SIZE 29 0 "[]"] assms(2,3)
  by (auto simp: maximize_sndbuf_def MAX_SENDBUF_SIZE_def)

theorem maximize_sndbuf_best_witness:
  "\<exists>tried. maximize_sndbuf (Some 16384) (\<lambda>x. x \<le> 212992) = Some (212992, tried) \<and> length tried \<le> 29"
  using maximize_sndbuf_best [of "\<lambda>x. x \<le> 212992" 212992 16384] by (simp add: MAX_SENDBUF_SIZE_def)

section \<open>Which addresses are served\<close>

text \<open>Addresses that are passed over, and those on which the server listens.\<close>

definition bound :: "addrinfo \<Rightarrow> bool" where
  "bound ai \<longleftrightarrow> (\<exists>sfd. ai_socket ai = Sock sfd True) \<and> (ai_family ai = AF_INET6 \<longrightarrow> ai_v6only ai) \<and> ai_bind ai = Bind_ok"

definition sock_fd :: "addrinfo \<Rightarrow> int" where
  "sock_fd ai = (case ai_socket ai of Sock sfd nb \<Rightarrow> sfd | _ \<Rightarrow> -1)"

definition opened :: "addrinfo \<Rightarrow> bool" where
  "opened ai \<longleftrightarrow> (\<exists>sfd nb. ai_socket ai = Sock sfd nb)"

definition reaches_bind :: "addrinfo \<Rightarrow> bool" where
  "reaches_bind ai \<longleftrightarrow> (\<exists>sfd. ai_socket ai = Sock sfd True) \<and> (ai_family ai = AF_INET6 \<longrightarrow> ai_v6only ai)"

text \<open>The seven blocks of a connection.\<close>

definition has_memory :: "addrinfo \<Rightarrow> bool" where
  "has_memory ai \<longleftrightarrow> (\<exists>gs. ai_conn ai = replicate 7 True @ gs)"

text \<open>
  What an address does to the loop: the server listens on it, it ends \<open>server_socket\<close> or the process, or
  neither, and it is passed over.
\<close>

definition comes_up :: "addrinfo \<Rightarrow> bool" where
  "comes_up ai \<longleftrightarrow> bound ai \<and> ai_listen ai \<and> has_memory ai"

definition call_fails :: "addrinfo \<Rightarrow> bool" where
  "call_fails ai \<longleftrightarrow> reaches_bind ai \<and> ai_bind ai = Bind_fail \<or> bound ai \<and> \<not> ai_listen ai"

definition stops_loop :: "addrinfo \<Rightarrow> bool" where
  "stops_loop ai \<longleftrightarrow> ai_socket ai = Sock_full \<or> call_fails ai \<or> bound ai \<and> \<not> has_memory ai"

definition listener_of :: "settings_t \<Rightarrow> addrinfo \<Rightarrow> listener" where
  "listener_of se ai = \<lparr>l_sfd = sock_fd ai, l_ev_flags = EV_READ + EV_PERSIST, l_backlog = backlog se\<rparr>"

definition can_listen :: "nat \<Rightarrow> 'a machine_scheme \<Rightarrow> bool" where
  "can_listen n s \<longleftrightarrow> (\<exists>es. event_adds s = replicate n True @ es) \<and> freeconns s = []"

lemma close_fd_simps [simp]:
  "closed (close_fd sfd s) = closed s @ [sfd]" "settings (close_fd sfd s) = settings s"
  "listeners (close_fd sfd s) = listeners s" "can_listen n (close_fd sfd s) = can_listen n s"
  by (simp_all add: close_fd_def can_listen_def)

lemma listen_on_ok:
  assumes "can_listen (Suc n) s" and gs: "gs = replicate 7 True @ hs"
    and P: "\<forall>c. cn_sfd (proxy_new c) = cn_sfd c \<and> cn_ev_flags (proxy_new c) = cn_ev_flags c"
  shows "\<exists>t. listen_on proxy_new gs sfd transport s = Inr t \<and> can_listen n t \<and> settings t = settings s \<and> closed t = closed s
    \<and> listeners t = \<lparr>l_sfd = sfd, l_ev_flags = EV_READ + EV_PERSIST, l_backlog = backlog (settings s)\<rparr> # listeners s"
proof -
  obtain es where s: "event_adds s = True # replicate n True @ es" "freeconns s = []"
    using assms(1) by (auto simp: can_listen_def)
  have g: "gs \<noteq> []" "hd gs" "tl gs = replicate 6 True @ hs" by (simp_all add: gs eval_nat_numeral)
  then obtain c where c: "alloc_conn (Suc 0) (tl gs) = Some c"
    by (simp add: alloc_conn_def list_all_iff)
  show ?thesis using s P
    by (simp add: listen_on_def conn_new_def conn_from_freelist_def g(1,2) c event_add_def Let_def can_listen_def init_conn_def upd_stats_def)
qed

lemma listen_on_no_memory:
  assumes "\<not> has_memory ai" "freeconns s = []"
  shows "listen_on proxy_new (ai_conn ai) sfd transport s = Inl 1"
proof -
  have "False" if a: "ai_conn ai \<noteq> []" "hd (ai_conn ai)" "6 \<le> length (tl (ai_conn ai))" "list_all (\<lambda>g. g) (take 6 (tl (ai_conn ai)))"
  proof -
    obtain gs where gs: "ai_conn ai = True # gs" using a(1,2) by (cases "ai_conn ai") auto
    then have "take 6 gs = replicate 6 True" using a(3,4) by (intro replicate_eqI) (auto simp: list_all_iff)
    then have "ai_conn ai = replicate 7 True @ drop 6 gs"
      using gs append_take_drop_id [of 6 gs] by (simp add: eval_nat_numeral)
    then show False using assms(1) by (auto simp: has_memory_def)
  qed
  then have "(if ai_conn ai \<noteq> [] \<and> hd (ai_conn ai) then alloc_conn (Suc 0) (tl (ai_conn ai)) else None) = None"
    by (auto simp: alloc_conn_def)
  then show ?thesis using assms(2) by (simp add: listen_on_def conn_new_def conn_from_freelist_def)
qed

text \<open>The addresses before the first one that stops the loop.\<close>

lemma bind_loop_prefix:
  assumes "\<forall>ai\<in>set pre. \<not> stops_loop ai" and tr: "\<not> IS_UDP transport" and "can_listen (length (filter comes_up pre) + m) s"
    and P: "\<forall>c. cn_sfd (proxy_new c) = cn_sfd c \<and> cn_ev_flags (proxy_new c) = cn_ev_flags c"
  shows "\<exists>t. bind_loop proxy_new transport (pre @ rest) k f s = bind_loop proxy_new transport rest (k + length (filter comes_up pre))
        (map_option (\<lambda>str. str @ concat (map (port_line transport) (filter comes_up pre))) f) t
    \<and> listeners t = rev (map (listener_of (settings s)) (filter comes_up pre)) @ listeners s
    \<and> closed t = closed s @ map sock_fd (filter (\<lambda>ai. opened ai \<and> \<not> comes_up ai) pre)
    \<and> can_listen m t \<and> settings t = settings s"
  using assms(1,3)
proof (induction pre arbitrary: k f s)
  case Nil
  then show ?case by (cases f) auto
next
  case (Cons ai ais)
  have h: "\<not> stops_loop ai" "\<forall>ai\<in>set ais. \<not> stops_loop ai" using Cons.prems(1) by simp_all
  show ?case
  proof (cases "comes_up ai")
    case True
    then obtain sfd where ai: "ai_socket ai = Sock sfd True" "\<not> (ai_family ai = AF_INET6 \<and> \<not> ai_v6only ai)" "ai_bind ai = Bind_ok"
      "ai_listen ai" by (auto simp: comes_up_def bound_def)
    obtain gs where gs: "ai_conn ai = replicate 7 True @ gs" using True by (auto simp: comes_up_def has_memory_def)
    obtain u where u: "listen_on proxy_new (ai_conn ai) sfd transport s = Inr u" "can_listen (length (filter comes_up ais) + m) u"
      "settings u = settings s" "closed u = closed s"
      "listeners u = \<lparr>l_sfd = sfd, l_ev_flags = EV_READ + EV_PERSIST, l_backlog = backlog (settings s)\<rparr> # listeners s"
      using listen_on_ok [OF _ gs P, of "length (filter comes_up ais) + m" s sfd transport] Cons.prems(2) True by auto
    have run: "bind_loop proxy_new transport ((ai # ais) @ rest) k f s
        = bind_loop proxy_new transport (ais @ rest) (k + 1) (map_option (\<lambda>str. str @ port_line transport ai) f) u"
      using ai tr u(1) by (auto simp: new_socket_def serve_socket_def)
    have "\<not> (opened ai \<and> \<not> comes_up ai)" using True by simp
    with Cons.IH [OF h(2) u(2), of "k + 1" "map_option (\<lambda>str. str @ port_line transport ai) f"] show ?thesis
      unfolding run u(3-5) using True ai(1) by (cases f) (auto simp: listener_of_def sock_fd_def)
  next
    case False
    have c: "can_listen (length (filter comes_up ais) + m) s" using Cons.prems(2) False by simp
    show ?thesis
    proof (cases "opened ai")
      case op: True
      then obtain sfd nb where ai: "ai_socket ai = Sock sfd nb" by (auto simp: opened_def)
      have "bind_loop proxy_new transport ((ai # ais) @ rest) k f s = bind_loop proxy_new transport (ais @ rest) k f (close_fd sfd s)"
        using h(1) ai False tr by (cases "ai_bind ai")
          (auto simp: new_socket_def bound_def comes_up_def stops_loop_def call_fails_def reaches_bind_def)
      then show ?thesis using Cons.IH [OF h(2), of "close_fd sfd s" k f] c False op ai
        by (auto simp: sock_fd_def)
    next
      case op: False
      then have "bind_loop proxy_new transport ((ai # ais) @ rest) k f s = bind_loop proxy_new transport (ais @ rest) k f s"
        using h(1) by (cases "ai_socket ai") (auto simp: new_socket_def opened_def stops_loop_def)
      then show ?thesis using Cons.IH [OF h(2) c, of k f] False op by auto
    qed
  qed
qed


section \<open>UDP sockets\<close>

text \<open>How often worker \<open>v\<close> of \<open>n\<close> is served in the \<open>k\<close> turns after \<open>last\<close>.\<close>

fun turns :: "int \<Rightarrow> nat \<Rightarrow> nat \<Rightarrow> nat \<Rightarrow> nat" where
  "turns l n 0 v = 0"
| "turns l n (Suc k) v = (if (l + 1) mod int n = int v then 1 else 0) + turns ((l + 1) mod int n) n k v"

lemma turns_once: "k \<le> n \<Longrightarrow> v < n \<Longrightarrow> turns l n k v = (if (int v - l - 1) mod int n < int k then 1 else 0)"
proof (induction k arbitrary: l)
  case 0
  then have "0 \<le> (int v - l - 1) mod int n" by (intro pos_mod_sign) simp
  then show ?case by simp
next
  case (Suc k)
  define d where "d = (int v - l - 1) mod int n"
  have n: "0 < int n" using Suc.prems by simp
  have d: "0 \<le> d" "d < int n" using n by (simp_all add: d_def)
  have first: "(l + 1) mod int n = int v \<longleftrightarrow> d = 0"
  proof -
    have "(l + 1) mod int n = int v mod int n \<longleftrightarrow> int n dvd (l + 1 - int v)" by (rule mod_eq_dvd_iff)
    also have "\<dots> \<longleftrightarrow> int n dvd (int v - l - 1)" by (metis diff_diff_eq dvd_minus_iff minus_diff_eq)
    finally show ?thesis using Suc.prems by (simp add: d_def dvd_eq_mod_eq_0)
  qed
  have "(int v - (l + 1) mod int n - 1) mod int n = (int v - l - 1 - 1) mod int n"
    by (metis (no_types, opaque_lifting) diff_diff_eq diff_right_commute mod_diff_left_eq mod_diff_right_eq)
  also have "\<dots> = (d - 1) mod int n" by (simp add: d_def mod_diff_left_eq)
  also have "\<dots> = (if d = 0 then int n - 1 else d - 1)"
    using d by (auto simp: zmod_minus1 mod_pos_pos_trivial)
  finally have "turns ((l + 1) mod int n) n k v = (if (if d = 0 then int n - 1 else d - 1) < int k then 1 else 0)"
    using Suc.IH [of "(l + 1) mod int n"] Suc.prems by simp
  with d first Suc.prems show ?case by (auto simp flip: d_def)
qed

lemma turns_single: "turns l 1 k 0 = k"
  by (induction k arbitrary: l) simp_all

lemma share_replicate: "share l n v (replicate k r) = replicate (turns l n k v) r"
  by (induction k arbitrary: l) simp_all

lemma dispatch_udp_all: "dispatch_udp k sfd d
    = dispatch_all (replicate k (sfd, conn_read, EV_READ + EV_PERSIST, int UDP_READ_BUFFER_SIZE, udp_transport)) d"
proof (induction k arbitrary: d)
  case (Suc k)
  then have "dispatch_udp k sfd
    = dispatch_all (replicate k (sfd, conn_read, EV_READ + EV_PERSIST, int UDP_READ_BUFFER_SIZE, udp_transport))" by blast
  then show ?case by simp
qed simp

text \<open>
  A UDP socket reaches every worker: when it is dispatched as often as there are workers, each of them
  is given it exactly once, wherever the rotation stood. A single worker, which a RAMCube node has
  whatever the number of threads asked for, is given the same socket every time.
\<close>

theorem udp_socket_on_every_worker:
  assumes "dispatch_ok d qs free" and "free = [] \<Longrightarrow> fresh_block d qs" and "workers d \<noteq> []" "-1 \<le> last_thread d"
    and "k \<le> (if free = [] then ITEMS_PER_ALLOC else length free)" and "k = length (workers d) \<or> length (workers d) = 1"
  shows "\<exists>t qs' free'. dispatch_udp k sfd d = Some t \<and> dispatch_ok t qs' free' \<and> length (workers t) = length (workers d)
    \<and> (\<forall>v<length (workers d). requests t (qs' v) = requests d (qs v)
          @ replicate (if length (workers d) = 1 then k else 1)
              (sfd, conn_read, EV_READ + EV_PERSIST, int UDP_READ_BUFFER_SIZE, udp_transport)
        \<and> notify_pipe (workers t ! v) = notify_pipe (workers d ! v)
          @ replicate (if length (workers d) = 1 then k else 1) CHR ''c'')"
proof -
  have "turns (last_thread d) (length (workers d)) k v = (if length (workers d) = 1 then k else 1)" if "v < length (workers d)" for v
  proof (cases "length (workers d) = 1")
    case True
    with that turns_single show ?thesis by simp
  next
    case False
    with assms(6) have "k = length (workers d)" by simp
    moreover have "(int v - last_thread d - 1) mod int (length (workers d)) < int (length (workers d))"
      using assms(3) by (intro pos_mod_bound) simp
    ultimately show ?thesis using turns_once [OF order.refl that, of "last_thread d"] False by simp
  qed
  moreover obtain t qs' free' where "dispatch_udp k sfd d = Some t" "dispatch_ok t qs' free'" "length (workers t) = length (workers d)"
    "\<forall>v<length (workers d). requests t (qs' v) = requests d (qs v)
          @ replicate (turns (last_thread d) (length (workers d)) k v)
              (sfd, conn_read, EV_READ + EV_PERSIST, int UDP_READ_BUFFER_SIZE, udp_transport)
        \<and> notify_pipe (workers t ! v) = notify_pipe (workers d ! v)
          @ replicate (turns (last_thread d) (length (workers d)) k v) CHR ''c''"
    using dispatch_all_shares [OF assms(1-4), of "replicate k (sfd, conn_read, EV_READ + EV_PERSIST, int UDP_READ_BUFFER_SIZE,
        udp_transport)"] assms(5) unfolding dispatch_udp_all share_replicate by auto
  ultimately show ?thesis by auto
qed

theorem udp_socket_on_every_worker_witness:
  "\<exists>t. dispatch_udp 4 9 dispatch_boot = Some t \<and> (\<forall>v<4. notify_pipe (workers t ! v) = ''c'')"
proof -
  have w: "length (workers dispatch_boot) = 4" "\<forall>v<4. notify_pipe (workers dispatch_boot ! v) = []"
    by (simp_all add: dispatch_boot_def)
  have "dispatch_ok dispatch_boot (\<lambda>_. []) []" "fresh_block dispatch_boot (\<lambda>_. [])"
    "workers dispatch_boot \<noteq> []" "-1 \<le> last_thread dispatch_boot"
    by (simp_all add: dispatch_ok_def cq_holds_def cqi_holds_def fresh_block_def dispatch_boot_def)
  from udp_socket_on_every_worker [OF this, of 4 9] w show ?thesis
    by (auto simp: ITEMS_PER_ALLOC_def)
qed


text \<open>
  Three addresses: one without IPv6 sockets, one that is served, and one on which \<open>bind\<close> fails. The call fails, and
  the server is still listening.
\<close>

definition an_address :: "family \<Rightarrow> int \<Rightarrow> bind_result \<Rightarrow> addrinfo" where
  "an_address fam fd b = \<lparr>ai_family = fam, ai_socket = Sock fd True, ai_v6only = False, ai_sndbuf = None, ai_sndbuf_ok = (\<lambda>_. True),
     ai_bind = b, ai_listen = True, ai_sockname = Some 11211, ai_conn = replicate 7 True\<rparr>"


end
