(* ===== verification/Workers.thy ===== *)
theory Workers
  imports Delivery
begin

text \<open>
  The worker threads (\<open>thread.c\<close>): setting them up, and the handler of their notify pipes, which turns
  the queued requests of the listening thread into connections. The threads of one process are steps
  on the shared state; a result \<open>Inl\<close> is the exit status of the process.
\<close>

section \<open>Starting the workers\<close>

text \<open>The answers of the calls that set a thread up; \<open>wk_mallocs\<close> are the allocations for its cache.\<close>

record thread_calls =
  wk_pipe :: bool
  wk_base :: bool
  wk_event :: bool
  wk_queue :: bool
  wk_mutex :: bool
  wk_mallocs :: "addr list"
  wk_create :: bool

definition new_worker :: worker where
  "new_worker = \<lparr>new_conn_queue = \<lparr>cq_head = NULL, cq_tail = NULL\<rparr>, notify_pipe = [], item_lock_type = ITEM_LOCK_GRANULAR\<rparr>"

text \<open>The suffix cache of the thread, in a heap \<open>h\<close>.\<close>

definition setup_thread :: "bheap \<Rightarrow> thread_calls \<Rightarrow> int + cache" where
  "setup_thread h w = (if \<not> wk_base w then Inl 1 else if \<not> wk_event w then Inl 1 else if \<not> wk_queue w then Inl 1
     else if \<not> wk_mutex w then Inl 1
     else case fst (cache_create ''suffix'' SUFFIX_SIZE None None h (wk_mallocs w)) of None \<Rightarrow> Inl 1 | Some k \<Rightarrow> Inr k)"

definition add_worker :: "'a machine_scheme \<Rightarrow> 'a machine_scheme" where
  "add_worker s = upd_stats (\<lambda>t. t\<lparr>reserved_fds := reserved_fds t + 5\<rparr>)
     (s\<lparr>dispatcher := (dispatcher s)\<lparr>workers := workers (dispatcher s) @ [new_worker]\<rparr>,
        threads := threads s @ [zero_thread_stats]\<rparr>)"

fun setup_threads :: "bheap \<Rightarrow> thread_calls list \<Rightarrow> cache list \<Rightarrow> 'a machine_scheme
    \<Rightarrow> int + cache list \<times> 'a machine_scheme" where
  "setup_threads h [] ks s = Inr (ks, s)"
| "setup_threads h (w # ws) ks s = (if \<not> wk_pipe w then Inl 1
     else case setup_thread h w of Inl e \<Rightarrow> Inl e | Inr k \<Rightarrow> setup_threads h ws (ks @ [k]) (add_worker s))"

text \<open>\<open>worker_libevent\<close>, up to its event loop.\<close>

definition worker_libevent :: "nat \<Rightarrow> 'a machine_scheme \<Rightarrow> 'a machine_scheme" where
  "worker_libevent w s = s\<lparr>dispatcher := worker_started w (dispatcher s)\<rparr>"

text \<open>The threads \<open>w\<close>, \<open>w + 1\<close>, ... are created and run; the main thread waits for all of them.\<close>

fun create_workers :: "nat \<Rightarrow> thread_calls list \<Rightarrow> 'a machine_scheme \<Rightarrow> int + 'a machine_scheme" where
  "create_workers w [] s = Inr s"
| "create_workers w (c # cs) s = (if wk_create c then create_workers (w + 1) cs (worker_libevent w s) else Inl 1)"

text \<open>\<open>locks\<close> and \<open>descr\<close> say whether the two arrays can be allocated.\<close>

definition thread_init :: "bheap \<Rightarrow> thread_calls list \<Rightarrow> bool \<Rightarrow> bool \<Rightarrow> 'a machine_scheme
    \<Rightarrow> int + cache list \<times> 'a machine_scheme" where
  "thread_init h calls locks descr s = (let
     s = s\<lparr>dispatcher := (dispatcher s)\<lparr>cqi_freelist := NULL\<rparr>\<rparr> in
     if \<not> locks then Inl 1 else let s = init_item_locks (length calls) s in
     if \<not> descr then Inl 1 else let s = s\<lparr>dispatcher := (dispatcher s)\<lparr>workers := []\<rparr>, threads := []\<rparr> in
     case setup_threads h calls [] s of Inl e \<Rightarrow> Inl e
     | Inr (ks, s) \<Rightarrow> (case create_workers 0 calls s of Inl e \<Rightarrow> Inl e | Inr s \<Rightarrow> Inr (ks, s)))"

section \<open>The handler of the notify pipe\<close>

text \<open>A request is turned into a connection; \<open>gs\<close> are the allocations of \<open>conn_new\<close>.\<close>

definition take_request :: "(conn \<Rightarrow> conn) \<Rightarrow> bool list \<Rightarrow> nat \<Rightarrow> 'a machine_scheme \<Rightarrow> int + conn option \<times> 'a machine_scheme" where
  "take_request proxy_new gs w s = (case cq_pop w (dispatcher s) of (it, d) \<Rightarrow>
     let s = s\<lparr>dispatcher := d\<rparr> in
     if it = NULL then Inr (None, s)
     else let i = cq_mem d it in
       (case conn_new proxy_new gs (cq_sfd i) (cq_init_state i) (cq_event_flags i) (nat (cq_read_buffer_size i)) (cq_transport i) s of
          (None, s) \<Rightarrow> if IS_UDP (cq_transport i) then Inl 1
            else Inr (None, s\<lparr>closed := closed s @ [cq_sfd i], dispatcher := cqi_free it (dispatcher s)\<rparr>)
        | (Some c, s) \<Rightarrow> Inr (Some (c\<lparr>cn_thread := w\<rparr>), s\<lparr>dispatcher := cqi_free it (dispatcher s)\<rparr>)))"

definition set_lock_type :: "item_lock_types \<Rightarrow> nat \<Rightarrow> 'a machine_scheme \<Rightarrow> 'a machine_scheme" where
  "set_lock_type k w s = s\<lparr>dispatcher := register_thread_initialized (upd_worker w (\<lambda>t. t\<lparr>item_lock_type := k\<rparr>) (dispatcher s))\<rparr>"

text \<open>One byte is read from the pipe, which is not empty when the handler runs.\<close>

definition thread_libevent_process :: "(conn \<Rightarrow> conn) \<Rightarrow> bool list \<Rightarrow> nat \<Rightarrow> 'a machine_scheme
    \<Rightarrow> (int + conn option \<times> 'a machine_scheme) option" where
  "thread_libevent_process proxy_new gs w s = (case notify_pipe (workers (dispatcher s) ! w) of
     [] \<Rightarrow> None
   | b # bs \<Rightarrow> (let s = s\<lparr>dispatcher := upd_worker w (\<lambda>t. t\<lparr>notify_pipe := bs\<rparr>) (dispatcher s)\<rparr> in
       Some (if b = CHR ''c'' then take_request proxy_new gs w s
         else if b = CHR ''l'' then Inr (None, set_lock_type ITEM_LOCK_GRANULAR w s)
         else if b = CHR ''g'' then Inr (None, set_lock_type ITEM_LOCK_GLOBAL w s)
         else Inr (None, s))))"

text \<open>The event loop of a worker over its pipe: the handler runs once for each element of \<open>gss\<close>.\<close>

fun worker_run :: "(conn \<Rightarrow> conn) \<Rightarrow> bool list list \<Rightarrow> nat \<Rightarrow> 'a machine_scheme
    \<Rightarrow> (int + conn option list \<times> 'a machine_scheme) option" where
  "worker_run proxy_new [] w s = Some (Inr ([], s))"
| "worker_run proxy_new (gs # gss) w s = (case thread_libevent_process proxy_new gs w s of
     None \<Rightarrow> None | Some (Inl e) \<Rightarrow> Some (Inl e)
   | Some (Inr (c, s)) \<Rightarrow> (case worker_run proxy_new gss w s of
       Some (Inr (cs, s)) \<Rightarrow> Some (Inr (c # cs, s)) | r \<Rightarrow> r))"

section \<open>A worker serves its queue\<close>

lemma cnx_congD: "(\<And>x. x \<in> set xs \<Longrightarrow> cnx t x = cnx s x) \<Longrightarrow> workers t ! w = workers s ! w \<Longrightarrow> length (workers t) = length (workers s)
    \<Longrightarrow> cq_holds w s xs \<Longrightarrow> cq_holds w t xs"
  using chain_cong [of xs "cnx t" "cnx s"] by (simp add: cq_holds_def)

text \<open>Taking the oldest request and giving its item back.\<close>

lemma pop_free_ok:
  assumes R: "dispatch_ok d qs free" and w: "w < length (workers d)" and q: "qs w = x # xs"
  defines "u \<equiv> cqi_free x (snd (cq_pop w d))"
  shows "fst (cq_pop w d) = x \<and> x \<noteq> NULL \<and> cq_mem (snd (cq_pop w d)) = cq_mem d
    \<and> dispatch_ok u (qs(w := xs)) (x # free) \<and> length (workers u) = length (workers d)
    \<and> (\<forall>v<length (workers d). requests u ((qs(w := xs)) v) = requests d ((qs(w := xs)) v)
        \<and> notify_pipe (workers u ! v) = notify_pipe (workers d ! v))"
proof -
  have hw: "cq_holds w d (x # xs)" using R w q unfolding dispatch_ok_def by metis
  note pop = cq_pop_holds [OF hw]
  define e where "e = snd (cq_pop w d)"
  have e: "cq_mem e = cq_mem d" "cq_holds w e xs" "cqi_freelist e = cqi_freelist d" "length (workers e) = length (workers d)"
    "\<And>v. v \<noteq> w \<Longrightarrow> workers e ! v = workers d ! v" "notify_pipe (workers e ! w) = notify_pipe (workers d ! w)"
    using pop w by (auto simp: e_def cq_pop_def Let_def)
  have u: "cnx u = (cnx d)(x := cqi_freelist d)" "cqi_freelist u = x" "workers u = workers e"
    using e(1,3) cqi_free_fields [of x e] by (auto simp: u_def e_def [symmetric]) (simp add: cqi_free_def)
  have ux: "cq_next (cq_mem u y) = (if y = x then cqi_freelist d else cq_next (cq_mem d y))" for y
    using fun_cong [OF u(1), of y] by simp
  have xs: "x \<notin> set xs" "x \<noteq> NULL"
    using hw pop chain_distinct [of "cnx d" "cq_head (queue_of d w)" "x # xs"] by (auto simp: cq_holds_def)
  have other: "x \<notin> set (qs v)" if "v < length (workers d)" "v \<noteq> w" for v
    using R that w q unfolding dispatch_ok_def by (metis IntI empty_iff list.set_intros(1))
  have free: "x \<notin> set free" "cqi_holds d free" using R w q by (auto simp: dispatch_ok_def)
  have hold: "cq_holds v u ((qs(w := xs)) v)" if v: "v < length (workers d)" for v
  proof (cases "v = w")
    case True
    have "cq_holds w u xs" by (rule cnx_congD [OF _ _ _ e(2)]) (use u(3) ux e xs in auto)
    with True show ?thesis by simp
  next
    case False
    have "cq_holds v u (qs v)" by (rule cnx_congD [where s = d]) (use R u(3) ux e v False other [OF v False] in \<open>auto simp: dispatch_ok_def\<close>)
    with False show ?thesis by simp
  qed
  have "chain (cnx u) (cqi_freelist d) free"
    using free(2) chain_cong [of free "cnx u" "cnx d" "cqi_freelist d"] ux free(1) unfolding cqi_holds_def by metis
  then have fr: "cqi_holds u (x # free)" using u(2) ux xs(2) by (simp add: cqi_holds_def)
  have sub: "set ((qs(w := xs)) v) \<subseteq> set (qs v)" for v using q by auto
  have "set ((qs(w := xs)) v) \<inter> set (x # free) = {}" if v: "v < length (workers d)" for v
  proof -
    have "set (qs v) \<inter> set free = {}" using R v unfolding dispatch_ok_def by blast
    moreover have "x \<notin> set ((qs(w := xs)) v)" using other [OF v] xs(1) by simp
    ultimately show ?thesis using sub [of v] by auto
  qed
  moreover have "set ((qs(w := xs)) i) \<inter> set ((qs(w := xs)) v) = {}"
    if iv: "i < length (workers d)" "v < length (workers d)" "v \<noteq> i" for i v
  proof -
    have "set (qs i) \<inter> set (qs v) = {}" using R iv unfolding dispatch_ok_def by blast
    with sub [of i] sub [of v] show ?thesis by blast
  qed
  ultimately have "dispatch_ok u (qs(w := xs)) (x # free)"
    using hold e(4) u(3) fr unfolding dispatch_ok_def by simp
  moreover have "cq_request (cq_mem u p) = cq_request (cq_mem d p)" for p
    using e(1) by (simp add: u_def cqi_free_def cq_request_def flip: e_def)
  then have "requests u ys = requests d ys" for ys by (simp add: requests_def)
  moreover have "notify_pipe (workers u ! v) = notify_pipe (workers d ! v)" for v
    using e(5,6) u(3) by (cases "v = w") simp_all
  ultimately show ?thesis using pop xs(2) e(4) u(3) by simp
qed

text \<open>What a connection has of the request it was made from.\<close>

definition served :: "conn \<Rightarrow> int \<times> conn_states \<times> int \<times> nat \<times> network_transport \<times> nat" where
  "served c = (cn_sfd c, cn_state c, cn_ev_flags c, cn_rsize c, cn_transport c, cn_thread c)"

definition asked :: "nat \<Rightarrow> request \<Rightarrow> int \<times> conn_states \<times> int \<times> nat \<times> network_transport \<times> nat" where
  "asked w r = (case r of (sfd, st, fl, rb, tr) \<Rightarrow> (sfd, st, fl, nat rb, tr, w))"

text \<open>\<open>n\<close> connections can be made: there is memory, the events can be added, and nothing is reused.\<close>

definition can_connect_all :: "bool list list \<Rightarrow> 'a machine_scheme \<Rightarrow> bool" where
  "can_connect_all gss s \<longleftrightarrow> (\<forall>gs\<in>set gss. \<exists>hs. gs = replicate 7 True @ hs)
     \<and> (\<exists>es. event_adds s = replicate (length gss) True @ es) \<and> freeconns s = []"

lemma conn_new_fresh:
  assumes "can_connect_all (gs # gss) s"
    and P: "\<forall>c. served (proxy_new c) = served c"
  shows "\<exists>c t. conn_new proxy_new gs sfd st fl rb tr s = (Some c, t) \<and> served (c\<lparr>cn_thread := w\<rparr>) = (sfd, st, fl, rb, tr, w)
    \<and> can_connect_all gss t \<and> dispatcher t = dispatcher s \<and> curr_conns (stats t) = curr_conns (stats s) + 1"
proof -
  obtain es hs where s: "event_adds s = True # replicate (length gss) True @ es" "freeconns s = []" and gs: "gs = replicate 7 True @ hs"
    using assms(1) by (auto simp: can_connect_all_def)
  have g: "gs \<noteq> []" "hd gs" "tl gs = replicate 6 True @ hs" by (simp_all add: gs eval_nat_numeral)
  then obtain c where c: "alloc_conn rb (tl gs) = Some c" "cn_rsize c = rb"
    by (simp add: alloc_conn_def list_all_iff)
  have "served (proxy_new c) = served c" for c using P by simp
  then show ?thesis using s c(2) assms(1)
    by (auto simp: conn_new_def conn_from_freelist_def g(1,2) c(1) event_add_def Let_def can_connect_all_def init_conn_def
        upd_stats_def served_def)
qed

lemma serve_one:
  assumes R: "dispatch_ok (dispatcher s) qs free" and w: "w < length (workers (dispatcher s))" and q: "qs w = x # xs"
    and np: "notify_pipe (workers (dispatcher s) ! w) = CHR ''c'' # bs" and C: "can_connect_all (gs # gss) s"
    and P: "\<forall>c. served (proxy_new c) = served c"
  shows "\<exists>c t. thread_libevent_process proxy_new gs w s = Some (Inr (Some c, t))
    \<and> [served c] = map (asked w) (requests (dispatcher s) [x])
    \<and> dispatch_ok (dispatcher t) (qs(w := xs)) (x # free) \<and> requests (dispatcher t) xs = requests (dispatcher s) xs
    \<and> notify_pipe (workers (dispatcher t) ! w) = bs \<and> length (workers (dispatcher t)) = length (workers (dispatcher s))
    \<and> can_connect_all gss t \<and> curr_conns (stats t) = curr_conns (stats s) + 1"
proof -
  define d where "d = upd_worker w (\<lambda>t. t\<lparr>notify_pipe := bs\<rparr>) (dispatcher s)"
  have d: "cq_mem d = cq_mem (dispatcher s)" "cqi_freelist d = cqi_freelist (dispatcher s)"
    "length (workers d) = length (workers (dispatcher s))" "notify_pipe (workers d ! w) = bs"
    "\<And>v. queue_of d v = queue_of (dispatcher s) v"
    using w by (simp_all add: d_def) (metis upd_worker_fields(6,7) worker.select_convs(1) worker.surjective worker.update_convs(2))
  have "cq_holds v d ys = cq_holds v (dispatcher s) ys" for v ys using d by (simp add: cq_holds_def)
  moreover have "cqi_holds d ys = cqi_holds (dispatcher s) ys" for ys using d by (simp add: cqi_holds_def)
  ultimately have Rd: "dispatch_ok d qs free" using R d(3) by (simp add: dispatch_ok_def)
  define e where "e = snd (cq_pop w d)"
  have "w < length (workers d)" using w d(3) by simp
  note pf = pop_free_ok [OF Rd this q, folded e_def]
  have pop: "cq_pop w d = (x, e)" using pf by (metis e_def prod.collapse)
  have i: "cq_mem e x = cq_mem (dispatcher s) x" using pf d(1) by simp
  let ?i = "cq_mem (dispatcher s) x"
  have "can_connect_all (gs # gss) (s\<lparr>dispatcher := e\<rparr>)" using C by (simp add: can_connect_all_def)
  from conn_new_fresh [OF this P, of "cq_sfd ?i" "cq_init_state ?i" "cq_event_flags ?i" "nat (cq_read_buffer_size ?i)" "cq_transport ?i" w]
  obtain c t where ct: "conn_new proxy_new gs (cq_sfd ?i) (cq_init_state ?i) (cq_event_flags ?i)
      (nat (cq_read_buffer_size ?i)) (cq_transport ?i) (s\<lparr>dispatcher := e\<rparr>) = (Some c, t)"
    "served (c\<lparr>cn_thread := w\<rparr>) = (cq_sfd ?i, cq_init_state ?i, cq_event_flags ?i, nat (cq_read_buffer_size ?i), cq_transport ?i, w)"
    "can_connect_all gss t" "dispatcher t = e" "curr_conns (stats t) = curr_conns (stats s) + 1"
    by auto
  let ?t = "t\<lparr>dispatcher := cqi_free x e\<rparr>"
  have "thread_libevent_process proxy_new gs w s = Some (Inr (Some (c\<lparr>cn_thread := w\<rparr>), ?t))"
    using pf by (simp add: thread_libevent_process_def np take_request_def pop ct(1,4) d(1) Let_def flip: d_def)
  moreover have "requests d ys = requests (dispatcher s) ys" for ys using d(1) by (simp add: requests_def)
  ultimately show ?thesis
    using pf ct d(3,4) w q by (intro exI [of _ "c\<lparr>cn_thread := w\<rparr>"] exI [of _ ?t])
      (auto simp: requests_def asked_def cq_request_def can_connect_all_def)
qed

lemma worker_run_serves:
  assumes "dispatch_ok (dispatcher s) qs free" and "w < length (workers (dispatcher s))" and "qs w = xs"
    and "notify_pipe (workers (dispatcher s) ! w) = map (\<lambda>_. CHR ''c'') xs @ bs"
    and "length gss = length xs" and "can_connect_all gss s" and P: "\<forall>c. served (proxy_new c) = served c"
  shows "\<exists>cs t. worker_run proxy_new gss w s = Some (Inr (map Some cs, t))
    \<and> map served cs = map (asked w) (requests (dispatcher s) xs)
    \<and> dispatch_ok (dispatcher t) (qs(w := [])) (rev xs @ free) \<and> notify_pipe (workers (dispatcher t) ! w) = bs
    \<and> curr_conns (stats t) = curr_conns (stats s) + of_nat (length xs)"
  using assms(1-6)
proof (induction xs arbitrary: s qs free gss)
  case Nil
  then have "qs(w := []) = qs" by auto
  with Nil show ?case by (simp add: requests_def)
next
  case (Cons x xs)
  obtain gs hss where g: "gss = gs # hss" "length hss = length xs" using Cons.prems(5) by (cases gss) auto
  obtain c u where u: "thread_libevent_process proxy_new gs w s = Some (Inr (Some c, u))"
    "[served c] = map (asked w) (requests (dispatcher s) [x])"
    "dispatch_ok (dispatcher u) (qs(w := xs)) (x # free)" "requests (dispatcher u) xs = requests (dispatcher s) xs"
    "notify_pipe (workers (dispatcher u) ! w) = map (\<lambda>_. CHR ''c'') xs @ bs"
    "length (workers (dispatcher u)) = length (workers (dispatcher s))"
    "can_connect_all hss u" "curr_conns (stats u) = curr_conns (stats s) + 1"
    using serve_one [OF Cons.prems(1-3) _ _ P, of "map (\<lambda>_. CHR ''c'') xs @ bs" gs hss] Cons.prems(4,6) g by auto
  define qs1 where "qs1 = qs(w := xs)"
  have qs1: "dispatch_ok (dispatcher u) qs1 (x # free)" "qs1 w = xs" "qs1(w := []) = qs(w := [])"
    using u(3) by (simp_all add: qs1_def)
  have wu: "w < length (workers (dispatcher u))" using u(6) Cons.prems(2) by simp
  obtain cs t where t: "worker_run proxy_new hss w u = Some (Inr (map Some cs, t))"
    "map served cs = map (asked w) (requests (dispatcher u) xs)"
    "dispatch_ok (dispatcher t) (qs(w := [])) (rev xs @ x # free)" "notify_pipe (workers (dispatcher t) ! w) = bs"
    "curr_conns (stats t) = curr_conns (stats u) + of_nat (length xs)"
    using Cons.IH [OF qs1(1) wu qs1(2) u(5) g(2) u(7)] unfolding qs1(3) by blast
  show ?case
    using t u(1,2,4,8) g(1)
    by (intro exI [of _ "c # cs"] exI [of _ t]) (auto simp: requests_def simp del: fun_upd_apply)
qed

section \<open>From the start of the threads to the first connections\<close>

definition calls_ok :: "thread_calls \<Rightarrow> bool" where
  "calls_ok w \<longleftrightarrow> wk_pipe w \<and> wk_base w \<and> wk_event w \<and> wk_queue w \<and> wk_mutex w \<and> wk_create w
     \<and> (\<exists>p q r ps. wk_mallocs w = p # q # r # ps \<and> p \<noteq> NULL \<and> q \<noteq> NULL \<and> r \<noteq> NULL)"

lemma setup_thread_ok: "calls_ok w \<Longrightarrow> \<exists>k. setup_thread h w = Inr k"
  by (auto simp: calls_ok_def setup_thread_def cache_create_def)

text \<open>What setting the threads up does not touch.\<close>

definition same_world :: "'a machine_scheme \<Rightarrow> 'a machine_scheme \<Rightarrow> bool" where
  "same_world s t \<longleftrightarrow> event_adds t = event_adds s \<and> freeconns t = freeconns s \<and> curr_conns (stats t) = curr_conns (stats s)
     \<and> cqi_freelist (dispatcher t) = cqi_freelist (dispatcher s) \<and> cq_mallocs (dispatcher t) = cq_mallocs (dispatcher s)
     \<and> last_thread (dispatcher t) = last_thread (dispatcher s) \<and> item_lock_count t = item_lock_count s"

lemma setup_threads_ok:
  "\<forall>w\<in>set ws. calls_ok w \<Longrightarrow> \<exists>ls t. setup_threads h ws ks s = Inr (ks @ ls, t) \<and> length ls = length ws
    \<and> workers (dispatcher t) = workers (dispatcher s) @ replicate (length ws) new_worker
    \<and> reserved_fds (stats t) = reserved_fds (stats s) + 5 * of_nat (length ws) \<and> same_world s t
    \<and> init_count (dispatcher t) = init_count (dispatcher s) \<and> length (threads t) = length (threads s) + length ws"
proof (induction ws arbitrary: ks s)
  case Nil
  then show ?case by (simp add: same_world_def)
next
  case (Cons w ws)
  then obtain k where k: "setup_thread h w = Inr k" "wk_pipe w" using setup_thread_ok [of w h] by (auto simp: calls_ok_def)
  obtain ls t where t: "setup_threads h ws (ks @ [k]) (add_worker s) = Inr ((ks @ [k]) @ ls, t)" "length ls = length ws"
    "workers (dispatcher t) = workers (dispatcher (add_worker s)) @ replicate (length ws) new_worker"
    "reserved_fds (stats t) = reserved_fds (stats (add_worker s)) + 5 * of_nat (length ws)" "same_world (add_worker s) t"
    "init_count (dispatcher t) = init_count (dispatcher (add_worker s))"
    "length (threads t) = length (threads (add_worker s)) + length ws"
    using Cons.IH [of "ks @ [k]" "add_worker s"] Cons.prems by auto
  have "same_world s t" using t(5) by (simp add: same_world_def add_worker_def upd_stats_def)
  with t(1-4,6,7) k show ?case
    by (intro exI [of _ "k # ls"] exI [of _ t]) (simp add: add_worker_def upd_stats_def algebra_simps)
qed

lemma create_workers_ok:
  "\<forall>c\<in>set cs. wk_create c \<Longrightarrow> workers (dispatcher s) = replicate n new_worker \<Longrightarrow> w + length cs \<le> n \<Longrightarrow>
    \<exists>t. create_workers w cs s = Inr t \<and> workers (dispatcher t) = replicate n new_worker
      \<and> init_count (dispatcher t) = init_count (dispatcher s) + length cs
      \<and> same_world s t \<and> stats t = stats s \<and> threads t = threads s"
proof (induction cs arbitrary: w s)
  case Nil
  then show ?case by (simp add: same_world_def)
next
  case (Cons c cs)
  let ?u = "worker_libevent w s"
  have "workers (dispatcher ?u) = replicate n new_worker" "init_count (dispatcher ?u) = init_count (dispatcher s) + 1"
    "same_world s ?u" "stats ?u = stats s" "threads ?u = threads s"
    using Cons.prems(2,3) by (auto simp: worker_libevent_def worker_started_def register_thread_initialized_def upd_worker_def
      same_world_def new_worker_def list_update_same_conv)
  with Cons.IH [of ?u "w + 1"] Cons.prems show ?case by (auto simp: same_world_def)
qed

text \<open>Worker \<open>v\<close> gets every \<open>n\<close>-th request.\<close>

lemma share_nths: "share l n v rs = nths rs {i. (l + 1 + int i) mod int n = int v}"
proof (induction rs arbitrary: l)
  case (Cons r rs)
  have "((l + 1) mod int n + 1 + int i) mod int n = (l + 1 + int (Suc i)) mod int n" for i
  proof -
    have "((l + 1) mod int n + (1 + int i)) mod int n = (l + 1 + (1 + int i)) mod int n" by (rule mod_add_left_eq)
    then show ?thesis by (simp add: algebra_simps)
  qed
  then show ?case using Cons.IH [of "(l + 1) mod int n"] by (simp add: nths_Cons)
qed simp


definition thread_calls_ok :: thread_calls where
  "thread_calls_ok = \<lparr>wk_pipe = True, wk_base = True, wk_event = True, wk_queue = True, wk_mutex = True,
     wk_mallocs = [96, 128, 256], wk_create = True\<rparr>"


end
