(* ===== verification/Startup.thy ===== *)
theory Startup
  imports Options Sockets Workers Replication
begin

text \<open>
  Starting the server: \<open>main\<close> of \<open>memcached.c\<close> from the check of libevent to the event loop, with
  \<open>daemonize\<close> of \<open>daemon.c\<close>, \<open>stats_init\<close>, the clock and the pid file. The answers of the system are a
  record; a result \<open>Inl\<close> is the exit status of the process.
\<close>

section \<open>The environment\<close>

text \<open>\<open>strncmp(ever, "1.", 2) == 0\<close> and a minor version of one digit, 1 or 2.\<close>

definition sanitycheck :: "string option \<Rightarrow> bool" where
  "sanitycheck ever = (case ever of None \<Rightarrow> True
     | Some v \<Rightarrow> \<not> (take 2 v = ''1.'' \<and> drop 2 v \<noteq> [] \<and> (v ! 2 = CHR ''1'' \<or> v ! 2 = CHR ''2'')
         \<and> (length v = 3 \<or> \<not> isdigit (v ! 3))))"

text \<open>
  \<open>fork\<close> returns -1, or 0 in the child; the parent exits. \<open>dn_null\<close> is the descriptor of \<open>/dev/null\<close>,
  \<open>dn_dups\<close> says which of the three \<open>dup2\<close> succeed.
\<close>

record daemon_calls =
  dn_fork :: int
  dn_setsid :: bool
  dn_chdir :: bool
  dn_null :: "int option"
  dn_dups :: "bool list"
  dn_close :: bool

definition daemonize :: "bool \<Rightarrow> bool \<Rightarrow> daemon_calls \<Rightarrow> int + int" where
  "daemonize nochdir noclose d = (if dn_fork d = -1 then Inr (-1) else if dn_fork d \<noteq> 0 then Inl 0
     else if \<not> dn_setsid d then Inr (-1)
     else if \<not> nochdir \<and> \<not> dn_chdir d then Inr (-1)
     else if noclose then Inr 0
     else case dn_null d of None \<Rightarrow> Inr 0
       | Some fd \<Rightarrow> if False \<in> set (take 3 (dn_dups d)) then Inr (-1)
           else if 2 < fd \<and> \<not> dn_close d then Inr (-1) else Inr 0)"

record main_calls =
  mn_version :: "string option"
  mn_core :: bool
  mn_nofile :: bool
  mn_root :: bool
  mn_user :: bool
  mn_ids :: bool
  mn_daemon :: daemon_calls
  mn_now :: int
  mn_monotonic :: "int option"
  mn_initial_malloc :: "nat option"
  mn_config :: "string list"
  mn_dns :: "string \<Rightarrow> u32 option"
  mn_sigpipe :: bool
  mn_heap :: bheap
  mn_threads :: "nat \<Rightarrow> thread_calls"
  mn_locks :: bool
  mn_descr :: bool
  mn_assoc_env :: "int option"
  mn_assoc_thread :: bool
  mn_slab_env :: "int option"
  mn_slab_thread :: bool
  mn_unix :: addrinfo
  mn_leftover :: bool
  mn_port_file :: bool
  mn_resolve :: "network_transport \<Rightarrow> string option \<Rightarrow> int \<Rightarrow> addrinfo list option"
  mn_strdup :: bool

text \<open>
  The limits, the privileges and the daemon, in this order. \<open>mn_core\<close> says that core files will be
  written, \<open>mn_nofile\<close> that the limit of descriptors could be set; a user is needed by root only.
\<close>

definition check_environment :: "main_calls \<Rightarrow> options \<Rightarrow> int option" where
  "check_environment m opts = (
     if maxcore opts \<and> \<not> mn_core m then Some EX_OSERR
     else if \<not> mn_nofile m then Some EX_OSERR
     else if mn_root m \<and> (username opts = None \<or> username opts = Some []) then Some EX_USAGE
     else if mn_root m \<and> \<not> mn_user m then Some EX_NOUSER
     else if mn_root m \<and> \<not> mn_ids m then Some EX_OSERR
     else if do_daemonize opts then
       (case daemonize (maxcore opts) (verbose (o_settings opts) \<noteq> 0) (mn_daemon m) of
          Inl e \<Rightarrow> Some e | Inr r \<Rightarrow> if r = -1 then Some 1 else None)
     else None)"

section \<open>The subsystems\<close>

definition server_stats_init :: "int \<Rightarrow> 'a server_scheme \<Rightarrow> 'a server_scheme" where
  "server_stats_init now s = s\<lparr>stats := stats_init, process_started := now - 2, prefixes := stats_prefix_init (server.prefixes s)\<rparr>"

text \<open>
  The first call of \<open>clock_handler\<close>, with the seconds of the monotonic clock, if there is one, at its
  two readings: the time since the start, which is taken to be two seconds ago.
\<close>

definition clock_handler :: "(int \<times> int) option \<Rightarrow> int \<Rightarrow> 'a mc_scheme \<Rightarrow> 'a mc_scheme" where
  "clock_handler monotonic now s = s\<lparr>current_time := (case monotonic of
     Some (start, t) \<Rightarrow> word_of_int (t - (start - 2)) | None \<Rightarrow> word_of_int (now - process_started s))\<rparr>"

text \<open>From \<open>stats_init\<close> to \<open>clock_handler\<close>.\<close>

definition init_memory :: "main_calls \<Rightarrow> options \<Rightarrow> 'a cluster_scheme \<Rightarrow> (int + 'a cluster_scheme) option" where
  "init_memory m opts s = (let
     s = server_stats_init (mn_now m) (s\<lparr>settings := o_settings opts, ramcube_config_file := config_file opts\<rparr>) in
     case assoc_init (hashpower_init (settings s)) s of
       None \<Rightarrow> Some (Inl 1)
     | Some s \<Rightarrow> do {
         let s = conn_init s;
         s \<leftarrow> slabs_init (maxbytes (settings s)) (factor (settings s)) (preallocate opts) (mn_initial_malloc m) s;
         s \<leftarrow> (if ramcube_config_file s \<noteq> None then ramcube_adjust_memcached_settings (mn_config m) s else Some s);
         Some (Inr s) })"

definition init_threads :: "main_calls \<Rightarrow> 'a cluster_scheme \<Rightarrow> int + 'a cluster_scheme" where
  "init_threads m s = (if \<not> mn_sigpipe m then Inl EX_OSERR
     else case thread_init (mn_heap m) (map (mn_threads m) [0..<num_threads (settings s)]) (mn_locks m) (mn_descr m) s of
       Inl e \<Rightarrow> Inl e
     | Inr (ks, s) \<Rightarrow> let s = start_assoc_maintenance (mn_assoc_env m) s in
         if \<not> mn_assoc_thread m then Inl 1
         else if slab_reassign (settings s) \<and> \<not> mn_slab_thread m then Inl 1
         else let s = (if slab_reassign (settings s) then start_slab_maintenance_thread (mn_slab_env m) s else s) in
           Inr (clock_handler (map_option (\<lambda>t. (t, t)) (mn_monotonic m)) (mn_now m) s))"

section \<open>The sockets\<close>

text \<open>
  A call of \<open>server_sockets\<close> that is skipped for port 0; any failure ends the process. \<open>f\<close> is the
  file of port numbers. The proxies that a RAMCube node makes for its listening connections are never
  used and are left out.
\<close>

definition open_port :: "main_calls \<Rightarrow> int \<Rightarrow> network_transport \<Rightarrow> string option \<Rightarrow> 'a cluster_scheme
    \<Rightarrow> (int + string option \<times> 'a cluster_scheme) option" where
  "open_port m prt transport f s = (if prt = 0 then Some (Inr (f, s))
     else map_option (\<lambda>r. case r of Inl e \<Rightarrow> Inl e | Inr (n, f, s) \<Rightarrow> if n \<noteq> 0 then Inl EX_OSERR else Inr (f, s))
       (server_sockets (mn_resolve m transport) (\<lambda>c. c) (mn_strdup m) prt transport f s))"

definition open_sockets :: "main_calls \<Rightarrow> 'a cluster_scheme \<Rightarrow> (int + string option \<times> 'a cluster_scheme) option" where
  "open_sockets m s = (case socketpath (settings s) of
     Some path \<Rightarrow> map_option (\<lambda>r. case r of Inl e \<Rightarrow> Inl e
         | Inr (n, leftover, s) \<Rightarrow> if n \<noteq> 0 then Inl EX_OSERR else Inr (None, s))
       (server_socket_unix (\<lambda>c. c) (mn_unix m) (mn_leftover m) path s)
   | None \<Rightarrow> (case open_port m (port (settings s)) tcp_transport (if mn_port_file m then Some [] else None) s of
       None \<Rightarrow> None | Some (Inl e) \<Rightarrow> Some (Inl e)
     | Some (Inr (f, s)) \<Rightarrow> open_port m (udpport (settings s)) udp_transport f s))"

text \<open>The comparison is made in unsigned arithmetic.\<close>

definition too_few_conns :: "'a mc_scheme \<Rightarrow> bool" where
  "too_few_conns s \<longleftrightarrow> word_of_int (maxconns (settings s) - 1) \<le> curr_conns (stats s) + reserved_fds (stats s)"

section \<open>The pid file\<close>

text \<open>
  The first line of an existing file, at most 1023 characters; when it names a process that runs, there
  is a warning, which is the result here. The file is written anew in any case.
\<close>

definition first_line :: "string \<Rightarrow> string" where
  "first_line f = take 1023 (takeWhile (\<lambda>c. c \<noteq> CHR 0x0A) f @ take 1 (dropWhile (\<lambda>c. c \<noteq> CHR 0x0A) f))"

definition pid_warning :: "string option \<Rightarrow> (nat \<Rightarrow> bool) \<Rightarrow> nat option" where
  "pid_warning f running = (case f of None \<Rightarrow> None
     | Some f \<Rightarrow> if f = [] then None else case safe_strtoul (first_line f) of (ok, pid) \<Rightarrow>
         if ok \<and> running (unat pid) then Some (unat pid) else None)"

definition save_pid :: "nat \<Rightarrow> bool \<Rightarrow> string option \<Rightarrow> string option" where
  "save_pid pid writable f = (if writable then Some (dec pid @ [CHR 0x0A]) else f)"

definition remove_pidfile :: "bool \<Rightarrow> string option \<Rightarrow> string option" where
  "remove_pidfile unlinked f = (if unlinked then None else f)"

section \<open>All of it\<close>

text \<open>The state in which \<open>main\<close> enters the event loop, and the contents of the file of port numbers.\<close>

definition start_server :: "main_calls \<Rightarrow> options \<Rightarrow> 'a cluster_scheme \<Rightarrow> (int + string option \<times> 'a cluster_scheme) option" where
  "start_server m opts s = (case check_environment m opts of
     Some e \<Rightarrow> Some (Inl e)
   | None \<Rightarrow> (case init_memory m opts s of
       None \<Rightarrow> None | Some (Inl e) \<Rightarrow> Some (Inl e)
     | Some (Inr s) \<Rightarrow> (case init_threads m s of
         Inl e \<Rightarrow> Some (Inl e)
       | Inr s \<Rightarrow> (case open_sockets m s of
           None \<Rightarrow> None | Some (Inl e) \<Rightarrow> Some (Inl e)
         | Some (Inr (f, s)) \<Rightarrow>
             if too_few_conns s then Some (Inl 1)
             else if ramcube_config_file s \<noteq> None
               then map_option (\<lambda>s. Inr (f, s)) (ramcube_init (mn_dns m) (mn_config m) s)
             else Some (Inr (f, s))))))"

definition main :: "main_calls \<Rightarrow> string list \<Rightarrow> bool list \<Rightarrow> 'a cluster_scheme
    \<Rightarrow> (int + string option \<times> 'a cluster_scheme) option" where
  "main m args gs s = (if \<not> sanitycheck (mn_version m) then Some (Inl EX_OSERR)
     else case process_arguments args gs of
       None \<Rightarrow> None | Some (Inl e) \<Rightarrow> Some (Inl e) | Some (Inr opts) \<Rightarrow> start_server m opts s)"

section \<open>An empty cache, and what leaves it alone\<close>

definition empty_cache :: "'a items_scheme \<Rightarrow> bool" where
  "empty_cache s \<longleftrightarrow> cache_rel s Map.empty (\<lambda>_. []) (\<lambda>_. []) (\<lambda>_. 0) \<and> classes_ok s"

definition same_store :: "'a items_scheme \<Rightarrow> 'a items_scheme \<Rightarrow> bool" where
  "same_store s t \<longleftrightarrow> same_tables s t \<and> mem t = mem s \<and> slabclass t = slabclass s \<and> power_largest t = power_largest s
     \<and> item_size_max (settings t) = item_size_max (settings s)"

lemmas same_store_defs = same_store_def same_tables_def

lemma same_store_refl [simp]: "same_store s s"
  by (simp add: same_store_defs)

lemma same_store_trans: "same_store s t \<Longrightarrow> same_store t u \<Longrightarrow> same_store s u"
  by (simp add: same_store_defs)

lemma empty_cache_same:
  assumes "empty_cache s" and S: "same_store s t"
  shows "empty_cache t"
proof -
  have R: "cache_rel s Map.empty (\<lambda>_. []) (\<lambda>_. []) (\<lambda>_. 0)" and C: "classes_ok s" using assms(1) by (simp_all add: empty_cache_def)
  have "slabs_rel t (\<lambda>_. [])" using cache_relD(2) [OF R] S
    by (simp add: slabs_rel_def freelist_def same_store_def)
  with S have "cache_rel t Map.empty (\<lambda>_. []) (\<lambda>_. []) (\<lambda>_. 0)"
    by (intro cache_rel_cong [OF R]) (simp_all add: same_store_def)
  moreover have "classes_ok t" using C S by (simp add: classes_ok_def same_store_def valid_class_def)
  ultimately show ?thesis by (simp add: empty_cache_def)
qed

subsection \<open>Memory\<close>

text \<open>What the C compiler leaves in the static variables.\<close>

definition static_zero :: "'a cluster_scheme \<Rightarrow> bool" where
  "static_zero s \<longleftrightarrow> hash_items s = 0 \<and> \<not> expanding s \<and> hashpower s = 16 \<and> (\<forall>c. heads s c = NULL \<and> tails s c = NULL \<and> sizes s c = 0)
     \<and> listeners s = []"

lemma init_classes_unused:
  "init_classes i sz f s = (j, t) \<Longrightarrow> \<forall>c. cls_slots (slabclass s c) = NULL \<and> cls_sl_curr (slabclass s c) = 0 \<Longrightarrow>
    t = s\<lparr>slabclass := slabclass t\<rparr> \<and> (\<forall>c. cls_slots (slabclass t c) = NULL \<and> cls_sl_curr (slabclass t c) = 0)"
proof (induction i sz f s rule: init_classes.induct)
  case (1 i sz f s)
  show ?case
  proof (cases "i < POWER_LARGEST \<and> fits_quotient sz (item_size_max (settings s)) f")
    case True
    define u where "u = upd_class i (\<lambda>p. p\<lparr>cls_size := chunk_align sz,
      cls_perslab := item_size_max (settings s) div chunk_align sz\<rparr>) s"
    have u: "init_classes (i + 1) (scale_size (chunk_align sz) f) f u = (j, t)"
      using 1(2) True by (simp add: init_classes.simps [of i] u_def Let_def)
    have "t = u\<lparr>slabclass := slabclass t\<rparr> \<and> (\<forall>c. cls_slots (slabclass t c) = NULL \<and> cls_sl_curr (slabclass t c) = 0)"
      using 1(1) [OF True refl refl refl u [unfolded u_def]] 1(3) by (simp add: u_def)
    moreover have "u\<lparr>slabclass := slabclass t\<rparr> = s\<lparr>slabclass := slabclass t\<rparr>" by (simp add: u_def upd_class_def)
    ultimately show ?thesis by simp
  next
    case False
    with 1(2,3) show ?thesis by (simp add: init_classes.simps [of i])
  qed
qed

lemma slabs_init_unused:
  assumes "slabs_init limit fac False initial s = Some t"
  shows "\<exists>cl lim n big. t = s\<lparr>mem_limit := lim, slabclass := cl, mem_malloced := n, power_largest := big\<rparr>
    \<and> (\<forall>c. cls_slots (cl c) = NULL \<and> cls_sl_curr (cl c) = 0)"
proof -
  obtain i v where v: "init_classes POWER_SMALLEST (first_size (settings s)) fac (s\<lparr>mem_limit := limit, slabclass := (\<lambda>_. empty_class)\<rparr>) = (i, v)"
    by fastforce
  have "v = s\<lparr>mem_limit := limit, slabclass := slabclass v\<rparr> \<and> (\<forall>c. cls_slots (slabclass v c) = NULL \<and> cls_sl_curr (slabclass v c) = 0)"
    using init_classes_unused [OF v] by (simp add: empty_class_def)
  moreover have "t = (case initial of None \<Rightarrow> v | Some m \<Rightarrow> v\<lparr>mem_malloced := m\<rparr>)\<lparr>power_largest := i,
      slabclass := (slabclass v)(i := (slabclass v i)\<lparr>cls_size := item_size_max (settings v), cls_perslab := 1\<rparr>)\<rparr>"
    using assms v by (auto simp: slabs_init_def Let_def upd_class_def split: if_splits option.splits)
  ultimately show ?thesis
    by (intro exI [of _ "slabclass t"] exI [of _ limit] exI [of _ "mem_malloced t"] exI [of _ i])
      (cases initial; cases s; cases v; auto)
qed

lemma adjust_loop_frame:
  "adjust_loop ws s = Some t \<Longrightarrow> same_store s t \<and> num_threads (settings t) = num_threads (settings s)
     \<and> dispatcher t = dispatcher s \<and> ramcube_config_file t = ramcube_config_file s"
  by (induction ws s rule: adjust_loop.induct) (auto simp: same_store_defs split: if_splits list.splits)

lemma ramcube_adjust_frame:
  "ramcube_adjust_memcached_settings ws s = Some t \<Longrightarrow> same_store s t \<and> num_threads (settings t) = 1
     \<and> dispatcher t = dispatcher s"
  by (auto simp: ramcube_adjust_memcached_settings_def same_store_defs Let_def dest!: adjust_loop_frame split: option.splits if_splits)

lemma init_memory_empty:
  assumes "init_memory m opts s = Some (Inr t)" and Z: "static_zero s" and ok: "settings_ok (o_settings opts)"
    and "\<not> preallocate opts" and al: "8 dvd item_size_max (o_settings opts)" and hp: "hashpower_init (o_settings opts) \<le> 32"
  shows "empty_cache t \<and> num_threads (settings t) = (if config_file opts = None then num_threads (o_settings opts) else 1)
    \<and> dispatcher t = dispatcher s"
proof -
  define s0 where "s0 = server_stats_init (mn_now m) (s\<lparr>settings := o_settings opts, ramcube_config_file := config_file opts\<rparr>)"
  obtain a where a: "assoc_init (hashpower_init (settings s0)) s0 = Some a"
    using assms(1) by (auto simp: init_memory_def Let_def simp flip: s0_def split: option.splits)
  obtain b where b: "slabs_init (maxbytes (settings a)) (factor (settings a)) False (mn_initial_malloc m) (conn_init a) = Some b"
    and t: "(if ramcube_config_file b \<noteq> None then ramcube_adjust_memcached_settings (mn_config m) b else Some b) = Some t"
    using assms(1,4) a by (auto simp: init_memory_def Let_def conn_init_def bind_eq_Some_conv simp flip: s0_def split: option.splits)
  have a2: "hashpower a = (if hashpower_init (o_settings opts) = 0 then 16 else hashpower_init (o_settings opts))"
    "settings a = o_settings opts" "heads a = heads s" "tails a = tails s" "sizes a = sizes s"
    "curr_items (stats a) = 0" "curr_bytes (stats a) = 0" "ramcube_config_file a = config_file opts" "dispatcher a = dispatcher s" "\<not> expanding a"
    using a Z by (auto simp: assoc_init_def s0_def server_stats_init_def static_zero_def malloc_def upd_stats_def stats_init_def Let_def
        split: list.splits if_splits)
  have A: "assoc_rel a Map.empty"
    by (rule assoc_init_rel [OF a]) (use Z a2(1) ok hp in \<open>auto simp: s0_def server_stats_init_def static_zero_def settings_ok_def\<close>)
  obtain cl lim n big where e: "b = (conn_init a)\<lparr>mem_limit := lim, slabclass := cl, mem_malloced := n, power_largest := big\<rparr>"
    "\<forall>c. cls_slots (cl c) = NULL \<and> cls_sl_curr (cl c) = 0"
    using slabs_init_unused [OF b] by blast
  have "assoc_rel b Map.empty" using A a2(10) unfolding assoc_rel_def e(1)
    by (simp add: conn_init_def assoc_shape_def members_def bucket_slot_def in_old_def)
  moreover have "slabs_rel b (\<lambda>_. [])" using e(2) by (simp add: slabs_rel_def freelist_def e(1))
  moreover have "lru_ok b c []" for c
    using Z a2 by (simp add: lru_ok_def lru_shape_def e(1) conn_init_def static_zero_def)
  ultimately have "cache_rel b Map.empty (\<lambda>_. []) (\<lambda>_. []) (\<lambda>_. 0)"
    using a2(6,7) by (simp add: cache_rel_def e(1) conn_init_def)
  moreover have "at_least_one (factor (settings a))" "0 < item_size_max (settings a)" using ok a2(2)
    by (auto simp: settings_ok_def at_least_one_def at_most_one_def split: c_double.splits)
  then have "classes_ok b" using slabs_init_ok [OF _ _ _ b] al a2(2) by (simp add: conn_init_def)
  ultimately have B: "empty_cache b" by (simp add: empty_cache_def)
  have b2: "settings b = o_settings opts" "ramcube_config_file b = config_file opts" "dispatcher b = dispatcher s"
    using a2 by (simp_all add: e(1) conn_init_def)
  show ?thesis
  proof (cases "config_file opts")
    case None
    with t b2 B show ?thesis by simp
  next
    case (Some f)
    with t b2 have "ramcube_adjust_memcached_settings (mn_config m) b = Some t" by simp
    from ramcube_adjust_frame [OF this] empty_cache_same [OF B] Some b2 show ?thesis by simp
  qed
qed

subsection \<open>Threads and sockets\<close>

text \<open>The workers and the sockets leave the cache and the settings alone.\<close>

definition same_cache :: "'a machine_scheme \<Rightarrow> 'a machine_scheme \<Rightarrow> bool" where
  "same_cache s t \<longleftrightarrow> same_store s t \<and> settings t = settings s \<and> ramcube_config_file t = ramcube_config_file s"

lemmas same_cache_defs = same_cache_def same_store_defs

lemma same_cache_refl [simp]: "same_cache s s"
  by (simp add: same_cache_def)

lemma same_cache_trans: "same_cache s t \<Longrightarrow> same_cache t u \<Longrightarrow> same_cache s u"
  by (auto simp: same_cache_def intro: same_store_trans)

lemma setup_threads_frame:
  "setup_threads h ws ks s = Inr (ls, t) \<Longrightarrow> same_cache s t \<and> length (workers (dispatcher t)) = length (workers (dispatcher s)) + length ws"
proof (induction ws arbitrary: ks s)
  case (Cons w ws)
  then obtain k where "setup_threads h ws (ks @ [k]) (add_worker s) = Inr (ls, t)" by (auto split: if_splits sum.splits)
  from Cons.IH [OF this] show ?case by (auto simp: add_worker_def upd_stats_def same_cache_defs)
qed simp

lemma create_workers_frame:
  "create_workers w cs s = Inr t \<Longrightarrow> same_cache s t \<and> length (workers (dispatcher t)) = length (workers (dispatcher s))"
proof (induction cs arbitrary: w s)
  case (Cons c cs)
  then have "create_workers (w + 1) cs (worker_libevent w s) = Inr t" by (auto split: if_splits)
  from Cons.IH [OF this] show ?case
    by (auto simp: worker_libevent_def worker_started_def register_thread_initialized_def upd_worker_def same_cache_defs)
qed simp

lemma thread_init_frame:
  assumes "thread_init h calls locks descr s = Inr (ks, t)"
  shows "same_cache s t \<and> length (workers (dispatcher t)) = length calls"
proof -
  define s1 where "s1 = (init_item_locks (length calls) (s\<lparr>dispatcher := (dispatcher s)\<lparr>cqi_freelist := NULL\<rparr>\<rparr>))"
  define s2 where "s2 = s1\<lparr>dispatcher := (dispatcher s1)\<lparr>workers := []\<rparr>, threads := []\<rparr>"
  obtain u where u: "setup_threads h calls [] s2 = Inr (ks, u)" "create_workers 0 calls u = Inr t"
    using assms by (auto simp: thread_init_def Let_def s2_def s1_def split: if_splits sum.splits)
  have "same_cache s s2" "workers (dispatcher s2) = []" by (simp_all add: s2_def s1_def init_item_locks_def same_cache_defs)
  with setup_threads_frame [OF u(1)] create_workers_frame [OF u(2)]
  show ?thesis using same_cache_trans [OF same_cache_trans, of s s2 u t] by simp
qed

lemma init_threads_frame:
  assumes "init_threads m s = Inr t"
  shows "same_cache s t \<and> length (workers (dispatcher t)) = num_threads (settings s)"
proof -
  obtain ks u where u: "thread_init (mn_heap m) (map (mn_threads m) [0..<num_threads (settings s)]) (mn_locks m) (mn_descr m) s = Inr (ks, u)"
    using assms by (auto simp: init_threads_def split: if_splits sum.splits)
  then have "same_cache u t \<and> dispatcher t = dispatcher u" using assms
    by (auto simp: init_threads_def Let_def clock_handler_def start_assoc_maintenance_def start_slab_maintenance_thread_def
        upd_rebal_def same_cache_defs split: if_splits option.splits)
  with thread_init_frame [OF u] same_cache_trans [of s u t] show ?thesis by simp
qed

lemma conn_new_frame:
  assumes "conn_new proxy_new gs sfd st fl n tr s = (c, t)"
  shows "same_cache s t \<and> dispatcher t = dispatcher s"
proof -
  define r where "r = (case conn_from_freelist s of (Some c, s) \<Rightarrow> (Some c, s)
       | (None, s) \<Rightarrow> (case (if gs \<noteq> [] \<and> hd gs then alloc_conn n (tl gs) else None) of
              None \<Rightarrow> (None, s) | Some c \<Rightarrow> (Some c, upd_stats (\<lambda>t. t\<lparr>conn_structs := conn_structs t + 1\<rparr>) s)))"
  obtain d u where u: "r = (d, u)" by fastforce
  have 1: "same_cache s u \<and> dispatcher u = dispatcher s" using u unfolding r_def conn_from_freelist_def
    by (cases "alloc_conn n (tl gs)") (auto simp: upd_stats_def same_cache_defs split: if_splits)
  obtain ok v where v: "event_add u = (ok, v)" by fastforce
  then have 2: "same_cache u v \<and> dispatcher v = dispatcher u"
    by (cases "event_adds u") (auto simp: event_add_def same_cache_defs)
  have 3: "same_cache v (snd (conn_add_to_freelist k v)) \<and> dispatcher (snd (conn_add_to_freelist k v)) = dispatcher v" for k
    by (cases "mallocs v") (auto simp: conn_add_to_freelist_def malloc_def same_cache_defs)
  have "same_cache v t \<and> dispatcher t = dispatcher v \<or> t = u"
    using assms u v 3 unfolding conn_new_def r_def [symmetric]
    by (cases d) (auto simp: Let_def upd_stats_def same_cache_defs split: if_splits)
  then show ?thesis using 1 2 same_cache_trans [OF same_cache_trans, of s u v t] by auto
qed

lemma listen_on_frame: "listen_on proxy_new gs sfd tr s = Inr t \<Longrightarrow> same_cache s t \<and> dispatcher t = dispatcher s"
  by (auto simp: listen_on_def same_cache_defs dest!: conn_new_frame split: prod.splits option.splits)

lemma link_block_workers: "workers (link_block p d) = workers d"
proof -
  have "workers (foldl (\<lambda>s i. upd_cq (cqi_elem p (i - 1)) (\<lambda>c. c\<lparr>cq_next := cqi_elem p i\<rparr>) s) e is) = workers e" for e "is"
    by (induction "is" arbitrary: e) simp_all
  then show ?thesis unfolding link_block_def .
qed

lemma cqi_new_workers: "workers (snd (cqi_new d)) = workers d"
  by (cases "cq_mallocs d") (simp_all add: cqi_new_def link_block_workers Let_def)

lemma dispatch_conn_new_workers:
  assumes "dispatch_conn_new sfd st fl n tr d = Some e"
  shows "length (workers e) = length (workers d)"
proof -
  obtain it u where u: "cqi_new d = (it, u)" by fastforce
  have "length (workers e) = length (workers u)" using assms
    by (auto simp: dispatch_conn_new_def u cq_push_def notify_worker_def Let_def split: if_splits)
  with cqi_new_workers [of d] u show ?thesis by simp
qed

lemma dispatch_udp_frame: "dispatch_udp n sfd d = Some e \<Longrightarrow> length (workers e) = length (workers d)"
  by (induction n arbitrary: d) (auto simp: bind_eq_Some_conv dest: dispatch_conn_new_workers)

lemma case_sum_Inr:
  "(case y of Inl e \<Rightarrow> Some (Inl e) | Inr s \<Rightarrow> f s) = Some (Inr z) \<longleftrightarrow> (\<exists>s. y = Inr s \<and> f s = Some (Inr z))"
  by (cases y) simp_all

lemma bind_loop_frame:
  "bind_loop proxy_new tr ais k f s = Some (Inr (r, g, t)) \<Longrightarrow>
    same_cache s t \<and> length (workers (dispatcher t)) = length (workers (dispatcher s))"
proof (induction ais arbitrary: k f s)
  case (Cons ai ais)
  have c: "same_cache s (close_fd fd s) \<and> dispatcher (close_fd fd s) = dispatcher s" for fd
    by (simp add: close_fd_def same_cache_defs)
  obtain sfd u where u: "new_socket (ai_socket ai) s = (sfd, u)" by fastforce
  then have su: "same_cache s u \<and> dispatcher u = dispatcher s"
    using c by (auto simp: new_socket_def split: sock_result.splits if_splits)
  have cu: "same_cache u (close_fd fd u) \<and> dispatcher (close_fd fd u) = dispatcher u" for fd
    by (simp add: close_fd_def same_cache_defs)
  have srv: "same_cache u v \<and> length (workers (dispatcher v)) = length (workers (dispatcher u))"
    if "serve_socket proxy_new tr ai fd u = Some (Inr v)" for v fd
    using that by (auto simp: serve_socket_def same_cache_defs dest: dispatch_udp_frame listen_on_frame split: if_splits)
  consider (stop) "t = u" | (closed) fd where "t = close_fd fd u" | (again) k' f' where "bind_loop proxy_new tr ais k' f' u = Some (Inr (r, g, t))"
    | (again_closed) k' f' fd where "bind_loop proxy_new tr ais k' f' (close_fd fd u) = Some (Inr (r, g, t))"
    | (served) k' f' fd v where "serve_socket proxy_new tr ai fd u = Some (Inr v)" "bind_loop proxy_new tr ais k' f' v = Some (Inr (r, g, t))"
    using Cons.prems unfolding bind_loop.simps u
    by (cases sfd) (auto simp: bind_eq_Some_conv case_sum_Inr Let_def split: if_splits)
  then show ?case
  proof cases
    case stop with su show ?thesis by simp
  next
    case closed with su cu same_cache_trans [of s u t] show ?thesis by simp
  next
    case again with su Cons.IH [OF again] same_cache_trans [of s u t] show ?thesis by simp
  next
    case (again_closed k' f' fd)
    with su cu [of fd] Cons.IH [OF again_closed] same_cache_trans [OF same_cache_trans, of s u "close_fd fd u" t] show ?thesis by simp
  next
    case (served k' f' fd v)
    with su srv [OF served(1)] Cons.IH [OF served(2)] same_cache_trans [OF same_cache_trans, of s u v t] show ?thesis by simp
  qed
qed simp

lemma server_socket_frame:
  "server_socket resolve proxy_new host n tr f s = Some (Inr (r, g, t)) \<Longrightarrow>
    same_cache s t \<and> length (workers (dispatcher t)) = length (workers (dispatcher s))"
  by (auto simp: server_socket_def dest: bind_loop_frame split: option.splits)

lemma socket_loop_frame:
  "socket_loop resolve proxy_new n tr ws ret f s = Some (Inr (r, g, t)) \<Longrightarrow>
    same_cache s t \<and> length (workers (dispatcher t)) = length (workers (dispatcher s))"
proof (induction ws arbitrary: ret f s)
  case (Cons w ws)
  consider "t = s" | r' g' u where "\<exists>host k. server_socket resolve proxy_new host k tr f s = Some (Inr (r', g', u))"
      "\<exists>ret. socket_loop resolve proxy_new n tr ws ret g' u = Some (Inr (r, g, t))"
    using Cons.prems by (fastforce split: option.splits sum.splits prod.splits)
  then show ?case
  proof cases
    case 2
    with server_socket_frame Cons.IH have "same_cache s u \<and> length (workers (dispatcher u)) = length (workers (dispatcher s))"
      "same_cache u t \<and> length (workers (dispatcher t)) = length (workers (dispatcher u))" by blast+
    with same_cache_trans [of s u t] show ?thesis by simp
  qed simp
qed simp

lemma server_sockets_frame:
  "server_sockets resolve proxy_new dup n tr f s = Some (Inr (r, g, t)) \<Longrightarrow>
    same_cache s t \<and> length (workers (dispatcher t)) = length (workers (dispatcher s))"
  by (cases "inter (settings s)") (auto simp: server_sockets_def dest: server_socket_frame socket_loop_frame split: if_splits)

lemma open_port_frame:
  assumes "open_port m n tr f s = Some (Inr (g, t))"
  shows "same_cache s t \<and> length (workers (dispatcher t)) = length (workers (dispatcher s))"
proof (cases "n = 0")
  case False
  with assms obtain r where r: "server_sockets (mn_resolve m tr) (\<lambda>c. c) (mn_strdup m) n tr f s = Some r"
    "(case r of Inl e \<Rightarrow> Inl e | Inr (n, f, s) \<Rightarrow> if n \<noteq> 0 then Inl EX_OSERR else Inr (f, s)) = Inr (g, t)"
    by (auto simp: open_port_def)
  then obtain k where "r = Inr (k, g, t)" by (cases r) (auto split: if_splits)
  with r(1) server_sockets_frame show ?thesis by blast
qed (use assms in \<open>simp add: open_port_def\<close>)

lemma open_sockets_frame:
  assumes "open_sockets m s = Some (Inr (f, t))"
  shows "same_cache s t \<and> length (workers (dispatcher t)) = length (workers (dispatcher s))"
proof (cases "socketpath (settings s)")
  case None
  then obtain g u where u: "open_port m (port (settings s)) tcp_transport (if mn_port_file m then Some [] else None) s = Some (Inr (g, u))"
    "open_port m (udpport (settings u)) udp_transport g u = Some (Inr (f, t))"
    using assms by (auto simp: open_sockets_def split: option.split_asm sum.split_asm)
  with open_port_frame [OF u(1)] open_port_frame [OF u(2)] same_cache_trans [of s u t] show ?thesis by simp
next
  case (Some path)
  with assms obtain r where r: "server_socket_unix (\<lambda>c. c) (mn_unix m) (mn_leftover m) path s = Some r"
    "(case r of Inl e \<Rightarrow> Inl e | Inr (n, leftover, s) \<Rightarrow> if n \<noteq> 0 then Inl EX_OSERR else Inr (None, s)) = Inr (f, t)"
    by (auto simp: open_sockets_def)
  then obtain l where "server_socket_unix (\<lambda>c. c) (mn_unix m) (mn_leftover m) path s = Some (Inr (0, l, t))"
    by (cases r) (auto split: if_splits)
  then show ?thesis
    by (fastforce simp: server_socket_unix_def new_socket_def same_cache_defs dest!: listen_on_frame
        split: sock_result.splits if_splits sum.splits)
qed

section \<open>The server starts with an empty cache\<close>

text \<open>No option asks for preallocated slabs: \<open>-L\<close> ends the process.\<close>

lemma sub_options_keep: "sub_options str opts = Inr o2 \<Longrightarrow> preallocate o2 = preallocate opts"
proof (induction str opts rule: sub_options.induct)
  case (1 str opts)
  show ?case
  proof (cases "str = []")
    case True
    with 1 show ?thesis by (simp add: sub_options.simps [of "[]"])
  next
    case False
    obtain k v rest where g: "getsubopt str = (k, v, rest)" by (cases "getsubopt str")
    with 1(2) False obtain o1 where o1: "sub_option k v opts = Inr o1" "sub_options rest o1 = Inr o2"
      by (auto simp: sub_options.simps [of str] split: sum.splits)
    have "preallocate o1 = preallocate opts" using o1(1)
      by (auto simp: sub_option_def upd_set_def split: option.splits subopt.splits if_splits)
    with 1(1) [OF False g [symmetric] refl o1] show ?thesis by simp
  qed
qed

lemma set_option_keeps:
  assumes "set_option c str opts = Some (Inr o2)"
  shows "preallocate o2 = preallocate opts"
proof -
  have "preallocate o2 = preallocate opts" if "item_size_option str opts = Some (Inr o2)"
    using that by (auto simp: item_size_option_def upd_set_def Let_def split: if_splits)
  moreover have "preallocate o2 = preallocate opts" if "interface_option str opts = Inr o2"
    using that by (auto simp: interface_option_def o_malloc_def upd_set_def split: prod.splits option.splits list.splits if_splits)
  moreover have "preallocate o2 = preallocate opts" if "number_option c str opts = Inr o2"
    using that by (auto simp: number_option_def upd_set_def Let_def split: if_splits)
  moreover have "preallocate o2 = preallocate opts" if "protocol_option str opts = Inr o2"
    using that by (auto simp: protocol_option_def upd_set_def Let_def split: if_splits)
  moreover have "preallocate (snd (o_malloc opts)) = preallocate opts"
    by (simp add: o_malloc_def split: list.splits)
  ultimately show ?thesis using assms sub_options_keep [of str opts o2] unfolding set_option_def
    by (auto simp: upd_set_def split: if_splits prod.splits)
qed

lemma option_loop_keeps: "option_loop cs opts = Some (Inr o2) \<Longrightarrow> preallocate o2 = preallocate opts"
proof (induction cs arbitrary: opts)
  case (Cons x cs)
  obtain c str where "x = (c, str)" by (cases x)
  with Cons.prems obtain o1 where "set_option c str opts = Some (Inr o1)" "option_loop cs o1 = Some (Inr o2)"
    by (auto split: option.splits sum.splits)
  with set_option_keeps Cons.IH show ?case by fastforce
qed simp

lemma accepted_settings:
  assumes "process_arguments args gs = Some (Inr opts)"
  shows "settings_ok (o_settings opts) \<and> \<not> preallocate opts"
proof -
  obtain o1 where o1: "option_loop (getopt_all [] args) (zero_options gs) = Some (Inr o1)" and fin: "finish_options o1 = Inr opts"
    using assms by (auto simp: process_arguments_def split: option.splits sum.splits)
  have "settings_ok (o_settings o1)"
    using option_loop_ok [OF o1, of None 11211 None]
    by (simp add: zero_options_def settings_init_def settings_ok_def at_most_one_def given_def)
  moreover have "\<not> preallocate o1" using option_loop_keeps [OF o1] by (simp add: zero_options_def)
  ultimately show ?thesis using fin
    by (auto simp: finish_options_def upd_set_def settings_ok_def Let_def split: if_splits)
qed

text \<open>A RAMCube node then makes its connections.\<close>

definition same_node :: "'a cluster_scheme \<Rightarrow> 'a cluster_scheme \<Rightarrow> bool" where
  "same_node s t \<longleftrightarrow> same_cache s t \<and> dispatcher t = dispatcher s"

lemmas same_node_defs = same_node_def same_cache_defs

lemma same_node_refl [simp]: "same_node s s"
  by (simp add: same_node_def)

lemma same_node_trans: "same_node s t \<Longrightarrow> same_node t u \<Longrightarrow> same_node s u"
  by (auto simp: same_node_def intro: same_cache_trans)

lemma same_node_updates:
  "same_node s (s\<lparr>proxies := a\<rparr>)" "same_node s (s\<lparr>rc_config := b\<rparr>)" "same_node s (s\<lparr>neighbors := c\<rparr>)"
  "same_node s (s\<lparr>neighbors := c, vpBackupSins := d\<rparr>)" "same_node s (s\<lparr>neighbors := c, vpPingSins := d\<rparr>)"
  "same_node s (s\<lparr>neighbors := c, vpCoordinatorSins := d\<rparr>)" "same_node s (s\<lparr>connects := e\<rparr>)"
  "same_node s (s\<lparr>HeartBeat_initialized := g\<rparr>)" "same_node s (put_out_table k h s)"
  by (simp_all add: same_node_defs put_out_table_def)

lemma new_proxy_frame:
  assumes "new_proxy s = Some (p, t)"
  shows "same_node s t"
proof (cases "\<exists>gs. px_callocs s = True # gs")
  case True
  with assms show ?thesis by (auto simp: new_proxy_def same_node_defs)
next
  case False
  with assms show ?thesis by (cases "px_callocs s") (auto simp: new_proxy_def split: bool.split_asm)
qed

lemma upd_proxy_frame: "upd_proxy p f s = Some t \<Longrightarrow> same_node s t"
  by (auto simp: upd_proxy_def same_node_updates)

lemma evbuffer_add_frame: "evbuffer_add p str s = Some t \<Longrightarrow> same_node s t"
  by (auto simp: evbuffer_add_def bind_eq_Some_conv dest: upd_proxy_frame)

lemma HeartBeat_frame:
  assumes "HeartBeat p s = Some t"
  shows "same_node s t"
proof -
  obtain u where u: "(if HeartBeat_initialized s then evtimer_del p s else Some (s\<lparr>HeartBeat_initialized := True\<rparr>)) = Some u"
    "set_timer HB_cb_timer p u = Some t" using assms by (auto simp: HeartBeat_def bind_eq_Some_conv)
  have "same_node s u" using u(1) by (auto simp: evtimer_del_def same_node_updates split: if_splits dest: upd_proxy_frame)
  with upd_proxy_frame [of p] u(2) same_node_trans show ?thesis unfolding set_timer_def by blast
qed

lemma connect_and_return_frame:
  fixes s t :: "'a cluster_scheme"
  assumes "connect_and_return_ConnProxy a k s = Some (p, t)"
  shows "same_node s t"
proof (cases "out_table k :: ('a cluster_scheme \<Rightarrow> addr list) option")
  case None
  with assms show ?thesis by (simp add: connect_and_return_ConnProxy_def)
next
  case (Some table)
  with assms obtain cp u where u: "new_proxy s = Some (cp, u)"
    "(case connects u of True # bs \<Rightarrow> do {
           let s = u\<lparr>connects := bs\<rparr>;
           s \<leftarrow> upd_proxy cp (init_ConnProxy k (Some a)) s;
           let (rtn, ps) = push_back_proxy cp (table s);
           if rtn \<noteq> 0 then None
           else do {
             s \<leftarrow> evbuffer_add cp (take 99 (''TYPE '' @ type_text k @ '' '' @ cf_myAddr (rc_config s) @ ''#''
                   @ dec_int (cf_myPort (rc_config s)) @ crlf)) (put_out_table k ps s);
             s \<leftarrow> (if localname s = ''primary'' \<and> k = PROXY_TYPE_PING_CLIENT then HeartBeat cp s else Some s);
             Some (cp, s) } }
       | bs \<Rightarrow> Some (NULL, u\<lparr>connects := tl bs\<rparr>)) = Some (p, t)"
    by (auto simp: connect_and_return_ConnProxy_def bind_eq_Some_conv)
  note su = new_proxy_frame [OF u(1)]
  show ?thesis
  proof (cases "\<exists>bs. connects u = True # bs")
    case True
    then obtain bs where bs: "connects u = True # bs" by blast
    with u(2) obtain v ps w where v: "upd_proxy cp (init_ConnProxy k (Some a)) (u\<lparr>connects := bs\<rparr>) = Some v"
      "\<exists>str. evbuffer_add cp str (put_out_table k ps v) = Some w" "HeartBeat cp w = Some t \<or> t = w"
      by (simp only: list.case bool.case Let_def case_prod_beta bind_eq_Some_conv split: if_split_asm) blast+
    have "same_node u (u\<lparr>connects := bs\<rparr>)" "same_node v (put_out_table k ps v)" by (rule same_node_updates)+
    with su upd_proxy_frame [OF v(1)] v(2,3) evbuffer_add_frame HeartBeat_frame show ?thesis by (metis same_node_trans)
  next
    case False
    then have "t = u\<lparr>connects := tl (connects u)\<rparr>" using u(2) by (cases "connects u") (auto split: bool.splits if_splits)
    with su same_node_updates(7) show ?thesis by (blast intro: same_node_trans)
  qed
qed

lemma connect_smaller_frame: "connect_smaller sins k s = Some t \<Longrightarrow> same_node s t"
proof (induction sins k s rule: connect_smaller.induct)
  case (3 i sins k s)
  define a where "a = fst (neighbors s ! i)"
  obtain u where u: "(if 0 < inet_addr_compare (cf_myAddr (rc_config s)) (cf_myPort (rc_config s)) (sin_name a) (sin_portnum a)
          then map_option snd (connect_and_return_ConnProxy a k s) else Some s) = Some u" "connect_smaller sins k u = Some t"
    using 3(2) unfolding connect_smaller.simps Let_def bind_eq_Some_conv a_def by blast
  have "same_node s u" using u(1) connect_and_return_frame by (auto split: if_splits)
  moreover have "same_node u t" using 3(1) [OF a_def u] .
  ultimately show ?case by (rule same_node_trans)
qed simp_all

lemma init_smaller_frame: "init_smaller_proxies k s = Some (r, t) \<Longrightarrow> same_node s t"
  by (auto simp: init_smaller_proxies_def dest: connect_smaller_frame split: if_splits)

lemma add_neighbor_frame:
  assumes "add_neighbor dns name kind s = Some t"
  shows "same_node s t"
proof -
  obtain i u nm a where u: "alloc_sin_from_neighbors s = Some (i, u)"
    and t: "(let v = u\<lparr>neighbors := (neighbors u)[i := (a, True)]\<rparr> in
      Some (if kind = ''backups'' then v\<lparr>vpBackupSins := snd (push_back_sin i (vpBackupSins v))\<rparr>
           else if kind = ''pings'' then v\<lparr>vpPingSins := snd (push_back_sin i (vpPingSins v))\<rparr>
           else v\<lparr>vpCoordinatorSins := snd (push_back_sin i (vpCoordinatorSins v))\<rparr>)) = Some t"
    using assms unfolding add_neighbor_def bind_eq_Some_conv case_prod_beta by (metis prod.collapse)
  have "same_node s u" using u by (auto simp: alloc_sin_from_neighbors_def same_node_updates)
  moreover have "same_node u t"
    unfolding t [unfolded Let_def option.inject, symmetric] by (simp add: same_node_updates)
  ultimately show ?thesis by (rule same_node_trans)
qed

lemma config_option_frame:
  assumes "config_option dns w ws s = Some (ws', t)"
  shows "same_node s t"
proof -
  obtain c1 c2 c3 c4 where c: "(w = ''result_file'') = c1" "(w = ''nRecoveriesPerBackup'') = c2"
    "(w \<in> {''me'', ''coordinator'', ''primary''}) = c3" "(w \<in> {''backups'', ''pings'', ''coordinators''}) = c4" by blast
  note d = assms [unfolded config_option_def c]
  consider "c1" | "\<not> c1" "c2" | "\<not> c1" "\<not> c2" "c3" | "\<not> c1" "\<not> c2" "\<not> c3" "c4" | "\<not> c1" "\<not> c2" "\<not> c3" "\<not> c4" by blast
  then show ?thesis
  proof cases
    case 1
    with d show ?thesis by (auto simp: bind_eq_Some_conv same_node_updates split: option.splits)
  next
    case 2
    with d show ?thesis by (auto simp: same_node_updates split: prod.splits option.splits)
  next
    case 3
    with d show ?thesis by (auto simp: bind_eq_Some_conv same_node_updates)
  next
    case 4
    with d obtain name where "add_neighbor dns name w s = Some t" by (auto simp: bind_eq_Some_conv)
    then show ?thesis by (rule add_neighbor_frame)
  next
    case 5
    with d show ?thesis by simp
  qed
qed

lemma config_loop_frame: "config_loop dns ws s = Some t \<Longrightarrow> same_node s t"
proof (induction dns ws s rule: config_loop.induct)
  case (2 dns w ws s)
  then obtain ws' u where u: "config_option dns w ws s = Some (ws', u)" "config_loop dns ws' u = Some t" "\<not> 100 \<le> length w"
    by (auto split: if_splits option.splits)
  with config_option_frame [OF u(1)] 2(1) [OF u(3) u(1) refl u(2)] show ?case by (blast intro: same_node_trans)
qed simp

lemma ramcube_init_frame:
  assumes "ramcube_init dns ws s = Some t"
  shows "same_node s t"
proof -
  obtain s1 s2 s3 s4 where s: "init_ramcube_config dns ws s1 = Some s2" "same_node s s1"
    "\<exists>r. init_smaller_proxies PROXY_TYPE_PING_CLIENT s2 = Some (r, s3)" "\<exists>r. init_smaller_proxies PROXY_TYPE_BACKUP_CLIENT s3 = Some (r, s4)"
    "\<exists>r. init_smaller_proxies PROXY_TYPE_COORDINATOR_CLIENT s4 = Some (r, t)"
  proof -
    assume *: "\<And>s1 s2 s3 s4. init_ramcube_config dns ws s1 = Some s2 \<Longrightarrow> same_node s s1 \<Longrightarrow>
      \<exists>r. init_smaller_proxies PROXY_TYPE_PING_CLIENT s2 = Some (r, s3) \<Longrightarrow>
      \<exists>r. init_smaller_proxies PROXY_TYPE_BACKUP_CLIENT s3 = Some (r, s4) \<Longrightarrow>
      \<exists>r. init_smaller_proxies PROXY_TYPE_COORDINATOR_CLIENT s4 = Some (r, t) \<Longrightarrow> thesis"
    show thesis using assms unfolding ramcube_init_def
      by (auto simp: bind_eq_Some_conv Let_def same_node_defs split: if_splits intro!: *)
  qed
  have "same_node s1 s2"
  proof -
    obtain u where u: "config_loop dns ws (s1\<lparr>rc_config := (rc_config s1)\<lparr>cf_nRecoveriesPerBackup := 2,
       cf_resultFileName := ''result_default.txt''\<rparr>\<rparr>) = Some u"
      "s2 = u\<lparr>rc_config := (rc_config u)\<lparr>cf_myAddr := sin_name (cf_me (rc_config u)), cf_myPort := sin_portnum (cf_me (rc_config u))\<rparr>\<rparr>"
      using s(1) by (auto simp: init_ramcube_config_def bind_eq_Some_conv)
    from config_loop_frame [OF u(1)] u(2) show ?thesis by (auto simp: same_node_defs)
  qed
  with s(2-5) init_smaller_frame show ?thesis by (metis same_node_trans)
qed

text \<open>When everything that is asked of the system succeeds, the threads start.\<close>

lemma thread_init_ok:
  assumes "\<forall>c\<in>set calls. calls_ok c"
  shows "\<exists>ks t. thread_init h calls True True s = Inr (ks, t)
    \<and> reserved_fds (stats t) = reserved_fds (stats s) + 5 * of_nat (length calls) \<and> curr_conns (stats t) = curr_conns (stats s)"
proof -
  define s0 where "s0 = (init_item_locks (length calls) (s\<lparr>dispatcher := (dispatcher s)\<lparr>cqi_freelist := NULL\<rparr>\<rparr>))
    \<lparr>dispatcher := (dispatcher s)\<lparr>cqi_freelist := NULL, workers := []\<rparr>, threads := []\<rparr>"
  have s0: "workers (dispatcher s0) = []" "stats s0 = stats s" by (simp_all add: s0_def init_item_locks_def)
  obtain ks a where a: "setup_threads h calls [] s0 = Inr (ks, a)" "workers (dispatcher a) = replicate (length calls) new_worker"
    "reserved_fds (stats a) = reserved_fds (stats s0) + 5 * of_nat (length calls)" "same_world s0 a"
    using setup_threads_ok [OF assms, of h "[]" s0] s0(1) by auto
  have "\<forall>c\<in>set calls. wk_create c" using assms by (simp add: calls_ok_def)
  from create_workers_ok [OF this a(2), of 0] obtain t where t: "create_workers 0 calls a = Inr t" "stats t = stats a" by auto
  have "thread_init h calls True True s = Inr (ks, t)"
    using a(1) t(1) by (simp add: thread_init_def s0_def init_item_locks_def)
  with a(3,4) t(2) s0(2) show ?thesis by (simp add: same_world_def)
qed

text \<open>
  Property C11.
  Whatever command line is accepted: when \<open>main\<close> reaches its event loop, the cache is empty, with the
  invariants of the hash table, the LRU queues, the slabs and the size classes all established, and
  there are as many workers as asked for, or a single one on a RAMCube node. The item size has to be
  a multiple of 8, the table of at most \<open>2 ^ 32\<close> buckets.
\<close>

theorem server_starts_empty:
  assumes "main m args gs s = Some (Inr (f, t))" and "static_zero s" and "process_arguments args gs = Some (Inr opts)"
    and "8 dvd item_size_max (o_settings opts)" and "hashpower_init (o_settings opts) \<le> 32"
  shows "empty_cache t
    \<and> length (workers (dispatcher t)) = (if config_file opts = None then num_threads (o_settings opts) else 1)"
proof -
  obtain s1 s2 s3 g where s: "init_memory m opts s = Some (Inr s1)" "init_threads m s1 = Inr s2"
    "open_sockets m s2 = Some (Inr (g, s3))" "s3 = t \<or> ramcube_init (mn_dns m) (mn_config m) s3 = Some t"
    using assms(1,3) by (auto simp: main_def start_server_def split: if_splits option.split_asm sum.split_asm)
  have ok: "settings_ok (o_settings opts)" "\<not> preallocate opts" using accepted_settings [OF assms(3)] by simp_all
  have 1: "empty_cache s1" "num_threads (settings s1) = (if config_file opts = None then num_threads (o_settings opts) else 1)"
    using init_memory_empty [OF s(1) assms(2) ok assms(4,5)] by simp_all
  have 2: "same_cache s1 s2" "length (workers (dispatcher s2)) = num_threads (settings s1)"
    using init_threads_frame [OF s(2)] by simp_all
  have 3: "same_cache s2 s3" "length (workers (dispatcher s3)) = length (workers (dispatcher s2))"
    using open_sockets_frame [OF s(3)] by simp_all
  have 4: "same_cache s3 t" "dispatcher t = dispatcher s3" using s(4) ramcube_init_frame by (auto simp: same_node_def)
  have "same_store s1 t" using same_cache_trans [OF same_cache_trans, OF 2(1) 3(1) 4(1)] by (simp add: same_cache_def)
  with empty_cache_same [OF 1(1)] 1(2) 2(2) 3(2) 4(2) show ?thesis by simp
qed

text \<open>A system on which all calls succeed, and a process at its start.\<close>

definition start_calls :: main_calls where
  "start_calls = \<lparr>mn_version = Some ''2.0.21'', mn_core = True, mn_nofile = True, mn_root = False, mn_user = True, mn_ids = True,
     mn_daemon = \<lparr>dn_fork = 0, dn_setsid = True, dn_chdir = True, dn_null = None, dn_dups = [], dn_close = True\<rparr>,
     mn_now = 1700000000, mn_monotonic = Some 1000, mn_initial_malloc = None, mn_config = [], mn_dns = (\<lambda>_. None),
     mn_sigpipe = True, mn_heap = c_heap boot_suffixes, mn_threads = (\<lambda>_. thread_calls_ok), mn_locks = True, mn_descr = True,
     mn_assoc_env = None, mn_assoc_thread = True, mn_slab_env = None, mn_slab_thread = True,
     mn_unix = \<lparr>ai_family = AF_OTHER, ai_socket = Sock_fail, ai_v6only = True, ai_sndbuf = None, ai_sndbuf_ok = (\<lambda>_. True),
       ai_bind = Bind_ok, ai_listen = True, ai_sockname = None, ai_conn = []\<rparr>,
     mn_leftover = False, mn_port_file = False, mn_resolve = (\<lambda>_ _ _. None), mn_strdup = True\<rparr>"

definition start_boot :: cluster where
  "start_boot = (node_boot host_a host_b)\<lparr>hash_items := 0, expanding := False, hashpower := 16, heads := (\<lambda>_. NULL),
     tails := (\<lambda>_. NULL), sizes := (\<lambda>_. 0), listeners := [], mallocs := [4096]\<rparr>"

theorem server_starts_empty_witness:
  "\<exists>f t. main start_calls [''-p'', ''0'', ''-t2''] [] start_boot = Some (Inr (f, t)) \<and> empty_cache t
    \<and> length (workers (dispatcher t)) = 2"
proof -
  let ?args = "[''-p'', ''0'', ''-t2'']"
  define opts where "opts = (zero_options [])\<lparr>o_settings := (o_settings (zero_options []))\<lparr>port := 0, num_threads := 2,
    num_threads_per_udp := 2, udpport := 0\<rparr>, tcp_specified := True\<rparr>"
  have "getopt_all [] ?args = [(CHR ''p'', ''0''), (CHR ''t'', ''2'')]" by (simp add: optstring_def)
  then have args: "process_arguments ?args [] = Some (Inr opts)"
    by (simp add: process_arguments_def set_option_def number_option_def int_of_def atoi_def strtoll_def scan_int_def
      isspace_def isdigit_def digits_val_def digit_val_def finish_options_def zero_options_def upd_set_def settings_init_def opts_def)
  have o1: "settings_ok (o_settings opts)" "\<not> preallocate opts" "config_file opts = None" "num_threads (o_settings opts) = 2"
    "8 dvd item_size_max (o_settings opts)" "hashpower_init (o_settings opts) \<le> 32" "slab_reassign (o_settings opts) = False"
    "port (o_settings opts) = 0" "udpport (o_settings opts) = 0" "socketpath (o_settings opts) = None"
    "maxconns (o_settings opts) = 1024" "maxcore opts = False" "do_daemonize opts = False" "first_size (o_settings opts) \<noteq> 0"
    using accepted_settings [OF args] by (simp_all add: opts_def zero_options_def settings_init_def first_size_def sizeof_item_def)
  define s0 where "s0 = server_stats_init (mn_now start_calls) (start_boot\<lparr>settings := o_settings opts, ramcube_config_file := None\<rparr>)"
  obtain a where a: "assoc_init 0 s0 = Some a" "settings a = o_settings opts" "ramcube_config_file a = None"
    "reserved_fds (stats a) = 0" "curr_conns (stats a) = 0"
    by (simp add: assoc_init_def s0_def server_stats_init_def start_boot_def malloc_def upd_stats_def stats_init_def Let_def)
  obtain b where b: "slabs_init (maxbytes (settings a)) (factor (settings a)) False None (conn_init a) = Some b"
    using o1(14) a(2) by (cases "init_classes POWER_SMALLEST (first_size (o_settings opts)) (factor (o_settings opts))
        ((conn_init a)\<lparr>mem_limit := maxbytes (o_settings opts), slabclass := (\<lambda>_. empty_class)\<rparr>)")
      (simp add: slabs_init_def conn_init_def)
  have b2: "settings b = o_settings opts" "ramcube_config_file b = None" "reserved_fds (stats b) = 0" "curr_conns (stats b) = 0"
    using slabs_init_unused [OF b] a by (auto simp: conn_init_def)
  have calls: "mn_now start_calls = 1700000000" "mn_initial_malloc start_calls = None" by (simp_all add: start_calls_def)
  have se: "settings s0 = o_settings opts" "hashpower_init (o_settings opts) = 0"
    by (simp_all add: s0_def server_stats_init_def opts_def zero_options_def settings_init_def)
  have mem: "init_memory start_calls opts start_boot = Some (Inr b)"
    unfolding init_memory_def o1(3) s0_def [symmetric] Let_def se using a(1,2) b b2(2) o1(2) calls
    by (simp add: conn_init_def)
  obtain ks t where t: "thread_init (c_heap boot_suffixes) (replicate 2 thread_calls_ok) True True b = Inr (ks, t)"
    "reserved_fds (stats t) = 10" "curr_conns (stats t) = 0"
    using thread_init_ok [of "replicate 2 thread_calls_ok" "c_heap boot_suffixes" b] b2
    by (auto simp: calls_ok_def thread_calls_ok_def)
  define u where "u = clock_handler (Some (1000, 1000)) 1700000000 t"
  have thread_calls: "map (mn_threads start_calls) [0..<num_threads (settings b)] = replicate 2 thread_calls_ok"
    using b2 o1 by (simp add: start_calls_def eval_nat_numeral)
  have thr: "init_threads start_calls b = Inr u"
    using t(1) thread_init_frame [OF t(1)] b2 o1 unfolding init_threads_def thread_calls
    by (simp add: start_calls_def start_assoc_maintenance_def u_def same_cache_def)
  have set: "settings u = o_settings opts" "stats u = stats t" "ramcube_config_file u = ramcube_config_file t"
    using thread_init_frame [OF t(1)] b2 by (simp_all add: u_def clock_handler_def same_cache_def)
  have soc: "open_sockets start_calls u = Some (Inr (None, u))"
    using o1 by (simp add: open_sockets_def open_port_def set start_calls_def)
  have few: "\<not> too_few_conns u" using o1 t(2,3) by (simp add: too_few_conns_def set word_le_nat_alt)
  have env: "check_environment start_calls opts = None" using o1 by (simp add: check_environment_def start_calls_def)
  have ver: "sanitycheck (mn_version start_calls)" by (simp add: sanitycheck_def start_calls_def)
  have "ramcube_config_file u = None" using thread_init_frame [OF t(1)] b2(2) set(3) by (simp add: same_cache_def)
  then have run: "main start_calls ?args [] start_boot = Some (Inr (None, u))"
    using ver args env mem thr soc few by (simp add: main_def start_server_def)
  have "static_zero start_boot" by (simp add: static_zero_def start_boot_def)
  from server_starts_empty [OF run this args o1(5,6)] run o1(3,4) show ?thesis by auto
qed

end
