(* ===== verification/Unit_Tests.thy ===== *)
theory Unit_Tests
  imports Util Object_Cache
begin

text \<open>
  The unit tests of the repository (\<open>testapp.c\<close>) for the object cache and the number parsers, run on the
  models of \<open>cache.c\<close> and \<open>util.c\<close>. \<open>None\<close> is a failed assertion or the use of a null pointer. The heap and the results of \<open>malloc\<close> are
  arguments.
\<close>

section \<open>The number parsers\<close>

datatype test_return = TEST_SKIP | TEST_PASS | TEST_FAIL

definition asserts :: "bool list \<Rightarrow> test_return option" where
  "asserts bs = (if list_all (\<lambda>b. b) bs then Some TEST_PASS else None)"

definition test_safe_strtoul :: "test_return option" where
  "test_safe_strtoul = asserts [
     safe_strtoul ''123'' = (True, 123), safe_strtoul ''+123'' = (True, 123),
     \<not> fst (safe_strtoul ''''), \<not> fst (safe_strtoul ''123BOGUS''), \<not> fst (safe_strtoul '' issue221''),
     safe_strtoul ''4294967295'' = (True, 4294967295),
     \<not> fst (safe_strtoul ''-1'')]"

definition test_safe_strtoull :: "test_return option" where
  "test_safe_strtoull = asserts [
     safe_strtoull ''123'' = (True, 123), safe_strtoull ''+123'' = (True, 123),
     \<not> fst (safe_strtoull ''''), \<not> fst (safe_strtoull ''123BOGUS''),
     \<not> fst (safe_strtoull ''92837498237498237498029383''), \<not> fst (safe_strtoull '' issue221''),
     safe_strtoull ''18446744073709551615'' = (True, 18446744073709551615),
     \<not> fst (safe_strtoull ''18446744073709551616''), \<not> fst (safe_strtoull ''-1'')]"

definition test_safe_strtoll :: "test_return option" where
  "test_safe_strtoll = asserts [
     safe_strtoll ''123'' = (True, 123), safe_strtoll ''+123'' = (True, 123), safe_strtoll ''-123'' = (True, -123),
     \<not> fst (safe_strtoll ''''), \<not> fst (safe_strtoll ''123BOGUS''),
     \<not> fst (safe_strtoll ''92837498237498237498029383''), \<not> fst (safe_strtoll '' issue221''),
     \<not> fst (safe_strtoll ''18446744073709551615''),
     safe_strtoll ''9223372036854775807'' = (True, 9223372036854775807),
     \<not> fst (safe_strtoll ''-9223372036854775809''),
     safe_strtoll '' 123 foo'' = (True, 123)]"

text \<open>\<open>val\<close> is an \<open>int32_t\<close>.\<close>

definition test_safe_strtol :: "test_return option" where
  "test_safe_strtol = (let parsed = (\<lambda>str n. fst (safe_strtol str) \<and> sint (snd (safe_strtol str)) = n) in asserts [
     parsed ''123'' 123, parsed ''+123'' 123, parsed ''-123'' (-123),
     \<not> fst (safe_strtol ''''), \<not> fst (safe_strtol ''123BOGUS''),
     \<not> fst (safe_strtol ''92837498237498237498029383''), \<not> fst (safe_strtol '' issue221''),
     parsed ''2147483647'' 2147483647, parsed '' 123 foo'' 123])"

section \<open>The object cache\<close>

text \<open>\<open>constructor_pattern\<close> and a pointer in memory order.\<close>

definition constructor_pattern :: bytes where
  "constructor_pattern = [0xef, 0xbe, 0xbe, 0xba, 0xfe, 0xca, 0xad, 0xde]"

definition pointer_bytes :: "addr \<Rightarrow> bytes" where
  "pointer_bytes p = map (\<lambda>i. of_nat (p div 256 ^ i)) [0..<8]"

definition cache_constructor :: "addr \<Rightarrow> bheap \<Rightarrow> int \<times> bheap" where
  "cache_constructor buffer h = (0, write_bytes buffer constructor_pattern h)"

definition cache_fail_constructor :: "addr \<Rightarrow> bheap \<Rightarrow> int \<times> bheap" where
  "cache_fail_constructor buffer h = (1, h)"

text \<open>The static variable \<open>destruct_data\<close> lies at \<open>dd\<close>.\<close>

definition cache_destructor :: "addr \<Rightarrow> addr \<Rightarrow> bheap \<Rightarrow> bheap" where
  "cache_destructor dd buffer h = write_bytes dd (pointer_bytes buffer) h"

definition test_cache :: "nat \<Rightarrow> (addr \<Rightarrow> bheap \<Rightarrow> int \<times> bheap) option \<Rightarrow> (addr \<Rightarrow> bheap \<Rightarrow> bheap) option
    \<Rightarrow> bheap \<Rightarrow> addr list \<Rightarrow> cache option" where
  "test_cache bufsize constr destr h mallocs = fst (cache_create ''test'' bufsize constr destr h mallocs)"

definition cache_create_test :: "bheap \<Rightarrow> addr list \<Rightarrow> test_return option" where
  "cache_create_test h mallocs = do {
     cache \<leftarrow> test_cache 4 None None h mallocs;
     let cache = cache_destroy cache;
     Some TEST_PASS }"

definition cache_constructor_test :: "bheap \<Rightarrow> addr list \<Rightarrow> test_return option" where
  "cache_constructor_test h mallocs = do {
     cache \<leftarrow> test_cache 8 (Some cache_constructor) None h mallocs;
     let (ptr, cache) = cache_alloc cache;
     if ptr = NULL then None
     else do {
       let pattern = bytes_at (c_heap cache) ptr 8;
       cache \<leftarrow> cache_free ptr cache;
       let cache = cache_destroy cache;
       Some (if pattern = constructor_pattern then TEST_PASS else TEST_FAIL) } }"

definition cache_fail_constructor_test :: "bheap \<Rightarrow> addr list \<Rightarrow> test_return option" where
  "cache_fail_constructor_test h mallocs = do {
     cache \<leftarrow> test_cache 8 (Some cache_fail_constructor) None h mallocs;
     let (ptr, cache) = cache_alloc cache;
     let cache = cache_destroy cache;
     Some (if ptr \<noteq> NULL then TEST_FAIL else TEST_PASS) }"

definition cache_destructor_test :: "addr \<Rightarrow> bheap \<Rightarrow> addr list \<Rightarrow> test_return option" where
  "cache_destructor_test dd h mallocs = do {
     cache \<leftarrow> test_cache 4 None (Some (cache_destructor dd)) h mallocs;
     let (ptr, cache) = cache_alloc cache;
     cache \<leftarrow> (if ptr = NULL then None else cache_free ptr cache);
     let cache = cache_destroy cache;
     Some (if bytes_at (c_heap cache) dd 8 = pointer_bytes ptr then TEST_PASS else TEST_FAIL) }"

fun reuse_loop :: "nat \<Rightarrow> addr \<Rightarrow> cache \<Rightarrow> cache option" where
  "reuse_loop 0 ptr cache = Some cache"
| "reuse_loop (Suc n) ptr cache = (case cache_alloc cache of (p, cache) \<Rightarrow>
     if p \<noteq> ptr then None
     else do { cache \<leftarrow> cache_free ptr cache; reuse_loop n ptr cache })"

definition cache_reuse_test :: "bheap \<Rightarrow> addr list \<Rightarrow> test_return option" where
  "cache_reuse_test h mallocs = do {
     cache \<leftarrow> test_cache 4 None None h mallocs;
     let (ptr, cache) = cache_alloc cache;
     cache \<leftarrow> (if ptr = NULL then None else cache_free ptr cache);
     cache \<leftarrow> reuse_loop 100 ptr cache;
     let cache = cache_destroy cache;
     Some TEST_PASS }"

fun bulk_alloc :: "nat \<Rightarrow> nat \<Rightarrow> cache \<Rightarrow> (addr list \<times> cache) option" where
  "bulk_alloc 0 datasize cache = Some ([], cache)"
| "bulk_alloc (Suc n) datasize cache = (case cache_alloc cache of (p, cache) \<Rightarrow>
     if p = NULL then None
     else do {
       let cache = cache\<lparr>c_heap := write_bytes p (replicate datasize 0xff) (c_heap cache)\<rparr>;
       (ps, cache) \<leftarrow> bulk_alloc n datasize cache;
       Some (p # ps, cache) })"

fun bulk_free :: "addr list \<Rightarrow> cache \<Rightarrow> cache option" where
  "bulk_free [] cache = Some cache"
| "bulk_free (p # ps) cache = do { cache \<leftarrow> cache_free p cache; bulk_free ps cache }"

definition cache_bulkalloc :: "nat \<Rightarrow> bheap \<Rightarrow> addr list \<Rightarrow> test_return option" where
  "cache_bulkalloc datasize h mallocs = do {
     cache \<leftarrow> test_cache datasize None None h mallocs;
     (ptr, cache) \<leftarrow> bulk_alloc 1024 datasize cache;
     cache \<leftarrow> bulk_free ptr cache;
     let cache = cache_destroy cache;
     Some TEST_PASS }"

text \<open>The second cache gets its own heap and results of \<open>malloc\<close>.\<close>

definition test_issue_161 :: "bheap \<Rightarrow> addr list \<Rightarrow> bheap \<Rightarrow> addr list \<Rightarrow> test_return option" where
  "test_issue_161 h mallocs h2 mallocs2 = do {
     ret \<leftarrow> cache_bulkalloc 1 h mallocs;
     if ret = TEST_PASS then cache_bulkalloc 512 h2 mallocs2 else Some ret }"

text \<open>
  \<open>cache_error\<close> as \<open>cache_free\<close> leaves it when the signal that it raises is ignored: it then returns without having
  done anything else.
\<close>

definition cache_error :: "addr \<Rightarrow> cache \<Rightarrow> int" where
  "cache_error object c =
     (if bytes_at (c_heap c) (post_zone c object) (length redzone_pattern) \<noteq> redzone_pattern then 1
      else if bytes_at (c_heap c) (pre_zone object) (length redzone_pattern) \<noteq> redzone_pattern then -1 else 0)"

definition cache_redzone_test :: "bheap \<Rightarrow> addr list \<Rightarrow> test_return option" where
  "cache_redzone_test h mallocs = do {
     cache \<leftarrow> test_cache 4 None None h mallocs;
     let (p, cache) = cache_alloc cache;
     let old = c_heap cache (p - 1);
     let cache = cache\<lparr>c_heap := (c_heap cache)(p - 1 := 0)\<rparr>;
     if p = NULL \<or> cache_error p cache \<noteq> -1 then None
     else do {
       let cache = cache\<lparr>c_heap := (c_heap cache)(p - 1 := old)\<rparr>;
       let cache = cache\<lparr>c_heap := (c_heap cache)(p + 4 := 0)\<rparr>;
       if cache_error p cache \<noteq> 1 then None
       else let cache = cache_destroy cache in Some TEST_PASS } }"


section \<open>The runner\<close>

text \<open>
  \<open>main\<close>: the lines that it prints and its exit code. The tests of the table that need no server come first.
\<close>

fun run_testcases :: "nat \<Rightarrow> (string \<times> test_return option) list \<Rightarrow> (string list \<times> int) option" where
  "run_testcases ii [] = Some ([], 0)"
| "run_testcases ii ((description, function) # rest) = do {
     ret \<leftarrow> function;
     (out, exitcode) \<leftarrow> run_testcases (ii + 1) rest;
     let name = dec (ii + 1) @ '' - '' @ description;
     Some (if ret = TEST_SKIP then ((''ok # SKIP '' @ name) # out, exitcode)
           else if ret = TEST_PASS then ((''ok '' @ name) # out, exitcode)
           else ((''not ok '' @ name) # out, 1)) }"

definition test_main :: "(string \<times> test_return option) list \<Rightarrow> (string list \<times> int) option" where
  "test_main testcases = do {
     (out, exitcode) \<leftarrow> run_testcases 0 testcases;
     Some ((''1..'' @ dec (length testcases)) # out, exitcode) }"

text \<open>\<open>ms\<close> are the results of \<open>malloc\<close> in the tests of one buffer, \<open>ms1\<close> and \<open>ms2\<close> in the two bulk tests.\<close>

definition local_testcases :: "addr \<Rightarrow> bheap \<Rightarrow> addr list \<Rightarrow> addr list \<Rightarrow> addr list \<Rightarrow> (string \<times> test_return option) list" where
  "local_testcases dd h ms ms1 ms2 = [
     (''cache_create'', cache_create_test h ms),
     (''cache_constructor'', cache_constructor_test h ms),
     (''cache_constructor_fail'', cache_fail_constructor_test h ms),
     (''cache_destructor'', cache_destructor_test dd h ms),
     (''cache_reuse'', cache_reuse_test h ms),
     (''cache_redzone'', cache_redzone_test h ms),
     (''issue_161'', test_issue_161 h ms1 h ms2),
     (''strtol'', test_safe_strtol),
     (''strtoll'', test_safe_strtoll),
     (''strtoul'', test_safe_strtoul),
     (''strtoull'', test_safe_strtoull)]"

section \<open>The tests pass\<close>

lemma digit_chars:
  "isdigit CHR ''0''" "digit_val CHR ''0'' = 0"
  "isdigit CHR ''1''" "digit_val CHR ''1'' = 1"
  "isdigit CHR ''2''" "digit_val CHR ''2'' = 2"
  "isdigit CHR ''3''" "digit_val CHR ''3'' = 3"
  "isdigit CHR ''4''" "digit_val CHR ''4'' = 4"
  "isdigit CHR ''5''" "digit_val CHR ''5'' = 5"
  "isdigit CHR ''6''" "digit_val CHR ''6'' = 6"
  "isdigit CHR ''7''" "digit_val CHR ''7'' = 7"
  "isdigit CHR ''8''" "digit_val CHR ''8'' = 8"
  "isdigit CHR ''9''" "digit_val CHR ''9'' = 9"
  "\<not> isdigit CHR ''B''" "\<not> isdigit CHR ''i''" "\<not> isdigit CHR ''f''" "\<not> isdigit CHR ''+''" "\<not> isdigit CHR ''-''" "\<not> isdigit CHR '' ''"
  by (simp_all add: isdigit_def digit_val_def)

lemma scans:
  "scan_int ''123'' = Some (False, 123, '''')" "scan_int ''+123'' = Some (False, 123, '''')"
  "scan_int ''-123'' = Some (True, 123, '''')" "scan_int '''' = None" "scan_int ''123BOGUS'' = Some (False, 123, ''BOGUS'')"
  "scan_int '' issue221'' = None" "scan_int ''4294967295'' = Some (False, 4294967295, '''')"
  "scan_int ''-1'' = Some (True, 1, '''')"
  "scan_int ''92837498237498237498029383'' = Some (False, 92837498237498237498029383, '''')"
  "scan_int ''18446744073709551615'' = Some (False, 18446744073709551615, '''')"
  "scan_int ''18446744073709551616'' = Some (False, 18446744073709551616, '''')"
  "scan_int ''9223372036854775807'' = Some (False, 9223372036854775807, '''')"
  "scan_int ''-9223372036854775809'' = Some (True, 9223372036854775809, '''')"
  "scan_int '' 123 foo'' = Some (False, 123, '' foo'')"
  "scan_int ''2147483647'' = Some (False, 2147483647, '''')"
  by (simp_all add: scan_int_def digits_val_def digit_chars isspace_def)

lemmas parsers = asserts_def safe_strtoul_def safe_strtoull_def safe_strtoll_def safe_strtol_def strtoull_def strtoll_def
  scans ends_number_def isspace_def Let_def

lemma strtoul_test: "test_safe_strtoul = Some TEST_PASS"
  by (simp add: test_safe_strtoul_def parsers)

lemma strtoull_test: "test_safe_strtoull = Some TEST_PASS"
  by (simp add: test_safe_strtoull_def parsers)

lemma strtoll_test: "test_safe_strtoll = Some TEST_PASS"
  by (simp add: test_safe_strtoll_def parsers)

lemma strtol_test: "test_safe_strtol = Some TEST_PASS"
  by (simp add: test_safe_strtol_def parsers)

text \<open>A cache that was just created, and a buffer in it.\<close>

lemma test_cache_some:
  assumes "a \<noteq> NULL" "b \<noteq> NULL" "c \<noteq> NULL"
  shows "test_cache n k d h (a # b # c # ps) = Some \<lparr>c_name = ''test'', c_ptr = replicate initial_pool_size NULL,
    c_bufsize = n + 16, c_freetotal = initial_pool_size, c_freecurr = 0, c_constructor = k, c_destructor = d, c_heap = h,
    c_mallocs = ps, c_freed = []\<rparr>"
  using assms by (simp add: test_cache_def cache_create_def redzone_pattern_def)

text \<open>The patterns of the object at \<open>x\<close> are in place.\<close>

definition intact :: "bheap \<Rightarrow> nat \<Rightarrow> addr \<Rightarrow> bool" where
  "intact h n x \<longleftrightarrow> bytes_at h (pre_zone x) 8 = redzone_pattern \<and> bytes_at h (x + n) 8 = redzone_pattern"

lemma length_redzone [simp]: "length redzone_pattern = 8"
  by (simp add: redzone_pattern_def)

lemma patterns_intact:
  "x = p + 8 \<Longrightarrow> intact (write_bytes (x + n) redzone_pattern (write_bytes p redzone_pattern h)) n x"
  using bytes_at_write [of "x + n" redzone_pattern] bytes_at_write [of p redzone_pattern]
  by (simp add: intact_def pre_zone_def bytes_at_write_other)

text \<open>A new buffer, without a constructor.\<close>

lemma alloc_fresh:
  assumes "c_freecurr c = 0" "c_mallocs c = p # ps" "p \<noteq> NULL" "c_constructor c = None" "c_bufsize c = n + 16"
  shows "cache_alloc c = (p + 8, c\<lparr>c_mallocs := ps,
    c_heap := write_bytes (p + 8 + n) redzone_pattern (write_bytes p redzone_pattern (c_heap c))\<rparr>)"
  using assms by (simp add: cache_alloc_def c_malloc_def get_object_def post_zone_def add_ac)

lemma free_intact:
  assumes "intact (c_heap c) n x" "c_bufsize c = n + 16" "c_freecurr c < c_freetotal c"
  shows "cache_free x c = Some (c\<lparr>c_ptr := (c_ptr c)[c_freecurr c := x - 8], c_freecurr := c_freecurr c + 1\<rparr>)"
  using assms by (simp add: cache_free_def intact_def pre_zone_def post_zone_def)

lemma reuse_loop_ok:
  assumes "c_freecurr c = 1" "c_ptr c \<noteq> []" "c_ptr c ! 0 = p" "c_bufsize c = n + 16" "c_freetotal c = m" "0 < m"
  shows "\<exists>d. reuse_loop k (p + 8) c = Some d"
  using assms
proof (induction k arbitrary: c)
  case (Suc k)
  let ?h = "write_bytes (p + 8 + n) redzone_pattern (write_bytes p redzone_pattern (c_heap c))"
  have a: "cache_alloc c = (p + 8, c\<lparr>c_freecurr := 0, c_heap := ?h\<rparr>)"
    using Suc.prems by (simp add: cache_alloc_def get_object_def post_zone_def add_ac)
  have "cache_free (p + 8) (c\<lparr>c_freecurr := 0, c_heap := ?h\<rparr>)
      = Some (c\<lparr>c_heap := ?h, c_ptr := (c_ptr c)[0 := p], c_freecurr := 1\<rparr>)"
    using free_intact [of "c\<lparr>c_freecurr := 0, c_heap := ?h\<rparr>" n "p + 8"] patterns_intact [of "p + 8" p n "c_heap c"] Suc.prems by simp
  moreover have "\<exists>d. reuse_loop k (p + 8) (c\<lparr>c_heap := ?h, c_ptr := (c_ptr c)[0 := p], c_freecurr := 1\<rparr>) = Some d"
    by (rule Suc.IH) (use Suc.prems in \<open>simp_all add: nth_list_update\<close>)
  ultimately show ?case using a by simp
qed simp

text \<open>The buffers of the bulk test do not overlap.\<close>

fun spaced :: "nat \<Rightarrow> addr list \<Rightarrow> bool" where
  "spaced n [] \<longleftrightarrow> True"
| "spaced n (p # ps) \<longleftrightarrow> p \<noteq> NULL \<and> (\<forall>q \<in> set ps. p + n + 16 \<le> q \<or> q + n + 16 \<le> p) \<and> spaced n ps"

lemma bulk_alloc_ok:
  assumes "c_freecurr c = 0" "c_mallocs c = ps @ qs" "spaced n ps" "c_constructor c = None" "c_bufsize c = n + 16"
  shows "\<exists>d. bulk_alloc (length ps) n c = Some (map (\<lambda>p. p + 8) ps, d) \<and> (\<forall>p \<in> set ps. intact (c_heap d) n (p + 8))
    \<and> c_bufsize d = n + 16 \<and> c_destructor d = c_destructor c
    \<and> (\<forall>q k. (\<forall>p \<in> set ps. q + k \<le> p \<or> p + n + 16 \<le> q) \<longrightarrow> bytes_at (c_heap d) q k = bytes_at (c_heap c) q k)"
  using assms
proof (induction ps arbitrary: c)
  case (Cons p ps)
  let ?h = "write_bytes (p + 8 + n) redzone_pattern (write_bytes p redzone_pattern (c_heap c))"
  let ?h' = "write_bytes (p + 8) (replicate n 0xff) ?h"
  let ?c = "c\<lparr>c_mallocs := ps @ qs, c_heap := ?h'\<rparr>"
  have a: "cache_alloc c = (p + 8, c\<lparr>c_mallocs := ps @ qs, c_heap := ?h\<rparr>)"
    using alloc_fresh [of c p "ps @ qs" n] Cons.prems by simp
  obtain d where d: "bulk_alloc (length ps) n ?c = Some (map (\<lambda>p. p + 8) ps, d)" "\<forall>p \<in> set ps. intact (c_heap d) n (p + 8)"
    "c_bufsize d = n + 16" "c_destructor d = c_destructor c"
    "\<And>q k. (\<forall>p \<in> set ps. q + k \<le> p \<or> p + n + 16 \<le> q) \<Longrightarrow> bytes_at (c_heap d) q k = bytes_at ?h' q k"
    using Cons.IH [of ?c] Cons.prems by auto
  have run: "bulk_alloc (length (p # ps)) n c = Some (map (\<lambda>p. p + 8) (p # ps), d)" using a d(1) by simp
  have "intact ?h' n (p + 8)" using patterns_intact [of "p + 8" p n "c_heap c"]
    by (simp add: intact_def pre_zone_def bytes_at_write_other)
  moreover have "bytes_at (c_heap d) p 8 = bytes_at ?h' p 8" "bytes_at (c_heap d) (p + 8 + n) 8 = bytes_at ?h' (p + 8 + n) 8"
    using Cons.prems(3) by (force intro!: d(5))+
  ultimately have "intact (c_heap d) n (p + 8)" by (simp add: intact_def pre_zone_def)
  moreover have "bytes_at (c_heap d) q k = bytes_at (c_heap c) q k" if q: "\<forall>p \<in> set (p # ps). q + k \<le> p \<or> p + n + 16 \<le> q" for q k
  proof -
    have "q + k \<le> p \<or> p + n + 16 \<le> q" using q by simp
    then have "bytes_at ?h' q k = bytes_at (c_heap c) q k" by (auto simp: bytes_at_write_other)
    with q d(5) show ?thesis by simp
  qed
  ultimately show ?case using run d(2-4) by (intro exI [of _ d] conjI) auto
qed auto

lemma cache_free_some:
  assumes "intact (c_heap c) n x" "c_bufsize c = n + 16" "c_destructor c = None"
  shows "\<exists>d. cache_free x c = Some d \<and> c_heap d = c_heap c \<and> c_bufsize d = n + 16 \<and> c_destructor d = None"
  using assms by (cases "c_mallocs c") (auto simp: cache_free_def intact_def pre_zone_def post_zone_def c_malloc_def c_free_def Let_def)

lemma bulk_free_ok:
  "\<forall>x \<in> set xs. intact (c_heap c) n x \<Longrightarrow> c_bufsize c = n + 16 \<Longrightarrow> c_destructor c = None \<Longrightarrow> \<exists>d. bulk_free xs c = Some d"
proof (induction xs arbitrary: c)
  case (Cons x xs)
  then obtain d where d: "cache_free x c = Some d" "c_heap d = c_heap c" "c_bufsize d = n + 16" "c_destructor d = None"
    using cache_free_some by (metis list.set_intros(1))
  with Cons.IH [of d] Cons.prems show ?case by auto
qed simp

lemma bulk_test:
  assumes "length ps = 1024" "spaced n ps" "a \<noteq> NULL" "b \<noteq> NULL" "c \<noteq> NULL"
  shows "cache_bulkalloc n h (a # b # c # ps @ qs) = Some TEST_PASS"
proof -
  let ?c = "\<lparr>c_name = ''test'', c_ptr = replicate initial_pool_size NULL, c_bufsize = n + 16, c_freetotal = initial_pool_size,
    c_freecurr = 0, c_constructor = None, c_destructor = None, c_heap = h, c_mallocs = ps @ qs, c_freed = []\<rparr> :: cache"
  obtain d where d: "bulk_alloc 1024 n ?c = Some (map (\<lambda>p. p + 8) ps, d)" "\<forall>p \<in> set ps. intact (c_heap d) n (p + 8)"
    "c_bufsize d = n + 16" "c_destructor d = None"
    using bulk_alloc_ok [of ?c ps qs n] assms(1,2) by auto
  obtain e where "bulk_free (map (\<lambda>p. p + 8) ps) d = Some e" using bulk_free_ok [of "map (\<lambda>p. p + 8) ps" d n] d by auto
  then show ?thesis using test_cache_some [OF assms(3-5), of n None None h "ps @ qs"] d(1)
    by (simp add: cache_bulkalloc_def Let_def)
qed


text \<open>One buffer, as the tests of a single buffer use it: the contents that the constructor left are kept.\<close>

lemmas one_buffer = test_cache_some cache_alloc_def c_malloc_def get_object_def pre_zone_def post_zone_def cache_free_def
  bytes_at_write_other c_free_def Let_def

lemma create_test: "a \<noteq> NULL \<Longrightarrow> b \<noteq> NULL \<Longrightarrow> c \<noteq> NULL \<Longrightarrow> cache_create_test h (a # b # c # ps) = Some TEST_PASS"
  by (simp add: cache_create_test_def test_cache_some)

lemma redzones_written:
  "bytes_at (write_bytes q redzone_pattern h) q 8 = redzone_pattern"
  "p + 8 \<le> q \<Longrightarrow> bytes_at (write_bytes q redzone_pattern (write_bytes p redzone_pattern h)) p 8 = redzone_pattern"
  using bytes_at_write [of q redzone_pattern] bytes_at_write [of p redzone_pattern] by (simp_all add: bytes_at_write_other)

lemma constructor_test:
  assumes "a \<noteq> NULL" "b \<noteq> NULL" "c \<noteq> NULL" "p \<noteq> NULL"
  shows "cache_constructor_test h (a # b # c # p # ps) = Some TEST_PASS"
proof -
  have l: "length constructor_pattern = 8" by (simp add: constructor_pattern_def)
  then show ?thesis using assms bytes_at_write [of "p + 8" constructor_pattern]
    by (simp add: cache_constructor_test_def one_buffer cache_constructor_def redzones_written initial_pool_size_def)
qed

lemma fail_constructor_test:
  assumes "a \<noteq> NULL" "b \<noteq> NULL" "c \<noteq> NULL" "p \<noteq> NULL"
  shows "cache_fail_constructor_test h (a # b # c # p # ps) = Some TEST_PASS"
  using assms by (simp add: cache_fail_constructor_test_def one_buffer cache_fail_constructor_def)

lemma destructor_test:
  assumes "a \<noteq> NULL" "b \<noteq> NULL" "c \<noteq> NULL" "p \<noteq> NULL"
  shows "cache_destructor_test dd h (a # b # c # p # ps) = Some TEST_PASS"
proof -
  have "length (pointer_bytes (p + 8)) = 8" by (simp add: pointer_bytes_def)
  then show ?thesis using assms bytes_at_write [of dd "pointer_bytes (p + 8)"]
    by (simp add: cache_destructor_test_def one_buffer cache_destructor_def redzones_written initial_pool_size_def
      cache_destroy_def)
qed

lemma reuse_test:
  assumes "a \<noteq> NULL" "b \<noteq> NULL" "c \<noteq> NULL" "p \<noteq> NULL"
  shows "cache_reuse_test h (a # b # c # p # ps) = Some TEST_PASS"
proof -
  let ?h = "write_bytes (p + 8 + 4) redzone_pattern (write_bytes p redzone_pattern h)"
  let ?c = "\<lparr>c_name = ''test'', c_ptr = (replicate initial_pool_size NULL)[0 := p], c_bufsize = 4 + 16,
    c_freetotal = initial_pool_size, c_freecurr = 1, c_constructor = None, c_destructor = None, c_heap = ?h,
    c_mallocs = ps, c_freed = []\<rparr> :: cache"
  obtain d where "reuse_loop 100 (p + 8) ?c = Some d"
    using reuse_loop_ok [of ?c p 4 initial_pool_size 100] by (auto simp: initial_pool_size_def)
  then show ?thesis using assms
    by (simp add: cache_reuse_test_def one_buffer redzones_written initial_pool_size_def add_ac)
qed

lemma redzone_test:
  assumes "a \<noteq> NULL" "b \<noteq> NULL" "c \<noteq> NULL" "p \<noteq> NULL"
  shows "cache_redzone_test h (a # b # c # p # ps) = Some TEST_PASS"
proof -
  let ?h = "write_bytes (12 + p) redzone_pattern (write_bytes p redzone_pattern h)"
  have h: "?h (7 + p) = 0xde"
    by (simp add: write_bytes_def redzone_pattern_def)
  have post: "bytes_at (?h(7 + p := 0)) (12 + p) 8 = redzone_pattern"
    using redzones_written(1) [of "12 + p"] by (simp add: bytes_at_def)
  have pre: "bytes_at (?h(7 + p := 0)) p 8 \<noteq> redzone_pattern"
    by (simp add: bytes_at_def redzone_pattern_def upt_rec)
  have post': "bytes_at (?h(12 + p := 0)) (12 + p) 8 \<noteq> redzone_pattern"
    by (simp add: bytes_at_def redzone_pattern_def upt_rec)
  have "?h(7 + p := 0, 7 + p := 0xde) = ?h" using h by (metis fun_upd_triv fun_upd_upd)
  then show ?thesis using assms h post pre post'
    by (simp add: cache_redzone_test_def one_buffer cache_error_def add.commute [of 8])
qed


lemma issue_161_test:
  assumes "length ps1 = 1024" "spaced 1 ps1" "length ps2 = 1024" "spaced 512 ps2" "a \<noteq> NULL" "b \<noteq> NULL" "c \<noteq> NULL"
  shows "test_issue_161 h (a # b # c # ps1 @ qs1) h2 (a # b # c # ps2 @ qs2) = Some TEST_PASS"
  using assms by (simp add: test_issue_161_def bulk_test)

text \<open>What the runner makes of tests that all pass.\<close>

lemma all_pass:
  "\<forall>t \<in> set ts. snd t = Some TEST_PASS \<Longrightarrow> \<exists>out. run_testcases i ts = Some (out, 0) \<and> length out = length ts
    \<and> (\<forall>k < length ts. out ! k = ''ok '' @ dec (i + k + 1) @ '' - '' @ fst (ts ! k))"
proof (induction ts arbitrary: i)
  case (Cons t ts)
  obtain out where "run_testcases (i + 1) ts = Some (out, 0)" "length out = length ts"
    "\<forall>k < length ts. out ! k = ''ok '' @ dec (i + 1 + k + 1) @ '' - '' @ fst (ts ! k)"
    using Cons.IH [of "i + 1"] Cons.prems by auto
  then show ?case using Cons.prems by (cases t) (auto simp: nth_Cons' less_Suc_eq_0_disj)
qed simp

text \<open>Property C34.
  The unit tests of the cache and of the parsers pass on the models of \<open>cache.c\<close> and \<open>util.c\<close>, whatever memory
  holds and wherever \<open>malloc\<close> puts the buffers, provided that it does not fail and that the 1024 buffers of a bulk
  test do not overlap: no assertion fails, the exit code is 0, and every test is reported as ok.\<close>

theorem unit_tests_pass:
  assumes "a \<noteq> NULL" "b \<noteq> NULL" "c \<noteq> NULL" "p \<noteq> NULL"
    "length ps1 = 1024" "spaced 1 ps1" "length ps2 = 1024" "spaced 512 ps2"
  shows "let ts = local_testcases dd h (a # b # c # p # ps) (a # b # c # ps1 @ qs1) (a # b # c # ps2 @ qs2) in
    \<exists>out. test_main ts = Some ((''1..'' @ dec 11) # out, 0) \<and> length out = 11
      \<and> (\<forall>k < 11. out ! k = ''ok '' @ dec (k + 1) @ '' - '' @ fst (ts ! k))"
proof -
  let ?ts = "local_testcases dd h (a # b # c # p # ps) (a # b # c # ps1 @ qs1) (a # b # c # ps2 @ qs2)"
  have pass: "\<forall>t \<in> set ?ts. snd t = Some TEST_PASS"
    using assms by (simp add: local_testcases_def create_test constructor_test fail_constructor_test
      destructor_test reuse_test redzone_test issue_161_test strtol_test strtoll_test strtoul_test strtoull_test)
  have len: "length ?ts = 11" by (simp add: local_testcases_def)
  obtain out where "run_testcases 0 ?ts = Some (out, 0)" "length out = 11"
    "\<forall>k < 11. out ! k = ''ok '' @ dec (k + 1) @ '' - '' @ fst (?ts ! k)"
    using all_pass [OF pass, of 0] by (auto simp: len)
  then show ?thesis by (simp add: test_main_def len Let_def)
qed

lemma spaced_steps: "n + 16 \<le> d \<Longrightarrow> spaced n (map (\<lambda>i. d * i + 1) [i..<i + k])"
proof (induction k arbitrary: i)
  case (Suc k)
  have "d * i + 1 + n + 16 \<le> d * j + 1" if "i < j" for j
  proof -
    have "d * (i + 1) \<le> d * j" using that by (intro mult_le_mono2) simp
    with Suc.prems show ?thesis by simp
  qed
  moreover have "[i..<i + Suc k] = i # [i + 1..<i + 1 + k]" by (simp add: upt_conv_Cons)
  ultimately show ?case using Suc.IH [of "i + 1"] Suc.prems by auto
qed simp

theorem unit_tests_pass_witness:
  "\<exists>out. test_main (local_testcases 8 (\<lambda>q. 0) [100, 200, 300, 400]
      ([100, 200, 300] @ map (\<lambda>i. 17 * i + 1) [0..<1024]) ([100, 200, 300] @ map (\<lambda>i. 600 * i + 1) [0..<1024]))
    = Some ((''1..'' @ dec 11) # out, 0) \<and> length out = 11"
proof -
  have "spaced 1 (map (\<lambda>i. 17 * i + 1) [0..<1024])" "spaced 512 (map (\<lambda>i. 600 * i + 1) [0..<1024])"
    using spaced_steps [of 1 17 0 1024] spaced_steps [of 512 600 0 1024] by simp_all
  then show ?thesis
    using unit_tests_pass [of 100 200 300 400 "map (\<lambda>i. 17 * i + 1) [0..<1024]" "map (\<lambda>i. 600 * i + 1) [0..<1024]"
      8 "\<lambda>q. 0" "[]" "[]" "[]"] by (auto simp: Let_def)
qed

end
