(* ===== verification/Test_Client.thy ===== *)
theory Test_Client
  imports Dispatch Unit_Tests
begin

text \<open>
  The client of the binary protocol in the tests of the repository (\<open>testapp.c\<close>): how it builds requests, reads and
  checks responses, and what each test sends and expects. The server it talks to is a parameter. \<open>None\<close> is a failed
  assertion, a store behind a buffer, or a read that never returns.
\<close>

section \<open>The socket\<close>

text \<open>
  The server and the kernel: the bytes that the server answers to bytes it gets, a new connection in the place of the
  old one, whether the server has closed the connection, and the passing of time.
\<close>

record 'p network =
  serve :: "string \<Rightarrow> 'p \<Rightarrow> (string \<times> 'p) option"
  connect :: "'p \<Rightarrow> 'p"
  hung_up :: "'p \<Rightarrow> bool"
  sleep :: "nat \<Rightarrow> 'p \<Rightarrow> 'p"

text \<open>
  \<open>cl_out\<close> was written and is not served yet, \<open>cl_in\<close> is the answer that is not read yet. The \<open>k\<close>-th call of
  \<open>read\<close> or \<open>write\<close> moves at most \<open>Suc (cl_cut k)\<close> bytes; a call that is interrupted is repeated.
\<close>

record 'p client =
  cl_peer :: 'p
  cl_out :: string
  cl_in :: string
  cl_cut :: "nat \<Rightarrow> nat"
  cl_calls :: nat

definition moved :: "nat \<Rightarrow> 'p client \<Rightarrow> nat \<times> 'p client" where
  "moved n cl = (min n (Suc (cl_cut cl (cl_calls cl))), cl\<lparr>cl_calls := cl_calls cl + 1\<rparr>)"

text \<open>The loop of \<open>safe_send\<close>, without hickups.\<close>

function safe_send :: "string \<Rightarrow> 'p client \<Rightarrow> 'p client" where
  "safe_send buf cl = (case moved (length buf) cl of (nw, cl) \<Rightarrow>
     let cl = cl\<lparr>cl_out := cl_out cl @ take nw buf\<rparr> in
     if nw < length buf then safe_send (drop nw buf) cl else cl)"
  by pat_completeness auto
termination by (relation "measure (\<lambda>(buf, cl). length buf)") (auto simp: moved_def min_def split: if_splits)

declare safe_send.simps [simp del]

text \<open>The server answers what was sent before the client reads on.\<close>

definition exchange :: "'p network \<Rightarrow> 'p client \<Rightarrow> 'p client option" where
  "exchange net cl = (if cl_out cl = [] then Some cl
     else do {
       (answer, p) \<leftarrow> serve net (cl_out cl) (cl_peer cl);
       Some (cl\<lparr>cl_peer := p, cl_out := [], cl_in := cl_in cl @ answer\<rparr>) })"

definition client_read :: "'p network \<Rightarrow> nat \<Rightarrow> 'p client \<Rightarrow> (string \<times> 'p client) option" where
  "client_read net n cl = do {
     cl \<leftarrow> exchange net cl;
     if cl_in cl = [] then (if hung_up net (cl_peer cl) then Some ([], cl) else None)
     else case moved (min n (length (cl_in cl))) cl of (nr, cl) \<Rightarrow>
       Some (take nr (cl_in cl), cl\<lparr>cl_in := drop nr (cl_in cl)\<rparr>) }"

function recv_loop :: "'p network \<Rightarrow> nat \<Rightarrow> 'p client \<Rightarrow> (string \<times> 'p client) option" where
  "recv_loop net n cl = do {
     (bs, cl) \<leftarrow> client_read net n cl;
     if bs = [] then None
     else if length bs < n then do {
       (rest, cl) \<leftarrow> recv_loop net (n - length bs) cl;
       Some (bs @ rest, cl) }
     else Some (bs, cl) }"
  by pat_completeness auto
termination by (relation "measure (\<lambda>(net, n, cl). n)") auto

declare recv_loop.simps [simp del]

definition safe_recv :: "'p network \<Rightarrow> nat \<Rightarrow> 'p client \<Rightarrow> (string \<times> 'p client) option" where
  "safe_recv net len cl = (if len = 0 then Some ([], cl) else recv_loop net len cl)"

definition reconnect :: "'p network \<Rightarrow> 'p client \<Rightarrow> 'p client" where
  "reconnect net cl = cl\<lparr>cl_peer := connect net (cl_peer cl), cl_out := [], cl_in := []\<rparr>"

section \<open>Requests\<close>

text \<open>The opaque number and the value that the tests use, and the size of their buffers.\<close>

abbreviation (input) OPAQUE :: u32 where "OPAQUE \<equiv> 0xdeadbeef"
abbreviation (input) BUFSZ :: nat where "BUFSZ \<equiv> 1024"

definition test_value :: string where
  "test_value = rev (be64 0xdeadbeefdeadcafe)"

text \<open>
  The header of a request: \<open>magic\<close>, \<open>opcode\<close>, \<open>keylen\<close>, \<open>extlen\<close>, \<open>datatype\<close>, \<open>reserved\<close>, \<open>bodylen\<close>, \<open>opaque\<close>
  as it lies in memory, and \<open>cas\<close>.
\<close>

definition request_header :: "int \<Rightarrow> nat \<Rightarrow> nat \<Rightarrow> nat \<Rightarrow> string" where
  "request_header cmd keylen extlen bodylen = [byte PROTOCOL_BINARY_REQ, byte (nat cmd)] @ be16 keylen
     @ [byte extlen, byte 0] @ be16 0 @ be32 bodylen @ le32 OPAQUE @ be64 0"

text \<open>
  The flags and the expiry time of a storage command are not put into network order. The second argument of \<open>None\<close>
  in the source is the empty string here, its length being zero.
\<close>

definition storage_command :: "nat \<Rightarrow> int \<Rightarrow> string \<Rightarrow> string \<Rightarrow> u32 \<Rightarrow> u32 \<Rightarrow> string option" where
  "storage_command bufsz cmd key dta flags exptime =
     (if bufsz \<le> 32 + length key + length dta then None
      else Some (request_header cmd (length key) 8 (length key + 8 + length dta) @ le32 flags @ le32 exptime @ key @ dta))"

definition raw_command :: "nat \<Rightarrow> int \<Rightarrow> string \<Rightarrow> string \<Rightarrow> string option" where
  "raw_command bufsz cmd key dta =
     (if bufsz \<le> HEADER_LEN + length key + length dta then None
      else Some (request_header cmd (length key) 0 (length key + length dta) @ key @ dta))"

definition flush_command :: "nat \<Rightarrow> int \<Rightarrow> nat \<Rightarrow> bool \<Rightarrow> string option" where
  "flush_command bufsz cmd exptime use_extra =
     (if bufsz \<le> 32 then None
      else Some (if use_extra then request_header cmd 0 4 4 @ be32 exptime else request_header cmd 0 0 0))"

text \<open>The assertion forgets the length of the key; a key that does not fit is copied past the buffer.\<close>

definition touch_command :: "nat \<Rightarrow> int \<Rightarrow> string \<Rightarrow> nat \<Rightarrow> string option" where
  "touch_command bufsz cmd key exptime =
     (if bufsz \<le> 32 \<or> bufsz < 28 + length key then None
      else Some (request_header cmd (length key) 4 (length key + 4) @ be32 exptime @ key))"

definition arithmetic_command :: "nat \<Rightarrow> int \<Rightarrow> string \<Rightarrow> nat \<Rightarrow> nat \<Rightarrow> nat \<Rightarrow> string option" where
  "arithmetic_command bufsz cmd key delta initial exptime =
     (if bufsz \<le> 48 + length key then None
      else Some (request_header cmd (length key) 20 (length key + 20) @ be64 delta @ be64 initial @ be32 exptime @ key))"

section \<open>Responses\<close>

text \<open>The header of a response in host order, but for \<open>opaque\<close> and \<open>cas\<close>, and the body behind it.\<close>

record response =
  r_magic :: nat
  r_opcode :: nat
  r_keylen :: nat
  r_extlen :: nat
  r_datatype :: nat
  r_status :: nat
  r_bodylen :: nat
  r_opaque :: nat
  r_cas :: string
  r_body :: string

definition parse_response :: "string \<Rightarrow> response" where
  "parse_response h = (let be = (\<lambda>off n. be_val (take n (drop off h))) in
     \<lparr>r_magic = be 0 1, r_opcode = be 1 1, r_keylen = be 2 2, r_extlen = be 4 1, r_datatype = be 5 1, r_status = be 6 2,
      r_bodylen = be 8 4, r_opaque = be_val (rev (take 4 (drop 12 h))), r_cas = take 8 (drop 16 h), r_body = []\<rparr>)"

definition safe_recv_packet :: "'p network \<Rightarrow> nat \<Rightarrow> 'p client \<Rightarrow> (response \<times> 'p client) option" where
  "safe_recv_packet net bufsize cl =
     (if bufsize \<le> HEADER_LEN then None
      else do {
        (h, cl) \<leftarrow> safe_recv net HEADER_LEN cl;
        let r = parse_response h;
        if bufsize < HEADER_LEN + r_bodylen r then None
        else do {
          (body, cl) \<leftarrow> safe_recv net (r_bodylen r) cl;
          Some (r\<lparr>r_body := body\<rparr>, cl) } })"

definition no_cas :: string where "no_cas = replicate 8 (CHR 0x00)"

definition validate_response_header :: "response \<Rightarrow> int \<Rightarrow> nat \<Rightarrow> bool" where
  "validate_response_header r cmd status \<longleftrightarrow>
     r_magic r = PROTOCOL_BINARY_RES \<and> int (r_opcode r) = cmd \<and> r_datatype r = 0 \<and> r_status r = status
     \<and> r_opaque r = unat OPAQUE
     \<and> (if status = 0 then
          cmd \<notin> {CMD_ADDQ, CMD_APPENDQ, CMD_DECREMENTQ, CMD_DELETEQ, CMD_FLUSHQ, CMD_INCREMENTQ, CMD_PREPENDQ, CMD_QUITQ,
                 CMD_REPLACEQ, CMD_SETQ}
          \<and> (if cmd \<in> {CMD_ADD, CMD_REPLACE, CMD_SET, CMD_APPEND, CMD_PREPEND} then
               r_keylen r = 0 \<and> r_extlen r = 0 \<and> r_bodylen r = 0 \<and> r_cas r \<noteq> no_cas
             else if cmd \<in> {CMD_FLUSH, CMD_NOOP, CMD_QUIT, CMD_DELETE} then
               r_keylen r = 0 \<and> r_extlen r = 0 \<and> r_bodylen r = 0 \<and> r_cas r = no_cas
             else if cmd \<in> {CMD_DECREMENT, CMD_INCREMENT} then
               r_keylen r = 0 \<and> r_extlen r = 0 \<and> r_bodylen r = 8 \<and> r_cas r \<noteq> no_cas
             else if cmd = CMD_STAT then r_extlen r = 0 \<and> r_cas r = no_cas
             else if cmd = CMD_VERSION then
               r_keylen r = 0 \<and> r_extlen r = 0 \<and> r_bodylen r \<noteq> 0 \<and> r_cas r = no_cas
             else if cmd \<in> {CMD_GET, CMD_GETQ} then r_keylen r = 0 \<and> r_extlen r = 4 \<and> r_cas r \<noteq> no_cas
             else if cmd \<in> {CMD_GETK, CMD_GETKQ} then r_keylen r \<noteq> 0 \<and> r_extlen r = 4 \<and> r_cas r \<noteq> no_cas
             else True)
        else r_cas r = no_cas \<and> r_extlen r = 0 \<and> (cmd \<noteq> CMD_GETK \<and> cmd \<noteq> CMD_GATK \<longrightarrow> r_keylen r = 0))"

text \<open>A response is read and checked; a request is sent before.\<close>

definition expect :: "'p network \<Rightarrow> int \<Rightarrow> nat \<Rightarrow> 'p client \<Rightarrow> (response \<times> 'p client) option" where
  "expect net cmd status cl = do {
     (r, cl) \<leftarrow> safe_recv_packet net BUFSZ cl;
     if validate_response_header r cmd status then Some (r, cl) else None }"

definition ask :: "'p network \<Rightarrow> string option \<Rightarrow> int \<Rightarrow> nat \<Rightarrow> 'p client \<Rightarrow> 'p client option" where
  "ask net request cmd status cl = do {
     send \<leftarrow> request;
     (r, cl) \<leftarrow> expect net cmd status (safe_send send cl);
     Some cl }"

fun for_each :: "'i list \<Rightarrow> ('i \<Rightarrow> 'c \<Rightarrow> 'c option) \<Rightarrow> 'c \<Rightarrow> 'c option" where
  "for_each [] body s = Some s"
| "for_each (i # is) body s = Option.bind (body i s) (for_each is body)"

section \<open>The tests\<close>

definition test_binary_noop :: "'p network \<Rightarrow> 'p client \<Rightarrow> (test_return \<times> 'p client) option" where
  "test_binary_noop net cl = do {
     cl \<leftarrow> ask net (raw_command BUFSZ CMD_NOOP [] []) CMD_NOOP 0 cl;
     Some (TEST_PASS, cl) }"

definition test_binary_quit_impl :: "int \<Rightarrow> 'p network \<Rightarrow> 'p client \<Rightarrow> (test_return \<times> 'p client) option" where
  "test_binary_quit_impl cmd net cl = do {
     send \<leftarrow> raw_command BUFSZ cmd [] [];
     let cl = safe_send send cl;
     cl \<leftarrow> (if cmd = CMD_QUIT then map_option snd (expect net CMD_QUIT 0 cl) else Some cl);
     (bs, cl) \<leftarrow> client_read net BUFSZ cl;
     if bs = [] then Some (TEST_PASS, reconnect net cl) else None }"

text \<open>The number of the response is put into the request as it lies in memory; \<open>zero_response\<close> is never used.\<close>

definition put_cas :: "string \<Rightarrow> string \<Rightarrow> string" where
  "put_cas cas request = take 16 request @ cas @ drop 24 request"

definition put_opaque :: "u32 \<Rightarrow> string \<Rightarrow> string" where
  "put_opaque opaque request = take 12 request @ le32 opaque @ drop 16 request"

definition zero_response :: response where
  "zero_response = parse_response (replicate 24 (CHR 0x00))"

definition test_binary_set_impl :: "string \<Rightarrow> int \<Rightarrow> 'p network \<Rightarrow> 'p client \<Rightarrow> (test_return \<times> 'p client) option" where
  "test_binary_set_impl key cmd net cl = do {
     send \<leftarrow> storage_command BUFSZ cmd key test_value 0 0;
     (receive, cl) \<leftarrow> for_each [0..<10] (\<lambda>ii (receive, cl). let cl = safe_send send cl in
       if cmd = CMD_SET then expect net cmd 0 cl else Some (receive, cl)) (zero_response, cl);
     if cmd = CMD_SETQ then test_binary_noop net cl
     else do {
       let send = put_cas (r_cas receive) send;
       let cl = safe_send send cl;
       if cmd = CMD_SET then do {
         (again, cl) \<leftarrow> expect net cmd 0 cl;
         if r_cas again = r_cas receive then None else Some (TEST_PASS, cl) }
       else test_binary_noop net cl } }"

definition test_binary_add_impl :: "string \<Rightarrow> int \<Rightarrow> 'p network \<Rightarrow> 'p client \<Rightarrow> (test_return \<times> 'p client) option" where
  "test_binary_add_impl key cmd net cl = do {
     send \<leftarrow> storage_command BUFSZ cmd key test_value 0 0;
     cl \<leftarrow> for_each [0..<10] (\<lambda>ii cl. let cl = safe_send send cl in
       if ii = (0 :: nat) then (if cmd = CMD_ADD then map_option snd (expect net cmd 0 cl) else Some cl)
       else map_option snd (expect net cmd RESPONSE_KEY_EEXISTS cl)) cl;
     Some (TEST_PASS, cl) }"

definition test_binary_replace_impl :: "string \<Rightarrow> int \<Rightarrow> 'p network \<Rightarrow> 'p client \<Rightarrow> (test_return \<times> 'p client) option" where
  "test_binary_replace_impl key cmd net cl = do {
     cl \<leftarrow> ask net (storage_command BUFSZ cmd key test_value 0 0) cmd RESPONSE_KEY_ENOENT cl;
     cl \<leftarrow> ask net (storage_command BUFSZ CMD_ADD key test_value 0 0) CMD_ADD 0 cl;
     send \<leftarrow> storage_command BUFSZ cmd key test_value 0 0;
     cl \<leftarrow> for_each [0..<10] (\<lambda>ii cl. let cl = safe_send send cl in
       if cmd = CMD_REPLACE then map_option snd (expect net CMD_REPLACE 0 cl) else Some cl) cl;
     cl \<leftarrow> (if cmd = CMD_REPLACEQ then map_option snd (test_binary_noop net cl) else Some cl);
     Some (TEST_PASS, cl) }"

definition test_binary_delete_impl :: "string \<Rightarrow> int \<Rightarrow> 'p network \<Rightarrow> 'p client \<Rightarrow> (test_return \<times> 'p client) option" where
  "test_binary_delete_impl key cmd net cl = do {
     cl \<leftarrow> ask net (raw_command BUFSZ cmd key []) cmd RESPONSE_KEY_ENOENT cl;
     cl \<leftarrow> ask net (storage_command BUFSZ CMD_ADD key [] 0 0) CMD_ADD 0 cl;
     send \<leftarrow> raw_command BUFSZ cmd key [];
     let cl = safe_send send cl;
     cl \<leftarrow> (if cmd = CMD_DELETE then map_option snd (expect net CMD_DELETE 0 cl) else Some cl);
     cl \<leftarrow> map_option snd (expect net cmd RESPONSE_KEY_ENOENT (safe_send send cl));
     Some (TEST_PASS, cl) }"

text \<open>The ten requests that are sent at once have to fit into the buffer.\<close>

definition test_binary_get_impl :: "string \<Rightarrow> int \<Rightarrow> 'p network \<Rightarrow> 'p client \<Rightarrow> (test_return \<times> 'p client) option" where
  "test_binary_get_impl key cmd net cl = do {
     cl \<leftarrow> ask net (raw_command BUFSZ cmd key []) cmd RESPONSE_KEY_ENOENT cl;
     cl \<leftarrow> ask net (storage_command BUFSZ CMD_ADD key [] 0 0) CMD_ADD 0 cl;
     temp \<leftarrow> raw_command BUFSZ cmd key [];
     let send = concat (replicate 10 temp);
     if BUFSZ < length send then None
     else do {
       cl \<leftarrow> for_each [0..<10] (\<lambda>ii cl. map_option snd (expect net cmd 0 cl)) (safe_send send cl);
       Some (TEST_PASS, cl) } }"

definition test_binary_getq_impl :: "string \<Rightarrow> int \<Rightarrow> 'p network \<Rightarrow> 'p client \<Rightarrow> (test_return \<times> 'p client) option" where
  "test_binary_getq_impl key cmd net cl = do {
     add \<leftarrow> storage_command BUFSZ CMD_ADD key [] 0 0;
     missing \<leftarrow> raw_command BUFSZ cmd ''test_binary_getq_missing'' [];
     get \<leftarrow> raw_command BUFSZ cmd key [];
     let send = add @ put_opaque 0xfeedface missing @ get;
     if BUFSZ < length send then None
     else do {
       (r, cl) \<leftarrow> expect net CMD_ADD 0 (safe_send send cl);
       (r, cl) \<leftarrow> expect net cmd 0 cl;
       Some (TEST_PASS, cl) } }"

text \<open>The counter of a response.\<close>

definition expect_counter :: "'p network \<Rightarrow> int \<Rightarrow> nat \<Rightarrow> 'p client \<Rightarrow> 'p client option" where
  "expect_counter net cmd v cl = do {
     (r, cl) \<leftarrow> expect net cmd 0 cl;
     if be_val (take 8 (r_body r)) = v then Some cl else None }"

definition test_binary_incr_impl :: "string \<Rightarrow> int \<Rightarrow> 'p network \<Rightarrow> 'p client \<Rightarrow> (test_return \<times> 'p client) option" where
  "test_binary_incr_impl key cmd net cl = do {
     send \<leftarrow> arithmetic_command BUFSZ cmd key 1 0 0;
     cl \<leftarrow> for_each [0..<10] (\<lambda>ii cl. let cl = safe_send send cl in
       if cmd = CMD_INCREMENT then expect_counter net cmd ii cl else Some cl) cl;
     cl \<leftarrow> (if cmd = CMD_INCREMENTQ then map_option snd (test_binary_noop net cl) else Some cl);
     Some (TEST_PASS, cl) }"

definition test_binary_decr_impl :: "string \<Rightarrow> int \<Rightarrow> 'p network \<Rightarrow> 'p client \<Rightarrow> (test_return \<times> 'p client) option" where
  "test_binary_decr_impl key cmd net cl = do {
     send \<leftarrow> arithmetic_command BUFSZ cmd key 1 9 0;
     cl \<leftarrow> for_each (rev [0..<10]) (\<lambda>ii cl. let cl = safe_send send cl in
       if cmd = CMD_DECREMENT then expect_counter net cmd ii cl else Some cl) cl;
     let cl = safe_send send cl;
     cl \<leftarrow> (if cmd = CMD_DECREMENT then expect_counter net cmd 0 cl else map_option snd (test_binary_noop net cl));
     Some (TEST_PASS, cl) }"

definition test_binary_version :: "'p network \<Rightarrow> 'p client \<Rightarrow> (test_return \<times> 'p client) option" where
  "test_binary_version net cl = do {
     cl \<leftarrow> ask net (raw_command BUFSZ CMD_VERSION [] []) CMD_VERSION 0 cl;
     Some (TEST_PASS, cl) }"

definition test_binary_flush_impl :: "string \<Rightarrow> int \<Rightarrow> 'p network \<Rightarrow> 'p client \<Rightarrow> (test_return \<times> 'p client) option" where
  "test_binary_flush_impl key cmd net cl = do {
     let add = storage_command BUFSZ CMD_ADD key [] 0 0;
     let get = raw_command BUFSZ CMD_GET key [];
     let flush = (\<lambda>request cl. do {
       send \<leftarrow> request;
       let cl = safe_send send cl;
       if cmd = CMD_FLUSH then map_option snd (expect net cmd 0 cl) else Some cl });
     cl \<leftarrow> ask net add CMD_ADD 0 cl;
     cl \<leftarrow> flush (flush_command BUFSZ cmd 2 True) cl;
     cl \<leftarrow> ask net get CMD_GET 0 cl;
     let cl = cl\<lparr>cl_peer := sleep net 2 (cl_peer cl)\<rparr>;
     cl \<leftarrow> ask net get CMD_GET RESPONSE_KEY_ENOENT cl;
     cl \<leftarrow> for_each [0..<2] (\<lambda>ii cl. do {
       cl \<leftarrow> ask net add CMD_ADD 0 cl;
       cl \<leftarrow> flush (flush_command BUFSZ cmd 0 (ii = (0 :: nat))) cl;
       ask net get CMD_GET RESPONSE_KEY_ENOENT cl }) cl;
     Some (TEST_PASS, cl) }"

definition test_binary_concat_impl :: "string \<Rightarrow> int \<Rightarrow> 'p network \<Rightarrow> 'p client \<Rightarrow> (test_return \<times> 'p client) option" where
  "test_binary_concat_impl key cmd net cl = do {
     let val = ''world'';
     cl \<leftarrow> ask net (raw_command BUFSZ cmd key val) cmd RESPONSE_NOT_STORED cl;
     cl \<leftarrow> ask net (storage_command BUFSZ CMD_ADD key val 0 0) CMD_ADD 0 cl;
     send \<leftarrow> raw_command BUFSZ cmd key val;
     let cl = safe_send send cl;
     cl \<leftarrow> (if cmd = CMD_APPEND \<or> cmd = CMD_PREPEND then map_option snd (expect net cmd 0 cl)
           else ask net (raw_command BUFSZ CMD_NOOP [] []) CMD_NOOP 0 cl);
     getk \<leftarrow> raw_command BUFSZ CMD_GETK key [];
     (r, cl) \<leftarrow> expect net CMD_GETK 0 (safe_send getk cl);
     if r_keylen r = length key \<and> r_bodylen r = length key + 2 * length val + 4
        \<and> take (length key + 2 * length val) (drop 4 (r_body r)) = key @ val @ val
     then Some (TEST_PASS, cl) else None }"

partial_function (option) stat_loop :: "'p network \<Rightarrow> 'p client \<Rightarrow> 'p client option" where
  "stat_loop net cl = Option.bind (expect net CMD_STAT 0 cl) (\<lambda>(r, cl).
     if r_keylen r \<noteq> 0 then stat_loop net cl else Some cl)"

definition test_binary_stat :: "'p network \<Rightarrow> 'p client \<Rightarrow> (test_return \<times> 'p client) option" where
  "test_binary_stat net cl = do {
     send \<leftarrow> raw_command BUFSZ CMD_STAT [] [];
     cl \<leftarrow> stat_loop net (safe_send send cl);
     Some (TEST_PASS, cl) }"

function illegal_loop :: "u8 \<Rightarrow> 'p network \<Rightarrow> 'p client \<Rightarrow> 'p client option" where
  "illegal_loop cmd net cl = (if cmd \<noteq> 0 then do {
       cl \<leftarrow> ask net (raw_command BUFSZ (uint cmd) [] []) (uint cmd) RESPONSE_UNKNOWN_COMMAND cl;
       illegal_loop (cmd + 1) net cl }
     else Some cl)"
  by pat_completeness auto
termination
proof (relation "measure (\<lambda>(cmd, net, cl). unat (- cmd))")
  fix cmd :: u8 assume c: "cmd \<noteq> 0"
  have "- cmd - 1 = - (cmd + 1)" by simp
  then show "((cmd + 1, net, z), cmd, net, cl) \<in> measure (\<lambda>(cmd, net, cl). unat (- cmd))" for net :: "'b network" and z cl
    using c unat_minus_one [of "- cmd"] unat_gt_0 [of "- cmd"] by simp
qed simp

declare illegal_loop.simps [simp del]

definition test_binary_illegal :: "'p network \<Rightarrow> 'p client \<Rightarrow> (test_return \<times> 'p client) option" where
  "test_binary_illegal net cl = do {
     cl \<leftarrow> illegal_loop 0x25 net cl;
     Some (TEST_PASS, cl) }"

text \<open>
  A request of the pipeline test: the command and the key come from a random generator, the key with at most 250
  bytes. Requests are put into the buffer as long as they fit; the end of the list is the end of the other thread.
\<close>

definition hickup_command :: "int \<Rightarrow> string \<Rightarrow> string option" where
  "hickup_command cmd key = (let bufsz = 65 * 1024; val = rev (be64 0xfeedfacedeadbeef) in
     if cmd \<in> {CMD_ADD, CMD_ADDQ, CMD_REPLACE, CMD_REPLACEQ, CMD_SET, CMD_SETQ} then storage_command bufsz cmd key val 0 0
     else if cmd \<in> {CMD_APPEND, CMD_APPENDQ, CMD_PREPEND, CMD_PREPENDQ} then raw_command bufsz cmd key val
     else if cmd \<in> {CMD_FLUSH, CMD_FLUSHQ, CMD_NOOP, CMD_VERSION, CMD_STAT} then raw_command bufsz cmd [] []
     else if cmd \<in> {CMD_DELETE, CMD_DELETEQ} then raw_command bufsz cmd key []
     else if cmd \<in> {CMD_DECREMENT, CMD_DECREMENTQ, CMD_INCREMENT, CMD_INCREMENTQ} then arithmetic_command bufsz cmd key 1 0 0
     else if cmd \<in> {CMD_GET, CMD_GETK, CMD_GETKQ, CMD_GETQ} then raw_command bufsz cmd key []
     else if cmd \<in> {CMD_TOUCH, CMD_GAT, CMD_GATQ, CMD_GATK, CMD_GATKQ} then touch_command bufsz cmd key 10
     else if cmd \<in> {CMD_SASL_LIST_MECHS, CMD_SASL_AUTH, CMD_SASL_STEP, CMD_QUITQ, CMD_QUIT}
     then raw_command bufsz (Bit_Operations.or cmd 0xf0) [] []
     else raw_command bufsz cmd [] [])"

fun hickup_chunk :: "nat \<Rightarrow> (int \<times> string) list \<Rightarrow> string \<Rightarrow> string option" where
  "hickup_chunk buffersize [] buffer = Some buffer"
| "hickup_chunk buffersize ((cmd, key) # rolls) buffer =
     (if length buffer + HEADER_LEN < buffersize then do {
        command \<leftarrow> hickup_command cmd key;
        if length command + length buffer < buffersize then hickup_chunk buffersize rolls (buffer @ command)
        else Some buffer }
      else Some buffer)"

section \<open>What the server reads is what the client wrote\<close>

lemma of_char_byte [simp]: "of_char (byte n) = n mod 256"
  by (simp add: byte_def)

lemma be_val_simps: "be_val [] = 0" "be_val (xs @ [b]) = be_val xs * 256 + of_char b"
  by (simp_all add: be_val_def)

lemma digits_join: "(n div b mod k) * b + n mod b = n mod (b * k)" for n b k :: nat
  by (metis mod_mult2_eq add.commute mult.commute)

lemma be_val_byte: "be_val [byte n] = n mod 256"
  by (simp add: be_val_def)

lemma be_val_be16 [simp]: "be_val (be16 n) = n mod 2 ^ 16"
  using digits_join [of n 256 256] by (simp add: be_val_def be16_def)

lemma be_val_be32 [simp]: "be_val (be32 n) = n mod 2 ^ 32"
proof -
  have "be_val (be32 n) = ((n div 2 ^ 24 mod 256 * 256 + n div 2 ^ 16 mod 256) * 256 + n div 2 ^ 8 mod 256) * 256 + n mod 256"
    by (simp add: be_val_def be32_def)
  also have "n div 2 ^ 24 mod 256 * 256 + n div 2 ^ 16 mod 256 = n div 2 ^ 16 mod 2 ^ 16"
    using digits_join [of "n div 2 ^ 16" 256 256] by (simp add: div_mult2_eq [symmetric])
  also have "n div 2 ^ 16 mod 2 ^ 16 * 256 + n div 2 ^ 8 mod 256 = n div 2 ^ 8 mod 2 ^ 24"
    using digits_join [of "n div 2 ^ 8" 256 "2 ^ 16"] by (simp add: div_mult2_eq [symmetric])
  also have "n div 2 ^ 8 mod 2 ^ 24 * 256 + n mod 256 = n mod 2 ^ 32"
    using digits_join [of n 256 "2 ^ 24"] by simp
  finally show ?thesis .
qed

lemma be_lengths [simp]: "length (be16 n) = 2" "length (be32 n) = 4" "length (be64 n) = 8" "length (le32 w) = 4"
  by (simp_all add: be16_def be32_def be64_def le32_def)

lemma request_header_length [simp]: "length (request_header cmd kl el bl) = HEADER_LEN"
  by (simp add: request_header_def HEADER_LEN_def)

lemma be_val_be64 [simp]: "be_val (be64 n) = n mod 2 ^ 64"
proof -
  have app: "be_val (xs @ ys) = be_val xs * 256 ^ length ys + be_val ys" for xs ys
  proof (induction ys rule: rev_induct)
    case (snoc y ys)
    have "be_val (xs @ ys @ [y]) = be_val (xs @ ys) * 256 + of_char y"
      using be_val_simps(2) [of "xs @ ys" y] by simp
    then show ?case using snoc by (simp add: be_val_simps algebra_simps)
  qed (simp add: be_val_simps)
  have "be_val (be64 n) = n div 2 ^ 32 mod 2 ^ 32 * 2 ^ 32 + n mod 2 ^ 32 mod 2 ^ 32"
    unfolding be64_def app by simp
  also have "\<dots> = n mod 2 ^ 64" using digits_join [of n "2 ^ 32" "2 ^ 32"] by simp
  finally show ?thesis .
qed

lemma decode_request:
  assumes "0 \<le> cmd" "cmd < 256" "kl < 2 ^ 16" "el < 256" "bl < 2 ^ 32"
  shows "decode_header (request_header cmd kl el bl) =
    \<lparr>bh_magic = 0x80, bh_opcode = word_of_int cmd, bh_keylen = of_nat kl, bh_extlen = of_nat el, bh_datatype = 0,
     bh_reserved = 0, bh_bodylen = of_nat bl, bh_opaque = OPAQUE, bh_cas = 0\<rparr>"
proof -
  let ?h = "request_header cmd kl el bl"
  have parts: "take 1 (drop 0 ?h) = [byte PROTOCOL_BINARY_REQ]" "take 1 (drop 1 ?h) = [byte (nat cmd)]"
    "take 2 (drop 2 ?h) = be16 kl" "take 1 (drop 4 ?h) = [byte el]" "take 1 (drop 5 ?h) = [byte 0]"
    "take 2 (drop 6 ?h) = be16 0" "take 4 (drop 8 ?h) = be32 bl" "take 4 (drop 12 ?h) = le32 OPAQUE"
    "take 8 (drop 16 ?h) = be64 0"
    by (simp_all add: request_header_def drop_Cons')
  have "rev (be16 0) = be16 0" by (simp add: be16_def byte_def)
  moreover have "rev (le32 OPAQUE) = be32 (unat OPAQUE)" by (simp add: le32_def)
  moreover have "of_nat (nat cmd) = (word_of_int cmd :: u8)" using assms(1) by simp
  ultimately show ?thesis using assms
    by (simp add: decode_header_def Let_def parts [unfolded One_nat_def drop_0] be_val_byte PROTOCOL_BINARY_REQ_def)
qed

text \<open>A request as the server takes it apart: the fields of its header, and the extras, the key and the value.\<close>

definition request_says :: "string \<Rightarrow> int \<Rightarrow> string \<Rightarrow> string \<Rightarrow> string \<Rightarrow> bool" where
  "request_says req cmd extras key val \<longleftrightarrow> (let h = decode_header (take HEADER_LEN req) in
     unat (bh_magic h) = PROTOCOL_BINARY_REQ \<and> uint (bh_opcode h) = cmd \<and> unat (bh_extlen h) = length extras
     \<and> unat (bh_keylen h) = length key \<and> unat (bh_bodylen h) = length extras + length key + length val
     \<and> bh_opaque h = OPAQUE \<and> bh_cas h = 0 \<and> drop HEADER_LEN req = extras @ key @ val)"

lemma request_says_header:
  assumes "0 \<le> cmd" "cmd < 256" "length key < 2 ^ 16" "length extras < 256" "length extras + length key + length val < 2 ^ 32"
    and "kl = length key" "el = length extras" "bl = length extras + length key + length val"
  shows "request_says (request_header cmd kl el bl @ extras @ key @ val) cmd extras key val"
proof -
  have "take HEADER_LEN (request_header cmd kl el bl @ extras @ key @ val) = request_header cmd kl el bl"
    "drop HEADER_LEN (request_header cmd kl el bl @ extras @ key @ val) = extras @ key @ val" by simp_all
  moreover have "unat (of_nat bl :: u32) = bl" using assms by (simp add: unat_of_nat del: of_nat_add)
  ultimately show ?thesis using assms
    by (simp add: request_says_def decode_request PROTOCOL_BINARY_REQ_def unat_of_nat uint_word_of_int del: of_nat_add)
qed

lemma storage_says:
  assumes "0 \<le> cmd" "cmd < 256" "bufsz \<le> 2 ^ 16" "storage_command bufsz cmd key dta flags exptime = Some req"
  shows "request_says req cmd (le32 flags @ le32 exptime) key dta"
proof -
  have "req = request_header cmd (length key) 8 (length key + 8 + length dta) @ (le32 flags @ le32 exptime) @ key @ dta"
    using assms(4) by (auto simp: storage_command_def split: if_splits)
  then show ?thesis using assms
    by (simp only:, intro request_says_header) (auto simp: storage_command_def split: if_splits)
qed

lemma raw_says:
  assumes "0 \<le> cmd" "cmd < 256" "bufsz \<le> 2 ^ 16" "raw_command bufsz cmd key dta = Some req"
  shows "request_says req cmd [] key dta"
proof -
  have "req = request_header cmd (length key) 0 (length key + length dta) @ [] @ key @ dta"
    using assms(4) by (auto simp: raw_command_def split: if_splits)
  then show ?thesis using assms
    by (simp only:, intro request_says_header) (auto simp: raw_command_def split: if_splits)
qed

lemma flush_says:
  assumes "0 \<le> cmd" "cmd < 256" "flush_command bufsz cmd when extra = Some req"
  shows "request_says req cmd (if extra then be32 when else []) [] []"
proof -
  let ?e = "if extra then be32 when else []"
  have "req = request_header cmd 0 (length ?e) (length ?e) @ ?e @ [] @ []"
    using assms(3) by (auto simp: flush_command_def split: if_splits)
  then show ?thesis using assms by (simp only:, intro request_says_header) auto
qed

lemma touch_says:
  assumes "0 \<le> cmd" "cmd < 256" "length key < 2 ^ 16" "touch_command bufsz cmd key when = Some req"
  shows "request_says req cmd (be32 when) key []"
proof -
  have "req = request_header cmd (length key) 4 (length key + 4) @ be32 when @ key @ []"
    using assms(4) by (auto simp: touch_command_def split: if_splits)
  then show ?thesis using assms by (simp only:, intro request_says_header) auto
qed

lemma arithmetic_says:
  assumes "0 \<le> cmd" "cmd < 256" "bufsz \<le> 2 ^ 16" "arithmetic_command bufsz cmd key delta initial when = Some req"
  shows "request_says req cmd (be64 delta @ be64 initial @ be32 when) key []"
proof -
  have "req = request_header cmd (length key) 20 (length key + 20) @ (be64 delta @ be64 initial @ be32 when) @ key @ []"
    using assms(4) by (auto simp: arithmetic_command_def split: if_splits)
  then show ?thesis using assms
    by (simp only:, intro request_says_header) (auto simp: arithmetic_command_def split: if_splits)
qed

text \<open>Property C20.
  Client and server agree on requests: every request that the client builds for a buffer of at most 64 KB is taken
  apart by the decoder of the server into the command, the extras, the key and the value that it was built from, with
  the opaque number of the tests and no cas.\<close>

theorem requests_understood:
  assumes "0 \<le> cmd" "cmd < 256" "bufsz \<le> 2 ^ 16" "length key < 2 ^ 16"
  shows "(storage_command bufsz cmd key dta flags exptime = Some req
      \<longrightarrow> request_says req cmd (le32 flags @ le32 exptime) key dta)
    \<and> (raw_command bufsz cmd key dta = Some req \<longrightarrow> request_says req cmd [] key dta)
    \<and> (flush_command bufsz cmd when extra = Some req \<longrightarrow> request_says req cmd (if extra then be32 when else []) [] [])
    \<and> (touch_command bufsz cmd key when = Some req \<longrightarrow> request_says req cmd (be32 when) key [])
    \<and> (arithmetic_command bufsz cmd key delta initial when = Some req
      \<longrightarrow> request_says req cmd (be64 delta @ be64 initial @ be32 when) key [])"
  by (intro conjI impI) (rule storage_says raw_says flush_says touch_says arithmetic_says assms; assumption?)+

theorem requests_understood_witness:
  "request_says (request_header 1 3 8 16 @ le32 7 @ le32 0 @ ''foo'' @ ''value'') 1 (le32 7 @ le32 0) ''foo'' ''value''"
proof -
  have "storage_command 1024 1 ''foo'' ''value'' 7 0 = Some (request_header 1 3 8 16 @ le32 7 @ le32 0 @ ''foo'' @ ''value'')"
    by (simp add: storage_command_def eval_nat_numeral)
  then show ?thesis using requests_understood [of 1 1024 "''foo''" "''value''" 7 0] by simp
qed

section \<open>What the client reads is what was sent\<close>

lemma parse_answer:
  assumes "op < 256" "kl < 2 ^ 16" "el < 256" "st < 2 ^ 16" "bl < 2 ^ 32"
  shows "parse_response (res_header op kl el st bl oq cas) =
    \<lparr>r_magic = PROTOCOL_BINARY_RES, r_opcode = op, r_keylen = kl, r_extlen = el, r_datatype = 0, r_status = st,
     r_bodylen = bl, r_opaque = unat oq, r_cas = be64 (unat cas), r_body = []\<rparr>"
proof -
  let ?h = "res_header op kl el st bl oq cas"
  have parts: "take 1 (drop 0 ?h) = [byte PROTOCOL_BINARY_RES]" "take 1 (drop 1 ?h) = [byte op]"
    "take 2 (drop 2 ?h) = be16 kl" "take 1 (drop 4 ?h) = [byte el]" "take 1 (drop 5 ?h) = [byte 0]"
    "take 2 (drop 6 ?h) = be16 st" "take 4 (drop 8 ?h) = be32 bl" "take 4 (drop 12 ?h) = le32 oq"
    "take 8 (drop 16 ?h) = be64 (unat cas)"
    by (simp_all add: res_header_def drop_Cons')
  have "be_val (rev (le32 oq)) = unat oq" using unsigned_less [of oq] by (simp add: le32_def)
  then show ?thesis using assms
    by (simp add: parse_response_def Let_def parts [unfolded One_nat_def drop_0] be_val_byte PROTOCOL_BINARY_RES_def)
qed

text \<open>A client whose server is about to answer, or has answered.\<close>

lemma moved_fields:
  "moved n cl = (k, cl') \<Longrightarrow> k \<le> n \<and> (0 < n \<longrightarrow> 0 < k) \<and> cl_peer cl' = cl_peer cl \<and> cl_out cl' = cl_out cl \<and> cl_in cl' = cl_in cl"
  by (auto simp: moved_def)

lemma safe_send_out:
  "cl_out (safe_send buf cl) = cl_out cl @ buf \<and> cl_in (safe_send buf cl) = cl_in cl \<and> cl_peer (safe_send buf cl) = cl_peer cl"
proof (induction buf cl rule: safe_send.induct)
  case (1 buf cl)
  obtain nw cl1 where m: "moved (length buf) cl = (nw, cl1)" by (cases "moved (length buf) cl") auto
  note f = moved_fields [OF m]
  let ?cl = "cl1\<lparr>cl_out := cl_out cl1 @ take nw buf\<rparr>"
  show ?case
  proof (cases "nw < length buf")
    case True
    with 1 [OF m [symmetric] refl True] f m show ?thesis by (subst (1 2 3) safe_send.simps) simp
  next
    case False
    with m f show ?thesis by (subst (1 2 3) safe_send.simps) simp
  qed
qed

lemma exchange_in: "cl_out cl = [] \<Longrightarrow> exchange net cl = Some cl"
  by (simp add: exchange_def)

text \<open>However the kernel cuts the stream, as many bytes are collected as were asked for.\<close>

lemma recv_loop_in:
  assumes "cl_out cl = []" "0 < n" "n \<le> length (cl_in cl)"
  shows "\<exists>cl'. recv_loop net n cl = Some (take n (cl_in cl), cl') \<and> cl_in cl' = drop n (cl_in cl) \<and> cl_out cl' = []
    \<and> cl_peer cl' = cl_peer cl"
  using assms
proof (induction n arbitrary: cl rule: less_induct)
  case (less n)
  obtain nr cl1 where m: "moved (min n (length (cl_in cl))) cl = (nr, cl1)"
    by (cases "moved (min n (length (cl_in cl))) cl") auto
  note f = moved_fields [OF m]
  have nr: "0 < nr" "nr \<le> n" using f less.prems by auto
  let ?cl = "cl1\<lparr>cl_in := drop nr (cl_in cl1)\<rparr>"
  have r: "client_read net n cl = Some (take nr (cl_in cl), ?cl)"
    using less.prems m f by (auto simp: client_read_def exchange_in)
  have ne: "take nr (cl_in cl) \<noteq> []" "length (take nr (cl_in cl)) = nr" using nr less.prems by auto
  show ?case
  proof (cases "nr < n")
    case True
    obtain cl' where "recv_loop net (n - nr) ?cl = Some (take (n - nr) (cl_in ?cl), cl')" "cl_in cl' = drop (n - nr) (cl_in ?cl)"
      "cl_out cl' = []" "cl_peer cl' = cl_peer ?cl"
      using less.IH [of "n - nr" ?cl] diff_le_mono [OF less.prems(3), of nr] True nr f less.prems by auto
    moreover have "take nr (cl_in cl) @ take (n - nr) (drop nr (cl_in cl)) = take n (cl_in cl)"
      using nr(2) by (metis le_add_diff_inverse take_add)
    ultimately show ?thesis using r ne True f nr by (subst recv_loop.simps) simp
  next
    case False
    then have "nr = n" using nr by simp
    with r ne f less.prems show ?thesis by (subst recv_loop.simps) simp
  qed
qed

lemma recv_in:
  assumes "cl_out cl = []" "n \<le> length (cl_in cl)"
  shows "\<exists>cl'. safe_recv net n cl = Some (take n (cl_in cl), cl') \<and> cl_in cl' = drop n (cl_in cl) \<and> cl_out cl' = []
    \<and> cl_peer cl' = cl_peer cl"
  using recv_loop_in [of cl n net] assms by (cases "n = 0") (auto simp: safe_recv_def)

text \<open>The first read makes the server answer.\<close>

lemma recv_serves:
  assumes "exchange net cl = Some cl1" "cl_out cl1 = []" "0 < n"
  shows "safe_recv net n cl = safe_recv net n cl1"
proof -
  have "client_read net n cl = client_read net n cl1"
    using assms by (simp add: client_read_def exchange_in)
  then have "recv_loop net n cl = recv_loop net n cl1" by (subst (1 2) recv_loop.simps) simp
  then show ?thesis using assms(3) by (simp add: safe_recv_def)
qed

lemma packet_in:
  assumes "exchange net cl = Some cl1" "cl_out cl1 = []" "cl_in cl1 = res_header op kl el st (length body) oq cas @ body @ rest"
    and "op < 256" "kl < 2 ^ 16" "el < 256" "st < 2 ^ 16" "HEADER_LEN < bufsz" "HEADER_LEN + length body \<le> bufsz" "length body < 2 ^ 32"
  shows "\<exists>cl'. safe_recv_packet net bufsz cl = Some (\<lparr>r_magic = PROTOCOL_BINARY_RES, r_opcode = op, r_keylen = kl,
      r_extlen = el, r_datatype = 0, r_status = st, r_bodylen = length body, r_opaque = unat oq, r_cas = be64 (unat cas),
      r_body = body\<rparr>, cl') \<and> cl_in cl' = rest \<and> cl_out cl' = [] \<and> cl_peer cl' = cl_peer cl1"
proof -
  let ?h = "res_header op kl el st (length body) oq cas"
  obtain cl2 where h: "safe_recv net HEADER_LEN cl1 = Some (?h, cl2)" "cl_in cl2 = body @ rest" "cl_out cl2 = []"
    "cl_peer cl2 = cl_peer cl1"
    using recv_in [of cl1 HEADER_LEN net] assms(2,3) by (auto simp: HEADER_LEN_def res_header_length)
  obtain cl3 where b: "safe_recv net (length body) cl2 = Some (body, cl3)" "cl_in cl3 = rest" "cl_out cl3 = []"
    "cl_peer cl3 = cl_peer cl1"
    using recv_in [of cl2 "length body" net] h by auto
  have "safe_recv net HEADER_LEN cl = Some (?h, cl2)"
    using recv_serves [OF assms(1,2)] h(1) by (simp add: HEADER_LEN_def)
  then show ?thesis using b parse_answer [OF assms(4-7,10)] assms(8,9)
    by (simp add: safe_recv_packet_def)
qed

text \<open>The tests of the table of \<open>main\<close> that talk to the server, with the keys they use.\<close>

definition binary_testcases :: "(string \<times> ('p network \<Rightarrow> 'p client \<Rightarrow> (test_return \<times> 'p client) option)) list" where
  "binary_testcases = [
     (''binary_noop'', test_binary_noop),
     (''binary_quit'', test_binary_quit_impl CMD_QUIT),
     (''binary_quitq'', test_binary_quit_impl CMD_QUITQ),
     (''binary_set'', test_binary_set_impl ''test_binary_set'' CMD_SET),
     (''binary_setq'', test_binary_set_impl ''test_binary_setq'' CMD_SETQ),
     (''binary_add'', test_binary_add_impl ''test_binary_add'' CMD_ADD),
     (''binary_addq'', test_binary_add_impl ''test_binary_addq'' CMD_ADDQ),
     (''binary_replace'', test_binary_replace_impl ''test_binary_replace'' CMD_REPLACE),
     (''binary_replaceq'', test_binary_replace_impl ''test_binary_replaceq'' CMD_REPLACEQ),
     (''binary_delete'', test_binary_delete_impl ''test_binary_delete'' CMD_DELETE),
     (''binary_deleteq'', test_binary_delete_impl ''test_binary_deleteq'' CMD_DELETEQ),
     (''binary_get'', test_binary_get_impl ''test_binary_get'' CMD_GET),
     (''binary_getq'', test_binary_getq_impl ''test_binary_getq'' CMD_GETQ),
     (''binary_getk'', test_binary_get_impl ''test_binary_getk'' CMD_GETK),
     (''binary_getkq'', test_binary_getq_impl ''test_binary_getkq'' CMD_GETKQ),
     (''binary_incr'', test_binary_incr_impl ''test_binary_incr'' CMD_INCREMENT),
     (''binary_incrq'', test_binary_incr_impl ''test_binary_incrq'' CMD_INCREMENTQ),
     (''binary_decr'', test_binary_decr_impl ''test_binary_decr'' CMD_DECREMENT),
     (''binary_decrq'', test_binary_decr_impl ''test_binary_decrq'' CMD_DECREMENTQ),
     (''binary_version'', test_binary_version),
     (''binary_flush'', test_binary_flush_impl ''test_binary_flush'' CMD_FLUSH),
     (''binary_flushq'', test_binary_flush_impl ''test_binary_flushq'' CMD_FLUSHQ),
     (''binary_append'', test_binary_concat_impl ''test_binary_append'' CMD_APPEND),
     (''binary_appendq'', test_binary_concat_impl ''test_binary_appendq'' CMD_APPENDQ),
     (''binary_prepend'', test_binary_concat_impl ''test_binary_prepend'' CMD_PREPEND),
     (''binary_prependq'', test_binary_concat_impl ''test_binary_prependq'' CMD_PREPENDQ),
     (''binary_stat'', test_binary_stat),
     (''binary_illegal'', test_binary_illegal)]"

end
