(* ===== verification/Client_Server.thy ===== *)
theory Client_Server
  imports Delivery Test_Client
begin

text \<open>
  The tests of the binary protocol against the model of the server: a request without key and value goes through
  reading, dispatch, the reply lists and the state machine, and its answer comes back to the client.
\<close>

section \<open>The server as the peer of a client\<close>

text \<open>
  The bytes have arrived when the event of the connection fires; the kernel takes every answer whole. The answer is
  what the handler of the event sends.
\<close>

definition serve_machine :: "os_info \<Rightarrow> (nat \<Rightarrow> token list \<Rightarrow> 'a machine_scheme \<Rightarrow> (u64 \<times> 'a machine_scheme) option)
    \<Rightarrow> ('a machine_scheme \<Rightarrow> (u64 \<times> 'a machine_scheme) option) \<Rightarrow> string \<Rightarrow> 'a machine_scheme
    \<Rightarrow> (string \<times> 'a machine_scheme) option" where
  "serve_machine os ramcube post bs s = do {
     s \<leftarrow> event_handler os ramcube post (cn_sfd (con s)) EV_READ
            (s\<lparr>net_in := [Arrived bs], net_out := replicate 64 (Takes (2 ^ 16)), sent := []\<rparr>);
     Some (sent s, s) }"

text \<open>A connection of a usual size that holds nothing.\<close>

definition plain_conn :: "conn \<Rightarrow> bool" where
  "plain_conn c \<longleftrightarrow> \<not> IS_UDP (cn_transport c) \<and> length (cn_wbuf c) = cn_wsize c \<and> DATA_BUFFER_SIZE \<le> cn_wsize c
     \<and> length (cn_rbuf c) = cn_rsize c \<and> DATA_BUFFER_SIZE \<le> cn_rsize c \<and> cn_rsize c \<le> READ_BUFFER_HIGHWAT
     \<and> length (cn_iov c) = cn_iovsize c \<and> 1 < cn_iovsize c \<and> cn_iovsize c \<le> IOV_LIST_HIGHWAT
     \<and> length (cn_msglist c) = cn_msgsize c \<and> 1 < cn_msgsize c \<and> cn_msgsize c \<le> MSG_LIST_HIGHWAT
     \<and> cn_isize c \<le> ITEM_LIST_HIGHWAT \<and> cn_item c = NULL \<and> cn_ileft c = 0 \<and> cn_suffixleft c = 0
     \<and> cn_ev_flags c = EV_READ + EV_PERSIST"

definition plain_server :: "'a machine_scheme \<Rightarrow> bool" where
  "plain_server s \<longleftrightarrow> plain_conn (con s) \<and> \<not> sasl (settings s) \<and> 0 < reqs_per_event (settings s)"

text \<open>It waits for a request of the binary protocol.\<close>

definition ready :: "'a machine_scheme \<Rightarrow> bool" where
  "ready s \<longleftrightarrow> plain_server s \<and> cn_state (con s) = conn_read \<and> cn_rbytes (con s) = 0
     \<and> cn_protocol (con s) \<in> {binary_prot, negotiating_prot}"

section \<open>One request through the machine\<close>

lemma plain_connD:
  assumes "plain_conn c"
  shows "\<not> IS_UDP (cn_transport c)" "length (cn_wbuf c) = cn_wsize c" "2048 \<le> cn_wsize c"
    "length (cn_rbuf c) = cn_rsize c" "2048 \<le> cn_rsize c" "cn_rsize c \<le> 8192"
    "length (cn_iov c) = cn_iovsize c" "1 < cn_iovsize c" "cn_iovsize c \<le> 600"
    "length (cn_msglist c) = cn_msgsize c" "1 < cn_msgsize c" "cn_msgsize c \<le> 100"
    "cn_isize c \<le> 400" "cn_item c = NULL" "cn_ileft c = 0" "cn_suffixleft c = 0"
    "cn_ev_flags c = EV_READ + EV_PERSIST"
  using assms by (simp_all add: plain_conn_def conn_sizes)

text \<open>The bytes that arrived are read in one turn.\<close>

lemma read_request:
  assumes "ready s" "net_in s = [Arrived bs]" "bs \<noteq> []" "length bs < 2048"
  shows "\<exists>t. step_read s = Some (False, t) \<and> plain_server t \<and> cn_state (con t) = conn_parse_cmd
    \<and> cn_rbytes (con t) = int (length bs) \<and> cn_rcurr (con t) = 0 \<and> take (length bs) (cn_rbuf (con t)) = bs
    \<and> cn_protocol (con t) = cn_protocol (con s) \<and> net_in t = [] \<and> net_out t = net_out s \<and> sent t = sent s
    \<and> settings t = settings s"
proof -
  let ?c = "(con s)\<lparr>cn_rcurr := 0\<rparr>"
  have R: "plain_server s" "cn_state (con s) = conn_read" "cn_rbytes (con s) = 0" using assms(1) by (simp_all add: ready_def)
  then have P: "plain_conn (con s)" by (simp add: plain_server_def)
  note D = plain_connD [OF P]
  have rw: "rewind (con s) = ?c" using R(3) by (cases "con s") (simp add: rewind_def)
  let ?z = "replicate (cn_rsize ?c) (CHR 0x00) :: string"
  let ?d = "?c\<lparr>cn_rbuf := write_at 0 bs ?z, cn_rbytes := int (length bs)\<rparr>"
  let ?t = "upd_con (\<lambda>c. c\<lparr>cn_rbuf := write_at 0 bs (cn_rbuf c), cn_rbytes := int (length bs)\<rparr>)
     (count_read (length bs) (s\<lparr>con := ?c\<lparr>cn_rbuf := ?z\<rparr>, net_in := []\<rparr>))"
  obtain b bs' where b: "bs = b # bs'" using assms(3) by (cases bs) auto
  have run: "try_read_network s = Some (READ_DATA_RECEIVED, ?t)"
    unfolding try_read_network_def upd_con_def [of rewind] rw
    using assms(2,4) R(3) D(5) b
    by (subst read_loop.simps) (simp add: Let_def sock_read_def)
  have con: "con ?t = ?d" by (simp add: upd_con_def count_read_def upd_tstats_def Let_def)
  have "length (write_at 0 bs ?z) = cn_rsize (con s)" using assms(4) D(5) by (simp add: write_at_def)
  then have "plain_conn (?d\<lparr>cn_state := conn_parse_cmd\<rparr>)" using P by (simp add: plain_conn_def)
  moreover have "step_read s = Some (False, upd_con (\<lambda>c. c\<lparr>cn_state := conn_parse_cmd\<rparr>) ?t)"
    using run D(1) by (simp add: step_read_def conn_set_state_def)
  ultimately show ?thesis using R assms(2) con
    by (intro exI [of _ "upd_con (\<lambda>c. c\<lparr>cn_state := conn_parse_cmd\<rparr>) ?t"])
      (simp add: plain_server_def upd_con_def count_read_def upd_tstats_def Let_def write_at_def)
qed

text \<open>The connection after a reply of a header and a constant text has been put together.\<close>

definition reply_conn :: "string \<Rightarrow> string \<Rightarrow> conn \<Rightarrow> conn" where
  "reply_conn h text c = (let n = (if text = [] then 1 else 2);
       v0 = \<lparr>iov_base = IO_wbuf, iov_off = 0, iov_len = int HEADER_LEN\<rparr>;
       v1 = \<lparr>iov_base = IO_lit text, iov_off = 0, iov_len = int (length text)\<rparr> in
     c\<lparr>cn_msgcurr := 0, cn_msgused := 1, cn_iovused := n, cn_msgbytes := int HEADER_LEN + int (length text),
       cn_iov := (if text = [] then (cn_iov c)[0 := v0] else (cn_iov c)[0 := v0, 1 := v1]),
       cn_msglist := (cn_msglist c)[0 := \<lparr>msg_iov = 0, msg_iovlen = n, msg_namelen = cn_request_addr_size c\<rparr>],
       cn_wbuf := write_at 0 h (cn_wbuf c)\<rparr>)"

lemma header_added:
  assumes "plain_conn (con s)"
  shows "add_bin_header err 0 0 len s = Some (s\<lparr>con := reply_conn
    (res_header (unat (bh_opcode (cn_header (con s)))) 0 0 err len (cn_opaque (con s)) (cn_cas (con s))) [] (con s)\<rparr>)"
proof -
  note D = plain_connD [OF assms]
  let ?c = "(con s)\<lparr>cn_msgcurr := 0, cn_msgused := 0, cn_iovused := 0\<rparr>"
  let ?m = "zero_msghdr\<lparr>msg_namelen := cn_request_addr_size (con s)\<rparr>"
  let ?d = "?c\<lparr>cn_msglist := (cn_msglist (con s))[0 := ?m], cn_msgbytes := 0, cn_msgused := 1\<rparr>"
  have ne: "cn_msglist (con s) \<noteq> []" "cn_iov (con s) \<noteq> []" using D by auto
  have a: "add_msghdr ?c = Some (0, ?d)" using D ne
    by (simp add: add_msghdr_def add_io.simps new_msghdr_def upd_msg_def zero_msghdr_def)
  let ?h = "res_header (unat (bh_opcode (cn_header (con s)))) 0 0 err len (cn_opaque (con s)) (cn_cas (con s))"
  let ?e = "?d\<lparr>cn_wbuf := write_at 0 ?h (cn_wbuf (con s))\<rparr>"
  have b: "add_iov IO_wbuf 0 (int HEADER_LEN) ?e = Some (0, reply_conn ?h [] (con s))"
    using D ne by (simp add: add_iov_def add_io.simps limit_to_mtu_def msg_full_def IOV_MAX_def UDP_MAX_PAYLOAD_SIZE_def
      zero_msghdr_def ensure_iov_space_def put_iov_def set_iov_def upd_msg_def HEADER_LEN_def reply_conn_def Let_def)
  show ?thesis
    using a b D by (simp add: add_bin_header_def upd_con_def on_con_def put_wbuf_at_def add_part_def res_header_length Let_def)
qed

lemma text_added:
  assumes "plain_conn (con s)" "con t = reply_conn h [] (con s)" "text \<noteq> []" "length text < 1024"
  shows "add_part (IO_lit text) 0 (int (length text)) t = Some (t\<lparr>con := reply_conn h text (con s)\<rparr>)"
proof -
  note D = plain_connD [OF assms(1)]
  have ne: "cn_msglist (con s) \<noteq> []" "cn_iov (con s) \<noteq> []" using D by auto
  have "add_iov (IO_lit text) 0 (int (length text)) (con t) = Some (0, reply_conn h text (con s))"
    using D ne assms(3,4) unfolding assms(2) add_iov_def
    by (subst add_io.simps) (simp add: limit_to_mtu_def msg_full_def IOV_MAX_def UDP_MAX_PAYLOAD_SIZE_def
      ensure_iov_space_def put_iov_def set_iov_def upd_msg_def HEADER_LEN_def reply_conn_def Let_def numeral_2_eq_2)
  then show ?thesis by (simp add: add_part_def on_con_def)
qed

lemma reply_conn_plain:
  assumes "plain_conn c" "length h \<le> 2048"
  shows "plain_conn (reply_conn h text c)"
  using assms by (simp add: plain_conn_def reply_conn_def conn_sizes Let_def write_at_def)

text \<open>The answer to a request without key and value: the status and the text behind the header.\<close>

definition short_answer :: "os_info \<Rightarrow> int \<Rightarrow> nat \<times> string" where
  "short_answer os cmd = (if cmd = CMD_NOOP then (0, []) else if cmd = CMD_VERSION then (0, os_version os)
     else (RESPONSE_UNKNOWN_COMMAND, ''Unknown command''))"

definition short_command :: "int \<Rightarrow> bool" where
  "short_command cmd \<longleftrightarrow> cmd = CMD_NOOP \<or> cmd = CMD_VERSION \<or> CMD_GATKQ < cmd \<and> cmd < 256"

text \<open>The connection when the dispatcher has answered.\<close>

definition answering :: "os_info \<Rightarrow> int \<Rightarrow> conn \<Rightarrow> conn" where
  "answering os cmd c = (case short_answer os cmd of (err, text) \<Rightarrow>
     (reply_conn (res_header (nat cmd) 0 0 err (length text) (cn_opaque c) (cn_cas c)) text c)\<lparr>cn_state := conn_mwrite,
       cn_write_and_go := conn_new_cmd\<rparr>)"

lemma dispatch_short:
  assumes "plain_conn (con s)" "\<not> sasl (settings s)" "short_command cmd" "length (os_version os) < 1024" "os_version os \<noteq> []"
    and "cn_header (con s) = \<lparr>bh_magic = 0x80, bh_opcode = word_of_int cmd, bh_keylen = 0, bh_extlen = 0, bh_datatype = 0,
     bh_reserved = 0, bh_bodylen = 0, bh_opaque = oq, bh_cas = 0\<rparr>" "cn_cmd (con s) = cmd"
  shows "dispatch_bin_command os s = Some (upd_con (\<lambda>c. answering os cmd (c\<lparr>cn_noreply := False\<rparr>)) s)"
proof -
  let ?s = "upd_con (\<lambda>c. c\<lparr>cn_noreply := False\<rparr>) s"
  have P: "plain_conn (con ?s)" using assms(1) by (simp add: plain_conn_def upd_con_def)
  have op: "unat (word_of_int cmd :: u8) = nat cmd" "0 \<le> cmd" "cmd < 256"
    using assms(3) by (auto simp: short_command_def unsigned_of_int take_bit_int_eq_self)
  have q: "quiet_command cmd = None" using assms(3) by (auto simp: short_command_def quiet_command_def)
  have d: "dispatch_bin_command os s = dispatch_command os ?s"
    using assms(2,6,7) q by (simp add: dispatch_bin_command_def upd_con_def KEY_MAX_LENGTH_def)
  obtain msg where msg: "msg = ''Unknown command''" by blast
  then have e: "bin_errstr RESPONSE_UNKNOWN_COMMAND = Some msg" "msg \<noteq> []" "length msg < 1024" by (simp_all add: bin_errstr_def)
  have unknown: "short_answer os cmd = (RESPONSE_UNKNOWN_COMMAND, msg)" if "CMD_GATKQ < cmd"
    using that by (simp add: short_answer_def msg)
  note h = header_added [OF P] and t = text_added [OF P]
  consider "cmd = CMD_NOOP" | "cmd = CMD_VERSION" | "CMD_GATKQ < cmd" using assms(3) by (auto simp: short_command_def)
  then show ?thesis
  proof cases
    case 1
    then have "dispatch_command os ?s = write_bin_response IO_null 0 0 0 0 ?s"
      using assms(6,7) by (simp add: dispatch_command_def upd_con_def Let_def)
    also have "\<dots> = Some (upd_con (\<lambda>c. answering os cmd (c\<lparr>cn_noreply := False\<rparr>)) s)"
      unfolding write_bin_response_def h using 1 assms(6) op
      by (simp add: upd_con_def conn_set_state_def answering_def short_answer_def)
    finally show ?thesis using d by simp
  next
    case 2
    then have "dispatch_command os ?s = write_bin_response (IO_lit (os_version os)) 0 0 0 (length (os_version os)) ?s"
      using assms(6,7) by (simp add: dispatch_command_def upd_con_def Let_def)
    also have "\<dots> = Some (upd_con (\<lambda>c. answering os cmd (c\<lparr>cn_noreply := False\<rparr>)) s)"
      unfolding write_bin_response_def h using 2 assms(4-6) op
      by (simp add: t [OF _ assms(5,4)] upd_con_def conn_set_state_def answering_def short_answer_def)
    finally show ?thesis using d by simp
  next
    case 3
    then have "dispatch_command os ?s = write_bin_error RESPONSE_UNKNOWN_COMMAND 0 ?s"
      using assms(6,7) by (simp add: dispatch_command_def upd_con_def Let_def)
    also have "\<dots> = Some (upd_con (\<lambda>c. answering os cmd (c\<lparr>cn_noreply := False\<rparr>)) s)"
      unfolding write_bin_error_def e(1) Option.bind.simps h using 3 assms(6) op unknown
      by (simp add: t [OF _ e(2,3)] upd_con_def conn_set_state_def answering_def)
    finally show ?thesis using d by simp
  qed
qed

text \<open>The header is parsed and the command dispatched.\<close>

lemma answering_plain:
  assumes "plain_conn c"
  shows "plain_conn (answering os cmd c)"
proof -
  obtain err body where a: "short_answer os cmd = (err, body)" by (cases "short_answer os cmd") auto
  let ?h = "res_header (nat cmd) 0 0 err (length body) (cn_opaque c) (cn_cas c)"
  have "plain_conn (reply_conn ?h body c)" by (rule reply_conn_plain [OF assms]) (simp add: res_header_length)
  then show ?thesis by (simp add: answering_def a plain_conn_def)
qed

definition request_conn :: "int \<Rightarrow> conn \<Rightarrow> conn" where
  "request_conn cmd c = c\<lparr>cn_protocol := binary_prot, cn_header := \<lparr>bh_magic = 0x80, bh_opcode = word_of_int cmd, bh_keylen = 0,
     bh_extlen = 0, bh_datatype = 0, bh_reserved = 0, bh_bodylen = 0, bh_opaque = OPAQUE, bh_cas = 0\<rparr>, cn_cmd := cmd,
     cn_keylen := 0, cn_opaque := OPAQUE, cn_cas := 0, cn_noreply := False, cn_rbytes := 0, cn_rcurr := HEADER_LEN\<rparr>"

lemma parse_request:
  assumes S: "plain_server s" "cn_state (con s) = conn_parse_cmd" "cn_rbytes (con s) = 24" "cn_rcurr (con s) = 0"
    and R: "take 24 (cn_rbuf (con s)) = request_header cmd 0 0 0" "cn_protocol (con s) \<in> {binary_prot, negotiating_prot}"
    and V: "short_command cmd" "length (os_version os) < 1024" "os_version os \<noteq> []"
  shows "\<exists>t. step_parse_cmd os ramcube s = Some (False, t) \<and> con t = answering os cmd (request_conn cmd (con s))
    \<and> net_in t = net_in s \<and> net_out t = net_out s \<and> sent t = sent s \<and> settings t = settings s"
proof -
  have P: "plain_conn (con s)" and sasl: "\<not> sasl (settings s)" using S(1) by (simp_all add: plain_server_def)
  note D = plain_connD [OF P]
  have cmd: "0 \<le> cmd" "cmd < 256" using V(1) by (auto simp: short_command_def)
  obtain b bs where b: "cn_rbuf (con s) = b # bs" using D by (cases "cn_rbuf (con s)") auto
  have "b = byte PROTOCOL_BINARY_REQ" using R(1) by (simp add: b request_header_def take_Cons')
  then have b0: "of_char b = PROTOCOL_BINARY_REQ" by (simp add: PROTOCOL_BINARY_REQ_def)
  let ?s = "upd_con (\<lambda>c. c\<lparr>cn_protocol := binary_prot\<rparr>) s"
  have neg: "negotiate s = Some ?s"
    using R(2) b b0 D(1) by (cases "con s") (auto simp: negotiate_def upd_con_def)
  let ?h = "\<lparr>bh_magic = 0x80, bh_opcode = word_of_int cmd, bh_keylen = 0, bh_extlen = 0, bh_datatype = 0,
     bh_reserved = 0, bh_bodylen = 0, bh_opaque = OPAQUE, bh_cas = 0\<rparr> :: bin_header"
  have h: "decode_header (take HEADER_LEN (drop (cn_rcurr (con s)) (cn_rbuf (con s)))) = ?h"
    using decode_request [OF cmd, of 0 0 0] R(1) S(4) by (simp add: HEADER_LEN_def)
  let ?c = "(con s)\<lparr>cn_protocol := binary_prot, cn_header := ?h, cn_msgcurr := 0, cn_msgused := 0, cn_iovused := 0\<rparr>"
  let ?m = "zero_msghdr\<lparr>msg_namelen := cn_request_addr_size (con s)\<rparr>"
  let ?d = "?c\<lparr>cn_msglist := (cn_msglist (con s))[0 := ?m], cn_msgbytes := 0, cn_msgused := 1\<rparr>"
  have "cn_msglist (con s) \<noteq> []" using D by auto
  then have a: "add_msghdr ?c = Some (0, ?d)" using D
    by (simp add: add_msghdr_def add_io.simps new_msghdr_def upd_msg_def zero_msghdr_def)
  let ?e = "?d\<lparr>cn_cmd := cmd, cn_keylen := 0, cn_opaque := OPAQUE, cn_cas := 0\<rparr>"
  have Pe: "plain_conn ?e" using P by (simp add: plain_conn_def)
  have op: "uint (word_of_int cmd :: u8) = cmd" using cmd by (simp add: uint_word_of_int)
  have disp: "dispatch_bin_command os (s\<lparr>con := ?e\<rparr>) = Some (s\<lparr>con := answering os cmd (?e\<lparr>cn_noreply := False\<rparr>)\<rparr>)"
    using dispatch_short [of "s\<lparr>con := ?e\<rparr>" cmd os OPAQUE] Pe sasl V by (simp add: upd_con_def)
  let ?t = "s\<lparr>con := advance HEADER_LEN (answering os cmd (?e\<lparr>cn_noreply := False\<rparr>))\<rparr>"
  have "read_binary os ?s = Some (1, ?t)"
    using S(3,4) D(4,5) h a disp op
    by (simp add: read_binary_def upd_con_def on_con_def HEADER_LEN_def PROTOCOL_BINARY_REQ_def Let_def)
  then have run: "step_parse_cmd os ramcube s = Some (False, ?t)"
    using S(3,4) neg by (simp add: step_parse_cmd_def try_read_command_def upd_con_def)
  have "con ?t = answering os cmd (request_conn cmd (con s))"
    using S(3,4) by (simp add: answering_def request_conn_def advance_def reply_conn_def HEADER_LEN_def Let_def split: prod.splits)
  with run show ?thesis by (intro exI [of _ ?t]) simp
qed

text \<open>The answer goes out in one piece.\<close>

definition answer_bytes :: "os_info \<Rightarrow> int \<Rightarrow> string" where
  "answer_bytes os cmd = (case short_answer os cmd of (err, body) \<Rightarrow>
     res_header (nat cmd) 0 0 err (length body) OPAQUE 0 @ body)"

lemma send_answer:
  assumes P: "plain_conn c" and c: "con s = answering os cmd c" "cn_opaque c = OPAQUE" "cn_cas c = 0"
    and V: "length (os_version os) < 1024" and net: "net_out s = Takes (2 ^ 16) # es"
  shows "\<exists>t ml iv. step_mwrite s = Some (False, t) \<and> sent t = sent s @ answer_bytes os cmd \<and> settings t = settings s
    \<and> net_in t = net_in s \<and> length ml = cn_msgsize c \<and> msg_iovlen (ml ! 0) = 0 \<and> length iv = cn_iovsize c
    \<and> con t = (con s)\<lparr>cn_msglist := ml, cn_iov := iv\<rparr>"
proof -
  note D = plain_connD [OF P]
  obtain err body where a: "short_answer os cmd = (err, body)" by (cases "short_answer os cmd") auto
  then have body: "length body < 1024" using V by (auto simp: short_answer_def split: if_splits)
  let ?h = "res_header (nat cmd) 0 0 err (length body) OPAQUE 0"
  let ?n = "if body = [] then 1 else 2 :: nat"
  let ?m = "\<lparr>msg_iov = 0, msg_iovlen = ?n, msg_namelen = cn_request_addr_size c\<rparr>"
  have con: "con s = (reply_conn ?h body c)\<lparr>cn_state := conn_mwrite, cn_write_and_go := conn_new_cmd\<rparr>"
    using c by (simp add: answering_def a)
  have ml: "cn_msglist (con s) = (cn_msglist c)[0 := ?m]" "cn_msglist c \<noteq> []" "cn_msgcurr (con s) = 0" "cn_msgused (con s) = 1"
    "cn_wbuf (con s) = ?h @ drop 24 (cn_wbuf c)" "cn_transport (con s) = cn_transport c"
    using D by (auto simp: con reply_conn_def Let_def write_at_def res_header_length)
  obtain x y zs where iov: "cn_iov c = x # y # zs" using D(7,8) by (cases "cn_iov c"; cases "tl (cn_iov c)") auto
  have src: "src_bytes s IO_wbuf = ?h @ drop 24 (cn_wbuf c)" "src_bytes s (IO_lit body) = body"
    by (simp_all add: src_bytes_def ml Let_def)
  have hl: "length ?h = 24" by (rule res_header_length)
  have msg: "message_bytes s ?m = Some (answer_bytes os cmd)"
    using hl by (cases "body = []")
      (simp_all add: message_bytes_def msg_pieces_def con reply_conn_def Let_def iov piece_inside_def piece_bytes_def
        src [unfolded con reply_conn_def Let_def] src HEADER_LEN_def answer_bytes_def a)
  let ?k = "length (answer_bytes os cmd)"
  have k: "?k = 24 + length body" by (simp add: answer_bytes_def a hl)
  have take: "take (2 ^ 16) (answer_bytes os cmd) = answer_bytes os cmd" using k body by simp
  have skip: "upd_con skip_sent_msg s = s" using ml by (simp add: upd_con_def skip_sent_msg_def)
  let ?u = "upd_tstats (\<lambda>t. t\<lparr>bytes_written := bytes_written t + of_nat ?k\<rparr>) (s\<lparr>net_out := es, sent := sent s @ answer_bytes os cmd\<rparr>)"
  have u: "con ?u = con s" "sent ?u = sent s @ answer_bytes os cmd" "settings ?u = settings s" "net_in ?u = net_in s"
    by (simp_all add: upd_tstats_def Let_def)
  have send: "sendmsg ?m s = Some (Sent ?k, s\<lparr>net_out := es, sent := sent s @ answer_bytes os cmd\<rparr>)"
    unfolding sendmsg_def net list.case net_write.case msg option.map take ..
  have dp: "drop_pieces 0 ?n ?k (cn_iov (con s)) = (?n, 0, 0)"
    by (cases "body = []") (simp_all add: k con reply_conn_def Let_def iov HEADER_LEN_def numeral_2_eq_2)
  let ?ml = "(cn_msglist c)[0 := ?m\<lparr>msg_iov := ?n, msg_iovlen := 0\<rparr>]"
  have cons: "consume_msg ?k (con s) = Some ((con s)\<lparr>cn_msglist := ?ml\<rparr>)"
    using ml dp by (simp add: consume_msg_def upd_msg_def)
  have m0: "cn_msglist (con s) ! 0 = ?m" "\<not> length (cn_msglist (con s)) \<le> 0" "0 < ?k" using ml k by simp_all
  have "transmit s = Some (TRANSMIT_INCOMPLETE, ?u\<lparr>con := (con s)\<lparr>cn_msglist := ?ml\<rparr>\<rparr>)"
    unfolding transmit_def skip transmit_msg_def Let_def ml(3,4) m0(1) send Option.bind.simps
    using m0(2,3) cons u(1) by simp
  then have "step_mwrite s = Some (False, ?u\<lparr>con := (con s)\<lparr>cn_msglist := ?ml, cn_iov := cn_iov (con s)\<rparr>\<rparr>)"
    using D(1) ml(6) by (simp add: step_mwrite_def)
  moreover have "length ?ml = cn_msgsize c" "msg_iovlen (?ml ! 0) = 0" "length (cn_iov (con s)) = cn_iovsize c"
    using D ml by (simp_all add: con reply_conn_def Let_def)
  ultimately show ?thesis using u
    by (intro exI [of _ "?u\<lparr>con := (con s)\<lparr>cn_msglist := ?ml, cn_iov := cn_iov (con s)\<rparr>\<rparr>"] exI [of _ ?ml]
        exI [of _ "cn_iov (con s)"]) simp
qed

text \<open>The connection goes back to waiting.\<close>

lemma step_sent:
  assumes "plain_conn (con s)" "cn_msgcurr (con s) = 0" "cn_msgused (con s) = 1" "msg_iovlen (cn_msglist (con s) ! 0) = 0"
    and "cn_state (con s) = conn_mwrite" "cn_protocol (con s) = binary_prot" "cn_write_and_go (con s) = conn_new_cmd"
  shows "step_mwrite s = Some (False, upd_con (\<lambda>c. c\<lparr>cn_msgcurr := 1, cn_state := conn_new_cmd\<rparr>) s)"
  using assms plain_connD(1,15,16) [OF assms(1)]
  by (simp add: step_mwrite_def transmit_def transmit_msg_def upd_con_def skip_sent_msg_def sent_all_def conn_set_state_def)

lemma conn_shrink_plain: "plain_conn c \<Longrightarrow> conn_shrink c = c"
  using plain_connD [of c] by (simp add: conn_shrink_def try_shrink_def conn_sizes Let_def)

lemma step_reset:
  assumes "plain_conn (con s)" "cn_rbytes (con s) = 0" "0 \<le> nreqs"
  shows "step_new_cmd nreqs s = Some (False,
    upd_con (\<lambda>c. c\<lparr>cn_cmd := -1, cn_substate := bin_no_state, cn_state := conn_waiting\<rparr>) s)"
proof -
  have "plain_conn ((con s)\<lparr>cn_cmd := -1, cn_substate := bin_no_state\<rparr>)" using assms(1) by (simp add: plain_conn_def)
  from conn_shrink_plain [OF this] plain_connD(14) [OF assms(1)] show ?thesis
    using assms(2,3) by (simp add: step_new_cmd_def reset_cmd_handler_def upd_con_def conn_set_state_def)
qed

lemma step_wait:
  assumes "plain_conn (con s)"
  shows "step_waiting s = Some (True, upd_con (\<lambda>c. c\<lparr>cn_state := conn_read\<rparr>) s)"
  using plain_connD(17) [OF assms]
  by (simp add: step_waiting_def await_event_def update_event_def change_flags_def upd_con_def conn_set_state_def)

lemma drive_turn:
  assumes "machine_step os ramcube post (if cn_state (con s) = conn_new_cmd then nreqs - 1 else nreqs) s = Some (False, t)"
  shows "drive_loop os ramcube post nreqs s
    = drive_loop os ramcube post (if cn_state (con s) = conn_new_cmd then nreqs - 1 else nreqs) t"
  using assms by (subst drive_loop.simps) (simp add: Let_def)

text \<open>The whole way of a request: its answer, and the server is ready for the next.\<close>

lemma served:
  assumes R: "ready s" and V: "short_command cmd" "length (os_version os) < 1024" "os_version os \<noteq> []"
  shows "\<exists>t. serve_machine os ramcube post (request_header cmd 0 0 0) s = Some (answer_bytes os cmd, t) \<and> ready t"
proof -
  let ?req = "request_header cmd 0 0 0"
  let ?n = "reqs_per_event (settings s)"
  let ?s = "upd_con (\<lambda>c. c\<lparr>cn_which := EV_READ\<rparr>)
    (s\<lparr>net_in := [Arrived ?req], net_out := replicate 64 (Takes (2 ^ 16)), sent := []\<rparr>)"
  have len: "length ?req = 24" using request_header_length [of cmd 0 0 0] by (simp add: HEADER_LEN_def)
  then have req: "?req \<noteq> []" "length ?req = 24" by (metis list.size(3) zero_neq_numeral, simp)
  have "ready ?s" using R by (simp add: ready_def plain_server_def plain_conn_def upd_con_def)
  from read_request [OF this, of ?req] req obtain t1 where
    t1: "step_read ?s = Some (False, t1)" "plain_server t1" "cn_state (con t1) = conn_parse_cmd" "cn_rbytes (con t1) = 24"
    "cn_rcurr (con t1) = 0" "take 24 (cn_rbuf (con t1)) = ?req" "cn_protocol (con t1) = cn_protocol (con s)"
    "net_out t1 = replicate 64 (Takes (2 ^ 16))" "sent t1 = []" "settings t1 = settings s"
    by (auto simp: upd_con_def)
  have "cn_protocol (con t1) \<in> {binary_prot, negotiating_prot}" using R t1(7) by (simp add: ready_def)
  from parse_request [OF t1(2-6) this V] obtain t2 where
    t2: "step_parse_cmd os ramcube t1 = Some (False, t2)" "con t2 = answering os cmd (request_conn cmd (con t1))"
    "net_out t2 = net_out t1" "sent t2 = sent t1" "settings t2 = settings t1" by blast
  let ?c = "request_conn cmd (con t1)"
  have P: "plain_conn ?c" using t1(2) by (simp add: plain_server_def request_conn_def plain_conn_def)
  have c: "cn_opaque ?c = OPAQUE" "cn_cas ?c = 0" "cn_rbytes ?c = 0" "cn_protocol ?c = binary_prot"
    by (simp_all add: request_conn_def)
  have net: "net_out t2 = Takes (2 ^ 16) # replicate 63 (Takes (2 ^ 16))"
    unfolding t2(3) t1(8) using replicate_Suc [of 63 "Takes (2 ^ 16)"] by simp
  from send_answer [OF P t2(2) c(1,2) V(2) net] obtain t3 ml iv where
    t3: "step_mwrite t2 = Some (False, t3)" "sent t3 = sent t2 @ answer_bytes os cmd" "settings t3 = settings t2"
    "length ml = cn_msgsize ?c" "msg_iovlen (ml ! 0) = 0" "length iv = cn_iovsize ?c"
    "con t3 = (con t2)\<lparr>cn_msglist := ml, cn_iov := iv\<rparr>" by blast
  have A: "plain_conn (con t2)" unfolding t2(2) by (rule answering_plain [OF P])
  have A': "cn_msgcurr (con t2) = 0" "cn_msgused (con t2) = 1" "cn_state (con t2) = conn_mwrite"
    "cn_protocol (con t2) = binary_prot" "cn_write_and_go (con t2) = conn_new_cmd" "cn_rbytes (con t2) = 0"
    "cn_msgsize (con t2) = cn_msgsize ?c" "cn_iovsize (con t2) = cn_iovsize ?c"
    unfolding t2(2) using c(3,4) by (simp_all add: answering_def reply_conn_def Let_def split: prod.splits)
  have P3: "plain_conn (con t3)" using A t3(4,6) A'(7,8) by (simp add: t3(7) plain_conn_def)
  let ?t4 = "upd_con (\<lambda>c. c\<lparr>cn_msgcurr := 1, cn_state := conn_new_cmd\<rparr>) t3"
  have t4: "step_mwrite t3 = Some (False, ?t4)" using P3 t3(5) A' by (intro step_sent) (simp_all add: t3(7))
  have n: "0 < ?n" using R by (simp add: ready_def plain_server_def)
  let ?t5 = "upd_con (\<lambda>c. c\<lparr>cn_cmd := -1, cn_substate := bin_no_state, cn_state := conn_waiting\<rparr>) ?t4"
  have P4: "plain_conn (con ?t4)" "plain_conn (con ?t5)" using P3 by (simp_all add: upd_con_def plain_conn_def)
  have t5: "step_new_cmd (?n - 1) ?t4 = Some (False, ?t5)"
    using n A'(6) by (intro step_reset [OF P4(1)]) (simp_all add: upd_con_def t3(7))
  let ?t6 = "upd_con (\<lambda>c. c\<lparr>cn_state := conn_read\<rparr>) ?t5"
  note t6 = step_wait [OF P4(2)]
  have st: "cn_state (con ?s) = conn_read" "cn_state (con t2) = conn_mwrite" "cn_state (con t3) = conn_mwrite"
    "cn_state (con ?t4) = conn_new_cmd" "cn_state (con ?t5) = conn_waiting"
    using R A'(3) by (simp_all add: ready_def upd_con_def t3(7))
  have "drive_loop os ramcube post ?n ?s = drive_loop os ramcube post ?n t1"
    using drive_turn [of os ramcube post ?s ?n t1] t1(1) st(1) by (simp add: machine_step_def)
  also have "\<dots> = drive_loop os ramcube post ?n t2"
    using drive_turn [of os ramcube post t1 ?n t2] t2(1) t1(3) by (simp add: machine_step_def)
  also have "\<dots> = drive_loop os ramcube post ?n t3"
    using drive_turn [of os ramcube post t2 ?n t3] t3(1) st(2) by (simp add: machine_step_def)
  also have "\<dots> = drive_loop os ramcube post ?n ?t4"
    using drive_turn [of os ramcube post t3 ?n ?t4] t4 st(3) by (simp add: machine_step_def)
  also have "\<dots> = drive_loop os ramcube post (?n - 1) ?t5"
    using drive_turn [of os ramcube post ?t4 ?n ?t5] t5 st(4) by (simp add: machine_step_def)
  also have "\<dots> = Some ?t6"
    using t6 st(5) by (subst drive_loop.simps) (simp add: machine_step_def Let_def)
  finally have "event_handler os ramcube post (cn_sfd (con s)) EV_READ
      (s\<lparr>net_in := [Arrived ?req], net_out := replicate 64 (Takes (2 ^ 16)), sent := []\<rparr>) = Some ?t6"
    by (simp add: event_handler_def drive_machine_def upd_con_def)
  moreover have "sent ?t6 = answer_bytes os cmd" using t3(2) t2(4) t1(9) by (simp add: upd_con_def)
  moreover have "plain_conn (con ?t6)" using P4(2) by (simp add: upd_con_def plain_conn_def)
  then have "ready ?t6" using t1(2,10) t2(5) t3(3) A' by (simp add: ready_def plain_server_def upd_con_def t3(7))
  ultimately show ?thesis by (auto simp: serve_machine_def)
qed

section \<open>The tests of requests without key and value pass\<close>

text \<open>A client that has read all answers, of a server that is ready.\<close>

definition idle :: "'a machine_scheme client \<Rightarrow> bool" where
  "idle cl \<longleftrightarrow> cl_out cl = [] \<and> cl_in cl = [] \<and> ready (cl_peer cl)"

lemma ask_short:
  assumes net: "serve net = serve_machine os ramcube post" and I: "idle cl"
    and V: "short_command cmd" "os_version os \<noteq> []" "length (os_version os) \<le> 1000"
  shows "\<exists>cl'. ask net (raw_command BUFSZ cmd [] []) cmd (fst (short_answer os cmd)) cl = Some cl' \<and> idle cl'"
proof -
  obtain err body where a: "short_answer os cmd = (err, body)" by (cases "short_answer os cmd") auto
  have body: "length body \<le> 1000" "err < 2 ^ 16" using a V(3) by (auto simp: short_answer_def split: if_splits)
  let ?req = "request_header cmd 0 0 0"
  have ne: "?req \<noteq> []" using request_header_length [of cmd 0 0 0] by (metis HEADER_LEN_def list.size(3) zero_neq_numeral)
  have raw: "raw_command BUFSZ cmd [] [] = Some ?req" by (simp add: raw_command_def HEADER_LEN_def)
  from served [of "cl_peer cl" cmd os ramcube post] I V obtain p where p:
    "serve_machine os ramcube post ?req (cl_peer cl) = Some (answer_bytes os cmd, p)" "ready p" by (auto simp: idle_def)
  let ?cl = "safe_send ?req cl"
  have s: "cl_out ?cl = ?req" "cl_in ?cl = []" "cl_peer ?cl = cl_peer cl" using safe_send_out [of ?req cl] I by (auto simp: idle_def)
  let ?cl1 = "?cl\<lparr>cl_peer := p, cl_out := [], cl_in := answer_bytes os cmd\<rparr>"
  have e: "exchange net ?cl = Some ?cl1" using s ne net p(1) by (simp add: exchange_def)
  have cmd: "nat cmd < 256" "int (nat cmd) = cmd" using V(1) by (auto simp: short_command_def)
  have sizes: "(0 :: nat) < 2 ^ 16" "(0 :: nat) < 256" "HEADER_LEN < BUFSZ" "HEADER_LEN + length body \<le> BUFSZ" "length body < 2 ^ 32"
    using body(1) by (simp_all add: HEADER_LEN_def)
  have ans: "cl_in ?cl1 = res_header (nat cmd) 0 0 err (length body) OPAQUE 0 @ body @ []"
    by (simp add: answer_bytes_def a)
  have out: "cl_out ?cl1 = []" by simp
  let ?r = "\<lparr>r_magic = PROTOCOL_BINARY_RES, r_opcode = nat cmd, r_keylen = 0, r_extlen = 0, r_datatype = 0, r_status = err,
    r_bodylen = length body, r_opaque = unat OPAQUE, r_cas = be64 (unat (0 :: u64)), r_body = body\<rparr>"
  obtain cl' where r: "safe_recv_packet net BUFSZ ?cl = Some (?r, cl') \<and> cl_in cl' = [] \<and> cl_out cl' = [] \<and> cl_peer cl' = cl_peer ?cl1"
    using packet_in [OF e out ans cmd(1) sizes(1,2) body(2) sizes(3-5)] ..
  have "replicate 8 x = [x, x, x, x, x, x, x, x]" for x :: char by (simp add: eval_nat_numeral)
  moreover have "char_of (0 :: nat) = CHR 0x00" by (simp add: char_of_def)
  ultimately have cas: "be64 0 = no_cas" by (simp add: be64_def be32_def byte_def no_cas_def)
  have "validate_response_header ?r cmd err"
    using V(1,2) a cmd(2) cas by (auto simp: validate_response_header_def short_answer_def short_command_def split: if_splits)
  then have "ask net (raw_command BUFSZ cmd [] []) cmd err cl = Some cl'" by (simp add: ask_def raw expect_def r)
  then show ?thesis using a r p(2) by (simp add: idle_def)
qed

lemma illegal_loop_passes:
  assumes net: "serve net = serve_machine os ramcube post" and V: "os_version os \<noteq> []" "length (os_version os) \<le> 1000"
  shows "cmd = 0 \<or> 36 < uint cmd \<Longrightarrow> idle cl \<Longrightarrow> \<exists>cl'. illegal_loop cmd net cl = Some cl' \<and> idle cl'"
proof (induction "nat (256 - uint cmd)" arbitrary: cmd cl rule: less_induct)
  case less
  show ?case
  proof (cases "cmd = 0")
    case True
    then show ?thesis using less.prems by (simp add: illegal_loop.simps)
  next
    case False
    then have c: "36 < uint cmd" "uint cmd < 256" using less.prems(1) uint_bounded [of cmd] by auto
    then have "short_command (uint cmd)" "fst (short_answer os (uint cmd)) = RESPONSE_UNKNOWN_COMMAND"
      by (simp_all add: short_command_def short_answer_def)
    with ask_short [OF net less.prems(2) _ V, of "uint cmd"] obtain cl1 where
      c1: "ask net (raw_command BUFSZ (uint cmd) [] []) (uint cmd) RESPONSE_UNKNOWN_COMMAND cl = Some cl1" "idle cl1" by auto
    have n: "cmd + 1 = 0 \<or> uint (cmd + 1) = uint cmd + 1"
      using c by (cases "uint cmd = 255") (simp_all add: uint_word_ariths word_uint_eq_iff mod_pos_pos_trivial)
    then have "\<exists>cl'. illegal_loop (cmd + 1) net cl1 = Some cl' \<and> idle cl'"
    proof
      assume "cmd + 1 = 0"
      then show ?thesis using c1(2) by (simp add: illegal_loop.simps)
    next
      assume "uint (cmd + 1) = uint cmd + 1"
      then show ?thesis using less.hyps [of "cmd + 1" cl1] c c1(2) by auto
    qed
    then show ?thesis using False c1(1) by (subst illegal_loop.simps) simp
  qed
qed

text \<open>Property C19.
  The server passes the tests of the repository for requests without key and value: whatever it did before, if the
  connection is waiting for a request, the NOOP, the VERSION and each of the 219 commands that do not exist are read,
  dispatched and answered by exactly the packet that the client accepts, however the kernel cuts the
  calls of the client, and the connection is ready for the next request.\<close>

theorem short_tests_pass:
  assumes "serve net = serve_machine os ramcube post" "idle cl" "os_version os \<noteq> []" "length (os_version os) \<le> 1000"
  shows "\<exists>cl1 cl2 cl3. test_binary_noop net cl = Some (TEST_PASS, cl1) \<and> test_binary_version net cl1 = Some (TEST_PASS, cl2)
    \<and> test_binary_illegal net cl2 = Some (TEST_PASS, cl3) \<and> idle cl3"
proof -
  have sc: "short_command CMD_NOOP" "short_command CMD_VERSION" "fst (short_answer os CMD_NOOP) = 0" "fst (short_answer os CMD_VERSION) = 0"
    by (simp_all add: short_command_def short_answer_def)
  from ask_short [OF assms(1,2) sc(1) assms(3,4)] sc(3) obtain cl1 where
    1: "ask net (raw_command BUFSZ CMD_NOOP [] []) CMD_NOOP 0 cl = Some cl1" "idle cl1" by auto
  from ask_short [OF assms(1) 1(2) sc(2) assms(3,4)] sc(4) obtain cl2 where
    2: "ask net (raw_command BUFSZ CMD_VERSION [] []) CMD_VERSION 0 cl1 = Some cl2" "idle cl2" by auto
  from illegal_loop_passes [OF assms(1,3,4) _ 2(2), of "0x25"] obtain cl3 where
    3: "illegal_loop 0x25 net cl2 = Some cl3" "idle cl3" by auto
  from 1 2 3 show ?thesis
    by (auto simp: test_binary_noop_def test_binary_version_def test_binary_illegal_def)
qed

text \<open>A connection as \<open>conn_new\<close> makes it, when its first event has fired.\<close>

definition ready_conn :: conn where
  "ready_conn = (the (alloc_conn DATA_BUFFER_SIZE (replicate 6 True)))\<lparr>cn_protocol := negotiating_prot, cn_transport := tcp_transport,
     cn_sfd := 7, cn_state := conn_read, cn_ev_flags := EV_READ + EV_PERSIST, cn_item := NULL\<rparr>"

lemma ready_boot: "ready (machine_boot ready_conn [] [])"
proof -
  have a: "alloc_conn DATA_BUFFER_SIZE (replicate 6 True) = Some ((zero_conn [])\<lparr>cn_rbuf := replicate DATA_BUFFER_SIZE (CHR 0x00),
        cn_rsize := DATA_BUFFER_SIZE,
        cn_wbuf := replicate DATA_BUFFER_SIZE (CHR 0x00), cn_wsize := DATA_BUFFER_SIZE,
        cn_ilist := replicate ITEM_LIST_INITIAL NULL, cn_isize := ITEM_LIST_INITIAL,
        cn_suffixlist := replicate SUFFIX_LIST_INITIAL NULL, cn_suffixsize := SUFFIX_LIST_INITIAL,
        cn_iov := replicate IOV_LIST_INITIAL zero_iovec, cn_iovsize := IOV_LIST_INITIAL,
        cn_msglist := replicate MSG_LIST_INITIAL zero_msghdr, cn_msgsize := MSG_LIST_INITIAL, cn_hdrsize := 0\<rparr>)"
    by (simp add: alloc_conn_def eval_nat_numeral)
  have "plain_conn ready_conn" unfolding ready_conn_def a
    by (simp add: plain_conn_def zero_conn_def conn_sizes)
  moreover have "cn_state ready_conn = conn_read" "cn_rbytes ready_conn = 0" "cn_protocol ready_conn = negotiating_prot"
    unfolding ready_conn_def a by (simp_all add: zero_conn_def)
  moreover have "settings server_boot = settings_init" by (simp add: server_boot_def access_boot_def)
  ultimately show ?thesis by (simp add: ready_def plain_server_def settings_init_def)
qed

definition tests_os :: os_info where
  "tests_os = \<lparr>os_pid = 1, os_version = ''1.4.15'', os_libevent = ''2.0.21'', os_pointer_size = 64, os_utime = (0, 0),
     os_stime = (0, 0)\<rparr>"

definition tests_network :: "machine network" where
  "tests_network = \<lparr>serve = serve_machine tests_os (\<lambda>k ts s. None) (\<lambda>s. None), connect = (\<lambda>s. s), hung_up = (\<lambda>s. False),
     sleep = (\<lambda>n s. s\<lparr>current_time := current_time s + of_nat n\<rparr>)\<rparr>"

text \<open>A client whose calls move three bytes each.\<close>

definition tests_client :: "machine client" where
  "tests_client = \<lparr>cl_peer = machine_boot ready_conn [] [], cl_out = [], cl_in = [], cl_cut = (\<lambda>k. 2), cl_calls = 0\<rparr>"

theorem short_tests_pass_witness:
  "\<exists>cl1 cl2 cl3. test_binary_noop tests_network tests_client = Some (TEST_PASS, cl1)
     \<and> test_binary_version tests_network cl1 = Some (TEST_PASS, cl2)
     \<and> test_binary_illegal tests_network cl2 = Some (TEST_PASS, cl3) \<and> idle cl3"
  by (rule short_tests_pass [where os = tests_os and ramcube = "\<lambda>k ts s. None" and post = "\<lambda>s. None"])
    (simp_all add: tests_network_def tests_client_def idle_def ready_boot tests_os_def)

end
