(* ===== verification/Spec2Isabelle.thy ===== *)
theory Spec2Isabelle
  imports Hash Util Memory Assoc Interfaces Slabs Slab_Reassign Items Cache_Ops Cache_Alloc Slab_Move
    Thread_Stats Conn_Queue Object_Cache Prefix_Stats Item_Access
    Out_Vec Conn Requests Store Stats Ascii Binary Machine
    Delivery Dispatch Overruns Text_Commands
    Segments Segment_Store Cluster Replication
    Options Sockets Workers Startup Unit_Tests Test_Client Client_Server
begin

text \<open>
  \<^bold>\<open>A verification development for the memcached 1.4.15 server with the RAMCube additions.\<close>

  \<^bold>\<open>The program.\<close> A server keeps items under keys in memory. \<open>main\<close> reads the command line, sets the
  subsystems up, starts the worker threads and opens the sockets. The listening thread accepts
  connections and hands them to the workers in turn. Each worker runs a state machine per connection:
  it reads bytes, cuts them into requests of the text or the binary protocol, executes these on the
  cache and sends the reply. The cache is a hash table over items, whose chunks come from
  the slab allocator and which hang in one LRU queue per size class. Two maintenance threads expand the
  table and move pages between classes. A RAMCube node in addition copies every item that is set to a
  backup, keeps the copies of others in segments, in memory and on disk, and watches other nodes by heartbeats.

  \<^bold>\<open>State.\<close> The state of the process is one record that grows by extension along the theories:
  \<open>mc\<close> (\<open>Memory\<close>: the heap of items, settings, statistics, the clock), \<open>assoc\<close>, \<open>slabs\<close>, \<open>reassign\<close>, \<open>items\<close>,
  \<open>mover\<close>, \<open>access\<close>, \<open>server\<close> (\<open>Conn\<close>: the connection being served as \<open>con\<close>, free connections, thread
  statistics), \<open>machine\<close> (the network and the dispatcher) and \<open>cluster\<close> (peers and segments). Operations take and
  return it, and are polymorphic in the extension, so that a later component runs those of an earlier one on
  its own state. Global variables, static variables and what hangs from pointers are fields; a pointer
  to an item is an address in the store \<open>mem\<close>, so aliasing is modelled. Machine integers are words where they
  wrap, and integers or naturals where the code keeps them in range.

  \<^bold>\<open>Results.\<close> \<open>None\<close> is a call that does not return: a failed assertion (the model is the build with
  assertions), an access outside an array, a null dereference, a loop that runs forever. Errors
  the code reports are values. In the start-up theories \<open>Inl\<close> is the exit status of the process.

  \<^bold>\<open>Theories, by the files they model.\<close>
  \<^item> \<open>Prelude\<close>: words, addresses, singly and doubly linked lists in a store, and the collection \<open>word_nat\<close>.
    \<open>Clib\<close>: character classes, number scanning and printing of the C library. \<open>Interfaces\<close>: the contracts below.
  \<^item> \<open>Hash\<close>: \<open>hash.c\<close>. \<open>Util\<close>: \<open>util.c\<close>. \<open>Memory\<close>: the types of \<open>memcached.h\<close>.
  \<^item> \<open>Assoc\<close>: \<open>assoc.c\<close>, the table with its incremental expansion. \<open>table_reach\<close> is its step relation.
  \<^item> \<open>Slabs\<close>, \<open>Slab_Reassign\<close>, \<open>Slab_Move\<close>: \<open>slabs.c\<close>; the allocator, the request of a page move, the mover
    and the automover.
  \<^item> \<open>Items\<close>: \<open>items.c\<close>; the cache invariant \<open>cache_rel\<close> says that the table represents a map of keys, that each LRU
    queue is a doubly linked list of the linked items, that the free lists hold the rest, and that the
    reference counts add up. \<open>Cache_Ops\<close> and \<open>Cache_Alloc\<close> show what each operation does to it.
  \<^item> \<open>Item_Access\<close>: the item locks and locked wrappers of \<open>thread.c\<close>. \<open>Thread_Stats\<close>: its counters. \<open>Conn_Queue\<close>: its
    queues and dispatch. \<open>Workers\<close>: setting the workers up, and the handler of their pipes.
  \<^item> \<open>Object_Cache\<close>: \<open>cache.c\<close>, with redzones. \<open>Prefix_Stats\<close>: \<open>stats.c\<close>.
  \<^item> \<open>Out_Vec\<close>, \<open>Conn\<close>, \<open>Requests\<close>, \<open>Store\<close>, \<open>Stats\<close>, \<open>Ascii\<close>, \<open>Binary\<close>, \<open>Machine\<close>: \<open>memcached.c\<close>; the scatter lists of a
    reply, the connection, the tokenizer and times, the storage commands, the reports, the
    handlers of the text and of the binary protocol, and the state machine with its system calls.
  \<^item> \<open>Delivery\<close>, \<open>Dispatch\<close>, \<open>Overruns\<close>, \<open>Text_Commands\<close>: what these do together.
  \<^item> \<open>Segments\<close>: \<open>Object.c\<close>, \<open>Segment.c\<close>; \<open>Cluster\<close>: \<open>ramcube.c\<close>. \<open>Segment_Store\<close> and \<open>Replication\<close>: what they do.
  \<^item> \<open>Unit_Tests\<close>, \<open>Test_Client\<close>: \<open>testapp.c\<close>, its unit tests and its client of the binary protocol with what each test
    sends and expects. \<open>Client_Server\<close>: this client against the state machine.
  \<^item> \<open>Options\<close>, \<open>Sockets\<close>, \<open>Startup\<close>: the option loop, the listening sockets and the rest of \<open>main\<close> in \<open>memcached.c\<close>,
    with \<open>daemon.c\<close>.

  \<^bold>\<open>Interfaces.\<close> \<open>lifo_pool\<close> (what was put in last comes out first, nothing comes out twice) is interpreted on
  the free chunks of a slab class, the free list of queue items and the object cache. \<open>fifo_queue\<close> is
  interpreted on the queue of a worker. \<open>key_table\<close> states the laws of a table over a map, \<open>maintained_table\<close>
  adds maintenance that changes nothing a client sees; both are interpreted on the operations of \<open>Assoc\<close>, and the
  properties of the table rest on that interpretation.

  \<^bold>\<open>What the groups of lemmas show.\<close>
  \<^item> Cache: lookup in every reachable state of the table (\<open>table_lookup_correct\<close>), the end of an expansion,
    the effect of every storage command on the map of keys, reference counting and when chunks are
    freed, expiry and flushing, recency, the memory limit, disjointness of chunks, the choice of a size class.
  \<^item> Connections: a reply is sent whole and in order whatever the socket takes, a data block is
    collected whatever pieces it arrives in, binary requests are dispatched without a failed assertion,
    the tokens are the words of a line, the buffers of the reports suffice.
  \<^item> Threads and start-up: the options leave settings in range, every bindable address is
    served, every accepted connection is created once, by its worker, in order, and the
    invariants of the cache hold when the event loop starts.
  \<^item> RAMCube: the backup refines a list of commands per primary, a written segment is recovered, a set is
    copied to the backup that its key selects, peers connect once, a failed primary is reported in time.
  \<^item> Tests: the unit tests pass whatever memory holds, requests of the client are decoded as they were meant, and
    requests without key and value are served over the whole way from the socket to the client and back.
  \<^item> Error behaviour: the properties of kind error and the findings of the manifest say where the code reads
    or writes outside its buffers, or does something other than it means to.

  \<^bold>\<open>Loops, fuel and bounds.\<close> A loop whose end needs an argument is a \<open>function\<close> with a measure: the body of the
  hash, the size classes, the growth of the buffer of a report, the item dump, the configuration file, the tokens of \<open>strtok\<close>, lines of a file, \<open>getopt\<close>, the
  suboptions, the list of interfaces. A loop that can run forever on some state is a
  \<open>partial_function (option)\<close>, so that running forever is \<open>None\<close>: chains of the table, the pieces of a large buffer,
  the keys of a \<open>get\<close>, the histogram of sizes, reading and driving a connection, flushing, walks
  over segments and seglets, the search for the send buffer. The properties about them state that they
  return. The only fuel is a count: of runs of the state machine, one per event of the socket, as
  many as the list of events given has; of nested runs in \<open>drive_node\<close>, one per connection that is
  answered; and of turns round the size classes in \<open>pick_loop\<close> and the like, which is the bound of the
  source. Sizes are those of the 64-bit build; \<open>double\<close> arithmetic in \<open>slabs_init\<close> is exact rational
  arithmetic rounded to 53 bits.

  \<^bold>\<open>Parameters.\<close> The answers of \<open>malloc\<close> are a list of addresses or of Booleans, those of the network and of the
  file system lists or records of answers, the time is a field or an argument. \<open>getaddrinfo\<close>, name
  resolution and the order of \<open>readdir\<close> are function arguments; the hooks of RAMCube are arguments of the handlers
  of \<open>Ascii\<close> and are instantiated in \<open>Cluster\<close>.

  \<^bold>\<open>Not modelled, and why.\<close>
  \<^item> Interleavings inside an operation: each operation under its lock is atomic. Mutexes appear where the code
    tests them (\<open>item_trylock\<close>) or where taking one twice would block. The threads
    themselves are steps on the shared state.
  \<^item> Messages on the standard error stream, probes, and the printouts of \<open>ramcube.c\<close>.
  \<^item> Uninitialised memory is read as zero; the NULs that the tokenizer writes into the line and
    header fields converted in place are in the results, not in the buffer.
  \<^item> Writes to the notify pipes, and the socket options that are only requested, succeed. libevent is its
    documented behaviour: buffers are strings, timers are events, an added event fires.
  \<^item> \<open>atof\<close> of infinities, hexadecimal numbers and NaN; overlapping \<open>strcpy\<close> is a copy forwards; the
    proxies that a RAMCube node gives its listening connections, which are never used.
  \<^item> SASL (\<open>sasl_defs.c\<close>), large pages and the privileges of Solaris (\<open>solaris_priv.c\<close>): compiled on request or on other
    systems only. The stubs that take their place are modelled.
  \<^item> The tests of \<open>testapp.c\<close> that start processes or use the text protocol; the tests of keys and values are
    definitions without a theorem. \<open>sizes.c\<close>, \<open>timedrun.c\<close>: tools. \<open>Log.c\<close>, \<open>Storage.c\<close>: no code. \<open>sys_link\<close>: copies of
    the headers of the C library.
\<close>

end
